(* ===== verification/XPrelude.thy ===== *)
theory XPrelude
  imports Main "HOL-Library.Word" "HOL-Library.Code_Target_Nat"
begin

unbundle bit_operations_syntax

text \<open>
  Shared vocabulary of the development: the machine integers of the kernel sources, the
  outcome of an operation that may have undefined behaviour, flat memory with little-endian
  loads and stores, and the generic word and list lemmas the component theories share.

  Conventions. A Rust \<open>u8\<close>, \<open>u16\<close>, \<open>u32\<close>, \<open>u64\<close> or \<open>usize\<close> whose bits or overflow
  matter is a word of that width (\<open>usize\<close> has 64 bits on the x86_64 target); a count or an
  offset that cannot overflow is a \<open>nat\<close>. A raw pointer dereference outside its allocation,
  which Rust leaves undefined, is the explicit outcome \<open>Undef\<close>.
\<close>

type_synonym u8 = "8 word"
type_synonym u16 = "16 word"
type_synonym u32 = "32 word"
type_synonym u64 = "64 word"

type_synonym ntstatus = "32 word"

definition STATUS_SUCCESS :: ntstatus where "STATUS_SUCCESS = 0"
definition STATUS_INVALID_CID :: ntstatus where "STATUS_INVALID_CID = 0xC000000B"
definition STATUS_INVALID_PARAMETER :: ntstatus where "STATUS_INVALID_PARAMETER = 0xC000000D"
definition STATUS_NO_MEMORY :: ntstatus where "STATUS_NO_MEMORY = 0xC0000017"
definition STATUS_CONFLICTING_ADDRESSES :: ntstatus where
  "STATUS_CONFLICTING_ADDRESSES = 0xC0000018"
definition STATUS_ACCESS_DENIED :: ntstatus where "STATUS_ACCESS_DENIED = 0xC0000022"
definition STATUS_INVALID_ACL :: ntstatus where "STATUS_INVALID_ACL = 0xC0000077"
definition STATUS_INVALID_SID :: ntstatus where "STATUS_INVALID_SID = 0xC0000078"
definition STATUS_BUFFER_TOO_SMALL :: ntstatus where "STATUS_BUFFER_TOO_SMALL = 0xC0000023"
definition STATUS_INVALID_SECURITY_DESCR :: ntstatus where
  "STATUS_INVALID_SECURITY_DESCR = 0xC0000079"

definition STATUS_INVALID_HANDLE :: ntstatus where "STATUS_INVALID_HANDLE = 0xC0000008"
definition STATUS_INSUFFICIENT_RESOURCES :: ntstatus where
  "STATUS_INSUFFICIENT_RESOURCES = 0xC000009A"

lemmas status_defs = STATUS_INVALID_HANDLE_def STATUS_INSUFFICIENT_RESOURCES_def STATUS_SUCCESS_def STATUS_INVALID_CID_def STATUS_INVALID_PARAMETER_def
  STATUS_NO_MEMORY_def STATUS_CONFLICTING_ADDRESSES_def STATUS_ACCESS_DENIED_def
  STATUS_INVALID_ACL_def STATUS_INVALID_SID_def STATUS_BUFFER_TOO_SMALL_def
  STATUS_INVALID_SECURITY_DESCR_def

named_theorems word_facts \<open>facts that turn word operations into arithmetic on nat\<close>
named_theorems inv_intros \<open>preservation of component invariants\<close>

section \<open>Outcomes\<close>

text \<open>Code computes a value, has undefined behaviour (an unsafe block), or panics (a failed check).\<close>

datatype 'a outcome = Ret 'a | Undef | Panic

fun bind_out :: "'a outcome \<Rightarrow> ('a \<Rightarrow> 'b outcome) \<Rightarrow> 'b outcome" where
  "bind_out (Ret a) f = f a"
| "bind_out Undef f = Undef"
| "bind_out Panic f = Panic"

lemma bind_out_Ret_iff:
  "bind_out m f = Ret b \<longleftrightarrow> (\<exists>a. m = Ret a \<and> f a = Ret b)"
  by (cases m) auto

text \<open>
  Weakest preconditions: the computation returns, and what it returns satisfies the
  postcondition. So a statement \<open>wp_out m P\<close> always says that \<open>m\<close> has no undefined
  behaviour and does not panic.
\<close>

fun wp_out :: "'a outcome \<Rightarrow> ('a \<Rightarrow> bool) \<Rightarrow> bool" where
  "wp_out (Ret a) P \<longleftrightarrow> P a"
| "wp_out Undef P \<longleftrightarrow> False"
| "wp_out Panic P \<longleftrightarrow> False"

lemma wp_bind [simp]: "wp_out (bind_out m f) P \<longleftrightarrow> wp_out m (\<lambda>a. wp_out (f a) P)"
  by (cases m) auto

lemma wp_mono: "wp_out m P \<Longrightarrow> (\<And>a. P a \<Longrightarrow> Q a) \<Longrightarrow> wp_out m Q"
  by (cases m) auto

lemma wp_iff: "wp_out m P \<longleftrightarrow> (\<exists>a. m = Ret a \<and> P a)"
  by (cases m) auto

lemma wp_conj: "wp_out m P \<Longrightarrow> wp_out m Q \<Longrightarrow> wp_out m (\<lambda>a. P a \<and> Q a)"
  by (cases m) auto

lemma wp_if: "(b \<Longrightarrow> wp_out m P) \<Longrightarrow> (\<not> b \<Longrightarrow> wp_out n P) \<Longrightarrow> wp_out (if b then m else n) P"
  by simp

section \<open>Words\<close>

lemma unat_lt_64 [simp]: "unat (x :: u64) < 18446744073709551616"
  using unsigned_less [of x, where 'a = nat] by simp

lemma unat_lt_32 [simp]: "unat (x :: u32) < 4294967296"
  using unsigned_less [of x, where 'a = nat] by simp

lemma unat_lt_16 [simp]: "unat (x :: u16) < 65536"
  using unsigned_less [of x, where 'a = nat] by simp

lemma unat_lt_8 [simp]: "unat (x :: u8) < 256"
  using unsigned_less [of x, where 'a = nat] by simp

lemma unat_max_64 [simp]: "unat (- 1 :: u64) = 18446744073709551615"
  by (simp add: unsigned_minus_1_eq_mask mask_eq_exp_minus_1)

lemma unat_of_nat_64 [word_facts]: "n < 18446744073709551616 \<Longrightarrow> unat (of_nat n :: u64) = n"
  by (simp add: unat_of_nat)

lemma unat_of_nat_32 [word_facts]: "n < 4294967296 \<Longrightarrow> unat (of_nat n :: u32) = n"
  by (simp add: unat_of_nat)

lemma unat_of_nat_16 [word_facts]: "n < 65536 \<Longrightarrow> unat (of_nat n :: u16) = n"
  by (simp add: unat_of_nat)

lemma unat_of_nat_8 [word_facts]: "n < 256 \<Longrightarrow> unat (of_nat n :: u8) = n"
  by (simp add: unat_of_nat)

lemma of_nat_eq_iff_64: "n < 18446744073709551616 \<Longrightarrow> (of_nat n = (x :: u64)) \<longleftrightarrow> n = unat x"
  using unat_of_nat_64 [of n] by auto

lemma unat_pred:
  assumes "Suc n = unat (r :: 'a::len word)"
  shows "r \<noteq> 0" and "n = unat (r - 1)"
proof -
  show "r \<noteq> 0" using assms by auto
  then show "n = unat (r - 1)" using assms by (simp add: unat_minus_one)
qed

section \<open>Bits\<close>

lemma high_bit_unset:
  assumes "unat (w :: 'a::len word) < 2 ^ k" and "k \<le> i"
  shows "\<not> bit w i"
proof -
  have "unat w < 2 ^ i"
    using assms by (meson less_le_trans one_le_numeral power_increasing)
  then have "\<not> bit (unat w) i"
    by (simp add: bit_iff_odd)
  then show ?thesis
    by (simp add: bit_unsigned_iff)
qed

lemma drop_push_bit_word:
  assumes "unat (w :: 'a::len word) < 2 ^ k" and "k + n \<le> LENGTH('a)"
  shows "drop_bit n (push_bit n w) = w"
proof (rule bit_word_eqI)
  fix i assume "i < LENGTH('a)"
  show "bit (drop_bit n (push_bit n w)) i = bit w i"
    using high_bit_unset [OF assms(1), of i] assms(2)
    by (cases "n + i < LENGTH('a)") (auto simp: bit_drop_bit_eq bit_push_bit_iff)
qed

lemma drop_push_or_word:
  assumes "unat (w :: 'a::len word) < 2 ^ k" and "k + n \<le> LENGTH('a)" and "0 < n"
  shows "drop_bit n (push_bit n w OR 1) = w"
proof -
  have "drop_bit n (1 :: 'a word) = 0"
    using assms(3) by (simp add: drop_bit_of_1)
  then show ?thesis
    using drop_push_bit_word [OF assms(1,2)] by (simp add: drop_bit_or)
qed

section \<open>Lists\<close>

lemma nth_list_update_if:
  "i < length xs \<Longrightarrow> xs[i := v] ! j = (if j = i then v else xs ! j)"
  by (simp add: nth_list_update)

lemma nth_default_update:
  "xs ! j = y \<Longrightarrow> i \<noteq> j \<Longrightarrow> xs[i := v] ! j = y"
  by simp

end
