(* ===== verification/Handle.thy ===== *)
theory Handle
  imports XPrelude
begin

text \<open>
  Handle tables: \<open>kernel/ntoskrnl/src/ex/handle.rs\<close>.

  A table is one array of entries (\<open>ht_table\<close>, the allocation \<open>table\<close> points to) and a free
  list threaded through the free entries: bit 0 of \<open>he_object\<close> marks a free entry, whose
  upper bits hold the index of the next free entry; all ones ends the list. Operations run
  under the table's spinlock and are atomic steps here. Whether the pool can satisfy a
  request of n bytes is the argument \<open>alloc\<close>. A dereference outside the array is \<open>Undef\<close>;
  a loop that never ends is \<open>None\<close>.
\<close>

section \<open>Constants, entries, tables\<close>

definition INVALID_HANDLE_VALUE :: u64 where
  "INVALID_HANDLE_VALUE = - 1"

definition NULL_HANDLE :: u64 where
  "NULL_HANDLE = 0"

definition HANDLE_INDEX_SHIFT :: nat where
  "HANDLE_INDEX_SHIFT = 2"

definition HANDLE_TABLE_ENTRY_SIZE :: nat where
  "HANDLE_TABLE_ENTRY_SIZE = 256"

definition MAX_HANDLES :: u64 where
  "MAX_HANDLES = 16 * 1024 * 1024"

definition HANDLE_ENTRY_FLAG_FREE :: u64 where
  "HANDLE_ENTRY_FLAG_FREE = 1"

record handle_entry =
  he_object :: u64
  he_access :: u32
  he_attrs :: u32

definition handle_entry_bytes :: nat where
  "handle_entry_bytes = 16"

definition encode_free_next :: "u64 \<Rightarrow> u64" where
  "encode_free_next next_index =
     (if next_index = - 1 then - 1
      else (push_bit 3 next_index) OR HANDLE_ENTRY_FLAG_FREE)"

definition decode_free_next :: "u64 \<Rightarrow> u64" where
  "decode_free_next encoded = (if encoded = - 1 then - 1 else drop_bit 3 encoded)"

definition handle_entry_new :: handle_entry where
  "handle_entry_new = \<lparr>he_object = 0, he_access = 0, he_attrs = 0\<rparr>"

definition is_free :: "handle_entry \<Rightarrow> bool" where
  "is_free e \<longleftrightarrow> he_object e AND HANDLE_ENTRY_FLAG_FREE \<noteq> 0"

definition get_object :: "handle_entry \<Rightarrow> u64" where
  "get_object e =
     (let v = he_object e
      in if v AND HANDLE_ENTRY_FLAG_FREE \<noteq> 0 then 0 else v AND NOT 7)"

definition get_next_free_index :: "handle_entry \<Rightarrow> u64" where
  "get_next_free_index e = decode_free_next (he_object e)"

definition set_object :: "handle_entry \<Rightarrow> u64 \<Rightarrow> u64 \<Rightarrow> handle_entry" where
  "set_object e object flags = e\<lparr>he_object := object OR (flags AND 7)\<rparr>"

definition entry_clear :: "handle_entry \<Rightarrow> handle_entry" where
  "entry_clear e = e\<lparr>he_object := 0, he_access := 0, he_attrs := 0\<rparr>"

record handle_table =
  ht_table :: "handle_entry list"
  ht_size :: u64
  ht_first_free :: u64
  ht_count :: u32
  ht_owner :: u64
  ht_flags :: u32

definition is_valid_index :: "handle_table \<Rightarrow> u64 \<Rightarrow> bool" where
  "is_valid_index ht index \<longleftrightarrow> index < ht_size ht"

definition handle_to_index :: "u64 \<Rightarrow> u64" where
  "handle_to_index handle = drop_bit HANDLE_INDEX_SHIFT handle"

definition index_to_handle :: "u64 \<Rightarrow> u64" where
  "index_to_handle index = push_bit HANDLE_INDEX_SHIFT index"

text \<open>\<open>table.add(i)\<close> followed by a dereference.\<close>

definition entry_at :: "handle_table \<Rightarrow> u64 \<Rightarrow> handle_entry outcome" where
  "entry_at ht i =
     (if unat i < length (ht_table ht) then Ret (ht_table ht ! unat i) else Undef)"

definition put_entry :: "handle_table \<Rightarrow> u64 \<Rightarrow> handle_entry \<Rightarrow> handle_table" where
  "put_entry ht i e = ht\<lparr>ht_table := (ht_table ht)[unat i := e]\<rparr>"

section \<open>Operations\<close>

text \<open>\<open>exp_grow_handle_table\<close>: \<open>None\<close> is the result \<open>false\<close>, which leaves the table as it was.\<close>

definition exp_grow_handle_table :: "(nat \<Rightarrow> bool) \<Rightarrow> handle_table \<Rightarrow> handle_table option" where
  "exp_grow_handle_table alloc ht =
     (let old_size = ht_size ht in
      if old_size \<ge> MAX_HANDLES then None
      else
        let new_size = min (old_size * 2) MAX_HANDLES in
        if \<not> alloc (unat new_size * handle_entry_bytes) then None
        else
          let old_first_free = ht_first_free ht;
              fresh = map (\<lambda>i. handle_entry_new\<lparr>he_object :=
                        encode_free_next
                          (if i < unat new_size - 1 then of_nat (i + 1) else old_first_free)\<rparr>)
                        [unat old_size ..< unat new_size]
          in Some (ht\<lparr>ht_first_free := old_size,
                      ht_table := take (unat old_size) (ht_table ht) @ fresh,
                      ht_size := new_size\<rparr>))"

text \<open>\<open>ExCreateHandleTable\<close>: \<open>alloc_struct\<close> tells whether the table structure itself was allocated.\<close>

definition ex_create_handle_table ::
  "bool \<Rightarrow> (nat \<Rightarrow> bool) \<Rightarrow> u64 \<Rightarrow> handle_table option" where
  "ex_create_handle_table alloc_struct alloc owning_process =
     (if \<not> alloc_struct then None
      else if \<not> alloc (HANDLE_TABLE_ENTRY_SIZE * handle_entry_bytes) then None
      else Some \<lparr>
        ht_table = map (\<lambda>i. handle_entry_new\<lparr>he_object :=
            (if i = 0 then 0
             else if i < HANDLE_TABLE_ENTRY_SIZE - 1 then encode_free_next (of_nat (i + 1))
             else encode_free_next (- 1))\<rparr>) [0 ..< HANDLE_TABLE_ENTRY_SIZE],
        ht_size = of_nat HANDLE_TABLE_ENTRY_SIZE,
        ht_first_free = 1,
        ht_count = 0,
        ht_owner = owning_process,
        ht_flags = 0\<rparr>)"

text \<open>
  \<open>ExCreateHandleEx\<close>. The index read before a growth is the one used after it, as in the
  source.
\<close>

definition ex_create_handle_ex ::
  "(nat \<Rightarrow> bool) \<Rightarrow> handle_table \<Rightarrow> u64 \<Rightarrow> u32 \<Rightarrow> u32 \<Rightarrow> (u64 \<times> handle_table) outcome" where
  "ex_create_handle_ex alloc ht object access handle_attributes =
     (if object = 0 then Ret (INVALID_HANDLE_VALUE, ht)
      else
        let free_index = ht_first_free ht;
            grown = (if free_index = - 1 \<or> free_index \<ge> ht_size ht
                     then exp_grow_handle_table alloc ht else Some ht)
        in case grown of
             None \<Rightarrow> Ret (INVALID_HANDLE_VALUE, ht)
           | Some ht1 \<Rightarrow>
               bind_out (entry_at ht1 free_index) (\<lambda>entry.
                 if \<not> is_free entry then Ret (INVALID_HANDLE_VALUE, ht1)
                 else
                   let next_free = get_next_free_index entry;
                       entry' = (set_object entry object 0)
                                  \<lparr>he_access := access, he_attrs := handle_attributes\<rparr>;
                       ht2 = put_entry (ht1\<lparr>ht_first_free := next_free\<rparr>) free_index entry'
                   in Ret (index_to_handle free_index, ht2\<lparr>ht_count := ht_count ht2 + 1\<rparr>)))"

definition ex_create_handle ::
  "(nat \<Rightarrow> bool) \<Rightarrow> handle_table \<Rightarrow> u64 \<Rightarrow> u32 \<Rightarrow> (u64 \<times> handle_table) outcome" where
  "ex_create_handle alloc ht object access = ex_create_handle_ex alloc ht object access 0"

definition ex_destroy_handle :: "handle_table \<Rightarrow> u64 \<Rightarrow> (bool \<times> handle_table) outcome" where
  "ex_destroy_handle ht handle =
     (if handle = NULL_HANDLE \<or> handle = INVALID_HANDLE_VALUE then Ret (False, ht)
      else
        let index = handle_to_index handle in
        if \<not> is_valid_index ht index then Ret (False, ht)
        else bind_out (entry_at ht index) (\<lambda>entry.
          if is_free entry then Ret (False, ht)
          else
            let old_first_free = ht_first_free ht;
                entry' = entry\<lparr>he_object := encode_free_next old_first_free,
                               he_access := 0, he_attrs := 0\<rparr>;
                ht1 = (put_entry ht index entry')\<lparr>ht_first_free := index\<rparr>
            in Ret (True, ht1\<lparr>ht_count := ht_count ht1 - 1\<rparr>)))"

definition ex_map_handle_to_pointer :: "handle_table \<Rightarrow> u64 \<Rightarrow> u64 outcome" where
  "ex_map_handle_to_pointer ht handle =
     (if handle = NULL_HANDLE \<or> handle = INVALID_HANDLE_VALUE then Ret 0
      else
        let index = handle_to_index handle in
        if \<not> is_valid_index ht index then Ret 0
        else bind_out (entry_at ht index) (\<lambda>entry. Ret (get_object entry)))"

definition ex_map_handle_to_pointer_ex ::
  "handle_table \<Rightarrow> u64 \<Rightarrow> (u64 \<times> u32) option outcome" where
  "ex_map_handle_to_pointer_ex ht handle =
     (if handle = NULL_HANDLE \<or> handle = INVALID_HANDLE_VALUE then Ret None
      else
        let index = handle_to_index handle in
        if \<not> is_valid_index ht index then Ret None
        else bind_out (entry_at ht index) (\<lambda>entry.
          let object = get_object entry in
          if object = 0 then Ret None else Ret (Some (object, he_access entry))))"

definition ex_map_handle_to_pointer_full ::
  "handle_table \<Rightarrow> u64 \<Rightarrow> (u64 \<times> u32 \<times> u32) option outcome" where
  "ex_map_handle_to_pointer_full ht handle =
     (if handle = NULL_HANDLE \<or> handle = INVALID_HANDLE_VALUE then Ret None
      else
        let index = handle_to_index handle in
        if \<not> is_valid_index ht index then Ret None
        else bind_out (entry_at ht index) (\<lambda>entry.
          let object = get_object entry in
          if object = 0 then Ret None
          else Ret (Some (object, he_access entry, he_attrs entry))))"

text \<open>The two loops of \<open>ExCreateHandleAt\<close>: growing up to the index, walking the free list.\<close>

partial_function (option) grow_until ::
  "(nat \<Rightarrow> bool) \<Rightarrow> handle_table \<Rightarrow> u64 \<Rightarrow> (bool \<times> handle_table) option" where
  "grow_until alloc ht index =
     (if is_valid_index ht index then Some (True, ht)
      else case exp_grow_handle_table alloc ht of
             None \<Rightarrow> Some (False, ht)
           | Some ht' \<Rightarrow> grow_until alloc ht' index)"

partial_function (option) free_walk ::
  "handle_table \<Rightarrow> u64 \<Rightarrow> u64 option \<Rightarrow> u64 \<Rightarrow> (u64 option \<times> u64) outcome option" where
  "free_walk ht index prev cur =
     (if cur = - 1 \<or> cur = index then Some (Ret (prev, cur))
      else case entry_at ht cur of
             Undef \<Rightarrow> Some Undef
           | Ret e \<Rightarrow> free_walk ht index (Some cur) (get_next_free_index e))"

definition unlink_free ::
  "handle_table \<Rightarrow> u64 option \<Rightarrow> u64 \<Rightarrow> handle_table outcome" where
  "unlink_free ht prev next_free =
     (case prev of
        None \<Rightarrow> Ret (ht\<lparr>ht_first_free := next_free\<rparr>)
      | Some p \<Rightarrow> bind_out (entry_at ht p) (\<lambda>e.
          Ret (put_entry ht p (e\<lparr>he_object := encode_free_next next_free\<rparr>))))"

definition ex_create_handle_at ::
  "(nat \<Rightarrow> bool) \<Rightarrow> handle_table \<Rightarrow> u64 \<Rightarrow> u64 \<Rightarrow> u32 \<Rightarrow> u32 \<Rightarrow>
   (bool \<times> handle_table) outcome option" where
  "ex_create_handle_at alloc ht handle object access handle_attributes =
     (if object = 0 \<or> handle = NULL_HANDLE \<or> handle = INVALID_HANDLE_VALUE
      then Some (Ret (False, ht))
      else
        let index = handle_to_index handle in
        case grow_until alloc ht index of
          None \<Rightarrow> None
        | Some (False, ht1) \<Rightarrow> Some (Ret (False, ht1))
        | Some (True, ht1) \<Rightarrow>
            (case free_walk ht1 index None (ht_first_free ht1) of
               None \<Rightarrow> None
             | Some walked \<Rightarrow> Some (bind_out walked (\<lambda>(prev, cur).
                 if cur \<noteq> index then Ret (False, ht1)
                 else bind_out (entry_at ht1 index) (\<lambda>e.
                   bind_out (unlink_free ht1 prev (get_next_free_index e)) (\<lambda>ht2.
                   bind_out (entry_at ht2 index) (\<lambda>entry.
                     let entry' = (set_object entry object 0)
                                    \<lparr>he_access := access, he_attrs := handle_attributes\<rparr>;
                         ht3 = put_entry ht2 index entry'
                     in Ret (True, ht3\<lparr>ht_count := ht_count ht3 + 1\<rparr>))))))))"

definition ex_change_handle ::
  "handle_table \<Rightarrow> u64 \<Rightarrow> u64 \<Rightarrow> u32 \<Rightarrow> (bool \<times> handle_table) outcome" where
  "ex_change_handle ht handle new_object new_access =
     (if handle = NULL_HANDLE \<or> handle = INVALID_HANDLE_VALUE then Ret (False, ht)
      else
        let index = handle_to_index handle in
        if \<not> is_valid_index ht index then Ret (False, ht)
        else bind_out (entry_at ht index) (\<lambda>entry.
          if is_free entry then Ret (False, ht)
          else Ret (True, put_entry ht index
                 ((set_object entry new_object 0)\<lparr>he_access := new_access\<rparr>))))"

definition ex_get_handle_count :: "handle_table \<Rightarrow> u32" where
  "ex_get_handle_count ht = ht_count ht"

section \<open>Encoding of entries and handles\<close>

lemma is_free_odd: "is_free e \<longleftrightarrow> odd (he_object e)"
  by (simp add: is_free_def HANDLE_ENTRY_FLAG_FREE_def and_one_eq mod2_eq_if)

lemma odd_encode_free: "odd (encode_free_next n)"
  by (simp add: encode_free_next_def HANDLE_ENTRY_FLAG_FREE_def even_or_iff)

lemma push_or_1_neq_max: "push_bit 3 n OR 1 \<noteq> (- 1 :: u64)"
proof
  assume *: "push_bit 3 n OR 1 = (- 1 :: u64)"
  have "bit (push_bit 3 n OR 1 :: u64) 1 = bit (- 1 :: u64) 1"
    by (simp only: *)
  then show False
    by (simp add: bit_or_iff bit_push_bit_iff bit_1_iff)
qed

lemma decode_encode_free:
  "unat n < 2 ^ 61 \<or> n = - 1 \<Longrightarrow> decode_free_next (encode_free_next n) = n"
  using drop_push_or_word [of n 61 3] push_or_1_neq_max [of n]
  by (auto simp: encode_free_next_def decode_free_next_def HANDLE_ENTRY_FLAG_FREE_def)

lemma aligned_even: "obj AND 7 = 0 \<Longrightarrow> even (obj :: u64)"
  by (metis even_and_iff even_zero odd_numeral)

lemma aligned_mask: "obj AND 7 = 0 \<Longrightarrow> obj AND NOT 7 = (obj :: u64)"
proof -
  assume a: "obj AND 7 = 0"
  have "obj = (obj AND NOT 7) OR (obj AND 7)"
    by (metis bit.conj_disj_distrib bit.conj_one_right bit.disj_cancel_left)
  with a show ?thesis by simp
qed

lemma aligned_mask_num: "obj AND 7 = 0 \<Longrightarrow> obj AND - 8 = (obj :: u64)"
  using aligned_mask [of obj] by simp

lemma index_handle_roundtrip:
  "unat i < 2 ^ 62 \<Longrightarrow> handle_to_index (index_to_handle i) = i"
  using drop_push_bit_word [of i 62 2]
  by (simp add: handle_to_index_def index_to_handle_def HANDLE_INDEX_SHIFT_def)

end
