(* ===== verification/HandleInv.thy ===== *)
theory HandleInv
  imports Handle
begin

text \<open>
  Correctness of the handle table (\<open>ex/handle.rs\<close>, modelled in \<open>Handle\<close>): the free list is a
  duplicate-free chain through exactly the free entries (\<open>table_wf\<close>), every operation keeps
  it, and each operation acts on the abstract map \<open>table_lookup\<close> from indices to (object,
  access, attributes) as one map update.
\<close>

section \<open>Invariant and abstraction\<close>

fun free_chain :: "handle_entry list \<Rightarrow> u64 \<Rightarrow> nat list \<Rightarrow> bool" where
  "free_chain es c [] \<longleftrightarrow> c = - 1"
| "free_chain es c (i # is) \<longleftrightarrow>
     unat c = i \<and> i < length es \<and> free_chain es (get_next_free_index (es ! i)) is"

text \<open>An entry in use holds a non-null pointer to an 8-aligned object.\<close>

definition entry_live :: "handle_entry \<Rightarrow> bool" where
  "entry_live e \<longleftrightarrow> he_object e \<noteq> 0 \<and> he_object e AND 7 = 0"

definition table_wf :: "handle_table \<Rightarrow> nat list \<Rightarrow> bool" where
  "table_wf ht fl \<longleftrightarrow>
     length (ht_table ht) = unat (ht_size ht) \<and>
     0 < unat (ht_size ht) \<and> unat (ht_size ht) \<le> 16777216 \<and>
     free_chain (ht_table ht) (ht_first_free ht) fl \<and> distinct fl \<and>
     set fl = {i. i < length (ht_table ht) \<and> is_free (ht_table ht ! i)} \<and>
     he_object (ht_table ht ! 0) = 0 \<and>
     (\<forall>i. 0 < i \<and> i < length (ht_table ht) \<and> \<not> is_free (ht_table ht ! i) \<longrightarrow>
        entry_live (ht_table ht ! i)) \<and>
     unat (ht_count ht) + length fl + 1 = length (ht_table ht)"

definition table_inv :: "handle_table \<Rightarrow> bool" where
  "table_inv ht \<longleftrightarrow> (\<exists>fl. table_wf ht fl)"

lemma entry_live_not_free: "entry_live e \<Longrightarrow> \<not> is_free e"
  by (auto simp: entry_live_def is_free_odd dest: aligned_even)

lemma free_chain_update:
  "i \<notin> set fl \<Longrightarrow> free_chain (es[i := e]) c fl = free_chain es c fl"
  by (induction es c fl rule: free_chain.induct) auto

lemma free_chain_append:
  "free_chain es c fl \<Longrightarrow> free_chain (es @ es') c fl"
  by (induction es c fl rule: free_chain.induct) (auto simp: nth_append)

lemma free_chain_bound: "free_chain es c fl \<Longrightarrow> i \<in> set fl \<Longrightarrow> i < length es"
  by (induction es c fl rule: free_chain.induct) auto

lemma free_chain_unique:
  "free_chain es c fl \<Longrightarrow> free_chain es c fl' \<Longrightarrow> length es < 2 ^ 64 - 1 \<Longrightarrow> fl = fl'"
proof (induction es c fl arbitrary: fl' rule: free_chain.induct)
  case (1 es c)
  then show ?case by (cases fl') auto
next
  case (2 es c i "is")
  then show ?case by (cases fl') auto
qed

lemma table_inv_zero_used:
  "table_wf ht fl \<Longrightarrow> 0 \<notin> set fl"
  by (auto simp: table_wf_def is_free_odd)

lemma table_wf_first:
  assumes "table_wf ht fl"
  shows "fl = [] \<longleftrightarrow> ht_first_free ht = - 1"
proof (cases fl)
  case Nil
  with assms show ?thesis by (simp add: table_wf_def)
next
  case (Cons i js)
  with assms have "unat (ht_first_free ht) = i" "i < length (ht_table ht)"
      "length (ht_table ht) \<le> 16777216"
    by (simp_all add: table_wf_def)
  then have "unat (ht_first_free ht) < 16777216" by linarith
  then show ?thesis using Cons by auto
qed

lemma table_wf_entry_at:
  "table_wf ht fl \<Longrightarrow> is_valid_index ht i \<Longrightarrow> entry_at ht i = Ret (ht_table ht ! unat i)"
  by (simp add: table_wf_def entry_at_def is_valid_index_def word_less_nat_alt)

definition table_lookup :: "handle_table \<Rightarrow> u64 \<Rightarrow> (u64 \<times> u32 \<times> u32) option" where
  "table_lookup ht i =
     (if 0 < unat i \<and> unat i < length (ht_table ht) \<and> \<not> is_free (ht_table ht ! unat i)
      then Some (get_object (ht_table ht ! unat i), he_access (ht_table ht ! unat i),
                 he_attrs (ht_table ht ! unat i))
      else None)"

lemma unat_handle_index: "unat (handle_to_index h) = unat h div 4"
  by (simp add: handle_to_index_def HANDLE_INDEX_SHIFT_def unat_drop_bit_eq drop_bit_eq_div unat_div)

lemma handle_index_zero: "handle_to_index h = 0 \<longleftrightarrow> unat h < 4"
  by (simp add: unat_handle_index div_eq_0_iff flip: unat_0_iff)

lemma entry_fields_eq [simp]:
  "e\<lparr>he_object := v, he_access := a, he_attrs := b\<rparr> =
   \<lparr>he_object = v, he_access = a, he_attrs = b\<rparr>"
  by (cases e) simp

lemma get_object_live: "entry_live e \<Longrightarrow> get_object e = he_object e"
  using entry_live_not_free [of e]
  by (simp add: get_object_def entry_live_def aligned_mask_num is_free_def Let_def)


lemma table_wf_occupy:
  assumes wf: "table_wf ht fl" and i: "i \<in> set fl"
    and len: "length (ht_table ht') = length (ht_table ht)"
    and size: "ht_size ht' = ht_size ht"
    and count: "ht_count ht' = ht_count ht + 1"
    and live: "entry_live (ht_table ht' ! i)"
    and free: "\<And>j. j < length (ht_table ht) \<Longrightarrow> j \<noteq> i \<Longrightarrow>
                 is_free (ht_table ht' ! j) = is_free (ht_table ht ! j)"
    and same: "\<And>j. j < length (ht_table ht) \<Longrightarrow> j \<noteq> i \<Longrightarrow> \<not> is_free (ht_table ht ! j) \<Longrightarrow>
                 ht_table ht' ! j = ht_table ht ! j"
    and chain: "free_chain (ht_table ht') (ht_first_free ht') fl'"
    and fl': "fl' = remove1 i fl"
  shows "table_wf ht' fl'"
proof -
  from wf have d: "distinct fl" and sf: "set fl = {i. i < length (ht_table ht) \<and> is_free (ht_table ht ! i)}"
    and cnt: "unat (ht_count ht) + length fl + 1 = length (ht_table ht)"
    and bnd: "length (ht_table ht) \<le> 16777216"
    by (simp_all add: table_wf_def)
  from i sf have il: "i < length (ht_table ht)" and i0: "i \<noteq> 0"
    using table_inv_zero_used [OF wf] i by (auto intro: gr0I)
  have set': "set fl' = set fl - {i}" and len': "length fl' + 1 = length fl"
    using d i length_pos_if_in_set [OF i] by (simp_all add: fl' length_remove1)
  have "unat (ht_count ht + 1) = unat (ht_count ht) + 1"
    using cnt bnd by (simp add: unat_word_ariths)
  then have cnt': "unat (ht_count ht') + length fl' + 1 = length (ht_table ht')"
    using cnt len' len count by simp
  have nf: "\<not> is_free (ht_table ht' ! i)"
    by (rule entry_live_not_free [OF live])
  have live': "entry_live (ht_table ht' ! j)"
    if "0 < j" "j < length (ht_table ht)" "\<not> is_free (ht_table ht' ! j)" for j
  proof (cases "j = i")
    case False
    with that free have "\<not> is_free (ht_table ht ! j)" by simp
    then show ?thesis using same [of j] that False wf by (simp add: table_wf_def)
  qed (simp add: live)
  have set'': "set fl' = {j. j < length (ht_table ht') \<and> is_free (ht_table ht' ! j)}"
    using set' sf nf free len by auto
  have zero: "he_object (ht_table ht' ! 0) = 0"
    using wf same [of 0] i0 il by (simp add: table_wf_def is_free_odd)
  show ?thesis
    using wf len size chain cnt' live' set'' zero d
    unfolding table_wf_def by (simp add: fl')
qed

lemma table_lookup_occupy:
  assumes i: "i < length (ht_table ht)" "0 < i"
    and len: "length (ht_table ht') = length (ht_table ht)" "length (ht_table ht) \<le> 16777216"
    and live: "entry_live (ht_table ht' ! i)"
    and free: "\<And>j. j < length (ht_table ht) \<Longrightarrow> j \<noteq> i \<Longrightarrow>
                 is_free (ht_table ht' ! j) = is_free (ht_table ht ! j)"
    and same: "\<And>j. j < length (ht_table ht) \<Longrightarrow> j \<noteq> i \<Longrightarrow> \<not> is_free (ht_table ht ! j) \<Longrightarrow>
                 ht_table ht' ! j = ht_table ht ! j"
  shows "table_lookup ht' = (table_lookup ht)(of_nat i \<mapsto>
           (he_object (ht_table ht' ! i), he_access (ht_table ht' ! i), he_attrs (ht_table ht' ! i)))"
proof
  fix k :: u64
  have u: "unat (of_nat i :: u64) = i"
    using i len by (intro unat_of_nat_64) linarith
  show "table_lookup ht' k = ((table_lookup ht)(of_nat i \<mapsto>
           (he_object (ht_table ht' ! i), he_access (ht_table ht' ! i), he_attrs (ht_table ht' ! i)))) k"
  proof (cases "k = of_nat i")
    case True
    then show ?thesis
      using i len live u by (simp add: table_lookup_def entry_live_not_free get_object_live)
  next
    case False
    then have "unat k \<noteq> i" by auto
    then show ?thesis
      using False free [of "unat k"] same [of "unat k"] len by (auto simp: table_lookup_def)
  qed
qed

section \<open>Creating and destroying a handle\<close>

lemma entry_live_set_object:
  "obj \<noteq> 0 \<Longrightarrow> obj AND 7 = 0 \<Longrightarrow>
   entry_live ((set_object e obj 0)\<lparr>he_access := a, he_attrs := b\<rparr>)"
  by (simp add: entry_live_def set_object_def)

lemma create_step:
  fixes a b :: u32
  assumes wf: "table_wf ht (i # js)" and obj: "obj \<noteq> 0" "obj AND 7 = 0"
  defines "ht' \<equiv> ht\<lparr>ht_first_free := get_next_free_index (ht_table ht ! i),
                    ht_table := (ht_table ht)[i := \<lparr>he_object = obj, he_access = a, he_attrs = b\<rparr>],
                    ht_count := ht_count ht + 1\<rparr>"
  shows "ex_create_handle_ex alloc ht obj a b = Ret (index_to_handle (of_nat i), ht')"
    and "table_wf ht' js"
    and "table_lookup ht' = (table_lookup ht)(of_nat i \<mapsto> (obj, a, b))"
    and "table_lookup ht (of_nat i) = None"
    and "0 < i" and "i < length (ht_table ht)"
proof -
  from wf have f: "unat (ht_first_free ht) = i" and il: "i < length (ht_table ht)"
    and ch: "free_chain (ht_table ht) (get_next_free_index (ht_table ht ! i)) js"
    and d: "i \<notin> set js" and len: "length (ht_table ht) = unat (ht_size ht)"
    and bnd: "length (ht_table ht) \<le> 16777216"
    and sf: "set (i # js) = {i. i < length (ht_table ht) \<and> is_free (ht_table ht ! i)}"
    by (simp_all add: table_wf_def)
  then have fr: "is_free (ht_table ht ! i)" by auto
  have i0: "0 < i"
    using table_inv_zero_used [OF wf] by (auto intro: gr0I)
  have nm: "ht_first_free ht \<noteq> - 1"
    using table_wf_first [OF wf] by simp
  have vi: "ht_first_free ht < ht_size ht"
    using f il len by (simp add: word_less_nat_alt)
  have fi: "ht_first_free ht = of_nat i"
    using f by auto
  have live: "entry_live (ht_table ht' ! i)"
    using il obj by (simp add: ht'_def entry_live_def)
  show "ex_create_handle_ex alloc ht obj a b = Ret (index_to_handle (of_nat i), ht')"
    using obj nm vi f il fr
    by (simp add: ex_create_handle_ex_def entry_at_def put_entry_def set_object_def ht'_def fi
        not_le [symmetric])
  show "table_wf ht' js"
    by (rule table_wf_occupy [OF wf, of i])
      (use il live d ch in \<open>auto simp: ht'_def free_chain_update\<close>)
  show "table_lookup ht' = (table_lookup ht)(of_nat i \<mapsto> (obj, a, b))"
    by (subst table_lookup_occupy [of i ht ht'])
      (use il i0 live bnd in \<open>auto simp: ht'_def\<close>)
  show "table_lookup ht (of_nat i) = None"
    using il bnd fr by (simp add: table_lookup_def unat_of_nat_64)
  show "0 < i" "i < length (ht_table ht)" by fact+
qed

lemma destroy_step:
  assumes wf: "table_wf ht fl" and i: "0 < i" "i < length (ht_table ht)"
    and used: "\<not> is_free (ht_table ht ! i)" and h: "unat (handle_to_index h) = i"
  defines "ht' \<equiv> ht\<lparr>ht_table := (ht_table ht)[i := (ht_table ht ! i)
                       \<lparr>he_object := encode_free_next (ht_first_free ht),
                        he_access := 0, he_attrs := 0\<rparr>],
                    ht_first_free := of_nat i, ht_count := ht_count ht - 1\<rparr>"
  shows "ex_destroy_handle ht h = Ret (True, ht')"
    and "table_wf ht' (i # fl)"
    and "table_lookup ht' = (table_lookup ht)(of_nat i := None)"
proof -
  from wf have len: "length (ht_table ht) = unat (ht_size ht)"
    and bnd: "length (ht_table ht) \<le> 16777216"
    and ch: "free_chain (ht_table ht) (ht_first_free ht) fl" and d: "distinct fl"
    and cnt: "unat (ht_count ht) + length fl + 1 = length (ht_table ht)"
    and sf: "set fl = {i. i < length (ht_table ht) \<and> is_free (ht_table ht ! i)}"
    by (simp_all add: table_wf_def)
  have u: "unat (of_nat i :: u64) = i"
    using i bnd by (intro unat_of_nat_64) linarith
  have hi: "handle_to_index h = of_nat i"
    using h by auto
  have hz: "h \<noteq> NULL_HANDLE" "h \<noteq> INVALID_HANDLE_VALUE"
  proof -
    have "unat h div 4 = i" using h by (simp only: unat_handle_index)
    then show "h \<noteq> NULL_HANDLE" "h \<noteq> INVALID_HANDLE_VALUE"
      using i bnd by (auto simp: NULL_HANDLE_def INVALID_HANDLE_VALUE_def)
  qed
  have notin: "i \<notin> set fl" using used by (simp add: sf)
  have sub: "insert i (insert 0 (set fl)) \<subseteq> {..< length (ht_table ht)}"
    using i by (auto simp: sf)
  have "card (insert i (insert 0 (set fl))) = length fl + 2"
    using i notin table_inv_zero_used [OF wf] distinct_card [OF d] by simp
  then have "length fl + 2 \<le> length (ht_table ht)"
    using card_mono [OF _ sub] by simp
  then have c1: "unat (ht_count ht) \<ge> 1" using cnt by linarith
  have c2: "unat (ht_count ht - 1) = unat (ht_count ht) - 1"
    using c1 by (simp add: unat_sub_if_size)
  show "ex_destroy_handle ht h = Ret (True, ht')"
    using hz i used len u
    by (simp add: ex_destroy_handle_def hi is_valid_index_def word_less_nat_alt entry_at_def
        put_entry_def ht'_def)
  have ffb: "unat (ht_first_free ht) < 2 ^ 61 \<or> ht_first_free ht = - 1"
  proof (cases fl)
    case Nil
    then show ?thesis using table_wf_first [OF wf] by simp
  next
    case (Cons k ks)
    with ch bnd have "unat (ht_first_free ht) < 16777216" by auto
    then show ?thesis by simp
  qed
  have fr': "is_free (ht_table ht' ! i)"
    using i by (simp add: ht'_def is_free_odd odd_encode_free)
  have set': "set (i # fl) = {j. j < length (ht_table ht') \<and> is_free (ht_table ht' ! j)}"
    using sf fr' i by (auto simp: ht'_def nth_list_update)
  have ch': "free_chain (ht_table ht') (ht_first_free ht') (i # fl)"
    using ch i notin ffb u
    by (simp add: ht'_def free_chain_update get_next_free_index_def decode_encode_free)
  show "table_wf ht' (i # fl)"
    unfolding table_wf_def set' [symmetric]
    using wf i d notin ch' c2 c1 cnt by (auto simp: ht'_def table_wf_def nth_list_update is_free_odd odd_encode_free)
  show "table_lookup ht' = (table_lookup ht)(of_nat i := None)"
  proof
    fix k :: u64
    show "table_lookup ht' k = ((table_lookup ht)(of_nat i := None)) k"
    proof (cases "k = of_nat i")
      case True
      then show ?thesis using fr' u by (simp add: table_lookup_def)
    next
      case False
      then have "unat k \<noteq> i" by auto
      then show ?thesis using False by (simp add: table_lookup_def ht'_def)
    qed
  qed
qed

section \<open>New and grown tables\<close>

lemma is_free_encode [simp]: "is_free (e\<lparr>he_object := encode_free_next n\<rparr>)"
  by (simp add: is_free_odd odd_encode_free)

lemma get_next_encode:
  "unat n < 2 ^ 61 \<or> n = - 1 \<Longrightarrow> get_next_free_index (e\<lparr>he_object := encode_free_next n\<rparr>) = n"
  by (simp add: get_next_free_index_def decode_encode_free)

text \<open>A run of consecutive free entries, each linked to the next.\<close>

lemma free_chain_run:
  assumes "\<And>i. lo \<le> i \<Longrightarrow> i < hi \<Longrightarrow>
             get_next_free_index (es ! i) = (if Suc i < hi then of_nat (Suc i) else rest)"
    and "lo < hi" and "hi \<le> length es" and "length es < 2 ^ 61"
    and "free_chain es rest fl"
  shows "free_chain es (of_nat lo) ([lo..<hi] @ fl)"
  using assms(1,2)
proof (induction "hi - lo" arbitrary: lo)
  case 0
  then show ?case by simp
next
  case (Suc k)
  have u: "unat (of_nat lo :: u64) = lo"
    using Suc.prems(2) assms(3,4) by (intro unat_of_nat_64) simp
  show ?case
  proof (cases "Suc lo < hi")
    case True
    have "free_chain es (of_nat (Suc lo)) ([Suc lo..<hi] @ fl)"
      using Suc.hyps(2) Suc.prems True by (intro Suc.hyps(1)) auto
    then show ?thesis
      using True Suc.prems u assms(3) by (simp add: upt_rec [of lo])
  next
    case False
    then have "hi = Suc lo" using Suc.prems(2) by simp
    then show ?thesis
      using Suc.prems(1) [of lo] u assms(3,5) by simp
  qed
qed

lemma table_wf_first_bound:
  assumes "table_wf ht fl"
  shows "unat (ht_first_free ht) < 2 ^ 61 \<or> ht_first_free ht = - 1"
proof (cases fl)
  case Nil
  then show ?thesis using table_wf_first [OF assms] by simp
next
  case (Cons k ks)
  with assms have "unat (ht_first_free ht) < 16777216" by (auto simp: table_wf_def)
  then show ?thesis by simp
qed

lemma table_wf_new:
  assumes "ex_create_handle_table s alloc p = Some ht"
  shows "table_wf ht [1..<256]" and "table_lookup ht = Map.empty"
proof -
  let ?es = "map (\<lambda>i. handle_entry_new\<lparr>he_object :=
               (if i = 0 then 0 else if i < 255 then encode_free_next (of_nat (i + 1))
                else encode_free_next (- 1))\<rparr>) [0..<256]"
  have es: "ht_table ht = ?es" and rest: "ht_size ht = 256" "ht_first_free ht = 1" "ht_count ht = 0"
    using assms by (auto simp: ex_create_handle_table_def HANDLE_TABLE_ENTRY_SIZE_def split: if_splits)
  have nth: "?es ! i = handle_entry_new\<lparr>he_object :=
               (if i = 0 then 0 else if i < 255 then encode_free_next (of_nat (i + 1))
                else encode_free_next (- 1))\<rparr>" if "i < 256" for i
    using that by (simp del: upt_Suc of_nat_Suc)
  have fr: "is_free (?es ! i) \<longleftrightarrow> 0 < i" if "i < 256" for i
    unfolding nth [OF that] by (auto simp: is_free_odd odd_encode_free handle_entry_new_def)
  have "free_chain ?es (of_nat 1) ([1..<256] @ [])"
  proof (rule free_chain_run)
    fix i :: nat assume i: "1 \<le> i" "i < 256"
    have "unat (of_nat (Suc i) :: u64) < 2 ^ 61"
      using i by (subst unat_of_nat_64) auto
    then show "get_next_free_index (?es ! i) = (if Suc i < 256 then of_nat (Suc i) else - 1)"
      unfolding nth [OF i(2)] using i by (auto simp: get_next_encode simp del: of_nat_Suc)
  qed (simp_all del: upt_Suc)
  then have ch: "free_chain ?es 1 [1..<256]" by (simp del: upt_Suc)
  have "he_object (?es ! 0) = 0" by (subst nth) simp_all
  then show "table_wf ht [1..<256]"
    unfolding table_wf_def es rest using ch fr
    by (auto simp del: upt_Suc simp: Suc_le_eq nth)
  show "table_lookup ht = Map.empty"
    by (rule ext) (auto simp: table_lookup_def es fr simp del: upt_Suc)
qed

lemma grow_step:
  assumes wf: "table_wf ht fl" and g: "exp_grow_handle_table alloc ht = Some ht'"
  shows "table_wf ht' ([unat (ht_size ht)..<unat (ht_size ht')] @ fl)"
    and "table_lookup ht' = table_lookup ht"
    and "unat (ht_size ht) < unat (ht_size ht')"
    and "ht_first_free ht' = ht_size ht"
    and "unat (ht_size ht') = min (2 * unat (ht_size ht)) 16777216"
proof -
  let ?o = "unat (ht_size ht)" and ?n = "unat (min (ht_size ht * 2) MAX_HANDLES)"
  from wf have len: "length (ht_table ht) = ?o" and o0: "0 < ?o" and obnd: "?o \<le> 16777216"
    by (simp_all add: table_wf_def)
  from g have small: "?o < 16777216"
    by (auto simp: exp_grow_handle_table_def Let_def MAX_HANDLES_def word_le_nat_alt split: if_splits)
  have dbl: "unat (ht_size ht * 2) = ?o * 2"
    using small by (simp add: unat_word_ariths)
  have n: "?n = min (?o * 2) 16777216"
    using dbl by (auto simp: min_def word_le_nat_alt MAX_HANDLES_def)
  have on: "?o < ?n" and nb: "?n \<le> 16777216" using n o0 small by auto
  let ?fresh = "map (\<lambda>i. handle_entry_new\<lparr>he_object := encode_free_next
                 (if i < ?n - 1 then of_nat (i + 1) else ht_first_free ht)\<rparr>) [?o ..< ?n]"
  have ht': "ht' = ht\<lparr>ht_first_free := ht_size ht, ht_table := ht_table ht @ ?fresh,
                      ht_size := min (ht_size ht * 2) MAX_HANDLES\<rparr>"
    using g len by (auto simp: exp_grow_handle_table_def Let_def split: if_splits)
  let ?es = "ht_table ht @ ?fresh"
  have lenes: "length ?es = ?n" using len on by simp
  have old: "?es ! i = ht_table ht ! i" if "i < ?o" for i
    using that len by (simp add: nth_append)
  have new: "?es ! i = handle_entry_new\<lparr>he_object := encode_free_next
                 (if i < ?n - 1 then of_nat (i + 1) else ht_first_free ht)\<rparr>"
    if "?o \<le> i" "i < ?n" for i
    using that len by (simp add: nth_append del: upt_Suc of_nat_Suc)
  have frnew: "is_free (?es ! i)" if "?o \<le> i" "i < ?n" for i
    unfolding new [OF that] by simp
  have "free_chain ?es (of_nat ?o) ([?o..<?n] @ fl)"
  proof (rule free_chain_run)
    fix i assume i: "?o \<le> i" "i < ?n"
    have "unat (of_nat (Suc i) :: u64) < 2 ^ 61"
      using i nb by (subst unat_of_nat_64) auto
    then show "get_next_free_index (?es ! i) =
        (if Suc i < ?n then of_nat (Suc i) else ht_first_free ht)"
      unfolding new [OF i] using i table_wf_first_bound [OF wf]
      by (auto simp: get_next_encode simp del: of_nat_Suc)
  next
    show "free_chain ?es (ht_first_free ht) fl"
      using wf by (intro free_chain_append) (simp add: table_wf_def)
  qed (use on lenes nb in auto)
  then have ch: "free_chain ?es (ht_size ht) ([?o..<?n] @ fl)" by simp
  have sf: "set fl = {i. i < ?o \<and> is_free (ht_table ht ! i)}"
    using wf len by (simp add: table_wf_def)
  have set': "set ([?o..<?n] @ fl) = {i. i < ?n \<and> is_free (?es ! i)}"
  proof (rule set_eqI)
    fix i
    show "i \<in> set ([?o..<?n] @ fl) \<longleftrightarrow> i \<in> {i. i < ?n \<and> is_free (?es ! i)}"
      using on frnew [of i] old [of i] by (cases "i < ?o") (auto simp: sf)
  qed
  have live: "entry_live (?es ! i)" if "0 < i" "i < ?n" "\<not> is_free (?es ! i)" for i
    using that wf len frnew [of i] old [of i] by (cases "i < ?o") (auto simp: table_wf_def)
  have cnt: "unat (ht_count ht) + length ([?o..<?n] @ fl) + 1 = ?n"
    using wf len on by (auto simp: table_wf_def)
  have d: "distinct ([?o..<?n] @ fl)"
  proof -
    have "distinct fl" using wf by (simp add: table_wf_def)
    moreover have "set [?o..<?n] \<inter> set fl = {}" unfolding sf by auto
    ultimately show ?thesis by simp
  qed
  show "table_wf ht' ([?o..<unat (ht_size ht')] @ fl)"
  proof -
    have z: "he_object (?es ! 0) = 0"
      using old [OF o0] wf by (simp add: table_wf_def)
    have sz: "ht_size ht' = min (ht_size ht * 2) MAX_HANDLES" "ht_table ht' = ?es"
        "ht_first_free ht' = ht_size ht" "ht_count ht' = ht_count ht"
      by (simp_all add: ht')
    have pos: "0 < ?n" using on by linarith
    show ?thesis
      unfolding table_wf_def sz lenes
      using ch set' live cnt d pos nb z by blast
  qed
  show "table_lookup ht' = table_lookup ht"
  proof
    fix k
    show "table_lookup ht' k = table_lookup ht k"
      using frnew [of "unat k"] old [of "unat k"] lenes len on
      by (cases "unat k < ?o") (auto simp: table_lookup_def ht')
  qed
  show "?o < unat (ht_size ht')" "ht_first_free ht' = ht_size ht"
      "unat (ht_size ht') = min (2 * ?o) 16777216"
    using on n by (simp_all add: ht' mult.commute)
qed

section \<open>Creating at a fixed handle\<close>

declare free_walk.simps [simp del] grow_until.simps [simp del]

lemma free_walk_found:
  assumes "free_chain (ht_table ht) c (xs @ unat i # ys)" and "unat i \<notin> set xs"
    and "length (ht_table ht) \<le> 16777216"
  shows "free_walk ht i prev c =
           Some (Ret (if xs = [] then prev else Some (of_nat (last xs)), i))"
  using assms(1,2)
proof (induction xs arbitrary: c prev)
  case Nil
  then have "c = i" by (simp add: word_unat_eq_iff)
  then show ?case by (subst free_walk.simps) simp
next
  case (Cons x xs)
  from Cons.prems have c: "unat c = x" "x < length (ht_table ht)" "x \<noteq> unat i" by auto
  then have ne: "c \<noteq> - 1" "c \<noteq> i" using assms(3) by auto
  have "free_walk ht i (Some c) (get_next_free_index (ht_table ht ! x)) =
     Some (Ret (if xs = [] then Some c else Some (of_nat (last xs)), i))"
    using Cons.prems by (intro Cons.IH) auto
  then show ?case
    using c ne by (subst free_walk.simps) (auto simp: entry_at_def)
qed

lemma free_walk_missing:
  assumes "free_chain (ht_table ht) c fl" and "unat i \<notin> set fl"
    and "length (ht_table ht) \<le> 16777216"
  shows "\<exists>p. free_walk ht i prev c = Some (Ret (p, - 1))"
  using assms(1,2)
proof (induction fl arbitrary: c prev)
  case Nil
  then show ?case by (subst free_walk.simps) simp
next
  case (Cons x xs)
  from Cons.prems have c: "unat c = x" "x < length (ht_table ht)" "x \<noteq> unat i" by auto
  then have ne: "c \<noteq> - 1" "c \<noteq> i" using assms(3) by auto
  show ?case
    using c ne Cons.IH [of "get_next_free_index (ht_table ht ! x)" "Some c"] Cons.prems
    by (subst free_walk.simps) (simp add: entry_at_def)
qed

lemma grow_until_total:
  assumes "table_wf ht fl"
  shows "\<exists>b ht' fl'. grow_until alloc ht i = Some (b, ht') \<and> table_wf ht' fl' \<and>
           table_lookup ht' = table_lookup ht \<and> (b \<longrightarrow> is_valid_index ht' i) \<and>
           (is_valid_index ht i \<longrightarrow> b \<and> ht' = ht)"
  using assms
proof (induction "16777216 - unat (ht_size ht)" arbitrary: ht fl rule: less_induct)
  case less
  show ?case
  proof (cases "is_valid_index ht i")
    case True
    then show ?thesis using less.prems by (subst grow_until.simps) auto
  next
    case nv: False
    show ?thesis
    proof (cases "exp_grow_handle_table alloc ht")
      case None
      then show ?thesis using less.prems nv by (subst grow_until.simps) auto
    next
      case (Some ht1)
      note g = grow_step [OF less.prems Some]
      from g(1) have "unat (ht_size ht1) \<le> 16777216" by (simp add: table_wf_def)
      then have "16777216 - unat (ht_size ht1) < 16777216 - unat (ht_size ht)"
        using g(3) by linarith
      from less.hyps [OF this g(1)] show ?thesis
        using g(2) nv Some by (subst grow_until.simps) fastforce
    qed
  qed
qed

lemma free_chain_snoc_split:
  "free_chain es c (xs @ ys) \<Longrightarrow> xs \<noteq> [] \<Longrightarrow>
   free_chain es (get_next_free_index (es ! last xs)) ys"
  by (induction xs arbitrary: c) auto

lemma free_chain_relink:
  assumes "free_chain es c (xs @ ys)" and "xs \<noteq> []" and "distinct xs"
    and "free_chain es n zs" and "set xs \<inter> set zs = {}" and "unat n < 2 ^ 61 \<or> n = - 1"
  shows "free_chain (es[last xs := (es ! last xs)\<lparr>he_object := encode_free_next n\<rparr>]) c (xs @ zs)"
  using assms(1-3,5)
proof (induction xs arbitrary: c)
  case Nil
  then show ?case by simp
next
  case (Cons x xs)
  show ?case
  proof (cases "xs = []")
    case True
    then have "last (x # xs) = x" by simp
    then show ?thesis
      using True Cons.prems assms(4,6) by (simp add: get_next_encode free_chain_update)
  next
    case False
    then have "x \<noteq> last xs" using Cons.prems by auto
    with Cons False show ?thesis by simp
  qed
qed

lemma create_at_step:
  assumes wf: "table_wf ht (xs @ i # ys)" and obj: "obj \<noteq> 0" "obj AND 7 = 0"
    and h: "unat (handle_to_index h) = i"
  shows "\<exists>ht'. ex_create_handle_at alloc ht h obj a b = Some (Ret (True, ht')) \<and>
           table_wf ht' (xs @ ys) \<and>
           table_lookup ht' = (table_lookup ht)(handle_to_index h \<mapsto> (obj, a, b))"
proof -
  let ?es = "ht_table ht" and ?idx = "handle_to_index h"
  let ?next = "get_next_free_index (?es ! i)"
  from wf have len: "length ?es = unat (ht_size ht)" and bnd: "length ?es \<le> 16777216"
    and ch: "free_chain ?es (ht_first_free ht) (xs @ i # ys)" and d: "distinct (xs @ i # ys)"
    and sf: "set (xs @ i # ys) = {j. j < length ?es \<and> is_free (?es ! j)}"
    by (simp_all add: table_wf_def)
  have il: "i < length ?es" and fri: "is_free (?es ! i)" using sf by auto
  have i0: "0 < i" using table_inv_zero_used [OF wf] by (auto intro: gr0I)
  have u: "of_nat i = ?idx" using h by auto
  have valid: "is_valid_index ht ?idx"
    using il len h by (simp add: is_valid_index_def word_less_nat_alt)
  have hz: "h \<noteq> NULL_HANDLE" "h \<noteq> INVALID_HANDLE_VALUE"
  proof -
    have "unat h div 4 = i" using h by (simp only: unat_handle_index)
    then show "h \<noteq> NULL_HANDLE" "h \<noteq> INVALID_HANDLE_VALUE"
      using i0 il bnd by (auto simp: NULL_HANDLE_def INVALID_HANDLE_VALUE_def)
  qed
  have grow: "grow_until alloc ht ?idx = Some (True, ht)"
    using valid by (subst grow_until.simps) simp
  have walk: "free_walk ht ?idx None (ht_first_free ht) =
      Some (Ret (if xs = [] then None else Some (of_nat (last xs)), ?idx))"
    using ch d bnd h by (intro free_walk_found [where ys = ys]) auto
  have chys: "free_chain ?es ?next ys"
    using free_chain_snoc_split [of ?es _ "xs @ [i]" ys] ch by simp
  have nb: "unat ?next < 2 ^ 61 \<or> ?next = - 1"
    using chys bnd by (cases ys) auto
  define ht2 where "ht2 = (if xs = [] then ht\<lparr>ht_first_free := ?next\<rparr>
     else ht\<lparr>ht_table := ?es[last xs := (?es ! last xs)\<lparr>he_object := encode_free_next ?next\<rparr>]\<rparr>)"
  have lx: "last xs < length ?es \<and> last xs \<noteq> i \<and> is_free (?es ! last xs)" if "xs \<noteq> []"
  proof -
    have "last xs \<in> set (xs @ i # ys)" using that by simp
    then show ?thesis using sf d that by (auto simp del: set_append)
  qed
  have ulx: "unat (of_nat (last xs) :: u64) = last xs" if "xs \<noteq> []"
    using lx [OF that] bnd by (intro unat_of_nat_64) linarith
  have unlink: "unlink_free ht (if xs = [] then None else Some (of_nat (last xs))) ?next = Ret ht2"
    using lx ulx by (auto simp: unlink_free_def ht2_def entry_at_def put_entry_def)
  define e where "e = \<lparr>he_object = obj, he_access = a, he_attrs = b\<rparr>"
  define ht' where "ht' = ht2\<lparr>ht_table := (ht_table ht2)[i := e], ht_count := ht_count ht + 1\<rparr>"
  have len2: "length (ht_table ht2) = length ?es" "ht_count ht2 = ht_count ht" "ht_size ht2 = ht_size ht"
    by (simp_all add: ht2_def)
  have res: "ex_create_handle_at alloc ht h obj a b = Some (Ret (True, ht'))"
    using obj hz grow walk unlink il h len2
    by (simp add: ex_create_handle_at_def entry_at_def set_object_def put_entry_def ht'_def e_def)
  have live: "entry_live (ht_table ht' ! i)"
    using il len2 obj by (simp add: ht'_def e_def entry_live_def)
  have fr: "is_free (ht_table ht' ! j) = is_free (?es ! j)" if "j < length ?es" "j \<noteq> i" for j
    using that lx len2 by (auto simp: ht'_def ht2_def nth_list_update)
  have same: "ht_table ht' ! j = ?es ! j" if "j < length ?es" "j \<noteq> i" "\<not> is_free (?es ! j)" for j
    using that lx len2 by (auto simp: ht'_def ht2_def nth_list_update)
  have chain': "free_chain (ht_table ht') (ht_first_free ht') (xs @ ys)"
  proof (cases "xs = []")
    case True
    then show ?thesis using chys d by (simp add: ht'_def ht2_def free_chain_update)
  next
    case False
    have "free_chain (ht_table ht2) (ht_first_free ht2) (xs @ ys)"
      using free_chain_relink [OF ch False _ chys _ nb] False d by (auto simp: ht2_def)
    then show ?thesis using d False by (simp add: ht'_def ht2_def free_chain_update)
  qed
  have rem: "xs @ ys = remove1 i (xs @ i # ys)" using d by (simp add: remove1_append)
  have wf': "table_wf ht' (xs @ ys)"
    by (rule table_wf_occupy [OF wf, of i])
      (use len2 live fr same chain' rem in \<open>simp_all add: ht'_def\<close>)
  have look: "table_lookup ht' = (table_lookup ht)(?idx \<mapsto> (obj, a, b))"
    using table_lookup_occupy [of i ht ht'] il i0 bnd live fr same len2 u
    by (simp add: ht'_def e_def)
  show ?thesis using res wf' look by blast
qed

lemma create_at_taken:
  assumes wf: "table_wf ht fl" and nf: "unat (handle_to_index h) \<notin> set fl"
    and v: "is_valid_index ht (handle_to_index h)"
  shows "ex_create_handle_at alloc ht h obj a b = Some (Ret (False, ht))"
proof -
  have grow: "grow_until alloc ht (handle_to_index h) = Some (True, ht)"
    using v by (subst grow_until.simps) simp
  obtain p where walk: "free_walk ht (handle_to_index h) None (ht_first_free ht) = Some (Ret (p, - 1))"
    using free_walk_missing [of ht "ht_first_free ht" fl "handle_to_index h" None] wf nf
    by (auto simp: table_wf_def)
  have "unat h div 4 < 18446744073709551615"
    using unat_lt_64 [of h] by linarith
  then have "unat (handle_to_index h) \<noteq> unat (- 1 :: u64)"
    by (simp only: unat_handle_index unat_max_64)
  then have "- 1 \<noteq> handle_to_index h" by metis
  then show ?thesis
    using grow walk by (simp add: ex_create_handle_at_def)
qed

section \<open>Lookups are the abstract map\<close>

lemma map_full_lookup:
  assumes "table_wf ht fl"
  shows "ex_map_handle_to_pointer_full ht h = Ret (table_lookup ht (handle_to_index h))"
proof -
  let ?i = "handle_to_index h"
  from assms have len: "length (ht_table ht) = unat (ht_size ht)" and z: "he_object (ht_table ht ! 0) = 0"
    and bnd: "length (ht_table ht) \<le> 16777216"
    and live: "\<And>i. 0 < i \<Longrightarrow> i < length (ht_table ht) \<Longrightarrow> \<not> is_free (ht_table ht ! i) \<Longrightarrow>
                 entry_live (ht_table ht ! i)"
    by (simp_all add: table_wf_def)
  have v: "is_valid_index ht ?i \<longleftrightarrow> unat ?i < length (ht_table ht)"
    by (simp add: is_valid_index_def word_less_nat_alt len)
  have free0: "get_object e = 0" if "is_free e" for e
    using that by (simp add: is_free_def get_object_def)
  have zero: "get_object (ht_table ht ! 0) = 0"
    using z by (simp add: get_object_def)
  have nz: "get_object (ht_table ht ! unat ?i) \<noteq> 0"
    if "0 < unat ?i" "unat ?i < length (ht_table ht)" "\<not> is_free (ht_table ht ! unat ?i)"
    using live [OF that] by (simp add: get_object_live) (simp add: entry_live_def)
  have ends: "table_lookup ht ?i = None" if "h = NULL_HANDLE \<or> h = INVALID_HANDLE_VALUE"
  proof -
    have "unat ?i = 0 \<or> unat ?i = 4611686018427387903"
      using that unfolding unat_handle_index by (auto simp: NULL_HANDLE_def INVALID_HANDLE_VALUE_def)
    then show ?thesis using bnd by (auto simp: table_lookup_def)
  qed
  show ?thesis
  proof (cases "h = NULL_HANDLE \<or> h = INVALID_HANDLE_VALUE")
    case True
    then show ?thesis using ends by (auto simp: ex_map_handle_to_pointer_full_def)
  next
    case False
    show ?thesis
    proof (cases "unat ?i < length (ht_table ht)")
      case False
      then show ?thesis using \<open>\<not> (h = NULL_HANDLE \<or> _)\<close> v
        by (simp add: ex_map_handle_to_pointer_full_def table_lookup_def)
    next
      case True
      show ?thesis
        using \<open>\<not> (h = NULL_HANDLE \<or> _)\<close> True v zero nz free0
        by (cases "unat ?i = 0"; cases "is_free (ht_table ht ! unat ?i)")
          (simp_all add: ex_map_handle_to_pointer_full_def table_lookup_def entry_at_def Let_def)
    qed
  qed
qed

lemma table_inv_wfE:
  assumes "table_inv ht"
  obtains fl where "table_wf ht fl"
  using assms by (auto simp: table_inv_def)

lemma lookup_none_iff_free:
  assumes "table_wf ht fl" and "unat i < length (ht_table ht)" and "i \<noteq> 0"
  shows "table_lookup ht i = None \<longleftrightarrow> unat i \<in> set fl"
proof -
  have "set fl = {i. i < length (ht_table ht) \<and> is_free (ht_table ht ! i)}"
    using assms(1) by (simp add: table_wf_def)
  then show ?thesis
    using assms(2,3) by (auto simp: table_lookup_def unat_gt_0)
qed

lemma handle_of_index:
  assumes "0 < i" and "i < 16777216"
  shows "handle_to_index (index_to_handle (of_nat i)) = of_nat i"
    and "index_to_handle (of_nat i) \<noteq> NULL_HANDLE"
    and "index_to_handle (of_nat i) \<noteq> INVALID_HANDLE_VALUE"
proof -
  have u: "unat (of_nat i :: u64) = i" using assms by (intro unat_of_nat_64) simp
  show r: "handle_to_index (index_to_handle (of_nat i)) = of_nat i"
    by (rule index_handle_roundtrip) (use u assms in simp)
  have q: "unat (index_to_handle (of_nat i)) div 4 = i"
    using unat_handle_index [of "index_to_handle (of_nat i)"] r u by simp
  show "index_to_handle (of_nat i) \<noteq> NULL_HANDLE" "index_to_handle (of_nat i) \<noteq> INVALID_HANDLE_VALUE"
    using q assms by (auto simp: NULL_HANDLE_def INVALID_HANDLE_VALUE_def)
qed

end
