(* ===== verification/HandleSpec.thy ===== *)
theory HandleSpec
  imports HandleInv
begin

text \<open>
  The contracts of the handle table operations over the abstract map \<open>table_lookup\<close>, the
  interface \<open>handle_store\<close> a client relies on (interpreted on the model), and the
  properties of \<open>ex/handle.rs\<close>.
\<close>

section \<open>Operation contracts\<close>

lemma create_contract:
  assumes "table_inv ht" and "ht_first_free ht \<noteq> - 1" and "obj \<noteq> 0" and "obj AND 7 = 0"
  shows "\<exists>h ht'. ex_create_handle_ex alloc ht obj a b = Ret (h, ht') \<and> table_inv ht' \<and>
           h \<noteq> NULL_HANDLE \<and> h \<noteq> INVALID_HANDLE_VALUE \<and> handle_to_index h \<noteq> 0 \<and>
           table_lookup ht (handle_to_index h) = None \<and>
           table_lookup ht' = (table_lookup ht)(handle_to_index h \<mapsto> (obj, a, b))"
proof -
  obtain fl where wf: "table_wf ht fl" using assms(1) by (rule table_inv_wfE)
  obtain i js where fl: "fl = i # js"
    using table_wf_first [OF wf] assms(2) by (cases fl) auto
  note st = create_step [OF wf [unfolded fl] assms(3,4)]
  have ib: "i < 16777216" using st(6) wf by (simp add: table_wf_def)
  note hi = handle_of_index [OF st(5) ib]
  have "of_nat i \<noteq> (0 :: u64)"
    using st(5) ib by (metis hi(1) hi(2) NULL_HANDLE_def index_to_handle_def push_bit_of_0)
  then show ?thesis
    using st(1) [of alloc a b] st(2) [of a b] st(3) [of a b] st(4) hi by (auto simp: table_inv_def)
qed

lemma destroy_contract:
  assumes "table_inv ht" and "handle_to_index h \<noteq> 0"
  shows "\<exists>r ht'. ex_destroy_handle ht h = Ret (r, ht') \<and> table_inv ht' \<and>
           (r \<longleftrightarrow> table_lookup ht (handle_to_index h) \<noteq> None) \<and>
           table_lookup ht' = (table_lookup ht)(handle_to_index h := None)"
proof -
  let ?i = "handle_to_index h"
  obtain fl where wf: "table_wf ht fl" using assms(1) by (rule table_inv_wfE)
  have i0: "0 < unat ?i" using assms(2) by (simp add: unat_gt_0)
  have len: "length (ht_table ht) = unat (ht_size ht)" using wf by (simp add: table_wf_def)
  show ?thesis
  proof (cases "unat ?i < length (ht_table ht) \<and> \<not> is_free (ht_table ht ! unat ?i)")
    case True
    note st = destroy_step [OF wf i0 _ _ refl]
    show ?thesis
      using st True i0 by (auto simp: table_inv_def table_lookup_def)
  next
    case False
    have "ex_destroy_handle ht h = Ret (False, ht)"
      using False len
      by (auto simp: ex_destroy_handle_def is_valid_index_def word_less_nat_alt entry_at_def Let_def)
    moreover have "table_lookup ht ?i = None" using False by (auto simp: table_lookup_def)
    ultimately show ?thesis using assms(1) by (auto simp: fun_upd_idem)
  qed
qed

lemma create_at_contract:
  assumes "table_inv ht" and "obj \<noteq> 0" and "obj AND 7 = 0"
  shows "\<exists>r ht'. ex_create_handle_at alloc ht h obj a b = Some (Ret (r, ht')) \<and> table_inv ht' \<and>
           (if r then handle_to_index h \<noteq> 0 \<and> table_lookup ht (handle_to_index h) = None \<and>
                      table_lookup ht' = (table_lookup ht)(handle_to_index h \<mapsto> (obj, a, b))
            else table_lookup ht' = table_lookup ht) \<and>
           (is_valid_index ht (handle_to_index h) \<longrightarrow> h \<noteq> NULL_HANDLE \<longrightarrow>
              handle_to_index h \<noteq> 0 \<longrightarrow> table_lookup ht (handle_to_index h) = None \<longrightarrow> r)"
proof (cases "h = NULL_HANDLE \<or> h = INVALID_HANDLE_VALUE")
  case True
  obtain fl where wf: "table_wf ht fl" using assms(1) by (rule table_inv_wfE)
  have "\<not> is_valid_index ht (handle_to_index INVALID_HANDLE_VALUE)"
    using wf by (simp add: is_valid_index_def word_less_nat_alt unat_handle_index
        INVALID_HANDLE_VALUE_def table_wf_def not_less)
  then show ?thesis using True assms(1) by (auto simp: ex_create_handle_at_def)
next
  case hn: False
  let ?i = "handle_to_index h"
  obtain fl where wf: "table_wf ht fl" using assms(1) by (rule table_inv_wfE)
  obtain g ht1 fl1 where g: "grow_until alloc ht ?i = Some (g, ht1)" and wf1: "table_wf ht1 fl1"
    and l1: "table_lookup ht1 = table_lookup ht" and v1: "g \<longrightarrow> is_valid_index ht1 ?i"
    and v0: "is_valid_index ht ?i \<longrightarrow> g \<and> ht1 = ht"
    using grow_until_total [OF wf, of alloc ?i] by blast
  show ?thesis
  proof (cases g)
    case False
    then have "ex_create_handle_at alloc ht h obj a b = Some (Ret (False, ht1))"
      using g hn assms(2) by (simp add: ex_create_handle_at_def)
    then show ?thesis using wf1 l1 v0 False by (auto simp: table_inv_def)
  next
    case True
    have g1: "grow_until alloc ht1 ?i = Some (True, ht1)"
      using v1 True by (subst grow_until.simps) simp
    have eq: "ex_create_handle_at alloc ht h obj a b = ex_create_handle_at alloc ht1 h obj a b"
      using g g1 True hn assms(2) by (simp add: ex_create_handle_at_def)
    have il: "unat ?i < length (ht_table ht1)"
      using v1 True wf1 by (simp add: is_valid_index_def word_less_nat_alt table_wf_def)
    show ?thesis
    proof (cases "unat ?i \<in> set fl1")
      case True
      then obtain xs ys where fl1: "fl1 = xs @ unat ?i # ys" by (meson split_list)
      have nz: "?i \<noteq> 0" using table_inv_zero_used [OF wf1] True by (auto)
      show ?thesis
        using create_at_step [OF wf1 [unfolded fl1] assms(2,3) refl, of alloc a b]
          lookup_none_iff_free [OF wf1 il nz] True nz l1 eq
        by (auto simp: table_inv_def)
    next
      case nf: False
      have "ex_create_handle_at alloc ht1 h obj a b = Some (Ret (False, ht1))"
        using create_at_taken [OF wf1 nf] v1 True by simp
      then show ?thesis
        using lookup_none_iff_free [OF wf1 il] nf l1 eq wf1 by (auto simp: table_inv_def)
    qed
  qed
qed

lemma change_contract:
  assumes "table_inv ht" and "handle_to_index h \<noteq> 0" and "obj \<noteq> 0" and "obj AND 7 = 0"
  shows "\<exists>r ht'. ex_change_handle ht h obj a = Ret (r, ht') \<and> table_inv ht' \<and>
           table_lookup ht' = (case table_lookup ht (handle_to_index h) of
              None \<Rightarrow> table_lookup ht
            | Some (_, _, attrs) \<Rightarrow> (table_lookup ht)(handle_to_index h \<mapsto> (obj, a, attrs))) \<and>
           (r \<longleftrightarrow> table_lookup ht (handle_to_index h) \<noteq> None)"
proof -
  let ?i = "handle_to_index h" and ?es = "ht_table ht"
  obtain fl where wf: "table_wf ht fl" using assms(1) by (rule table_inv_wfE)
  have i0: "0 < unat ?i" using assms(2) by (simp add: unat_gt_0)
  have len: "length ?es = unat (ht_size ht)" and bnd: "length ?es \<le> 16777216"
    and ch: "free_chain ?es (ht_first_free ht) fl"
    and sf: "set fl = {i. i < length ?es \<and> is_free (?es ! i)}"
    using wf by (simp_all add: table_wf_def)
  show ?thesis
  proof (cases "unat ?i < length ?es \<and> \<not> is_free (?es ! unat ?i)")
    case False
    then have "ex_change_handle ht h obj a = Ret (False, ht)"
      using len
      by (auto simp: ex_change_handle_def is_valid_index_def word_less_nat_alt entry_at_def Let_def)
    moreover have "table_lookup ht ?i = None" using False by (auto simp: table_lookup_def)
    ultimately show ?thesis using assms(1) by auto
  next
    case True
    define e where "e = \<lparr>he_object = obj, he_access = a, he_attrs = he_attrs (?es ! unat ?i)\<rparr>"
    define ht' where "ht' = put_entry ht ?i e"
    have eqe: "(set_object (?es ! unat ?i) obj 0)\<lparr>he_access := a\<rparr> = e"
      by (simp add: e_def set_object_def)
    have hz: "h \<noteq> NULL_HANDLE" "h \<noteq> INVALID_HANDLE_VALUE"
    proof -
      have q: "unat h div 4 = unat ?i" by (simp only: unat_handle_index)
      show "h \<noteq> NULL_HANDLE" "h \<noteq> INVALID_HANDLE_VALUE"
        using q i0 True bnd unfolding NULL_HANDLE_def INVALID_HANDLE_VALUE_def by auto
    qed
    have res: "ex_change_handle ht h obj a = Ret (True, ht')"
      using hz True len eqe
      by (simp add: ex_change_handle_def is_valid_index_def word_less_nat_alt entry_at_def ht'_def)
    have live: "entry_live e" using assms(3,4) by (simp add: e_def entry_live_def)
    have notin: "unat ?i \<notin> set fl" using True by (simp add: sf)
    have tab: "ht_table ht' = ?es[unat ?i := e]" by (simp add: ht'_def put_entry_def)
    have fr: "is_free (ht_table ht' ! j) = is_free (?es ! j)" if "j < length ?es" for j
      using that True entry_live_not_free [OF live] by (cases "j = unat ?i") (auto simp: tab)
    have wf': "table_wf ht' fl"
    proof -
      have 1: "free_chain (ht_table ht') (ht_first_free ht') fl"
        using ch notin by (simp add: tab free_chain_update ht'_def put_entry_def)
      have 2: "set fl = {i. i < length (ht_table ht') \<and> is_free (ht_table ht' ! i)}"
        using fr by (auto simp: sf tab)
      have 3: "\<forall>i. 0 < i \<and> i < length (ht_table ht') \<and> \<not> is_free (ht_table ht' ! i) \<longrightarrow>
          entry_live (ht_table ht' ! i)"
      proof (intro allI impI)
        fix j assume j: "0 < j \<and> j < length (ht_table ht') \<and> \<not> is_free (ht_table ht' ! j)"
        then have "\<not> is_free (?es ! j)" "j < length ?es" using fr [of j] by (simp_all add: tab)
        then show "entry_live (ht_table ht' ! j)"
          using wf live j by (cases "j = unat ?i") (simp_all add: table_wf_def tab)
      qed
      have 4: "he_object (ht_table ht' ! 0) = 0"
        using wf i0 by (simp add: table_wf_def tab)
      show ?thesis
        using wf 1 2 3 4 unfolding table_wf_def by (simp add: ht'_def put_entry_def)
    qed
    have look: "table_lookup ht' = (table_lookup ht)(?i \<mapsto> (obj, a, he_attrs (?es ! unat ?i)))"
    proof
      fix k
      show "table_lookup ht' k = ((table_lookup ht)(?i \<mapsto> (obj, a, he_attrs (?es ! unat ?i)))) k"
        using True i0 live entry_live_not_free [OF live]
        by (cases "k = ?i") (auto simp: table_lookup_def tab get_object_live e_def
            dest: word_unat_eq_iff [THEN iffD2] simp flip: word_unat_eq_iff)
    qed
    have "table_lookup ht ?i = Some (get_object (?es ! unat ?i), he_access (?es ! unat ?i),
            he_attrs (?es ! unat ?i))"
      using True i0 by (simp add: table_lookup_def)
    then show ?thesis using res wf' look by (auto simp: table_inv_def)
  qed
qed

lemma create_exhausted_undef:
  assumes "table_inv ht" and "ht_first_free ht = - 1" and "obj \<noteq> 0"
    and "exp_grow_handle_table alloc ht = Some ht1"
  shows "ex_create_handle_ex alloc ht obj a b = Undef"
proof -
  obtain fl where wf: "table_wf ht fl" using assms(1) by (rule table_inv_wfE)
  have wf1: "table_wf ht1 ([unat (ht_size ht)..<unat (ht_size ht1)] @ fl)"
    by (rule grow_step(1) [OF wf assms(4)])
  then have "length (ht_table ht1) \<le> 16777216" by (simp add: table_wf_def)
  then have "entry_at ht1 (- 1) = Undef" by (simp add: entry_at_def)
  then show ?thesis using assms(2-4) by (simp add: ex_create_handle_ex_def)
qed

lemma destroy_slot_zero:
  assumes "table_inv ht" and "h \<in> {1, 2, 3}"
  shows "\<exists>ht'. ex_destroy_handle ht h = Ret (True, ht') \<and> ht_count ht' = ht_count ht - 1 \<and>
           ht_first_free ht' = 0 \<and> is_free (ht_table ht' ! 0) \<and> 0 < length (ht_table ht')"
proof -
  obtain fl where wf: "table_wf ht fl" using assms(1) by (rule table_inv_wfE)
  have i: "handle_to_index h = 0" using assms(2) by (auto simp: handle_index_zero)
  have hz: "h \<noteq> NULL_HANDLE" "h \<noteq> INVALID_HANDLE_VALUE"
    using assms(2) by (auto simp: NULL_HANDLE_def INVALID_HANDLE_VALUE_def)
  have len: "0 < length (ht_table ht)" "length (ht_table ht) = unat (ht_size ht)"
    and z: "he_object (ht_table ht ! 0) = 0"
    using wf by (simp_all add: table_wf_def)
  then show ?thesis
    using hz i
    by (auto simp: ex_destroy_handle_def is_valid_index_def word_less_nat_alt entry_at_def
        put_entry_def is_free_odd odd_encode_free)
qed

section \<open>The interface of a handle table\<close>

text \<open>
  What a client of a handle table relies on: \<open>find\<close> is a map from slots, opening a handle
  while there is room adds one fresh slot, closing a legal handle removes its slot and
  reports whether it was in use.
\<close>

locale handle_store =
  fixes inv :: "'t \<Rightarrow> bool" and room :: "'t \<Rightarrow> bool"
    and ok :: "'v \<Rightarrow> bool" and legal :: "'h \<Rightarrow> bool"
    and slot :: "'h \<Rightarrow> 'k" and find :: "'t \<Rightarrow> 'k \<Rightarrow> 'v option"
    and opn :: "'t \<Rightarrow> 'v \<Rightarrow> ('h \<times> 't) outcome" and cls :: "'t \<Rightarrow> 'h \<Rightarrow> (bool \<times> 't) outcome"
  assumes opn_law: "inv t \<Longrightarrow> room t \<Longrightarrow> ok v \<Longrightarrow>
      \<exists>h t'. opn t v = Ret (h, t') \<and> inv t' \<and> legal h \<and> find t (slot h) = None \<and>
             find t' = (find t)(slot h \<mapsto> v)"
    and cls_law: "inv t \<Longrightarrow> legal h \<Longrightarrow>
      \<exists>r t'. cls t h = Ret (r, t') \<and> inv t' \<and> (r \<longleftrightarrow> find t (slot h) \<noteq> None) \<and>
             find t' = (find t)(slot h := None)"

text \<open>A client program: a list of requests, and the log of what happened.\<close>

datatype ('v, 'h) request = Open 'v | Close 'h
datatype ('v, 'h) event = Opened 'h 'v | Closed 'h | BadClose 'h

fun run_store ::
  "('t \<Rightarrow> bool) \<Rightarrow> ('t \<Rightarrow> 'v \<Rightarrow> ('h \<times> 't) outcome) \<Rightarrow> ('t \<Rightarrow> 'h \<Rightarrow> (bool \<times> 't) outcome) \<Rightarrow>
   't \<Rightarrow> ('v, 'h) request list \<Rightarrow> (('v, 'h) event list \<times> 't) outcome" where
  "run_store room opn cls t [] = Ret ([], t)"
| "run_store room opn cls t (Open v # rs) =
     (if room t then
        bind_out (opn t v) (\<lambda>(h, t').
        bind_out (run_store room opn cls t' rs) (\<lambda>(es, t''). Ret (Opened h v # es, t'')))
      else run_store room opn cls t rs)"
| "run_store room opn cls t (Close h # rs) =
     bind_out (cls t h) (\<lambda>(r, t').
     bind_out (run_store room opn cls t' rs) (\<lambda>(es, t'').
       Ret ((if r then Closed h else BadClose h) # es, t'')))"

text \<open>The specification: a log is legal for a map when every opened slot was free, every
  reported close hit a live slot, every failed close a dead one; it transforms the map.\<close>

fun log_spec :: "('h \<Rightarrow> 'k) \<Rightarrow> ('k \<Rightarrow> 'v option) \<Rightarrow> ('v, 'h) event list \<Rightarrow> ('k \<Rightarrow> 'v option) option" where
  "log_spec slot m [] = Some m"
| "log_spec slot m (Opened h v # es) =
     (if m (slot h) = None then log_spec slot (m(slot h \<mapsto> v)) es else None)"
| "log_spec slot m (Closed h # es) =
     (if m (slot h) \<noteq> None then log_spec slot (m(slot h := None)) es else None)"
| "log_spec slot m (BadClose h # es) =
     (if m (slot h) = None then log_spec slot m es else None)"

fun request_ok :: "('v \<Rightarrow> bool) \<Rightarrow> ('h \<Rightarrow> bool) \<Rightarrow> ('v, 'h) request \<Rightarrow> bool" where
  "request_ok ok legal (Open v) = ok v"
| "request_ok ok legal (Close h) = legal h"

context handle_store begin

lemma run_refines_log:
  "inv t \<Longrightarrow> list_all (request_ok ok legal) rs \<Longrightarrow>
   \<exists>es t'. run_store room opn cls t rs = Ret (es, t') \<and> inv t' \<and>
           log_spec slot (find t) es = Some (find t')"
proof (induction rs arbitrary: t)
  case Nil
  then show ?case by simp
next
  case (Cons r rs)
  show ?case
  proof (cases r)
    case (Open v)
    show ?thesis
    proof (cases "room t")
      case True
      with opn_law Cons.prems Open obtain h t1 where 1: "opn t v = Ret (h, t1)" "inv t1"
        "find t (slot h) = None" "find t1 = (find t)(slot h \<mapsto> v)"
        by (metis list.pred_inject(2) request_ok.simps(1))
      from Cons.IH [OF 1(2)] Cons.prems obtain es t2 where
        "run_store room opn cls t1 rs = Ret (es, t2)" "inv t2"
        "log_spec slot (find t1) es = Some (find t2)" by auto
      with 1 True Open show ?thesis by simp
    next
      case False
      with Cons Open show ?thesis by simp
    qed
  next
    case (Close h)
    with cls_law Cons.prems obtain b t1 where 1: "cls t h = Ret (b, t1)" "inv t1"
      "b \<longleftrightarrow> find t (slot h) \<noteq> None" "find t1 = (find t)(slot h := None)"
      by (metis list.pred_inject(2) request_ok.simps(2))
    from Cons.IH [OF 1(2)] Cons.prems obtain es t2 where 2:
      "run_store room opn cls t1 rs = Ret (es, t2)" "inv t2"
      "log_spec slot (find t1) es = Some (find t2)" by auto
    have "find t1 = find t" if "find t (slot h) = None"
      using 1(4) that by (simp add: fun_upd_idem)
    with 1 2 Close show ?thesis by (cases b) auto
  qed
qed

end

definition table_room :: "handle_table \<Rightarrow> bool" where
  "table_room ht \<longleftrightarrow> ht_first_free ht \<noteq> - 1"

definition object_ok :: "u64 \<times> u32 \<times> u32 \<Rightarrow> bool" where
  "object_ok v \<longleftrightarrow> fst v \<noteq> 0 \<and> fst v AND 7 = 0"

definition table_open :: "(nat \<Rightarrow> bool) \<Rightarrow> handle_table \<Rightarrow> u64 \<times> u32 \<times> u32 \<Rightarrow> (u64 \<times> handle_table) outcome" where
  "table_open alloc ht v = (case v of (obj, a, b) \<Rightarrow> ex_create_handle_ex alloc ht obj a b)"

interpretation table: handle_store table_inv table_room object_ok "\<lambda>h. handle_to_index h \<noteq> 0"
  handle_to_index table_lookup "table_open alloc" ex_destroy_handle
proof unfold_locales
  fix t and v :: "u64 \<times> u32 \<times> u32"
  assume "table_inv t" "table_room t" "object_ok v"
  then show "\<exists>h t'. table_open alloc t v = Ret (h, t') \<and> table_inv t' \<and> handle_to_index h \<noteq> 0 \<and>
      table_lookup t (handle_to_index h) = None \<and>
      table_lookup t' = (table_lookup t)(handle_to_index h \<mapsto> v)"
    using create_contract [of t "fst v" alloc "fst (snd v)" "snd (snd v)"]
    by (auto simp: table_room_def object_ok_def table_open_def split: prod.splits)
next
  fix t h assume "table_inv t" "handle_to_index h \<noteq> 0"
  then show "\<exists>r t'. ex_destroy_handle t h = Ret (r, t') \<and> table_inv t' \<and>
      (r \<longleftrightarrow> table_lookup t (handle_to_index h) \<noteq> None) \<and>
      table_lookup t' = (table_lookup t)(handle_to_index h := None)"
    by (rule destroy_contract)
qed

section \<open>Properties\<close>

text \<open>
  C7. Creating a handle: on a well-formed table whose free list is not empty,
  \<open>ExCreateHandleEx\<close> always succeeds, keeps the table well-formed, and returns a handle
  that is neither NULL nor INVALID, was unused before, and now maps to exactly the object,
  access mask and attributes given; every other handle maps to what it mapped to before.
\<close>

theorem create_handle_correct:
  assumes "table_inv ht" and "ht_first_free ht \<noteq> - 1" and "obj \<noteq> 0" and "obj AND 7 = 0"
  shows "\<exists>h ht'. ex_create_handle_ex alloc ht obj a b = Ret (h, ht') \<and> table_inv ht' \<and>
           h \<noteq> NULL_HANDLE \<and> h \<noteq> INVALID_HANDLE_VALUE \<and>
           ex_map_handle_to_pointer_full ht h = Ret None \<and>
           (\<forall>k. ex_map_handle_to_pointer_full ht' k =
              (if handle_to_index k = handle_to_index h then Ret (Some (obj, a, b))
               else ex_map_handle_to_pointer_full ht k))"
proof -
  obtain h ht' where c: "ex_create_handle_ex alloc ht obj a b = Ret (h, ht')" "table_inv ht'"
    "h \<noteq> NULL_HANDLE" "h \<noteq> INVALID_HANDLE_VALUE" "table_lookup ht (handle_to_index h) = None"
    "table_lookup ht' = (table_lookup ht)(handle_to_index h \<mapsto> (obj, a, b))"
    using create_contract [OF assms, of alloc a b] by blast
  obtain fl fl' where wf: "table_wf ht fl" "table_wf ht' fl'"
    using assms(1) c(2) by (auto simp: table_inv_def)
  show ?thesis
    using c by (auto simp: map_full_lookup [OF wf(1)] map_full_lookup [OF wf(2)])
qed

lemma new_table_inv:
  assumes "ex_create_handle_table s alloc p = Some ht"
  shows "table_inv ht" and "ht_first_free ht = 1" and "table_lookup ht = Map.empty"
  using table_wf_new [OF assms] assms
  by (auto simp: table_inv_def ex_create_handle_table_def split: if_splits)

lemma new_table_exists: "\<exists>ht. ex_create_handle_table True (\<lambda>_. True) 0 = Some ht"
  by (simp add: ex_create_handle_table_def)

theorem create_handle_correct_witness:
  "\<exists>ht h ht'. ex_create_handle_table True (\<lambda>_. True) 0 = Some ht \<and>
     ex_create_handle_ex (\<lambda>_. True) ht 4096 7 0 = Ret (h, ht') \<and> table_inv ht' \<and> h \<noteq> 0"
proof -
  obtain ht where ht: "ex_create_handle_table True (\<lambda>_. True) 0 = Some ht"
    using new_table_exists by blast
  show ?thesis
    using create_handle_correct [OF new_table_inv(1) [OF ht], of 4096 "\<lambda>_. True" 7 0]
      new_table_inv(2) [OF ht] ht
    by (auto simp: NULL_HANDLE_def)
qed





text \<open>
  Changing a handle: \<open>ExChangeHandle\<close> on a handle in use replaces its object and access
  mask and keeps its attributes; on any other handle it reports failure and changes nothing.
\<close>

theorem change_handle_correct:
  assumes "table_inv ht" and "handle_to_index h \<noteq> 0" and "obj \<noteq> 0" and "obj AND 7 = 0"
  shows "\<exists>r ht'. ex_change_handle ht h obj a = Ret (r, ht') \<and> table_inv ht' \<and>
           (\<forall>k. ex_map_handle_to_pointer_full ht' k =
              (case ex_map_handle_to_pointer_full ht k of
                 Ret (Some (_, _, attrs)) \<Rightarrow>
                   if handle_to_index k = handle_to_index h then Ret (Some (obj, a, attrs))
                   else ex_map_handle_to_pointer_full ht k
               | res \<Rightarrow> res)) \<and>
           (r \<longleftrightarrow> ex_map_handle_to_pointer_full ht h \<noteq> Ret None)"
proof -
  obtain r ht' where c: "ex_change_handle ht h obj a = Ret (r, ht')" "table_inv ht'"
    "table_lookup ht' = (case table_lookup ht (handle_to_index h) of
              None \<Rightarrow> table_lookup ht
            | Some (_, _, attrs) \<Rightarrow> (table_lookup ht)(handle_to_index h \<mapsto> (obj, a, attrs)))"
    "r \<longleftrightarrow> table_lookup ht (handle_to_index h) \<noteq> None"
    using change_contract [OF assms, of a] by blast
  obtain fl fl' where wf: "table_wf ht fl" "table_wf ht' fl'"
    using assms(1) c(2) by (auto simp: table_inv_def)
  show ?thesis
    using c by (auto simp: map_full_lookup [OF wf(1)] map_full_lookup [OF wf(2)] split: option.splits)
qed

theorem change_handle_correct_witness:
  "\<exists>ht ht'. ex_create_handle_table True (\<lambda>_. True) 0 = Some ht \<and>
     ex_change_handle ht 8 4096 3 = Ret (False, ht') \<and> table_inv ht'"
proof -
  obtain ht where ht: "ex_create_handle_table True (\<lambda>_. True) 0 = Some ht"
    using new_table_exists by blast
  have i: "handle_to_index 8 \<noteq> 0" by (simp add: handle_index_zero)
  obtain fl where wf: "table_wf ht fl" using new_table_inv(1) [OF ht] by (rule table_inv_wfE)
  have "ex_map_handle_to_pointer_full ht 8 = Ret None"
    by (simp add: map_full_lookup [OF wf] new_table_inv(3) [OF ht])
  then show ?thesis
    using change_handle_correct [OF new_table_inv(1) [OF ht] i, of 4096 3] ht by auto
qed



text \<open>
  The 256th handle. When the free list is exhausted and the table can grow,
  \<open>ExCreateHandleEx\<close> grows it but then still uses the index it read before the growth (all
  ones), so it dereferences an entry far outside the array: undefined behaviour, although
  the grown table has room.
\<close>

theorem create_handle_exhausted:
  assumes "table_inv ht" and "ht_first_free ht = - 1" and "obj \<noteq> 0"
    and "exp_grow_handle_table alloc ht = Some ht1"
  shows "ex_create_handle_ex alloc ht obj a b = Undef \<and> table_inv ht1 \<and> table_room ht1"
proof -
  obtain fl where wf: "table_wf ht fl" using assms(1) by (rule table_inv_wfE)
  have "unat (ht_size ht) \<le> 16777216" using wf by (simp add: table_wf_def)
  then have "ht_size ht \<noteq> - 1" by auto
  then show ?thesis
    using create_exhausted_undef [OF assms] grow_step [OF wf assms(4)]
    by (auto simp: table_inv_def table_room_def)
qed

definition full_table :: handle_table where
  "full_table = \<lparr>ht_table = [handle_entry_new], ht_size = 1, ht_first_free = - 1, ht_count = 0,
                 ht_owner = 0, ht_flags = 0\<rparr>"

lemma full_table_inv: "table_inv full_table"
  unfolding table_inv_def
  by (rule exI [of _ "[]"])
    (auto simp: table_wf_def full_table_def handle_entry_new_def is_free_odd intro!: gr0I)

lemma full_table_grows: "\<exists>ht1. exp_grow_handle_table (\<lambda>_. True) full_table = Some ht1"
  by (simp add: exp_grow_handle_table_def full_table_def MAX_HANDLES_def word_le_nat_alt)

theorem create_handle_exhausted_witness:
  "ex_create_handle_ex (\<lambda>_. True) full_table 4096 1 0 = Undef"
proof -
  obtain ht1 where g: "exp_grow_handle_table (\<lambda>_. True) full_table = Some ht1"
    using full_table_grows by blast
  show ?thesis
    using create_handle_exhausted [OF full_table_inv _ _ g, of 4096 1 0]
    by (simp add: full_table_def)
qed

text \<open>
  C33. Slot 0. Entry 0 stands for the NULL handle and must never be handed out, but
  \<open>ExDestroyHandle\<close> only refuses the handle value 0: given 1, 2 or 3, which also select
  entry 0, it succeeds, and the next \<open>ExCreateHandle\<close> returns the NULL handle.
\<close>

theorem destroy_slot_zero_hands_out_null:
  assumes "table_inv ht" and "h \<in> {1, 2, 3}" and "obj \<noteq> 0"
  shows "\<exists>ht1 ht2. ex_destroy_handle ht h = Ret (True, ht1) \<and>
           ex_create_handle alloc ht1 obj a = Ret (NULL_HANDLE, ht2)"
proof -
  obtain ht1 where 1: "ex_destroy_handle ht h = Ret (True, ht1)" "ht_first_free ht1 = 0"
    "is_free (ht_table ht1 ! 0)" "0 < length (ht_table ht1)"
    using destroy_slot_zero [OF assms(1,2)] by blast
  have sz: "ht_size ht1 = ht_size ht"
    using 1(1) by (auto simp: ex_destroy_handle_def Let_def put_entry_def bind_out_Ret_iff
        split: if_splits)
  obtain fl where wf: "table_wf ht fl" using assms(1) by (rule table_inv_wfE)
  have "0 < ht_size ht" using wf by (simp add: table_wf_def word_less_nat_alt)
  then have "\<not> ht_size ht1 \<le> 0" by (simp add: sz not_le)
  then show ?thesis
    using 1 assms(3)
    by (auto simp: ex_create_handle_def ex_create_handle_ex_def entry_at_def
        index_to_handle_def NULL_HANDLE_def Let_def)
qed

theorem destroy_slot_zero_hands_out_null_witness:
  "\<exists>ht1 ht2. ex_destroy_handle full_table 1 = Ret (True, ht1) \<and>
     ex_create_handle (\<lambda>_. True) ht1 4096 1 = Ret (NULL_HANDLE, ht2)"
  using destroy_slot_zero_hands_out_null [OF full_table_inv, of 1 4096 "\<lambda>_. True" 1] by simp

end
