(* ===== verification/Cid.thy ===== *)
theory Cid
  imports HandleSpec
begin

text \<open>
  Client IDs: \<open>kernel/ntoskrnl/src/ps/cid.rs\<close>. One handle table, the global
  \<open>PSP_CID_TABLE\<close>, maps process ids and thread ids to their objects: the id itself is the
  handle. Ids come from two counters. A process or thread is its object pointer together
  with the id stored in it; taking an object reference is the argument \<open>ob_reference\<close>.
\<close>

datatype CID_OBJECT_TYPE = Process | Thread

fun cid_object_code :: "CID_OBJECT_TYPE \<Rightarrow> u32" where
  "cid_object_code Process = 1"
| "cid_object_code Thread = 2"

record cid_state =
  psp_cid_table :: "handle_table option"
  next_process_id :: u64
  next_thread_id :: u64

definition cid_boot :: "handle_table option \<Rightarrow> cid_state" where
  "cid_boot t = \<lparr>psp_cid_table = t, next_process_id = 8, next_thread_id = 8\<rparr>"

definition psp_allocate_process_id :: "cid_state \<Rightarrow> u64 \<times> cid_state" where
  "psp_allocate_process_id s =
     (next_process_id s, s\<lparr>next_process_id := next_process_id s + 4\<rparr>)"

definition psp_allocate_thread_id :: "cid_state \<Rightarrow> u64 \<times> cid_state" where
  "psp_allocate_thread_id s =
     (next_thread_id s, s\<lparr>next_thread_id := next_thread_id s + 4\<rparr>)"

definition finish_cid ::
  "cid_state \<Rightarrow> (bool \<times> handle_table) outcome option \<Rightarrow> (ntstatus \<times> cid_state) outcome option" where
  "finish_cid s r = map_option (\<lambda>out. bind_out out (\<lambda>(ok, t).
     Ret (if ok then STATUS_SUCCESS else STATUS_INVALID_CID, s\<lparr>psp_cid_table := Some t\<rparr>))) r"

definition psp_create_process_cid ::
  "(nat \<Rightarrow> bool) \<Rightarrow> cid_state \<Rightarrow> u64 \<Rightarrow> u64 \<Rightarrow> (ntstatus \<times> cid_state) outcome option" where
  "psp_create_process_cid alloc s process process_id =
     (if process = 0 then Some (Ret (STATUS_INVALID_CID, s))
      else case psp_cid_table s of
        None \<Rightarrow> Some (Ret (STATUS_INVALID_CID, s))
      | Some cid_table \<Rightarrow>
          if process_id = 0 then Some (Ret (STATUS_INVALID_CID, s))
          else finish_cid s (ex_create_handle_at alloc cid_table process_id process
                 (cid_object_code Process) 0))"

definition psp_create_thread_cid ::
  "(nat \<Rightarrow> bool) \<Rightarrow> cid_state \<Rightarrow> u64 \<Rightarrow> u64 \<Rightarrow> (ntstatus \<times> cid_state) outcome option" where
  "psp_create_thread_cid alloc s thread tid =
     (if thread = 0 then Some (Ret (STATUS_INVALID_CID, s))
      else case psp_cid_table s of
        None \<Rightarrow> Some (Ret (STATUS_INVALID_CID, s))
      | Some cid_table \<Rightarrow>
          if tid = 0 then Some (Ret (STATUS_INVALID_CID, s))
          else finish_cid s (ex_create_handle_at alloc cid_table tid thread
                 (cid_object_code Thread) 0))"

definition psp_delete_cid :: "cid_state \<Rightarrow> u64 \<Rightarrow> cid_state outcome" where
  "psp_delete_cid s cid =
     (case psp_cid_table s of
        None \<Rightarrow> Ret s
      | Some cid_table \<Rightarrow> bind_out (ex_destroy_handle cid_table cid)
          (\<lambda>(_, t). Ret (s\<lparr>psp_cid_table := Some t\<rparr>)))"

definition psp_delete_process_cid :: "cid_state \<Rightarrow> u64 \<Rightarrow> cid_state outcome" where
  "psp_delete_process_cid s process_id = psp_delete_cid s process_id"

definition psp_delete_thread_cid :: "cid_state \<Rightarrow> u64 \<Rightarrow> cid_state outcome" where
  "psp_delete_thread_cid s thread_id = psp_delete_cid s thread_id"

text \<open>\<open>idle\<close> and \<open>system\<close> are \<open>ps_idle_process()\<close> and \<open>ps_get_initial_system_process()\<close>; 0 is null.\<close>

definition psp_lookup_process_by_id :: "u64 \<Rightarrow> u64 \<Rightarrow> cid_state \<Rightarrow> u64 \<Rightarrow> u64 outcome" where
  "psp_lookup_process_by_id idle system s process_id =
     (if process_id = 0 then Ret idle
      else if process_id = 4 then Ret system
      else case psp_cid_table s of
        None \<Rightarrow> Ret 0
      | Some cid_table \<Rightarrow> ex_map_handle_to_pointer cid_table process_id)"

definition psp_lookup_thread_by_id :: "cid_state \<Rightarrow> u64 \<Rightarrow> u64 outcome" where
  "psp_lookup_thread_by_id s thread_id =
     (case psp_cid_table s of
        None \<Rightarrow> Ret 0
      | Some cid_table \<Rightarrow> ex_map_handle_to_pointer cid_table thread_id)"

text \<open>The public lookups: status, object (0 where none is written), object manager state.\<close>

definition ps_lookup_process_by_process_id ::
  "('o \<Rightarrow> u64 \<Rightarrow> 'o) \<Rightarrow> u64 \<Rightarrow> u64 \<Rightarrow> cid_state \<Rightarrow> 'o \<Rightarrow> u64 \<Rightarrow> (ntstatus \<times> u64 \<times> 'o) outcome" where
  "ps_lookup_process_by_process_id ob_reference idle system s om process_id =
     bind_out (psp_lookup_process_by_id idle system s process_id) (\<lambda>found.
       if found = 0 then Ret (STATUS_INVALID_CID, 0, om)
       else Ret (STATUS_SUCCESS, found, ob_reference om found))"

definition ps_lookup_thread_by_thread_id ::
  "('o \<Rightarrow> u64 \<Rightarrow> 'o) \<Rightarrow> cid_state \<Rightarrow> 'o \<Rightarrow> u64 \<Rightarrow> (ntstatus \<times> u64 \<times> 'o) outcome" where
  "ps_lookup_thread_by_thread_id ob_reference s om thread_id =
     bind_out (psp_lookup_thread_by_id s thread_id) (\<lambda>found.
       if found = 0 then Ret (STATUS_INVALID_CID, 0, om)
       else Ret (STATUS_SUCCESS, found, ob_reference om found))"

section \<open>Lookups and registrations over the abstract map\<close>

lemma map_pointer_lookup:
  assumes "table_wf ht fl"
  shows "ex_map_handle_to_pointer ht h =
           Ret (case table_lookup ht (handle_to_index h) of None \<Rightarrow> 0 | Some (obj, _, _) \<Rightarrow> obj)"
proof -
  have full: "ex_map_handle_to_pointer_full ht h = Ret (table_lookup ht (handle_to_index h))"
    by (rule map_full_lookup [OF assms])
  have rel: "ex_map_handle_to_pointer ht h =
      bind_out (ex_map_handle_to_pointer_full ht h)
        (\<lambda>r. Ret (case r of None \<Rightarrow> 0 | Some (obj, _, _) \<Rightarrow> obj))"
    by (auto simp: ex_map_handle_to_pointer_def ex_map_handle_to_pointer_full_def Let_def entry_at_def)
  show ?thesis by (simp add: rel full)
qed

definition cid_inv :: "cid_state \<Rightarrow> bool" where
  "cid_inv s \<longleftrightarrow> (case psp_cid_table s of None \<Rightarrow> True | Some t \<Rightarrow> table_inv t)"

lemma status_distinct [simp]: "STATUS_INVALID_CID \<noteq> STATUS_SUCCESS" "STATUS_SUCCESS \<noteq> STATUS_INVALID_CID"
  by (simp_all add: STATUS_INVALID_CID_def STATUS_SUCCESS_def)

lemma create_at_finish:
  assumes "table_inv t" and "obj \<noteq> 0" and "obj AND 7 = 0"
  shows "\<exists>st t'. finish_cid s (ex_create_handle_at alloc t h obj a b) =
             Some (Ret (st, s\<lparr>psp_cid_table := Some t'\<rparr>)) \<and> table_inv t' \<and>
           (if st = STATUS_SUCCESS
            then table_lookup t (handle_to_index h) = None \<and>
                 table_lookup t' = (table_lookup t)(handle_to_index h \<mapsto> (obj, a, b))
            else st = STATUS_INVALID_CID \<and> table_lookup t' = table_lookup t)"
proof -
  obtain r t' where "ex_create_handle_at alloc t h obj a b = Some (Ret (r, t'))" "table_inv t'"
    "if r then handle_to_index h \<noteq> 0 \<and> table_lookup t (handle_to_index h) = None \<and>
               table_lookup t' = (table_lookup t)(handle_to_index h \<mapsto> (obj, a, b))
     else table_lookup t' = table_lookup t"
    using create_at_contract [OF assms, of alloc h a b] by (elim exE conjE) (rule that)
  then show ?thesis by (cases r) (auto simp: finish_cid_def)
qed

section \<open>Properties\<close>

text \<open>
  C26. Registering a process and finding it: \<open>psp_create_process_cid\<close> always returns, keeps
  the CID table well-formed, and when it reports success, looking the process up by its id
  (0 and 4 apart, which are fixed) gives exactly that process, and no other id's thread
  lookup changed.
\<close>

theorem process_cid_lookup:
  assumes "cid_inv s" and "psp_cid_table s = Some t" and "process \<noteq> 0" and "process AND 7 = 0"
    and "pid \<noteq> 0" and "pid \<noteq> 4"
  shows "\<exists>st s'. psp_create_process_cid alloc s process pid = Some (Ret (st, s')) \<and> cid_inv s' \<and>
           (st = STATUS_SUCCESS \<longrightarrow> psp_lookup_process_by_id idle system s' pid = Ret process) \<and>
           (\<forall>k. handle_to_index k \<noteq> handle_to_index pid \<longrightarrow>
              psp_lookup_thread_by_id s' k = psp_lookup_thread_by_id s k)"
proof -
  have ti: "table_inv t" using assms(1,2) by (simp add: cid_inv_def)
  obtain st t' where c: "finish_cid s (ex_create_handle_at alloc t pid process
      (cid_object_code Process) 0) = Some (Ret (st, s\<lparr>psp_cid_table := Some t'\<rparr>))" "table_inv t'"
    "if st = STATUS_SUCCESS
     then table_lookup t (handle_to_index pid) = None \<and>
          table_lookup t' = (table_lookup t)(handle_to_index pid \<mapsto> (process, cid_object_code Process, 0))
     else st = STATUS_INVALID_CID \<and> table_lookup t' = table_lookup t"
    using create_at_finish [OF ti assms(3,4), of s alloc pid "cid_object_code Process" 0]
    by (elim exE conjE) (rule that)
  obtain fl fl' where wf: "table_wf t fl" "table_wf t' fl'"
    using ti c(2) by (auto simp: table_inv_def)
  show ?thesis
    using assms c
    by (auto simp: psp_create_process_cid_def cid_inv_def psp_lookup_process_by_id_def
        psp_lookup_thread_by_id_def map_pointer_lookup [OF wf(1)] map_pointer_lookup [OF wf(2)]
        split: if_splits)
qed

theorem process_cid_lookup_witness:
  "\<exists>t st s'. ex_create_handle_table True (\<lambda>_. True) 0 = Some t \<and>
     psp_create_process_cid (\<lambda>_. True) (cid_boot (Some t)) 4096 8 = Some (Ret (st, s')) \<and> cid_inv s'"
proof -
  obtain t where t: "ex_create_handle_table True (\<lambda>_. True) 0 = Some t"
    using new_table_exists by blast
  have "cid_inv (cid_boot (Some t))"
    using new_table_inv(1) [OF t] by (simp add: cid_inv_def cid_boot_def)
  then show ?thesis
    using process_cid_lookup [of "cid_boot (Some t)" t 4096 8 "\<lambda>_. True" 0 0] t
    by (auto simp: cid_boot_def)
qed

text \<open>
  Process and thread ids collide. Both counters start at 8 and step by 4, but both kinds
  of id index the same table: once a process with some id is registered, registering a
  thread with the same id fails with \<open>STATUS_INVALID_CID\<close>, and a thread lookup of that id
  yields the process object.
\<close>

theorem pid_tid_collision:
  assumes "cid_inv s" and "psp_cid_table s = Some t" and "process \<noteq> 0" and "process AND 7 = 0"
    and "thread \<noteq> 0" and "thread AND 7 = 0"
    and "psp_create_process_cid alloc s process n = Some (Ret (STATUS_SUCCESS, s1))"
  shows "fst (psp_allocate_process_id (cid_boot t0)) = fst (psp_allocate_thread_id (cid_boot t0)) \<and>
         (\<exists>s2. psp_create_thread_cid alloc s1 thread n = Some (Ret (STATUS_INVALID_CID, s2)) \<and>
               psp_lookup_thread_by_id s2 n = Ret process)"
proof -
  have ti: "table_inv t" using assms(1,2) by (simp add: cid_inv_def)
  have n0: "n \<noteq> 0" using assms(2,3,7) by (auto simp: psp_create_process_cid_def)
  obtain st t1 where c: "finish_cid s (ex_create_handle_at alloc t n process
      (cid_object_code Process) 0) = Some (Ret (st, s\<lparr>psp_cid_table := Some t1\<rparr>))" "table_inv t1"
    "if st = STATUS_SUCCESS
     then table_lookup t (handle_to_index n) = None \<and>
          table_lookup t1 = (table_lookup t)(handle_to_index n \<mapsto> (process, cid_object_code Process, 0))
     else st = STATUS_INVALID_CID \<and> table_lookup t1 = table_lookup t"
    using create_at_finish [OF ti assms(3,4), of s alloc n "cid_object_code Process" 0]
    by (elim exE conjE) (rule that)
  have s1: "st = STATUS_SUCCESS" "s1 = s\<lparr>psp_cid_table := Some t1\<rparr>"
    using assms(2,3,7) n0 c(1) by (auto simp: psp_create_process_cid_def)
  obtain st2 t2 where d: "finish_cid s1 (ex_create_handle_at alloc t1 n thread
      (cid_object_code Thread) 0) = Some (Ret (st2, s1\<lparr>psp_cid_table := Some t2\<rparr>))" "table_inv t2"
    "if st2 = STATUS_SUCCESS
     then table_lookup t1 (handle_to_index n) = None \<and>
          table_lookup t2 = (table_lookup t1)(handle_to_index n \<mapsto> (thread, cid_object_code Thread, 0))
     else st2 = STATUS_INVALID_CID \<and> table_lookup t2 = table_lookup t1"
    using create_at_finish [OF c(2) assms(5,6), of s1 alloc n "cid_object_code Thread" 0]
    by (elim exE conjE) (rule that)
  have l1: "table_lookup t1 (handle_to_index n) = Some (process, cid_object_code Process, 0)"
    using c(3) s1(1) by simp
  have st2: "st2 = STATUS_INVALID_CID" "table_lookup t2 = table_lookup t1"
    using d(3) l1 by (auto split: if_splits)
  obtain fl where wf: "table_wf t2 fl" using d(2) by (auto simp: table_inv_def)
  show ?thesis
    using d(1) st2 l1 n0 assms(5) s1
    by (auto simp: psp_allocate_process_id_def psp_allocate_thread_id_def cid_boot_def
        psp_create_thread_cid_def psp_lookup_thread_by_id_def map_pointer_lookup [OF wf])
qed

theorem pid_tid_collision_witness:
  "\<exists>t s1 s2. ex_create_handle_table True (\<lambda>_. True) 0 = Some t \<and>
     psp_create_process_cid (\<lambda>_. True) (cid_boot (Some t)) 4096 8 = Some (Ret (STATUS_SUCCESS, s1)) \<and>
     psp_create_thread_cid (\<lambda>_. True) s1 8192 8 = Some (Ret (STATUS_INVALID_CID, s2))"
proof -
  obtain t where t: "ex_create_handle_table True (\<lambda>_. True) 0 = Some t"
    using new_table_exists by blast
  have v: "is_valid_index t (handle_to_index 8)" and i: "handle_to_index 8 \<noteq> 0"
    using t by (auto simp: is_valid_index_def word_less_nat_alt unat_handle_index handle_index_zero
        ex_create_handle_table_def HANDLE_TABLE_ENTRY_SIZE_def split: if_splits)
  obtain t1 where c: "ex_create_handle_at (\<lambda>_. True) t 8 4096 1 0 = Some (Ret (True, t1))"
    using create_at_contract [OF new_table_inv(1) [OF t], of 4096 "\<lambda>_. True" 8 1 0]
      v i new_table_inv(3) [OF t] by (auto simp: NULL_HANDLE_def)
  then have p: "psp_create_process_cid (\<lambda>_. True) (cid_boot (Some t)) 4096 8 =
      Some (Ret (STATUS_SUCCESS, (cid_boot (Some t))\<lparr>psp_cid_table := Some t1\<rparr>))"
    by (simp add: psp_create_process_cid_def finish_cid_def cid_boot_def)
  have "cid_inv (cid_boot (Some t))"
    using new_table_inv(1) [OF t] by (simp add: cid_inv_def cid_boot_def)
  then show ?thesis
    using pid_tid_collision [OF _ _ _ _ _ _ p, of t 8192] t p by (auto simp: cid_boot_def)
qed

end
