(* ===== verification/Mem.thy ===== *)
theory Mem
  imports XPrelude
begin

text \<open>
  Flat memory. The kernel structures of the security and memory components are raw byte
  layouts reached through pointers (\<open>repr(C)\<close> structs, variable-length SIDs and ACLs), so
  their models read and write a memory of bytes: an address is a \<open>nat\<close>, 0 is the null
  pointer, a struct field is a little-endian load at its \<open>repr(C)\<close> offset. The memory is
  total: what is said about it is which bytes an operation reads and which it writes.
\<close>

type_synonym mem = "nat \<Rightarrow> u8"

section \<open>Little-endian numbers\<close>

fun le_nat :: "u8 list \<Rightarrow> nat" where
  "le_nat [] = 0"
| "le_nat (b # bs) = unat b + 256 * le_nat bs"

fun to_le :: "nat \<Rightarrow> nat \<Rightarrow> u8 list" where
  "to_le 0 v = []"
| "to_le (Suc n) v = of_nat (v mod 256) # to_le n (v div 256)"

lemma length_to_le [simp]: "length (to_le n v) = n"
  by (induction n arbitrary: v) auto

lemma to_le_0: "to_le n 0 = replicate n 0"
  by (induction n) simp_all

lemma le_nat_replicate_0 [simp]: "le_nat (replicate n 0) = 0"
  by (induction n) simp_all

lemma le_nat_less: "le_nat bs < 256 ^ length bs"
proof (induction bs)
  case Nil
  then show ?case by simp
next
  case (Cons b bs)
  have "unat b < 256" by simp
  moreover have "le_nat bs + 1 \<le> 256 ^ length bs" using Cons by simp
  then have "256 * (le_nat bs + 1) \<le> 256 * 256 ^ length bs" by (rule mult_le_mono2)
  ultimately show ?case by (simp del: unat_lt_8)
qed

lemma le_nat_to_le: "le_nat (to_le n v) = v mod 256 ^ n"
proof (induction n arbitrary: v)
  case 0
  then show ?case by simp
next
  case (Suc n)
  have "unat (of_nat (v mod 256) :: u8) = v mod 256"
    by (rule unat_of_nat_8) simp
  then have "le_nat (to_le (Suc n) v) = v mod 256 + 256 * (v div 256 mod 256 ^ n)"
    using Suc by simp
  also have "\<dots> = v mod 256 ^ Suc n"
    using mod_mult2_eq [of v 256 "256 ^ n"] by simp
  finally show ?case .
qed

lemma to_le_le_nat: "to_le (length bs) (le_nat bs) = bs"
proof (induction bs)
  case Nil
  then show ?case by simp
next
  case (Cons b bs)
  have lt: "unat b < 256" by simp
  have "(unat b + 256 * le_nat bs) mod 256 = unat b"
    using lt by (simp only: mod_mult_self2 mod_less)
  moreover have "(unat b + 256 * le_nat bs) div 256 = le_nat bs"
    using lt by simp
  ultimately show ?case
    using Cons by simp
qed

lemma le_nat_inj: "length xs = length ys \<Longrightarrow> le_nat xs = le_nat ys \<Longrightarrow> xs = ys"
  using to_le_le_nat [of xs] to_le_le_nat [of ys] by metis

section \<open>Loads and stores\<close>

definition bytes :: "mem \<Rightarrow> nat \<Rightarrow> nat \<Rightarrow> u8 list" where
  "bytes m a n = map m [a..<a + n]"

definition store_bytes :: "mem \<Rightarrow> nat \<Rightarrow> u8 list \<Rightarrow> mem" where
  "store_bytes m a bs = (\<lambda>x. if a \<le> x \<and> x < a + length bs then bs ! (x - a) else m x)"

definition copy_mem :: "mem \<Rightarrow> nat \<Rightarrow> nat \<Rightarrow> nat \<Rightarrow> mem" where
  "copy_mem m dst src n = store_bytes m dst (bytes m src n)"

definition ld8 :: "mem \<Rightarrow> nat \<Rightarrow> u8" where
  "ld8 m a = m a"

definition ld16 :: "mem \<Rightarrow> nat \<Rightarrow> u16" where
  "ld16 m a = of_nat (le_nat (bytes m a 2))"

definition ld32 :: "mem \<Rightarrow> nat \<Rightarrow> u32" where
  "ld32 m a = of_nat (le_nat (bytes m a 4))"

definition ld64 :: "mem \<Rightarrow> nat \<Rightarrow> u64" where
  "ld64 m a = of_nat (le_nat (bytes m a 8))"

definition ldptr :: "mem \<Rightarrow> nat \<Rightarrow> nat" where
  "ldptr m a = unat (ld64 m a)"

definition ld_u32s :: "mem \<Rightarrow> nat \<Rightarrow> nat \<Rightarrow> u32 list" where
  "ld_u32s m a n = map (\<lambda>i. ld32 m (a + 4 * i)) [0..<n]"

definition st8 :: "mem \<Rightarrow> nat \<Rightarrow> u8 \<Rightarrow> mem" where
  "st8 m a v = store_bytes m a [v]"

definition st16 :: "mem \<Rightarrow> nat \<Rightarrow> u16 \<Rightarrow> mem" where
  "st16 m a v = store_bytes m a (to_le 2 (unat v))"

definition st32 :: "mem \<Rightarrow> nat \<Rightarrow> u32 \<Rightarrow> mem" where
  "st32 m a v = store_bytes m a (to_le 4 (unat v))"

definition st64 :: "mem \<Rightarrow> nat \<Rightarrow> u64 \<Rightarrow> mem" where
  "st64 m a v = store_bytes m a (to_le 8 (unat v))"

definition stptr :: "mem \<Rightarrow> nat \<Rightarrow> nat \<Rightarrow> mem" where
  "stptr m a p = st64 m a (of_nat p)"

section \<open>What a store leaves alone\<close>

named_theorems mem_frame \<open>loads that a store at another place does not change\<close>
named_theorems mem_same \<open>loads of what was just stored\<close>

lemma length_bytes [simp]: "length (bytes m a n) = n"
  by (simp add: bytes_def)

lemma bytes_0 [simp]: "bytes m a 0 = []"
  by (simp add: bytes_def)

lemma nth_bytes: "i < n \<Longrightarrow> bytes m a n ! i = m (a + i)"
  by (simp add: bytes_def)

lemma bytes_eq_iff: "bytes m a n = bytes m' b n \<longleftrightarrow> (\<forall>i<n. m (a + i) = m' (b + i))"
  by (auto simp: list_eq_iff_nth_eq nth_bytes)

lemma bytes_add: "bytes m a (n + k) = bytes m a n @ bytes m (a + n) k"
  unfolding bytes_def
  by (metis add.assoc le_add1 map_append upt_add_eq_append)

lemma bytes_sub:
  assumes "bytes m a n = bytes m' b n" and "i + k \<le> n"
  shows "bytes m (a + i) k = bytes m' (b + i) k"
  using assms by (auto simp: bytes_eq_iff add.assoc)

lemma bytes_shorter:
  assumes "bytes m a n = bytes m' b n" and "k \<le> n"
  shows "bytes m a k = bytes m' b k"
  using assms by (auto simp: bytes_eq_iff)

lemma store_bytes_outside:
  "x < a \<or> a + length bs \<le> x \<Longrightarrow> store_bytes m a bs x = m x"
  by (auto simp: store_bytes_def)

lemma bytes_store_same [mem_same]: "n = length bs \<Longrightarrow> bytes (store_bytes m a bs) a n = bs"
  by (auto simp: list_eq_iff_nth_eq nth_bytes store_bytes_def)

lemma bytes_store_disj:
  "a + length bs \<le> b \<or> b + n \<le> a \<Longrightarrow> bytes (store_bytes m a bs) b n = bytes m b n"
  by (auto simp: bytes_eq_iff store_bytes_def)

lemma ld_frame:
  assumes "a + length bs \<le> b \<or> b + k \<le> a"
  shows "k = 1 \<Longrightarrow> ld8 (store_bytes m a bs) b = ld8 m b"
    and "k = 2 \<Longrightarrow> ld16 (store_bytes m a bs) b = ld16 m b"
    and "k = 4 \<Longrightarrow> ld32 (store_bytes m a bs) b = ld32 m b"
    and "k = 8 \<Longrightarrow> ld64 (store_bytes m a bs) b = ld64 m b"
  using bytes_store_disj [OF assms, of m] assms
  by (auto simp: ld8_def ld16_def ld32_def ld64_def store_bytes_outside)

lemma ld_bytes_eq:
  assumes "bytes m a n = bytes m' b n"
  shows "i + 1 \<le> n \<Longrightarrow> ld8 m (a + i) = ld8 m' (b + i)"
    and "i + 2 \<le> n \<Longrightarrow> ld16 m (a + i) = ld16 m' (b + i)"
    and "i + 4 \<le> n \<Longrightarrow> ld32 m (a + i) = ld32 m' (b + i)"
    and "i + 8 \<le> n \<Longrightarrow> ld64 m (a + i) = ld64 m' (b + i)"
proof -
  show "i + 1 \<le> n \<Longrightarrow> ld8 m (a + i) = ld8 m' (b + i)"
    using assms by (simp add: bytes_eq_iff ld8_def)
qed (simp_all only: ld16_def ld32_def ld64_def bytes_sub [OF assms])

lemma copy_mem_bytes: "bytes (copy_mem m dst src n) dst n = bytes m src n"
  by (simp add: copy_mem_def bytes_store_same)

lemma copy_mem_frame:
  "dst + n \<le> b \<or> b + k \<le> dst \<Longrightarrow> bytes (copy_mem m dst src n) b k = bytes m b k"
  by (simp add: copy_mem_def bytes_store_disj)

section \<open>Loads of stored words\<close>

lemma ld8_st8 [mem_same]: "ld8 (st8 m a v) a = v"
  by (simp add: ld8_def st8_def store_bytes_def)

lemma ld16_st16 [mem_same]: "ld16 (st16 m a v) a = v"
  by (simp add: ld16_def st16_def bytes_store_same le_nat_to_le)

lemma ld32_st32 [mem_same]: "ld32 (st32 m a v) a = v"
  by (simp add: ld32_def st32_def bytes_store_same le_nat_to_le)

lemma ld64_st64 [mem_same]: "ld64 (st64 m a v) a = v"
  by (simp add: ld64_def st64_def bytes_store_same le_nat_to_le)

lemma ldptr_stptr [mem_same]: "p < 18446744073709551616 \<Longrightarrow> ldptr (stptr m a p) a = p"
  by (simp add: ldptr_def stptr_def ld64_st64 unat_of_nat_64)

lemma ld8_stores [mem_frame]:
  "x \<noteq> a \<Longrightarrow> ld8 (st8 m a b8) x = ld8 m x"
  "x < a \<or> a + 2 \<le> x \<Longrightarrow> ld8 (st16 m a b16) x = ld8 m x"
  "x < a \<or> a + 4 \<le> x \<Longrightarrow> ld8 (st32 m a b32) x = ld8 m x"
  "x < a \<or> a + 8 \<le> x \<Longrightarrow> ld8 (st64 m a b64) x = ld8 m x"
  by (auto simp: ld8_def st8_def st16_def st32_def st64_def store_bytes_def)

lemma bytes_stores [mem_frame]:
  "a + 1 \<le> x \<or> x + n \<le> a \<Longrightarrow> bytes (st8 m a b8) x n = bytes m x n"
  "a + 2 \<le> x \<or> x + n \<le> a \<Longrightarrow> bytes (st16 m a b16) x n = bytes m x n"
  "a + 4 \<le> x \<or> x + n \<le> a \<Longrightarrow> bytes (st32 m a b32) x n = bytes m x n"
  "a + 8 \<le> x \<or> x + n \<le> a \<Longrightarrow> bytes (st64 m a b64) x n = bytes m x n"
  by (simp_all add: st8_def st16_def st32_def st64_def bytes_store_disj)

lemma ld16_stores [mem_frame]:
  "a + 1 \<le> x \<or> x + 2 \<le> a \<Longrightarrow> ld16 (st8 m a b8) x = ld16 m x"
  "a + 2 \<le> x \<or> x + 2 \<le> a \<Longrightarrow> ld16 (st16 m a b16) x = ld16 m x"
  "a + 4 \<le> x \<or> x + 2 \<le> a \<Longrightarrow> ld16 (st32 m a b32) x = ld16 m x"
  "a + 8 \<le> x \<or> x + 2 \<le> a \<Longrightarrow> ld16 (st64 m a b64) x = ld16 m x"
  by (simp_all add: ld16_def bytes_stores)

lemma ld32_stores [mem_frame]:
  "a + 1 \<le> x \<or> x + 4 \<le> a \<Longrightarrow> ld32 (st8 m a b8) x = ld32 m x"
  "a + 2 \<le> x \<or> x + 4 \<le> a \<Longrightarrow> ld32 (st16 m a b16) x = ld32 m x"
  "a + 4 \<le> x \<or> x + 4 \<le> a \<Longrightarrow> ld32 (st32 m a b32) x = ld32 m x"
  "a + 8 \<le> x \<or> x + 4 \<le> a \<Longrightarrow> ld32 (st64 m a b64) x = ld32 m x"
  by (simp_all add: ld32_def bytes_stores)

lemma ld64_stores [mem_frame]:
  "a + 1 \<le> x \<or> x + 8 \<le> a \<Longrightarrow> ld64 (st8 m a b8) x = ld64 m x"
  "a + 2 \<le> x \<or> x + 8 \<le> a \<Longrightarrow> ld64 (st16 m a b16) x = ld64 m x"
  "a + 4 \<le> x \<or> x + 8 \<le> a \<Longrightarrow> ld64 (st32 m a b32) x = ld64 m x"
  "a + 8 \<le> x \<or> x + 8 \<le> a \<Longrightarrow> ld64 (st64 m a b64) x = ld64 m x"
  by (simp_all add: ld64_def bytes_stores)

lemma loads_copy [mem_frame]:
  "x < d \<or> d + n \<le> x \<Longrightarrow> ld8 (copy_mem m d s n) x = ld8 m x"
  "d + n \<le> x \<or> x + 2 \<le> d \<Longrightarrow> ld16 (copy_mem m d s n) x = ld16 m x"
  "d + n \<le> x \<or> x + 4 \<le> d \<Longrightarrow> ld32 (copy_mem m d s n) x = ld32 m x"
  "d + n \<le> x \<or> x + 8 \<le> d \<Longrightarrow> ld64 (copy_mem m d s n) x = ld64 m x"
  by (auto simp: ld8_def copy_mem_def store_bytes_outside)
    (simp_all add: ld16_def ld32_def ld64_def bytes_store_disj)

lemma bytes_st32_0 [mem_same]: "bytes (st32 m a 0) a 4 = replicate 4 0"
  by (simp add: st32_def bytes_store_same to_le_0)

section \<open>Arrays of u32\<close>

lemma length_ld_u32s [simp]: "length (ld_u32s m a n) = n"
  by (simp add: ld_u32s_def)

lemma ld32_eq_iff: "ld32 m a = ld32 m' b \<longleftrightarrow> bytes m a 4 = bytes m' b 4"
proof
  assume eq: "ld32 m a = ld32 m' b"
  have lt: "le_nat (bytes m a 4) < 4294967296" "le_nat (bytes m' b 4) < 4294967296"
    using le_nat_less [of "bytes m a 4"] le_nat_less [of "bytes m' b 4"] by simp_all
  have "unat (ld32 m a) = unat (ld32 m' b)" using eq by simp
  then have "le_nat (bytes m a 4) = le_nat (bytes m' b 4)"
    unfolding ld32_def using lt by (simp only: unat_of_nat_32)
  then show "bytes m a 4 = bytes m' b 4" by (intro le_nat_inj) simp_all
qed (simp add: ld32_def)

lemma ld_u32s_eq_iff: "ld_u32s m a n = ld_u32s m' b n \<longleftrightarrow> bytes m a (4 * n) = bytes m' b (4 * n)"
proof (induction n)
  case 0
  then show ?case by (simp add: ld_u32s_def)
next
  case (Suc n)
  have s: "ld_u32s x c (Suc n) = ld_u32s x c n @ [ld32 x (c + 4 * n)]" for x c
    by (simp add: ld_u32s_def)
  have b: "bytes x c (4 * Suc n) = bytes x c (4 * n) @ bytes x (c + 4 * n) 4" for x c
    using bytes_add [of x c "4 * n" 4] by (simp add: add.commute)
  show ?case
    unfolding s b using Suc by (simp add: ld32_eq_iff)
qed

section \<open>Regions\<close>

definition apart :: "nat \<Rightarrow> nat \<Rightarrow> nat \<Rightarrow> nat \<Rightarrow> bool" where
  "apart p n base L \<longleftrightarrow> p + n \<le> base \<or> base + L \<le> p"

definition same_outside :: "nat \<Rightarrow> nat \<Rightarrow> mem \<Rightarrow> mem \<Rightarrow> bool" where
  "same_outside base L m m' \<longleftrightarrow> (\<forall>x. x < base \<or> base + L \<le> x \<longrightarrow> m' x = m x)"

lemma same_outside_bytes:
  "same_outside base L m m' \<Longrightarrow> apart p n base L \<Longrightarrow> bytes m' p n = bytes m p n"
  by (auto simp: same_outside_def apart_def bytes_eq_iff)

lemma same_outside_refl: "same_outside base L m m"
  by (simp add: same_outside_def)

end
