(* ===== verification/Sid.thy ===== *)
theory Sid
  imports Mem
begin

text \<open>
  Security identifiers: \<open>kernel/ntoskrnl/src/se/sid.rs\<close> and the \<open>SID\<close> layout of
  \<open>nt/security.rs\<close>. A SID is read in place: revision at offset 0, the number of
  sub-authorities at 1, the 6-byte authority at 2, the sub-authorities (u32) from 8. Every
  operation takes the memory; those that write return the memory they leave.
\<close>

section \<open>Layout and well-known SIDs\<close>

definition SID_REVISION :: u8 where "SID_REVISION = 1"
definition SID_MIN_SIZE :: nat where "SID_MIN_SIZE = 8"
definition MAX_SUB_AUTHORITIES :: nat where "MAX_SUB_AUTHORITIES = 15"

definition length_required :: "nat \<Rightarrow> nat" where
  "length_required sub_authority_count = SID_MIN_SIZE + sub_authority_count * 4"

definition sid_revision :: "mem \<Rightarrow> nat \<Rightarrow> u8" where
  "sid_revision m sid = ld8 m sid"

definition sid_sub_authority_count :: "mem \<Rightarrow> nat \<Rightarrow> nat" where
  "sid_sub_authority_count m sid = unat (ld8 m (sid + 1))"

definition sid_authority :: "mem \<Rightarrow> nat \<Rightarrow> u8 list" where
  "sid_authority m sid = bytes m (sid + 2) 6"

definition SECURITY_MANDATORY_LABEL_AUTHORITY :: "u8 list" where
  "SECURITY_MANDATORY_LABEL_AUTHORITY = [0, 0, 0, 0, 0, 16]"

definition SE_NULL_SID_BUFFER :: "u8 list" where
  "SE_NULL_SID_BUFFER = [1, 1, 0, 0, 0, 0, 0, 0, 0, 0, 0, 0]"
definition SE_WORLD_SID_BUFFER :: "u8 list" where
  "SE_WORLD_SID_BUFFER = [1, 1, 0, 0, 0, 0, 0, 1, 0, 0, 0, 0]"
definition SE_ANONYMOUS_LOGON_SID_BUFFER :: "u8 list" where
  "SE_ANONYMOUS_LOGON_SID_BUFFER = [1, 1, 0, 0, 0, 0, 0, 5, 7, 0, 0, 0]"
definition SE_AUTHENTICATED_USERS_SID_BUFFER :: "u8 list" where
  "SE_AUTHENTICATED_USERS_SID_BUFFER = [1, 1, 0, 0, 0, 0, 0, 5, 11, 0, 0, 0]"
definition SE_LOCAL_SYSTEM_SID_BUFFER :: "u8 list" where
  "SE_LOCAL_SYSTEM_SID_BUFFER = [1, 1, 0, 0, 0, 0, 0, 5, 18, 0, 0, 0]"
definition SE_LOCAL_SERVICE_SID_BUFFER :: "u8 list" where
  "SE_LOCAL_SERVICE_SID_BUFFER = [1, 1, 0, 0, 0, 0, 0, 5, 19, 0, 0, 0]"
definition SE_NETWORK_SERVICE_SID_BUFFER :: "u8 list" where
  "SE_NETWORK_SERVICE_SID_BUFFER = [1, 1, 0, 0, 0, 0, 0, 5, 20, 0, 0, 0]"
definition SE_ALIASED_ADMINS_SID_BUFFER :: "u8 list" where
  "SE_ALIASED_ADMINS_SID_BUFFER = [1, 2, 0, 0, 0, 0, 0, 5, 32, 0, 0, 0, 0x20, 0x02, 0, 0]"
definition SE_UNTRUSTED_MANDATORY_SID_BUFFER :: "u8 list" where
  "SE_UNTRUSTED_MANDATORY_SID_BUFFER = [1, 1, 0, 0, 0, 0, 0, 16, 0, 0, 0, 0]"
definition SE_LOW_MANDATORY_SID_BUFFER :: "u8 list" where
  "SE_LOW_MANDATORY_SID_BUFFER = [1, 1, 0, 0, 0, 0, 0, 16, 0, 0x10, 0, 0]"
definition SE_MEDIUM_MANDATORY_SID_BUFFER :: "u8 list" where
  "SE_MEDIUM_MANDATORY_SID_BUFFER = [1, 1, 0, 0, 0, 0, 0, 16, 0, 0x20, 0, 0]"
definition SE_HIGH_MANDATORY_SID_BUFFER :: "u8 list" where
  "SE_HIGH_MANDATORY_SID_BUFFER = [1, 1, 0, 0, 0, 0, 0, 16, 0, 0x30, 0, 0]"
definition SE_SYSTEM_MANDATORY_SID_BUFFER :: "u8 list" where
  "SE_SYSTEM_MANDATORY_SID_BUFFER = [1, 1, 0, 0, 0, 0, 0, 16, 0, 0x40, 0, 0]"

lemmas sid_buffer_defs =
  SE_NULL_SID_BUFFER_def SE_WORLD_SID_BUFFER_def SE_ANONYMOUS_LOGON_SID_BUFFER_def
  SE_AUTHENTICATED_USERS_SID_BUFFER_def SE_LOCAL_SYSTEM_SID_BUFFER_def
  SE_LOCAL_SERVICE_SID_BUFFER_def SE_NETWORK_SERVICE_SID_BUFFER_def
  SE_ALIASED_ADMINS_SID_BUFFER_def SE_UNTRUSTED_MANDATORY_SID_BUFFER_def
  SE_LOW_MANDATORY_SID_BUFFER_def SE_MEDIUM_MANDATORY_SID_BUFFER_def
  SE_HIGH_MANDATORY_SID_BUFFER_def SE_SYSTEM_MANDATORY_SID_BUFFER_def

section \<open>Validation, length, comparison\<close>

definition rtl_valid_sid :: "mem \<Rightarrow> nat \<Rightarrow> bool" where
  "rtl_valid_sid m sid =
     (if sid = 0 then False
      else if sid_revision m sid \<noteq> SID_REVISION then False
      else if MAX_SUB_AUTHORITIES < sid_sub_authority_count m sid then False
      else True)"

definition rtl_length_required_sid :: "u32 \<Rightarrow> u32" where
  "rtl_length_required_sid sub_authority_count = of_nat (length_required (unat sub_authority_count))"

definition rtl_length_sid :: "mem \<Rightarrow> nat \<Rightarrow> u32" where
  "rtl_length_sid m sid =
     (if sid = 0 then 0 else of_nat (length_required (sid_sub_authority_count m sid)))"

definition rtl_equal_sid :: "mem \<Rightarrow> nat \<Rightarrow> nat \<Rightarrow> bool" where
  "rtl_equal_sid m sid1 sid2 =
     (if sid1 = 0 \<or> sid2 = 0 then False
      else if sid_revision m sid1 \<noteq> sid_revision m sid2 then False
      else if sid_sub_authority_count m sid1 \<noteq> sid_sub_authority_count m sid2 then False
      else if sid_authority m sid1 \<noteq> sid_authority m sid2 then False
      else let count = sid_sub_authority_count m sid1 in
        if 0 < count \<and> ld_u32s m (sid1 + 8) count \<noteq> ld_u32s m (sid2 + 8) count then False
        else True)"

definition rtl_equal_prefix_sid :: "mem \<Rightarrow> nat \<Rightarrow> nat \<Rightarrow> bool" where
  "rtl_equal_prefix_sid m sid1 sid2 =
     (if sid1 = 0 \<or> sid2 = 0 then False
      else if sid_revision m sid1 \<noteq> sid_revision m sid2 then False
      else if sid_sub_authority_count m sid1 \<noteq> sid_sub_authority_count m sid2 then False
      else if sid_authority m sid1 \<noteq> sid_authority m sid2 then False
      else let count = sid_sub_authority_count m sid1 in
        if 1 < count \<and> ld_u32s m (sid1 + 8) (count - 1) \<noteq> ld_u32s m (sid2 + 8) (count - 1)
        then False else True)"

section \<open>Construction and copying\<close>

definition rtl_initialize_sid :: "mem \<Rightarrow> nat \<Rightarrow> nat \<Rightarrow> u8 \<Rightarrow> ntstatus \<times> mem" where
  "rtl_initialize_sid m sid identifier_authority sub_authority_count =
     (if sid = 0 \<or> identifier_authority = 0 then (STATUS_INVALID_SID, m)
      else if MAX_SUB_AUTHORITIES < unat sub_authority_count then (STATUS_INVALID_SID, m)
      else let m1 = st8 m sid SID_REVISION;
               m2 = st8 m1 (sid + 1) sub_authority_count;
               m3 = copy_mem m2 (sid + 2) identifier_authority 6
           in (STATUS_SUCCESS,
               fold (\<lambda>i m. st32 m (sid + 8 + 4 * i) 0) [0..<unat sub_authority_count] m3))"

definition rtl_sub_authority_sid :: "nat \<Rightarrow> u32 \<Rightarrow> nat" where
  "rtl_sub_authority_sid sid sub_authority_index =
     (if sid = 0 then 0 else sid + 8 + 4 * unat sub_authority_index)"

definition rtl_sub_authority_count_sid :: "nat \<Rightarrow> nat" where
  "rtl_sub_authority_count_sid sid = (if sid = 0 then 0 else sid + 1)"

definition rtl_identifier_authority_sid :: "nat \<Rightarrow> nat" where
  "rtl_identifier_authority_sid sid = (if sid = 0 then 0 else sid + 2)"

definition rtl_copy_sid :: "mem \<Rightarrow> u32 \<Rightarrow> nat \<Rightarrow> nat \<Rightarrow> ntstatus \<times> mem" where
  "rtl_copy_sid m destination_length destination source =
     (if destination = 0 \<or> source = 0 then (STATUS_INVALID_SID, m)
      else let source_length = rtl_length_sid m source in
        if destination_length < source_length then (STATUS_INVALID_SID, m)
        else (STATUS_SUCCESS, copy_mem m destination source (unat source_length)))"

text \<open>\<open>dest\<close> is the pool block the allocator returns for the request, 0 when it is out of memory.\<close>

definition se_capture_sid :: "mem \<Rightarrow> nat \<Rightarrow> nat \<Rightarrow> nat \<times> mem" where
  "se_capture_sid m dest source =
     (if source = 0 \<or> \<not> rtl_valid_sid m source then (0, m)
      else let len = unat (rtl_length_sid m source) in
        if dest = 0 then (0, m) else (dest, copy_mem m dest source len))"

section \<open>Group membership and integrity SIDs\<close>

definition SE_GROUP_ENABLED :: u32 where "SE_GROUP_ENABLED = 4"
definition SE_GROUP_USE_FOR_DENY_ONLY :: u32 where "SE_GROUP_USE_FOR_DENY_ONLY = 0x10"

text \<open>A \<open>SID_AND_ATTRIBUTES\<close> takes 16 bytes: the SID pointer at 0, the attributes at 8.\<close>

definition sa_sid :: "mem \<Rightarrow> nat \<Rightarrow> nat \<Rightarrow> nat" where
  "sa_sid m sid_array i = ldptr m (sid_array + 16 * i)"

definition sa_attributes :: "mem \<Rightarrow> nat \<Rightarrow> nat \<Rightarrow> u32" where
  "sa_attributes m sid_array i = ld32 m (sid_array + 16 * i + 8)"

definition group_attributes_match :: "bool \<Rightarrow> u32 \<Rightarrow> bool" where
  "group_attributes_match deny_only attributes =
     (if deny_only then attributes AND SE_GROUP_USE_FOR_DENY_ONLY \<noteq> 0
      else attributes AND SE_GROUP_ENABLED \<noteq> 0 \<and> attributes AND SE_GROUP_USE_FOR_DENY_ONLY = 0)"

definition sep_sid_in_token :: "mem \<Rightarrow> nat \<Rightarrow> u32 \<Rightarrow> nat \<Rightarrow> bool \<Rightarrow> bool" where
  "sep_sid_in_token m sid_array sid_count sid deny_only =
     (if sid_array = 0 \<or> sid = 0 \<or> sid_count = 0 then False
      else list_ex (\<lambda>i. group_attributes_match deny_only (sa_attributes m sid_array i) \<and>
             rtl_equal_sid m (sa_sid m sid_array i) sid) [0..<unat sid_count])"

definition rtl_get_rid :: "mem \<Rightarrow> nat \<Rightarrow> u32" where
  "rtl_get_rid m sid =
     (if sid = 0 then 0
      else let count = sid_sub_authority_count m sid in
        if count = 0 then 0 else ld32 m (sid + 8 + 4 * (count - 1)))"

definition sep_is_integrity_sid :: "mem \<Rightarrow> nat \<Rightarrow> bool" where
  "sep_is_integrity_sid m sid =
     (if sid = 0 \<or> \<not> rtl_valid_sid m sid then False
      else if sid_authority m sid \<noteq> SECURITY_MANDATORY_LABEL_AUTHORITY then False
      else sid_sub_authority_count m sid = 1)"

definition sep_get_integrity_level :: "mem \<Rightarrow> nat \<Rightarrow> u32" where
  "sep_get_integrity_level m sid =
     (if \<not> sep_is_integrity_sid m sid then 0 else rtl_get_rid m sid)"

section \<open>A SID is its bytes\<close>

definition sid_size :: "mem \<Rightarrow> nat \<Rightarrow> nat" where
  "sid_size m sid = length_required (sid_sub_authority_count m sid)"

definition sid_bytes :: "mem \<Rightarrow> nat \<Rightarrow> u8 list" where
  "sid_bytes m sid = bytes m sid (sid_size m sid)"

lemma sid_count_le: "sid_sub_authority_count m sid \<le> 255"
  using unat_lt_8 [of "ld8 m (sid + 1)"] by (simp add: sid_sub_authority_count_def del: unat_lt_8)

lemma sid_size_bounds: "8 \<le> sid_size m sid" "sid_size m sid \<le> 1028"
  using sid_count_le [of m sid] by (simp_all add: sid_size_def length_required_def SID_MIN_SIZE_def)

lemma unat_rtl_length_sid: "sid \<noteq> 0 \<Longrightarrow> unat (rtl_length_sid m sid) = sid_size m sid"
  using sid_size_bounds(2) [of m sid] by (simp add: rtl_length_sid_def sid_size_def unat_of_nat_32)

lemma valid_sid_nonnull: "rtl_valid_sid m sid \<Longrightarrow> sid \<noteq> 0"
  by (auto simp: rtl_valid_sid_def split: if_splits)

lemma sid_size_valid: "rtl_valid_sid m sid \<Longrightarrow> sid_size m sid \<le> 68"
  by (auto simp: rtl_valid_sid_def sid_size_def length_required_def SID_MIN_SIZE_def
      MAX_SUB_AUTHORITIES_def split: if_splits)

lemma sid_bytes_eq_iff:
  "sid_bytes m a = sid_bytes m' b \<longleftrightarrow>
     sid_revision m a = sid_revision m' b \<and>
     sid_sub_authority_count m a = sid_sub_authority_count m' b \<and>
     sid_authority m a = sid_authority m' b \<and>
     ld_u32s m (a + 8) (sid_sub_authority_count m a) =
       ld_u32s m' (b + 8) (sid_sub_authority_count m a)" (is "?l \<longleftrightarrow> ?r")
proof -
  have split: "bytes x c (8 + 4 * n) = [x c, x (c + 1)] @ bytes x (c + 2) 6 @ bytes x (c + 8) (4 * n)"
    for x c n
    using bytes_add [of x c 8 "4 * n"] bytes_add [of x c 2 6]
    by (simp add: bytes_def upt_rec numeral_2_eq_2)
  have size: "sid_size x c = 8 + 4 * sid_sub_authority_count x c" for x c
    by (simp add: sid_size_def length_required_def SID_MIN_SIZE_def)
  have cnt: "sid_sub_authority_count m a = sid_sub_authority_count m' b \<longleftrightarrow> m (a + 1) = m' (b + 1)"
    by (simp add: sid_sub_authority_count_def ld8_def word_unat_eq_iff)
  show ?thesis
  proof
    assume l: ?l
    then have "length (sid_bytes m a) = length (sid_bytes m' b)" by simp
    then have n: "sid_sub_authority_count m a = sid_sub_authority_count m' b"
      by (simp add: sid_bytes_def size)
    with l show ?r
      by (simp add: sid_bytes_def size split sid_revision_def ld8_def sid_authority_def
          ld_u32s_eq_iff)
  next
    assume r: ?r
    then have "m (a + 1) = m' (b + 1)" using cnt by simp
    then have "m (Suc a) = m' (Suc b)" by simp
    moreover have "bytes m (a + 8) (4 * sid_sub_authority_count m' b) =
        bytes m' (b + 8) (4 * sid_sub_authority_count m' b)"
      using r by (metis ld_u32s_eq_iff)
    ultimately show ?l
      using r by (simp add: sid_bytes_def size split sid_revision_def ld8_def sid_authority_def
          ld_u32s_eq_iff)
  qed
qed

lemma rtl_equal_sid_eq: "rtl_equal_sid m a b \<longleftrightarrow> a \<noteq> 0 \<and> b \<noteq> 0 \<and> sid_bytes m a = sid_bytes m b"
  by (auto simp: rtl_equal_sid_def sid_bytes_eq_iff Let_def ld_u32s_def)

lemma sid_bytes_region:
  assumes "bytes m a n = bytes m' b n" and "sid_size m a \<le> n"
  shows "sid_bytes m' b = sid_bytes m a" and "sid_size m' b = sid_size m a"
proof -
  have "2 \<le> n" using assms(2) sid_size_bounds(1) [of m a] by simp
  then have "ld8 m (a + 1) = ld8 m' (b + 1)" using ld_bytes_eq(1) [OF assms(1), of 1] by simp
  then show s: "sid_size m' b = sid_size m a"
    by (simp add: sid_size_def sid_sub_authority_count_def)
  show "sid_bytes m' b = sid_bytes m a"
    using bytes_shorter [OF assms(1,2)] by (simp add: sid_bytes_def s)
qed

definition same_sid :: "mem \<Rightarrow> nat \<Rightarrow> mem \<Rightarrow> nat \<Rightarrow> bool" where
  "same_sid m p m' p' \<longleftrightarrow> (p' = 0 \<longleftrightarrow> p = 0) \<and> (p \<noteq> 0 \<longrightarrow> sid_bytes m' p' = sid_bytes m p)"

lemma sid_valid_bytes:
  assumes "sid_bytes m' b = sid_bytes m a" and "b \<noteq> 0" and "rtl_valid_sid m a"
  shows "rtl_valid_sid m' b"
  using assms by (simp add: rtl_valid_sid_def sid_bytes_eq_iff split: if_splits)


lemma unat_ucast_8_32: "unat (ucast (n :: u8) :: u32) = unat n"
proof -
  have "unat n < 2 ^ 32" using unat_lt_8 [of n] by (simp del: unat_lt_8)
  then show ?thesis by (simp add: unsigned_ucast_eq take_bit_nat_eq_self_iff)
qed

lemma fold_zero_words:
  "bytes (fold (\<lambda>i m. st32 m (a + 4 * i) 0) [0..<n] m) a (4 * n) = replicate (4 * n) 0"
  "x + k \<le> a \<Longrightarrow> bytes (fold (\<lambda>i m. st32 m (a + 4 * i) 0) [0..<n] m) x k = bytes m x k"
proof (induction n)
  case 0
  { case 1 then show ?case by simp next case 2 then show ?case by simp }
next
  case (Suc n)
  let ?M = "fold (\<lambda>i m. st32 m (a + 4 * i) 0) [0..<n] m"
  have last: "fold (\<lambda>i m. st32 m (a + 4 * i) 0) [0..<Suc n] m = st32 ?M (a + 4 * n) 0"
    by simp
  { case 1
    have "bytes (st32 m' b 0) b 4 = replicate 4 0" for m' b
      by (simp add: st32_def bytes_store_same to_le_0)
    then have z: "bytes (st32 ?M (a + 4 * n) 0) (a + 4 * n) 4 = replicate 4 0" .
    have k: "bytes (st32 ?M (a + 4 * n) 0) a (4 * n) = replicate (4 * n) 0"
      using Suc.IH(1) by (simp only: bytes_stores le_refl simp_thms)
    have "bytes (st32 ?M (a + 4 * n) 0) a (4 * n + 4) = replicate (4 * n + 4) 0"
      unfolding bytes_add z k replicate_add ..
    then show ?case unfolding last by (simp add: add.commute)
  next
    case 2
    then show ?case using Suc.IH(2) unfolding last by (simp add: bytes_stores) }
qed

section \<open>Properties\<close>

text \<open>
  \<open>RtlEqualSid\<close> decides equality of SIDs: for two non-null pointers the field-by-field
  comparison (revision, count, authority, slice of sub-authorities) succeeds exactly when the
  two SIDs occupy the same number of bytes and have the same bytes.
\<close>

theorem rtl_equal_sid_iff_bytes:
  "rtl_equal_sid m sid1 sid2 \<longleftrightarrow>
     sid1 \<noteq> 0 \<and> sid2 \<noteq> 0 \<and> rtl_length_sid m sid1 = rtl_length_sid m sid2 \<and>
     bytes m sid1 (unat (rtl_length_sid m sid1)) = bytes m sid2 (unat (rtl_length_sid m sid2))"
proof (cases "sid1 = 0 \<or> sid2 = 0")
  case False
  have "sid_bytes m sid1 = sid_bytes m sid2 \<Longrightarrow> sid_size m sid1 = sid_size m sid2"
    by (simp add: sid_bytes_eq_iff sid_size_def)
  with False show ?thesis
    by (auto simp: rtl_equal_sid_eq unat_rtl_length_sid sid_bytes_def word_unat_eq_iff)
qed (auto simp: rtl_equal_sid_def)

text \<open>
  \<open>RtlCopySid\<close> round trip: it succeeds exactly when neither pointer is null and the
  buffer is long enough; then, source and destination not overlapping, the copy is equal to
  the source under \<open>RtlEqualSid\<close>, is valid if the source is, and no byte outside the copy
  changes. A failed copy writes nothing.
\<close>

theorem rtl_copy_sid_roundtrip:
  assumes "rtl_copy_sid m dest_len dest src = (st, m')"
    and "dest + unat (rtl_length_sid m src) \<le> src \<or> src + unat (rtl_length_sid m src) \<le> dest"
  shows "(st = STATUS_SUCCESS \<longleftrightarrow> dest \<noteq> 0 \<and> src \<noteq> 0 \<and> rtl_length_sid m src \<le> dest_len) \<and>
         (if st = STATUS_SUCCESS
          then rtl_equal_sid m' dest src \<and> rtl_valid_sid m' dest = rtl_valid_sid m src \<and>
               (\<forall>x. x < dest \<or> dest + unat (rtl_length_sid m src) \<le> x \<longrightarrow> m' x = m x)
          else m' = m)"
proof (cases "dest = 0 \<or> src = 0 \<or> dest_len < rtl_length_sid m src")
  case True
  with assms(1) show ?thesis
    by (auto simp: rtl_copy_sid_def Let_def STATUS_INVALID_SID_def STATUS_SUCCESS_def
        split: if_splits)
next
  case False
  then have nz: "dest \<noteq> 0" "src \<noteq> 0" and le: "rtl_length_sid m src \<le> dest_len" by auto
  have m': "st = STATUS_SUCCESS" "m' = copy_mem m dest src (sid_size m src)"
    using assms(1) False by (auto simp: rtl_copy_sid_def Let_def unat_rtl_length_sid)
  have "bytes m' src (sid_size m src) = bytes m src (sid_size m src)"
    using assms(2) nz m' by (simp add: copy_mem_frame unat_rtl_length_sid)
  then have src: "sid_bytes m' src = sid_bytes m src"
    using sid_bytes_region(1) [of m src "sid_size m src" m' src] by simp
  have "bytes m src (sid_size m src) = bytes m' dest (sid_size m src)"
    by (simp add: m' copy_mem_bytes)
  then have dst: "sid_bytes m' dest = sid_bytes m src"
    using sid_bytes_region(1) [of m src "sid_size m src" m' dest] by simp
  have "rtl_valid_sid m' dest = rtl_valid_sid m src"
    using sid_valid_bytes [OF dst nz(1)] sid_valid_bytes [OF dst [symmetric] nz(2)] by blast
  then show ?thesis
    using nz le m' src dst
    by (auto simp: rtl_equal_sid_eq unat_rtl_length_sid copy_mem_def store_bytes_outside)
qed

theorem rtl_copy_sid_roundtrip_witness:
  "rtl_equal_sid (snd (rtl_copy_sid (store_bytes (\<lambda>_. 0) 100 SE_LOCAL_SYSTEM_SID_BUFFER) 68 200 100)) 200 100"
proof -
  let ?m = "store_bytes (\<lambda>_. 0) 100 SE_LOCAL_SYSTEM_SID_BUFFER"
  obtain st m' where c: "rtl_copy_sid ?m 68 200 100 = (st, m')"
    by (cases "rtl_copy_sid ?m 68 200 100")
  have len: "rtl_length_sid ?m 100 = 12"
    by (simp add: rtl_length_sid_def sid_sub_authority_count_def ld8_def store_bytes_def
        sid_buffer_defs length_required_def SID_MIN_SIZE_def)
  show ?thesis
    using rtl_copy_sid_roundtrip [OF c] c len by (auto split: if_splits)
qed

text \<open>
  \<open>RtlInitializeSid\<close> builds a valid SID: with a count of at most 15 and an authority
  outside the SID, it succeeds, the SID is valid, has the requested length and authority, and
  all its sub-authorities are zero. With a larger count it fails and writes nothing.
\<close>

theorem rtl_initialize_sid_valid:
  assumes "sid \<noteq> 0" and "auth \<noteq> 0" and "auth + 6 \<le> sid \<or> sid + 2 \<le> auth"
    and "rtl_initialize_sid m sid auth n = (st, m')"
  shows "if unat n \<le> 15
         then st = STATUS_SUCCESS \<and> rtl_valid_sid m' sid \<and>
              rtl_length_sid m' sid = rtl_length_required_sid (ucast n) \<and>
              sid_authority m' sid = bytes m auth 6 \<and>
              (\<forall>i<unat n. ld32 m' (sid + 8 + 4 * i) = 0)
         else st = STATUS_INVALID_SID \<and> m' = m"
proof (cases "unat n \<le> 15")
  case False
  with assms show ?thesis by (simp add: rtl_initialize_sid_def MAX_SUB_AUTHORITIES_def)
next
  case True
  define m3 where "m3 = copy_mem (st8 (st8 m sid 1) (sid + 1) n) (sid + 2) auth 6"
  have m': "m' = fold (\<lambda>i m. st32 m (sid + 8 + 4 * i) 0) [0..<unat n] m3" "st = STATUS_SUCCESS"
    using assms True
    by (auto simp: rtl_initialize_sid_def MAX_SUB_AUTHORITIES_def SID_REVISION_def m3_def Let_def)
  have auth: "bytes m3 (sid + 2) 6 = bytes m auth 6"
    using assms(3) by (elim disjE) (simp_all add: m3_def copy_mem_bytes bytes_stores)
  have hd3: "ld8 m3 sid = 1" "ld8 m3 (sid + 1) = n"
    by (simp_all add: m3_def mem_frame mem_same)
  have keep: "bytes m' sid 8 = bytes m3 sid 8"
    unfolding m' using fold_zero_words(2) [of sid 8 "sid + 8" "unat n" m3] by (simp add: add.assoc)
  have hd: "ld8 m' sid = 1" "ld8 m' (sid + 1) = n" "bytes m' (sid + 2) 6 = bytes m auth 6"
    using ld_bytes_eq(1) [OF keep, of 0] ld_bytes_eq(1) [OF keep, of 1]
      bytes_sub [OF keep, of 2 6] hd3 auth by simp_all
  have z: "bytes m' (sid + 8) (4 * unat n) = replicate (4 * unat n) 0"
    unfolding m' using fold_zero_words(1) [of "sid + 8" "unat n" m3] by (simp add: add.assoc)
  have "ld32 m' (sid + 8 + 4 * i) = 0" if "i < unat n" for i
  proof -
    have "bytes m' (sid + 8 + 4 * i) 4 = replicate 4 0"
      using z that by (simp add: list_eq_iff_nth_eq nth_bytes add.assoc)
    then show ?thesis by (simp only: ld32_def le_nat_replicate_0) simp
  qed
  moreover have "rtl_length_sid m' sid = rtl_length_required_sid (ucast n)"
    using assms(1) hd by (simp add: rtl_length_sid_def rtl_length_required_sid_def
        sid_sub_authority_count_def unat_ucast_8_32)
  ultimately show ?thesis
    using hd m' assms(1) True
    by (simp add: rtl_valid_sid_def sid_revision_def SID_REVISION_def sid_sub_authority_count_def
        MAX_SUB_AUTHORITIES_def sid_authority_def)
qed

theorem rtl_initialize_sid_valid_witness:
  "rtl_valid_sid (snd (rtl_initialize_sid (store_bytes (\<lambda>_. 0) 50 [0, 0, 0, 0, 0, 5]) 100 50 2)) 100"
  using rtl_initialize_sid_valid [of 100 50 "store_bytes (\<lambda>_. 0) 50 [0, 0, 0, 0, 0, 5]" 2
      "fst (rtl_initialize_sid (store_bytes (\<lambda>_. 0) 50 [0, 0, 0, 0, 0, 5]) 100 50 2)"
      "snd (rtl_initialize_sid (store_bytes (\<lambda>_. 0) 50 [0, 0, 0, 0, 0, 5]) 100 50 2)"]
  by simp

definition account_sids :: "u8 list list" where
  "account_sids = [SE_NULL_SID_BUFFER, SE_WORLD_SID_BUFFER, SE_ANONYMOUS_LOGON_SID_BUFFER,
     SE_AUTHENTICATED_USERS_SID_BUFFER, SE_LOCAL_SYSTEM_SID_BUFFER, SE_LOCAL_SERVICE_SID_BUFFER,
     SE_NETWORK_SERVICE_SID_BUFFER, SE_ALIASED_ADMINS_SID_BUFFER]"

definition label_sids :: "u8 list list" where
  "label_sids = [SE_UNTRUSTED_MANDATORY_SID_BUFFER, SE_LOW_MANDATORY_SID_BUFFER,
     SE_MEDIUM_MANDATORY_SID_BUFFER, SE_HIGH_MANDATORY_SID_BUFFER,
     SE_SYSTEM_MANDATORY_SID_BUFFER]"

lemma placed_sid:
  assumes "bytes m a (length bs) = bs" and "length bs = 8 + 4 * unat (bs ! 1)"
  shows "sid_bytes m a = bs" and "sid_revision m a = bs ! 0"
    and "sid_sub_authority_count m a = unat (bs ! 1)"
    and "sid_authority m a = take 6 (drop 2 bs)"
proof -
  have n: "m (a + i) = bs ! i" if "i < length bs" for i
    using assms(1) nth_bytes [OF that, of m a] by simp
  show c: "sid_sub_authority_count m a = unat (bs ! 1)"
    using n [of 1] assms(2) by (simp add: sid_sub_authority_count_def ld8_def)
  show "sid_revision m a = bs ! 0"
    using n [of 0] assms(2) by (simp add: sid_revision_def ld8_def)
  show "sid_bytes m a = bs"
    using assms c by (simp add: sid_bytes_def sid_size_def length_required_def SID_MIN_SIZE_def
        add.commute mult.commute)
  have i: "a + (2 + j) = a + 2 + j" for j by simp
  have "m (a + 2 + j) = bs ! (2 + j)" if "j < 6" for j
    using n [of "2 + j"] assms(2) that unfolding i by simp
  then show "sid_authority m a = take 6 (drop 2 bs)"
    using assms(2) by (simp add: sid_authority_def list_eq_iff_nth_eq nth_bytes)
qed

lemma well_known_shapes:
  "list_all (\<lambda>s. length s = 8 + 4 * unat (s ! 1) \<and> s ! 0 = 1 \<and> unat (s ! 1) \<le> 2 \<and>
     ((take 6 (drop 2 s) = [0, 0, 0, 0, 0, 16] \<and> s ! 1 = 1) = List.member label_sids s))
   (account_sids @ label_sids)"
  by code_simp

lemma well_known_shape:
  assumes "s \<in> set (account_sids @ label_sids)"
  shows "length s = 8 + 4 * unat (s ! 1)" and "s ! 0 = 1" and "unat (s ! 1) \<le> 2"
    and "take 6 (drop 2 s) = [0, 0, 0, 0, 0, 16] \<and> s ! 1 = 1 \<longleftrightarrow> s \<in> set label_sids"
  using well_known_shapes assms unfolding list_all_iff by fastforce+

text \<open>
  The well-known SIDs are distinct valid SIDs: wherever the static buffers are placed in
  memory, each is accepted by \<open>RtlValidSid\<close>, \<open>RtlEqualSid\<close> tells any two of them apart, and
  \<open>SepIsIntegritySid\<close> accepts the five mandatory labels and none of the other eight.
\<close>

theorem well_known_sids_distinct:
  assumes "s \<in> set (account_sids @ label_sids)" and "t \<in> set (account_sids @ label_sids)"
    and "bytes m a (length s) = s" and "bytes m b (length t) = t" and "a \<noteq> 0" and "b \<noteq> 0"
  shows "rtl_valid_sid m a \<and> (rtl_equal_sid m a b \<longleftrightarrow> s = t) \<and>
         (sep_is_integrity_sid m a \<longleftrightarrow> s \<in> set label_sids) \<and> distinct (account_sids @ label_sids)"
proof -
  note sh = well_known_shape [OF assms(1)] and th = well_known_shape [OF assms(2)]
  note s = placed_sid [OF assms(3) sh(1)] and t = placed_sid [OF assms(4) th(1)]
  have v: "rtl_valid_sid m a"
    using assms(5) s(2,3) sh(2,3)
    by (simp add: rtl_valid_sid_def SID_REVISION_def MAX_SUB_AUTHORITIES_def)
  moreover have "sep_is_integrity_sid m a \<longleftrightarrow> s \<in> set label_sids"
    using v assms(5) s(3,4) sh(4)
    by (auto simp: sep_is_integrity_sid_def SECURITY_MANDATORY_LABEL_AUTHORITY_def word_unat_eq_iff)
  moreover have "distinct (account_sids @ label_sids)"
    by (simp add: account_sids_def label_sids_def sid_buffer_defs)
  ultimately show ?thesis
    using assms(5,6) s(1) t(1) by (simp add: rtl_equal_sid_eq)
qed

theorem well_known_sids_distinct_witness:
  "\<not> rtl_equal_sid (store_bytes (store_bytes (\<lambda>_. 0) 16 SE_WORLD_SID_BUFFER) 64 SE_HIGH_MANDATORY_SID_BUFFER) 16 64"
  using well_known_sids_distinct [of SE_WORLD_SID_BUFFER SE_HIGH_MANDATORY_SID_BUFFER
      "store_bytes (store_bytes (\<lambda>_. 0) 16 SE_WORLD_SID_BUFFER) 64 SE_HIGH_MANDATORY_SID_BUFFER" 16 64]
  by (simp add: bytes_store_same bytes_store_disj account_sids_def label_sids_def sid_buffer_defs)

end
