(* ===== verification/Acl.thy ===== *)
theory Acl
  imports Sid
begin

text \<open>
  Access control lists: \<open>kernel/ntoskrnl/src/se/acl.rs\<close>. An \<open>ACL\<close> header takes 8 bytes
  (revision at 0, total size at 2, number of ACEs at 4); the ACEs follow it back to back. A
  standard ACE has its type at 0, flags at 1, size at 2, mask at 4 and its SID from 8. Both
  the pointer walks of the run-time library and the \<open>AceIterator\<close> of the access check are
  modelled, with the bounds checks each of them makes, in the order it makes them.
\<close>

section \<open>Layout\<close>

definition ACL_REVISION :: u8 where "ACL_REVISION = 2"
definition ACL_REVISION_DS :: u8 where "ACL_REVISION_DS = 4"
definition SIZEOF_ACL :: nat where "SIZEOF_ACL = 8"
definition SIZEOF_ACE_HEADER :: nat where "SIZEOF_ACE_HEADER = 4"

definition ACCESS_ALLOWED_ACE_TYPE :: u8 where "ACCESS_ALLOWED_ACE_TYPE = 0"
definition ACCESS_DENIED_ACE_TYPE :: u8 where "ACCESS_DENIED_ACE_TYPE = 1"
definition SYSTEM_AUDIT_ACE_TYPE :: u8 where "SYSTEM_AUDIT_ACE_TYPE = 2"
definition SYSTEM_MANDATORY_LABEL_ACE_TYPE :: u8 where "SYSTEM_MANDATORY_LABEL_ACE_TYPE = 0x11"

lemmas ace_type_defs = ACCESS_ALLOWED_ACE_TYPE_def ACCESS_DENIED_ACE_TYPE_def
  SYSTEM_AUDIT_ACE_TYPE_def SYSTEM_MANDATORY_LABEL_ACE_TYPE_def

definition acl_revision :: "mem \<Rightarrow> nat \<Rightarrow> u8" where "acl_revision m acl = ld8 m acl"
definition acl_size :: "mem \<Rightarrow> nat \<Rightarrow> nat" where "acl_size m acl = unat (ld16 m (acl + 2))"
definition ace_count :: "mem \<Rightarrow> nat \<Rightarrow> u16" where "ace_count m acl = ld16 m (acl + 4)"
definition ace_type :: "mem \<Rightarrow> nat \<Rightarrow> u8" where "ace_type m ace = ld8 m ace"
definition ace_size :: "mem \<Rightarrow> nat \<Rightarrow> nat" where "ace_size m ace = unat (ld16 m (ace + 2))"
definition ace_mask :: "mem \<Rightarrow> nat \<Rightarrow> u32" where "ace_mask m ace = ld32 m (ace + 4)"
definition ace_sid_start :: "nat \<Rightarrow> nat" where "ace_sid_start ace = ace + 8"

section \<open>Validation and creation\<close>

fun valid_aces :: "mem \<Rightarrow> nat \<Rightarrow> nat \<Rightarrow> nat \<Rightarrow> bool" where
  "valid_aces m acl_end ace_ptr 0 = True"
| "valid_aces m acl_end ace_ptr (Suc n) =
     (if acl_end < ace_ptr + SIZEOF_ACE_HEADER then False
      else if ace_size m ace_ptr < SIZEOF_ACE_HEADER then False
      else if acl_end < ace_ptr + ace_size m ace_ptr then False
      else valid_aces m acl_end (ace_ptr + ace_size m ace_ptr) n)"

definition rtl_valid_acl :: "mem \<Rightarrow> nat \<Rightarrow> bool" where
  "rtl_valid_acl m acl =
     (if acl = 0 then False
      else if acl_revision m acl < ACL_REVISION \<or> ACL_REVISION_DS < acl_revision m acl then False
      else if acl_size m acl < SIZEOF_ACL then False
      else valid_aces m (acl + acl_size m acl) (acl + SIZEOF_ACL) (unat (ace_count m acl)))"

definition rtl_create_acl :: "mem \<Rightarrow> nat \<Rightarrow> u32 \<Rightarrow> u32 \<Rightarrow> ntstatus \<times> mem" where
  "rtl_create_acl m acl acl_length acl_rev =
     (if acl = 0 then (STATUS_INVALID_ACL, m)
      else if acl_length < of_nat SIZEOF_ACL then (STATUS_INVALID_ACL, m)
      else let revision = ucast acl_rev :: u8 in
        if revision < ACL_REVISION \<or> ACL_REVISION_DS < revision then (STATUS_INVALID_ACL, m)
        else let m1 = st8 m acl revision;
                 m2 = st8 m1 (acl + 1) 0;
                 m3 = st16 m2 (acl + 2) (ucast acl_length);
                 m4 = st16 m3 (acl + 4) 0
             in (STATUS_SUCCESS, st16 m4 (acl + 6) 0))"

section \<open>Walking the ACEs\<close>

text \<open>\<open>None\<close> is the return value \<open>false\<close>; otherwise the value stored through \<open>first_free\<close>.\<close>

fun first_free_walk :: "mem \<Rightarrow> nat \<Rightarrow> nat \<Rightarrow> nat \<Rightarrow> nat option" where
  "first_free_walk m acl_end ace_ptr 0 = (if acl_end < ace_ptr then None else Some ace_ptr)"
| "first_free_walk m acl_end ace_ptr (Suc n) =
     (if acl_end \<le> ace_ptr then None
      else first_free_walk m acl_end (ace_ptr + ace_size m ace_ptr) n)"

definition rtl_first_free_ace :: "mem \<Rightarrow> nat \<Rightarrow> nat option" where
  "rtl_first_free_ace m acl =
     (if acl = 0 then None
      else first_free_walk m (acl + acl_size m acl) (acl + SIZEOF_ACL) (unat (ace_count m acl)))"

text \<open>\<open>get_ace_walk\<close> is the loop over \<open>0..=ace_index\<close>, counted down to the wanted ACE.\<close>

fun get_ace_walk :: "mem \<Rightarrow> nat \<Rightarrow> nat \<Rightarrow> nat \<Rightarrow> nat option" where
  "get_ace_walk m acl_end ace_ptr 0 = (if acl_end \<le> ace_ptr then None else Some ace_ptr)"
| "get_ace_walk m acl_end ace_ptr (Suc n) =
     (if acl_end \<le> ace_ptr then None
      else get_ace_walk m acl_end (ace_ptr + ace_size m ace_ptr) n)"

definition rtl_get_ace :: "mem \<Rightarrow> nat \<Rightarrow> u32 \<Rightarrow> ntstatus \<times> nat option" where
  "rtl_get_ace m acl ace_index =
     (if acl = 0 then (STATUS_INVALID_ACL, None)
      else if ucast (ace_count m acl) \<le> ace_index then (STATUS_INVALID_ACL, None)
      else case get_ace_walk m (acl + acl_size m acl) (acl + SIZEOF_ACL) (unat ace_index) of
          None \<Rightarrow> (STATUS_INVALID_ACL, None)
        | Some ace \<Rightarrow> (STATUS_SUCCESS, Some ace))"

record AceIterator =
  current :: nat
  iter_end :: nat
  remaining :: u16

definition ace_iterator_new :: "mem \<Rightarrow> nat \<Rightarrow> AceIterator option" where
  "ace_iterator_new m acl =
     (if acl = 0 then None
      else Some \<lparr>current = acl + SIZEOF_ACL, iter_end = acl + acl_size m acl,
                 remaining = ace_count m acl\<rparr>)"

definition ace_iterator_next :: "mem \<Rightarrow> AceIterator \<Rightarrow> (nat \<times> AceIterator) option" where
  "ace_iterator_next m it =
     (if remaining it = 0 \<or> iter_end it \<le> current it then None
      else if iter_end it < current it + ace_size m (current it) then None
      else Some (current it,
             it\<lparr>current := current it + ace_size m (current it), remaining := remaining it - 1\<rparr>))"

lemma next_decreases:
  "ace_iterator_next m it = Some (ace, it') \<Longrightarrow> unat (remaining it') < unat (remaining it)"
  by (auto simp: ace_iterator_next_def unat_minus_one unat_gt_0 split: if_splits)

text \<open>What a \<open>for ace in iter\<close> loop sees: the ACEs the iterator yields, in order.\<close>

function aces_of :: "mem \<Rightarrow> AceIterator \<Rightarrow> nat list" where
  "aces_of m it = (case ace_iterator_next m it of
      None \<Rightarrow> [] | Some (ace, it') \<Rightarrow> ace # aces_of m it')"
  by auto
termination
  by (relation "measure (\<lambda>(m, it). unat (remaining it))") (auto dest: next_decreases)

declare aces_of.simps [simp del]

definition acl_aces :: "mem \<Rightarrow> nat \<Rightarrow> nat list" where
  "acl_aces m acl = (case ace_iterator_new m acl of None \<Rightarrow> [] | Some it \<Rightarrow> aces_of m it)"

section \<open>ACE fields\<close>

definition ace_get_sid :: "mem \<Rightarrow> nat \<Rightarrow> nat" where
  "ace_get_sid m ace =
     (if ace = 0 then 0
      else if ace_type m ace = ACCESS_ALLOWED_ACE_TYPE then ace_sid_start ace
      else if ace_type m ace = ACCESS_DENIED_ACE_TYPE then ace_sid_start ace
      else if ace_type m ace = SYSTEM_AUDIT_ACE_TYPE then ace_sid_start ace
      else if ace_type m ace = SYSTEM_MANDATORY_LABEL_ACE_TYPE then ace_sid_start ace
      else 0)"

definition ace_get_mask :: "mem \<Rightarrow> nat \<Rightarrow> u32" where
  "ace_get_mask m ace =
     (if ace = 0 then 0
      else if ace_type m ace = ACCESS_ALLOWED_ACE_TYPE then ace_mask m ace
      else if ace_type m ace = ACCESS_DENIED_ACE_TYPE then ace_mask m ace
      else if ace_type m ace = SYSTEM_AUDIT_ACE_TYPE then ace_mask m ace
      else if ace_type m ace = SYSTEM_MANDATORY_LABEL_ACE_TYPE then ace_mask m ace
      else 0)"

definition ace_is_deny :: "mem \<Rightarrow> nat \<Rightarrow> bool" where
  "ace_is_deny m ace = (if ace = 0 then False else ace_type m ace = ACCESS_DENIED_ACE_TYPE)"

definition ace_is_allow :: "mem \<Rightarrow> nat \<Rightarrow> bool" where
  "ace_is_allow m ace = (if ace = 0 then False else ace_type m ace = ACCESS_ALLOWED_ACE_TYPE)"

definition ace_is_audit :: "mem \<Rightarrow> nat \<Rightarrow> bool" where
  "ace_is_audit m ace = (if ace = 0 then False else ace_type m ace = SYSTEM_AUDIT_ACE_TYPE)"

definition ace_is_mandatory_label :: "mem \<Rightarrow> nat \<Rightarrow> bool" where
  "ace_is_mandatory_label m ace =
     (if ace = 0 then False else ace_type m ace = SYSTEM_MANDATORY_LABEL_ACE_TYPE)"

section \<open>Adding ACEs\<close>

definition ace_size_for_sid :: "mem \<Rightarrow> nat \<Rightarrow> u16" where
  "ace_size_for_sid m sid =
     (if sid = 0 then 0
      else of_nat (SIZEOF_ACE_HEADER + 4 + unat (rtl_length_sid m sid) - 4))"

text \<open>
  The common body of the two \<open>_ex\<close> functions, which differ in the ACE type they write only.
  The ACE count is a \<open>u16\<close> that wraps.
\<close>

definition write_ace :: "mem \<Rightarrow> u8 \<Rightarrow> nat \<Rightarrow> u8 \<Rightarrow> u16 \<Rightarrow> u32 \<Rightarrow> nat \<Rightarrow> mem" where
  "write_ace m ty ace flags sz msk sid =
     (let m1 = st8 m ace ty;
          m2 = st8 m1 (ace + 1) flags;
          m3 = st16 m2 (ace + 2) sz;
          m4 = st32 m3 (ace + 4) msk
      in copy_mem m4 (ace_sid_start ace) sid (unat (rtl_length_sid m4 sid)))"

definition add_ace ::
  "mem \<Rightarrow> u8 \<Rightarrow> nat \<Rightarrow> u32 \<Rightarrow> u32 \<Rightarrow> u32 \<Rightarrow> nat \<Rightarrow> ntstatus \<times> mem" where
  "add_ace m ty acl ace_revision ace_flags access_mask sid =
     (if acl = 0 \<or> sid = 0 \<or> \<not> rtl_valid_sid m sid then (STATUS_INVALID_ACL, m)
      else let sz = ace_size_for_sid m sid in
        if sz = 0 then (STATUS_INVALID_ACL, m)
        else case rtl_first_free_ace m acl of
            None \<Rightarrow> (STATUS_INVALID_ACL, m)
          | Some first_free \<Rightarrow>
              if acl + acl_size m acl < first_free + unat sz then (STATUS_INVALID_ACL, m)
              else let m1 = write_ace m ty first_free (ucast ace_flags) sz access_mask sid;
                       m2 = (if acl_revision m1 acl < ucast ace_revision
                             then st8 m1 acl (ucast ace_revision) else m1)
                   in (STATUS_SUCCESS, st16 m2 (acl + 4) (ace_count m2 acl + 1)))"

definition rtl_add_access_allowed_ace_ex ::
  "mem \<Rightarrow> nat \<Rightarrow> u32 \<Rightarrow> u32 \<Rightarrow> u32 \<Rightarrow> nat \<Rightarrow> ntstatus \<times> mem" where
  "rtl_add_access_allowed_ace_ex m = add_ace m ACCESS_ALLOWED_ACE_TYPE"

definition rtl_add_access_allowed_ace :: "mem \<Rightarrow> nat \<Rightarrow> u32 \<Rightarrow> u32 \<Rightarrow> nat \<Rightarrow> ntstatus \<times> mem" where
  "rtl_add_access_allowed_ace m acl ace_revision access_mask sid =
     rtl_add_access_allowed_ace_ex m acl ace_revision 0 access_mask sid"

definition rtl_add_access_denied_ace_ex ::
  "mem \<Rightarrow> nat \<Rightarrow> u32 \<Rightarrow> u32 \<Rightarrow> u32 \<Rightarrow> nat \<Rightarrow> ntstatus \<times> mem" where
  "rtl_add_access_denied_ace_ex m = add_ace m ACCESS_DENIED_ACE_TYPE"

definition rtl_add_access_denied_ace :: "mem \<Rightarrow> nat \<Rightarrow> u32 \<Rightarrow> u32 \<Rightarrow> nat \<Rightarrow> ntstatus \<times> mem" where
  "rtl_add_access_denied_ace m acl ace_revision access_mask sid =
     rtl_add_access_denied_ace_ex m acl ace_revision 0 access_mask sid"

section \<open>The walks agree on a valid ACL\<close>

fun ace_chain :: "mem \<Rightarrow> nat \<Rightarrow> nat \<Rightarrow> nat list" where
  "ace_chain m p 0 = []"
| "ace_chain m p (Suc n) = p # ace_chain m (p + ace_size m p) n"

fun chain_end :: "mem \<Rightarrow> nat \<Rightarrow> nat \<Rightarrow> nat" where
  "chain_end m p 0 = p"
| "chain_end m p (Suc n) = chain_end m (p + ace_size m p) n"

lemma length_ace_chain [simp]: "length (ace_chain m p n) = n"
  by (induction n arbitrary: p) simp_all

lemma chain_end_ge: "p \<le> chain_end m p n"
proof (induction n arbitrary: p)
  case (Suc n)
  have "p \<le> p + ace_size m p" by simp
  also have "\<dots> \<le> chain_end m (p + ace_size m p) n" by (rule Suc)
  finally show ?case by simp
qed simp

lemma valid_chain_end: "valid_aces m e p n \<Longrightarrow> p \<le> e \<Longrightarrow> chain_end m p n \<le> e"
  by (induction n arbitrary: p) (auto split: if_splits)

lemma valid_chain_count: "valid_aces m e p n \<Longrightarrow> p + 4 * n \<le> chain_end m p n"
proof (induction n arbitrary: p)
  case (Suc n)
  then have "4 \<le> ace_size m p" "valid_aces m e (p + ace_size m p) n"
    by (auto simp: SIZEOF_ACE_HEADER_def split: if_splits)
  with Suc.IH [of "p + ace_size m p"] show ?case by simp
qed simp

lemma valid_first_free: "valid_aces m e p n \<Longrightarrow> p \<le> e \<Longrightarrow> first_free_walk m e p n = Some (chain_end m p n)"
  by (induction n arbitrary: p) (auto simp: SIZEOF_ACE_HEADER_def split: if_splits)

lemma valid_get_ace:
  "valid_aces m e p n \<Longrightarrow> i < n \<Longrightarrow> get_ace_walk m e p i = Some (ace_chain m p n ! i)"
proof (induction n arbitrary: p i)
  case (Suc n)
  then show ?case by (cases i) (auto simp: SIZEOF_ACE_HEADER_def split: if_splits)
qed simp

lemma aces_of_unroll:
  "aces_of m \<lparr>current = p, iter_end = e, remaining = r\<rparr> =
     (if r = 0 \<or> e \<le> p \<or> e < p + ace_size m p then []
      else p # aces_of m \<lparr>current = p + ace_size m p, iter_end = e, remaining = r - 1\<rparr>)"
  by (subst aces_of.simps) (simp add: ace_iterator_next_def)

lemma valid_aces_of_n:
  "n = unat r \<Longrightarrow> valid_aces m e p n \<Longrightarrow>
     aces_of m \<lparr>current = p, iter_end = e, remaining = r\<rparr> = ace_chain m p n"
proof (induction n arbitrary: p r)
  case 0
  then have "r = 0" by (simp add: word_unat_eq_iff)
  then show ?case by (simp add: aces_of_unroll)
next
  case (Suc n)
  note r = unat_pred [OF Suc.prems(1)]
  have v: "p + 4 \<le> e" "4 \<le> ace_size m p" "p + ace_size m p \<le> e"
      "valid_aces m e (p + ace_size m p) n"
    using Suc.prems(2) by (auto simp: SIZEOF_ACE_HEADER_def split: if_splits)
  then show ?case
    using r(1) Suc.IH [OF r(2) v(4)] by (simp add: aces_of_unroll [of m p])
qed

lemmas valid_aces_of = valid_aces_of_n [OF refl]

lemma aces_of_within:
  "n = unat r \<Longrightarrow> ace \<in> set (aces_of m \<lparr>current = p, iter_end = e, remaining = r\<rparr>) \<Longrightarrow>
     p \<le> ace \<and> ace < e \<and> ace + ace_size m ace \<le> e"
proof (induction n arbitrary: p r)
  case 0
  then have "r = 0" by (simp add: word_unat_eq_iff)
  with 0 show ?case by (simp add: aces_of_unroll)
next
  case (Suc n)
  note r = unat_pred [OF Suc.prems(1)]
  consider "ace = p" "p < e" "p + ace_size m p \<le> e"
    | "ace \<in> set (aces_of m \<lparr>current = p + ace_size m p, iter_end = e, remaining = r - 1\<rparr>)"
    using Suc.prems(2) unfolding aces_of_unroll [of m p] by (auto split: if_splits)
  then show ?case
  proof cases
    case 2
    show ?thesis using Suc.IH [OF r(2) 2] by simp
  qed simp
qed

lemma valid_acl_parts:
  assumes "rtl_valid_acl m acl"
  shows "acl \<noteq> 0" and "8 \<le> acl_size m acl"
    and "valid_aces m (acl + acl_size m acl) (acl + 8) (unat (ace_count m acl))"
    and "2 \<le> acl_revision m acl" and "acl_revision m acl \<le> 4"
  using assms by (auto simp: rtl_valid_acl_def SIZEOF_ACL_def ACL_REVISION_def
      ACL_REVISION_DS_def not_less split: if_splits)

section \<open>What adding an ACE does to memory\<close>

lemma ace_chain_snoc: "ace_chain m p (Suc n) = ace_chain m p n @ [chain_end m p n]"
  by (induction n arbitrary: p) simp_all

lemma chain_end_snoc: "chain_end m p (Suc n) = chain_end m p n + ace_size m (chain_end m p n)"
  by (induction n arbitrary: p) simp_all

lemma valid_aces_snoc:
  "valid_aces m e p (Suc n) \<longleftrightarrow> valid_aces m e p n \<and>
     chain_end m p n + SIZEOF_ACE_HEADER \<le> e \<and>
     SIZEOF_ACE_HEADER \<le> ace_size m (chain_end m p n) \<and>
     chain_end m p n + ace_size m (chain_end m p n) \<le> e"
proof (induction n arbitrary: p)
  case 0
  show ?case by auto
next
  case (Suc n)
  have a: "valid_aces m e p (Suc k) \<longleftrightarrow> p + SIZEOF_ACE_HEADER \<le> e \<and>
      SIZEOF_ACE_HEADER \<le> ace_size m p \<and> p + ace_size m p \<le> e \<and>
      valid_aces m e (p + ace_size m p) k" for k
    by auto
  show ?case
    unfolding a [of "Suc n"] a [of n] Suc [of "p + ace_size m p"] chain_end.simps(2) by blast
qed

lemma ace_size_cong: "(\<And>x. ace \<le> x \<Longrightarrow> x < ace + 4 \<Longrightarrow> m' x = m x) \<Longrightarrow> ace_size m' ace = ace_size m ace"
  by (simp add: ace_size_def ld16_def bytes_def)

lemma chain_frame:
  assumes "\<And>x. p \<le> x \<Longrightarrow> x < chain_end m p n \<Longrightarrow> m' x = m x" and "valid_aces m e p n"
  shows "ace_chain m' p n = ace_chain m p n \<and> chain_end m' p n = chain_end m p n \<and> valid_aces m' e p n"
  using assms
proof (induction n arbitrary: p)
  case (Suc n)
  let ?q = "p + ace_size m p"
  have v: "4 \<le> ace_size m p" "valid_aces m e ?q n" "p + 4 \<le> e" "?q \<le> e"
    using Suc.prems(2) by (auto simp: SIZEOF_ACE_HEADER_def split: if_splits)
  have "?q \<le> chain_end m ?q n" by (rule chain_end_ge)
  then have same: "ace_size m' p = ace_size m p"
    using Suc.prems(1) v(1) by (intro ace_size_cong) simp
  have "ace_chain m' ?q n = ace_chain m ?q n \<and> chain_end m' ?q n = chain_end m ?q n \<and> valid_aces m' e ?q n"
    using Suc.prems(1) v(2) by (intro Suc.IH) auto
  then show ?case using same v by (simp add: SIZEOF_ACE_HEADER_def)
qed simp

lemma unat_ace_size_for_sid:
  "sid \<noteq> 0 \<Longrightarrow> unat (ace_size_for_sid m sid) = 4 + sid_size m sid"
proof -
  assume "sid \<noteq> 0"
  then have "ace_size_for_sid m sid = of_nat (4 + sid_size m sid)"
    by (simp add: ace_size_for_sid_def unat_rtl_length_sid SIZEOF_ACE_HEADER_def)
  moreover have "4 + sid_size m sid < 65536"
    using sid_size_bounds(2) [of m sid] by simp
  ultimately show ?thesis by (simp only: unat_of_nat_16)
qed

definition ace_written :: "mem \<Rightarrow> u8 \<Rightarrow> nat \<Rightarrow> u8 \<Rightarrow> u32 \<Rightarrow> u8 list \<Rightarrow> bool" where
  "ace_written m ty ace flags msk sid \<longleftrightarrow>
     ace_type m ace = ty \<and> ld8 m (ace + 1) = flags \<and> ace_size m ace = 4 + length sid \<and>
     ace_mask m ace = msk \<and> bytes m (ace + 8) (length sid) = sid"

lemma write_ace_effect:
  assumes "sid \<noteq> 0" and "sid + sid_size m sid \<le> ace \<or> ace + 8 + sid_size m sid \<le> sid"
  shows "ace_written (write_ace m ty ace flags (ace_size_for_sid m sid) msk sid) ty ace flags msk (sid_bytes m sid)"
    and "x < ace \<or> ace + 8 + sid_size m sid \<le> x \<Longrightarrow>
           write_ace m ty ace flags (ace_size_for_sid m sid) msk sid x = m x"
proof -
  define m4 where "m4 = st32 (st16 (st8 (st8 m ace ty) (ace + 1) flags) (ace + 2)
      (ace_size_for_sid m sid)) (ace + 4) msk"
  have far: "m4 x = m x" if "x < ace \<or> ace + 8 \<le> x" for x
    using that by (auto simp: m4_def st8_def st16_def st32_def store_bytes_outside)
  have "bytes m sid (sid_size m sid) = bytes m4 sid (sid_size m sid)"
    using assms(2) far by (auto simp: bytes_eq_iff)
  then have sid: "sid_bytes m4 sid = sid_bytes m sid" "sid_size m4 sid = sid_size m sid"
    using sid_bytes_region [of m sid "sid_size m sid" m4 sid] by simp_all
  have w: "write_ace m ty ace flags (ace_size_for_sid m sid) msk sid = copy_mem m4 (ace + 8) sid (sid_size m sid)"
    using assms(1) sid(2) by (simp add: write_ace_def Let_def m4_def ace_sid_start_def unat_rtl_length_sid)
  have hdr: "ld8 m4 ace = ty" "ld8 m4 (ace + 1) = flags" "ld16 m4 (ace + 2) = ace_size_for_sid m sid"
      "ld32 m4 (ace + 4) = msk"
    by (simp_all add: m4_def mem_frame mem_same)
  have "bytes (copy_mem m4 (ace + 8) sid (sid_size m sid)) (ace + 8) (sid_size m sid) = sid_bytes m sid"
    using sid by (simp add: copy_mem_bytes sid_bytes_def)
  then show "ace_written (write_ace m ty ace flags (ace_size_for_sid m sid) msk sid) ty ace flags msk (sid_bytes m sid)"
    unfolding w ace_written_def
    using hdr assms(1)
    by (simp add: ace_type_def ace_size_def ace_mask_def mem_frame unat_ace_size_for_sid sid_bytes_def)
  show "write_ace m ty ace flags (ace_size_for_sid m sid) msk sid x = m x"
    if "x < ace \<or> ace + 8 + sid_size m sid \<le> x"
    unfolding w using that far [of x] by (auto simp: copy_mem_def store_bytes_outside)
qed

lemma ace_written_cong:
  assumes "ace_written m ty ace flags msk sid"
    and "\<And>x. ace \<le> x \<Longrightarrow> x < ace + 8 + length sid \<Longrightarrow> m' x = m x"
  shows "ace_written m' ty ace flags msk sid"
proof -
  have b: "bytes m ace (8 + length sid) = bytes m' ace (8 + length sid)"
    using assms(2) by (auto simp: bytes_eq_iff)
  show ?thesis
    using assms(1) ld_bytes_eq(1) [OF b, of 0] ld_bytes_eq(1) [OF b, of 1] ld_bytes_eq(2) [OF b, of 2]
      ld_bytes_eq(3) [OF b, of 4] bytes_sub [OF b, of 8 "length sid"]
    by (simp add: ace_written_def ace_type_def ace_size_def ace_mask_def)
qed

definition acl_free :: "mem \<Rightarrow> nat \<Rightarrow> nat" where
  "acl_free m acl = chain_end m (acl + 8) (unat (ace_count m acl))"

lemma valid_acl_free:
  assumes "rtl_valid_acl m acl"
  shows "rtl_first_free_ace m acl = Some (acl_free m acl)"
    and "acl + 8 \<le> acl_free m acl" and "acl_free m acl \<le> acl + acl_size m acl"
    and "unat (ace_count m acl) < 65535"
    and "acl_aces m acl = ace_chain m (acl + 8) (unat (ace_count m acl))"
proof -
  note v = valid_acl_parts [OF assms]
  have le: "acl + 8 \<le> acl + acl_size m acl" using v(2) by simp
  show "rtl_first_free_ace m acl = Some (acl_free m acl)"
    using valid_first_free [OF v(3) le] v(1) by (simp add: rtl_first_free_ace_def acl_free_def SIZEOF_ACL_def)
  show "acl + 8 \<le> acl_free m acl" by (simp add: acl_free_def chain_end_ge)
  show e: "acl_free m acl \<le> acl + acl_size m acl"
    using valid_chain_end [OF v(3) le] by (simp add: acl_free_def)
  have "acl_size m acl < 65536" by (simp add: acl_size_def)
  with e valid_chain_count [OF v(3)] show "unat (ace_count m acl) < 65535"
    by (simp add: acl_free_def)
  show "acl_aces m acl = ace_chain m (acl + 8) (unat (ace_count m acl))"
    using v(1) valid_aces_of [OF v(3)] by (simp add: acl_aces_def ace_iterator_new_def SIZEOF_ACL_def)
qed

lemma add_ace_cases:
  assumes "rtl_valid_acl m acl" and "rtl_valid_sid m sid"
  shows "add_ace m ty acl ace_revision ace_flags access_mask sid =
    (if acl + acl_size m acl < acl_free m acl + 4 + sid_size m sid then (STATUS_INVALID_ACL, m)
     else let m1 = write_ace m ty (acl_free m acl) (ucast ace_flags) (ace_size_for_sid m sid) access_mask sid;
              m2 = (if acl_revision m1 acl < ucast ace_revision
                    then st8 m1 acl (ucast ace_revision) else m1)
          in (STATUS_SUCCESS, st16 m2 (acl + 4) (ace_count m2 acl + 1)))"
proof -
  have nz: "sid \<noteq> 0" "acl \<noteq> 0"
    using valid_sid_nonnull [OF assms(2)] valid_acl_parts(1) [OF assms(1)] by simp_all
  have s0: "ace_size_for_sid m sid \<noteq> 0"
    using unat_ace_size_for_sid [OF nz(1), of m] by auto
  show ?thesis
    using nz s0 assms by (simp add: add_ace_def valid_acl_free(1) unat_ace_size_for_sid add.assoc)
qed

lemma add_ace_effect:
  assumes "rtl_valid_acl m acl" and "rtl_valid_sid m sid"
    and "sid + sid_size m sid \<le> acl \<or> acl + acl_size m acl + 4 \<le> sid"
    and "acl_free m acl + 4 + sid_size m sid \<le> acl + acl_size m acl"
  obtains m' where "add_ace m ty acl ace_revision ace_flags access_mask sid = (STATUS_SUCCESS, m')"
    and "acl_revision m' acl = max (acl_revision m acl) (ucast ace_revision)"
    and "acl_size m' acl = acl_size m acl"
    and "unat (ace_count m' acl) = Suc (unat (ace_count m acl))"
    and "ace_written m' ty (acl_free m acl) (ucast ace_flags) access_mask (sid_bytes m sid)"
    and "\<And>x. (x < acl_free m acl \<or> acl_free m acl + 8 + sid_size m sid \<le> x) \<Longrightarrow>
            x \<noteq> acl \<Longrightarrow> x \<noteq> acl + 4 \<Longrightarrow> x \<noteq> acl + 5 \<Longrightarrow> m' x = m x"
proof -
  let ?ff = "acl_free m acl"
  have nz: "sid \<noteq> 0" by (rule valid_sid_nonnull [OF assms(2)])
  have ff: "acl + 8 \<le> ?ff" by (rule valid_acl_free(2) [OF assms(1)])
  define m1 where "m1 = write_ace m ty ?ff (ucast ace_flags) (ace_size_for_sid m sid) access_mask sid"
  have d: "sid + sid_size m sid \<le> ?ff \<or> ?ff + 8 + sid_size m sid \<le> sid"
    using assms(3,4) ff by linarith
  have w: "ace_written m1 ty ?ff (ucast ace_flags) access_mask (sid_bytes m sid)"
    unfolding m1_def by (rule write_ace_effect(1) [OF nz d])
  have far: "m1 x = m x" if "x < ?ff \<or> ?ff + 8 + sid_size m sid \<le> x" for x
    unfolding m1_def by (rule write_ace_effect(2) [OF nz d that])
  have "bytes m acl 8 = bytes m1 acl 8" using far ff by (auto simp: bytes_eq_iff)
  note b = this ld_bytes_eq(1) [OF this, of 0] ld_bytes_eq(2) [OF this, of 2] ld_bytes_eq(2) [OF this, of 4]
  define m2 where "m2 = (if acl_revision m1 acl < ucast ace_revision then st8 m1 acl (ucast ace_revision) else m1)"
  define m' where "m' = st16 m2 (acl + 4) (ace_count m2 acl + 1)"
  have m2: "ld8 m2 acl = max (acl_revision m acl) (ucast ace_revision)"
      "ld16 m2 (acl + 2) = ld16 m (acl + 2)" "ld16 m2 (acl + 4) = ld16 m (acl + 4)"
    using b by (auto simp: m2_def acl_revision_def mem_frame mem_same max_def)
  have near: "m' x = m1 x" if "x \<noteq> acl" "x \<noteq> acl + 4" "x \<noteq> acl + 5" for x
    using that by (auto simp: m'_def m2_def st8_def st16_def store_bytes_def)
  show ?thesis
  proof (rule that)
    show "add_ace m ty acl ace_revision ace_flags access_mask sid = (STATUS_SUCCESS, m')"
      using assms(4) by (simp add: add_ace_cases [OF assms(1,2)] m1_def m2_def m'_def Let_def)
    show "acl_revision m' acl = max (acl_revision m acl) (ucast ace_revision)"
      using m2(1) by (simp add: m'_def acl_revision_def mem_frame)
    show "acl_size m' acl = acl_size m acl"
      using m2(2) by (simp add: m'_def acl_size_def mem_frame)
    have "unat (ld16 m (acl + 4) + 1) = Suc (unat (ld16 m (acl + 4)))"
      using valid_acl_free(4) [OF assms(1)] by (simp add: ace_count_def unat_word_ariths)
    then show "unat (ace_count m' acl) = Suc (unat (ace_count m acl))"
      using m2(3) by (simp add: m'_def ace_count_def mem_same)
    show "ace_written m' ty ?ff (ucast ace_flags) access_mask (sid_bytes m sid)"
      using ff by (intro ace_written_cong [OF w] near) simp_all
    show "m' x = m x" if "x < ?ff \<or> ?ff + 8 + sid_size m sid \<le> x" "x \<noteq> acl" "x \<noteq> acl + 4" "x \<noteq> acl + 5" for x
      using near [OF that(2-)] far [OF that(1)] by simp
  qed
qed

lemma add_ace_keeps:
  assumes "rtl_valid_acl m acl"
    and "acl_revision m' acl = max (acl_revision m acl) rv" and "acl_size m' acl = acl_size m acl"
    and "unat (ace_count m' acl) = Suc (unat (ace_count m acl))"
    and "ace_written m' ty (acl_free m acl) fl msk sid" and "8 \<le> length sid"
    and "acl_free m acl + 4 + length sid \<le> acl + acl_size m acl"
    and "\<And>x. x < acl_free m acl \<Longrightarrow> x \<noteq> acl \<Longrightarrow> x \<noteq> acl + 4 \<Longrightarrow> x \<noteq> acl + 5 \<Longrightarrow> m' x = m x"
  shows "rtl_valid_acl m' acl \<longleftrightarrow> rv \<le> 4"
    and "acl_aces m' acl = acl_aces m acl @ [acl_free m acl]"
    and "acl_free m' acl = acl_free m acl + 4 + length sid"
proof -
  let ?n = "unat (ace_count m acl)" and ?e = "acl + acl_size m acl"
  note v = valid_acl_parts [OF assms(1)] and f = valid_acl_free [OF assms(1)]
  have fr: "ace_chain m' (acl + 8) ?n = ace_chain m (acl + 8) ?n \<and>
      chain_end m' (acl + 8) ?n = acl_free m acl \<and> valid_aces m' ?e (acl + 8) ?n"
    using chain_frame [OF _ v(3), of m'] assms(8) by (auto simp: acl_free_def)
  have va: "valid_aces m' ?e (acl + 8) (Suc ?n)"
    unfolding valid_aces_snoc using fr assms(5,6,7)
    by (simp add: ace_written_def SIZEOF_ACE_HEADER_def)
  show "rtl_valid_acl m' acl \<longleftrightarrow> rv \<le> 4"
    using v(1,2,4,5) va assms(2,3,4)
    by (auto simp: rtl_valid_acl_def SIZEOF_ACL_def ACL_REVISION_def ACL_REVISION_DS_def not_less max_def)
  have "acl_aces m' acl = ace_chain m' (acl + 8) (Suc ?n)"
    using v(1) valid_aces_of [of m' ?e "acl + 8" "ace_count m' acl"] va assms(3,4)
    by (simp add: acl_aces_def ace_iterator_new_def SIZEOF_ACL_def)
  then show "acl_aces m' acl = acl_aces m acl @ [acl_free m acl]"
    using fr by (simp add: ace_chain_snoc f(5) del: ace_chain.simps)
  show "acl_free m' acl = acl_free m acl + 4 + length sid"
    using fr assms(4,5) by (simp add: acl_free_def [of m'] chain_end_snoc ace_written_def del: chain_end.simps)
qed

section \<open>Properties\<close>


text \<open>
  The iterator never leaves the ACL: whatever bytes the ACL holds, valid or not, every
  ACE the access check gets from \<open>AceIterator\<close> lies between the header and the end the ACL
  declares, with the size it declares, and there are at most \<open>ace_count\<close> of them.
\<close>

theorem ace_iterator_bounds:
  "length (acl_aces m acl) \<le> unat (ace_count m acl) \<and>
   list_all (\<lambda>ace. acl + 8 \<le> ace \<and> ace < acl + acl_size m acl \<and>
                   ace + ace_size m ace \<le> acl + acl_size m acl) (acl_aces m acl)"
proof -
  have len: "length (aces_of m \<lparr>current = p, iter_end = e, remaining = r\<rparr>) \<le> n" if "n = unat r" for p e r n
    using that
  proof (induction n arbitrary: p r)
    case 0
    then have "r = 0" by (simp add: word_unat_eq_iff)
    then show ?case by (simp add: aces_of_unroll)
  next
    case (Suc n)
    show ?case
      using Suc.IH [OF unat_pred(2) [OF Suc.prems], of "p + ace_size m p"]
      by (simp add: aces_of_unroll [of m p])
  qed
  show ?thesis
    using len [OF refl] aces_of_within [OF refl, of _ m "acl + 8"]
    by (auto simp: acl_aces_def ace_iterator_new_def SIZEOF_ACL_def list_all_iff)
qed

lemma sid_at_ace:
  assumes "ace_written m' ty ace fl msk (sid_bytes m sid)"
  shows "sid_bytes m' (ace + 8) = sid_bytes m sid"
proof (rule sid_bytes_region(1))
  show "bytes m sid (sid_size m sid) = bytes m' (ace + 8) (sid_size m sid)"
    using assms by (simp add: ace_written_def sid_bytes_def)
qed simp

text \<open>
  Adding an allow ACE: to a valid ACL, with a valid SID that does not overlap it, the call
  succeeds exactly when the computed ACE size fits behind the last ACE. It then appends one
  ACE to those the iterator yields, with the given mask, flags and a SID equal to the given
  one; the ACL stays valid exactly when the requested revision is at most 4.
\<close>

theorem add_allowed_ace_correct:
  assumes "rtl_valid_acl m acl" and "rtl_valid_sid m sid"
    and "sid + unat (rtl_length_sid m sid) \<le> acl \<or> acl + acl_size m acl + 4 \<le> sid"
    and "rtl_add_access_allowed_ace_ex m acl ace_revision ace_flags access_mask sid = (st, m')"
    and "rtl_first_free_ace m acl = Some ace"
  shows "if ace + unat (ace_size_for_sid m sid) \<le> acl + acl_size m acl
         then st = STATUS_SUCCESS \<and> acl_aces m' acl = acl_aces m acl @ [ace] \<and>
              ace_is_allow m' ace \<and> ace_get_mask m' ace = access_mask \<and>
              ld8 m' (ace + 1) = ucast ace_flags \<and> sid_bytes m' (ace_get_sid m' ace) = sid_bytes m sid \<and>
              (rtl_valid_acl m' acl \<longleftrightarrow> (ucast ace_revision :: u8) \<le> 4)
         else st = STATUS_INVALID_ACL \<and> m' = m"
proof -
  note f = valid_acl_free [OF assms(1)]
  have ace: "ace = acl_free m acl" using f(1) assms(5) by simp
  have nz: "sid \<noteq> 0" by (rule valid_sid_nonnull [OF assms(2)])
  have sz: "unat (ace_size_for_sid m sid) = 4 + sid_size m sid" by (rule unat_ace_size_for_sid [OF nz])
  show ?thesis
  proof (cases "ace + unat (ace_size_for_sid m sid) \<le> acl + acl_size m acl")
    case False
    then show ?thesis
      using assms(4) sz ace
      by (auto simp: rtl_add_access_allowed_ace_ex_def add_ace_cases [OF assms(1,2)])
  next
    case True
    have disj: "sid + sid_size m sid \<le> acl \<or> acl + acl_size m acl + 4 \<le> sid"
      using assms(3) nz by (simp add: unat_rtl_length_sid)
    have room: "acl_free m acl + 4 + sid_size m sid \<le> acl + acl_size m acl"
      using True sz ace by simp
    obtain m1 where e: "add_ace m ACCESS_ALLOWED_ACE_TYPE acl ace_revision ace_flags access_mask sid = (STATUS_SUCCESS, m1)"
      "acl_revision m1 acl = max (acl_revision m acl) (ucast ace_revision)"
      "acl_size m1 acl = acl_size m acl"
      "unat (ace_count m1 acl) = Suc (unat (ace_count m acl))"
      "ace_written m1 ACCESS_ALLOWED_ACE_TYPE (acl_free m acl) (ucast ace_flags) access_mask (sid_bytes m sid)"
      "\<And>x. (x < acl_free m acl \<or> acl_free m acl + 8 + sid_size m sid \<le> x) \<Longrightarrow>
            x \<noteq> acl \<Longrightarrow> x \<noteq> acl + 4 \<Longrightarrow> x \<noteq> acl + 5 \<Longrightarrow> m1 x = m x"
      by (rule add_ace_effect [OF assms(1,2) disj room]) blast
    have len: "8 \<le> length (sid_bytes m sid)"
        "acl_free m acl + 4 + length (sid_bytes m sid) \<le> acl + acl_size m acl"
      using sid_size_bounds(1) [of m sid] room by (simp_all add: sid_bytes_def)
    note k = add_ace_keeps [OF assms(1) e(2,3,4,5) len e(6)]
    have "m' = m1" "st = STATUS_SUCCESS"
      using e(1) assms(4) by (simp_all add: rtl_add_access_allowed_ace_ex_def)
    moreover have "ace \<noteq> 0" using f(2) ace by simp
    ultimately show ?thesis
      using True k(1,2) e(5) ace sid_at_ace [OF e(5)]
      by (simp add: ace_is_allow_def ace_get_mask_def ace_get_sid_def ace_written_def ace_sid_start_def)
  qed
qed

text \<open>
  C31. \<open>ace_size_for_sid\<close> is four bytes too small. It subtracts the size of the \<open>sid_start\<close>
  field from header + mask + SID although neither summand includes it: the SID starts at
  offset 8, so the ACE needs \<open>8 + length\<close> bytes. When the ACE fills the ACL exactly, adding it
  succeeds and the last four bytes of the SID are written behind the end of the ACL.
\<close>

theorem add_ace_overflows_acl:
  assumes "rtl_valid_acl m acl" and "rtl_valid_sid m sid"
    and "sid + unat (rtl_length_sid m sid) \<le> acl \<or> acl + acl_size m acl + 4 \<le> sid"
    and "rtl_first_free_ace m acl = Some ace"
    and "ace + unat (ace_size_for_sid m sid) = acl + acl_size m acl"
  shows "unat (ace_size_for_sid m sid) + 4 = 8 + unat (rtl_length_sid m sid) \<and>
         (\<exists>m'. rtl_add_access_allowed_ace m acl 2 access_mask sid = (STATUS_SUCCESS, m') \<and>
               bytes m' (acl + acl_size m acl) 4 =
                 drop (unat (rtl_length_sid m sid) - 4) (bytes m sid (unat (rtl_length_sid m sid))))"
proof -
  note f = valid_acl_free [OF assms(1)]
  have ace: "ace = acl_free m acl" using f(1) assms(4) by simp
  have nz: "sid \<noteq> 0" by (rule valid_sid_nonnull [OF assms(2)])
  have len: "unat (rtl_length_sid m sid) = sid_size m sid" by (rule unat_rtl_length_sid [OF nz])
  have sz: "unat (ace_size_for_sid m sid) = 4 + sid_size m sid" by (rule unat_ace_size_for_sid [OF nz])
  obtain m1 where e: "add_ace m ACCESS_ALLOWED_ACE_TYPE acl 2 0 access_mask sid = (STATUS_SUCCESS, m1)"
    "ace_written m1 ACCESS_ALLOWED_ACE_TYPE ace (ucast (0 :: u32)) access_mask (sid_bytes m sid)"
    using add_ace_effect [OF assms(1,2), of ACCESS_ALLOWED_ACE_TYPE 2 0 access_mask] assms(3,5) len sz ace
    by (metis order_refl add.assoc)
  have s: "bytes m1 (ace + 8) (sid_size m sid) = bytes m sid (sid_size m sid)"
    using e(2) by (simp add: ace_written_def sid_bytes_def)
  have "8 \<le> sid_size m sid" by (rule sid_size_bounds)
  then have n: "(sid_size m sid - 4) + 4 = sid_size m sid" by simp
  have a: "ace + 8 + (sid_size m sid - 4) = acl + acl_size m acl"
    using assms(5) sz n by simp
  have "bytes m1 (acl + acl_size m acl) 4 = drop (sid_size m sid - 4) (bytes m1 (ace + 8) (sid_size m sid))"
    using bytes_add [of m1 "ace + 8" "sid_size m sid - 4" 4] unfolding n a by simp
  then show ?thesis
    using e(1) s len sz
    by (simp add: rtl_add_access_allowed_ace_def rtl_add_access_allowed_ace_ex_def)
qed

lemma le_nat_append: "le_nat (xs @ ys) = le_nat xs + 256 ^ length xs * le_nat ys"
  by (induction xs) (simp_all add: algebra_simps)

lemma ld32_split: "ld32 m a = ucast (ld16 m a) + 65536 * ucast (ld16 m (a + 2))"
proof -
  have u: "ucast (ld16 m b) = (of_nat (le_nat (bytes m b 2)) :: u32)" for b
  proof -
    have lt: "le_nat (bytes m b 2) < 65536" using le_nat_less [of "bytes m b 2"] by simp
    then have "unat (ucast (ld16 m b) :: u32) = le_nat (bytes m b 2)"
      by (simp add: ld16_def unsigned_ucast_eq unat_of_nat take_bit_nat_eq_self_iff)
    then show ?thesis using lt by (simp only: word_unat_eq_iff) (simp add: unat_of_nat_32)
  qed
  show ?thesis
    using bytes_add [of m a 2 2] by (simp add: u ld32_def le_nat_append)
qed

lemma rid_eq:
  assumes "sid_bytes m a = sid_bytes m' b" and "a \<noteq> 0" and "b \<noteq> 0"
  shows "rtl_get_rid m a = rtl_get_rid m' b"
proof -
  let ?n = "sid_sub_authority_count m a"
  have u: "ld32 m (a + 8 + 4 * (n - 1)) = ld_u32s m (a + 8) n ! (n - 1)" if "0 < n" for m a n
    using that by (simp add: ld_u32s_def)
  have n: "sid_sub_authority_count m' b = ?n"
      "ld_u32s m (a + 8) ?n = ld_u32s m' (b + 8) ?n"
    using assms(1) unfolding sid_bytes_eq_iff by argo+
  then show ?thesis
    using assms(2,3) u [of ?n m a] u [of ?n m' b] by (auto simp: rtl_get_rid_def Let_def)
qed

lemma add_ace_success:
  assumes "rtl_valid_acl m acl" and "rtl_valid_sid m sid"
    and "sid + unat (rtl_length_sid m sid) \<le> acl \<or> acl + acl_size m acl + 4 \<le> sid"
    and "add_ace m ty acl 2 0 msk sid = (STATUS_SUCCESS, m')"
  shows "rtl_valid_acl m' acl" and "acl_size m' acl = acl_size m acl"
    and "acl_free m' acl = acl_free m acl + 4 + sid_size m sid"
    and "ace_written m' ty (acl_free m acl) 0 msk (sid_bytes m sid)"
    and "\<And>x. x < acl_free m acl \<Longrightarrow> acl + 8 \<le> x \<Longrightarrow> m' x = m x"
proof -
  have nz: "sid \<noteq> 0" by (rule valid_sid_nonnull [OF assms(2)])
  have room: "acl_free m acl + 4 + sid_size m sid \<le> acl + acl_size m acl"
    using assms(4) unfolding add_ace_cases [OF assms(1,2)]
    by (simp add: STATUS_INVALID_ACL_def STATUS_SUCCESS_def split: if_splits)
  have d: "sid + sid_size m sid \<le> acl \<or> acl + acl_size m acl + 4 \<le> sid"
    using assms(3) nz by (simp add: unat_rtl_length_sid)
  obtain m1 where e: "add_ace m ty acl 2 0 msk sid = (STATUS_SUCCESS, m1)"
      "acl_revision m1 acl = max (acl_revision m acl) (ucast (2 :: u32))"
      "acl_size m1 acl = acl_size m acl"
      "unat (ace_count m1 acl) = Suc (unat (ace_count m acl))"
      "ace_written m1 ty (acl_free m acl) (ucast (0 :: u32)) msk (sid_bytes m sid)"
      "\<And>x. (x < acl_free m acl \<or> acl_free m acl + 8 + sid_size m sid \<le> x) \<Longrightarrow>
            x \<noteq> acl \<Longrightarrow> x \<noteq> acl + 4 \<Longrightarrow> x \<noteq> acl + 5 \<Longrightarrow> m1 x = m x"
    by (rule add_ace_effect [OF assms(1,2) d room]) blast
  have m1: "m1 = m'" using e(1) assms(4) by simp
  have len: "8 \<le> length (sid_bytes m sid)"
      "acl_free m acl + 4 + length (sid_bytes m sid) \<le> acl + acl_size m acl"
    using sid_size_bounds(1) [of m sid] room by (simp_all add: sid_bytes_def)
  note k = add_ace_keeps [OF assms(1) e(2,3,4,5) len e(6)]
  show "rtl_valid_acl m' acl" using k(1) m1 by (simp add: word_le_nat_alt)
  show "acl_size m' acl = acl_size m acl" using e(3) m1 by simp
  show "acl_free m' acl = acl_free m acl + 4 + sid_size m sid" using k(3) m1 by (simp add: sid_bytes_def)
  show "ace_written m' ty (acl_free m acl) 0 msk (sid_bytes m sid)" using e(5) m1 by simp
  show "m' x = m x" if "x < acl_free m acl" "acl + 8 \<le> x" for x
    using e(6) [of x] that m1 by simp
qed

text \<open>
  The second ACE destroys the SID of the first. Adding two allow ACEs to one ACL with the
  public calls, both succeed, but the header of the second is written over the last
  sub-authority of the first: its RID becomes type, flags and size of the second ACE
  (0x100000 for a 12-byte SID), so the first ACE no longer names its SID.
\<close>

theorem second_ace_clobbers_first_sid:
  assumes "rtl_valid_acl m acl" and "rtl_valid_sid m sid1" and "rtl_valid_sid m1 sid2"
    and "sid1 + unat (rtl_length_sid m sid1) \<le> acl \<or> acl + acl_size m acl + 4 \<le> sid1"
    and "sid2 + unat (rtl_length_sid m1 sid2) \<le> acl \<or> acl + acl_size m acl + 4 \<le> sid2"
    and "0 < sid_sub_authority_count m sid1"
    and "rtl_add_access_allowed_ace m acl 2 mask1 sid1 = (STATUS_SUCCESS, m1)"
    and "rtl_add_access_allowed_ace m1 acl 2 mask2 sid2 = (STATUS_SUCCESS, m2)"
    and "rtl_first_free_ace m acl = Some ace1"
  shows "rtl_get_rid m1 (ace_get_sid m1 ace1) = rtl_get_rid m sid1 \<and>
         rtl_get_rid m2 (ace_get_sid m2 ace1) = 65536 * ucast (ace_size_for_sid m1 sid2)"
proof -
  note f = valid_acl_free [OF assms(1)]
  have ace: "ace1 = acl_free m acl" using f(1) assms(9) by simp
  have a1: "add_ace m ACCESS_ALLOWED_ACE_TYPE acl 2 0 mask1 sid1 = (STATUS_SUCCESS, m1)"
    using assms(7) by (simp add: rtl_add_access_allowed_ace_def rtl_add_access_allowed_ace_ex_def)
  note p = add_ace_success [OF assms(1,2,4) a1]
  have a2: "add_ace m1 ACCESS_ALLOWED_ACE_TYPE acl 2 0 mask2 sid2 = (STATUS_SUCCESS, m2)"
    using assms(8) by (simp add: rtl_add_access_allowed_ace_def rtl_add_access_allowed_ace_ex_def)
  note q = add_ace_success [OF p(1) assms(3) _ a2]
  have d2: "sid2 + unat (rtl_length_sid m1 sid2) \<le> acl \<or> acl + acl_size m1 acl + 4 \<le> sid2"
    using assms(5) p(2) by simp
  let ?n = "sid_sub_authority_count m sid1" and ?ff = "acl_free m1 acl"
  have sb: "sid_bytes m1 (ace1 + 8) = sid_bytes m sid1"
    using sid_at_ace [OF p(4)] ace by simp
  have n1: "sid_sub_authority_count m1 (ace1 + 8) = ?n" using sb by (simp add: sid_bytes_eq_iff)
  have size1: "sid_size m sid1 = 8 + 4 * ?n"
    by (simp add: sid_size_def length_required_def SID_MIN_SIZE_def)
  have ff: "?ff = ace1 + 8 + 8 + 4 * (?n - 1)" using p(3) ace assms(6) size1 by simp
  have keep: "m2 (ace1 + i) = m1 (ace1 + i)" if "i < 16" for i
    using q(5) [OF d2, of "ace1 + i"] that ff ace f(2) by simp
  have n2: "sid_sub_authority_count m2 (ace1 + 8) = ?n"
    using n1 keep [of 9] by (simp add: sid_sub_authority_count_def ld8_def add.commute)
  have ty: "ace_type m1 ace1 = ACCESS_ALLOWED_ACE_TYPE" "ace_type m2 ace1 = ACCESS_ALLOWED_ACE_TYPE"
    using p(4) ace keep [of 0] by (simp_all add: ace_written_def ace_type_def ld8_def)
  have "ace1 \<noteq> 0" using ace f(2) by simp
  then have get: "ace_get_sid m1 ace1 = ace1 + 8" "ace_get_sid m2 ace1 = ace1 + 8"
    using ty by (simp_all add: ace_get_sid_def ace_sid_start_def)
  have w: "m2 ?ff = 0" "m2 (?ff + 1) = 0" "ace_size m2 ?ff = 4 + sid_size m1 sid2"
    using q(4) [OF d2]
    by (simp_all add: ace_written_def ace_type_def ld8_def ACCESS_ALLOWED_ACE_TYPE_def sid_bytes_def)
  have "ld16 m2 (?ff + 2) = ace_size_for_sid m1 sid2"
    using w(3) unat_ace_size_for_sid [OF valid_sid_nonnull [OF assms(3)], of m1]
    by (simp add: ace_size_def word_unat_eq_iff)
  moreover have "ld16 m2 ?ff = 0" using w(1,2) by (simp add: ld16_def bytes_def upt_rec)
  ultimately have "ld32 m2 ?ff = 65536 * ucast (ace_size_for_sid m1 sid2)"
    by (simp add: ld32_split [of m2 ?ff])
  then have "rtl_get_rid m2 (ace1 + 8) = 65536 * ucast (ace_size_for_sid m1 sid2)"
    using n2 assms(6) ff by (simp add: rtl_get_rid_def Let_def)
  moreover have "rtl_get_rid m1 (ace1 + 8) = rtl_get_rid m sid1"
    using rid_eq [OF sb] valid_sid_nonnull [OF assms(2)] by simp
  ultimately show ?thesis using get by simp
qed

lemma create_acl_effect:
  assumes "acl \<noteq> 0" and "8 \<le> unat len" and "2 \<le> (ucast rv :: u8)" and "(ucast rv :: u8) \<le> 4"
  obtains m' where "rtl_create_acl m acl len rv = (STATUS_SUCCESS, m')"
    and "acl_revision m' acl = ucast rv" and "acl_size m' acl = unat len mod 65536"
    and "ace_count m' acl = 0" and "\<And>x. x < acl \<or> acl + 8 \<le> x \<Longrightarrow> m' x = m x"
proof -
  let ?m' = "st16 (st16 (st16 (st8 (st8 m acl (ucast rv)) (acl + 1) 0) (acl + 2) (ucast len)) (acl + 4) 0) (acl + 6) 0"
  show ?thesis
  proof (rule that [of ?m'])
    show "rtl_create_acl m acl len rv = (STATUS_SUCCESS, ?m')"
      using assms by (simp add: rtl_create_acl_def ACL_REVISION_def ACL_REVISION_DS_def Let_def
          SIZEOF_ACL_def word_less_nat_alt not_less word_le_nat_alt)
    show "acl_revision ?m' acl = ucast rv" by (simp add: acl_revision_def mem_frame mem_same)
    have "unat (ucast len :: u16) = unat len mod 65536"
      by (simp add: unsigned_ucast_eq take_bit_eq_mod)
    then show "acl_size ?m' acl = unat len mod 65536" by (simp add: acl_size_def mem_frame mem_same)
    show "ace_count ?m' acl = 0" by (simp add: ace_count_def mem_frame mem_same)
    show "?m' x = m x" if "x < acl \<or> acl + 8 \<le> x" for x
      using that by (auto simp: st8_def st16_def store_bytes_outside)
  qed
qed

text \<open>
  \<open>RtlCreateAcl\<close> checks the length as a \<open>u32\<close> and stores it as a \<open>u16\<close>. For every length
  of at least 8 and every revision whose low byte is 2, 3 or 4 it reports success; the ACL it
  leaves is empty and valid exactly when the length modulo 65536 is still at least 8.
\<close>

theorem create_acl_truncates_length:
  assumes "acl \<noteq> 0" and "8 \<le> unat len" and "2 \<le> (ucast rv :: u8)" and "(ucast rv :: u8) \<le> 4"
    and "rtl_create_acl m acl len rv = (st, m')"
  shows "st = STATUS_SUCCESS \<and> acl_aces m' acl = [] \<and> acl_size m' acl = unat len mod 65536 \<and>
         (rtl_valid_acl m' acl \<longleftrightarrow> 8 \<le> unat len mod 65536)"
proof -
  obtain m1 where c: "rtl_create_acl m acl len rv = (STATUS_SUCCESS, m1)"
      "acl_revision m1 acl = ucast rv" "acl_size m1 acl = unat len mod 65536" "ace_count m1 acl = 0"
    by (rule create_acl_effect [OF assms(1-4), of m]) blast
  have "acl_aces m1 acl = []"
    using assms(1) c(4) by (simp add: acl_aces_def ace_iterator_new_def aces_of_unroll)
  then show ?thesis
    using assms c by (auto simp: rtl_valid_acl_def SIZEOF_ACL_def ACL_REVISION_def ACL_REVISION_DS_def not_less)
qed

theorem create_acl_truncates_length_witness:
  "\<exists>m'. rtl_create_acl (\<lambda>_. 0) 16 65540 2 = (STATUS_SUCCESS, m') \<and> \<not> rtl_valid_acl m' 16"
proof -
  obtain st m' where c: "rtl_create_acl (\<lambda>_. 0) 16 65540 2 = (st, m')" by fastforce
  have "st = STATUS_SUCCESS \<and> \<not> rtl_valid_acl m' 16"
    using create_acl_truncates_length [OF _ _ _ _ c] by (simp add: word_le_nat_alt)
  then show ?thesis using c by blast
qed

text \<open>A memory with the World SID at 16, the Local System SID at 48 and an empty ACL at 128.\<close>

definition demo_mem :: "u32 \<Rightarrow> mem" where
  "demo_mem len = snd (rtl_create_acl
     (store_bytes (store_bytes (\<lambda>_. 0) 16 SE_WORLD_SID_BUFFER) 48 SE_LOCAL_SYSTEM_SID_BUFFER) 128 len 2)"

lemma demo_mem:
  assumes "8 \<le> unat len" and "unat len < 65536"
  shows "rtl_valid_acl (demo_mem len) 128" and "acl_size (demo_mem len) 128 = unat len"
    and "acl_free (demo_mem len) 128 = 136" and "ace_count (demo_mem len) 128 = 0"
    and "sid_bytes (demo_mem len) 16 = SE_WORLD_SID_BUFFER"
    and "sid_bytes (demo_mem len) 48 = SE_LOCAL_SYSTEM_SID_BUFFER"
    and "rtl_valid_sid (demo_mem len) 16" and "rtl_valid_sid (demo_mem len) 48"
    and "sid_size (demo_mem len) 16 = 12" and "sid_size (demo_mem len) 48 = 12"
    and "sid_sub_authority_count (demo_mem len) 16 = 1"
proof -
  let ?m0 = "store_bytes (store_bytes (\<lambda>_. 0) 16 SE_WORLD_SID_BUFFER) 48 SE_LOCAL_SYSTEM_SID_BUFFER"
  obtain m1 where c: "rtl_create_acl ?m0 128 len 2 = (STATUS_SUCCESS, m1)"
      "acl_revision m1 128 = ucast (2 :: u32)" "acl_size m1 128 = unat len mod 65536" "ace_count m1 128 = 0"
      "\<And>x. x < 128 \<or> 128 + 8 \<le> x \<Longrightarrow> m1 x = ?m0 x"
    by (rule create_acl_effect [of 128 len 2 ?m0]) (use assms in \<open>simp_all add: word_le_nat_alt\<close>)
  have d: "demo_mem len = m1" using c(1) by (simp add: demo_mem_def)
  show "acl_size (demo_mem len) 128 = unat len" using c(3) assms d by simp
  show "acl_free (demo_mem len) 128 = 136" using c(4) d by (simp add: acl_free_def)
  show "ace_count (demo_mem len) 128 = 0" using c(4) d by simp
  show "rtl_valid_acl (demo_mem len) 128"
    using c(2,3,4) assms d
    by (simp add: rtl_valid_acl_def SIZEOF_ACL_def ACL_REVISION_def ACL_REVISION_DS_def word_less_nat_alt)
  have "bytes m1 16 12 = bytes ?m0 16 12" "bytes m1 48 12 = bytes ?m0 48 12"
    using c(5) by (auto simp: bytes_eq_iff)
  moreover have n: "length SE_WORLD_SID_BUFFER = 12" "length SE_LOCAL_SYSTEM_SID_BUFFER = 12"
    by (simp_all add: sid_buffer_defs)
  ultimately have b: "bytes m1 16 (length SE_WORLD_SID_BUFFER) = SE_WORLD_SID_BUFFER"
      "bytes m1 48 (length SE_LOCAL_SYSTEM_SID_BUFFER) = SE_LOCAL_SYSTEM_SID_BUFFER"
    by (simp_all add: bytes_store_same bytes_store_disj)
  have l: "length SE_WORLD_SID_BUFFER = 8 + 4 * unat (SE_WORLD_SID_BUFFER ! 1)"
      "length SE_LOCAL_SYSTEM_SID_BUFFER = 8 + 4 * unat (SE_LOCAL_SYSTEM_SID_BUFFER ! 1)"
    by (simp_all add: sid_buffer_defs)
  note w = placed_sid [OF b(1) l(1)] and y = placed_sid [OF b(2) l(2)]
  show "sid_bytes (demo_mem len) 16 = SE_WORLD_SID_BUFFER"
      "sid_bytes (demo_mem len) 48 = SE_LOCAL_SYSTEM_SID_BUFFER"
    using w(1) y(1) d by simp_all
  show "rtl_valid_sid (demo_mem len) 16" "rtl_valid_sid (demo_mem len) 48"
    using w(2,3) y(2,3) d
    by (simp_all add: rtl_valid_sid_def sid_buffer_defs SID_REVISION_def MAX_SUB_AUTHORITIES_def)
  show "sid_size (demo_mem len) 16 = 12" "sid_size (demo_mem len) 48 = 12"
    "sid_sub_authority_count (demo_mem len) 16 = 1"
    using w(3) y(3) d by (simp_all add: sid_size_def length_required_def SID_MIN_SIZE_def sid_buffer_defs)
qed

lemma demo_added:
  assumes "24 \<le> unat len" and "unat len < 65536"
  obtains m1 where "rtl_add_access_allowed_ace (demo_mem len) 128 2 msk 16 = (STATUS_SUCCESS, m1)"
    and "rtl_valid_acl m1 128" and "acl_size m1 128 = unat len" and "acl_free m1 128 = 152"
    and "rtl_valid_sid m1 48" and "sid_size m1 48 = 12"
proof -
  have l: "8 \<le> unat len" using assms(1) by simp
  note d = demo_mem [OF l assms(2)]
  have disj: "16 + sid_size (demo_mem len) 16 \<le> 128 \<or> 128 + acl_size (demo_mem len) 128 + 4 \<le> 16"
    using d by simp
  have room: "acl_free (demo_mem len) 128 + 4 + sid_size (demo_mem len) 16 \<le> 128 + acl_size (demo_mem len) 128"
    using d assms(1) by simp
  obtain m1 where a: "add_ace (demo_mem len) ACCESS_ALLOWED_ACE_TYPE 128 2 0 msk 16 = (STATUS_SUCCESS, m1)"
    "\<And>x. (x < acl_free (demo_mem len) 128 \<or> acl_free (demo_mem len) 128 + 8 + sid_size (demo_mem len) 16 \<le> x) \<Longrightarrow>
        x \<noteq> 128 \<Longrightarrow> x \<noteq> 128 + 4 \<Longrightarrow> x \<noteq> 128 + 5 \<Longrightarrow> m1 x = demo_mem len x"
    by (rule add_ace_effect [OF d(1,7) disj room]) blast
  have disj': "16 + unat (rtl_length_sid (demo_mem len) 16) \<le> 128 \<or> 128 + acl_size (demo_mem len) 128 + 4 \<le> 16"
    using disj by (simp add: unat_rtl_length_sid)
  note k = add_ace_success [OF d(1,7) disj' a(1)]
  have "bytes (demo_mem len) 48 12 = bytes m1 48 12"
    using a(2) d(3) by (auto simp: bytes_eq_iff)
  then have s: "sid_bytes m1 48 = sid_bytes (demo_mem len) 48" "sid_size m1 48 = sid_size (demo_mem len) 48"
    using sid_bytes_region [of "demo_mem len" 48 12 m1 48] d(10) by simp_all
  show ?thesis
  proof (rule that)
    show "rtl_add_access_allowed_ace (demo_mem len) 128 2 msk 16 = (STATUS_SUCCESS, m1)"
      using a(1) by (simp add: rtl_add_access_allowed_ace_def rtl_add_access_allowed_ace_ex_def)
    show "rtl_valid_sid m1 48" using sid_valid_bytes [OF s(1)] d(8) by simp
  qed (use k s(2) d in simp_all)
qed


theorem add_allowed_ace_correct_witness:
  "\<exists>m'. rtl_add_access_allowed_ace_ex (demo_mem 64) 128 2 0 1 16 = (STATUS_SUCCESS, m') \<and>
        acl_aces m' 128 = [136] \<and> ace_get_mask m' 136 = 1"
proof -
  obtain st m' where c: "rtl_add_access_allowed_ace_ex (demo_mem 64) 128 2 0 1 16 = (st, m')" by fastforce
  have e: "acl_aces (demo_mem 64) 128 = []"
    using demo_mem(4) [of 64] by (simp add: acl_aces_def ace_iterator_new_def aces_of_unroll)
  have f: "rtl_first_free_ace (demo_mem 64) 128 = Some 136"
    using demo_mem(1,3) [of 64] valid_acl_free(1) by simp
  show ?thesis
    using add_allowed_ace_correct [OF _ _ _ c f] demo_mem [of 64] c e
    by (simp add: unat_rtl_length_sid unat_ace_size_for_sid)
qed

theorem add_ace_overflows_acl_witness:
  "\<exists>m'. rtl_add_access_allowed_ace (demo_mem 24) 128 2 1 48 = (STATUS_SUCCESS, m') \<and>
        bytes m' (128 + 24) 4 = [18, 0, 0, 0]"
proof -
  have f: "rtl_first_free_ace (demo_mem 24) 128 = Some 136"
    using demo_mem(1,3) [of 24] valid_acl_free(1) by simp
  have b: "bytes (demo_mem 24) 48 12 = SE_LOCAL_SYSTEM_SID_BUFFER"
    using demo_mem(6,10) [of 24] by (simp add: sid_bytes_def)
  show ?thesis
    using add_ace_overflows_acl [OF _ _ _ f, of 48 1] demo_mem [of 24] b
    by (simp add: unat_rtl_length_sid unat_ace_size_for_sid SE_LOCAL_SYSTEM_SID_BUFFER_def)
qed

theorem second_ace_clobbers_first_sid_witness:
  "\<exists>m1 m2. rtl_add_access_allowed_ace (demo_mem 64) 128 2 1 16 = (STATUS_SUCCESS, m1) \<and>
     rtl_add_access_allowed_ace m1 128 2 1 48 = (STATUS_SUCCESS, m2) \<and>
     rtl_get_rid m1 (ace_get_sid m1 136) = rtl_get_rid (demo_mem 64) 16 \<and>
     rtl_get_rid m2 (ace_get_sid m2 136) = 0x100000"
proof -
  obtain m1 where a: "rtl_add_access_allowed_ace (demo_mem 64) 128 2 1 16 = (STATUS_SUCCESS, m1)"
    and v: "rtl_valid_acl m1 128" "acl_size m1 128 = 64" "acl_free m1 128 = 152"
    and s: "rtl_valid_sid m1 48" "sid_size m1 48 = 12"
    by (rule demo_added [of 64 1]) simp_all
  have disj: "48 + sid_size m1 48 \<le> 128 \<or> 128 + acl_size m1 128 + 4 \<le> 48" using s v by simp
  have room: "acl_free m1 128 + 4 + sid_size m1 48 \<le> 128 + acl_size m1 128" using s v by simp
  obtain m2 where b: "rtl_add_access_allowed_ace m1 128 2 1 48 = (STATUS_SUCCESS, m2)"
    using add_ace_effect [OF v(1) s(1) disj room, of ACCESS_ALLOWED_ACE_TYPE 2 0 1]
    by (auto simp: rtl_add_access_allowed_ace_def rtl_add_access_allowed_ace_ex_def)
  have f: "rtl_first_free_ace (demo_mem 64) 128 = Some 136"
    using demo_mem(1,3) [of 64] valid_acl_free(1) by simp
  have sz: "ace_size_for_sid m1 48 = 16"
    using unat_ace_size_for_sid [of 48 m1] s(2) by (simp add: word_unat_eq_iff)
  show ?thesis
    using second_ace_clobbers_first_sid [OF _ _ s(1) _ _ _ a b f] demo_mem [of 64] a b s sz
    by (auto simp: unat_rtl_length_sid)
qed

end
