(* ===== verification/Sd.thy ===== *)
theory Sd
  imports Acl
begin

text \<open>
  Security descriptors: \<open>kernel/ntoskrnl/src/se/sd.rs\<close>. The absolute form (40 bytes) holds
  pointers: control at 2, owner at 8, group at 16, SACL at 24, DACL at 32. The self-relative
  form (20 bytes and the parts behind it) holds u32 offsets from its own start: owner at 4,
  group at 8, SACL at 12, DACL at 16. The control bit \<open>SE_SELF_RELATIVE\<close> tells them apart.
  Out parameters are addresses; a null one is not written.
\<close>

section \<open>Layout\<close>

definition SD_REVISION :: u8 where "SD_REVISION = 1"
definition SIZEOF_SD :: nat where "SIZEOF_SD = 40"
definition SIZEOF_SD_RELATIVE :: nat where "SIZEOF_SD_RELATIVE = 20"
definition SE_OWNER_DEFAULTED :: u16 where "SE_OWNER_DEFAULTED = 1"
definition SE_GROUP_DEFAULTED :: u16 where "SE_GROUP_DEFAULTED = 2"
definition SE_DACL_PRESENT :: u16 where "SE_DACL_PRESENT = 4"
definition SE_DACL_DEFAULTED :: u16 where "SE_DACL_DEFAULTED = 8"
definition SE_SACL_PRESENT :: u16 where "SE_SACL_PRESENT = 0x10"
definition SE_SACL_DEFAULTED :: u16 where "SE_SACL_DEFAULTED = 0x20"
definition SE_SELF_RELATIVE :: u16 where "SE_SELF_RELATIVE = 0x8000"

lemmas sd_flag_defs = SE_OWNER_DEFAULTED_def SE_GROUP_DEFAULTED_def SE_DACL_PRESENT_def
  SE_DACL_DEFAULTED_def SE_SACL_PRESENT_def SE_SACL_DEFAULTED_def SE_SELF_RELATIVE_def

definition OWNER_SECURITY_INFORMATION :: u32 where "OWNER_SECURITY_INFORMATION = 1"
definition GROUP_SECURITY_INFORMATION :: u32 where "GROUP_SECURITY_INFORMATION = 2"
definition DACL_SECURITY_INFORMATION :: u32 where "DACL_SECURITY_INFORMATION = 4"
definition SACL_SECURITY_INFORMATION :: u32 where "SACL_SECURITY_INFORMATION = 8"

definition sd_revision :: "mem \<Rightarrow> nat \<Rightarrow> u8" where "sd_revision m sd = ld8 m sd"
definition sd_control :: "mem \<Rightarrow> nat \<Rightarrow> u16" where "sd_control m sd = ld16 m (sd + 2)"
definition abs_owner :: "mem \<Rightarrow> nat \<Rightarrow> nat" where "abs_owner m sd = ldptr m (sd + 8)"
definition abs_group :: "mem \<Rightarrow> nat \<Rightarrow> nat" where "abs_group m sd = ldptr m (sd + 16)"
definition abs_sacl :: "mem \<Rightarrow> nat \<Rightarrow> nat" where "abs_sacl m sd = ldptr m (sd + 24)"
definition abs_dacl :: "mem \<Rightarrow> nat \<Rightarrow> nat" where "abs_dacl m sd = ldptr m (sd + 32)"
definition rel_owner :: "mem \<Rightarrow> nat \<Rightarrow> u32" where "rel_owner m sd = ld32 m (sd + 4)"
definition rel_group :: "mem \<Rightarrow> nat \<Rightarrow> u32" where "rel_group m sd = ld32 m (sd + 8)"
definition rel_sacl :: "mem \<Rightarrow> nat \<Rightarrow> u32" where "rel_sacl m sd = ld32 m (sd + 12)"
definition rel_dacl :: "mem \<Rightarrow> nat \<Rightarrow> u32" where "rel_dacl m sd = ld32 m (sd + 16)"

definition has :: "u16 \<Rightarrow> u16 \<Rightarrow> bool" where "has control flag \<longleftrightarrow> control AND flag \<noteq> 0"

text \<open>The self-relative field, as a pointer: null for offset 0, else base plus offset.\<close>

definition rel_ptr :: "nat \<Rightarrow> u32 \<Rightarrow> nat" where
  "rel_ptr sd off = (if off \<noteq> 0 then sd + unat off else 0)"

section \<open>Parts of a descriptor\<close>

definition sd_get_owner_ptr :: "mem \<Rightarrow> nat \<Rightarrow> nat" where
  "sd_get_owner_ptr m sd =
     (if sd = 0 then 0
      else if has (sd_control m sd) SE_SELF_RELATIVE then rel_ptr sd (rel_owner m sd)
      else abs_owner m sd)"

definition sd_get_group_ptr :: "mem \<Rightarrow> nat \<Rightarrow> nat" where
  "sd_get_group_ptr m sd =
     (if sd = 0 then 0
      else if has (sd_control m sd) SE_SELF_RELATIVE then rel_ptr sd (rel_group m sd)
      else abs_group m sd)"

definition sd_get_dacl_ptr :: "mem \<Rightarrow> nat \<Rightarrow> nat" where
  "sd_get_dacl_ptr m sd =
     (if sd = 0 then 0
      else if \<not> has (sd_control m sd) SE_DACL_PRESENT then 0
      else if has (sd_control m sd) SE_SELF_RELATIVE then rel_ptr sd (rel_dacl m sd)
      else abs_dacl m sd)"

definition sd_get_sacl_ptr :: "mem \<Rightarrow> nat \<Rightarrow> nat" where
  "sd_get_sacl_ptr m sd =
     (if sd = 0 then 0
      else if \<not> has (sd_control m sd) SE_SACL_PRESENT then 0
      else if has (sd_control m sd) SE_SELF_RELATIVE then rel_ptr sd (rel_sacl m sd)
      else abs_sacl m sd)"

section \<open>Validation\<close>

definition valid_rel_sid :: "mem \<Rightarrow> nat \<Rightarrow> u32 \<Rightarrow> u32 \<Rightarrow> bool \<Rightarrow> bool" where
  "valid_rel_sid m sd off sd_length required =
     (if off \<noteq> 0 then
        if sd_length \<le> off then False
        else if \<not> rtl_valid_sid m (sd + unat off) then False
        else \<not> sd_length < off + rtl_length_sid m (sd + unat off)
      else \<not> required)"

definition valid_rel_acl :: "mem \<Rightarrow> nat \<Rightarrow> u32 \<Rightarrow> u32 \<Rightarrow> bool \<Rightarrow> bool" where
  "valid_rel_acl m sd off sd_length required =
     (if off \<noteq> 0 then
        if sd_length \<le> off then False
        else if \<not> rtl_valid_acl m (sd + unat off) then False
        else \<not> sd_length < off + of_nat (acl_size m (sd + unat off))
      else \<not> required)"

definition rtl_valid_relative_security_descriptor :: "mem \<Rightarrow> nat \<Rightarrow> u32 \<Rightarrow> u32 \<Rightarrow> bool" where
  "rtl_valid_relative_security_descriptor m sd sd_length required_info =
     (if sd = 0 then False
      else if sd_length < of_nat SIZEOF_SD_RELATIVE then False
      else if sd_revision m sd \<noteq> SD_REVISION then False
      else if \<not> has (sd_control m sd) SE_SELF_RELATIVE then False
      else valid_rel_sid m sd (rel_owner m sd) sd_length
             (required_info AND OWNER_SECURITY_INFORMATION \<noteq> 0) \<and>
           valid_rel_sid m sd (rel_group m sd) sd_length
             (required_info AND GROUP_SECURITY_INFORMATION \<noteq> 0) \<and>
           valid_rel_acl m sd (rel_dacl m sd) sd_length
             (required_info AND DACL_SECURITY_INFORMATION \<noteq> 0 \<and>
              \<not> has (sd_control m sd) SE_DACL_PRESENT) \<and>
           valid_rel_acl m sd (rel_sacl m sd) sd_length
             (required_info AND SACL_SECURITY_INFORMATION \<noteq> 0 \<and>
              \<not> has (sd_control m sd) SE_SACL_PRESENT))"

definition rtl_valid_security_descriptor :: "mem \<Rightarrow> nat \<Rightarrow> bool" where
  "rtl_valid_security_descriptor m sd =
     (if sd = 0 then False
      else if sd_revision m sd \<noteq> SD_REVISION then False
      else if has (sd_control m sd) SE_SELF_RELATIVE
        then rtl_valid_relative_security_descriptor m sd (of_nat SIZEOF_SD_RELATIVE) 0
      else if abs_owner m sd \<noteq> 0 \<and> \<not> rtl_valid_sid m (abs_owner m sd) then False
      else if abs_group m sd \<noteq> 0 \<and> \<not> rtl_valid_sid m (abs_group m sd) then False
      else if has (sd_control m sd) SE_DACL_PRESENT \<and> abs_dacl m sd \<noteq> 0 \<and>
              \<not> rtl_valid_acl m (abs_dacl m sd) then False
      else if has (sd_control m sd) SE_SACL_PRESENT \<and> abs_sacl m sd \<noteq> 0 \<and>
              \<not> rtl_valid_acl m (abs_sacl m sd) then False
      else True)"

definition se_valid_security_descriptor :: "mem \<Rightarrow> u32 \<Rightarrow> nat \<Rightarrow> bool" where
  "se_valid_security_descriptor m len sd =
     (if sd = 0 \<or> len < of_nat SIZEOF_SD_RELATIVE then False
      else if \<not> has (sd_control m sd) SE_SELF_RELATIVE then False
      else rtl_valid_relative_security_descriptor m sd len 0)"

section \<open>Creation, getters, setters\<close>

definition rtl_create_security_descriptor :: "mem \<Rightarrow> nat \<Rightarrow> u32 \<Rightarrow> ntstatus \<times> mem" where
  "rtl_create_security_descriptor m sd revision =
     (if sd = 0 then (STATUS_INVALID_SECURITY_DESCR, m)
      else if revision \<noteq> ucast SD_REVISION then (STATUS_INVALID_SECURITY_DESCR, m)
      else let m1 = st16 (st8 (st8 m sd SD_REVISION) (sd + 1) 0) (sd + 2) 0 in
        (STATUS_SUCCESS, stptr (stptr (stptr (stptr m1 (sd + 8) 0) (sd + 16) 0) (sd + 24) 0) (sd + 32) 0))"

definition rtl_create_security_descriptor_relative :: "mem \<Rightarrow> nat \<Rightarrow> u32 \<Rightarrow> ntstatus \<times> mem" where
  "rtl_create_security_descriptor_relative m sd revision =
     (if sd = 0 then (STATUS_INVALID_SECURITY_DESCR, m)
      else if revision \<noteq> ucast SD_REVISION then (STATUS_INVALID_SECURITY_DESCR, m)
      else let m1 = st16 (st8 (st8 m sd SD_REVISION) (sd + 1) 0) (sd + 2) SE_SELF_RELATIVE in
        (STATUS_SUCCESS, st32 (st32 (st32 (st32 m1 (sd + 4) 0) (sd + 8) 0) (sd + 12) 0) (sd + 16) 0))"

definition st_bool :: "mem \<Rightarrow> nat \<Rightarrow> bool \<Rightarrow> mem" where
  "st_bool m a b = (if a = 0 then m else st8 m a (if b then 1 else 0))"

definition rtl_get_owner_security_descriptor :: "mem \<Rightarrow> nat \<Rightarrow> nat \<Rightarrow> nat \<Rightarrow> ntstatus \<times> mem" where
  "rtl_get_owner_security_descriptor m sd owner owner_defaulted =
     (if sd = 0 \<or> owner = 0 then (STATUS_INVALID_SECURITY_DESCR, m)
      else let m1 = (if has (sd_control m sd) SE_SELF_RELATIVE
                     then stptr m owner (rel_ptr sd (rel_owner m sd))
                     else stptr m owner (abs_owner m sd))
           in (STATUS_SUCCESS, st_bool m1 owner_defaulted (has (sd_control m1 sd) SE_OWNER_DEFAULTED)))"

definition rtl_get_group_security_descriptor :: "mem \<Rightarrow> nat \<Rightarrow> nat \<Rightarrow> nat \<Rightarrow> ntstatus \<times> mem" where
  "rtl_get_group_security_descriptor m sd grp group_defaulted =
     (if sd = 0 \<or> grp = 0 then (STATUS_INVALID_SECURITY_DESCR, m)
      else let m1 = (if has (sd_control m sd) SE_SELF_RELATIVE
                     then stptr m grp (rel_ptr sd (rel_group m sd))
                     else stptr m grp (abs_group m sd))
           in (STATUS_SUCCESS, st_bool m1 group_defaulted (has (sd_control m1 sd) SE_GROUP_DEFAULTED)))"

definition rtl_get_dacl_security_descriptor ::
  "mem \<Rightarrow> nat \<Rightarrow> nat \<Rightarrow> nat \<Rightarrow> nat \<Rightarrow> ntstatus \<times> mem" where
  "rtl_get_dacl_security_descriptor m sd dacl_present dacl dacl_defaulted =
     (if sd = 0 then (STATUS_INVALID_SECURITY_DESCR, m)
      else let m1 = st_bool m dacl_present (has (sd_control m sd) SE_DACL_PRESENT);
               m2 = (if dacl = 0 then m1
                     else if has (sd_control m1 sd) SE_DACL_PRESENT then
                       if has (sd_control m1 sd) SE_SELF_RELATIVE
                       then stptr m1 dacl (rel_ptr sd (rel_dacl m1 sd))
                       else stptr m1 dacl (abs_dacl m1 sd)
                     else stptr m1 dacl 0)
           in (STATUS_SUCCESS, st_bool m2 dacl_defaulted (has (sd_control m2 sd) SE_DACL_DEFAULTED)))"

definition rtl_get_sacl_security_descriptor ::
  "mem \<Rightarrow> nat \<Rightarrow> nat \<Rightarrow> nat \<Rightarrow> nat \<Rightarrow> ntstatus \<times> mem" where
  "rtl_get_sacl_security_descriptor m sd sacl_present sacl sacl_defaulted =
     (if sd = 0 then (STATUS_INVALID_SECURITY_DESCR, m)
      else let m1 = st_bool m sacl_present (has (sd_control m sd) SE_SACL_PRESENT);
               m2 = (if sacl = 0 then m1
                     else if has (sd_control m1 sd) SE_SACL_PRESENT then
                       if has (sd_control m1 sd) SE_SELF_RELATIVE
                       then stptr m1 sacl (rel_ptr sd (rel_sacl m1 sd))
                       else stptr m1 sacl (abs_sacl m1 sd)
                     else stptr m1 sacl 0)
           in (STATUS_SUCCESS, st_bool m2 sacl_defaulted (has (sd_control m2 sd) SE_SACL_DEFAULTED)))"

definition set_control :: "mem \<Rightarrow> nat \<Rightarrow> u16 \<Rightarrow> mem" where
  "set_control m sd flag = st16 m (sd + 2) (sd_control m sd OR flag)"

definition clear_control :: "mem \<Rightarrow> nat \<Rightarrow> u16 \<Rightarrow> mem" where
  "clear_control m sd flag = st16 m (sd + 2) (sd_control m sd AND NOT flag)"

definition rtl_set_owner_security_descriptor :: "mem \<Rightarrow> nat \<Rightarrow> nat \<Rightarrow> u8 \<Rightarrow> ntstatus \<times> mem" where
  "rtl_set_owner_security_descriptor m sd owner owner_defaulted =
     (if sd = 0 then (STATUS_INVALID_SECURITY_DESCR, m)
      else if has (sd_control m sd) SE_SELF_RELATIVE then (STATUS_INVALID_SECURITY_DESCR, m)
      else let m1 = stptr m (sd + 8) owner in
        (STATUS_SUCCESS, if owner_defaulted \<noteq> 0 then set_control m1 sd SE_OWNER_DEFAULTED
                         else clear_control m1 sd SE_OWNER_DEFAULTED))"

definition rtl_set_group_security_descriptor :: "mem \<Rightarrow> nat \<Rightarrow> nat \<Rightarrow> u8 \<Rightarrow> ntstatus \<times> mem" where
  "rtl_set_group_security_descriptor m sd grp group_defaulted =
     (if sd = 0 then (STATUS_INVALID_SECURITY_DESCR, m)
      else if has (sd_control m sd) SE_SELF_RELATIVE then (STATUS_INVALID_SECURITY_DESCR, m)
      else let m1 = stptr m (sd + 16) grp in
        (STATUS_SUCCESS, if group_defaulted \<noteq> 0 then set_control m1 sd SE_GROUP_DEFAULTED
                         else clear_control m1 sd SE_GROUP_DEFAULTED))"

definition rtl_set_dacl_security_descriptor ::
  "mem \<Rightarrow> nat \<Rightarrow> u8 \<Rightarrow> nat \<Rightarrow> u8 \<Rightarrow> ntstatus \<times> mem" where
  "rtl_set_dacl_security_descriptor m sd dacl_present dacl dacl_defaulted =
     (if sd = 0 then (STATUS_INVALID_SECURITY_DESCR, m)
      else if has (sd_control m sd) SE_SELF_RELATIVE then (STATUS_INVALID_SECURITY_DESCR, m)
      else if dacl_present \<noteq> 0 then
        let m1 = stptr (set_control m sd SE_DACL_PRESENT) (sd + 32) dacl in
        (STATUS_SUCCESS, if dacl_defaulted \<noteq> 0 then set_control m1 sd SE_DACL_DEFAULTED
                         else clear_control m1 sd SE_DACL_DEFAULTED)
      else (STATUS_SUCCESS,
        stptr (clear_control (clear_control m sd SE_DACL_PRESENT) sd SE_DACL_DEFAULTED) (sd + 32) 0))"

definition rtl_set_sacl_security_descriptor ::
  "mem \<Rightarrow> nat \<Rightarrow> u8 \<Rightarrow> nat \<Rightarrow> u8 \<Rightarrow> ntstatus \<times> mem" where
  "rtl_set_sacl_security_descriptor m sd sacl_present sacl sacl_defaulted =
     (if sd = 0 then (STATUS_INVALID_SECURITY_DESCR, m)
      else if has (sd_control m sd) SE_SELF_RELATIVE then (STATUS_INVALID_SECURITY_DESCR, m)
      else if sacl_present \<noteq> 0 then
        let m1 = stptr (set_control m sd SE_SACL_PRESENT) (sd + 24) sacl in
        (STATUS_SUCCESS, if sacl_defaulted \<noteq> 0 then set_control m1 sd SE_SACL_DEFAULTED
                         else clear_control m1 sd SE_SACL_DEFAULTED)
      else (STATUS_SUCCESS,
        stptr (clear_control (clear_control m sd SE_SACL_PRESENT) sd SE_SACL_DEFAULTED) (sd + 24) 0))"

definition rtl_get_control_security_descriptor :: "mem \<Rightarrow> nat \<Rightarrow> nat \<Rightarrow> nat \<Rightarrow> ntstatus \<times> mem" where
  "rtl_get_control_security_descriptor m sd control revision =
     (if sd = 0 \<or> control = 0 \<or> revision = 0 then (STATUS_INVALID_SECURITY_DESCR, m)
      else let m1 = st16 m control (sd_control m sd)
           in (STATUS_SUCCESS, st32 m1 revision (ucast (sd_revision m1 sd))))"

section \<open>Length and conversion\<close>

definition sid_part :: "mem \<Rightarrow> nat \<Rightarrow> nat" where
  "sid_part m p = (if p \<noteq> 0 then unat (rtl_length_sid m p) else 0)"

definition acl_part :: "mem \<Rightarrow> nat \<Rightarrow> nat" where
  "acl_part m p = (if p \<noteq> 0 then acl_size m p else 0)"

definition rtl_length_security_descriptor :: "mem \<Rightarrow> nat \<Rightarrow> u32" where
  "rtl_length_security_descriptor m sd =
     (if sd = 0 then 0
      else of_nat ((if has (sd_control m sd) SE_SELF_RELATIVE then SIZEOF_SD_RELATIVE else SIZEOF_SD)
        + sid_part m (sd_get_owner_ptr m sd) + sid_part m (sd_get_group_ptr m sd)
        + (if has (sd_control m sd) SE_DACL_PRESENT then acl_part m (sd_get_dacl_ptr m sd) else 0)
        + (if has (sd_control m sd) SE_SACL_PRESENT then acl_part m (sd_get_sacl_ptr m sd) else 0)))"

text \<open>
  The block that copies one part behind the header, as it stands four times in each of the
  functions below: store the offset in the header field, copy the part, advance the offset.
\<close>

definition put_part ::
  "(mem \<Rightarrow> nat \<Rightarrow> u32) \<Rightarrow> nat \<Rightarrow> nat \<Rightarrow> nat \<Rightarrow> mem \<times> u32 \<Rightarrow> mem \<times> u32" where
  "put_part part_length base fld src = (\<lambda>(m, off).
     if src = 0 then (m, off)
     else let m1 = st32 m (base + fld) off;
              len = part_length m1 src
          in (copy_mem m1 (base + unat off) src (unat len), off + len))"

definition put_sid :: "nat \<Rightarrow> nat \<Rightarrow> nat \<Rightarrow> mem \<times> u32 \<Rightarrow> mem \<times> u32" where
  "put_sid = put_part rtl_length_sid"

definition put_acl :: "nat \<Rightarrow> nat \<Rightarrow> nat \<Rightarrow> mem \<times> u32 \<Rightarrow> mem \<times> u32" where
  "put_acl = put_part (\<lambda>m acl. of_nat (acl_size m acl))"

text \<open>
  \<open>buffer_length\<close> is \<open>None\<close> for a null pointer, else its target; the result carries the new
  value of the target beside the memory.
\<close>

definition self_relative_header :: "mem \<Rightarrow> nat \<Rightarrow> nat \<Rightarrow> mem" where
  "self_relative_header m absolute_sd self_relative_sd =
     (let m1 = st8 m self_relative_sd (sd_revision m absolute_sd);
          m2 = st8 m1 (self_relative_sd + 1) 0;
          m3 = st16 m2 (self_relative_sd + 2) (sd_control m2 absolute_sd OR SE_SELF_RELATIVE)
      in st32 (st32 (st32 (st32 m3 (self_relative_sd + 4) 0) (self_relative_sd + 8) 0)
           (self_relative_sd + 12) 0) (self_relative_sd + 16) 0)"

definition rtl_make_self_relative_sd :: "mem \<Rightarrow> nat \<Rightarrow> nat \<Rightarrow> u32 option \<Rightarrow> ntstatus \<times> u32 option \<times> mem" where
  "rtl_make_self_relative_sd m absolute_sd self_relative_sd buffer_length =
     (if absolute_sd = 0 \<or> buffer_length = None then (STATUS_INVALID_SECURITY_DESCR, buffer_length, m)
      else let required_length = rtl_length_security_descriptor m absolute_sd in
        if the buffer_length < required_length
        then (STATUS_BUFFER_TOO_SMALL, Some required_length, m)
        else if self_relative_sd = 0 then (STATUS_INVALID_SECURITY_DESCR, buffer_length, m)
        else let s0 = (self_relative_header m absolute_sd self_relative_sd, of_nat SIZEOF_SD_RELATIVE);
                 s1 = put_sid self_relative_sd 4 (sd_get_owner_ptr (fst s0) absolute_sd) s0;
                 s2 = put_sid self_relative_sd 8 (sd_get_group_ptr (fst s1) absolute_sd) s1;
                 s3 = (if has (sd_control (fst s2) absolute_sd) SE_SACL_PRESENT
                       then put_acl self_relative_sd 12 (sd_get_sacl_ptr (fst s2) absolute_sd) s2 else s2);
                 s4 = (if has (sd_control (fst s3) absolute_sd) SE_DACL_PRESENT
                       then put_acl self_relative_sd 16 (sd_get_dacl_ptr (fst s3) absolute_sd) s3 else s3)
             in (STATUS_SUCCESS, Some required_length, fst s4))"

definition rtl_absolute_to_self_relative_sd :: "mem \<Rightarrow> nat \<Rightarrow> nat \<Rightarrow> u32 option \<Rightarrow> ntstatus \<times> u32 option \<times> mem" where
  "rtl_absolute_to_self_relative_sd m absolute_sd self_relative_sd buffer_length =
     rtl_make_self_relative_sd m absolute_sd self_relative_sd buffer_length"

text \<open>\<open>buffer\<close> is the block the pool returns for the length, 0 when it is out of memory.\<close>

definition se_capture_security_descriptor :: "mem \<Rightarrow> nat \<Rightarrow> nat \<Rightarrow> nat \<Rightarrow> (ntstatus \<times> mem) outcome" where
  "se_capture_security_descriptor m original_sd buffer captured_sd =
     (if original_sd = 0 \<or> captured_sd = 0 then
        if captured_sd = 0 then Undef else Ret (STATUS_SUCCESS, stptr m captured_sd 0)
      else if \<not> rtl_valid_security_descriptor m original_sd
        then Ret (STATUS_INVALID_SECURITY_DESCR, m)
      else let len = rtl_length_security_descriptor m original_sd in
        if buffer = 0 then Ret (STATUS_INVALID_SECURITY_DESCR, m)
        else let (status, _, m1) = rtl_make_self_relative_sd m original_sd buffer (Some len) in
          if status \<noteq> STATUS_SUCCESS then Ret (status, stptr m1 captured_sd 0)
          else Ret (STATUS_SUCCESS, stptr m1 captured_sd buffer))"

section \<open>Copying parts behind the header\<close>

definition kept :: "nat \<Rightarrow> nat \<Rightarrow> nat \<Rightarrow> mem \<Rightarrow> mem \<Rightarrow> bool" where
  "kept base e f m m' \<longleftrightarrow> (\<forall>r k. base \<le> r \<longrightarrow> r + k \<le> base + e \<longrightarrow>
     r + k \<le> base + f \<or> base + f + 4 \<le> r \<longrightarrow> bytes m' r k = bytes m r k)"

lemma keptD:
  "kept base e f m m' \<Longrightarrow> base \<le> r \<Longrightarrow> r + k \<le> base + e \<Longrightarrow>
     r + k \<le> base + f \<or> base + f + 4 \<le> r \<Longrightarrow> bytes m' r k = bytes m r k"
  by (auto simp: kept_def)

lemma put_part_effect:
  assumes agree: "same_outside base L m0 m"
    and len: "\<And>m'. bytes m' src n = bytes m0 src n \<Longrightarrow> unat (part_length m' src) = n"
    and apart: "src \<noteq> 0 \<Longrightarrow> apart src n base L"
    and room: "20 \<le> off" "src \<noteq> 0 \<Longrightarrow> off + n \<le> L" "off + n < 2 ^ 32"
    and fld: "fld + 4 \<le> 20" "20 \<le> L"
    and part: "part = (if src = 0 then 0 else n)"
  obtains m' where "put_part part_length base fld src (m, of_nat off) = (m', of_nat (off + part))"
    and "same_outside base L m0 m'"
    and "kept base off fld m m'"
    and "src \<noteq> 0 \<Longrightarrow> ld32 m' (base + fld) = of_nat off \<and> bytes m' (base + off) n = bytes m0 src n"
    and "src = 0 \<Longrightarrow> m' = m"
proof (cases "src = 0")
  case True
  show ?thesis
    by (rule that [of m]) (use True agree part in \<open>simp_all add: put_part_def kept_def\<close>)
next
  case False
  define m1 where "m1 = st32 m (base + fld) (of_nat off)"
  define m' where "m' = copy_mem m1 (base + off) src n"
  have agree1: "same_outside base L m0 m1"
    using agree fld by (auto simp: same_outside_def m1_def st32_def store_bytes_outside)
  have src1: "bytes m1 src n = bytes m0 src n"
    by (rule same_outside_bytes [OF agree1 apart [OF False]])
  note n = len [OF src1]
  have off: "unat (of_nat off :: u32) = off" using room by (intro unat_of_nat_32) simp
  have ln: "part_length m1 src = of_nat n" using n room(3) by (simp add: word_unat_eq_iff unat_of_nat_32)
  show ?thesis
  proof (rule that [of m'])
    show "put_part part_length base fld src (m, of_nat off) = (m', of_nat (off + part))"
      using False off n ln part by (simp add: put_part_def m1_def [symmetric] m'_def)
    show "same_outside base L m0 m'"
      using agree1 room(1) room(2) [OF False] by (auto simp: same_outside_def m'_def copy_mem_def store_bytes_outside)
    show "kept base off fld m m'"
      by (auto simp: kept_def m'_def m1_def copy_mem_frame bytes_stores)
    show "ld32 m' (base + fld) = of_nat off \<and> bytes m' (base + off) n = bytes m0 src n"
      using fld room(1) src1 by (simp add: m'_def m1_def mem_frame mem_same copy_mem_bytes)
  qed (use False in simp)
qed

lemma sid_part_length:
  assumes "bytes m' src (sid_part m0 src) = bytes m0 src (sid_part m0 src)"
  shows "unat (rtl_length_sid m' src) = sid_part m0 src"
proof (cases "src = 0")
  case False
  then have b: "bytes m0 src (sid_size m0 src) = bytes m' src (sid_size m0 src)"
    using assms by (simp add: sid_part_def unat_rtl_length_sid)
  show ?thesis
    using sid_bytes_region(2) [OF b] False by (simp add: sid_part_def unat_rtl_length_sid)
qed (simp add: rtl_length_sid_def sid_part_def)

lemma sid_part_le: "sid_part m p \<le> 1028"
  using sid_size_bounds(2) [of m p] by (simp add: sid_part_def unat_rtl_length_sid)

lemma acl_part_le: "acl_part m p \<le> 65535"
  using unat_lt_16 [of "ld16 m (p + 2)"] by (simp add: acl_part_def acl_size_def del: unat_lt_16)

definition same_acl :: "mem \<Rightarrow> nat \<Rightarrow> mem \<Rightarrow> nat \<Rightarrow> bool" where
  "same_acl m p m' p' \<longleftrightarrow> (p' = 0 \<longleftrightarrow> p = 0) \<and>
     (p \<noteq> 0 \<longrightarrow> bytes m' p' (acl_size m p) = bytes m p (acl_size m p))"

lemma acl_part_length:
  assumes "bytes m' src (acl_part m0 src) = bytes m0 src (acl_part m0 src)"
    and "src \<noteq> 0 \<Longrightarrow> 4 \<le> acl_size m0 src"
  shows "src \<noteq> 0 \<Longrightarrow> unat (of_nat (acl_size m' src) :: u32) = acl_part m0 src"
proof -
  assume nz: "src \<noteq> 0"
  then have b: "bytes m' src (acl_size m0 src) = bytes m0 src (acl_size m0 src)"
    using assms(1) by (simp add: acl_part_def)
  then have "acl_size m' src = acl_size m0 src"
    using ld_bytes_eq(2) [OF b, of 2] assms(2) [OF nz] by (simp add: acl_size_def)
  moreover have "acl_size m0 src < 4294967296"
    using acl_part_le [of m0 src] nz by (simp add: acl_part_def)
  ultimately show "unat (of_nat (acl_size m' src) :: u32) = acl_part m0 src"
    using nz by (simp add: acl_part_def unat_of_nat_32)
qed

lemma valid_aces_shift:
  assumes "\<And>x. a \<le> x \<Longrightarrow> x < a + n \<Longrightarrow> m' (x + d) = m x"
  shows "valid_aces m (a + n) p k \<Longrightarrow> a \<le> p \<Longrightarrow> valid_aces m' (a + n + d) (p + d) k"
proof (induction k arbitrary: p)
  case (Suc k)
  have v: "p + 4 \<le> a + n" "4 \<le> ace_size m p" "p + ace_size m p \<le> a + n"
      "valid_aces m (a + n) (p + ace_size m p) k"
    using Suc.prems(1) by (auto simp: SIZEOF_ACE_HEADER_def split: if_splits)
  have "bytes m' (p + d + 2) 2 = bytes m (p + 2) 2"
    unfolding bytes_eq_iff
  proof (intro allI impI)
    fix i :: nat assume "i < 2"
    then show "m' (p + d + 2 + i) = m (p + 2 + i)"
      using assms [of "p + 2 + i"] v(1) Suc.prems(2) by (simp add: ac_simps)
  qed
  then have sz: "ace_size m' (p + d) = ace_size m p" by (simp add: ace_size_def ld16_def)
  have "valid_aces m' (a + n + d) (p + ace_size m p + d) k"
    using v(4) Suc.prems(2) by (intro Suc.IH) simp_all
  then show ?case using sz v by (simp add: SIZEOF_ACE_HEADER_def ac_simps)
qed simp

lemma valid_acl_shift_up:
  assumes "rtl_valid_acl m a" and "bytes m' b (acl_size m a) = bytes m a (acl_size m a)" and "a \<le> b" and "b \<noteq> 0"
  shows "rtl_valid_acl m' b \<and> acl_size m' b = acl_size m a"
proof -
  let ?n = "acl_size m a"
  note v = valid_acl_parts [OF assms(1)]
  obtain d where d: "b = a + d" using assms(3) le_Suc_ex by blast
  have e: "acl_size m' b = ?n" "acl_revision m' b = acl_revision m a" "ace_count m' b = ace_count m a"
    using ld_bytes_eq(1) [OF assms(2), of 0] ld_bytes_eq(2) [OF assms(2), of 2]
      ld_bytes_eq(2) [OF assms(2), of 4] v(2)
    by (simp_all add: acl_size_def acl_revision_def ace_count_def)
  have same: "m' (x + d) = m x" if "a \<le> x" "x < a + ?n" for x
  proof -
    have "x - a < ?n" using that by simp
    then have "m' (b + (x - a)) = m (a + (x - a))"
      by (rule assms(2) [unfolded bytes_eq_iff, rule_format])
    then show ?thesis using that d by (simp add: ac_simps)
  qed
  have "valid_aces m' (a + ?n + d) (a + 8 + d) (unat (ace_count m a))"
    using valid_aces_shift [of a ?n m' d m] same v(3) by simp
  then show ?thesis
    using v e assms(4) d
    by (simp add: rtl_valid_acl_def SIZEOF_ACL_def ACL_REVISION_def ACL_REVISION_DS_def not_less ac_simps)
qed

lemma valid_aces_unshift:
  assumes "\<And>x. a \<le> x \<Longrightarrow> x < a + n \<Longrightarrow> m' x = m (x + d)"
  shows "valid_aces m (a + n + d) (p + d) k \<Longrightarrow> a \<le> p \<Longrightarrow> valid_aces m' (a + n) p k"
proof (induction k arbitrary: p)
  case (Suc k)
  have v: "p + 4 \<le> a + n" "4 \<le> ace_size m (p + d)" "p + ace_size m (p + d) \<le> a + n"
      "valid_aces m (a + n + d) (p + ace_size m (p + d) + d) k"
    using Suc.prems(1) by (auto simp: SIZEOF_ACE_HEADER_def ac_simps split: if_splits)
  have "bytes m' (p + 2) 2 = bytes m (p + d + 2) 2"
    unfolding bytes_eq_iff
  proof (intro allI impI)
    fix i :: nat assume "i < 2"
    then show "m' (p + 2 + i) = m (p + d + 2 + i)"
      using assms [of "p + 2 + i"] v(1) Suc.prems(2) by (simp add: ac_simps)
  qed
  then have sz: "ace_size m' p = ace_size m (p + d)" by (simp add: ace_size_def ld16_def)
  have "valid_aces m' (a + n) (p + ace_size m (p + d)) k"
    using v(4) Suc.prems(2) by (intro Suc.IH) simp_all
  then show ?case using sz v by (simp add: SIZEOF_ACE_HEADER_def ac_simps)
qed simp

lemma valid_acl_copy:
  assumes "rtl_valid_acl m a" and "bytes m' b (acl_size m a) = bytes m a (acl_size m a)" and "b \<noteq> 0"
  shows "rtl_valid_acl m' b \<and> acl_size m' b = acl_size m a"
proof (cases "a \<le> b")
  case True
  then show ?thesis using valid_acl_shift_up assms by blast
next
  case False
  let ?n = "acl_size m a"
  note v = valid_acl_parts [OF assms(1)]
  obtain d where d: "a = b + d" using False by (metis linear le_Suc_ex)
  have e: "acl_size m' b = ?n" "acl_revision m' b = acl_revision m a" "ace_count m' b = ace_count m a"
    using ld_bytes_eq(1) [OF assms(2), of 0] ld_bytes_eq(2) [OF assms(2), of 2]
      ld_bytes_eq(2) [OF assms(2), of 4] v(2)
    by (simp_all add: acl_size_def acl_revision_def ace_count_def)
  have same: "m' x = m (x + d)" if "b \<le> x" "x < b + ?n" for x
  proof -
    have "x - b < ?n" using that by simp
    then have "m' (b + (x - b)) = m (a + (x - b))"
      by (rule assms(2) [unfolded bytes_eq_iff, rule_format])
    then show ?thesis using that d by (simp add: ac_simps)
  qed
  have "valid_aces m (b + ?n + d) (b + 8 + d) (unat (ace_count m a))"
    using v(3) d by (simp add: ac_simps)
  then have "valid_aces m' (b + ?n) (b + 8) (unat (ace_count m a))"
    using valid_aces_unshift [of b ?n m' m d] same by simp
  then show ?thesis
    using v e assms(3)
    by (simp add: rtl_valid_acl_def SIZEOF_ACL_def ACL_REVISION_def ACL_REVISION_DS_def not_less ac_simps)
qed

lemma getters_same:
  assumes "same_outside base L m m'" and "apart sd 40 base L"
  shows "sd_control m' sd = sd_control m sd" and "sd_revision m' sd = sd_revision m sd"
    and "sd_get_owner_ptr m' sd = sd_get_owner_ptr m sd" and "sd_get_group_ptr m' sd = sd_get_group_ptr m sd"
    and "sd_get_sacl_ptr m' sd = sd_get_sacl_ptr m sd" and "sd_get_dacl_ptr m' sd = sd_get_dacl_ptr m sd"
proof -
  have b: "bytes m' sd 40 = bytes m sd 40" by (rule same_outside_bytes [OF assms])
  note l8 = ld_bytes_eq(1) [OF b] and l16 = ld_bytes_eq(2) [OF b] and l32 = ld_bytes_eq(3) [OF b]
    and l64 = ld_bytes_eq(4) [OF b]
  have f: "sd_control m' sd = sd_control m sd" "sd_revision m' sd = sd_revision m sd"
      "rel_owner m' sd = rel_owner m sd" "rel_group m' sd = rel_group m sd"
      "rel_sacl m' sd = rel_sacl m sd" "rel_dacl m' sd = rel_dacl m sd"
      "abs_owner m' sd = abs_owner m sd" "abs_group m' sd = abs_group m sd"
      "abs_sacl m' sd = abs_sacl m sd" "abs_dacl m' sd = abs_dacl m sd"
    using l8 [of 0] l16 [of 2] l32 [of 4] l32 [of 8] l32 [of 12] l32 [of 16]
      l64 [of 8] l64 [of 16] l64 [of 24] l64 [of 32]
    by (simp_all add: sd_control_def sd_revision_def rel_owner_def rel_group_def rel_sacl_def
        rel_dacl_def abs_owner_def abs_group_def abs_sacl_def abs_dacl_def ldptr_def)
  show "sd_control m' sd = sd_control m sd" "sd_revision m' sd = sd_revision m sd" by (rule f)+
  show "sd_get_owner_ptr m' sd = sd_get_owner_ptr m sd" "sd_get_group_ptr m' sd = sd_get_group_ptr m sd"
    "sd_get_sacl_ptr m' sd = sd_get_sacl_ptr m sd" "sd_get_dacl_ptr m' sd = sd_get_dacl_ptr m sd"
    by (simp_all add: sd_get_owner_ptr_def sd_get_group_ptr_def sd_get_sacl_ptr_def sd_get_dacl_ptr_def f)
qed

text \<open>
  The four blocks in a row: from an empty self-relative header at \<open>base\<close>, writing owner, group,
  SACL and DACL leaves in each field the offset of a faithful copy of the part, or 0.
\<close>

definition part_at :: "mem \<Rightarrow> mem \<Rightarrow> nat \<Rightarrow> nat \<Rightarrow> nat \<Rightarrow> nat \<Rightarrow> nat \<Rightarrow> bool" where
  "part_at m0 m' base fld off src n \<longleftrightarrow>
     (if src = 0 then ld32 m' (base + fld) = 0
      else ld32 m' (base + fld) = of_nat off \<and> bytes m' (base + off) n = bytes m0 src n)"

definition put_all :: "nat \<Rightarrow> nat \<Rightarrow> nat \<Rightarrow> nat \<Rightarrow> nat \<Rightarrow> mem \<Rightarrow> mem \<times> u32" where
  "put_all base own grp sacl dacl m =
     put_acl base 16 dacl (put_acl base 12 sacl (put_sid base 8 grp (put_sid base 4 own
       (m, of_nat SIZEOF_SD_RELATIVE))))"

lemma part_at_keep:
  assumes "part_at m0 m base fld off src n"
    and "kept base e f m m'"
    and "fld + 4 \<le> f \<or> f + 4 \<le> fld" and "fld + 4 \<le> e" and "f + 4 \<le> off" and "src \<noteq> 0 \<Longrightarrow> off + n \<le> e"
  shows "part_at m0 m' base fld off src n"
proof -
  have "bytes m' (base + fld) 4 = bytes m (base + fld) 4"
    using assms(3,4) by (intro keptD [OF assms(2)]) auto
  then have "ld32 m' (base + fld) = ld32 m (base + fld)" by (simp add: ld32_def)
  moreover have "bytes m' (base + off) n = bytes m (base + off) n" if "src \<noteq> 0"
    using assms(5) assms(6) [OF that] by (intro keptD [OF assms(2)]) simp_all
  ultimately show ?thesis using assms(1) by (auto simp: part_at_def)
qed

lemma put_sid_effect:
  assumes agree: "same_outside base L m0 m" and ap: "src \<noteq> 0 \<Longrightarrow> apart src (sid_part m0 src) base L"
    and off: "20 \<le> off" "off + sid_part m0 src \<le> L" "off < 1000000" and fld: "fld + 4 \<le> 20"
  obtains m' where "put_sid base fld src (m, of_nat off) = (m', of_nat (off + sid_part m0 src))"
    and "same_outside base L m0 m'"
    and "kept base off fld m m'"
    and "ld32 m (base + fld) = 0 \<Longrightarrow> part_at m0 m' base fld off src (sid_part m0 src)"
proof -
  have b: "off + sid_part m0 src < 2 ^ 32" using off(3) sid_part_le [of m0 src] by simp
  have p: "sid_part m0 src = (if src = 0 then 0 else sid_part m0 src)" by (simp add: sid_part_def)
  obtain m' where e: "put_part rtl_length_sid base fld src (m, of_nat off) = (m', of_nat (off + sid_part m0 src))"
    and s: "same_outside base L m0 m'"
    and k: "kept base off fld m m'"
    and w: "src \<noteq> 0 \<Longrightarrow> ld32 m' (base + fld) = of_nat off \<and>
              bytes m' (base + off) (sid_part m0 src) = bytes m0 src (sid_part m0 src)" "src = 0 \<Longrightarrow> m' = m"
    by (rule put_part_effect [where part_length = rtl_length_sid and n = "sid_part m0 src" and off = off,
          OF agree sid_part_length ap off(1) off(2) b fld _ p]) (use off in simp_all)
  show ?thesis
    by (rule that [OF _ s]) (use e k w in \<open>auto simp: put_sid_def part_at_def\<close>)
qed

lemma put_acl_effect:
  assumes agree: "same_outside base L m0 m" and ap: "src \<noteq> 0 \<Longrightarrow> apart src (acl_part m0 src) base L"
    and sz: "src \<noteq> 0 \<Longrightarrow> 4 \<le> acl_size m0 src"
    and off: "20 \<le> off" "off + acl_part m0 src \<le> L" "off < 1000000" and fld: "fld + 4 \<le> 20"
  obtains m' where "put_acl base fld src (m, of_nat off) = (m', of_nat (off + acl_part m0 src))"
    and "same_outside base L m0 m'"
    and "kept base off fld m m'"
    and "ld32 m (base + fld) = 0 \<Longrightarrow> part_at m0 m' base fld off src (acl_part m0 src)"
proof (cases "src = 0")
  case True
  show ?thesis
    by (rule that [of m])
       (use True agree in \<open>simp_all add: put_acl_def put_part_def part_at_def acl_part_def kept_def\<close>)
next
  case False
  have b: "off + acl_part m0 src < 2 ^ 32" using off(3) acl_part_le [of m0 src] by simp
  have p: "acl_part m0 src = (if src = 0 then 0 else acl_part m0 src)" by (simp add: acl_part_def)
  obtain m' where e: "put_part (\<lambda>m acl. of_nat (acl_size m acl)) base fld src (m, of_nat off) = (m', of_nat (off + acl_part m0 src))"
    and s: "same_outside base L m0 m'"
    and k: "kept base off fld m m'"
    and w: "src \<noteq> 0 \<Longrightarrow> ld32 m' (base + fld) = of_nat off \<and>
              bytes m' (base + off) (acl_part m0 src) = bytes m0 src (acl_part m0 src)" "src = 0 \<Longrightarrow> m' = m"
    by (rule put_part_effect [where part_length = "\<lambda>m acl. of_nat (acl_size m acl)"
          and n = "acl_part m0 src" and off = off,
          OF agree acl_part_length [OF _ sz False] ap off(1) off(2) b fld _ p]) (use off in simp_all)
  show ?thesis
    by (rule that [OF _ s]) (use e k w in \<open>auto simp: put_acl_def part_at_def\<close>)
qed

lemma put_all_effect:
  assumes agree: "same_outside base L m0 m" and z: "bytes m (base + 4) 16 = replicate 16 0"
    and apart: "\<And>p. p \<in> {own, grp} \<Longrightarrow> p \<noteq> 0 \<Longrightarrow> apart p (sid_part m0 p) base L"
      "\<And>p. p \<in> {sacl, dacl} \<Longrightarrow> p \<noteq> 0 \<Longrightarrow> apart p (acl_part m0 p) base L"
    and size: "\<And>p. p \<in> {sacl, dacl} \<Longrightarrow> p \<noteq> 0 \<Longrightarrow> 4 \<le> acl_size m0 p"
    and L: "20 + sid_part m0 own + sid_part m0 grp + acl_part m0 sacl + acl_part m0 dacl \<le> L"
  obtains m' off where "put_all base own grp sacl dacl m = (m', off)" and "same_outside base L m0 m'"
    and "part_at m0 m' base 4 20 own (sid_part m0 own)"
    and "part_at m0 m' base 8 (20 + sid_part m0 own) grp (sid_part m0 grp)"
    and "part_at m0 m' base 12 (20 + sid_part m0 own + sid_part m0 grp) sacl (acl_part m0 sacl)"
    and "part_at m0 m' base 16 (20 + sid_part m0 own + sid_part m0 grp + acl_part m0 sacl) dacl
           (acl_part m0 dacl)"
    and "bytes m' base 4 = bytes m base 4"
    and "same_outside base L m0 (fst (put_sid base 4 own (m, of_nat SIZEOF_SD_RELATIVE)))"
    and "same_outside base L m0 (fst (put_sid base 8 grp (put_sid base 4 own (m, of_nat SIZEOF_SD_RELATIVE))))"
    and "same_outside base L m0 (fst (put_acl base 12 sacl (put_sid base 8 grp (put_sid base 4 own
           (m, of_nat SIZEOF_SD_RELATIVE)))))"
proof -
  let ?o = "sid_part m0 own" and ?g = "sid_part m0 grp" and ?s = "acl_part m0 sacl" and ?d = "acl_part m0 dacl"
  note le = sid_part_le [of m0 own] sid_part_le [of m0 grp] acl_part_le [of m0 sacl] acl_part_le [of m0 dacl]
  have zero: "ld32 m (base + 4 + i) = 0" if "i + 4 \<le> 16" for i
  proof -
    have "bytes m (base + 4 + i) 4 = replicate 4 0"
      using z that by (simp add: list_eq_iff_nth_eq nth_bytes add.assoc)
    then show ?thesis by (simp only: ld32_def le_nat_replicate_0) simp
  qed
  have ld: "ld32 m1 a = ld32 m2 a" if "bytes m1 a 4 = bytes m2 a 4" for m1 a m2
    using that by (simp add: ld32_def)
  obtain m1 where p1: "put_sid base 4 own (m, of_nat 20) = (m1, of_nat (20 + ?o))" "same_outside base L m0 m1"
    and k1: "kept base 20 4 m m1"
    and w1: "ld32 m (base + 4) = 0 \<Longrightarrow> part_at m0 m1 base 4 20 own ?o"
    by (rule put_sid_effect [OF agree, of own 20 4]) (use apart(1) [of own] L in simp_all)
  obtain m2 where p2: "put_sid base 8 grp (m1, of_nat (20 + ?o)) = (m2, of_nat (20 + ?o + ?g))" "same_outside base L m0 m2"
    and k2: "kept base (20 + ?o) 8 m1 m2"
    and w2: "ld32 m1 (base + 8) = 0 \<Longrightarrow> part_at m0 m2 base 8 (20 + ?o) grp ?g"
    by (rule put_sid_effect [OF p1(2), of grp "20 + ?o" 8]) (use apart(1) [of grp] L le in simp_all)
  obtain m3 where p3: "put_acl base 12 sacl (m2, of_nat (20 + ?o + ?g)) = (m3, of_nat (20 + ?o + ?g + ?s))" "same_outside base L m0 m3"
    and k3: "kept base (20 + ?o + ?g) 12 m2 m3"
    and w3: "ld32 m2 (base + 12) = 0 \<Longrightarrow> part_at m0 m3 base 12 (20 + ?o + ?g) sacl ?s"
    by (rule put_acl_effect [OF p2(2), of sacl "20 + ?o + ?g" 12]) (use apart(2) [of sacl] size [of sacl] L le in simp_all)
  obtain m4 where p4: "put_acl base 16 dacl (m3, of_nat (20 + ?o + ?g + ?s)) = (m4, of_nat (20 + ?o + ?g + ?s + ?d))" "same_outside base L m0 m4"
    and k4: "kept base (20 + ?o + ?g + ?s) 16 m3 m4"
    and w4: "ld32 m3 (base + 16) = 0 \<Longrightarrow> part_at m0 m4 base 16 (20 + ?o + ?g + ?s) dacl ?d"
    by (rule put_acl_effect [OF p3(2), of dacl "20 + ?o + ?g + ?s" 16]) (use apart(2) [of dacl] size [of dacl] L le in simp_all)
  have z1: "ld32 m1 (base + 8) = 0" using ld [of m1 "base + 8" m, OF keptD [OF k1]] zero [of 4] by (simp add: add.commute)
  have z2: "ld32 m2 (base + 12) = 0"
    using ld [of m2 "base + 12" m1, OF keptD [OF k2]] ld [of m1 "base + 12" m, OF keptD [OF k1]] zero [of 8] by (simp add: add.commute)
  have z3: "ld32 m3 (base + 16) = 0"
    using ld [of m3 "base + 16" m2, OF keptD [OF k3]] ld [of m2 "base + 16" m1, OF keptD [OF k2]] ld [of m1 "base + 16" m, OF keptD [OF k1]] zero [of 12] by (simp add: add.commute)
  show ?thesis
  proof (rule that [of m4])
    show "put_all base own grp sacl dacl m = (m4, of_nat (20 + ?o + ?g + ?s + ?d))"
      using p1(1) p2(1) p3(1) p4(1) by (simp add: put_all_def SIZEOF_SD_RELATIVE_def)
    show "part_at m0 m4 base 4 20 own ?o"
      by (rule part_at_keep [OF part_at_keep [OF part_at_keep [OF w1 k2] k3] k4])
         (use zero [of 0] in simp_all)
    show "part_at m0 m4 base 8 (20 + ?o) grp ?g"
      by (rule part_at_keep [OF part_at_keep [OF w2 k3] k4]) (use z1 in simp_all)
    show "part_at m0 m4 base 12 (20 + ?o + ?g) sacl ?s"
      by (rule part_at_keep [OF w3 k4]) (use z2 in simp_all)
    show "part_at m0 m4 base 16 (20 + ?o + ?g + ?s) dacl ?d" by (rule w4 [OF z3])
    show "bytes m4 base 4 = bytes m base 4"
      using keptD [OF k4, of base 4] keptD [OF k3, of base 4] keptD [OF k2, of base 4]
        keptD [OF k1, of base 4] by simp
  qed (use p1 p2 p3 p4(2) in \<open>simp_all add: SIZEOF_SD_RELATIVE_def\<close>)
qed

lemma put_acl_null [simp]: "put_acl base fld 0 s = s"
  by (cases s) (simp add: put_acl_def put_part_def)

lemma getters_absent:
  "\<not> has (sd_control m sd) SE_DACL_PRESENT \<Longrightarrow> sd_get_dacl_ptr m sd = 0"
  "\<not> has (sd_control m sd) SE_SACL_PRESENT \<Longrightarrow> sd_get_sacl_ptr m sd = 0"
  by (simp_all add: sd_get_dacl_ptr_def sd_get_sacl_ptr_def)

definition parts_size :: "mem \<Rightarrow> nat \<Rightarrow> nat" where
  "parts_size m sd = sid_part m (sd_get_owner_ptr m sd) + sid_part m (sd_get_group_ptr m sd)
     + acl_part m (sd_get_sacl_ptr m sd) + acl_part m (sd_get_dacl_ptr m sd)"

lemma parts_size_le: "parts_size m sd \<le> 133126"
  using sid_part_le [of m "sd_get_owner_ptr m sd"] sid_part_le [of m "sd_get_group_ptr m sd"]
    acl_part_le [of m "sd_get_sacl_ptr m sd"] acl_part_le [of m "sd_get_dacl_ptr m sd"]
  by (simp add: parts_size_def)

lemma unat_length_sd:
  assumes "sd \<noteq> 0"
  shows "unat (rtl_length_security_descriptor m sd) =
    (if has (sd_control m sd) SE_SELF_RELATIVE then 20 else 40) + parts_size m sd"
proof -
  have p: "(if has (sd_control m sd) SE_DACL_PRESENT then acl_part m (sd_get_dacl_ptr m sd) else 0) =
      acl_part m (sd_get_dacl_ptr m sd)"
    "(if has (sd_control m sd) SE_SACL_PRESENT then acl_part m (sd_get_sacl_ptr m sd) else 0) =
      acl_part m (sd_get_sacl_ptr m sd)"
    using getters_absent [of m sd] by (auto simp: acl_part_def)
  have "rtl_length_security_descriptor m sd =
      of_nat ((if has (sd_control m sd) SE_SELF_RELATIVE then 20 else 40) + parts_size m sd)"
    unfolding rtl_length_security_descriptor_def p
    using assms by (simp add: parts_size_def SIZEOF_SD_def SIZEOF_SD_RELATIVE_def algebra_simps)
  moreover have "(if has (sd_control m sd) SE_SELF_RELATIVE then 20 else 40) + parts_size m sd < 4294967296"
    using parts_size_le [of m sd] by simp
  ultimately show ?thesis by (simp only: unat_of_nat_32)
qed

text \<open>All of a descriptor lies outside a buffer: its header and the parts it points to.\<close>

definition sd_apart :: "mem \<Rightarrow> nat \<Rightarrow> nat \<Rightarrow> nat \<Rightarrow> bool" where
  "sd_apart m sd base L \<longleftrightarrow> apart sd 40 base L \<and>
     (\<forall>p\<in>{sd_get_owner_ptr m sd, sd_get_group_ptr m sd}. p \<noteq> 0 \<longrightarrow> apart p (sid_part m p) base L) \<and>
     (\<forall>p\<in>{sd_get_sacl_ptr m sd, sd_get_dacl_ptr m sd}. p \<noteq> 0 \<longrightarrow> apart p (acl_part m p) base L)"

definition acls_sized :: "mem \<Rightarrow> nat \<Rightarrow> bool" where
  "acls_sized m sd \<longleftrightarrow> (\<forall>p\<in>{sd_get_sacl_ptr m sd, sd_get_dacl_ptr m sd}. p \<noteq> 0 \<longrightarrow> 4 \<le> acl_size m p)"

definition rel_copy :: "mem \<Rightarrow> nat \<Rightarrow> mem \<Rightarrow> nat \<Rightarrow> bool" where
  "rel_copy m sd m' base \<longleftrightarrow>
     (let own = sd_get_owner_ptr m sd; grp = sd_get_group_ptr m sd;
          sacl = sd_get_sacl_ptr m sd; dacl = sd_get_dacl_ptr m sd;
          o1 = 20 + sid_part m own; o2 = o1 + sid_part m grp; o3 = o2 + acl_part m sacl
      in part_at m m' base 4 20 own (sid_part m own) \<and> part_at m m' base 8 o1 grp (sid_part m grp) \<and>
         part_at m m' base 12 o2 sacl (acl_part m sacl) \<and> part_at m m' base 16 o3 dacl (acl_part m dacl))"

lemma make_self_relative_effect:
  assumes nz: "sd \<noteq> 0" "base \<noteq> 0" and ap: "sd_apart m sd base L" and sz: "acls_sized m sd"
    and L: "20 + parts_size m sd \<le> L" and len: "rtl_length_security_descriptor m sd \<le> len"
  obtains m' where "rtl_make_self_relative_sd m sd base (Some len) =
      (STATUS_SUCCESS, Some (rtl_length_security_descriptor m sd), m')"
    and "same_outside base L m m'" and "rel_copy m sd m' base"
    and "sd_control m' base = sd_control m sd OR SE_SELF_RELATIVE" and "sd_revision m' base = sd_revision m sd"
proof -
  define m2 where "m2 = st8 (st8 m base (sd_revision m sd)) (base + 1) 0"
  define m4 where "m4 = st32 (st32 (st32 (st32 (st16 m2 (base + 2) (sd_control m2 sd OR SE_SELF_RELATIVE))
      (base + 4) 0) (base + 8) 0) (base + 12) 0) (base + 16) 0"
  let ?own = "sd_get_owner_ptr m sd" and ?grp = "sd_get_group_ptr m sd"
    and ?sacl = "sd_get_sacl_ptr m sd" and ?dacl = "sd_get_dacl_ptr m sd"
  have m4: "self_relative_header m sd base = m4"
    by (simp add: self_relative_header_def m4_def m2_def Let_def)
  have hdr: "apart sd 40 base L" using ap by (simp add: sd_apart_def)
  have so2: "same_outside base L m m2" and so4: "same_outside base L m m4"
    using L by (auto simp: same_outside_def m4_def m2_def st8_def st16_def st32_def store_bytes_outside)
  note g2 = getters_same [OF so2 hdr] and g4 = getters_same [OF so4 hdr]
  have z: "bytes m4 (base + 4) 16 = replicate 16 0"
  proof -
    have "bytes m4 (base + 4) (4 + 4 + 4 + 4) = replicate 4 0 @ replicate 4 0 @ replicate 4 0 @ replicate 4 0"
      unfolding bytes_add by (simp add: m4_def mem_frame mem_same add.commute [of _ base])
    then show ?thesis by (simp add: replicate_add [symmetric])
  qed
  obtain m' off where e: "put_all base ?own ?grp ?sacl ?dacl m4 = (m', off)" and so: "same_outside base L m m'"
    and parts: "part_at m m' base 4 20 ?own (sid_part m ?own)"
      "part_at m m' base 8 (20 + sid_part m ?own) ?grp (sid_part m ?grp)"
      "part_at m m' base 12 (20 + sid_part m ?own + sid_part m ?grp) ?sacl (acl_part m ?sacl)"
      "part_at m m' base 16 (20 + sid_part m ?own + sid_part m ?grp + acl_part m ?sacl) ?dacl (acl_part m ?dacl)"
    and hd4: "bytes m' base 4 = bytes m4 base 4"
    and so5: "same_outside base L m (fst (put_sid base 4 ?own (m4, of_nat SIZEOF_SD_RELATIVE)))"
    and so6: "same_outside base L m (fst (put_sid base 8 ?grp (put_sid base 4 ?own (m4, of_nat SIZEOF_SD_RELATIVE))))"
    and so7: "same_outside base L m (fst (put_acl base 12 ?sacl (put_sid base 8 ?grp (put_sid base 4 ?own
           (m4, of_nat SIZEOF_SD_RELATIVE)))))"
    by (rule put_all_effect [OF so4 z, of ?own ?grp ?sacl ?dacl])
       (use ap sz L in \<open>auto simp: sd_apart_def acls_sized_def parts_size_def\<close>)
  note g5 = getters_same [OF so5 hdr] and g6 = getters_same [OF so6 hdr] and g7 = getters_same [OF so7 hdr]
    and g8 = getters_same [OF so hdr]
  show ?thesis
  proof (rule that [of m'])
    show "rtl_make_self_relative_sd m sd base (Some len) =
      (STATUS_SUCCESS, Some (rtl_length_security_descriptor m sd), m')"
      using nz len [folded linorder_not_less] e
      by - (cases "has (sd_control m sd) SE_SACL_PRESENT"; cases "has (sd_control m sd) SE_DACL_PRESENT";
          simp add: getters_absent rtl_make_self_relative_sd_def Let_def m4 g4 g5 g6 g7 g8 put_all_def)
    show "same_outside base L m m'" by (rule so)
    show "rel_copy m sd m' base" using parts by (simp add: rel_copy_def Let_def)
    have "sd_control m' base = sd_control m4 base" "sd_revision m' base = sd_revision m4 base"
      using ld_bytes_eq(1) [OF hd4, of 0] ld_bytes_eq(2) [OF hd4, of 2]
      by (simp_all add: sd_control_def sd_revision_def)
    then show "sd_control m' base = sd_control m sd OR SE_SELF_RELATIVE" "sd_revision m' base = sd_revision m sd"
      using g2 by (simp_all add: m4_def m2_def sd_control_def sd_revision_def mem_frame mem_same)
  qed
qed

lemma rel_copy_getters:
  assumes "rel_copy m sd m' base" and "base \<noteq> 0" and "sd_control m' base = sd_control m sd OR SE_SELF_RELATIVE"
  shows "same_sid m (sd_get_owner_ptr m sd) m' (sd_get_owner_ptr m' base)"
    and "same_sid m (sd_get_group_ptr m sd) m' (sd_get_group_ptr m' base)"
    and "same_acl m (sd_get_dacl_ptr m sd) m' (sd_get_dacl_ptr m' base)"
    and "same_acl m (sd_get_sacl_ptr m sd) m' (sd_get_sacl_ptr m' base)"
proof -
  have r: "has (sd_control m' base) SE_SELF_RELATIVE"
    by (simp add: assms(3) has_def SE_SELF_RELATIVE_def bit.conj_disj_distrib2)
  have o: "unat (of_nat n :: u32) = n" "(of_nat n :: u32) \<noteq> 0" if "0 < n" "n < 200000" for n
    using that unat_of_nat_32 [of n] by auto
  have sid: "same_sid m p m' (rel_ptr base (ld32 m' (base + fld)))"
    if "part_at m m' base fld off p (sid_part m p)" "0 < off" "off < 200000" for p fld off
  proof (cases "p = 0")
    case False
    then have b: "bytes m' (base + off) (sid_size m p) = bytes m p (sid_size m p)"
        "ld32 m' (base + fld) = of_nat off"
      using that(1) by (simp_all add: part_at_def sid_part_def unat_rtl_length_sid)
    then show ?thesis
      using sid_bytes_region(1) [of m p "sid_size m p" m' "base + off"] o [OF that(2,3)] False assms(2)
      by (simp add: same_sid_def rel_ptr_def)
  qed (use that(1) in \<open>simp add: part_at_def same_sid_def rel_ptr_def\<close>)
  have acl: "same_acl m p m' (rel_ptr base (ld32 m' (base + fld)))"
    if "part_at m m' base fld off p (acl_part m p)" "0 < off" "off < 200000" for p fld off
    using that o [OF that(2,3)] assms(2)
    by (auto simp: part_at_def same_acl_def rel_ptr_def acl_part_def split: if_splits)
  have b: "20 + parts_size m sd < 200000" using parts_size_le [of m sd] by simp
  note rc = assms(1) [unfolded rel_copy_def Let_def]
  show "same_sid m (sd_get_owner_ptr m sd) m' (sd_get_owner_ptr m' base)"
    using sid [of 4 20 "sd_get_owner_ptr m sd"] rc r assms(2) by (simp add: sd_get_owner_ptr_def [of m'] rel_owner_def)
  show "same_sid m (sd_get_group_ptr m sd) m' (sd_get_group_ptr m' base)"
    using sid [of 8 "20 + sid_part m (sd_get_owner_ptr m sd)" "sd_get_group_ptr m sd"] rc r b assms(2)
    by (simp add: sd_get_group_ptr_def [of m'] rel_group_def parts_size_def)
  have pr: "has (sd_control m' base) SE_DACL_PRESENT = has (sd_control m sd) SE_DACL_PRESENT"
      "has (sd_control m' base) SE_SACL_PRESENT = has (sd_control m sd) SE_SACL_PRESENT"
    by (simp_all add: assms(3) has_def sd_flag_defs bit.conj_disj_distrib2)
  show "same_acl m (sd_get_dacl_ptr m sd) m' (sd_get_dacl_ptr m' base)"
    using acl [of 16 "20 + sid_part m (sd_get_owner_ptr m sd) + sid_part m (sd_get_group_ptr m sd)
        + acl_part m (sd_get_sacl_ptr m sd)" "sd_get_dacl_ptr m sd"] rc r b pr assms(2) getters_absent [of m sd]
    by (auto simp: sd_get_dacl_ptr_def [of m'] rel_dacl_def parts_size_def same_acl_def)
  show "same_acl m (sd_get_sacl_ptr m sd) m' (sd_get_sacl_ptr m' base)"
    using acl [of 12 "20 + sid_part m (sd_get_owner_ptr m sd) + sid_part m (sd_get_group_ptr m sd)"
        "sd_get_sacl_ptr m sd"] rc r b pr assms(2) getters_absent [of m sd]
    by (auto simp: sd_get_sacl_ptr_def [of m'] rel_sacl_def parts_size_def same_acl_def)
qed

lemma valid_rel_sid_part:
  assumes "part_at m m' base fld off p (sid_part m p)" and "p \<noteq> 0 \<Longrightarrow> rtl_valid_sid m p"
    and "0 < off" and "off + sid_part m p \<le> unat len" and "base \<noteq> 0" and "off < 200000"
  shows "valid_rel_sid m' base (ld32 m' (base + fld)) len False"
proof (cases "p = 0")
  case False
  have o: "unat (of_nat off :: u32) = off" using assms(6) by (intro unat_of_nat_32) simp
  have b: "bytes m p (sid_size m p) = bytes m' (base + off) (sid_size m p)" "ld32 m' (base + fld) = of_nat off"
    using assms(1) False by (simp_all add: part_at_def sid_part_def unat_rtl_length_sid)
  note sb = sid_bytes_region [OF b(1) order_refl]
  have v: "rtl_valid_sid m' (base + off)" using sid_valid_bytes [OF sb(1)] assms(2,5) False by simp
  have l: "unat (rtl_length_sid m' (base + off)) = sid_part m p"
    using sb(2) assms(5) False by (simp add: unat_rtl_length_sid sid_part_def)
  have "unat (of_nat off + rtl_length_sid m' (base + off)) = off + sid_part m p"
    using o l assms(6) sid_part_le [of m p] by (simp add: unat_word_ariths)
  moreover have "0 < sid_part m p" using False sid_size_bounds(1) [of m p] by (simp add: sid_part_def unat_rtl_length_sid)
  ultimately show ?thesis
    using b(2) v o assms(4) by (auto simp: valid_rel_sid_def word_less_nat_alt word_le_nat_alt)
qed (use assms(1) in \<open>simp add: part_at_def valid_rel_sid_def\<close>)

lemma valid_rel_acl_part:
  assumes "part_at m m' base fld off p (acl_part m p)" and "p \<noteq> 0 \<Longrightarrow> rtl_valid_acl m p"
    and "0 < off" and "off + acl_part m p \<le> unat len" and "base \<noteq> 0" and "off < 200000"
  shows "valid_rel_acl m' base (ld32 m' (base + fld)) len False"
proof (cases "p = 0")
  case False
  have o: "unat (of_nat off :: u32) = off" using assms(6) by (intro unat_of_nat_32) simp
  have b: "bytes m' (base + off) (acl_size m p) = bytes m p (acl_size m p)" "ld32 m' (base + fld) = of_nat off"
    using assms(1) False by (simp_all add: part_at_def acl_part_def)
  have v: "rtl_valid_acl m' (base + off)" "acl_size m' (base + off) = acl_part m p"
    using valid_acl_copy [OF assms(2) [OF False] b(1)] assms(5) False by (simp_all add: acl_part_def)
  have "unat (of_nat (acl_part m p) :: u32) = acl_part m p"
    using acl_part_le [of m p] by (intro unat_of_nat_32) simp
  then have "unat (of_nat off + of_nat (acl_size m' (base + off)) :: u32) = off + acl_part m p"
    using o v(2) assms(6) acl_part_le [of m p] by (simp add: unat_word_ariths)
  moreover have "0 < acl_part m p" using False valid_acl_parts(2) [OF assms(2) [OF False]] by (simp add: acl_part_def)
  ultimately show ?thesis
    using b(2) v o assms(4) by (auto simp: valid_rel_acl_def word_less_nat_alt word_le_nat_alt)
qed (use assms(1) in \<open>simp add: part_at_def valid_rel_acl_def\<close>)

lemma valid_abs_parts:
  assumes "rtl_valid_security_descriptor m sd" and "\<not> has (sd_control m sd) SE_SELF_RELATIVE"
  shows "sd \<noteq> 0" and "sd_revision m sd = 1"
    and "\<And>p. p \<in> {sd_get_owner_ptr m sd, sd_get_group_ptr m sd} \<Longrightarrow> p \<noteq> 0 \<Longrightarrow> rtl_valid_sid m p"
    and "\<And>p. p \<in> {sd_get_sacl_ptr m sd, sd_get_dacl_ptr m sd} \<Longrightarrow> p \<noteq> 0 \<Longrightarrow> rtl_valid_acl m p"
  using assms
  by (auto simp: rtl_valid_security_descriptor_def SD_REVISION_def sd_get_owner_ptr_def sd_get_group_ptr_def
      sd_get_sacl_ptr_def sd_get_dacl_ptr_def split: if_splits)

section \<open>Properties\<close>

text \<open>
  C14. \<open>RtlMakeSelfRelativeSD\<close> is faithful: for a valid absolute descriptor and a buffer of the
  length \<open>RtlLengthSecurityDescriptor\<close> asks for, apart from the descriptor and its parts, it
  succeeds and writes only into the buffer; owner, group, DACL and SACL read from the copy are
  byte for byte those of the original, and \<open>SeValidSecurityDescriptor\<close> accepts the copy.
\<close>

theorem make_self_relative_roundtrip:
  assumes "rtl_valid_security_descriptor m sd" and "\<not> has (sd_control m sd) SE_SELF_RELATIVE"
    and "base \<noteq> 0" and "L = rtl_length_security_descriptor m sd" and "sd_apart m sd base (unat L)"
  shows "\<exists>m'. rtl_make_self_relative_sd m sd base (Some L) = (STATUS_SUCCESS, Some L, m') \<and>
           same_outside base (unat L) m m' \<and>
           same_sid m (sd_get_owner_ptr m sd) m' (sd_get_owner_ptr m' base) \<and>
           same_sid m (sd_get_group_ptr m sd) m' (sd_get_group_ptr m' base) \<and>
           same_acl m (sd_get_dacl_ptr m sd) m' (sd_get_dacl_ptr m' base) \<and>
           same_acl m (sd_get_sacl_ptr m sd) m' (sd_get_sacl_ptr m' base) \<and>
           se_valid_security_descriptor m' L base"
proof -
  note v = valid_abs_parts [OF assms(1,2)]
  have L: "unat L = 40 + parts_size m sd" using unat_length_sd [OF v(1), of m] assms(2,4) by simp
  have sz: "acls_sized m sd"
    using valid_acl_parts(2) v(4) by (fastforce simp: acls_sized_def)
  have room: "20 + parts_size m sd \<le> unat L" using L by simp
  obtain m' where e: "rtl_make_self_relative_sd m sd base (Some L) = (STATUS_SUCCESS, Some L, m')"
    and so: "same_outside base (unat L) m m'" and rc: "rel_copy m sd m' base"
    and hd: "sd_control m' base = sd_control m sd OR SE_SELF_RELATIVE" "sd_revision m' base = sd_revision m sd"
    using make_self_relative_effect [OF v(1) assms(3,5) sz room, of L] assms(4) by auto
  have rel: "has (sd_control m' base) SE_SELF_RELATIVE"
    by (simp add: hd(1) has_def SE_SELF_RELATIVE_def bit.conj_disj_distrib2)
  note p = rc [unfolded rel_copy_def Let_def]
  have b: "parts_size m sd < 199000" using parts_size_le [of m sd] by simp
  have "valid_rel_sid m' base (rel_owner m' base) L False"
    unfolding rel_owner_def
    by (rule valid_rel_sid_part [OF conjunct1 [OF p]]) (use v(3) L b assms(3) in \<open>auto simp: parts_size_def\<close>)
  moreover have "valid_rel_sid m' base (rel_group m' base) L False"
    unfolding rel_group_def
    by (rule valid_rel_sid_part [OF conjunct1 [OF conjunct2 [OF p]]]) (use v(3) L b assms(3) in \<open>auto simp: parts_size_def\<close>)
  moreover have "valid_rel_acl m' base (rel_sacl m' base) L False"
    unfolding rel_sacl_def
    by (rule valid_rel_acl_part [OF conjunct1 [OF conjunct2 [OF conjunct2 [OF p]]]]) (use v(4) L b assms(3) in \<open>auto simp: parts_size_def\<close>)
  moreover have "valid_rel_acl m' base (rel_dacl m' base) L False"
    unfolding rel_dacl_def
    by (rule valid_rel_acl_part [OF conjunct2 [OF conjunct2 [OF conjunct2 [OF p]]]]) (use v(4) L b assms(3) in \<open>auto simp: parts_size_def\<close>)
  moreover have "\<not> L < 20" using L by (simp add: word_less_nat_alt)
  ultimately have "se_valid_security_descriptor m' L base"
    using rel hd(2) v(2) assms(3)
    by (simp add: se_valid_security_descriptor_def rtl_valid_relative_security_descriptor_def SIZEOF_SD_RELATIVE_def SD_REVISION_def)
  then show ?thesis
    using e so rel_copy_getters [OF rc assms(3) hd(1)] by blast
qed

theorem make_self_relative_roundtrip_witness:
  "\<exists>m m'. sd_get_dacl_ptr m 256 = 128 \<and>
     rtl_make_self_relative_sd m 256 512 (Some (rtl_length_security_descriptor m 256)) =
       (STATUS_SUCCESS, Some (rtl_length_security_descriptor m 256), m') \<and>
     same_sid m 16 m' (sd_get_owner_ptr m' 512) \<and> same_acl m 128 m' (sd_get_dacl_ptr m' 512)"
proof -
  let ?d = "demo_mem 64"
  define m where "m = stptr (stptr (stptr (stptr (st16 (st8 ?d 256 1) 258 4) 264 16) 272 0) 280 0) 288 128"
  have so: "same_outside 256 40 ?d m"
    by (auto simp: same_outside_def m_def stptr_def st8_def st16_def st64_def store_bytes_outside)
  have f: "sd_revision m 256 = 1" "sd_control m 256 = 4" "abs_owner m 256 = 16" "abs_group m 256 = 0"
      "abs_sacl m 256 = 0" "abs_dacl m 256 = 128"
    by (simp_all add: m_def sd_revision_def sd_control_def abs_owner_def abs_group_def abs_sacl_def
        abs_dacl_def ldptr_def stptr_def mem_frame mem_same)
  note d = demo_mem [of 64, simplified]
  have "bytes m 16 12 = bytes ?d 16 12" using so by (intro same_outside_bytes) (auto simp: apart_def)
  then have s: "sid_bytes m 16 = sid_bytes ?d 16" "sid_size m 16 = 12"
    using sid_bytes_region [of ?d 16 12 m 16] d(9) by simp_all
  have "bytes m 128 64 = bytes ?d 128 64" using so by (intro same_outside_bytes) (auto simp: apart_def)
  then have a: "rtl_valid_acl m 128" "acl_size m 128 = 64"
    using valid_acl_copy [OF d(1), of m 128] d(2) by simp_all
  have g: "sd_get_owner_ptr m 256 = 16" "sd_get_group_ptr m 256 = 0" "sd_get_sacl_ptr m 256 = 0"
      "sd_get_dacl_ptr m 256 = 128" "\<not> has (sd_control m 256) SE_SELF_RELATIVE"
    by (simp_all add: f sd_get_owner_ptr_def sd_get_group_ptr_def sd_get_sacl_ptr_def sd_get_dacl_ptr_def has_def sd_flag_defs)
  have v: "rtl_valid_security_descriptor m 256"
    using sid_valid_bytes [OF s(1)] d(7) a g(5)
    by (simp add: rtl_valid_security_descriptor_def f SD_REVISION_def)
  have ap: "sd_apart m 256 512 n" for n
    using s(2) a(2) by (simp add: sd_apart_def g apart_def sid_part_def acl_part_def unat_rtl_length_sid)
  show ?thesis
    using make_self_relative_roundtrip [OF v g(5) _ refl ap] g by auto
qed

text \<open>
  \<open>RtlValidSecurityDescriptor\<close> rejects real self-relative descriptors. It passes the size
  of the bare header as the length of the whole descriptor, so a self-relative descriptor with
  any part behind its header is reported invalid, and \<open>SeCaptureSecurityDescriptor\<close> fails on
  it, even when \<open>SeValidSecurityDescriptor\<close> with the true length accepts it.
\<close>

theorem self_relative_rejected:
  assumes "has (sd_control m sd) SE_SELF_RELATIVE" and "sd \<noteq> 0" and "captured \<noteq> 0"
    and "20 \<le> rel_owner m sd \<or> 20 \<le> rel_group m sd \<or> 20 \<le> rel_dacl m sd \<or> 20 \<le> rel_sacl m sd"
  shows "\<not> rtl_valid_security_descriptor m sd \<and>
         se_capture_security_descriptor m sd buffer captured = Ret (STATUS_INVALID_SECURITY_DESCR, m)"
proof -
  have nz: "x \<noteq> 0" if "20 \<le> x" for x :: u32 using that by auto
  have "\<not> rtl_valid_security_descriptor m sd"
    using assms nz
    by (auto simp: rtl_valid_security_descriptor_def rtl_valid_relative_security_descriptor_def
        SIZEOF_SD_RELATIVE_def valid_rel_sid_def valid_rel_acl_def)
  then show ?thesis using assms(2,3) by (simp add: se_capture_security_descriptor_def)
qed

theorem self_relative_rejected_witness:
  "\<exists>m. se_valid_security_descriptor m 32 100 \<and> \<not> rtl_valid_security_descriptor m 100 \<and>
       se_capture_security_descriptor m 100 500 600 = Ret (STATUS_INVALID_SECURITY_DESCR, m)"
proof -
  define h where "h = st32 (st16 (st8 (\<lambda>_. 0) 100 1) 102 0x8000) 104 20"
  define m where "m = store_bytes h 120 SE_WORLD_SID_BUFFER"
  have hl: "bytes m 100 20 = bytes h 100 20"
    by (simp add: m_def bytes_store_disj)
  have z: "h (108 + i) = 0" for i :: nat
    by (simp add: h_def st8_def st16_def st32_def store_bytes_def)
  have z32: "ld32 h (108 + i) = 0" for i
  proof -
    have "bytes h (108 + i) 4 = replicate 4 0"
      using z by (simp add: list_eq_iff_nth_eq nth_bytes add.assoc)
    then show ?thesis by (simp only: ld32_def le_nat_replicate_0) simp
  qed
  have h: "sd_revision m 100 = 1" "sd_control m 100 = 0x8000" "rel_owner m 100 = 20"
      "rel_group m 100 = 0" "rel_sacl m 100 = 0" "rel_dacl m 100 = 0"
    using ld_bytes_eq(1) [OF hl, of 0] ld_bytes_eq(2) [OF hl, of 2] ld_bytes_eq(3) [OF hl, of 4]
      ld_bytes_eq(3) [OF hl, of 8] ld_bytes_eq(3) [OF hl, of 12] ld_bytes_eq(3) [OF hl, of 16]
      z32 [of 0] z32 [of 4] z32 [of 8]
    by (simp_all add: sd_revision_def sd_control_def rel_owner_def rel_group_def rel_sacl_def rel_dacl_def)
       (simp_all add: h_def mem_frame mem_same)
  have n: "length SE_WORLD_SID_BUFFER = 12" by (simp add: SE_WORLD_SID_BUFFER_def)
  have "bytes m 120 (length SE_WORLD_SID_BUFFER) = SE_WORLD_SID_BUFFER"
    by (simp add: m_def bytes_store_same)
  note p = placed_sid [OF this]
  have v: "rtl_valid_sid m 120" "rtl_length_sid m 120 = 12"
    using p(2,3) by (simp_all add: rtl_valid_sid_def rtl_length_sid_def SE_WORLD_SID_BUFFER_def SID_REVISION_def
        MAX_SUB_AUTHORITIES_def length_required_def SID_MIN_SIZE_def)
  have r: "has (sd_control m 100) SE_SELF_RELATIVE" by (simp add: h has_def SE_SELF_RELATIVE_def)
  have "se_valid_security_descriptor m 32 100"
    using r v by (simp add: se_valid_security_descriptor_def rtl_valid_relative_security_descriptor_def h
        SIZEOF_SD_RELATIVE_def SD_REVISION_def valid_rel_sid_def valid_rel_acl_def)
  then show ?thesis using self_relative_rejected [OF r, of 600 500] h(3) by auto
qed

end
