(* ===== verification/Priv.thy ===== *)
theory Priv
  imports Mem
begin

text \<open>
  Privileges: \<open>kernel/ntoskrnl/src/se/priv_.rs\<close>. A \<open>LUID_AND_ATTRIBUTES\<close> takes 12 bytes: low
  part at 0, high part at 4, attributes at 8. A \<open>PRIVILEGE_SET\<close> holds its count at 0, its
  control word at 4 and the privileges from 8.
\<close>

section \<open>LUIDs and the table of privileges\<close>

text \<open>\<open>high_part\<close> is an \<open>i32\<close>, kept as its 32 bits.\<close>

record LUID =
  low_part :: u32
  high_part :: u32

definition luid_new :: "u32 \<Rightarrow> u32 \<Rightarrow> LUID" where
  "luid_new low high = \<lparr>low_part = low, high_part = high\<rparr>"

definition SE_SECURITY_LUID :: LUID where "SE_SECURITY_LUID = luid_new 8 0"
definition SE_TAKE_OWNERSHIP_LUID :: LUID where "SE_TAKE_OWNERSHIP_LUID = luid_new 9 0"
definition SE_BACKUP_LUID :: LUID where "SE_BACKUP_LUID = luid_new 17 0"
definition SE_RESTORE_LUID :: LUID where "SE_RESTORE_LUID = luid_new 18 0"
definition SE_CHANGE_NOTIFY_LUID :: LUID where "SE_CHANGE_NOTIFY_LUID = luid_new 23 0"
definition SE_IMPERSONATE_LUID :: LUID where "SE_IMPERSONATE_LUID = luid_new 29 0"

definition SE_PRIVILEGE_ENABLED_BY_DEFAULT :: u32 where "SE_PRIVILEGE_ENABLED_BY_DEFAULT = 1"
definition SE_PRIVILEGE_ENABLED :: u32 where "SE_PRIVILEGE_ENABLED = 2"
definition SE_PRIVILEGE_USED_FOR_ACCESS :: u32 where "SE_PRIVILEGE_USED_FOR_ACCESS = 0x80000000"
definition PRIVILEGE_SET_ALL_NECESSARY :: u32 where "PRIVILEGE_SET_ALL_NECESSARY = 1"
definition SE_MIN_WELL_KNOWN_PRIVILEGE :: u32 where "SE_MIN_WELL_KNOWN_PRIVILEGE = 2"
definition SE_MAX_WELL_KNOWN_PRIVILEGE :: u32 where "SE_MAX_WELL_KNOWN_PRIVILEGE = 35"

definition se_is_well_known_privilege :: "LUID \<Rightarrow> bool" where
  "se_is_well_known_privilege luid \<longleftrightarrow> high_part luid = 0 \<and>
     SE_MIN_WELL_KNOWN_PRIVILEGE \<le> low_part luid \<and> low_part luid \<le> SE_MAX_WELL_KNOWN_PRIVILEGE"

definition se_privilege_index :: "LUID \<Rightarrow> nat option" where
  "se_privilege_index luid =
     (if se_is_well_known_privilege luid
      then Some (unat (low_part luid - SE_MIN_WELL_KNOWN_PRIVILEGE)) else None)"

definition SE_SYSTEM_TOKEN_PRIVILEGES :: "(LUID \<times> u32) list" where
  "SE_SYSTEM_TOKEN_PRIVILEGES = map (\<lambda>n. (luid_new (of_nat n) 0,
     SE_PRIVILEGE_ENABLED OR SE_PRIVILEGE_ENABLED_BY_DEFAULT)) [2..<36]"

section \<open>Privilege arrays in memory\<close>

definition la_luid :: "mem \<Rightarrow> nat \<Rightarrow> nat \<Rightarrow> LUID" where
  "la_luid m privileges i = \<lparr>low_part = ld32 m (privileges + 12 * i),
     high_part = ld32 m (privileges + 12 * i + 4)\<rparr>"

definition la_attributes :: "mem \<Rightarrow> nat \<Rightarrow> nat \<Rightarrow> u32" where
  "la_attributes m privileges i = ld32 m (privileges + 12 * i + 8)"

definition sep_token_has_privilege :: "mem \<Rightarrow> nat \<Rightarrow> u32 \<Rightarrow> LUID \<Rightarrow> bool" where
  "sep_token_has_privilege m privileges privilege_count privilege_luid =
     (if privileges = 0 \<or> privilege_count = 0 then False
      else case List.find (\<lambda>i. la_luid m privileges i = privilege_luid) [0..<unat privilege_count] of
          Some i \<Rightarrow> la_attributes m privileges i AND SE_PRIVILEGE_ENABLED \<noteq> 0
        | None \<Rightarrow> False)"

definition sep_token_has_any_privilege :: "mem \<Rightarrow> nat \<Rightarrow> u32 \<Rightarrow> LUID list \<Rightarrow> bool" where
  "sep_token_has_any_privilege m privileges privilege_count check_luids =
     list_ex (sep_token_has_privilege m privileges privilege_count) check_luids"

text \<open>
  The loop over the required privileges. \<open>found\<close> scans the token's privileges until an entry
  with the LUID is enabled; a disabled duplicate does not end the scan. The result is \<open>None\<close>
  for the early \<open>return false\<close>.
\<close>

definition privilege_enabled :: "mem \<Rightarrow> nat \<Rightarrow> u32 \<Rightarrow> LUID \<Rightarrow> bool" where
  "privilege_enabled m privileges privilege_count luid =
     list_ex (\<lambda>j. la_luid m privileges j = luid \<and>
       la_attributes m privileges j AND SE_PRIVILEGE_ENABLED \<noteq> 0) [0..<unat privilege_count]"

definition mark_used :: "mem \<Rightarrow> nat \<Rightarrow> nat \<Rightarrow> mem" where
  "mark_used m req i = st32 m (req + 12 * i + 8) (la_attributes m req i OR SE_PRIVILEGE_USED_FOR_ACCESS)"

fun privilege_loop ::
  "nat \<Rightarrow> u32 \<Rightarrow> nat \<Rightarrow> bool \<Rightarrow> nat list \<Rightarrow> u32 \<Rightarrow> mem \<Rightarrow> u32 option \<times> mem" where
  "privilege_loop privileges pc req all_necessary [] found_count m = (Some found_count, m)"
| "privilege_loop privileges pc req all_necessary (i # is') found_count m =
     (if privilege_enabled m privileges pc (la_luid m req i)
      then privilege_loop privileges pc req all_necessary is' (found_count + 1) (mark_used m req i)
      else if all_necessary then (None, m)
      else privilege_loop privileges pc req all_necessary is' found_count m)"

definition sep_privilege_check :: "mem \<Rightarrow> nat \<Rightarrow> u32 \<Rightarrow> nat \<Rightarrow> u32 \<Rightarrow> bool \<times> mem" where
  "sep_privilege_check m privileges privilege_count required privilege_set_control =
     (if required = 0 then (True, m)
      else let required_count = ld32 m required in
        if required_count = 0 then (True, m)
        else let all_necessary = (ld32 m (required + 4) AND PRIVILEGE_SET_ALL_NECESSARY \<noteq> 0 \<or>
                                  privilege_set_control \<noteq> 0) in
          case privilege_loop privileges privilege_count (required + 8) all_necessary
                 [0..<unat required_count] 0 m of
            (None, m') \<Rightarrow> (False, m')
          | (Some found_count, m') \<Rightarrow>
              (if all_necessary then found_count = required_count else 0 < found_count, m'))"

definition se_privilege_check :: "mem \<Rightarrow> nat \<Rightarrow> u32 \<Rightarrow> nat \<Rightarrow> u32 \<Rightarrow> bool \<times> mem" where
  "se_privilege_check m privileges privilege_count required previous_mode =
     (if previous_mode = 0 then (True, m)
      else sep_privilege_check m privileges privilege_count required 0)"

definition se_single_privilege_check :: "LUID \<Rightarrow> u32 \<Rightarrow> bool" where
  "se_single_privilege_check privilege_luid previous_mode = (if previous_mode = 0 then True else False)"

section \<open>The check decides set inclusion or intersection\<close>

lemma la_bytes_eq:
  assumes "bytes m' (privileges + 12 * i) 12 = bytes m (privileges + 12 * i) 12"
  shows "la_luid m' privileges i = la_luid m privileges i"
    and "la_attributes m' privileges i = la_attributes m privileges i"
  using ld_bytes_eq(3) [OF assms, of 0] ld_bytes_eq(3) [OF assms, of 4] ld_bytes_eq(3) [OF assms, of 8]
  by (simp_all add: la_luid_def la_attributes_def)

lemma mark_used_luid: "la_luid (mark_used m req i) req j = la_luid m req j"
proof -
  have "ld32 (mark_used m req i) (req + 12 * j) = ld32 m (req + 12 * j)"
    unfolding mark_used_def by (rule ld32_stores(3)) presburger
  moreover have "ld32 (mark_used m req i) (req + 12 * j + 4) = ld32 m (req + 12 * j + 4)"
    unfolding mark_used_def by (rule ld32_stores(3)) presburger
  ultimately show ?thesis by (simp add: la_luid_def)
qed

lemma mark_used_enabled:
  assumes "privileges + 12 * unat pc \<le> req \<or> req + 12 * n \<le> privileges" and "i < n"
  shows "privilege_enabled (mark_used m req i) privileges pc luid = privilege_enabled m privileges pc luid"
proof -
  have "la_luid (mark_used m req i) privileges j = la_luid m privileges j \<and>
        la_attributes (mark_used m req i) privileges j = la_attributes m privileges j" if "j < unat pc" for j
  proof -
    have "bytes (mark_used m req i) (privileges + 12 * j) 12 = bytes m (privileges + 12 * j) 12"
      unfolding mark_used_def using assms that by (intro bytes_stores(3)) auto
    from la_bytes_eq [OF this] show ?thesis by simp
  qed
  then show ?thesis by (auto simp: privilege_enabled_def list_ex_iff)
qed

lemma privilege_loop_result:
  assumes "privileges + 12 * unat pc \<le> req \<or> req + 12 * n \<le> privileges"
    and "\<forall>i\<in>set js. i < n" and "unat c + length js < 2 ^ 32"
    and "\<And>i. i < n \<Longrightarrow> la_luid m req i = la_luid m0 req i"
    and "\<And>luid. privilege_enabled m privileges pc luid = privilege_enabled m0 privileges pc luid"
  shows "fst (privilege_loop privileges pc req all js c m) =
    (let P = (\<lambda>i. privilege_enabled m0 privileges pc (la_luid m0 req i))
     in if all \<and> \<not> list_all P js then None else Some (c + of_nat (length (filter P js))))"
  using assms(2-5)
proof (induction js arbitrary: c m)
  case Nil
  then show ?case by simp
next
  case (Cons i js)
  let ?P = "privilege_enabled m0 privileges pc (la_luid m0 req i)"
  have i: "i < n" using Cons.prems(1) by simp
  have p: "privilege_enabled m privileges pc (la_luid m req i) = ?P"
    using Cons.prems(3,4) i by simp
  show ?case
  proof (cases ?P)
    case True
    have c: "unat (c + 1) = Suc (unat c)" using Cons.prems(2) by (simp add: unat_word_ariths)
    have "fst (privilege_loop privileges pc req all js (c + 1) (mark_used m req i)) =
      (let P = (\<lambda>i. privilege_enabled m0 privileges pc (la_luid m0 req i))
       in if all \<and> \<not> list_all P js then None else Some (c + 1 + of_nat (length (filter P js))))"
      using Cons.prems c mark_used_enabled [OF assms(1) i] by (intro Cons.IH) (auto simp: mark_used_luid)
    then show ?thesis using True p by (simp add: Let_def ac_simps)
  next
    case False
    then show ?thesis using Cons.IH [of c m] Cons.prems p by (auto simp: Let_def)
  qed
qed

section \<open>Properties\<close>

text \<open>
  \<open>SepPrivilegeCheck\<close> decides what it should: for a required set apart from the token's
  privileges, the answer is true exactly when the set is empty, or all its privileges are
  enabled in the token where all are necessary, or at least one is where not.
\<close>

theorem sep_privilege_check_correct:
  assumes "required \<noteq> 0" and "n = ld32 m required"
    and "privileges + 12 * unat pc \<le> required + 8 \<or> required + 8 + 12 * unat n \<le> privileges"
  shows "fst (sep_privilege_check m privileges pc required control) \<longleftrightarrow>
    n = 0 \<or>
    (if ld32 m (required + 4) AND PRIVILEGE_SET_ALL_NECESSARY \<noteq> 0 \<or> control \<noteq> 0
     then list_all (\<lambda>i. privilege_enabled m privileges pc (la_luid m (required + 8) i)) [0..<unat n]
     else list_ex (\<lambda>i. privilege_enabled m privileges pc (la_luid m (required + 8) i)) [0..<unat n])"
proof (cases "n = 0")
  case False
  define all where "all \<longleftrightarrow> ld32 m (required + 4) AND PRIVILEGE_SET_ALL_NECESSARY \<noteq> 0 \<or> control \<noteq> 0"
  let ?P = "\<lambda>i. privilege_enabled m privileges pc (la_luid m (required + 8) i)"
  let ?k = "length (filter ?P [0..<unat n])"
  have loop: "fst (privilege_loop privileges pc (required + 8) all [0..<unat n] 0 m) =
      (if all \<and> \<not> list_all ?P [0..<unat n] then None else Some (of_nat ?k))"
    using privilege_loop_result [OF assms(3), of "[0..<unat n]" 0 m m all] by (simp add: Let_def)
  have "?k \<le> unat n" using length_filter_le [of ?P "[0..<unat n]"] by simp
  then have "?k < 4294967296" using unat_lt_32 [of n] by (simp del: unat_lt_32)
  then have k: "unat (of_nat ?k :: u32) = ?k" by (rule unat_of_nat_32)
  have all_k: "list_all ?P [0..<unat n] \<longleftrightarrow> ?k = unat n"
    by (metis (no_types, lifting) filter_True length_upt diff_zero length_filter_less list_all_iff nat_neq_iff)
  have ex_k: "list_ex ?P [0..<unat n] \<longleftrightarrow> 0 < ?k"
    by (simp add: list_ex_iff filter_empty_conv)
  obtain r m' where r: "privilege_loop privileges pc (required + 8) all [0..<unat n] 0 m = (r, m')"
    by fastforce
  have "fst (sep_privilege_check m privileges pc required control) \<longleftrightarrow>
      (case r of None \<Rightarrow> False | Some fc \<Rightarrow> if all then fc = n else 0 < fc)"
    unfolding sep_privilege_check_def Let_def assms(2) [symmetric] all_def [symmetric]
    using assms(1) False by (simp add: r split: option.split)
  also have "\<dots> \<longleftrightarrow> (if all then list_all ?P [0..<unat n] else list_ex ?P [0..<unat n])"
  proof (cases "all")
    case True
    then show ?thesis
      using loop r k by (auto simp: all_k word_unat_eq_iff)
  next
    case False
    then have "r = Some (of_nat ?k)" using loop r by simp
    then show ?thesis using False k by (simp add: ex_k word_less_nat_alt)
  qed
  finally show ?thesis using False by (simp add: all_def)
qed (use assms in \<open>simp add: sep_privilege_check_def\<close>)

text \<open>
  The system token's table is the table of well-known privileges: a LUID is well known
  exactly when it is in the table, \<open>se_privilege_index\<close> gives its place there, all entries are
  enabled and no LUID occurs twice.
\<close>

theorem system_privileges_indexed:
  "(se_privilege_index luid = Some i \<longleftrightarrow>
      i < length SE_SYSTEM_TOKEN_PRIVILEGES \<and> fst (SE_SYSTEM_TOKEN_PRIVILEGES ! i) = luid) \<and>
   list_all (\<lambda>(_, attr). attr AND SE_PRIVILEGE_ENABLED \<noteq> 0) SE_SYSTEM_TOKEN_PRIVILEGES"
proof -
  have len: "length SE_SYSTEM_TOKEN_PRIVILEGES = 34" by (simp add: SE_SYSTEM_TOKEN_PRIVILEGES_def)
  have nth: "fst (SE_SYSTEM_TOKEN_PRIVILEGES ! i) = luid_new (of_nat (i + 2)) 0" if "i < 34"
  proof -
    have "[2..<36] ! i = 2 + i" using that by (intro nth_upt) simp
    moreover have "i < length [2..<36]" using that by simp
    ultimately show ?thesis unfolding SE_SYSTEM_TOKEN_PRIVILEGES_def
      by (simp only: nth_map fst_conv add.commute)
  qed
  have wk: "se_is_well_known_privilege luid \<longleftrightarrow>
      high_part luid = 0 \<and> 2 \<le> unat (low_part luid) \<and> unat (low_part luid) \<le> 35"
    by (simp add: se_is_well_known_privilege_def SE_MIN_WELL_KNOWN_PRIVILEGE_def
        SE_MAX_WELL_KNOWN_PRIVILEGE_def word_le_nat_alt)
  have sub: "unat (low_part luid - SE_MIN_WELL_KNOWN_PRIVILEGE) = unat (low_part luid) - 2"
    if "2 \<le> unat (low_part luid)"
    using that by (simp add: SE_MIN_WELL_KNOWN_PRIVILEGE_def unat_sub word_le_nat_alt)
  have "se_privilege_index luid = Some i \<longleftrightarrow> high_part luid = 0 \<and> unat (low_part luid) = i + 2 \<and> i < 34"
    using sub by (auto simp: se_privilege_index_def wk)
  also have "\<dots> \<longleftrightarrow> i < 34 \<and> luid_new (of_nat (i + 2)) 0 = luid"
  proof (cases "i < 34")
    case True
    then have "unat (of_nat (i + 2) :: u32) = i + 2" by (intro unat_of_nat_32) simp
    then show ?thesis using True by (cases luid) (auto simp: luid_new_def word_unat_eq_iff)
  qed simp
  finally show ?thesis
    using len nth by (auto simp: list_all_iff SE_SYSTEM_TOKEN_PRIVILEGES_def SE_PRIVILEGE_ENABLED_def
        SE_PRIVILEGE_ENABLED_BY_DEFAULT_def)
qed

text \<open>A token with one enabled and one disabled privilege at 64, a set asking for both at 128.\<close>

definition priv_demo :: "u32 \<Rightarrow> mem" where
  "priv_demo control = foldl (\<lambda>m (a, v). st32 m a v) (\<lambda>_. 0)
     [(64, 8), (72, 2), (76, 9), (128, 2), (132, control), (136, 8), (148, 9)]"

theorem sep_privilege_check_correct_witness:
  "fst (sep_privilege_check (priv_demo 0) 64 2 128 0) \<and> \<not> fst (sep_privilege_check (priv_demo 1) 64 2 128 0)"
proof -
  have ld: "ld32 (priv_demo c) 64 = 8" "ld32 (priv_demo c) 68 = 0" "ld32 (priv_demo c) 72 = 2"
      "ld32 (priv_demo c) 76 = 9" "ld32 (priv_demo c) 80 = 0" "ld32 (priv_demo c) 84 = 0"
      "ld32 (priv_demo c) 128 = 2" "ld32 (priv_demo c) 132 = c" "ld32 (priv_demo c) 136 = 8"
      "ld32 (priv_demo c) 140 = 0" "ld32 (priv_demo c) 148 = 9" "ld32 (priv_demo c) 152 = 0" for c
    by (simp_all add: priv_demo_def mem_frame mem_same) (simp_all add: ld32_def bytes_def upt_rec)
  have u: "[0..<unat (2 :: u32)] = [0, 1]" by (simp add: upt_rec)
  have en: "privilege_enabled (priv_demo c) 64 2 (la_luid (priv_demo c) 136 0)"
      "\<not> privilege_enabled (priv_demo c) 64 2 (la_luid (priv_demo c) 136 1)" for c
    unfolding privilege_enabled_def u
    by (simp_all add: la_luid_def la_attributes_def ld SE_PRIVILEGE_ENABLED_def)
  have d: "64 + 12 * unat (2 :: u32) \<le> 128 + 8 \<or> (128 :: nat) + 8 + 12 * unat (2 :: u32) \<le> 64" by simp
  show ?thesis
    using sep_privilege_check_correct [of 128 2 "priv_demo 0" 64 2 0, OF _ _ d]
      sep_privilege_check_correct [of 128 2 "priv_demo 1" 64 2 0, OF _ _ d] en
    by (simp add: ld PRIVILEGE_SET_ALL_NECESSARY_def upt_rec [of 0] upt_rec [of "Suc 0"] del: upt_rec_numeral)
qed

end
