(* ===== verification/Token.thy ===== *)
theory Token
  imports Acl Priv
begin

text \<open>
  Access tokens: \<open>kernel/ntoskrnl/src/se/token/token.rs\<close> and \<open>token/filter.rs\<close>. The fixed part
  of a token is the record \<open>TOKEN\<close>; its pointers lead into the variable part, the bytes behind
  the 192 bytes of the structure in the same pool block. \<open>sep_create_token\<close> gets the address of
  the block from the pool as an argument, 0 for out of memory.
\<close>

section \<open>The token\<close>

datatype TOKEN_TYPE = TokenPrimary | TokenImpersonation

datatype SECURITY_IMPERSONATION_LEVEL =
  SecurityAnonymous | SecurityIdentification | SecurityImpersonation | SecurityDelegation

datatype TOKEN_ELEVATION_TYPE =
  TokenElevationTypeDefault | TokenElevationTypeFull | TokenElevationTypeLimited

record TOKEN_SOURCE =
  source_name :: "u8 list"
  source_identifier :: LUID

record TOKEN =
  token_source :: TOKEN_SOURCE
  token_id :: LUID
  authentication_id :: LUID
  parent_token_id :: LUID
  expiration_time :: u64
  modified_id :: LUID
  token_type :: TOKEN_TYPE
  impersonation_level :: SECURITY_IMPERSONATION_LEVEL
  token_flags :: u32
  session_id :: u32
  user_sid :: nat
  group_count :: u32
  groups :: nat
  restricted_sid_count :: u32
  restricted_sids :: nat
  privilege_count :: u32
  privileges :: nat
  owner :: nat
  primary_group :: nat
  default_dacl :: nat
  elevation_type :: TOKEN_ELEVATION_TYPE
  elevation :: u32
  linked_token :: nat
  integrity_level_sid :: nat
  integrity_level_index :: u32
  dynamic_charged :: u32
  dynamic_available :: u32

definition SIZEOF_TOKEN :: nat where "SIZEOF_TOKEN = 192"
definition TOKEN_HAS_TRAVERSE_PRIVILEGE :: u32 where "TOKEN_HAS_TRAVERSE_PRIVILEGE = 0x1"
definition TOKEN_HAS_BACKUP_PRIVILEGE :: u32 where "TOKEN_HAS_BACKUP_PRIVILEGE = 0x2"
definition TOKEN_HAS_RESTORE_PRIVILEGE :: u32 where "TOKEN_HAS_RESTORE_PRIVILEGE = 0x4"
definition TOKEN_HAS_ADMIN_GROUP :: u32 where "TOKEN_HAS_ADMIN_GROUP = 0x8"
definition TOKEN_IS_RESTRICTED :: u32 where "TOKEN_IS_RESTRICTED = 0x10"
definition TOKEN_SANDBOX_INERT :: u32 where "TOKEN_SANDBOX_INERT = 0x40"
definition TOKEN_HAS_IMPERSONATE_PRIVILEGE :: u32 where "TOKEN_HAS_IMPERSONATE_PRIVILEGE = 0x80"
definition TOKEN_IS_FILTERED :: u32 where "TOKEN_IS_FILTERED = 0x800"
definition SECURITY_MANDATORY_MEDIUM_RID :: u32 where "SECURITY_MANDATORY_MEDIUM_RID = 0x2000"

definition is_restricted :: "TOKEN \<Rightarrow> bool" where
  "is_restricted t \<longleftrightarrow> token_flags t AND TOKEN_IS_RESTRICTED \<noteq> 0 \<or> 0 < restricted_sid_count t"

definition is_elevated :: "TOKEN \<Rightarrow> bool" where
  "is_elevated t \<longleftrightarrow> elevation t \<noteq> 0"

definition integrity_level :: "TOKEN \<Rightarrow> u32" where
  "integrity_level t = integrity_level_index t"

record TOKEN_STATISTICS =
  ts_token_id :: LUID
  ts_authentication_id :: LUID
  ts_expiration_time :: u64
  ts_token_type :: TOKEN_TYPE
  ts_impersonation_level :: SECURITY_IMPERSONATION_LEVEL
  ts_dynamic_charged :: u32
  ts_dynamic_available :: u32
  ts_group_count :: u32
  ts_privilege_count :: u32
  ts_modified_id :: LUID

definition get_statistics :: "TOKEN \<Rightarrow> TOKEN_STATISTICS" where
  "get_statistics t = \<lparr>ts_token_id = token_id t, ts_authentication_id = authentication_id t,
     ts_expiration_time = expiration_time t, ts_token_type = token_type t,
     ts_impersonation_level = impersonation_level t, ts_dynamic_charged = dynamic_charged t,
     ts_dynamic_available = dynamic_available t, ts_group_count = group_count t,
     ts_privilege_count = privilege_count t, ts_modified_id = modified_id t\<rparr>"

section \<open>Flags derived from privileges and groups\<close>

definition privilege_flags :: "mem \<Rightarrow> nat \<Rightarrow> nat \<Rightarrow> u32 \<Rightarrow> u32" where
  "privilege_flags m privs i flags =
     (if la_attributes m privs i AND SE_PRIVILEGE_ENABLED \<noteq> 0 then
        let low = low_part (la_luid m privs i);
            f1 = (if low = low_part SE_CHANGE_NOTIFY_LUID then flags OR TOKEN_HAS_TRAVERSE_PRIVILEGE else flags);
            f2 = (if low = low_part SE_BACKUP_LUID then f1 OR TOKEN_HAS_BACKUP_PRIVILEGE else f1);
            f3 = (if low = low_part SE_RESTORE_LUID then f2 OR TOKEN_HAS_RESTORE_PRIVILEGE else f2)
        in if low = low_part SE_IMPERSONATE_LUID then f3 OR TOKEN_HAS_IMPERSONATE_PRIVILEGE else f3
      else flags)"

definition sep_update_token_flags_from_privileges :: "mem \<Rightarrow> TOKEN \<Rightarrow> TOKEN" where
  "sep_update_token_flags_from_privileges m t =
     t\<lparr>token_flags := fold (privilege_flags m (privileges t)) [0..<unat (privilege_count t)] (token_flags t)\<rparr>"

text \<open>\<open>admins\<close> is the address of \<open>SE_ALIASED_ADMINS_SID_BUFFER\<close>. A null group array with a
  nonzero count is dereferenced.\<close>

definition sep_update_token_flags_from_groups :: "mem \<Rightarrow> nat \<Rightarrow> TOKEN \<Rightarrow> TOKEN outcome" where
  "sep_update_token_flags_from_groups m admins t =
     (if groups t = 0 \<and> group_count t \<noteq> 0 then Undef
      else if list_ex (\<lambda>i. sa_attributes m (groups t) i AND SE_GROUP_ENABLED \<noteq> 0 \<and>
                           rtl_equal_sid m (sa_sid m (groups t) i) admins) [0..<unat (group_count t)]
      then Ret (t\<lparr>token_flags := token_flags t OR TOKEN_HAS_ADMIN_GROUP\<rparr>) else Ret t)"

section \<open>Creating a token\<close>

definition opt_sid_len :: "mem \<Rightarrow> nat \<Rightarrow> nat" where
  "opt_sid_len m sid = (if sid \<noteq> 0 then unat (rtl_length_sid m sid) else 0)"

text \<open>One pass of the group loop: state is the memory and \<open>var_ptr\<close>.\<close>

definition copy_group :: "nat \<Rightarrow> nat \<Rightarrow> nat \<Rightarrow> mem \<times> nat \<Rightarrow> mem \<times> nat" where
  "copy_group src dst i = (\<lambda>(m, var_ptr).
     let m1 = st32 m (dst + 16 * i + 8) (sa_attributes m src i) in
     if sa_sid m1 src i \<noteq> 0 then
       let sid_len = unat (rtl_length_sid m1 (sa_sid m1 src i));
           m2 = stptr m1 (dst + 16 * i) var_ptr
       in (copy_mem m2 var_ptr (sa_sid m2 src i) sid_len, var_ptr + sid_len)
     else (stptr m1 (dst + 16 * i) 0, var_ptr))"

text \<open>Copying an optional block to \<open>var_ptr\<close>: the pointer stored in the token, memory, \<open>var_ptr\<close>.\<close>

definition put_block :: "nat \<Rightarrow> nat \<Rightarrow> mem \<times> nat \<Rightarrow> nat \<times> mem \<times> nat" where
  "put_block src len = (\<lambda>(m, var_ptr). (var_ptr, copy_mem m var_ptr src len, var_ptr + len))"

definition put_groups :: "nat \<Rightarrow> u32 \<Rightarrow> mem \<times> nat \<Rightarrow> nat \<times> mem \<times> nat" where
  "put_groups src count = (\<lambda>(m, var_ptr).
     if count \<noteq> 0 \<and> src \<noteq> 0 then
       (var_ptr, fold (copy_group src var_ptr) [0..<unat count] (m, var_ptr + 16 * unat count))
     else (0, m, var_ptr))"

definition token_variable_size ::
  "mem \<Rightarrow> nat \<Rightarrow> nat \<Rightarrow> u32 \<Rightarrow> u32 \<Rightarrow> nat \<Rightarrow> nat \<Rightarrow> nat \<Rightarrow> nat \<Rightarrow> nat" where
  "token_variable_size m user grps gcount pcount own pgroup dacl integrity =
     unat (rtl_length_sid m user) + unat (rtl_length_sid m pgroup)
     + (if grps \<noteq> 0 \<and> 0 < gcount then unat gcount * 16 else 0)
     + (if grps \<noteq> 0 \<and> 0 < gcount
        then sum_list (map (\<lambda>i. opt_sid_len m (sa_sid m grps i)) [0..<unat gcount]) else 0)
     + unat pcount * 12 + opt_sid_len m own + (if dacl \<noteq> 0 then acl_size m dacl else 0)
     + opt_sid_len m integrity"

text \<open>
  \<open>sep_create_token\<close>: memory, the pool block and the id counter are explicit; the result is the
  token (\<open>None\<close> for the null pointer), the memory and the counter.
\<close>

record token_args =
  a_type :: TOKEN_TYPE
  a_level :: SECURITY_IMPERSONATION_LEVEL
  a_auth :: LUID
  a_user :: nat
  a_groups :: nat
  a_group_count :: u32
  a_privileges :: nat
  a_privilege_count :: u32
  a_owner :: nat
  a_primary_group :: nat
  a_default_dacl :: nat
  a_source :: TOKEN_SOURCE
  a_integrity :: nat

definition sep_create_token ::
  "nat \<Rightarrow> mem \<Rightarrow> u32 \<Rightarrow> nat \<Rightarrow> token_args \<Rightarrow> (TOKEN option \<times> mem \<times> u32) outcome" where
  "sep_create_token admins m next_token_id token_ptr a =
     (if a_user a = 0 \<or> a_primary_group a = 0 then Ret (None, m, next_token_id)
      else
        let user_len = unat (rtl_length_sid m (a_user a));
            primary_group_len = unat (rtl_length_sid m (a_primary_group a));
            owner_len = opt_sid_len m (a_owner a);
            dacl_len = (if a_default_dacl a \<noteq> 0 then acl_size m (a_default_dacl a) else 0);
            integrity_len = opt_sid_len m (a_integrity a);
            variable_size = token_variable_size m (a_user a) (a_groups a) (a_group_count a)
              (a_privilege_count a) (a_owner a) (a_primary_group a) (a_default_dacl a) (a_integrity a);
            total_size = SIZEOF_TOKEN + variable_size
        in if token_ptr = 0 then Ret (None, m, next_token_id)
        else
          let m0 = store_bytes m token_ptr (replicate total_size 0);
              s0 = (m0, token_ptr + SIZEOF_TOKEN);
              (p_user, s1) = put_block (a_user a) user_len s0;
              (p_pgroup, s2) = put_block (a_primary_group a) primary_group_len s1;
              (p_groups, s3) = put_groups (a_groups a) (a_group_count a) s2;
              (p_privs, s4) = (if 0 < a_privilege_count a \<and> a_privileges a \<noteq> 0
                 then put_block (a_privileges a) (12 * unat (a_privilege_count a)) s3 else (0, s3));
              (p_owner, s5) = (if a_owner a \<noteq> 0 then put_block (a_owner a) owner_len s4 else (p_user, s4));
              (p_dacl, s6) = (if a_default_dacl a \<noteq> 0
                 then put_block (a_default_dacl a) dacl_len s5 else (0, s5));
              (p_int, s7) = (if a_integrity a \<noteq> 0 then put_block (a_integrity a) integrity_len s6 else (0, s6));
              t = \<lparr>token_source = a_source a, token_id = luid_new next_token_id 0,
                   authentication_id = a_auth a, parent_token_id = luid_new 0 0,
                   expiration_time = 0x7FFFFFFFFFFFFFFF, modified_id = luid_new next_token_id 0,
                   token_type = a_type a, impersonation_level = a_level a, token_flags = 0,
                   session_id = 0, user_sid = p_user, group_count = a_group_count a,
                   groups = p_groups, restricted_sid_count = 0, restricted_sids = 0,
                   privilege_count = a_privilege_count a, privileges = p_privs, owner = p_owner,
                   primary_group = p_pgroup, default_dacl = p_dacl,
                   elevation_type = TokenElevationTypeDefault, elevation = 0, linked_token = 0,
                   integrity_level_sid = p_int,
                   integrity_level_index = (if a_integrity a \<noteq> 0 then rtl_get_rid (fst s7) (a_integrity a)
                                            else SECURITY_MANDATORY_MEDIUM_RID),
                   dynamic_charged = of_nat variable_size, dynamic_available = 0\<rparr>;
              t' = (if 0 < a_privilege_count a \<and> a_privileges a \<noteq> 0
                    then sep_update_token_flags_from_privileges (fst s4) t else t)
          in bind_out (sep_update_token_flags_from_groups (fst s7) admins t')
               (\<lambda>t''. Ret (Some t'', fst s7, next_token_id + 1)))"

section \<open>What the block copies preserve\<close>

text \<open>From a state to a later one: only the bytes between the two \<open>var_ptr\<close>s were written.\<close>

definition grows :: "nat \<Rightarrow> nat \<Rightarrow> mem \<times> nat \<Rightarrow> mem \<times> nat \<Rightarrow> bool" where
  "grows B T s s' \<longleftrightarrow> B \<le> snd s \<and> snd s \<le> snd s' \<and> snd s' \<le> B + T \<and>
     (\<forall>x. x < snd s \<or> snd s' \<le> x \<longrightarrow> fst s' x = fst s x)"

lemma grows_refl: "B \<le> v \<Longrightarrow> v \<le> B + T \<Longrightarrow> grows B T (m, v) (m, v)"
  by (simp add: grows_def)

lemma grows_trans: "grows B T s1 s2 \<Longrightarrow> grows B T s2 s3 \<Longrightarrow> grows B T s1 s3"
  by (auto simp: grows_def)

lemma grows_same_outside: "same_outside B T m0 (fst s) \<Longrightarrow> grows B T s s' \<Longrightarrow> same_outside B T m0 (fst s')"
  by (auto simp: same_outside_def grows_def)

lemma grows_bytes: "grows B T s s' \<Longrightarrow> p + n \<le> snd s \<Longrightarrow> bytes (fst s') p n = bytes (fst s) p n"
  by (auto simp: grows_def bytes_eq_iff)

lemma put_block_grows:
  assumes "same_outside B T m0 (fst s)" and "apart src len B T" and "B \<le> snd s" and "snd s + len \<le> B + T"
    and "put_block src len s = (p, s')"
  shows "grows B T s s'" and "p = snd s" and "snd s' = snd s + len" and "bytes (fst s') p len = bytes m0 src len"
proof -
  obtain m v where s: "s = (m, v)" by fastforce
  have "bytes m src len = bytes m0 src len"
    using same_outside_bytes [OF assms(1,2)] s by simp
  moreover have e: "p = v" "s' = (copy_mem m v src len, v + len)" using assms(5) s by (auto simp: put_block_def)
  ultimately show "bytes (fst s') p len = bytes m0 src len" by (simp add: copy_mem_bytes)
  show "grows B T s s'" using assms(3,4) s e
    by (auto simp: grows_def copy_mem_def store_bytes_outside)
  show "p = snd s" "snd s' = snd s + len" using s e by simp_all
qed

definition groups_apart :: "mem \<Rightarrow> nat \<Rightarrow> nat \<Rightarrow> nat \<Rightarrow> nat \<Rightarrow> bool" where
  "groups_apart m src n B T \<longleftrightarrow> apart src (16 * n) B T \<and>
     (\<forall>i<n. sa_sid m src i \<noteq> 0 \<longrightarrow> apart (sa_sid m src i) (sid_size m (sa_sid m src i)) B T)"

definition groups_len :: "mem \<Rightarrow> nat \<Rightarrow> nat \<Rightarrow> nat" where
  "groups_len m src n = sum_list (map (\<lambda>i. opt_sid_len m (sa_sid m src i)) [0..<n])"

lemma groups_len_Suc: "groups_len m src (Suc n) = groups_len m src n + opt_sid_len m (sa_sid m src n)"
  by (simp add: groups_len_def)

definition group_copied :: "mem \<Rightarrow> nat \<Rightarrow> mem \<Rightarrow> nat \<Rightarrow> nat \<Rightarrow> nat \<Rightarrow> nat \<Rightarrow> bool" where
  "group_copied m0 src m dst lo hi i \<longleftrightarrow>
     sa_attributes m dst i = sa_attributes m0 src i \<and>
     same_sid m0 (sa_sid m0 src i) m (sa_sid m dst i) \<and>
     (sa_sid m dst i \<noteq> 0 \<longrightarrow> lo \<le> sa_sid m dst i \<and> sa_sid m dst i + sid_size m (sa_sid m dst i) \<le> hi)"

lemma sa_bytes_eq:
  assumes "bytes m' (a + 16 * i) 12 = bytes m (b + 16 * j) 12"
  shows "sa_sid m' a i = sa_sid m b j" and "sa_attributes m' a i = sa_attributes m b j"
  using ld_bytes_eq(3) [OF assms, of 8] ld_bytes_eq(4) [OF assms, of 0]
  by (simp_all add: sa_sid_def sa_attributes_def ldptr_def)

lemma group_copied_keep:
  assumes "group_copied m0 src m dst lo hi i" and "hi \<le> hi'"
    and "bytes m' (dst + 16 * i) 12 = bytes m (dst + 16 * i) 12"
    and "\<And>x. lo \<le> x \<Longrightarrow> x < hi \<Longrightarrow> m' x = m x"
  shows "group_copied m0 src m' dst lo hi' i"
proof -
  note e = sa_bytes_eq [OF assms(3)]
  let ?p = "sa_sid m dst i"
  have b: "sid_bytes m' ?p = sid_bytes m ?p" "sid_size m' ?p = sid_size m ?p" if "?p \<noteq> 0"
  proof -
    have "bytes m ?p (sid_size m ?p) = bytes m' ?p (sid_size m ?p)"
      using assms(1,4) that by (auto simp: group_copied_def bytes_eq_iff)
    from sid_bytes_region [OF this order_refl]
    show "sid_bytes m' ?p = sid_bytes m ?p" "sid_size m' ?p = sid_size m ?p" .
  qed
  show ?thesis
    using assms(1,2) b e by (auto simp: group_copied_def same_sid_def)
qed

lemma copy_group_step:
  assumes so: "same_outside B T m0 m" and ga: "groups_apart m0 src n B T"
    and k: "k < n" and dst: "B \<le> dst" and v: "dst + 16 * n \<le> v" "v + opt_sid_len m0 (sa_sid m0 src k) \<le> B + T"
    and ad: "B + T < 2 ^ 64" "v \<noteq> 0"
  obtains m' where "copy_group src dst k (m, v) = (m', v + opt_sid_len m0 (sa_sid m0 src k))"
    and "\<And>x. x < dst + 16 * k \<or> dst + 16 * k + 12 \<le> x \<Longrightarrow> x < v \<or> v + opt_sid_len m0 (sa_sid m0 src k) \<le> x \<Longrightarrow>
           m' x = m x"
    and "group_copied m0 src m' dst v (v + opt_sid_len m0 (sa_sid m0 src k)) k"
proof -
  define m1 where "m1 = st32 m (dst + 16 * k + 8) (sa_attributes m src k)"
  have so1: "same_outside B T m0 m1"
    using so dst v k by (auto simp: same_outside_def m1_def st32_def store_bytes_outside)
  have src12: "bytes x (src + 16 * k) 12 = bytes m0 (src + 16 * k) 12" if "same_outside B T m0 x" for x
    using same_outside_bytes [OF that] ga k by (auto simp: groups_apart_def apart_def)
  note s0 = sa_bytes_eq [OF src12 [OF so]] and s1 = sa_bytes_eq [OF src12 [OF so1]]
  let ?p = "sa_sid m0 src k"
  show ?thesis
  proof (cases "?p = 0")
    case True
    show ?thesis
    proof (rule that [of "stptr m1 (dst + 16 * k) 0"])
      show "copy_group src dst k (m, v) = (stptr m1 (dst + 16 * k) 0, v + opt_sid_len m0 ?p)"
        using True s1 by (simp add: copy_group_def m1_def [symmetric] Let_def opt_sid_len_def)
      show "stptr m1 (dst + 16 * k) 0 x = m x"
        if "x < dst + 16 * k \<or> dst + 16 * k + 12 \<le> x" for x
        using that by (auto simp: m1_def stptr_def st64_def st32_def store_bytes_outside)
      show "group_copied m0 src (stptr m1 (dst + 16 * k) 0) dst v (v + opt_sid_len m0 ?p) k"
        using True s0 by (simp add: group_copied_def same_sid_def sa_attributes_def sa_sid_def m1_def mem_frame mem_same
            stptr_def ldptr_def)
    qed
  next
    case False
    let ?n = "sid_size m0 ?p"
    define m2 where "m2 = stptr m1 (dst + 16 * k) v"
    have so2: "same_outside B T m0 m2"
      using so1 dst v k by (auto simp: same_outside_def m2_def stptr_def st64_def store_bytes_outside)
    note s2 = sa_bytes_eq [OF src12 [OF so2]]
    have ap: "apart ?p ?n B T" using ga k False by (auto simp: groups_apart_def)
    have b1: "bytes m0 ?p ?n = bytes m1 ?p ?n" and b2: "bytes m2 ?p ?n = bytes m0 ?p ?n"
      using same_outside_bytes [OF so1 ap] same_outside_bytes [OF so2 ap] by simp_all
    have l1: "unat (rtl_length_sid m1 ?p) = ?n"
      using sid_bytes_region(2) [OF b1] False by (simp add: unat_rtl_length_sid)
    have ol: "opt_sid_len m0 ?p = ?n" using False by (simp add: opt_sid_len_def unat_rtl_length_sid)
    let ?m' = "copy_mem m2 v ?p ?n"
    have far: "bytes ?m' (dst + 16 * k) 12 = bytes m2 (dst + 16 * k) 12"
      using v(1) k by (intro copy_mem_frame) simp
    have "v < 2 ^ 64" using v(2) ad by simp
    then have e: "sa_attributes ?m' dst k = sa_attributes m src k" "sa_sid ?m' dst k = v"
      using sa_bytes_eq [OF far]
      by (simp_all add: m2_def m1_def sa_attributes_def sa_sid_def mem_frame mem_same stptr_def ldptr_def
          unat_of_nat_64)
    have "bytes m0 ?p ?n = bytes ?m' v ?n" using b2 by (simp add: copy_mem_bytes)
    note sb = sid_bytes_region [OF this order_refl]
    show ?thesis
    proof (rule that [of ?m'])
      show "copy_group src dst k (m, v) = (?m', v + opt_sid_len m0 ?p)"
        using False s1 s2 l1 ol by (simp add: copy_group_def m1_def [symmetric] m2_def [symmetric] Let_def)
      show "?m' x = m x"
        if "x < dst + 16 * k \<or> dst + 16 * k + 12 \<le> x" "x < v \<or> v + opt_sid_len m0 ?p \<le> x" for x
        using that ol by (auto simp: m2_def m1_def copy_mem_def stptr_def st64_def st32_def store_bytes_outside)
      show "group_copied m0 src ?m' dst v (v + opt_sid_len m0 ?p) k"
        using e s0 sb ol ad(2) False by (simp add: group_copied_def same_sid_def)
    qed
  qed
qed

lemma copy_groups_loop:
  assumes so: "same_outside B T m0 m" and ga: "groups_apart m0 src n B T" and dst: "B \<le> dst" "dst \<noteq> 0"
    and fit: "dst + 16 * n + groups_len m0 src n \<le> B + T" "B + T < 2 ^ 64" and "k \<le> n"
  shows "\<exists>mk. fold (copy_group src dst) [0..<k] (m, dst + 16 * n) = (mk, dst + 16 * n + groups_len m0 src k) \<and>
           (\<forall>x. x < dst \<or> dst + 16 * n + groups_len m0 src k \<le> x \<longrightarrow> mk x = m x) \<and>
           (\<forall>i<k. group_copied m0 src mk dst (dst + 16 * n) (dst + 16 * n + groups_len m0 src k) i)"
  using \<open>k \<le> n\<close>
proof (induction k)
  case 0
  then show ?case by (simp add: groups_len_def)
next
  case (Suc k)
  let ?v = "dst + 16 * n + groups_len m0 src k" and ?l = "opt_sid_len m0 (sa_sid m0 src k)"
  have "groups_len m0 src (Suc k) \<le> groups_len m0 src n"
    using Suc.prems by (induction n) (auto simp: groups_len_Suc le_Suc_eq)
  then have fk: "?v + ?l \<le> B + T" using fit(1) by (simp add: groups_len_Suc)
  obtain mk where f: "fold (copy_group src dst) [0..<k] (m, dst + 16 * n) = (mk, ?v)"
    and out: "\<And>x. x < dst \<or> ?v \<le> x \<Longrightarrow> mk x = m x"
    and cp: "\<And>i. i < k \<Longrightarrow> group_copied m0 src mk dst (dst + 16 * n) ?v i"
    using Suc.IH Suc.prems by auto
  have so': "same_outside B T m0 mk"
    using so out dst(1) fk by (auto simp: same_outside_def)
  have kn: "k < n" using Suc.prems by simp
  have v: "dst + 16 * n \<le> ?v" "?v \<noteq> 0" using dst by simp_all
  obtain m' where s: "copy_group src dst k (mk, ?v) = (m', ?v + ?l)"
    and out': "\<And>x. x < dst + 16 * k \<or> dst + 16 * k + 12 \<le> x \<Longrightarrow> x < ?v \<or> ?v + ?l \<le> x \<Longrightarrow> m' x = mk x"
    and cp': "group_copied m0 src m' dst ?v (?v + ?l) k"
    by (rule copy_group_step [OF so' ga kn dst(1) v(1) fk fit(2) v(2)]) blast
  show ?case
  proof (intro exI conjI allI impI)
    show "fold (copy_group src dst) [0..<Suc k] (m, dst + 16 * n) = (m', dst + 16 * n + groups_len m0 src (Suc k))"
      using f s by (simp add: groups_len_Suc add.assoc)
    show "m' x = m x" if "x < dst \<or> dst + 16 * n + groups_len m0 src (Suc k) \<le> x" for x
      using that out [of x] out' [of x] kn by (auto simp: groups_len_Suc)
    show "group_copied m0 src m' dst (dst + 16 * n) (dst + 16 * n + groups_len m0 src (Suc k)) i" if "i < Suc k" for i
    proof (cases "i = k")
      case True
      then show ?thesis using cp' by (auto simp: group_copied_def groups_len_Suc)
    next
      case False
      then have i: "i < k" using that by simp
      show ?thesis
      proof (rule group_copied_keep [OF cp [OF i]])
        show "bytes m' (dst + 16 * i) 12 = bytes mk (dst + 16 * i) 12"
          unfolding bytes_eq_iff
        proof (intro allI impI)
          fix j :: nat assume "j < 12"
          then show "m' (dst + 16 * i + j) = mk (dst + 16 * i + j)"
            using i kn by (intro out') simp_all
        qed
        show "m' x = mk x" if "dst + 16 * n \<le> x" "x < ?v" for x
          using that kn by (intro out') simp_all
      qed (simp add: groups_len_Suc)
    qed
  qed
qed

definition groups_copied :: "mem \<Rightarrow> nat \<Rightarrow> u32 \<Rightarrow> mem \<Rightarrow> nat \<Rightarrow> bool" where
  "groups_copied m0 src n m dst \<longleftrightarrow> (\<forall>i<unat n.
     sa_attributes m dst i = sa_attributes m0 src i \<and> same_sid m0 (sa_sid m0 src i) m (sa_sid m dst i))"

lemma put_groups_grows:
  assumes so: "same_outside B T m0 (fst s)" and ga: "src \<noteq> 0 \<longrightarrow> groups_apart m0 src (unat n) B T"
    and v: "B \<le> snd s" "snd s \<noteq> 0"
    and len: "len = (if src \<noteq> 0 \<and> n \<noteq> 0 then 16 * unat n + groups_len m0 src (unat n) else 0)"
    and fit: "snd s + len \<le> B + T" "B + T < 2 ^ 64"
    and "put_groups src n s = (p, s')"
  shows "grows B T s s'" and "snd s' = snd s + len" and "src = 0 \<or> n = 0 \<Longrightarrow> p = 0"
    and "src \<noteq> 0 \<Longrightarrow> n \<noteq> 0 \<Longrightarrow> p \<noteq> 0 \<and> (\<forall>i<unat n. group_copied m0 src (fst s') p (p + 16 * unat n) (snd s') i) \<and>
           p + 16 * unat n \<le> snd s'"
proof -
  obtain m w where s: "s = (m, w)" by fastforce
  show "src = 0 \<or> n = 0 \<Longrightarrow> p = 0" using assms(8) s by (auto simp: put_groups_def)
  have "grows B T s s' \<and> snd s' = snd s + len \<and> (src \<noteq> 0 \<and> n \<noteq> 0 \<longrightarrow>
      p \<noteq> 0 \<and> (\<forall>i<unat n. group_copied m0 src (fst s') p (p + 16 * unat n) (snd s') i) \<and>
           p + 16 * unat n \<le> snd s')"
  proof (cases "src \<noteq> 0 \<and> n \<noteq> 0")
    case False
    then show ?thesis using assms(8) s v len fit(1) by (auto simp: put_groups_def grows_def)
  next
    case True
    have f: "w + 16 * unat n + groups_len m0 src (unat n) \<le> B + T" using fit(1) len True s by simp
    obtain mk where k: "fold (copy_group src w) [0..<unat n] (m, w + 16 * unat n) =
          (mk, w + 16 * unat n + groups_len m0 src (unat n))"
      "\<forall>x. x < w \<or> w + 16 * unat n + groups_len m0 src (unat n) \<le> x \<longrightarrow> mk x = m x"
      "\<forall>i<unat n. group_copied m0 src mk w (w + 16 * unat n) (w + 16 * unat n + groups_len m0 src (unat n)) i"
      using copy_groups_loop [OF _ _ _ _ f fit(2) order_refl, of m] so ga True v s by auto
    have "p = w" "s' = (mk, w + 16 * unat n + groups_len m0 src (unat n))"
      using assms(8) s True k(1) by (auto simp: put_groups_def)
    then show ?thesis using k(2,3) s v f True len by (auto simp: grows_def)
  qed
  then show "grows B T s s'" "snd s' = snd s + len"
    "src \<noteq> 0 \<Longrightarrow> n \<noteq> 0 \<Longrightarrow> p \<noteq> 0 \<and> (\<forall>i<unat n. group_copied m0 src (fst s') p (p + 16 * unat n) (snd s') i) \<and>
           p + 16 * unat n \<le> snd s'"
    by blast+
qed

lemma group_copied_later:
  assumes "group_copied m0 src (fst s) p (p + 16 * n) (snd s) i" and "i < n" and "p + 16 * n \<le> snd s" and "grows B T s s'"
  shows "group_copied m0 src (fst s') p (p + 16 * n) (snd s') i"
proof (rule group_copied_keep [OF assms(1)])
  show "snd s \<le> snd s'" using assms(4) by (simp add: grows_def)
  show "bytes (fst s') (p + 16 * i) 12 = bytes (fst s) (p + 16 * i) 12"
    by (rule grows_bytes [OF assms(4)]) (use assms(2,3) in simp)
  show "fst s' x = fst s x" if "x < snd s" for x using assms(4) that by (simp add: grows_def)
qed

lemma opt_block_grows:
  assumes "same_outside B T m0 (fst s)" and "c \<longrightarrow> apart src len B T" and "B \<le> snd s"
    and "snd s + (if c then len else 0) \<le> B + T"
    and "(if c then put_block src len s else (q, s)) = (p, s')"
  shows "grows B T s s'" and "snd s' = snd s + (if c then len else 0)"
    and "c \<longrightarrow> p = snd s \<and> bytes (fst s') p len = bytes m0 src len" and "\<not> c \<longrightarrow> p = q"
proof -
  have "grows B T s s' \<and> snd s' = snd s + (if c then len else 0) \<and>
      (c \<longrightarrow> p = snd s \<and> bytes (fst s') p len = bytes m0 src len) \<and> (\<not> c \<longrightarrow> p = q)"
  proof (cases c)
    case True
    then have e: "put_block src len s = (p, s')" "snd s + len \<le> B + T" using assms(4,5) by simp_all
    show ?thesis using put_block_grows [OF assms(1) mp [OF assms(2) True] assms(3) e(2,1)] True by simp
  next
    case False
    then show ?thesis using assms(3-5) by (simp add: grows_def)
  qed
  then show "grows B T s s'" "snd s' = snd s + (if c then len else 0)"
    "c \<longrightarrow> p = snd s \<and> bytes (fst s') p len = bytes m0 src len" "\<not> c \<longrightarrow> p = q"
    by blast+
qed

definition args_apart :: "mem \<Rightarrow> token_args \<Rightarrow> nat \<Rightarrow> nat \<Rightarrow> bool" where
  "args_apart m a B T \<longleftrightarrow>
     (\<forall>p\<in>{a_user a, a_primary_group a, a_owner a, a_integrity a}. p \<noteq> 0 \<longrightarrow> apart p (sid_size m p) B T) \<and>
     (a_groups a \<noteq> 0 \<longrightarrow> groups_apart m (a_groups a) (unat (a_group_count a)) B T) \<and>
     (a_privileges a \<noteq> 0 \<longrightarrow> apart (a_privileges a) (12 * unat (a_privilege_count a)) B T) \<and>
     (a_default_dacl a \<noteq> 0 \<longrightarrow> apart (a_default_dacl a) (acl_size m (a_default_dacl a)) B T)"

definition token_size :: "mem \<Rightarrow> token_args \<Rightarrow> nat" where
  "token_size m a = SIZEOF_TOKEN + token_variable_size m (a_user a) (a_groups a) (a_group_count a)
     (a_privilege_count a) (a_owner a) (a_primary_group a) (a_default_dacl a) (a_integrity a)"

lemma same_sid_bytes:
  assumes "p \<noteq> 0" and "q \<noteq> 0" and "bytes m' q (sid_size m p) = bytes m p (sid_size m p)"
  shows "same_sid m p m' q"
  using sid_bytes_region(1) [OF assms(3) [symmetric] order_refl] assms(1,2) by (simp add: same_sid_def)

lemma flags_from_privileges: "\<exists>f. sep_update_token_flags_from_privileges m t = t\<lparr>token_flags := f\<rparr>"
  by (auto simp: sep_update_token_flags_from_privileges_def)

lemma flags_from_groups:
  assumes "\<not> (groups t = 0 \<and> group_count t \<noteq> 0)"
  shows "\<exists>f. sep_update_token_flags_from_groups m admins t = Ret (t\<lparr>token_flags := f\<rparr>)"
proof -
  have "\<exists>f. (if P then Ret (t\<lparr>token_flags := x\<rparr>) else Ret t) = Ret (t\<lparr>token_flags := f\<rparr>)" for P x
    by (cases P) (auto intro: exI [of _ x] exI [of _ "token_flags t"])
  then show ?thesis
    unfolding sep_update_token_flags_from_groups_def if_not_P [OF assms] .
qed

lemma create_token_effect:
  assumes nz: "a_user a \<noteq> 0" "a_primary_group a \<noteq> 0" "B \<noteq> 0"
    and cnt: "a_group_count a \<noteq> 0 \<Longrightarrow> a_groups a \<noteq> 0"
    and fit: "B + token_size m a < 2 ^ 64" and ap: "args_apart m a B (token_size m a)"
  obtains t m' where "sep_create_token admins m next_id B a = Ret (Some t, m', next_id + 1)"
    and "same_outside B (token_size m a) m m'"
    and "same_sid m (a_user a) m' (user_sid t)" and "same_sid m (a_primary_group a) m' (primary_group t)"
    and "if a_owner a \<noteq> 0 then same_sid m (a_owner a) m' (owner t) else owner t = user_sid t"
    and "group_count t = a_group_count a" and "groups_copied m (a_groups a) (a_group_count a) m' (groups t)"
    and "groups t = 0 \<longleftrightarrow> a_group_count a = 0"
    and "privilege_count t = a_privilege_count a"
    and "if 0 < a_privilege_count a \<and> a_privileges a \<noteq> 0
         then privileges t \<noteq> 0 \<and> bytes m' (privileges t) (12 * unat (a_privilege_count a)) =
              bytes m (a_privileges a) (12 * unat (a_privilege_count a))
         else privileges t = 0"
    and "if a_default_dacl a \<noteq> 0
         then default_dacl t \<noteq> 0 \<and> bytes m' (default_dacl t) (acl_size m (a_default_dacl a)) =
              bytes m (a_default_dacl a) (acl_size m (a_default_dacl a))
         else default_dacl t = 0"
    and "integrity_level_index t = (if a_integrity a \<noteq> 0 then rtl_get_rid m (a_integrity a)
           else SECURITY_MANDATORY_MEDIUM_RID)"
    and "restricted_sid_count t = 0" and "restricted_sids t = 0"
    and "integrity_level_sid t = 0 \<longleftrightarrow> a_integrity a = 0"
    and "privileges t \<noteq> 0 \<longrightarrow> B \<le> privileges t \<and>
           privileges t + 12 * unat (a_privilege_count a) \<le> B + token_size m a"
proof -
  define T where "T = token_size m a"
  define m0 where "m0 = store_bytes m B (replicate T 0)"
  let ?lu = "sid_size m (a_user a)" and ?lp = "sid_size m (a_primary_group a)" and ?n = "a_group_count a"
    and ?pc = "a_privilege_count a"
  let ?lg = "if a_groups a \<noteq> 0 \<and> ?n \<noteq> 0 then 16 * unat ?n + groups_len m (a_groups a) (unat ?n) else 0"
  let ?cp = "0 < ?pc \<and> a_privileges a \<noteq> 0" and ?co = "a_owner a \<noteq> 0" and ?cd = "a_default_dacl a \<noteq> 0"
    and ?ci = "a_integrity a \<noteq> 0"
  let ?lo = "opt_sid_len m (a_owner a)" and ?li = "opt_sid_len m (a_integrity a)" 
    and ?ld = "if a_default_dacl a \<noteq> 0 then acl_size m (a_default_dacl a) else 0"
  have T: "T = 192 + ?lu + ?lp + ?lg + 12 * unat ?pc + ?lo + (if ?cd then ?ld else 0) + ?li"
    using nz by (simp add: T_def token_size_def SIZEOF_TOKEN_def token_variable_size_def unat_rtl_length_sid
        groups_len_def word_gt_0)
  have o: "opt_sid_len m p = (if p \<noteq> 0 then sid_size m p else 0)" for p
    by (simp add: opt_sid_len_def unat_rtl_length_sid)
  have so0: "same_outside B T m m0"
    by (auto simp: same_outside_def m0_def store_bytes_outside)
  note ap' = ap [folded T_def, unfolded args_apart_def]
  let ?s0 = "(m0, B + SIZEOF_TOKEN)"
  obtain pu s1 where e1: "put_block (a_user a) ?lu ?s0 = (pu, s1)" by (rule prod.exhaust)
  have b1: "B \<le> snd ?s0" "snd ?s0 + ?lu \<le> B + T" using T by (simp_all add: SIZEOF_TOKEN_def)
  note g1 = put_block_grows [OF _ _ b1 e1, of m]
  have G1: "grows B T ?s0 s1" "pu = B + 192" "snd s1 = B + 192 + ?lu" "bytes (fst s1) pu ?lu = bytes m (a_user a) ?lu"
    using g1 so0 ap' nz by (auto simp: SIZEOF_TOKEN_def)
  have so1: "same_outside B T m (fst s1)" using grows_same_outside [OF _ G1(1)] so0 by simp
  obtain pp s2 where e2: "put_block (a_primary_group a) ?lp s1 = (pp, s2)" by (rule prod.exhaust)
  have b2: "apart (a_primary_group a) ?lp B T" "B \<le> snd s1" "snd s1 + ?lp \<le> B + T"
    using T G1(3) ap' nz by auto
  note G2 = put_block_grows [OF so1 b2 e2]
  note so2 = grows_same_outside [OF so1 G2(1)]
  obtain pg s3 where e3: "put_groups (a_groups a) ?n s2 = (pg, s3)" by (rule prod.exhaust)
  have b3: "a_groups a \<noteq> 0 \<longrightarrow> groups_apart m (a_groups a) (unat ?n) B T" "B \<le> snd s2" "snd s2 \<noteq> 0"
      "snd s2 + ?lg \<le> B + T" "B + T < 2 ^ 64"
    using T G1(3) G2(3) ap' nz fit by (auto simp: T_def [symmetric])
  note G3 = put_groups_grows [OF so2 b3(1-3) refl b3(4,5) e3]
  note so3 = grows_same_outside [OF so2 G3(1)]
  obtain pr s4 where e4: "(if ?cp then put_block (a_privileges a) (12 * unat ?pc) s3 else (0, s3)) = (pr, s4)" by (rule prod.exhaust)
  have b4: "?cp \<longrightarrow> apart (a_privileges a) (12 * unat ?pc) B T" "B \<le> snd s3"
      "snd s3 + (if ?cp then 12 * unat ?pc else 0) \<le> B + T"
    using T G1(3) G2(3) G3(2) ap' by auto
  note G4 = opt_block_grows [OF so3 b4 e4]
  note so4 = grows_same_outside [OF so3 G4(1)]
  obtain po s5 where e5: "(if ?co then put_block (a_owner a) ?lo s4 else (pu, s4)) = (po, s5)" by (rule prod.exhaust)
  have l4: "snd s4 \<le> B + 192 + ?lu + ?lp + ?lg + 12 * unat ?pc" "B + 192 \<le> snd s4"
    using G1(3) G2(3) G3(2) G4(2) by auto
  have b5: "?co \<longrightarrow> apart (a_owner a) ?lo B T" "B \<le> snd s4" "snd s4 + (if ?co then ?lo else 0) \<le> B + T"
    using T l4 ap' o by auto
  note G5 = opt_block_grows [OF so4 b5 e5]
  note so5 = grows_same_outside [OF so4 G5(1)]
  obtain pd s6 where e6: "(if ?cd then put_block (a_default_dacl a) ?ld s5 else (0, s5)) = (pd, s6)" by (rule prod.exhaust)
  have b6: "?cd \<longrightarrow> apart (a_default_dacl a) ?ld B T" "B \<le> snd s5" "snd s5 + (if ?cd then ?ld else 0) \<le> B + T"
    using T l4 ap' o G5(2) by (auto split: if_splits)
  note G6 = opt_block_grows [OF so5 b6 e6]
  note so6 = grows_same_outside [OF so5 G6(1)]
  obtain pi s7 where e7: "(if ?ci then put_block (a_integrity a) ?li s6 else (0, s6)) = (pi, s7)" by (rule prod.exhaust)
  have b7: "?ci \<longrightarrow> apart (a_integrity a) ?li B T" "B \<le> snd s6" "snd s6 + (if ?ci then ?li else 0) \<le> B + T"
    using T l4 ap' o G5(2) G6(2) by (auto split: if_splits)
  note G7 = opt_block_grows [OF so6 b7 e7]
  note so7 = grows_same_outside [OF so6 G7(1)]
  define t0 where "t0 = \<lparr>token_source = a_source a, token_id = luid_new next_id 0,
                   authentication_id = a_auth a, parent_token_id = luid_new 0 0,
                   expiration_time = 0x7FFFFFFFFFFFFFFF, modified_id = luid_new next_id 0,
                   token_type = a_type a, impersonation_level = a_level a, token_flags = 0,
                   session_id = 0, user_sid = pu, group_count = a_group_count a,
                   groups = pg, restricted_sid_count = 0, restricted_sids = 0,
                   privilege_count = a_privilege_count a, privileges = pr, owner = po,
                   primary_group = pp, default_dacl = pd,
                   elevation_type = TokenElevationTypeDefault, elevation = 0, linked_token = 0,
                   integrity_level_sid = pi,
                   integrity_level_index = (if ?ci then rtl_get_rid (fst s7) (a_integrity a)
                                            else SECURITY_MANDATORY_MEDIUM_RID),
                   dynamic_charged = of_nat (token_variable_size m (a_user a) (a_groups a) (a_group_count a)
                     (a_privilege_count a) (a_owner a) (a_primary_group a) (a_default_dacl a) (a_integrity a)),
                   dynamic_available = 0\<rparr>"
  define t1 where "t1 = (if ?cp then sep_update_token_flags_from_privileges (fst s4) t0 else t0)"
  have lens: "unat (rtl_length_sid m (a_user a)) = ?lu" "unat (rtl_length_sid m (a_primary_group a)) = ?lp"
    using nz by (simp_all add: unat_rtl_length_sid)
  have run: "sep_create_token admins m next_id B a = bind_out (sep_update_token_flags_from_groups (fst s7) admins t1)
      (\<lambda>t''. Ret (Some t'', fst s7, next_id + 1))"
    unfolding sep_create_token_def Let_def lens token_size_def [symmetric] T_def [symmetric] m0_def [symmetric]
    by (simp only: nz simp_thms if_False e1 e2 e3 e4 e5 e6 e7 prod.case t0_def [symmetric] t1_def [symmetric])
  have "groups t1 = pg" "group_count t1 = ?n" by (simp_all add: t1_def t0_def sep_update_token_flags_from_privileges_def)
  moreover have pg0: "pg = 0 \<longleftrightarrow> ?n = 0" using G3(3,4) cnt by blast
  ultimately have nu: "\<not> (groups t1 = 0 \<and> group_count t1 \<noteq> 0)" by simp
  obtain f1 where f1: "t1 = t0\<lparr>token_flags := f1\<rparr>"
    using flags_from_privileges [of "fst s4" t0] t0_def by (cases ?cp) (auto simp: t1_def)
  obtain f where f: "sep_update_token_flags_from_groups (fst s7) admins t1 = Ret (t0\<lparr>token_flags := f\<rparr>)"
    using flags_from_groups [OF nu, of "fst s7" admins] f1 by auto
  have h7: "grows B T s6 s7" and h6: "grows B T s5 s7" and h5: "grows B T s4 s7" and h4: "grows B T s3 s7"
    and h3: "grows B T s2 s7" and h2: "grows B T s1 s7"
    using G2(1) G3(1) G4(1) G5(1) G6(1) G7(1) by (blast intro: grows_trans)+
  have user: "same_sid m (a_user a) (fst s7) pu"
    using nz G1 grows_bytes [OF h2, of pu ?lu] by (intro same_sid_bytes) simp_all
  have prim: "same_sid m (a_primary_group a) (fst s7) pp"
    using nz G1(3) G2 grows_bytes [OF h3, of pp ?lp] by (intro same_sid_bytes) simp_all
  have own: "if ?co then same_sid m (a_owner a) (fst s7) po else po = pu"
    using nz l4(2) o G5 grows_bytes [OF h6, of po ?lo] by (auto intro!: same_sid_bytes)
  have gr: "groups_copied m (a_groups a) ?n (fst s7) pg"
    unfolding groups_copied_def
  proof (intro allI impI)
    fix i assume i: "i < unat ?n"
    then have n: "?n \<noteq> 0" by auto
    have c: "(\<forall>i<unat ?n. group_copied m (a_groups a) (fst s3) pg (pg + 16 * unat ?n) (snd s3) i) \<and>
        pg + 16 * unat ?n \<le> snd s3"
      using G3(4) cnt [OF n] n by blast
    have "group_copied m (a_groups a) (fst s7) pg (pg + 16 * unat ?n) (snd s7) i"
      by (rule group_copied_later [OF _ i _ h4]) (use c i in simp_all)
    then show "sa_attributes (fst s7) pg i = sa_attributes m (a_groups a) i \<and>
        same_sid m (sa_sid m (a_groups a) i) (fst s7) (sa_sid (fst s7) pg i)"
      by (simp add: group_copied_def)
  qed
  have s3nz: "snd s3 \<noteq> 0" using G1(3) G2(3) G3(2) nz by simp
  have pv: "if ?cp then pr \<noteq> 0 \<and> bytes (fst s7) pr (12 * unat ?pc) = bytes m (a_privileges a) (12 * unat ?pc) else pr = 0"
  proof (cases ?cp)
    case True
    have g: "pr = snd s3 \<and> bytes (fst s4) pr (12 * unat ?pc) = bytes m (a_privileges a) (12 * unat ?pc)"
      using G4(3) True by blast
    have "bytes (fst s7) pr (12 * unat ?pc) = bytes (fst s4) pr (12 * unat ?pc)"
      by (rule grows_bytes [OF h5]) (use g G4(2) True in simp)
    then have "pr \<noteq> 0 \<and> bytes (fst s7) pr (12 * unat ?pc) = bytes m (a_privileges a) (12 * unat ?pc)"
      using g s3nz by metis
    then show ?thesis using True by (simp only: if_True simp_thms)
  next
    case False
    then have "pr = 0" using G4(4) by blast
    then show ?thesis using False by (simp only: if_False)
  qed
  have loc: "pr \<noteq> 0 \<longrightarrow> B \<le> pr \<and> pr + 12 * unat ?pc \<le> B + T"
    using G4(3,4) b4(2,3) by (cases ?cp) auto
  have s5nz: "snd s5 \<noteq> 0" using l4(2) G5(2) nz by simp
  have da: "if ?cd then pd \<noteq> 0 \<and> bytes (fst s7) pd (acl_size m (a_default_dacl a)) =
      bytes m (a_default_dacl a) (acl_size m (a_default_dacl a)) else pd = 0"
  proof (cases ?cd)
    case True
    have g: "pd = snd s5 \<and> bytes (fst s6) pd (acl_size m (a_default_dacl a)) =
        bytes m (a_default_dacl a) (acl_size m (a_default_dacl a))"
      using mp [OF G6(3) True] unfolding if_P [OF True] .
    have "bytes (fst s7) pd (acl_size m (a_default_dacl a)) = bytes (fst s6) pd (acl_size m (a_default_dacl a))"
      by (rule grows_bytes [OF h7]) (use g G6(2) True in simp)
    then have "pd \<noteq> 0 \<and> bytes (fst s7) pd (acl_size m (a_default_dacl a)) =
        bytes m (a_default_dacl a) (acl_size m (a_default_dacl a))"
      using g s5nz by metis
    then show ?thesis using True by (simp only: if_True simp_thms)
  next
    case False
    then have "pd = 0" using G6(4) by blast
    then show ?thesis using False by (simp only: if_False)
  qed
  have s6nz: "snd s6 \<noteq> 0" using s5nz G6(2) by simp
  have pi0: "pi = 0 \<longleftrightarrow> \<not> ?ci" using G7(3,4) s6nz by auto
  have rid: "rtl_get_rid (fst s7) (a_integrity a) = rtl_get_rid m (a_integrity a)" if ?ci
  proof -
    have "bytes m (a_integrity a) (sid_size m (a_integrity a)) = bytes (fst s7) (a_integrity a) (sid_size m (a_integrity a))"
      using same_outside_bytes [OF so7, of "a_integrity a" "sid_size m (a_integrity a)"] ap' that by auto
    from sid_bytes_region(1) [OF this order_refl] show ?thesis by (rule rid_eq) (use that in simp_all)
  qed
  show ?thesis
    by (rule that [of "t0\<lparr>token_flags := f\<rparr>" "fst s7"])
       (use run f so7 user prim own gr pv da rid pi0 pg0 loc in
         \<open>simp_all add: t0_def T_def\<close>)
qed

section \<open>Filtering a token\<close>

definition DISABLE_MAX_PRIVILEGE :: u32 where "DISABLE_MAX_PRIVILEGE = 1"
definition SANDBOX_INERT :: u32 where "SANDBOX_INERT = 2"

text \<open>
  \<open>TOKEN_PRIVILEGES_ARRAY\<close> holds its count at 0 and \<open>privileges: [LUID_AND_ATTRIBUTES; 1]\<close> at 4:
  indexing it is checked against the length 1. \<open>TOKEN_GROUPS_ARRAY\<close> holds its count at 0.
\<close>

fun delete_scan :: "mem \<Rightarrow> LUID \<Rightarrow> nat \<Rightarrow> nat list \<Rightarrow> bool outcome" where
  "delete_scan m luid arr [] = Ret False"
| "delete_scan m luid arr (j # js) =
     (if 1 \<le> j then Panic
      else if luid = la_luid m (arr + 4) j then Ret True
      else delete_scan m luid arr js)"

fun count_remaining :: "mem \<Rightarrow> nat \<Rightarrow> nat \<Rightarrow> nat \<Rightarrow> nat list \<Rightarrow> u32 \<Rightarrow> u32 outcome" where
  "count_remaining m privs arr delete_count [] rest = Ret rest"
| "count_remaining m privs arr delete_count (i # is') rest =
     bind_out (delete_scan m (la_luid m privs i) arr [0..<delete_count])
       (\<lambda>hit. count_remaining m privs arr delete_count is' (if hit then rest - 1 else rest))"

definition sep_count_remaining_privileges :: "mem \<Rightarrow> TOKEN \<Rightarrow> nat \<Rightarrow> u32 outcome" where
  "sep_count_remaining_privileges m t privileges_to_delete =
     (if privileges_to_delete = 0 then Ret (privilege_count t)
      else let delete_count = unat (ld32 m privileges_to_delete) in
        if delete_count = 0 then Ret (privilege_count t)
        else count_remaining m (privileges t) privileges_to_delete delete_count
               [0..<unat (privilege_count t)] (privilege_count t))"

definition sep_create_filtered_groups :: "TOKEN \<Rightarrow> nat \<Rightarrow> nat" where
  "sep_create_filtered_groups t sids_to_disable =
     (if sids_to_disable = 0 \<or> groups t = 0 then groups t else groups t)"

definition sep_create_filtered_privileges :: "TOKEN \<Rightarrow> nat \<Rightarrow> nat" where
  "sep_create_filtered_privileges t privileges_to_delete =
     (if privileges_to_delete = 0 \<or> privileges t = 0 then privileges t else privileges t)"

definition sep_set_restricted_sids :: "mem \<Rightarrow> TOKEN \<Rightarrow> nat \<Rightarrow> TOKEN" where
  "sep_set_restricted_sids m t restricted =
     (if restricted = 0 then t
      else let count = ld32 m restricted in
        if count = 0 then t else t\<lparr>restricted_sid_count := count\<rparr>)"

definition filtered_args :: "TOKEN \<Rightarrow> u32 \<Rightarrow> nat \<Rightarrow> nat \<Rightarrow> u32 \<Rightarrow> token_args" where
  "filtered_args src flags sids_to_disable privileges_to_delete priv_count =
     (let new_groups = sep_create_filtered_groups src sids_to_disable;
          new_privs = (if flags AND DISABLE_MAX_PRIVILEGE \<noteq> 0 then 0
                       else sep_create_filtered_privileges src privileges_to_delete)
      in \<lparr>a_type = token_type src, a_level = impersonation_level src, a_auth = authentication_id src,
          a_user = user_sid src, a_groups = (if new_groups \<noteq> 0 then new_groups else groups src),
          a_group_count = group_count src, a_privileges = (if new_privs \<noteq> 0 then new_privs else 0),
          a_privilege_count = priv_count, a_owner = owner src, a_primary_group = primary_group src,
          a_default_dacl = default_dacl src, a_source = token_source src,
          a_integrity = integrity_level_sid src\<rparr>)"

text \<open>
  The two tokens are records, \<open>existing_token\<close> and \<open>token_ptr\<close> their addresses, \<open>new_token\<close> the
  address the new pointer is stored to. The result: status, the existing token, the new one,
  memory, id counter, and the objects a reference was taken on, in order.
\<close>

record filter_result =
  fr_status :: ntstatus
  fr_existing :: TOKEN
  fr_new :: "TOKEN option"
  fr_mem :: mem
  fr_next_id :: u32
  fr_referenced :: "nat list"

definition se_filter_token ::
  "nat \<Rightarrow> mem \<Rightarrow> u32 \<Rightarrow> nat \<Rightarrow> nat \<Rightarrow> TOKEN \<Rightarrow> u32 \<Rightarrow> nat \<Rightarrow> nat \<Rightarrow> nat \<Rightarrow> nat \<Rightarrow> filter_result outcome" where
  "se_filter_token admins m next_id token_ptr existing_token src flags sids_to_disable
      privileges_to_delete restricted new_token =
     (if existing_token = 0 \<or> new_token = 0
      then Ret \<lparr>fr_status = STATUS_INVALID_HANDLE, fr_existing = src, fr_new = None, fr_mem = m,
                fr_next_id = next_id, fr_referenced = []\<rparr>
      else
        let m1 = stptr m new_token 0 in
        bind_out (if flags AND DISABLE_MAX_PRIVILEGE \<noteq> 0 then Ret 0
                  else sep_count_remaining_privileges m1 src privileges_to_delete) (\<lambda>priv_count.
        let restricted_count = (if restricted \<noteq> 0 then ld32 m1 restricted else 0) in
        bind_out (sep_create_token admins m1 next_id token_ptr
                    (filtered_args src flags sids_to_disable privileges_to_delete priv_count))
          (\<lambda>(token, m2, next_id').
          case token of
            None \<Rightarrow> Ret \<lparr>fr_status = STATUS_INSUFFICIENT_RESOURCES, fr_existing = src, fr_new = None,
                          fr_mem = m2, fr_next_id = next_id', fr_referenced = []\<rparr>
          | Some t \<Rightarrow>
              let t1 = (if 0 < restricted_count \<and> restricted \<noteq> 0 then sep_set_restricted_sids m2 t restricted else t);
                  f1 = token_flags t1 OR TOKEN_IS_FILTERED;
                  f2 = (if flags AND TOKEN_SANDBOX_INERT \<noteq> 0 then f1 OR TOKEN_SANDBOX_INERT else f1);
                  t2 = t1\<lparr>token_flags := f2, elevation_type := TokenElevationTypeLimited, elevation := 0,
                          linked_token := existing_token\<rparr>;
                  src' = src\<lparr>elevation_type := TokenElevationTypeFull, elevation := 1,
                            linked_token := token_ptr\<rparr>
              in Ret \<lparr>fr_status = STATUS_SUCCESS, fr_existing = src', fr_new = Some t2,
                      fr_mem = stptr m2 new_token token_ptr, fr_next_id = next_id',
                      fr_referenced = [existing_token, token_ptr]\<rparr>)))"

definition se_get_linked_token :: "TOKEN option \<Rightarrow> nat" where
  "se_get_linked_token token = (case token of None \<Rightarrow> 0 | Some t \<Rightarrow> linked_token t)"

text \<open>\<open>Inl p\<close> is a dereference of object \<open>p\<close>, \<open>Inr p\<close> a reference.\<close>

definition sep_set_linked_token :: "TOKEN option \<Rightarrow> nat \<Rightarrow> TOKEN option \<times> (nat + nat) list" where
  "sep_set_linked_token token linked =
     (case token of
        None \<Rightarrow> (None, [])
      | Some t \<Rightarrow> (Some (t\<lparr>linked_token := linked\<rparr>),
          (if linked_token t \<noteq> 0 then [Inl (linked_token t)] else []) @ (if linked \<noteq> 0 then [Inr linked] else [])))"

section \<open>Properties\<close>

lemma group_membership:
  assumes "groups_copied m src n m' dst" and "dst = 0 \<longleftrightarrow> n = 0" and "n \<noteq> 0 \<Longrightarrow> src \<noteq> 0"
    and "sid_bytes m' sid = sid_bytes m sid"
  shows "sep_sid_in_token m' dst n sid d = sep_sid_in_token m src n sid d"
proof -
  have "group_attributes_match d (sa_attributes m' dst i) \<and> rtl_equal_sid m' (sa_sid m' dst i) sid \<longleftrightarrow>
        group_attributes_match d (sa_attributes m src i) \<and> rtl_equal_sid m (sa_sid m src i) sid" if "i < unat n" for i
    using assms(1,4) that by (auto simp: groups_copied_def same_sid_def rtl_equal_sid_eq)
  then show ?thesis
    using assms(2,3) by (auto simp: sep_sid_in_token_def list_ex_iff)
qed

lemma privilege_array_eq:
  assumes "bytes m' p (12 * n) = bytes m q (12 * n)" and "i < n"
  shows "la_luid m' p i = la_luid m q i" and "la_attributes m' p i = la_attributes m q i"
proof -
  have b: "bytes m' (p + 12 * i) 12 = bytes m (q + 12 * i) 12"
    using bytes_sub [OF assms(1), of "12 * i" 12] assms(2) by simp
  show "la_luid m' p i = la_luid m q i" "la_attributes m' p i = la_attributes m q i"
    using ld_bytes_eq(3) [OF b, of 0] ld_bytes_eq(3) [OF b, of 4] ld_bytes_eq(3) [OF b, of 8]
    by (simp_all add: la_luid_def la_attributes_def)
qed

lemma has_privilege_eq:
  assumes "bytes m' p (12 * unat n) = bytes m q (12 * unat n)" and "p = 0 \<longleftrightarrow> q = 0"
  shows "sep_token_has_privilege m' p n luid = sep_token_has_privilege m q n luid"
proof -
  note e = privilege_array_eq [OF assms(1)]
  have f: "List.find (\<lambda>i. la_luid m' p i = luid) [0..<unat n] = List.find (\<lambda>i. la_luid m q i = luid) [0..<unat n]"
    by (rule find_cong) (simp_all add: e(1))
  show ?thesis
  proof (cases "List.find (\<lambda>i. la_luid m q i = luid) [0..<unat n]")
    case None
    then show ?thesis using f assms(2) by (simp add: sep_token_has_privilege_def)
  next
    case (Some i)
    then have "i < unat n" by (auto simp: find_Some_iff)
    with Some f assms(2) e(2) show ?thesis by (simp add: sep_token_has_privilege_def)
  qed
qed

text \<open>
  C15. \<open>SepCreateToken\<close> captures its inputs. With all sources outside the new pool block and
  neither the user nor the primary group null, it succeeds and writes only into the block; user,
  primary group and owner are equal SIDs, membership of any SID among the token's groups and
  possession of any privilege are as in the arrays it was given, and the integrity level is the
  RID of the integrity SID, or medium without one.
\<close>

theorem sep_create_token_faithful:
  assumes "a_user a \<noteq> 0" and "a_primary_group a \<noteq> 0" and "B \<noteq> 0"
    and "a_group_count a \<noteq> 0 \<longrightarrow> a_groups a \<noteq> 0" and "a_privilege_count a \<noteq> 0 \<longrightarrow> a_privileges a \<noteq> 0"
    and "B + token_size m a < 2 ^ 64" and "args_apart m a B (token_size m a)"
  shows "\<exists>t m'. sep_create_token admins m next_id B a = Ret (Some t, m', next_id + 1) \<and>
           same_outside B (token_size m a) m m' \<and>
           same_sid m (a_user a) m' (user_sid t) \<and> same_sid m (a_primary_group a) m' (primary_group t) \<and>
           (if a_owner a \<noteq> 0 then same_sid m (a_owner a) m' (owner t) else owner t = user_sid t) \<and>
           (\<forall>sid d. apart sid (sid_size m sid) B (token_size m a) \<longrightarrow>
              sep_sid_in_token m' (groups t) (group_count t) sid d =
              sep_sid_in_token m (a_groups a) (a_group_count a) sid d) \<and>
           (\<forall>luid. sep_token_has_privilege m' (privileges t) (privilege_count t) luid =
              sep_token_has_privilege m (a_privileges a) (a_privilege_count a) luid) \<and>
           integrity_level t = (if a_integrity a \<noteq> 0 then rtl_get_rid m (a_integrity a)
                                else SECURITY_MANDATORY_MEDIUM_RID)"
proof -
  let ?T = "token_size m a"
  have gc: "a_group_count a \<noteq> 0 \<Longrightarrow> a_groups a \<noteq> 0" using assms(4) by blast
  obtain t m' where c: "sep_create_token admins m next_id B a = Ret (Some t, m', next_id + 1)"
    "same_outside B ?T m m'"
    "same_sid m (a_user a) m' (user_sid t)" "same_sid m (a_primary_group a) m' (primary_group t)"
    "if a_owner a \<noteq> 0 then same_sid m (a_owner a) m' (owner t) else owner t = user_sid t"
    "group_count t = a_group_count a" "groups_copied m (a_groups a) (a_group_count a) m' (groups t)"
    "groups t = 0 \<longleftrightarrow> a_group_count a = 0" "privilege_count t = a_privilege_count a"
    "if 0 < a_privilege_count a \<and> a_privileges a \<noteq> 0
         then privileges t \<noteq> 0 \<and> bytes m' (privileges t) (12 * unat (a_privilege_count a)) =
              bytes m (a_privileges a) (12 * unat (a_privilege_count a)) else privileges t = 0"
    "integrity_level_index t = (if a_integrity a \<noteq> 0 then rtl_get_rid m (a_integrity a)
           else SECURITY_MANDATORY_MEDIUM_RID)"
    by (rule create_token_effect [OF assms(1-3) gc assms(6,7)]) blast+
  have mem: "sep_sid_in_token m' (groups t) (group_count t) sid d =
      sep_sid_in_token m (a_groups a) (a_group_count a) sid d" if "apart sid (sid_size m sid) B ?T" for sid d
  proof -
    have "bytes m sid (sid_size m sid) = bytes m' sid (sid_size m sid)"
      using same_outside_bytes [OF c(2) that] by simp
    from sid_bytes_region(1) [OF this order_refl] show ?thesis
      unfolding c(6) using c(7,8) gc by (intro group_membership) simp_all
  qed
  have prv: "sep_token_has_privilege m' (privileges t) (privilege_count t) luid =
      sep_token_has_privilege m (a_privileges a) (a_privilege_count a) luid" for luid
  proof (cases "a_privilege_count a = 0")
    case True
    then show ?thesis using c(9) by (simp add: sep_token_has_privilege_def)
  next
    case False
    then have "0 < a_privilege_count a \<and> a_privileges a \<noteq> 0" using assms(5) by (simp add: word_gt_0)
    with c(10) have "privileges t \<noteq> 0" "bytes m' (privileges t) (12 * unat (a_privilege_count a)) =
              bytes m (a_privileges a) (12 * unat (a_privilege_count a))" by simp_all
    then show ?thesis unfolding c(9) using assms(5) False by (intro has_privilege_eq) simp_all
  qed
  show ?thesis
    using c(1-5,11) mem prv by (auto simp: integrity_level_def)
qed

text \<open>A token of one group and one privilege, its sources at 0x100 to 0x400, the block at 0x10000.\<close>

definition demo_token_mem :: mem where
  "demo_token_mem = st32 (stptr (store_bytes (store_bytes (\<lambda>_. 0) 0x100 [1, 1, 0, 0, 0, 0, 0, 5, 18, 0, 0, 0])
      0x300 [8, 0, 0, 0, 0, 0, 0, 0, 2, 0, 0, 0, 9, 0, 0, 0, 0, 0, 0, 0, 2, 0, 0, 0]) 0x200 0x100) 0x208 4"

definition demo_args :: token_args where
  "demo_args = \<lparr>a_type = TokenPrimary, a_level = SecurityAnonymous, a_auth = luid_new 0x3e7 0, a_user = 0x100,
     a_groups = 0x200, a_group_count = 1, a_privileges = 0x300, a_privilege_count = 1, a_owner = 0,
     a_primary_group = 0x100, a_default_dacl = 0,
     a_source = \<lparr>source_name = [], source_identifier = luid_new 0 0\<rparr>, a_integrity = 0\<rparr>"

lemma demo_token_facts:
  "sid_size demo_token_mem 0x100 = 12" "sa_sid demo_token_mem 0x200 0 = 0x100" "token_size demo_token_mem demo_args = 256"
  by code_simp+

lemma demo_args_apart: "args_apart demo_token_mem demo_args 0x10000 256"
  using demo_token_facts(1,2) unfolding args_apart_def groups_apart_def
  by (simp add: demo_args_def apart_def)

theorem sep_create_token_faithful_witness:
  "\<exists>t m'. sep_create_token 0 demo_token_mem 5 0x10000 demo_args = Ret (Some t, m', 6) \<and>
     same_sid demo_token_mem 0x100 m' (user_sid t) \<and> integrity_level t = SECURITY_MANDATORY_MEDIUM_RID \<and>
     sep_sid_in_token m' (groups t) (group_count t) 0x100 False \<and>
     sep_token_has_privilege m' (privileges t) (privilege_count t) SE_SECURITY_LUID"
proof -
  have h: "a_user demo_args = 0x100" "a_primary_group demo_args = 0x100" "a_groups demo_args = 0x200"
    "a_group_count demo_args = 1" "a_privileges demo_args = 0x300" "a_privilege_count demo_args = 1"
    "a_integrity demo_args = 0"
    by (simp_all add: demo_args_def)
  have g: "sep_sid_in_token demo_token_mem 0x200 1 0x100 False"
    "sep_token_has_privilege demo_token_mem 0x300 1 SE_SECURITY_LUID"
    by code_simp+
  have ap: "apart 0x100 (sid_size demo_token_mem 0x100) 0x10000 256" by (simp add: demo_token_facts apart_def)
  show ?thesis
    using sep_create_token_faithful [where a = demo_args and B = "0x10000" and m = demo_token_mem and admins = 0 and next_id = 5] g ap
    unfolding demo_token_facts(3) by (fastforce simp: h demo_args_apart)
qed


lemma count_remaining_one:
  "count_remaining m privs arr (Suc 0) js rest =
     Ret (rest - of_nat (length (filter (\<lambda>i. la_luid m privs i = la_luid m (arr + 4) 0) js)))"
  by (induction js arbitrary: rest) (simp_all add: algebra_simps)

lemma count_remaining_panic:
  assumes "2 \<le> n" and "la_luid m privs i \<noteq> la_luid m (arr + 4) 0"
  shows "count_remaining m privs arr n (i # js) rest = Panic"
proof -
  have "[0..<n] = 0 # 1 # [2..<n]" using assms(1) by (simp add: upt_rec numeral_2_eq_2)
  then show ?thesis using assms(2) by simp
qed

text \<open>
  Filtering with more than one privilege to delete panics: when the array asks to delete two
  or more privileges and the first privilege of the token is not the first of the array, the
  second element is indexed in an array type of length 1.
\<close>

theorem filter_token_panics:
  assumes "existing \<noteq> 0" and "new_token \<noteq> 0" and "flags AND DISABLE_MAX_PRIVILEGE = 0"
    and "arr \<noteq> 0" and "2 \<le> unat (ld32 (stptr m new_token 0) arr)" and "privilege_count src \<noteq> 0"
    and "la_luid (stptr m new_token 0) (privileges src) 0 \<noteq> la_luid (stptr m new_token 0) (arr + 4) 0"
  shows "se_filter_token admins m next_id B existing src flags sids arr restricted new_token = Panic"
proof -
  have "0 < unat (privilege_count src)" using assms(6) by (simp add: unat_gt_0)
  then have "[0..<unat (privilege_count src)] = 0 # [1..<unat (privilege_count src)]"
    by (simp add: upt_rec)
  then have "sep_count_remaining_privileges (stptr m new_token 0) src arr = Panic"
    using assms(4,5) count_remaining_panic [OF assms(5,7)]
    by (simp add: sep_count_remaining_privileges_def Let_def)
  then show ?thesis using assms(1-3) by (simp add: se_filter_token_def Let_def)
qed

theorem filter_token_panics_witness:
  "\<exists>m src. privilege_count src = 1 \<and>
     se_filter_token 0 m 5 0x10000 0x1000 src 0 0 0x400 0 0x2000 = Panic"
proof -
  define m :: mem where "m = st32 (\<lambda>_. 0) 0x400 2"
  define src where "src = \<lparr>token_source = \<lparr>source_name = [], source_identifier = luid_new 0 0\<rparr>,
      token_id = luid_new 0 0, authentication_id = luid_new 0 0, parent_token_id = luid_new 0 0,
      expiration_time = 0, modified_id = luid_new 0 0, token_type = TokenPrimary,
      impersonation_level = SecurityAnonymous, token_flags = 0, session_id = 0, user_sid = 0x100,
      group_count = 0, groups = 0, restricted_sid_count = 0, restricted_sids = 0, privilege_count = 1,
      privileges = 0x400, owner = 0, primary_group = 0x100, default_dacl = 0,
      elevation_type = TokenElevationTypeDefault, elevation = 0, linked_token = 0,
      integrity_level_sid = 0, integrity_level_index = 0, dynamic_charged = 0, dynamic_available = 0\<rparr>"
  have "privilege_count src = 1" "privileges src = 0x400" by (simp_all add: src_def)
  moreover have "ld32 (stptr m 0x2000 0) 0x400 = 2" "la_luid (stptr m 0x2000 0) 0x400 0 \<noteq> la_luid (stptr m 0x2000 0) 0x404 0"
    unfolding m_def by code_simp+
  ultimately show ?thesis
    using filter_token_panics [where existing = "0x1000" and new_token = "0x2000" and flags = 0 and arr = "0x400" and m = m and src = src]
    by (intro exI [of _ m] exI [of _ src]) simp
qed

text \<open>
  The filtered token keeps the privilege it should lose. \<open>SeFilterToken\<close> counts the
  privileges left after the deletion but hands the original array to \<open>SepCreateToken\<close>: asked to
  delete the first of several privileges, it returns success with a token whose privilege count
  is one less, in which the deleted privilege is still there, enabled or not as before, and the
  last privilege of the original is gone instead.
\<close>

theorem filter_token_keeps_deleted_privilege:
  assumes "existing \<noteq> 0" and "new_token \<noteq> 0" and "flags AND DISABLE_MAX_PRIVILEGE = 0"
    and "mz = stptr m new_token 0" and "arr \<noteq> 0" and "ld32 mz arr = 1" and "2 \<le> unat (privilege_count src)"
    and "la_luid mz (arr + 4) 0 = luid" and "la_luid mz (privileges src) 0 = luid"
    and "\<forall>i. 0 < i \<and> i < unat (privilege_count src) \<longrightarrow> la_luid mz (privileges src) i \<noteq> luid"
    and "a = filtered_args src flags sids arr (privilege_count src - 1)" and "privileges src \<noteq> 0"
    and "user_sid src \<noteq> 0" and "primary_group src \<noteq> 0" and "B \<noteq> 0" and "group_count src \<noteq> 0 \<longrightarrow> groups src \<noteq> 0"
    and "B + token_size mz a < 2 ^ 64" and "args_apart mz a B (token_size mz a)"
    and "apart new_token 8 B (token_size mz a)"
  shows "\<exists>r t. se_filter_token admins m next_id B existing src flags sids arr 0 new_token = Ret r \<and>
           fr_status r = STATUS_SUCCESS \<and> fr_new r = Some t \<and>
           privilege_count t = privilege_count src - 1 \<and>
           la_luid (fr_mem r) (privileges t) 0 = luid \<and>
           sep_token_has_privilege (fr_mem r) (privileges t) (privilege_count t) luid =
             sep_token_has_privilege mz (privileges src) (privilege_count src) luid"
proof -
  let ?n = "privilege_count src" and ?p = "privileges src" and ?T = "token_size mz a"
  have n: "unat (?n - 1) = unat ?n - 1" using assms(7) by (simp add: unat_sub word_le_nat_alt)
  have "[0..<unat ?n] = 0 # [1..<unat ?n]" using assms(7) by (simp add: upt_rec)
  moreover have "filter (\<lambda>i. la_luid mz ?p i = luid) [1..<unat ?n] = []"
    using assms(10) by (auto simp: filter_empty_conv)
  ultimately have cnt: "sep_count_remaining_privileges mz src arr = Ret (?n - 1)"
    using assms(5-9) by (simp add: sep_count_remaining_privileges_def Let_def count_remaining_one)
  have f: "a_user a = user_sid src" "a_primary_group a = primary_group src" "a_groups a = groups src"
    "a_group_count a = group_count src" "a_privileges a = ?p" "a_privilege_count a = ?n - 1"
    using assms(3,11,12)
    by (simp_all add: filtered_args_def Let_def sep_create_filtered_groups_def sep_create_filtered_privileges_def)
  have nz: "a_user a \<noteq> 0" "a_primary_group a \<noteq> 0" and gc: "a_group_count a \<noteq> 0 \<Longrightarrow> a_groups a \<noteq> 0"
    using f assms(13,14,16) by simp_all
  obtain t m' where c: "sep_create_token admins mz next_id B a = Ret (Some t, m', next_id + 1)"
    "same_outside B ?T mz m'" "privilege_count t = a_privilege_count a"
    "if 0 < a_privilege_count a \<and> a_privileges a \<noteq> 0
         then privileges t \<noteq> 0 \<and> bytes m' (privileges t) (12 * unat (a_privilege_count a)) =
              bytes mz (a_privileges a) (12 * unat (a_privilege_count a)) else privileges t = 0"
    "privileges t \<noteq> 0 \<longrightarrow> B \<le> privileges t \<and> privileges t + 12 * unat (a_privilege_count a) \<le> B + ?T"
    by (rule create_token_effect [OF nz assms(15) gc assms(17,18), of admins next_id]) blast
  have pc: "0 < ?n - 1" using assms(7) n by (simp add: word_gt_0 unat_gt_0 flip: unat_eq_0)
  then have p: "privileges t \<noteq> 0" "bytes m' (privileges t) (12 * unat (?n - 1)) = bytes mz ?p (12 * unat (?n - 1))"
    using c(4) assms(12) f(5,6) by simp_all
  let ?m = "stptr m' new_token B"
  have "bytes ?m (privileges t) (12 * unat (?n - 1)) = bytes m' (privileges t) (12 * unat (?n - 1))"
    unfolding stptr_def st64_def using c(5) p(1) assms(19) f(6)
    by (intro bytes_store_disj) (auto simp: apart_def)
  then have b: "bytes ?m (privileges t) (12 * unat (?n - 1)) = bytes mz ?p (12 * unat (?n - 1))" using p(2) by simp
  note e = privilege_array_eq [OF b, of 0]
  have e0: "la_luid ?m (privileges t) 0 = luid" "la_attributes ?m (privileges t) 0 = la_attributes mz ?p 0"
    using e n assms(7,9) by simp_all
  have find0: "List.find (\<lambda>i. la_luid M q i = luid) [0..<k] = Some 0" if "la_luid M q 0 = luid" "0 < k" for M q k
    using that by (simp add: upt_rec)
  have held: "sep_token_has_privilege ?m (privileges t) (?n - 1) luid = sep_token_has_privilege mz ?p ?n luid"
    using find0 [OF e0(1), of "unat (?n - 1)"] find0 [OF assms(9), of "unat ?n"] e0(2) p(1) pc n assms(7,12)
    by (auto simp: sep_token_has_privilege_def)
  show ?thesis
    using assms(1-4) cnt c(1,3) f(6) e0(1) held
    by (simp add: se_filter_token_def Let_def assms(11) [symmetric])
qed

text \<open>Two privileges at 0x300; the array at 0x3fc asks to delete the first.\<close>

definition demo_filter_mem :: mem where
  "demo_filter_mem = st32 (st32 demo_token_mem 0x3fc 1) 0x400 8"

definition demo_src :: TOKEN where
  "demo_src = \<lparr>token_source = \<lparr>source_name = [], source_identifier = luid_new 0 0\<rparr>,
      token_id = luid_new 0 0, authentication_id = luid_new 0 0, parent_token_id = luid_new 0 0,
      expiration_time = 0, modified_id = luid_new 0 0, token_type = TokenPrimary,
      impersonation_level = SecurityAnonymous, token_flags = 0, session_id = 0, user_sid = 0x100,
      group_count = 0, groups = 0, restricted_sid_count = 0, restricted_sids = 0, privilege_count = 2,
      privileges = 0x300, owner = 0, primary_group = 0x100, default_dacl = 0,
      elevation_type = TokenElevationTypeDefault, elevation = 0, linked_token = 0,
      integrity_level_sid = 0, integrity_level_index = 0, dynamic_charged = 0, dynamic_available = 0\<rparr>"

theorem filter_token_keeps_deleted_privilege_witness:
  "\<exists>r t. se_filter_token 0 demo_filter_mem 5 0x10000 0x1000 demo_src 0 0 0x3fc 0 0x2000 = Ret r \<and>
     fr_status r = STATUS_SUCCESS \<and> fr_new r = Some t \<and> privilege_count t = 1 \<and>
     sep_token_has_privilege (fr_mem r) (privileges t) (privilege_count t) SE_SECURITY_LUID"
proof -
  define m1 where "m1 = stptr demo_filter_mem 0x2000 0"
  define a where "a = filtered_args demo_src 0 0 0x3fc (privilege_count demo_src - 1)"
  have c: "ld32 m1 0x3fc = 1" "la_luid m1 (0x3fc + 4) 0 = SE_SECURITY_LUID" "la_luid m1 0x300 0 = SE_SECURITY_LUID"
    "la_luid m1 0x300 1 \<noteq> SE_SECURITY_LUID" "sid_size m1 0x100 = 12"
    unfolding m1_def by code_simp+
  have h: "sep_token_has_privilege m1 0x300 2 SE_SECURITY_LUID"
    unfolding m1_def by code_simp
  have sz: "token_size m1 a = 228"
    unfolding m1_def a_def by code_simp
  have s: "privilege_count demo_src = 2" "privileges demo_src = 0x300" "user_sid demo_src = 0x100"
    "primary_group demo_src = 0x100" "group_count demo_src = 0"
    by (simp_all add: demo_src_def)
  have "args_apart m1 a 0x10000 228"
    using c(5) by (simp add: a_def filtered_args_def args_apart_def groups_apart_def apart_def Let_def demo_src_def
        sep_create_filtered_groups_def sep_create_filtered_privileges_def)
  moreover have "\<forall>i. 0 < i \<and> i < unat (privilege_count demo_src) \<longrightarrow>
      la_luid m1 (privileges demo_src) i \<noteq> SE_SECURITY_LUID"
  proof (intro allI impI)
    fix i assume "0 < i \<and> i < unat (privilege_count demo_src)"
    then have "i = 1" by (simp add: s)
    then show "la_luid m1 (privileges demo_src) i \<noteq> SE_SECURITY_LUID" using c(4) by (simp add: s)
  qed
  moreover have ae: "filtered_args demo_src 0 0 0x3fc 1 = a" by (simp add: a_def s)
  moreover have "apart 0x2000 8 0x10000 228" by (simp add: apart_def)
  ultimately show ?thesis
    using filter_token_keeps_deleted_privilege [where existing = "0x1000" and new_token = "0x2000" and flags = 0
        and mz = m1 and m = demo_filter_mem and arr = "0x3fc" and src = demo_src and luid = SE_SECURITY_LUID
        and a = a and sids = 0 and B = "0x10000" and admins = 0 and next_id = 5] c h sz s
    by (simp add: ae m1_def [symmetric]) blast
qed

end
