(* ===== verification/AccessCheck.thy ===== *)
theory AccessCheck
  imports Sd Token
begin

text \<open>
  Access checks: \<open>kernel/ntoskrnl/src/se/accesschk.rs\<close>, with the subject context of
  \<open>subject.rs\<close> and the access state of \<open>access_state.rs\<close>. Tokens are values, a null token
  pointer is \<open>None\<close>; a null generic mapping is \<open>None\<close>. The lock of the subject context is a
  no-op in the source, and the audit step of the check stores into two locals it never reads, so
  neither appears here.
\<close>

section \<open>Access masks and generic mapping\<close>

definition GENERIC_READ :: u32 where "GENERIC_READ = 0x80000000"
definition GENERIC_WRITE :: u32 where "GENERIC_WRITE = 0x40000000"
definition GENERIC_EXECUTE :: u32 where "GENERIC_EXECUTE = 0x20000000"
definition GENERIC_ALL :: u32 where "GENERIC_ALL = 0x10000000"
definition DELETE :: u32 where "DELETE = 0x10000"
definition READ_CONTROL :: u32 where "READ_CONTROL = 0x20000"
definition WRITE_DAC :: u32 where "WRITE_DAC = 0x40000"
definition WRITE_OWNER :: u32 where "WRITE_OWNER = 0x80000"
definition ACCESS_SYSTEM_SECURITY :: u32 where "ACCESS_SYSTEM_SECURITY = 0x01000000"
definition MAXIMUM_ALLOWED :: u32 where "MAXIMUM_ALLOWED = 0x02000000"
definition SYSTEM_MANDATORY_LABEL_NO_WRITE_UP :: u32 where "SYSTEM_MANDATORY_LABEL_NO_WRITE_UP = 1"
definition SYSTEM_MANDATORY_LABEL_NO_READ_UP :: u32 where "SYSTEM_MANDATORY_LABEL_NO_READ_UP = 2"
definition SYSTEM_MANDATORY_LABEL_NO_EXECUTE_UP :: u32 where "SYSTEM_MANDATORY_LABEL_NO_EXECUTE_UP = 4"

lemmas access_defs = GENERIC_READ_def GENERIC_WRITE_def GENERIC_EXECUTE_def GENERIC_ALL_def DELETE_def
  READ_CONTROL_def WRITE_DAC_def WRITE_OWNER_def ACCESS_SYSTEM_SECURITY_def MAXIMUM_ALLOWED_def
  SYSTEM_MANDATORY_LABEL_NO_WRITE_UP_def SYSTEM_MANDATORY_LABEL_NO_READ_UP_def
  SYSTEM_MANDATORY_LABEL_NO_EXECUTE_UP_def

record GENERIC_MAPPING =
  generic_read :: u32
  generic_write :: u32
  generic_execute :: u32
  generic_all :: u32

definition map_right :: "u32 \<Rightarrow> u32 \<Rightarrow> u32 \<Rightarrow> u32" where
  "map_right right specific x = (if x AND right \<noteq> 0 then (x AND NOT right) OR specific else x)"

definition rtl_map_generic_mask :: "u32 \<Rightarrow> GENERIC_MAPPING option \<Rightarrow> u32" where
  "rtl_map_generic_mask access_mask generic_mapping = (case generic_mapping of
     None \<Rightarrow> access_mask
   | Some gm \<Rightarrow> map_right GENERIC_ALL (generic_all gm) (map_right GENERIC_EXECUTE (generic_execute gm)
       (map_right GENERIC_WRITE (generic_write gm) (map_right GENERIC_READ (generic_read gm) access_mask))))"

section \<open>Subject context\<close>

record SECURITY_SUBJECT_CONTEXT =
  client_token :: "TOKEN option"
  ctx_impersonation_level :: u32
  primary_token :: "TOKEN option"
  process_audit_id :: nat

definition subject_context_new :: SECURITY_SUBJECT_CONTEXT where
  "subject_context_new = \<lparr>client_token = None, ctx_impersonation_level = 0, primary_token = None,
     process_audit_id = 0\<rparr>"

text \<open>
  \<open>current_process\<close> is what \<open>ps_get_current_process\<close> returns, \<open>process_token\<close> the token field of
  a process. The branch for an impersonating thread leaves the context unchanged.
\<close>

definition se_capture_subject_context_ex :: "nat \<Rightarrow> (nat \<Rightarrow> TOKEN option) \<Rightarrow> nat \<Rightarrow> SECURITY_SUBJECT_CONTEXT" where
  "se_capture_subject_context_ex current_process process_token process =
     (let prc = (if process = 0 then current_process else process)
      in \<lparr>client_token = None, ctx_impersonation_level = 0,
          primary_token = (if prc \<noteq> 0 then process_token prc else None), process_audit_id = prc\<rparr>)"

definition se_capture_subject_context :: "nat \<Rightarrow> (nat \<Rightarrow> TOKEN option) \<Rightarrow> SECURITY_SUBJECT_CONTEXT" where
  "se_capture_subject_context current_process process_token =
     se_capture_subject_context_ex current_process process_token 0"

definition se_release_subject_context :: "SECURITY_SUBJECT_CONTEXT \<Rightarrow> SECURITY_SUBJECT_CONTEXT" where
  "se_release_subject_context ctx =
     ctx\<lparr>client_token := None, primary_token := None, process_audit_id := 0\<rparr>"

definition se_get_effective_token :: "SECURITY_SUBJECT_CONTEXT option \<Rightarrow> TOKEN option" where
  "se_get_effective_token ctx = (case ctx of
     None \<Rightarrow> None
   | Some c \<Rightarrow> if client_token c \<noteq> None then client_token c else primary_token c)"

definition se_is_impersonating :: "SECURITY_SUBJECT_CONTEXT option \<Rightarrow> bool" where
  "se_is_impersonating ctx = (case ctx of None \<Rightarrow> False | Some c \<Rightarrow> client_token c \<noteq> None)"

section \<open>Matching a SID against a token\<close>

definition sep_is_token_owner :: "mem \<Rightarrow> TOKEN \<Rightarrow> nat \<Rightarrow> bool" where
  "sep_is_token_owner m t owner_sid =
     (if owner_sid = 0 then False
      else if user_sid t \<noteq> 0 \<and> rtl_equal_sid m (user_sid t) owner_sid then True
      else if owner t \<noteq> 0 \<and> rtl_equal_sid m (owner t) owner_sid then True
      else False)"

definition sep_sid_matches_token_ex :: "mem \<Rightarrow> TOKEN \<Rightarrow> nat \<Rightarrow> bool \<Rightarrow> bool" where
  "sep_sid_matches_token_ex m t sid use_restricted =
     (if sid = 0 then False
      else if use_restricted
        then sep_sid_in_token m (restricted_sids t) (restricted_sid_count t) sid False
      else if user_sid t \<noteq> 0 \<and> rtl_equal_sid m (user_sid t) sid then True
      else sep_sid_in_token m (groups t) (group_count t) sid False)"

definition sep_sid_matches_token :: "mem \<Rightarrow> TOKEN \<Rightarrow> nat \<Rightarrow> bool" where
  "sep_sid_matches_token m t sid = sep_sid_matches_token_ex m t sid False"

section \<open>Walking the DACL\<close>

text \<open>The loop over the entries: the rights still to be granted and those granted so far.\<close>

fun dacl_walk ::
  "mem \<Rightarrow> TOKEN \<Rightarrow> GENERIC_MAPPING option \<Rightarrow> bool \<Rightarrow> nat list \<Rightarrow> u32 \<Rightarrow> u32 \<Rightarrow> bool \<times> u32" where
  "dacl_walk m t mapping use_restricted [] rest granted = (rest = 0, granted)"
| "dacl_walk m t mapping use_restricted (ace # aces) rest granted =
     (if ace_type m ace = ACCESS_DENIED_ACE_TYPE then
        if ace_get_sid m ace \<noteq> 0 \<and> sep_sid_matches_token_ex m t (ace_get_sid m ace) use_restricted \<and>
           rest AND ace_get_mask m ace \<noteq> 0
        then (False, granted)
        else dacl_walk m t mapping use_restricted aces rest granted
      else if ace_type m ace = ACCESS_ALLOWED_ACE_TYPE then
        if ace_get_sid m ace \<noteq> 0 \<and> sep_sid_matches_token_ex m t (ace_get_sid m ace) use_restricted then
          if rest AND NOT (rtl_map_generic_mask (ace_get_mask m ace) mapping) = 0
          then (True, granted OR (rtl_map_generic_mask (ace_get_mask m ace) mapping AND rest))
          else dacl_walk m t mapping use_restricted aces
                 (rest AND NOT (rtl_map_generic_mask (ace_get_mask m ace) mapping))
                 (granted OR (rtl_map_generic_mask (ace_get_mask m ace) mapping AND rest))
        else dacl_walk m t mapping use_restricted aces rest granted
      else dacl_walk m t mapping use_restricted aces rest granted)"

definition sep_check_dacl_access ::
  "mem \<Rightarrow> nat \<Rightarrow> TOKEN \<Rightarrow> u32 \<Rightarrow> u32 \<Rightarrow> GENERIC_MAPPING option \<Rightarrow> bool \<Rightarrow> bool \<times> u32" where
  "sep_check_dacl_access m dacl t rest granted mapping use_restricted =
     dacl_walk m t mapping use_restricted (acl_aces m dacl) rest granted"

section \<open>Mandatory integrity control\<close>

definition sep_get_object_integrity :: "mem \<Rightarrow> nat \<Rightarrow> u32 \<times> u32" where
  "sep_get_object_integrity m sd =
     (let default = (SECURITY_MANDATORY_MEDIUM_RID, SYSTEM_MANDATORY_LABEL_NO_WRITE_UP) in
      if sd = 0 then default
      else if \<not> has (sd_control m sd) SE_SACL_PRESENT then default
      else let sacl = sd_get_sacl_ptr m sd in
        if sacl = 0 \<or> ace_count m sacl = 0 then default
        else case List.find (\<lambda>ace. ace_type m ace = SYSTEM_MANDATORY_LABEL_ACE_TYPE) (acl_aces m sacl) of
            Some ace \<Rightarrow> (rtl_get_rid m (ace_sid_start ace), ace_mask m ace)
          | None \<Rightarrow> default)"

definition WRITE_OPERATIONS :: u32 where
  "WRITE_OPERATIONS = WRITE_DAC OR WRITE_OWNER OR DELETE OR 0x2 OR 0x4 OR 0x100"

definition READ_OPERATIONS :: u32 where "READ_OPERATIONS = READ_CONTROL OR 0x1 OR 0x80"

definition EXECUTE_OPERATIONS :: u32 where "EXECUTE_OPERATIONS = 0x20"

definition sep_mandatory_access_check :: "mem \<Rightarrow> nat \<Rightarrow> TOKEN \<Rightarrow> u32 \<Rightarrow> bool" where
  "sep_mandatory_access_check m sd t desired_access =
     (let (object_integrity, policy) = sep_get_object_integrity m sd in
      if object_integrity \<le> integrity_level_index t then True
      else if policy AND SYSTEM_MANDATORY_LABEL_NO_WRITE_UP \<noteq> 0 \<and> desired_access AND WRITE_OPERATIONS \<noteq> 0
        then False
      else if policy AND SYSTEM_MANDATORY_LABEL_NO_READ_UP \<noteq> 0 \<and> desired_access AND READ_OPERATIONS \<noteq> 0
        then False
      else if policy AND SYSTEM_MANDATORY_LABEL_NO_EXECUTE_UP \<noteq> 0 \<and> desired_access AND EXECUTE_OPERATIONS \<noteq> 0
        then False
      else True)"

section \<open>The access check\<close>

text \<open>Steps 1 to 3: rights granted by privilege and by ownership; the state is \<open>(rest, granted)\<close>.\<close>

definition grant_right :: "u32 \<Rightarrow> u32 \<times> u32 \<Rightarrow> u32 \<times> u32" where
  "grant_right right = (\<lambda>(rest, granted).
     if rest AND right \<noteq> 0 then (rest AND NOT right, granted OR right) else (rest, granted))"

definition token_privilege :: "mem \<Rightarrow> TOKEN \<Rightarrow> LUID \<Rightarrow> bool" where
  "token_privilege m t luid = sep_token_has_privilege m (privileges t) (privilege_count t) luid"

definition early_grants :: "mem \<Rightarrow> nat \<Rightarrow> TOKEN \<Rightarrow> u32 \<times> u32 \<Rightarrow> u32 \<times> u32" where
  "early_grants m sd t s0 =
     (let s1 = grant_right ACCESS_SYSTEM_SECURITY s0;
          s2 = (if token_privilege m t SE_TAKE_OWNERSHIP_LUID then grant_right WRITE_OWNER s1 else s1);
          owner_sid = sd_get_owner_ptr m sd
      in if owner_sid \<noteq> 0 \<and> sep_is_token_owner m t owner_sid
         then grant_right WRITE_DAC (grant_right READ_CONTROL s2) else s2)"

definition sep_access_check ::
  "mem \<Rightarrow> nat \<Rightarrow> TOKEN \<Rightarrow> u32 \<Rightarrow> u32 \<Rightarrow> GENERIC_MAPPING option \<Rightarrow> bool \<times> u32" where
  "sep_access_check m sd t desired_access granted_access mapping =
     (if \<not> sep_mandatory_access_check m sd t desired_access then (False, granted_access)
      else if desired_access AND ACCESS_SYSTEM_SECURITY \<noteq> 0 \<and> \<not> token_privilege m t SE_SECURITY_LUID
        then (False, granted_access)
      else
        let (rest, granted) = early_grants m sd t (desired_access, granted_access)
        in if rest = 0 then (True, granted)
        else if \<not> has (sd_control m sd) SE_DACL_PRESENT then (True, granted OR rest)
        else let dacl = sd_get_dacl_ptr m sd in
          if dacl = 0 then (True, granted OR rest)
          else if ace_count m dacl = 0 then (rest = 0, granted)
          else let (normal_result, granted1) = sep_check_dacl_access m dacl t rest granted mapping False in
            if \<not> normal_result then (False, granted1)
            else if is_restricted t \<and> 0 < restricted_sid_count t then
              let (restricted_result, restricted_granted) =
                    sep_check_dacl_access m dacl t desired_access 0 mapping True
              in if \<not> restricted_result then (False, granted1)
                 else (True, granted1 AND restricted_granted)
            else (True, granted1))"

text \<open>The result, and what is stored to \<open>granted_access\<close> and \<open>access_status\<close> where these are not null.\<close>

definition se_access_check ::
  "mem \<Rightarrow> nat \<Rightarrow> SECURITY_SUBJECT_CONTEXT option \<Rightarrow> u32 \<Rightarrow> u32 \<Rightarrow> GENERIC_MAPPING option \<Rightarrow> bool \<times> u32 \<times> ntstatus" where
  "se_access_check m sd subject_context desired_access previously_granted mapping =
     (if sd = 0 \<or> subject_context = None then (False, 0, STATUS_ACCESS_DENIED)
      else case se_get_effective_token subject_context of
        None \<Rightarrow> (False, 0, STATUS_ACCESS_DENIED)
      | Some t \<Rightarrow>
          let rest = rtl_map_generic_mask desired_access mapping AND NOT previously_granted in
          if rest = 0 then (True, previously_granted, STATUS_SUCCESS)
          else let (ok, granted) = sep_access_check m sd t rest previously_granted mapping
               in (ok, granted, if ok then STATUS_SUCCESS else STATUS_ACCESS_DENIED))"

definition se_fast_traverse_check ::
  "nat \<Rightarrow> SECURITY_SUBJECT_CONTEXT option \<Rightarrow> int \<Rightarrow> bool" where
  "se_fast_traverse_check sd access_state access_mode =
     (if access_mode = 0 then True
      else if sd = 0 then True
      else case access_state of
          None \<Rightarrow> False
        | Some ctx \<Rightarrow> (case se_get_effective_token (Some ctx) of
              None \<Rightarrow> False
            | Some t \<Rightarrow> token_flags t AND TOKEN_HAS_TRAVERSE_PRIVILEGE \<noteq> 0))"

section \<open>Access state\<close>

record AUX_ACCESS_DATA =
  aux_privilege_set :: nat
  aux_generic_mapping :: GENERIC_MAPPING
  object_type_list :: nat
  object_type_list_length :: u32

record PrivilegeSetBuffer =
  ps_count :: u32
  ps_control :: u32
  ps_privilege :: "(LUID \<times> u32) list"

record ACCESS_STATE =
  operation_id :: LUID
  security_evaluated :: u8
  generate_audit :: u8
  generate_on_close :: u8
  privilege_used_for_access :: u8
  as_flags :: u32
  remaining_desired_access :: u32
  previously_granted_access :: u32
  original_desired_access :: u32
  subject_security_context :: SECURITY_SUBJECT_CONTEXT
  as_security_descriptor :: nat
  aux_data :: "AUX_ACCESS_DATA option"
  as_privileges :: PrivilegeSetBuffer
  audit_privilege :: u8

definition ACCESS_STATE_MAXIMUM_ALLOWED :: u32 where "ACCESS_STATE_MAXIMUM_ALLOWED = 4"

definition privilege_buffer_new :: PrivilegeSetBuffer where
  "privilege_buffer_new = \<lparr>ps_count = 0, ps_control = 0, ps_privilege = replicate 3 (luid_new 0 0, 0)\<rparr>"

definition access_state_new :: ACCESS_STATE where
  "access_state_new = \<lparr>operation_id = luid_new 0 0, security_evaluated = 0, generate_audit = 0,
     generate_on_close = 0, privilege_used_for_access = 0, as_flags = 0, remaining_desired_access = 0,
     previously_granted_access = 0, original_desired_access = 0,
     subject_security_context = subject_context_new, as_security_descriptor = 0, aux_data = None,
     as_privileges = privilege_buffer_new, audit_privilege = 0\<rparr>"

text \<open>
  Creating a state zeroes the structure whatever it held, so only the presence of the target
  counts; the auxiliary data is the target of its pointer, \<open>None\<close> for null.
\<close>

definition se_create_access_state_ex ::
  "nat \<Rightarrow> (nat \<Rightarrow> TOKEN option) \<Rightarrow> nat \<Rightarrow> bool \<Rightarrow> AUX_ACCESS_DATA option \<Rightarrow> u32 \<Rightarrow> GENERIC_MAPPING option \<Rightarrow>
     ntstatus \<times> ACCESS_STATE option" where
  "se_create_access_state_ex current_process process_token process present aux desired_access mapping =
     (if \<not> present then (STATUS_INVALID_PARAMETER, None)
      else
        let s = access_state_new\<lparr>
              subject_security_context := se_capture_subject_context_ex current_process process_token process,
              original_desired_access := desired_access, remaining_desired_access := desired_access\<rparr>;
            s1 = (if desired_access AND MAXIMUM_ALLOWED \<noteq> 0
                  then s\<lparr>as_flags := as_flags s OR ACCESS_STATE_MAXIMUM_ALLOWED\<rparr> else s);
            s2 = (case aux of None \<Rightarrow> s1 | Some a \<Rightarrow> s1\<lparr>aux_data := Some (case mapping of
                    None \<Rightarrow> a | Some gm \<Rightarrow> a\<lparr>aux_generic_mapping := gm\<rparr>)\<rparr>)
        in (STATUS_SUCCESS, Some s2))"

definition se_delete_access_state :: "ACCESS_STATE option \<Rightarrow> ACCESS_STATE option" where
  "se_delete_access_state = map_option (\<lambda>s.
     s\<lparr>subject_security_context := se_release_subject_context (subject_security_context s)\<rparr>)"

definition se_set_access_state_generic_mapping ::
  "ACCESS_STATE option \<Rightarrow> GENERIC_MAPPING option \<Rightarrow> ACCESS_STATE option" where
  "se_set_access_state_generic_mapping st mapping = (case (st, mapping) of
     (Some s, Some gm) \<Rightarrow> Some (s\<lparr>aux_data := map_option (\<lambda>a. a\<lparr>aux_generic_mapping := gm\<rparr>) (aux_data s)\<rparr>)
   | _ \<Rightarrow> st)"

text \<open>
  The source set is the list behind its pointer. With more than three entries in the buffer the
  subtraction \<open>3 - current_count\<close> panics, or wraps and then the array index does.
\<close>

definition se_append_privileges ::
  "ACCESS_STATE option \<Rightarrow> (LUID \<times> u32) list option \<Rightarrow> (ntstatus \<times> ACCESS_STATE option) outcome" where
  "se_append_privileges st privs = (case (st, privs) of
     (Some s, Some ps) \<Rightarrow>
       if ps = [] then Ret (STATUS_SUCCESS, st)
       else let cur = unat (ps_count (as_privileges s)) in
         if 3 < cur then Panic
         else if length ps \<le> 3 - cur then
           Ret (STATUS_SUCCESS, Some (s\<lparr>as_privileges := (as_privileges s)\<lparr>
             ps_privilege := take cur (ps_privilege (as_privileges s)) @ ps @
                drop (cur + length ps) (ps_privilege (as_privileges s)),
             ps_count := ps_count (as_privileges s) + of_nat (length ps)\<rparr>\<rparr>))
         else Ret (STATUS_SUCCESS, st)
   | _ \<Rightarrow> Ret (STATUS_SUCCESS, st))"

text \<open>
  Success with a null \<open>granted_access\<close> dereferences it; \<open>wants\<close> says it is not null. The second
  component is what is stored to it.
\<close>

definition se_access_check_from_state ::
  "mem \<Rightarrow> ACCESS_STATE option \<Rightarrow> nat \<Rightarrow> u32 \<Rightarrow> bool \<Rightarrow> (ntstatus \<times> u32 option \<times> ACCESS_STATE option) outcome" where
  "se_access_check_from_state m st sd desired_access wants = (case st of
     None \<Rightarrow> Ret (STATUS_ACCESS_DENIED, None, None)
   | Some s \<Rightarrow>
       let (ok, granted, status) = se_access_check m sd (Some (subject_security_context s)) desired_access
             (previously_granted_access s) (map_option aux_generic_mapping (aux_data s))
       in if ok then
            if \<not> wants then Undef
            else Ret (status, Some granted, Some (s\<lparr>previously_granted_access := granted,
                   remaining_desired_access := remaining_desired_access s AND NOT granted\<rparr>))
          else Ret (status, if wants then Some granted else None, Some s))"

section \<open>Specification: the first entry that decides a right\<close>

text \<open>
  A right is a bit of the access mask. An entry decides it when it applies to the token and is a
  deny entry whose mask, as stored, has the bit, or an allow entry whose mapped mask has it.
\<close>

definition ace_applies :: "mem \<Rightarrow> TOKEN \<Rightarrow> bool \<Rightarrow> nat \<Rightarrow> bool" where
  "ace_applies m t r ace \<longleftrightarrow> ace_get_sid m ace \<noteq> 0 \<and> sep_sid_matches_token_ex m t (ace_get_sid m ace) r"

definition ace_verdict :: "mem \<Rightarrow> TOKEN \<Rightarrow> GENERIC_MAPPING option \<Rightarrow> bool \<Rightarrow> nat \<Rightarrow> nat \<Rightarrow> bool option" where
  "ace_verdict m t mapping r b ace =
     (if \<not> ace_applies m t r ace then None
      else if ace_type m ace = ACCESS_DENIED_ACE_TYPE then
        if bit (ace_get_mask m ace) b then Some False else None
      else if ace_type m ace = ACCESS_ALLOWED_ACE_TYPE then
        if bit (rtl_map_generic_mask (ace_get_mask m ace) mapping) b then Some True else None
      else None)"

fun first_verdict :: "('a \<Rightarrow> bool option) \<Rightarrow> 'a list \<Rightarrow> bool option" where
  "first_verdict f [] = None"
| "first_verdict f (x # xs) = (case f x of None \<Rightarrow> first_verdict f xs | Some v \<Rightarrow> Some v)"

definition dacl_allows :: "mem \<Rightarrow> TOKEN \<Rightarrow> GENERIC_MAPPING option \<Rightarrow> bool \<Rightarrow> nat list \<Rightarrow> nat \<Rightarrow> bool" where
  "dacl_allows m t mapping r aces b \<longleftrightarrow> first_verdict (ace_verdict m t mapping r b) aces = Some True"

lemma bit_less_32: "bit (x :: u32) b \<Longrightarrow> b < 32"
  using bit_imp_le_length [of x b] by simp

lemma and_nonzero_bit: "(x :: u32) AND y \<noteq> 0 \<longleftrightarrow> (\<exists>b. bit x b \<and> bit y b)"
  by (auto simp: bit_eq_iff bit_and_iff dest: bit_less_32)

lemma zero_bits: "(x :: u32) = 0 \<longleftrightarrow> (\<forall>b. \<not> bit x b)"
  by (auto simp: bit_eq_iff dest: bit_less_32)

lemma bit_diff: "bit ((x :: u32) AND NOT y) b \<longleftrightarrow> bit x b \<and> \<not> bit y b"
  using bit_less_32 [of x b] by (auto simp: bit_and_iff bit_not_iff)

lemma allowed_left:
  assumes "\<And>b. bit (am :: u32) b \<Longrightarrow> f b x = Some True" and "\<And>b. \<not> bit am b \<Longrightarrow> f b x = None"
  shows "(\<forall>b. bit (rest AND NOT am) b \<longrightarrow> first_verdict (f b) xs = Some True) \<longleftrightarrow>
         (\<forall>b. bit rest b \<longrightarrow> first_verdict (f b) (x # xs) = Some True)"
  using assms by (auto simp: bit_diff split: option.splits) (metis option.inject option.simps(3))

lemma dacl_walk_correct:
  "fst (dacl_walk m t mapping r aces rest granted) \<longleftrightarrow> (\<forall>b. bit rest b \<longrightarrow> dacl_allows m t mapping r aces b)"
  "fst (dacl_walk m t mapping r aces rest granted) \<Longrightarrow>
     snd (dacl_walk m t mapping r aces rest granted) = granted OR rest"
proof (induction aces arbitrary: rest granted)
  case Nil
  case 1 show ?case by (simp add: dacl_allows_def zero_bits)
  case 2 then show ?case by simp
next
  case (Cons ace aces)
  let ?f = "ace_verdict m t mapping r"
  let ?mask = "rtl_map_generic_mask (ace_get_mask m ace) mapping"
  consider (deny) "ace_type m ace = ACCESS_DENIED_ACE_TYPE" "ace_applies m t r ace"
    | (allow) "ace_type m ace = ACCESS_ALLOWED_ACE_TYPE" "ace_applies m t r ace" "ace_type m ace \<noteq> ACCESS_DENIED_ACE_TYPE"
    | (skip) "\<And>rest granted. dacl_walk m t mapping r (ace # aces) rest granted = dacl_walk m t mapping r aces rest granted"
        "\<And>b. ?f b ace = None"
    by (cases "ace_applies m t r ace"; cases "ace_type m ace = ACCESS_DENIED_ACE_TYPE";
        cases "ace_type m ace = ACCESS_ALLOWED_ACE_TYPE")
       (auto simp: ace_applies_def ace_verdict_def ACCESS_DENIED_ACE_TYPE_def ACCESS_ALLOWED_ACE_TYPE_def)
  note cases = this
  {
    case 1
    from cases show ?case
    proof cases
      case deny
      have f: "?f b ace = (if bit (ace_get_mask m ace) b then Some False else None)" for b
        using deny by (simp add: ace_verdict_def)
      show ?thesis
      proof (cases "rest AND ace_get_mask m ace \<noteq> 0")
        case True
        then obtain b where "bit rest b" "bit (ace_get_mask m ace) b" by (auto simp: and_nonzero_bit)
        then show ?thesis using deny True f by (auto simp: dacl_allows_def ace_applies_def)
      next
        case False
        then have "\<not> bit (ace_get_mask m ace) b" if "bit rest b" for b using that and_nonzero_bit by blast
        then show ?thesis using deny False f Cons(1) [of rest granted] by (auto simp: dacl_allows_def)
      qed
    next
      case allow
      have f: "bit ?mask b \<Longrightarrow> ?f b ace = Some True" "\<not> bit ?mask b \<Longrightarrow> ?f b ace = None" for b
        using allow by (simp_all add: ace_verdict_def)
      have w: "dacl_walk m t mapping r (ace # aces) rest granted =
          (if rest AND NOT ?mask = 0 then (True, granted OR (?mask AND rest))
           else dacl_walk m t mapping r aces (rest AND NOT ?mask) (granted OR (?mask AND rest)))"
        using allow by (simp add: ace_applies_def)
      have "fst (dacl_walk m t mapping r (ace # aces) rest granted) \<longleftrightarrow>
          (\<forall>b. bit (rest AND NOT ?mask) b \<longrightarrow> first_verdict (?f b) aces = Some True)"
        unfolding w using Cons(1) [of "rest AND NOT ?mask"]
        by (cases "rest AND NOT ?mask = 0") (simp_all add: dacl_allows_def)
      also have "\<dots> \<longleftrightarrow> (\<forall>b. bit rest b \<longrightarrow> first_verdict (?f b) (ace # aces) = Some True)"
        by (rule allowed_left) (simp_all add: f)
      finally show ?thesis by (simp only: dacl_allows_def)
    next
      case skip
      show ?thesis unfolding skip(1) using Cons(1) skip(2) by (simp add: dacl_allows_def)
    qed
  next
    case 2
    from cases show ?case
    proof cases
      case deny
      then show ?thesis using 2 Cons(2) [of rest granted] by (auto simp: ace_applies_def split: if_splits)
    next
      case allow
      have w: "dacl_walk m t mapping r (ace # aces) rest granted =
          (if rest AND NOT ?mask = 0 then (True, granted OR (?mask AND rest))
           else dacl_walk m t mapping r aces (rest AND NOT ?mask) (granted OR (?mask AND rest)))"
        using allow by (simp add: ace_applies_def)
      have o: "(granted OR (?mask AND rest)) OR (rest AND NOT ?mask) = granted OR rest"
        by (rule bit_eqI) (auto simp: bit_or_iff bit_and_iff bit_not_iff)
      show ?thesis
      proof (cases "rest AND NOT ?mask = 0")
        case True
        then show ?thesis unfolding w using o by simp
      next
        case False
        then show ?thesis
          using 2 o Cons(2) [of "rest AND NOT ?mask" "granted OR (?mask AND rest)"] unfolding w by simp
      qed
    next
      case skip
      show ?thesis using 2 Cons(2) [of rest granted] unfolding skip(1) by blast
    qed
  }
qed

section \<open>The whole check\<close>

text \<open>Rights that need no entry: by privilege, or because the token owns the object.\<close>

definition privileged_right :: "mem \<Rightarrow> nat \<Rightarrow> TOKEN \<Rightarrow> u32" where
  "privileged_right m sd t =
     ACCESS_SYSTEM_SECURITY OR
     (if token_privilege m t SE_TAKE_OWNERSHIP_LUID then WRITE_OWNER else 0) OR
     (if sd_get_owner_ptr m sd \<noteq> 0 \<and> sep_is_token_owner m t (sd_get_owner_ptr m sd)
      then READ_CONTROL OR WRITE_DAC else 0)"

definition no_dacl :: "mem \<Rightarrow> nat \<Rightarrow> bool" where
  "no_dacl m sd \<longleftrightarrow> \<not> has (sd_control m sd) SE_DACL_PRESENT \<or> sd_get_dacl_ptr m sd = 0"

definition mic_and_audit :: "mem \<Rightarrow> nat \<Rightarrow> TOKEN \<Rightarrow> u32 \<Rightarrow> bool" where
  "mic_and_audit m sd t req \<longleftrightarrow> sep_mandatory_access_check m sd t req \<and>
     (req AND ACCESS_SYSTEM_SECURITY \<noteq> 0 \<longrightarrow> token_privilege m t SE_SECURITY_LUID)"

lemma one_bit_and:
  assumes "right = 2 ^ n"
  shows "(x :: u32) AND right = (if bit x n then right else 0)"
proof (rule bit_word_eqI)
  fix k assume "k < LENGTH(32)"
  then show "bit (x AND right) k = bit (if bit x n then right else 0) k"
    using assms by (auto simp: bit_and_iff bit_exp_iff)
qed

lemma grant_right_eq:
  assumes "right = 2 ^ n"
  shows "grant_right right (rest, granted) = (rest AND NOT right, granted OR (rest AND right))"
proof (cases "rest AND right = 0")
  case True
  then have "\<not> (bit rest b \<and> bit right b)" for b using and_nonzero_bit by blast
  then have "rest AND NOT right = rest" by (auto simp: bit_eq_iff bit_diff)
  with True show ?thesis by (simp add: grant_right_def)
next
  case False
  then have "rest AND right = right" using one_bit_and [OF assms, of rest] by presburger
  with False show ?thesis by (simp add: grant_right_def)
qed

lemma right_exps:
  "ACCESS_SYSTEM_SECURITY = 2 ^ 24" "WRITE_OWNER = 2 ^ 19" "READ_CONTROL = 2 ^ 17" "WRITE_DAC = 2 ^ 18"
  by (simp_all add: access_defs)

lemmas grant_eqs = right_exps [THEN grant_right_eq]

lemma early_grants_eq:
  "early_grants m sd t (rest, granted) =
     (rest AND NOT (privileged_right m sd t), granted OR (rest AND privileged_right m sd t))"
  unfolding early_grants_def privileged_right_def Let_def grant_eqs
  by (simp add: grant_eqs) (auto simp: bit_eq_iff bit_and_iff bit_or_iff bit_not_iff)

lemma acl_aces_empty: "ace_count m acl = 0 \<Longrightarrow> acl_aces m acl = []"
  by (simp add: acl_aces_def ace_iterator_new_def aces_of_unroll split: option.split)

text \<open>The second pass over the DACL, with the restricted SIDs, takes place.\<close>

definition second_pass :: "mem \<Rightarrow> nat \<Rightarrow> TOKEN \<Rightarrow> u32 \<Rightarrow> bool" where
  "second_pass m sd t req \<longleftrightarrow> is_restricted t \<and> 0 < restricted_sid_count t \<and> \<not> no_dacl m sd \<and>
     req AND NOT (privileged_right m sd t) \<noteq> 0"

definition may_access :: "mem \<Rightarrow> nat \<Rightarrow> TOKEN \<Rightarrow> u32 \<Rightarrow> GENERIC_MAPPING option \<Rightarrow> bool" where
  "may_access m sd t req mapping \<longleftrightarrow>
     (let aces = acl_aces m (sd_get_dacl_ptr m sd) in
      mic_and_audit m sd t req \<and>
      (\<forall>b. bit req b \<longrightarrow> bit (privileged_right m sd t) b \<or> no_dacl m sd \<or> dacl_allows m t mapping False aces b) \<and>
      (second_pass m sd t req \<longrightarrow> (\<forall>b. bit req b \<longrightarrow> dacl_allows m t mapping True aces b)))"

lemma left_over: "(\<forall>b. bit (req AND NOT (p :: u32)) b \<longrightarrow> Q b) \<longleftrightarrow> (\<forall>b. bit req b \<longrightarrow> bit p b \<or> Q b)"
  by (auto simp: bit_diff)

lemma granted_all:
  "(prev OR (req AND p)) OR (req AND NOT (p :: u32)) = prev OR req"
  by (rule bit_word_eqI) (auto simp: bit_or_iff bit_and_iff bit_not_iff)

lemma sep_access_check_eq:
  "fst (sep_access_check m sd t req prev mapping) \<longleftrightarrow> may_access m sd t req mapping"
  "fst (sep_access_check m sd t req prev mapping) \<Longrightarrow>
     snd (sep_access_check m sd t req prev mapping) = (if second_pass m sd t req then (prev OR req) AND req else prev OR req)"
proof -
  let ?p = "privileged_right m sd t" and ?dacl = "sd_get_dacl_ptr m sd"
  let ?rest = "req AND NOT ?p" and ?granted = "prev OR (req AND ?p)"
  let ?walk = "dacl_walk m t mapping False (acl_aces m ?dacl) ?rest ?granted"
  let ?walk2 = "dacl_walk m t mapping True (acl_aces m ?dacl) req 0"
  have all: "?rest = 0 \<Longrightarrow> ?granted = prev OR req" using granted_all [of prev req ?p] by simp
  have run: "sep_access_check m sd t req prev mapping =
     (if \<not> mic_and_audit m sd t req then (False, prev)
      else if ?rest = 0 then (True, ?granted)
      else if no_dacl m sd then (True, ?granted OR ?rest)
      else if ace_count m ?dacl = 0 then (False, ?granted)
      else if \<not> fst ?walk then (False, snd ?walk)
      else if second_pass m sd t req then
        (if fst ?walk2 then (True, snd ?walk AND snd ?walk2) else (False, snd ?walk))
      else (True, snd ?walk))"
    by (simp add: sep_access_check_def early_grants_eq mic_and_audit_def no_dacl_def second_pass_def Let_def
        sep_check_dacl_access_def case_prod_beta)
  note w1 = dacl_walk_correct [of m t mapping False "acl_aces m ?dacl" ?rest ?granted]
  note w2 = dacl_walk_correct [of m t mapping True "acl_aces m ?dacl" req 0]
  have early: "may_access m sd t req mapping" if "mic_and_audit m sd t req" "?rest = 0 \<or> no_dacl m sd"
    using that left_over [of req ?p "\<lambda>_. False"] by (auto simp: may_access_def second_pass_def zero_bits Let_def)
  have walk: "fst ?walk \<longleftrightarrow> (\<forall>b. bit req b \<longrightarrow> bit ?p b \<or> no_dacl m sd \<or>
      dacl_allows m t mapping False (acl_aces m ?dacl) b)" if "\<not> no_dacl m sd"
    unfolding w1(1) left_over using that by simp
  have empty: "\<not> may_access m sd t req mapping" if "ace_count m ?dacl = 0" "\<not> no_dacl m sd" "?rest \<noteq> 0"
    using that left_over [of req ?p "\<lambda>_. False"]
    by (auto simp: may_access_def acl_aces_empty dacl_allows_def zero_bits Let_def)
  show "fst (sep_access_check m sd t req prev mapping) \<longleftrightarrow> may_access m sd t req mapping"
  proof (cases "\<not> mic_and_audit m sd t req \<or> ?rest = 0 \<or> no_dacl m sd \<or> ace_count m ?dacl = 0")
    case True
    then show ?thesis unfolding run using early empty by (auto simp: may_access_def Let_def)
  next
    case False
    then have "fst (sep_access_check m sd t req prev mapping) \<longleftrightarrow> fst ?walk \<and> (second_pass m sd t req \<longrightarrow> fst ?walk2)"
      unfolding run by simp
    then show ?thesis using walk w2(1) False by (simp add: may_access_def Let_def)
  qed
  assume "fst (sep_access_check m sd t req prev mapping)"
  then show "snd (sep_access_check m sd t req prev mapping) =
      (if second_pass m sd t req then (prev OR req) AND req else prev OR req)"
    unfolding run using all granted_all [of prev req ?p] w1(2) w2(2)
    by (auto simp: second_pass_def split: if_splits)
qed

section \<open>Properties\<close>

text \<open>
  C2. \<open>SeAccessCheck\<close> decides by the first entry. With \<open>req\<close> the mapped desired rights that are not
  granted yet, it succeeds exactly when nothing is left, or mandatory integrity and the audit
  privilege permit \<open>req\<close> and every right in it is granted by privilege or ownership, or by a
  missing DACL, or by the first DACL entry that decides it for the token, and, in the second pass
  of a restricted token, also for its restricted SIDs. On success the granted mask is exactly the
  previous grants and \<open>req\<close>, but after a second pass it is \<open>req\<close> alone: the rights granted
  before are lost.
\<close>

theorem se_access_check_correct:
  assumes "sd \<noteq> 0" and "se_get_effective_token (Some ctx) = Some t"
    and "req = rtl_map_generic_mask desired mapping AND NOT prev"
    and "se_access_check m sd (Some ctx) desired prev mapping = (ok, granted, status)"
  shows "(ok \<longleftrightarrow> req = 0 \<or> may_access m sd t req mapping) \<and>
         (ok \<longrightarrow> granted = (if req \<noteq> 0 \<and> second_pass m sd t req then req else prev OR req)) \<and>
         status = (if ok then STATUS_SUCCESS else STATUS_ACCESS_DENIED)"
proof (cases "req = 0")
  case True
  then show ?thesis using assms by (auto simp: se_access_check_def Let_def)
next
  case False
  have "(prev OR req) AND req = req" by (rule bit_word_eqI) (auto simp: bit_or_iff bit_and_iff)
  moreover have "ok = fst (sep_access_check m sd t req prev mapping)"
    "granted = snd (sep_access_check m sd t req prev mapping)" "status = (if ok then STATUS_SUCCESS else STATUS_ACCESS_DENIED)"
    using False assms by (auto simp: se_access_check_def Let_def case_prod_beta)
  ultimately show ?thesis using False sep_access_check_eq [of m sd t req prev mapping] by simp
qed


lemma restricted_none: "restricted_sids t = 0 \<Longrightarrow> \<not> dacl_allows m t mapping True aces b"
proof -
  assume "restricted_sids t = 0"
  then have "ace_verdict m t mapping True b ace = None" for ace
    by (simp add: ace_verdict_def ace_applies_def sep_sid_matches_token_ex_def sep_sid_in_token_def)
  then have "first_verdict (ace_verdict m t mapping True b) aces = None" by (induction aces) simp_all
  then show ?thesis by (simp add: dacl_allows_def)
qed

lemma created_unrestricted:
  assumes "sep_create_token admins m next_id B a = Ret (Some t, m', next')"
  shows "restricted_sids t = 0"
proof -
  have g: "restricted_sids t'' = restricted_sids t'"
    if "sep_update_token_flags_from_groups mm admins t' = Ret t''" for mm t' t''
    using that by (auto simp: sep_update_token_flags_from_groups_def split: if_splits)
  show ?thesis
    using assms by (auto simp: sep_create_token_def sep_update_token_flags_from_privileges_def Let_def bind_out_Ret_iff
        split: if_splits prod.splits dest!: g)
qed

lemma filtered_unrestricted:
  assumes "se_filter_token admins m next_id B existing src flags sids privs restricted new_token = Ret r"
    and "fr_new r = Some t"
  shows "restricted_sids t = 0"
proof -
  have nz: "\<not> (existing = 0 \<or> new_token = 0)"
    using assms by (cases "existing = 0 \<or> new_token = 0") (auto simp: se_filter_token_def)
  let ?m = "stptr m new_token 0"
  obtain count c where c: "sep_create_token admins ?m next_id B (filtered_args src flags sids privs count) = Ret c"
    and r: "(case c of (token, m2, next_id') \<Rightarrow> case token of
            None \<Rightarrow> Ret \<lparr>fr_status = STATUS_INSUFFICIENT_RESOURCES, fr_existing = src, fr_new = None,
                          fr_mem = m2, fr_next_id = next_id', fr_referenced = []\<rparr>
          | Some t \<Rightarrow>
              let t1 = (if 0 < (if restricted \<noteq> 0 then ld32 ?m restricted else 0) \<and> restricted \<noteq> 0
                        then sep_set_restricted_sids m2 t restricted else t);
                  f1 = token_flags t1 OR TOKEN_IS_FILTERED;
                  f2 = (if flags AND TOKEN_SANDBOX_INERT \<noteq> 0 then f1 OR TOKEN_SANDBOX_INERT else f1);
                  t2 = t1\<lparr>token_flags := f2, elevation_type := TokenElevationTypeLimited, elevation := 0,
                          linked_token := existing\<rparr>;
                  src' = src\<lparr>elevation_type := TokenElevationTypeFull, elevation := 1,
                            linked_token := B\<rparr>
              in Ret \<lparr>fr_status = STATUS_SUCCESS, fr_existing = src', fr_new = Some t2,
                      fr_mem = stptr m2 new_token B, fr_next_id = next_id',
                      fr_referenced = [existing, B]\<rparr>) = Ret r"
    using assms(1) unfolding se_filter_token_def if_not_P [OF nz] Let_def bind_out_Ret_iff by blast
  obtain token m2 next_id' where t: "c = (token, m2, next_id')" by (rule prod_cases3)
  obtain t0 where t0: "token = Some t0" using r t assms(2) by (cases token) auto
  have "restricted_sids t0 = 0" using created_unrestricted c t t0 by blast
  then show ?thesis using r t t0 assms(2) by (auto simp: Let_def sep_set_restricted_sids_def)
qed

text \<open>
  A token filtered with restricted SIDs can access nothing. \<open>SeFilterToken\<close> records their
  number but no array, so the second pass of every access check finds no entry that applies: any
  request for rights on an object with a DACL is denied, unless privilege or ownership already
  covers all of it.
\<close>

theorem filtered_restricted_denied:
  assumes "se_filter_token admins m0 next_id B existing src flags sids privs restricted new_token = Ret r"
    and "fr_new r = Some t" and "0 < restricted_sid_count t"
    and "sd \<noteq> 0" and "se_get_effective_token (Some ctx) = Some t" and "\<not> no_dacl m sd"
    and "req = rtl_map_generic_mask desired mapping AND NOT prev"
    and "req AND NOT (privileged_right m sd t) \<noteq> 0"
  shows "\<not> fst (se_access_check m sd (Some ctx) desired prev mapping)"
proof -
  have rs: "restricted_sids t = 0" by (rule filtered_unrestricted [OF assms(1,2)])
  have nz: "req \<noteq> 0" using assms(8) by auto
  then obtain b where "bit req b" by (auto simp: zero_bits)
  then have "\<not> may_access m sd t req mapping"
    using assms(3,6,8) restricted_none [OF rs]
    by (auto simp: may_access_def second_pass_def is_restricted_def Let_def)
  moreover obtain ok granted status where
    "se_access_check m sd (Some ctx) desired prev mapping = (ok, granted, status)" by (metis prod_cases3)
  ultimately show ?thesis
    using se_access_check_correct [OF assms(4,5,7)] nz by auto
qed

text \<open>A mapping whose four entries hold no generic rights.\<close>

definition generic_free :: "GENERIC_MAPPING \<Rightarrow> bool" where
  "generic_free gm \<longleftrightarrow> (\<forall>x\<in>{generic_read gm, generic_write gm, generic_execute gm, generic_all gm}.
     x AND (GENERIC_READ OR GENERIC_WRITE OR GENERIC_EXECUTE OR GENERIC_ALL) = 0)"

lemma replace_bit:
  assumes "right = 2 ^ n" and "\<not> bit g b"
  shows "bit (map_right right g x) b \<longleftrightarrow> bit (x :: u32) b \<and> (b \<noteq> n \<or> \<not> b < 32)"
  using assms one_bit_and [OF assms(1), of x] bit_less_32 [of x b]
  by (auto simp: map_right_def bit_or_iff bit_diff bit_exp_iff)

lemma generic_exps:
  "GENERIC_READ = 2 ^ 31" "GENERIC_WRITE = 2 ^ 30" "GENERIC_EXECUTE = 2 ^ 29" "GENERIC_ALL = 2 ^ 28"
  by (simp_all add: access_defs)

lemma mapped_generic_free:
  assumes "generic_free gm"
  shows "rtl_map_generic_mask x (Some gm) AND (GENERIC_READ OR GENERIC_WRITE OR GENERIC_EXECUTE OR GENERIC_ALL) = 0"
proof -
  let ?G = "GENERIC_READ OR GENERIC_WRITE OR GENERIC_EXECUTE OR GENERIC_ALL"
  have G: "bit ?G b \<longleftrightarrow> b \<in> {28, 29, 30, 31}" for b
    unfolding generic_exps by (simp only: bit_or_iff bit_exp_iff) auto
  have "\<not> bit (rtl_map_generic_mask x (Some gm)) b" if "bit ?G b" for b
  proof -
    have g: "\<not> bit g b" if "g \<in> {generic_read gm, generic_write gm, generic_execute gm, generic_all gm}" for g
      using assms \<open>bit ?G b\<close> that and_nonzero_bit [of g ?G] by (auto simp: generic_free_def)
    show ?thesis
      using that g unfolding rtl_map_generic_mask_def option.case
      by (simp only: replace_bit [OF generic_exps(1)] replace_bit [OF generic_exps(2)]
          replace_bit [OF generic_exps(3)] replace_bit [OF generic_exps(4)] G insert_iff simp_thms) auto
  qed
  then show ?thesis using and_nonzero_bit by blast
qed

text \<open>
  A deny entry of generic rights denies nothing. The desired rights and the masks of allow
  entries are mapped to specific rights, the masks of deny entries are not: with a mapping free of
  generic rights, a check of mapped rights runs as if a leading deny entry with only generic
  rights were absent, so \<open>deny GENERIC_ALL, allow GENERIC_ALL\<close> allows everything.
\<close>

theorem generic_deny_ignored:
  assumes "acl_aces m dacl = ace # aces" and "ace_type m ace = ACCESS_DENIED_ACE_TYPE"
    and "ace_get_mask m ace AND NOT (GENERIC_READ OR GENERIC_WRITE OR GENERIC_EXECUTE OR GENERIC_ALL) = 0"
    and "generic_free gm"
  shows "sep_check_dacl_access m dacl t (rtl_map_generic_mask desired (Some gm) AND NOT prev) granted (Some gm) r =
         dacl_walk m t (Some gm) r aces (rtl_map_generic_mask desired (Some gm) AND NOT prev) granted"
proof -
  let ?G = "GENERIC_READ OR GENERIC_WRITE OR GENERIC_EXECUTE OR GENERIC_ALL"
  let ?d = "rtl_map_generic_mask desired (Some gm)"
  have "\<not> (bit ?d b \<and> bit ?G b)" for b
    using mapped_generic_free [OF assms(4), of desired] and_nonzero_bit by blast
  moreover have "\<not> (bit (ace_get_mask m ace) b \<and> \<not> bit ?G b)" for b
    using assms(3) bit_diff [of "ace_get_mask m ace" ?G b] by (simp only: bit_0_eq) simp
  ultimately have "(?d AND NOT prev) AND ace_get_mask m ace = 0"
    by (auto simp: zero_bits bit_and_iff)
  then show ?thesis using assms(1,2) by (simp add: sep_check_dacl_access_def)
qed

section \<open>Witnesses\<close>

text \<open>
  An absolute descriptor at 0x10 whose DACL at 0x40 holds a deny entry of \<open>GENERIC_ALL\<close> and an
  allow entry of \<open>GENERIC_ALL\<close> and the rights 1 and 2, both for the SID at 0x100.
\<close>

definition demo_sid :: "u8 list" where "demo_sid = [1, 1, 0, 0, 0, 0, 0, 5, 18, 0, 0, 0]"

definition demo_access_mem :: mem where
  "demo_access_mem = store_bytes (store_bytes demo_token_mem 0x10
      ([1, 0, 4, 0, 0, 0, 0, 0] @ replicate 24 0 @ [0x40, 0, 0, 0, 0, 0, 0, 0]))
      0x40 ([2, 0, 48, 0, 2, 0, 0, 0] @ [1, 0, 20, 0, 0, 0, 0, 16] @ demo_sid @ [0, 0, 20, 0, 3, 0, 0, 16] @ demo_sid)"

definition demo_ctx :: "TOKEN \<Rightarrow> SECURITY_SUBJECT_CONTEXT" where
  "demo_ctx t = subject_context_new\<lparr>primary_token := Some t\<rparr>"

definition demo_map :: GENERIC_MAPPING where
  "demo_map = \<lparr>generic_read = 1, generic_write = 2, generic_execute = 0x20, generic_all = 0x23\<rparr>"

lemma demo_effective: "se_get_effective_token (Some (demo_ctx t)) = Some t"
  by (simp add: se_get_effective_token_def demo_ctx_def subject_context_new_def)

lemma demo_acl: "acl_aces demo_access_mem 0x40 = [0x48, 0x5c]" "sd_get_dacl_ptr demo_access_mem 0x10 = 0x40"
  "sd_get_owner_ptr demo_access_mem 0x10 = 0" "has (sd_control demo_access_mem 0x10) SE_DACL_PRESENT"
  "\<not> has (sd_control demo_access_mem 0x10) SE_SACL_PRESENT"
  by code_simp+

lemma demo_check:
  "se_access_check demo_access_mem 0x10 (Some (demo_ctx demo_src)) GENERIC_READ 2 (Some demo_map) = (True, 3, STATUS_SUCCESS)"
proof -
  have m: "rtl_map_generic_mask GENERIC_READ (Some demo_map) AND NOT 2 = 1"
    "sep_token_has_privilege demo_access_mem 0x300 2 SE_TAKE_OWNERSHIP_LUID"
    "\<not> is_restricted demo_src" "ace_count demo_access_mem 0x40 = 2"
    "dacl_walk demo_access_mem demo_src (Some demo_map) False [0x48, 0x5c] 1 2 = (True, 3)"
    by code_simp+
  have p: "privileged_right demo_access_mem 0x10 demo_src = ACCESS_SYSTEM_SECURITY OR WRITE_OWNER"
    using m(2) by (simp add: privileged_right_def token_privilege_def demo_src_def demo_acl)
  show ?thesis
    using m demo_acl demo_effective
    by (simp add: se_access_check_def sep_access_check_def early_grants_eq p sep_mandatory_access_check_def
        sep_get_object_integrity_def sep_check_dacl_access_def access_defs WRITE_OPERATIONS_def)
qed

theorem se_access_check_correct_witness:
  "se_access_check demo_access_mem 0x10 (Some (demo_ctx demo_src)) GENERIC_READ 2 (Some demo_map) = (True, 3, STATUS_SUCCESS) \<and>
   may_access demo_access_mem 0x10 demo_src 1 (Some demo_map)"
proof -
  have r: "1 = rtl_map_generic_mask GENERIC_READ (Some demo_map) AND NOT 2" by code_simp
  show ?thesis
    using se_access_check_correct [OF _ demo_effective r demo_check] demo_check by simp
qed


theorem filtered_restricted_denied_witness:
  "\<exists>r t. se_filter_token 0 demo_filter_mem 5 0x10000 0x1000 demo_src 1 0 0 0x3fc 0x2000 = Ret r \<and> fr_new r = Some t \<and>
     \<not> fst (se_access_check demo_access_mem 0x10 (Some (demo_ctx t)) GENERIC_READ 0 (Some demo_map))"
proof -
  define m1 where "m1 = stptr demo_filter_mem 0x2000 0"
  define a where "a = filtered_args demo_src 1 0 0 0"
  have c: "ld32 m1 0x3fc = 1" "sid_size m1 0x100 = 12" unfolding m1_def by code_simp+
  have sz: "token_size m1 a = 216" unfolding m1_def a_def by code_simp
  have a: "a_user a = 0x100" "a_primary_group a = 0x100" "a_group_count a = 0" "a_privilege_count a = 0"
    by (simp_all add: a_def filtered_args_def demo_src_def Let_def)
  have nz: "a_user a \<noteq> 0" "a_primary_group a \<noteq> 0" "(0x10000 :: nat) \<noteq> 0" and gc: "a_group_count a \<noteq> 0 \<Longrightarrow> a_groups a \<noteq> 0"
    using a by simp_all
  have ap: "args_apart m1 a 0x10000 (token_size m1 a)" and fit: "0x10000 + token_size m1 a < 2 ^ 64"
    using c(2) sz by (simp_all add: a_def filtered_args_def args_apart_def groups_apart_def apart_def Let_def demo_src_def
        sep_create_filtered_groups_def sep_create_filtered_privileges_def DISABLE_MAX_PRIVILEGE_def)
  obtain t m' where t: "sep_create_token 0 m1 5 0x10000 a = Ret (Some t, m', 5 + 1)"
    "same_outside 0x10000 (token_size m1 a) m1 m'" "privilege_count t = a_privilege_count a"
    by (rule create_token_effect [OF nz gc fit ap, of 0 5]) blast
  have "bytes m' 0x3fc 4 = bytes m1 0x3fc 4" by (rule same_outside_bytes [OF t(2)]) (simp add: apart_def)
  from ld_bytes_eq(3) [OF this, of 0] have "ld32 m' 0x3fc = 1" using c(1) by simp
  then obtain r t' where f: "se_filter_token 0 demo_filter_mem 5 0x10000 0x1000 demo_src 1 0 0 0x3fc 0x2000 = Ret r"
    "fr_new r = Some t'" "restricted_sid_count t' = 1" "privilege_count t' = 0"
    using t(1,3) c(1) a(4)
    by (simp add: se_filter_token_def m1_def [symmetric] a_def [symmetric] DISABLE_MAX_PRIVILEGE_def
        sep_set_restricted_sids_def Let_def)
  have n: "\<not> no_dacl demo_access_mem 0x10" by (simp add: no_dacl_def demo_acl)
  have p: "privileged_right demo_access_mem 0x10 t' = ACCESS_SYSTEM_SECURITY"
    by (simp add: privileged_right_def token_privilege_def sep_token_has_privilege_def f(4) demo_acl)
  have r: "1 = rtl_map_generic_mask GENERIC_READ (Some demo_map) AND NOT 0" by code_simp
  have "\<not> fst (se_access_check demo_access_mem 0x10 (Some (demo_ctx t')) GENERIC_READ 0 (Some demo_map))"
    by (rule filtered_restricted_denied [OF f(1,2) _ _ demo_effective n r])
       (simp_all add: f(3) p ACCESS_SYSTEM_SECURITY_def)
  then show ?thesis using f(1,2) by blast
qed

theorem generic_deny_ignored_witness:
  "sep_check_dacl_access demo_access_mem 0x40 demo_src (rtl_map_generic_mask GENERIC_ALL (Some demo_map) AND NOT 0) 0
     (Some demo_map) False = (True, 0x23)"
proof -
  have h: "ace_type demo_access_mem 0x48 = ACCESS_DENIED_ACE_TYPE"
    "ace_get_mask demo_access_mem 0x48 AND NOT (GENERIC_READ OR GENERIC_WRITE OR GENERIC_EXECUTE OR GENERIC_ALL) = 0"
    "generic_free demo_map"
    "dacl_walk demo_access_mem demo_src (Some demo_map) False [0x5c]
       (rtl_map_generic_mask GENERIC_ALL (Some demo_map) AND NOT 0) 0 = (True, 0x23)"
    by code_simp+
  show ?thesis
    using generic_deny_ignored [OF demo_acl(1) h(1-3), of demo_src GENERIC_ALL 0 0 False] h(4) by simp
qed

end
