(* ===== verification/KeState.thy ===== *)
theory KeState
  imports XPrelude
begin

text \<open>
  The data of the kernel dispatcher (\<open>ke/thread.rs\<close>, \<open>ke/event.rs\<close>, \<open>ke/timer.rs\<close>,
  \<open>ke/dpc.rs\<close>, \<open>ke/apc.rs\<close>, \<open>arch/x86_64/pcr.rs\<close>) and the queues of deferred work: DPCs of the
  processor and APCs of a thread.

  One processor is modelled: the code brings up no other one (\<open>ki_initialize_idle_thread\<close>
  refuses a processor number other than 0), and everything here runs under the dispatcher
  lock or at an IRQL that excludes the other operations, so an operation is a function from
  state to state. Structures are addressed by number and 0 is the null pointer. A ring of
  \<open>LIST_ENTRY\<close> links is the list of its members, and the links of a member being non-null is
  a flag of the member; linking a member that is already linked would corrupt both rings and
  is \<open>Undef\<close>. An \<open>i8\<close> or \<open>i32\<close> is an integer with the wrap-around or saturation of the source
  written out.
\<close>

section \<open>Signed machine integers\<close>

definition wrap_i8 :: "int \<Rightarrow> int" where "wrap_i8 x = (x + 128) mod 256 - 128"
definition wrap_i32 :: "int \<Rightarrow> int" where "wrap_i32 x = (x + 2147483648) mod 4294967296 - 2147483648"
definition saturate_i8 :: "int \<Rightarrow> int" where "saturate_i8 x = max (- 128) (min 127 x)"

lemma wrap_i8_id [simp]: "- 128 \<le> x \<Longrightarrow> x \<le> 127 \<Longrightarrow> wrap_i8 x = x"
  by (simp add: wrap_i8_def)

lemma wrap_i32_id [simp]: "- 2147483648 \<le> x \<Longrightarrow> x \<le> 2147483647 \<Longrightarrow> wrap_i32 x = x"
  by (simp add: wrap_i32_def)

lemma saturate_i8_id [simp]: "- 128 \<le> x \<Longrightarrow> x \<le> 127 \<Longrightarrow> saturate_i8 x = x"
  by (simp add: saturate_i8_def)

section \<open>Threads, wait blocks, dispatcher objects, timers\<close>

datatype KTHREAD_STATE =
  Initialized | Ready | Running | Standby | Terminated | Waiting | Transition | DeferredReady | GateWait

datatype KADJUST_REASON = AdjustNone | AdjustUnwait | AdjustBoost

text \<open>Wait blocks: the four built into a thread, or an element of an array of the caller.\<close>

datatype wait_block_ref = ThreadBlock nat nat | ArrayBlock nat nat

text \<open>Dispatcher objects: free-standing ones, and the timer inside a thread.\<close>

datatype object_ref = Object nat | ThreadTimer nat

text \<open>
  Where a thread that is not running continues: at its first instruction, inside
  \<open>ki_dispatch_on_current_processor\<close>, inside \<open>ki_swap_thread\<close>, or in the idle loop.
\<close>

datatype FRAME = StartupFrame | DispatchFrame | SwapThreadFrame | IdleLoopFrame

record KTHREAD =
  state :: KTHREAD_STATE
  priority :: int
  base_priority :: int
  priority_decrement :: int
  quantum :: int
  quantum_reset :: int
  adjust_reason :: KADJUST_REASON
  adjust_increment :: int
  disable_boost :: nat
  preempted :: bool
  queue_linked :: bool
  next_processor :: nat
  wait_status :: int
  wait_block_list :: "wait_block_ref list"
  wait_irql :: nat
  wait_time :: nat
  alertable :: bool
  wait_mode :: nat
  wait_reason :: nat
  kernel_apc_list :: "nat list"
  user_apc_list :: "nat list"
  kernel_apc_pending :: bool
  user_apc_pending :: bool
  special_apc_disable :: int
  process :: nat
  frame :: FRAME

record KWAIT_BLOCK =
  linked :: bool
  thread :: nat
  object :: object_ref
  wait_type :: nat
  wait_key :: nat

record DISPATCHER_HEADER =
  object_type :: nat
  signal_state :: int
  wait_list :: "wait_block_ref list"

record KTIMER =
  due_time :: u64
  inserted :: bool
  timer_dpc :: nat
  period :: int

record KTIMER_TABLE_ENTRY =
  entry :: "object_ref list"
  time :: u64

record KDPC =
  importance :: nat
  queued :: bool
  system_argument1 :: nat
  system_argument2 :: nat

record KAPC =
  apc_thread :: nat
  apc_mode :: int
  apc_inserted :: bool

record KPROCESS =
  process_base_priority :: int
  foreground :: nat
  foreground_boost :: int
  process_quantum :: int
  process_quantum_reset :: int

record KPRCB =
  current_thread :: nat
  next_thread :: nat
  idle_thread :: nat
  number :: nat
  ready_summary :: u32
  ready_list :: "nat list list"
  deferred_ready :: "nat list"
  quantum_end :: bool
  dpc_list :: "nat list"
  dpc_queue_depth :: u32
  dpc_requested :: bool
  dpc_interrupt_requested :: bool
  timer_request :: bool
  timer_hand :: nat

record KERNEL =
  threads :: "nat \<Rightarrow> KTHREAD"
  blocks :: "wait_block_ref \<Rightarrow> KWAIT_BLOCK"
  objects :: "object_ref \<Rightarrow> DISPATCHER_HEADER"
  timers :: "object_ref \<Rightarrow> KTIMER"
  timer_table :: "KTIMER_TABLE_ENTRY list"
  dpcs :: "nat \<Rightarrow> KDPC"
  apcs :: "nat \<Rightarrow> KAPC"
  processes :: "nat \<Rightarrow> KPROCESS"
  prcb :: KPRCB
  idle_summary :: u64
  dispatch_depth :: u32
  dispatcher_lock :: bool
  interrupt_time :: u64
  clock_readings :: "u64 list"
  base_time :: int
  tick_count :: u64
  time_increment :: u32

section \<open>Constants\<close>

definition LOW_PRIORITY :: int where "LOW_PRIORITY = 0"
definition LOW_REALTIME_PRIORITY :: int where "LOW_REALTIME_PRIORITY = 16"
definition HIGH_PRIORITY :: int where "HIGH_PRIORITY = 31"
definition THREAD_QUANTUM :: int where "THREAD_QUANTUM = 6"
definition CLOCK_QUANTUM_DECREMENT :: int where "CLOCK_QUANTUM_DECREMENT = 3"
definition PS_PRIORITY_SEPARATION :: int where "PS_PRIORITY_SEPARATION = 2"

definition EVENT_NOTIFICATION_OBJECT :: nat where "EVENT_NOTIFICATION_OBJECT = 0"
definition EVENT_SYNCHRONIZATION_OBJECT :: nat where "EVENT_SYNCHRONIZATION_OBJECT = 1"
definition MUTANT_OBJECT :: nat where "MUTANT_OBJECT = 2"
definition SEMAPHORE_OBJECT :: nat where "SEMAPHORE_OBJECT = 5"
definition TIMER_NOTIFICATION_OBJECT :: nat where "TIMER_NOTIFICATION_OBJECT = 8"
definition TIMER_SYNCHRONIZATION_OBJECT :: nat where "TIMER_SYNCHRONIZATION_OBJECT = 9"

lemmas priority_defs = LOW_PRIORITY_def LOW_REALTIME_PRIORITY_def HIGH_PRIORITY_def
  THREAD_QUANTUM_def CLOCK_QUANTUM_DECREMENT_def PS_PRIORITY_SEPARATION_def

lemmas object_type_defs = EVENT_NOTIFICATION_OBJECT_def EVENT_SYNCHRONIZATION_OBJECT_def
  MUTANT_OBJECT_def SEMAPHORE_OBJECT_def TIMER_NOTIFICATION_OBJECT_def
  TIMER_SYNCHRONIZATION_OBJECT_def

definition STATUS_TIMEOUT :: int where "STATUS_TIMEOUT = 258"
definition STATUS_KERNEL_APC :: int where "STATUS_KERNEL_APC = 256"
definition STATUS_USER_APC :: int where "STATUS_USER_APC = 192"

section \<open>Field access\<close>

definition thread_upd :: "nat \<Rightarrow> (KTHREAD \<Rightarrow> KTHREAD) \<Rightarrow> KERNEL \<Rightarrow> KERNEL" where
  "thread_upd t f s = s\<lparr>threads := (threads s)(t := f (threads s t))\<rparr>"

definition prcb_upd :: "(KPRCB \<Rightarrow> KPRCB) \<Rightarrow> KERNEL \<Rightarrow> KERNEL" where
  "prcb_upd f s = s\<lparr>prcb := f (prcb s)\<rparr>"

definition object_upd :: "object_ref \<Rightarrow> (DISPATCHER_HEADER \<Rightarrow> DISPATCHER_HEADER) \<Rightarrow> KERNEL \<Rightarrow> KERNEL" where
  "object_upd ob f s = s\<lparr>objects := (objects s)(ob := f (objects s ob))\<rparr>"

definition block_upd :: "wait_block_ref \<Rightarrow> (KWAIT_BLOCK \<Rightarrow> KWAIT_BLOCK) \<Rightarrow> KERNEL \<Rightarrow> KERNEL" where
  "block_upd b f s = s\<lparr>blocks := (blocks s)(b := f (blocks s b))\<rparr>"

definition timer_upd :: "object_ref \<Rightarrow> (KTIMER \<Rightarrow> KTIMER) \<Rightarrow> KERNEL \<Rightarrow> KERNEL" where
  "timer_upd r f s = s\<lparr>timers := (timers s)(r := f (timers s r))\<rparr>"

definition dpc_upd :: "nat \<Rightarrow> (KDPC \<Rightarrow> KDPC) \<Rightarrow> KERNEL \<Rightarrow> KERNEL" where
  "dpc_upd d f s = s\<lparr>dpcs := (dpcs s)(d := f (dpcs s d))\<rparr>"

definition apc_upd :: "nat \<Rightarrow> (KAPC \<Rightarrow> KAPC) \<Rightarrow> KERNEL \<Rightarrow> KERNEL" where
  "apc_upd a f s = s\<lparr>apcs := (apcs s)(a := f (apcs s a))\<rparr>"

lemmas upd_defs = thread_upd_def prcb_upd_def object_upd_def block_upd_def timer_upd_def
  dpc_upd_def apc_upd_def

definition get_state :: "nat \<Rightarrow> KERNEL \<Rightarrow> KTHREAD_STATE" where
  "get_state t s = state (threads s t)"

definition set_state :: "KTHREAD_STATE \<Rightarrow> nat \<Rightarrow> KERNEL \<Rightarrow> KERNEL" where
  "set_state st t s = thread_upd t (state_update (\<lambda>_. st)) s"

definition ki_query_low_tick_count :: "KERNEL \<Rightarrow> nat" where
  "ki_query_low_tick_count s = unat (tick_count s) mod 2 ^ 32"

text \<open>
  The clock interrupt is not masked at DISPATCH_LEVEL, so two reads of the clock inside one
  operation may differ. \<open>clock_readings\<close> holds the values the next reads return; when it is
  empty the clock stands still.
\<close>

definition ke_query_interrupt_time :: "KERNEL \<Rightarrow> u64 \<times> KERNEL" where
  "ke_query_interrupt_time s =
    (case clock_readings s of
       [] \<Rightarrow> (interrupt_time s, s)
     | c # cs \<Rightarrow> (c, s\<lparr>interrupt_time := c, clock_readings := cs\<rparr>))"

text \<open>
  The dispatcher lock is a spin lock: taking it while this processor holds it spins for ever,
  the outcome \<open>Panic\<close>.
\<close>

definition acquire_dispatcher_lock :: "KERNEL \<Rightarrow> KERNEL outcome" where
  "acquire_dispatcher_lock s =
    (if dispatcher_lock s then Panic else Ret (s\<lparr>dispatcher_lock := True\<rparr>))"

definition release_dispatcher_lock :: "KERNEL \<Rightarrow> KERNEL" where
  "release_dispatcher_lock s = s\<lparr>dispatcher_lock := False\<rparr>"

section \<open>DPC queue\<close>

text \<open>\<open>hal_request_software_interrupt\<close> at DISPATCH_LEVEL marks the processor and raises a self-IPI.\<close>

definition hal_request_software_interrupt :: "KERNEL \<Rightarrow> KERNEL" where
  "hal_request_software_interrupt s = prcb_upd (dpc_interrupt_requested_update (\<lambda>_. True)) s"

definition ki_request_dispatch_interrupt :: "KERNEL \<Rightarrow> KERNEL" where
  "ki_request_dispatch_interrupt s = hal_request_software_interrupt s"

definition ke_initialize_dpc :: "nat \<Rightarrow> KERNEL \<Rightarrow> KERNEL" where
  "ke_initialize_dpc d s = dpc_upd d
     (\<lambda>_. \<lparr>importance = 1, queued = False, system_argument1 = 0, system_argument2 = 0\<rparr>) s"

definition ke_set_importance_dpc :: "nat \<Rightarrow> nat \<Rightarrow> KERNEL \<Rightarrow> KERNEL" where
  "ke_set_importance_dpc d i s = dpc_upd d (importance_update (\<lambda>_. i)) s"

definition ke_insert_queue_dpc :: "nat \<Rightarrow> nat \<Rightarrow> nat \<Rightarrow> KERNEL \<Rightarrow> bool \<times> KERNEL" where
  "ke_insert_queue_dpc d a1 a2 s =
    (if queued (dpcs s d) then (False, s)
     else let s1 = dpc_upd d (\<lambda>x. x\<lparr>system_argument1 := a1, system_argument2 := a2, queued := True\<rparr>) s;
              s2 = prcb_upd (\<lambda>p. p\<lparr>dpc_queue_depth := dpc_queue_depth p + 1, dpc_requested := True,
                     dpc_list := (if 2 \<le> importance (dpcs s d) then d # dpc_list p
                                  else dpc_list p @ [d])\<rparr>) s1;
              s3 = (if dpc_interrupt_requested (prcb s2) then s2
                    else hal_request_software_interrupt s2)
          in (True, s3))"

definition ke_remove_queue_dpc :: "nat \<Rightarrow> KERNEL \<Rightarrow> bool \<times> KERNEL" where
  "ke_remove_queue_dpc d s =
    (if \<not> queued (dpcs s d) then (False, s)
     else (True, dpc_upd d (queued_update (\<lambda>_. False))
       (prcb_upd (\<lambda>p. p\<lparr>dpc_list := remove1 d (dpc_list p),
          dpc_queue_depth := (if dpc_queue_depth p = 0 then 0 else dpc_queue_depth p - 1)\<rparr>) s)))"

text \<open>
  \<open>ki_retire_dpc_list\<close> runs until the queue is empty. A routine is code of a driver, an
  argument of the model: what it does to the state, given its arguments. A routine may queue
  its own DPC again, so the loop need not end; the model is a partial function, and a
  result \<open>None\<close> is a loop that does not end.
\<close>

partial_function (option) ki_retire_dpc_list ::
  "(nat \<Rightarrow> nat \<Rightarrow> nat \<Rightarrow> KERNEL \<Rightarrow> KERNEL) \<Rightarrow> KERNEL \<Rightarrow> KERNEL option" where
  "ki_retire_dpc_list run s =
    (case dpc_list (prcb s) of
       [] \<Rightarrow> Some (prcb_upd (\<lambda>p. p\<lparr>dpc_requested := False, dpc_interrupt_requested := False,
               dpc_queue_depth := 0\<rparr>) s)
     | d # ds \<Rightarrow>
         ki_retire_dpc_list run (run d (system_argument1 (dpcs s d)) (system_argument2 (dpcs s d))
           (dpc_upd d (queued_update (\<lambda>_. False))
             (prcb_upd (\<lambda>p. p\<lparr>dpc_list := ds,
                dpc_queue_depth := (if dpc_queue_depth p = 0 then 0 else dpc_queue_depth p - 1)\<rparr>) s))))"

declare ki_retire_dpc_list.simps [code]

section \<open>APC queues\<close>

definition ke_initialize_apc :: "nat \<Rightarrow> nat \<Rightarrow> int \<Rightarrow> KERNEL \<Rightarrow> KERNEL" where
  "ke_initialize_apc a t mode s =
    (if a = 0 then s else apc_upd a (\<lambda>_. \<lparr>apc_thread = t, apc_mode = mode, apc_inserted = False\<rparr>) s)"

text \<open>\<open>apc_mode as usize\<close>: a negative mode becomes a huge number, so it is above 1 as well.\<close>

definition ke_insert_queue_apc :: "nat \<Rightarrow> KERNEL \<Rightarrow> bool \<times> KERNEL" where
  "ke_insert_queue_apc a s =
    (if a = 0 then (False, s)
     else let t = apc_thread (apcs s a) in
       if t = 0 then (False, s)
       else if apc_inserted (apcs s a) then (False, s)
       else let s1 = apc_upd a (apc_inserted_update (\<lambda>_. True)) s; m = apc_mode (apcs s a) in
         if m < 0 \<or> 1 < m then (False, s1)
         else if m = 0 then
           (True, thread_upd t (\<lambda>x. x\<lparr>kernel_apc_list := kernel_apc_list x @ [a],
              kernel_apc_pending := True\<rparr>) s1)
         else
           (True, thread_upd t (\<lambda>x. x\<lparr>user_apc_list := user_apc_list x @ [a],
              user_apc_pending := True\<rparr>) s1))"

text \<open>
  One round of the kernel part of \<open>ki_deliver_apc\<close> up to the call of the routine: the APC
  taken from the queue, or \<open>None\<close> when the loop ends. The flag of an APC in the queue that is
  not marked inserted makes the loop spin for ever, the outcome \<open>Panic\<close>.
\<close>

definition take_kernel_apc :: "nat \<Rightarrow> KERNEL \<Rightarrow> (nat option \<times> KERNEL) outcome" where
  "take_kernel_apc t s =
    (if \<not> kernel_apc_pending (threads s t) then Ret (None, s)
     else case kernel_apc_list (threads s t) of
       [] \<Rightarrow> Ret (None, thread_upd t (kernel_apc_pending_update (\<lambda>_. False)) s)
     | a # as \<Rightarrow>
         if \<not> apc_inserted (apcs s a) then Panic
         else Ret (Some a, thread_upd t
             (\<lambda>x. x\<lparr>kernel_apc_list := as, kernel_apc_pending := (if as = [] then False else True)\<rparr>)
             (apc_upd a (apc_inserted_update (\<lambda>_. False)) s)))"

end
