(* ===== verification/Sched.thy ===== *)
theory Sched
  imports KeState
begin

text \<open>
  The scheduler of one processor (\<open>ke/sched.rs\<close>, \<open>ke/priority.rs\<close>, the quantum part of
  \<open>ke/trap.rs\<close>, the switch in \<open>arch/x86_64/context.rs\<close>): 32 ready queues with a summary word,
  the next thread, the list of deferred ready threads, priority adjustment, quantum end and
  the dispatch of the next thread.
\<close>

section \<open>Ready summary\<close>

text \<open>Rust masks the shift amount of a \<open>u32\<close> to 5 bits in a release build.\<close>

definition shl_u32 :: "nat \<Rightarrow> u32" where "shl_u32 n = push_bit (n mod 32) 1"

definition leading_zeros :: "u32 \<Rightarrow> nat" where
  "leading_zeros w = length (takeWhile (\<lambda>i. \<not> bit w i) (rev [0..<32]))"

definition set_prcb_ready_summary :: "nat \<Rightarrow> KERNEL \<Rightarrow> KERNEL" where
  "set_prcb_ready_summary p s =
     prcb_upd (\<lambda>r. r\<lparr>ready_summary := ready_summary r OR shl_u32 p\<rparr>) s"

definition clear_prcb_ready_summary :: "nat \<Rightarrow> KERNEL \<Rightarrow> KERNEL" where
  "clear_prcb_ready_summary p s =
     prcb_upd (\<lambda>r. r\<lparr>ready_summary := ready_summary r AND NOT (shl_u32 p)\<rparr>) s"

section \<open>Queue operations\<close>

text \<open>
  Linking a thread into the ready queue of a priority. The index is checked: a priority that
  is negative or above 31 panics. A thread that is linked already would corrupt the rings.
\<close>

definition queue_insert :: "bool \<Rightarrow> nat \<Rightarrow> int \<Rightarrow> KERNEL \<Rightarrow> KERNEL outcome" where
  "queue_insert at_head t p s =
    (if \<not> (0 \<le> p \<and> p < 32) then Panic
     else if queue_linked (threads s t) then Undef
     else Ret (set_prcb_ready_summary (nat p)
       (thread_upd t (queue_linked_update (\<lambda>_. True))
         (prcb_upd (\<lambda>r. r\<lparr>ready_list := (ready_list r)[nat p :=
             (if at_head then t # ready_list r ! nat p else ready_list r ! nat p @ [t])]\<rparr>) s))))"

definition ki_set_prcb_next_thread :: "nat \<Rightarrow> KERNEL \<Rightarrow> KERNEL" where
  "ki_set_prcb_next_thread t s = prcb_upd (next_thread_update (\<lambda>_. t)) s"

definition make_standby :: "nat \<Rightarrow> KERNEL \<Rightarrow> KERNEL" where
  "make_standby t s = ki_set_prcb_next_thread t (set_state Standby t s)"

text \<open>The thread that was to run next goes back to the tail of its ready queue.\<close>

definition requeue_next :: "nat \<Rightarrow> KERNEL \<Rightarrow> KERNEL outcome" where
  "requeue_next n s =
    queue_insert False n (priority (threads s n))
      (set_state Ready n (thread_upd n (preempted_update (\<lambda>_. False)) s))"

definition preempt_current :: "nat \<Rightarrow> KERNEL \<Rightarrow> KERNEL" where
  "preempt_current cur s =
     ki_request_dispatch_interrupt (thread_upd cur (preempted_update (\<lambda>_. True)) s)"

definition ready_enqueue :: "nat \<Rightarrow> int \<Rightarrow> KERNEL \<Rightarrow> KERNEL outcome" where
  "ready_enqueue t p s =
    (let s1 = set_state Ready t s in
     if preempted (threads s1 t)
     then queue_insert True t p (thread_upd t (preempted_update (\<lambda>_. False)) s1)
     else queue_insert False t p s1)"

definition ki_ready_thread :: "nat \<Rightarrow> KERNEL \<Rightarrow> KERNEL outcome" where
  "ki_ready_thread t s0 =
    (if t = 0 then Ret s0
     else
       let p = priority (threads s0 t);
           s = thread_upd t (wait_time_update (\<lambda>_. ki_query_low_tick_count s0)) s0;
           cur = current_thread (prcb s); nx = next_thread (prcb s)
       in if cur \<noteq> 0 \<and> cur = idle_thread (prcb s) then
            (if nx = 0 then Ret (make_standby t s)
             else if priority (threads s nx) < priority (threads s t)
             then bind_out (requeue_next nx s) (\<lambda>s. Ret (make_standby t s))
             else queue_insert False t p (set_state Ready t s))
          else if cur \<noteq> 0 \<and> priority (threads s cur) < priority (threads s t) \<and> nx = 0
          then Ret (preempt_current cur (make_standby t s))
          else if cur \<noteq> 0 \<and> priority (threads s cur) < priority (threads s t) \<and>
                  priority (threads s nx) < priority (threads s t)
          then bind_out (requeue_next nx s) (\<lambda>s. Ret (preempt_current cur (make_standby t s)))
          else ready_enqueue t p s)"

definition ke_ready_thread :: "nat \<Rightarrow> KERNEL \<Rightarrow> KERNEL outcome" where
  "ke_ready_thread t s =
    (if t = 0 then Ret s
     else bind_out (acquire_dispatcher_lock s) (\<lambda>s.
          bind_out (ki_ready_thread t s) (\<lambda>s. Ret (release_dispatcher_lock s))))"

section \<open>Finding a ready thread\<close>

text \<open>Taking the first thread out of the queue of priority \<open>p\<close>, which is not empty.\<close>

definition queue_take :: "nat \<Rightarrow> nat \<Rightarrow> KERNEL \<Rightarrow> nat \<times> KERNEL" where
  "queue_take processor p s =
    (let t = hd (ready_list (prcb s) ! p);
         s1 = thread_upd t (queue_linked_update (\<lambda>_. False))
                (prcb_upd (\<lambda>r. r\<lparr>ready_list := (ready_list r)[p := tl (ready_list r ! p)]\<rparr>) s);
         s2 = (if ready_list (prcb s1) ! p = [] then clear_prcb_ready_summary p s1 else s1)
     in (t, thread_upd t (next_processor_update (\<lambda>_. processor)) s2))"

function find_ready_loop :: "nat \<Rightarrow> u32 \<Rightarrow> KERNEL \<Rightarrow> nat option \<times> KERNEL" where
  "find_ready_loop processor w s =
    (if w = 0 then (None, s)
     else let p = 31 - leading_zeros w in
       if ready_list (prcb s) ! p \<noteq> [] then
         (case queue_take processor p s of (t, s') \<Rightarrow> (Some t, s'))
       else find_ready_loop processor (w AND NOT (shl_u32 p)) s)"
  by pat_completeness auto

lemma shl_u32_bit: "bit (shl_u32 n) i \<longleftrightarrow> i = n mod 32"
proof -
  have "n mod 32 < 32" by simp
  then show ?thesis
    by (auto simp: shl_u32_def bit_exp_iff)
qed

lemma leading_zeros_top:
  assumes "w \<noteq> (0 :: u32)"
  shows "leading_zeros w < 32" and "bit w (31 - leading_zeros w)"
    and "31 - leading_zeros w < i \<Longrightarrow> \<not> bit w i"
proof -
  define l where "l = rev [0..<32::nat]"
  let ?P = "\<lambda>i. \<not> bit w i"
  have len: "length l = 32" and setl: "set l = {..<32}" by (auto simp: l_def)
  have nth: "l ! k = 31 - k" if "k < 32" for k
    using that by (simp add: rev_nth l_def)
  have lz: "leading_zeros w = length (takeWhile ?P l)"
    by (simp only: leading_zeros_def l_def)
  obtain j where j: "bit w j" "j < 32"
    using assms by (auto simp: bit_eq_iff dest: bit_imp_le_length)
  have "length (takeWhile ?P l) \<noteq> length l"
  proof
    assume "length (takeWhile ?P l) = length l"
    then have "takeWhile ?P l = l" by (metis takeWhile_eq_take take_all order_refl)
    then show False using j setl by (auto simp: takeWhile_eq_all_conv)
  qed
  then have lt: "length (takeWhile ?P l) < 32"
    using length_takeWhile_le [of ?P l] len by simp
  then show "leading_zeros w < 32" by (simp add: lz)
  show "bit w (31 - leading_zeros w)"
    using nth_length_takeWhile [of ?P l] lt nth len by (simp add: lz)
  show "\<not> bit w i" if "31 - leading_zeros w < i"
  proof (cases "i < 32")
    case True
    then have k: "31 - i < length (takeWhile ?P l)"
      using that lt by (simp add: lz)
    then have "takeWhile ?P l ! (31 - i) \<in> set (takeWhile ?P l)" by (rule nth_mem)
    then have "?P (takeWhile ?P l ! (31 - i))" by (blast dest: set_takeWhileD)
    then show ?thesis using True nth [of "31 - i"] takeWhile_nth [OF k] by simp
  next
    case False
    then show ?thesis using bit_imp_le_length [of w i] by auto
  qed
qed

lemma clear_bit_less:
  assumes "bit (w :: 'a::len word) p" and "bit m p"
  shows "unat (w AND NOT m) < unat w"
proof -
  have "w AND NOT m \<le> w" by (rule word_and_le2)
  moreover have "w AND NOT m \<noteq> w" using assms by (metis bit_and_iff bit_not_iff)
  ultimately have "w AND NOT m < w" by (rule le_neq_trans)
  then show ?thesis by (simp add: word_less_nat_alt)
qed

termination find_ready_loop
proof (relation "measure (\<lambda>(_, w, _). unat w)", goal_cases)
  case 1
  show ?case by simp
next
  case (2 processor w s p)
  then have "bit w p" and "p < 32" using leading_zeros_top [of w] by auto
  then show ?case
    using clear_bit_less [of w p "shl_u32 p"] by (simp add: shl_u32_bit)
qed

declare find_ready_loop.simps [simp del]

definition ki_find_ready_thread :: "nat \<Rightarrow> int \<Rightarrow> KERNEL \<Rightarrow> nat option \<times> KERNEL" where
  "ki_find_ready_thread processor low s =
    (if processor \<noteq> number (prcb s) then (None, s)
     else let m = (if low \<le> 0 then NOT 0 else NOT (shl_u32 (nat low) - 1)) in
       find_ready_loop processor (m AND ready_summary (prcb s)) s)"

definition ki_select_next_thread :: "nat \<Rightarrow> KERNEL \<Rightarrow> nat \<times> KERNEL" where
  "ki_select_next_thread processor s =
    (case ki_find_ready_thread processor 0 s of
       (Some t, s1) \<Rightarrow> (t, s1)
     | (None, s1) \<Rightarrow>
         if processor \<noteq> number (prcb s1) then (0, s1)
         else (idle_thread (prcb s1),
               s1\<lparr>idle_summary := idle_summary s1 OR push_bit (processor mod 64) 1\<rparr>))"

section \<open>Priorities\<close>

definition ki_compute_new_priority :: "nat \<Rightarrow> int \<Rightarrow> KERNEL \<Rightarrow> int \<times> KERNEL" where
  "ki_compute_new_priority t adjustment s =
    (if t = 0 then (8, s)
     else let p = priority (threads s t); base = base_priority (threads s t);
              dec = priority_decrement (threads s t)
       in if LOW_REALTIME_PRIORITY \<le> p then (p, s)
          else if 0 < dec then
            (wrap_i8 (max (wrap_i32 (p - adjustment)) base),
             thread_upd t (priority_decrement_update
               (\<lambda>_. wrap_i8 (max (wrap_i32 (dec - adjustment)) 0))) s)
          else if base < p then (wrap_i8 (max (wrap_i32 (p - adjustment)) base), s)
          else (base, s))"

text \<open>
  The adjustments of \<open>ki_deferred_ready_thread\<close>, one function for each reason; they change
  only the thread itself.
\<close>

definition adjust_boost :: "KTHREAD \<Rightarrow> KTHREAD" where
  "adjust_boost x =
    (let inc = adjust_increment x;
         x1 = (if disable_boost x = 0 \<and> priority x < LOW_REALTIME_PRIORITY - 3 \<and> 0 < inc \<and> priority x \<le> inc
               then let np = min (saturate_i8 (inc + 1)) (LOW_REALTIME_PRIORITY - 3);
                        delta = max (saturate_i8 (np - priority x)) 0
                 in x\<lparr>priority_decrement := saturate_i8 (priority_decrement x + delta), priority := np\<rparr>
               else x);
         x2 = (if quantum x1 < 4 then x1\<lparr>quantum := 4\<rparr> else x1)
     in x2\<lparr>quantum := saturate_i8 (quantum x2 - 1)\<rparr>)"

definition foreground_increment :: "nat \<Rightarrow> KERNEL \<Rightarrow> int" where
  "foreground_increment t s =
    (let p = process (threads s t) in
     if p \<noteq> 0 \<and> foreground (processes s p) \<noteq> 0 then
       (if foreground_boost (processes s p) = 0 then PS_PRIORITY_SEPARATION
        else foreground_boost (processes s p))
     else 0)"

definition unwait_quantum :: "nat \<Rightarrow> KERNEL \<Rightarrow> KERNEL" where
  "unwait_quantum t s =
    (let x = threads s t;
         s1 = (if priority_decrement x = 0 \<and> 0 < adjust_increment x
               then thread_upd t (quantum_update (\<lambda>_. quantum_reset x)) s else s)
     in if wait_status x \<noteq> STATUS_KERNEL_APC then
          (let s2 = thread_upd t (\<lambda>y. y\<lparr>quantum := saturate_i8 (quantum y - 1)\<rparr>) s1 in
           if quantum (threads s2 t) \<le> 0 then
             (case ki_compute_new_priority t 1 (thread_upd t (quantum_update (\<lambda>_. quantum_reset x)) s2) of
                (p, s3) \<Rightarrow> thread_upd t (priority_update (\<lambda>_. p)) s3)
           else s2)
        else s1)"

definition unwait_boost :: "nat \<Rightarrow> KERNEL \<Rightarrow> KERNEL" where
  "unwait_boost t s =
    (let x = threads s t; inc = adjust_increment x in
     if priority_decrement x = 0 \<and> disable_boost x = 0 \<and> 0 < inc then
       (let base_boost = saturate_i8 (base_priority x + inc);
            fg = foreground_increment t s;
            np0 = saturate_i8 (base_boost + fg);
            np = (if LOW_REALTIME_PRIORITY \<le> np0 then LOW_REALTIME_PRIORITY - 1 else np0)
        in if priority x < np then
             thread_upd t (\<lambda>y. y\<lparr>priority_decrement :=
                 (if 0 < fg \<and> base_boost < np then saturate_i8 (np - base_boost)
                  else priority_decrement y), priority := np\<rparr>) s
           else s)
     else s)"

definition adjust_unwait :: "nat \<Rightarrow> KERNEL \<Rightarrow> KERNEL" where
  "adjust_unwait t s =
    (let x = threads s t in
     if priority x < LOW_REALTIME_PRIORITY then
       (if LOW_REALTIME_PRIORITY - 2 \<le> base_priority x
        then thread_upd t (quantum_update (\<lambda>_. quantum_reset x)) s
        else unwait_boost t (unwait_quantum t s))
     else thread_upd t (quantum_update (\<lambda>_. quantum_reset x)) s)"

definition apply_adjustment :: "nat \<Rightarrow> KERNEL \<Rightarrow> KERNEL" where
  "apply_adjustment t s =
    (case adjust_reason (threads s t) of
       AdjustNone \<Rightarrow> s
     | AdjustBoost \<Rightarrow> thread_upd t (\<lambda>x. (adjust_boost x)\<lparr>adjust_reason := AdjustNone, adjust_increment := 0\<rparr>) s
     | AdjustUnwait \<Rightarrow> thread_upd t (\<lambda>x. x\<lparr>adjust_reason := AdjustNone, adjust_increment := 0\<rparr>)
         (adjust_unwait t s))"

section \<open>Deferred ready list\<close>

text \<open>
  The list is linked through the threads, so pushing a thread that is on it already would
  close a cycle.
\<close>

definition ki_insert_deferred_ready_list :: "nat \<Rightarrow> KERNEL \<Rightarrow> KERNEL outcome" where
  "ki_insert_deferred_ready_list t s =
    (if t = 0 then Ret s
     else if t \<in> set (deferred_ready (prcb s)) then Undef
     else Ret (prcb_upd (\<lambda>r. r\<lparr>deferred_ready := t # deferred_ready r\<rparr>) (set_state DeferredReady t s)))"

definition ki_deferred_ready_thread :: "nat \<Rightarrow> KERNEL \<Rightarrow> KERNEL outcome" where
  "ki_deferred_ready_thread t s =
    (if t = 0 then Ret s else ki_ready_thread t (apply_adjustment t s))"

fun ready_all :: "nat list \<Rightarrow> KERNEL \<Rightarrow> KERNEL outcome" where
  "ready_all [] s = Ret s"
| "ready_all (t # ts) s = bind_out (ki_deferred_ready_thread t s) (ready_all ts)"

definition ki_process_deferred_ready_list :: "KERNEL \<Rightarrow> KERNEL outcome" where
  "ki_process_deferred_ready_list s =
     ready_all (deferred_ready (prcb s)) (prcb_upd (deferred_ready_update (\<lambda>_. [])) s)"


section \<open>Waking a thread\<close>

text \<open>
  \<open>ki_insert_timer_table\<close> and the other timer operations are in the next theory; unlinking a
  thread from its wait cancels its timer, so the cancellation stands here.
\<close>

definition ki_compute_timer_table_index :: "u64 \<Rightarrow> KERNEL \<Rightarrow> nat" where
  "ki_compute_timer_table_index due s =
    (let inc = (if 0 < unat (time_increment s) then unat (time_increment s) else 100000)
     in (unat due div inc) mod 512)"

definition bucket_time :: "(object_ref \<Rightarrow> KTIMER) \<Rightarrow> object_ref list \<Rightarrow> u64" where
  "bucket_time tm es = (case es of [] \<Rightarrow> - 1 | e # _ \<Rightarrow> due_time (tm e))"

text \<open>
  The timer leaves whichever list it is linked in; the time that is refreshed is the one of
  the bucket its due time selects.
\<close>

definition kx_remove_tree_timer :: "object_ref \<Rightarrow> KERNEL \<Rightarrow> KERNEL" where
  "kx_remove_tree_timer r s =
    (let hand = ki_compute_timer_table_index (due_time (timers s r)) s;
         s1 = timer_upd r (inserted_update (\<lambda>_. False))
               (s\<lparr>timer_table := map (\<lambda>e. e\<lparr>entry := remove1 r (entry e)\<rparr>) (timer_table s)\<rparr>);
         e = timer_table s1 ! hand
     in s1\<lparr>timer_table := (timer_table s1)[hand := e\<lparr>time := bucket_time (timers s1) (entry e)\<rparr>]\<rparr>)"

definition ke_cancel_timer :: "object_ref \<Rightarrow> KERNEL \<Rightarrow> bool \<times> KERNEL" where
  "ke_cancel_timer r s =
    (if \<not> inserted (timers s r) then (False, s) else (True, kx_remove_tree_timer r s))"

definition unlink_block :: "wait_block_ref \<Rightarrow> KERNEL \<Rightarrow> KERNEL" where
  "unlink_block b s =
    (if linked (blocks s b)
     then block_upd b (linked_update (\<lambda>_. False))
            (object_upd (object (blocks s b)) (wait_list_update (remove1 b)) s)
     else s)"

definition ki_unlink_thread :: "nat \<Rightarrow> KERNEL \<Rightarrow> KERNEL" where
  "ki_unlink_thread t s =
    (if t = 0 then s
     else snd (ke_cancel_timer (ThreadTimer t)
       (thread_upd t (wait_block_list_update (\<lambda>_. []))
         (fold unlink_block (wait_block_list (threads s t)) s))))"

definition ki_unwait_thread :: "nat \<Rightarrow> int \<Rightarrow> int \<Rightarrow> KERNEL \<Rightarrow> KERNEL outcome" where
  "ki_unwait_thread t status inc s =
    (if t = 0 then Ret s
     else let s1 = thread_upd t (wait_status_update (\<lambda>_. status)) (ki_unlink_thread t s);
              s2 = (if priority (threads s1 t) < LOW_REALTIME_PRIORITY
                    then thread_upd t (\<lambda>x. x\<lparr>adjust_reason := AdjustUnwait, adjust_increment := inc\<rparr>) s1
                    else s1)
          in ki_insert_deferred_ready_list t s2)"

section \<open>Wait satisfaction\<close>

definition ki_wait_satisfy_any :: "object_ref \<Rightarrow> KERNEL \<Rightarrow> KERNEL" where
  "ki_wait_satisfy_any ob s =
    (if object_type (objects s ob) = EVENT_SYNCHRONIZATION_OBJECT \<or>
        object_type (objects s ob) = SEMAPHORE_OBJECT
     then object_upd ob (\<lambda>h. h\<lparr>signal_state := wrap_i32 (signal_state h - 1)\<rparr>) s else s)"

text \<open>One round of the loop of \<open>ki_wait_test\<close>, for the first wait block \<open>b\<close> of the object.\<close>

definition wait_test_round :: "object_ref \<Rightarrow> int \<Rightarrow> wait_block_ref \<Rightarrow> KERNEL \<Rightarrow> KERNEL outcome" where
  "wait_test_round ob inc b s =
    (let t = thread (blocks s b); key = int (wait_key (blocks s b)) in
     if t = 0 then Ret (object_upd ob (wait_list_update (remove1 b)) s)
     else if wait_type (blocks s b) = 0 then
       ki_unwait_thread t key inc (ki_wait_satisfy_any ob s)
     else if key = STATUS_TIMEOUT then ki_unwait_thread t key inc s
     else ki_unwait_thread t STATUS_KERNEL_APC 0 s)"

text \<open>
  The loop with fuel; running out of fuel is \<open>Panic\<close>. The fuel \<open>ki_wait_test\<close> gives is never
  used up: a round shortens the list or puts its thread on the deferred ready list without
  shortening it, and then the next round is \<open>Undef\<close>.
\<close>

fun wait_test_loop :: "nat \<Rightarrow> object_ref \<Rightarrow> int \<Rightarrow> KERNEL \<Rightarrow> KERNEL outcome" where
  "wait_test_loop n ob inc s =
    (if signal_state (objects s ob) \<le> 0 then Ret s
     else case wait_list (objects s ob) of
       [] \<Rightarrow> Ret s
     | b # _ \<Rightarrow> (case n of 0 \<Rightarrow> Panic
        | Suc m \<Rightarrow> bind_out (wait_test_round ob inc b s) (wait_test_loop m ob inc)))"

declare wait_test_loop.simps [simp del]

definition ki_wait_test :: "object_ref \<Rightarrow> int \<Rightarrow> KERNEL \<Rightarrow> KERNEL outcome" where
  "ki_wait_test ob inc s =
    (if ob = Object 0 then Ret s
     else wait_test_loop (Suc (length (wait_list (objects s ob)))) ob inc s)"

end
