(* ===== verification/Dispatch.thy ===== *)
theory Dispatch
  imports Sched
begin

text \<open>
  Running threads on the processor: the quantum of the current thread, the switch to the next
  thread, the dispatch interrupt, the idle loop, and the change of a thread's priority.
\<close>

section \<open>Quantum\<close>

definition ki_quantum_tick :: "KERNEL \<Rightarrow> KERNEL" where
  "ki_quantum_tick s =
    (let cur = current_thread (prcb s) in
     if cur = 0 then s
     else if cur = idle_thread (prcb s) then
       (if ready_summary (prcb s) \<noteq> 0 then prcb_upd (quantum_end_update (\<lambda>_. True)) s else s)
     else if LOW_REALTIME_PRIORITY \<le> priority (threads s cur) then s
     else if 0 < quantum (threads s cur) then
       (let s1 = thread_upd cur
              (\<lambda>x. x\<lparr>quantum := wrap_i8 (quantum x - CLOCK_QUANTUM_DECREMENT)\<rparr>) s
        in if quantum (threads s1 cur) \<le> 0
           then prcb_upd (quantum_end_update (\<lambda>_. True)) s1 else s1)
     else s)"

definition reset_quantum :: "nat \<Rightarrow> KERNEL \<Rightarrow> KERNEL" where
  "reset_quantum t s =
    (if quantum (threads s t) \<le> 0
     then thread_upd t (\<lambda>x. x\<lparr>quantum := (if 0 < quantum_reset x then quantum_reset x
            else THREAD_QUANTUM)\<rparr>) s
     else s)"

definition decay_priority :: "nat \<Rightarrow> KERNEL \<Rightarrow> KERNEL" where
  "decay_priority t s =
    (if 0 < priority_decrement (threads s t) then
       (case ki_compute_new_priority t 1 s of (p, s') \<Rightarrow> thread_upd t (priority_update (\<lambda>_. p)) s')
     else s)"

text \<open>The best ready thread of at least the given priority becomes the next thread.\<close>

definition pick_next :: "int \<Rightarrow> KERNEL \<Rightarrow> nat \<times> KERNEL" where
  "pick_next low s =
    (case ki_find_ready_thread (number (prcb s)) low s of
       (Some t, s1) \<Rightarrow> (t, make_standby t s1)
     | (None, s1) \<Rightarrow> (0, s1))"

text \<open>
  \<open>(current).priority as u32\<close> of a negative priority is above 31; the shift amount is then
  masked like every other.
\<close>

definition priority_u32 :: "int \<Rightarrow> nat" where "priority_u32 p = nat (p mod 4294967296)"

definition ki_quantum_end :: "KERNEL \<Rightarrow> (nat \<times> KERNEL) outcome" where
  "ki_quantum_end s0 =
    (let s = prcb_upd (quantum_end_update (\<lambda>_. False)) s0; cur = current_thread (prcb s) in
     if cur = 0 then Ret (0, s)
     else if next_thread (prcb s) \<noteq> 0 then Ret (next_thread (prcb s), s)
     else if cur = idle_thread (prcb s) then
       (if ready_summary (prcb s) \<noteq> 0 then Ret (pick_next 0 s) else Ret (0, s))
     else
       let s1 = reset_quantum cur s in
       if LOW_REALTIME_PRIORITY \<le> priority (threads s1 cur) then
         (let higher = priority (threads s1 cur) + 1 in
          if higher < 32 \<and> ready_summary (prcb s1) AND NOT (shl_u32 (nat higher) - 1) \<noteq> 0
          then Ret (pick_next higher s1) else Ret (0, s1))
       else
         let s2 = decay_priority cur s1;
             cp = priority_u32 (priority (threads s2 cur));
             m = (if cp = 0 then NOT 0 else NOT (shl_u32 cp - 1))
         in if ready_summary (prcb s2) AND m \<noteq> 0
            then bind_out (ki_ready_thread cur s2)
                   (\<lambda>s3. Ret (pick_next (wrap_i32 (int cp)) s3))
            else Ret (0, s2))"

section \<open>Switching\<close>

text \<open>
  \<open>ki_swap_context\<close>: the next thread becomes the current one and runs on from where it
  stopped. The part of the continuation that touches the dispatcher state is the return into
  \<open>ki_dispatch_on_current_processor\<close>, which decrements the depth counter; a thread that
  stopped elsewhere, or starts, does not. The address space, the register frames and the
  delivery of pending APCs are not part of this state.
\<close>

definition resume_thread :: "nat \<Rightarrow> KERNEL \<Rightarrow> KERNEL" where
  "resume_thread t s =
    (if frame (threads s t) = DispatchFrame then s\<lparr>dispatch_depth := dispatch_depth s - 1\<rparr> else s)"

definition ki_swap_context :: "FRAME \<Rightarrow> nat \<Rightarrow> KERNEL \<Rightarrow> KERNEL" where
  "ki_swap_context fr old s =
    (let new = next_thread (prcb s) in
     if new = 0 then s
     else
       let s1 = prcb_upd (\<lambda>p. p\<lparr>next_thread := 0, current_thread := new\<rparr>) s;
           s2 = set_state Running new s1;
           s3 = (if old \<noteq> 0 \<and> state (threads s2 old) = Running then set_state Ready old s2 else s2);
           s4 = thread_upd old (frame_update (\<lambda>_. fr)) s3
       in resume_thread new s4)"

text \<open>
  The choice made under the lock in \<open>ki_dispatch_on_current_processor\<close>: the thread to switch
  to, or 0 when the current one keeps the processor.
\<close>

definition dispatch_choose :: "KERNEL \<Rightarrow> nat \<times> KERNEL" where
  "dispatch_choose s =
    (if next_thread (prcb s) = 0 \<and> ready_summary (prcb s) \<noteq> 0 then
       (case ki_select_next_thread (number (prcb s)) s of
          (t, s1) \<Rightarrow> (t, if t \<noteq> 0 then ki_set_prcb_next_thread t s1 else s1))
     else (next_thread (prcb s), s))"

definition requeue_old :: "nat \<Rightarrow> KERNEL \<Rightarrow> KERNEL outcome" where
  "requeue_old old s =
    (if old = idle_thread (prcb s)
     then Ret (s\<lparr>idle_summary := idle_summary s AND NOT (push_bit (number (prcb s) mod 64) 1)\<rparr>)
     else if state (threads s old) = Running then
       (if \<not> queue_linked (threads s old) then ki_ready_thread old s else Ret (set_state Ready old s))
     else Ret s)"

definition dispatch_leave :: "KERNEL \<Rightarrow> KERNEL" where
  "dispatch_leave s = s\<lparr>dispatcher_lock := False, dispatch_depth := dispatch_depth s - 1\<rparr>"

definition dispatch_switch :: "KERNEL \<Rightarrow> KERNEL outcome" where
  "dispatch_switch s0 =
    (case dispatch_choose s0 of (nx, s) \<Rightarrow>
       let old = current_thread (prcb s) in
       if nx = 0 then Ret (dispatch_leave s)
       else if old = 0 \<or> old = nx
       then Ret (dispatch_leave (prcb_upd (next_thread_update (\<lambda>_. 0)) s))
       else
         let s1 = (if state (threads s nx) \<noteq> Standby then set_state Standby nx s else s)
         in bind_out (requeue_old old s1)
              (\<lambda>s2. Ret (ki_swap_context DispatchFrame old (release_dispatcher_lock s2))))"

definition dispatch_quantum :: "KERNEL \<Rightarrow> KERNEL outcome" where
  "dispatch_quantum s =
    (if quantum_end (prcb s) then
       bind_out (acquire_dispatcher_lock s) (\<lambda>s.
         bind_out (ki_quantum_end s) (\<lambda>(_, s). Ret (release_dispatcher_lock s)))
     else Ret s)"

definition ki_dispatch_on_current_processor :: "KERNEL \<Rightarrow> KERNEL outcome" where
  "ki_dispatch_on_current_processor s =
    (if 0 < dispatch_depth s then Ret s
     else bind_out (dispatch_quantum (s\<lparr>dispatch_depth := dispatch_depth s + 1\<rparr>)) (\<lambda>s.
          bind_out (acquire_dispatcher_lock s) (\<lambda>s.
          bind_out (if deferred_ready (prcb s) \<noteq> [] then ki_process_deferred_ready_list s else Ret s)
            dispatch_switch)))"

text \<open>
  \<open>ki_swap_thread\<close> is called with the dispatcher lock held by a thread that has put itself on
  its wait lists; its result is the wait status, read when the thread runs again.
\<close>

definition swap_thread_choose :: "KERNEL \<Rightarrow> nat \<times> KERNEL" where
  "swap_thread_choose s =
    (if next_thread (prcb s) \<noteq> 0 then (next_thread (prcb s), s)
     else ki_select_next_thread (number (prcb s)) s)"

definition ki_swap_thread :: "KERNEL \<Rightarrow> KERNEL" where
  "ki_swap_thread s0 =
    (let old = current_thread (prcb s0) in
     if old = 0 then release_dispatcher_lock s0
     else case swap_thread_choose s0 of (new, s) \<Rightarrow>
       if new = 0 \<or> new = old then release_dispatcher_lock s
       else ki_swap_context SwapThreadFrame old (release_dispatcher_lock (make_standby new s)))"

text \<open>
  One round of \<open>ki_idle_loop\<close> past the work of \<open>ki_dispatch_interrupt\<close>: the idle thread
  switches to the next thread or to the best ready thread, or halts.
\<close>

definition idle_round :: "KERNEL \<Rightarrow> KERNEL outcome" where
  "idle_round s =
    (if next_thread (prcb s) \<noteq> 0
     then Ret (ki_swap_context IdleLoopFrame (current_thread (prcb s)) s)
     else if ready_summary (prcb s) \<noteq> 0 then
       bind_out (acquire_dispatcher_lock s) (\<lambda>s.
         case ki_find_ready_thread (number (prcb s)) 0 s of
           (Some t, s1) \<Rightarrow>
             Ret (ki_swap_context IdleLoopFrame (current_thread (prcb s1))
               (release_dispatcher_lock (make_standby t s1)))
         | (None, s1) \<Rightarrow> Ret (release_dispatcher_lock s1))
     else Ret s)"

section \<open>Setting priorities\<close>

text \<open>
  \<open>ki_set_priority_thread\<close> retries when the thread is no longer where its state says; with
  one processor and the lock held nothing else runs, so a retry would spin for ever, the
  outcome \<open>Panic\<close>.
\<close>

definition replace_standby :: "nat \<Rightarrow> int \<Rightarrow> KERNEL \<Rightarrow> KERNEL outcome" where
  "replace_standby t p s =
    (case ki_find_ready_thread (next_processor (threads s t)) (p + 1) s of
       (Some n, s1) \<Rightarrow> ki_insert_deferred_ready_list t (make_standby n s1)
     | (None, s1) \<Rightarrow> Ret s1)"

definition remove_from_queue :: "nat \<Rightarrow> KERNEL \<Rightarrow> KERNEL" where
  "remove_from_queue t s =
    (let p = nat (priority (threads s t)) in
     if queue_linked (threads s t) then
       let s1 = thread_upd t (queue_linked_update (\<lambda>_. False))
             (prcb_upd (\<lambda>r. r\<lparr>ready_list := map (remove1 t) (ready_list r)\<rparr>) s)
       in if ready_list (prcb s1) ! p = [] then clear_prcb_ready_summary p s1 else s1
     else s)"

definition ki_set_priority_thread :: "nat \<Rightarrow> int \<Rightarrow> KERNEL \<Rightarrow> KERNEL outcome" where
  "ki_set_priority_thread t p s =
    (let x = threads s t; setp = thread_upd t (priority_update (\<lambda>_. p)) in
     if t = 0 \<or> priority x = p then Ret s
     else if state x \<in> {Ready, Standby, Running} \<and> next_processor x \<noteq> number (prcb s) then Ret (setp s)
     else case state x of
       Ready \<Rightarrow> ki_insert_deferred_ready_list t (setp (remove_from_queue t s))
     | Standby \<Rightarrow>
         if next_thread (prcb s) \<noteq> t then Panic
         else if p < priority x then replace_standby t p (setp s)
         else Ret (setp s)
     | Running \<Rightarrow>
         if current_thread (prcb s) \<noteq> t then Panic
         else if p < priority x \<and> next_thread (prcb s) = 0 then
           (case ki_find_ready_thread (next_processor x) (p + 1) (setp s) of
              (Some n, s1) \<Rightarrow> Ret (ki_request_dispatch_interrupt (make_standby n s1))
            | (None, s1) \<Rightarrow> Ret s1)
         else Ret (setp s)
     | _ \<Rightarrow> Ret (setp s))"

definition ke_set_priority_thread :: "nat \<Rightarrow> int \<Rightarrow> KERNEL \<Rightarrow> (int \<times> KERNEL) outcome" where
  "ke_set_priority_thread t p s =
    (if t = 0 then Ret (0, s)
     else bind_out (acquire_dispatcher_lock s) (\<lambda>s.
       let old = priority (threads s t);
           s1 = thread_upd t (priority_decrement_update (\<lambda>_. 0)) s
       in bind_out
            (if p \<noteq> priority (threads s1 t) then
               let s2 = thread_upd t (\<lambda>x. x\<lparr>quantum := quantum_reset x\<rparr>) s1;
                   np = (if base_priority (threads s2 t) \<noteq> 0 \<and> p = 0 then 1 else p)
               in ki_set_priority_thread t np s2
             else Ret s1)
            (\<lambda>s3. Ret (old, release_dispatcher_lock s3))))"

definition new_base_priority :: "int \<Rightarrow> int \<Rightarrow> int" where
  "new_base_priority pbase increment =
    max LOW_PRIORITY (min HIGH_PRIORITY (saturate_i8 (pbase + wrap_i8 increment)))"

definition ke_set_base_priority_thread :: "nat \<Rightarrow> int \<Rightarrow> KERNEL \<Rightarrow> (int \<times> KERNEL) outcome" where
  "ke_set_base_priority_thread t increment s =
    (if t = 0 then Ret (0, s)
     else bind_out (acquire_dispatcher_lock s) (\<lambda>s.
       let x = threads s t in
       if process x = 0 then Ret (0, release_dispatcher_lock s)
       else
         let pbase = process_base_priority (processes s (process x));
             old_base = base_priority x;
             old_increment = wrap_i8 (old_base - pbase);
             nb = new_base_priority pbase increment;
             s1 = thread_upd t (\<lambda>y. y\<lparr>base_priority := nb, priority_decrement := 0\<rparr>) s;
             np = (if priority x \<le> old_base then nb
                   else min HIGH_PRIORITY (saturate_i8 (nb + wrap_i8 (priority x - old_base))))
         in bind_out (if np \<noteq> priority (threads s1 t) then ki_set_priority_thread t np s1 else Ret s1)
              (\<lambda>s2. Ret (old_increment, release_dispatcher_lock s2))))"

end
