(* ===== verification/SchedInv.thy ===== *)
theory SchedInv
  imports Dispatch
begin

text \<open>
  The invariant of the scheduler: the ready queues, the summary word and the thread records
  agree, the deferred list holds threads in the deferred state, the next thread stands by, and
  every priority is in the 32 levels. Every operation keeps it and returns, so none of them
  corrupts a list, indexes past the queues or spins.
\<close>

section \<open>The invariant\<close>

definition queues_ok :: "KERNEL \<Rightarrow> bool" where
  "queues_ok s \<longleftrightarrow> length (ready_list (prcb s)) = 32 \<and>
     (\<forall>i<32. bit (ready_summary (prcb s)) i \<longleftrightarrow> ready_list (prcb s) ! i \<noteq> []) \<and>
     (\<forall>i<32. distinct (ready_list (prcb s) ! i)) \<and>
     (\<forall>i<32. \<forall>t\<in>set (ready_list (prcb s) ! i). t \<noteq> 0 \<and> queue_linked (threads s t) \<and>
        state (threads s t) = Ready \<and> priority (threads s t) = int i) \<and>
     (\<forall>t. queue_linked (threads s t) \<longrightarrow> t \<in> set (ready_list (prcb s) ! nat (priority (threads s t))))"

definition deferred_ok :: "KERNEL \<Rightarrow> bool" where
  "deferred_ok s \<longleftrightarrow> distinct (deferred_ready (prcb s)) \<and>
     (\<forall>t\<in>set (deferred_ready (prcb s)). t \<noteq> 0 \<and> state (threads s t) = DeferredReady \<and>
        \<not> queue_linked (threads s t))"

definition next_ok :: "KERNEL \<Rightarrow> bool" where
  "next_ok s \<longleftrightarrow> (next_thread (prcb s) \<noteq> 0 \<longrightarrow>
     state (threads s (next_thread (prcb s))) = Standby \<and>
     \<not> queue_linked (threads s (next_thread (prcb s))))"

definition priorities_ok :: "KERNEL \<Rightarrow> bool" where
  "priorities_ok s \<longleftrightarrow> (\<forall>t. 0 \<le> priority (threads s t) \<and> priority (threads s t) < 32 \<and>
     0 \<le> base_priority (threads s t) \<and> base_priority (threads s t) < 32)"

definition sched_inv :: "KERNEL \<Rightarrow> bool" where
  "sched_inv s \<longleftrightarrow> queues_ok s \<and> deferred_ok s \<and> next_ok s \<and> priorities_ok s"

lemmas sched_inv_defs = sched_inv_def queues_ok_def deferred_ok_def next_ok_def priorities_ok_def

section \<open>Field access lemmas\<close>

named_theorems kstate \<open>what the updates of the state change and leave alone\<close>

lemma thread_upd_access [kstate, simp]:
  "threads (thread_upd t f s) u = (if u = t then f (threads s t) else threads s u)"
  "prcb (thread_upd t f s) = prcb s"
  "objects (thread_upd t f s) = objects s" "blocks (thread_upd t f s) = blocks s"
  "timers (thread_upd t f s) = timers s" "timer_table (thread_upd t f s) = timer_table s"
  "dispatcher_lock (thread_upd t f s) = dispatcher_lock s"
  "dispatch_depth (thread_upd t f s) = dispatch_depth s"
  "processes (thread_upd t f s) = processes s"
  "time_increment (thread_upd t f s) = time_increment s"
  "tick_count (thread_upd t f s) = tick_count s"
  "interrupt_time (thread_upd t f s) = interrupt_time s"
  "clock_readings (thread_upd t f s) = clock_readings s"
  by (simp_all add: thread_upd_def)

lemma prcb_upd_access [kstate, simp]:
  "threads (prcb_upd g s) = threads s" "prcb (prcb_upd g s) = g (prcb s)"
  "objects (prcb_upd g s) = objects s" "blocks (prcb_upd g s) = blocks s"
  "timers (prcb_upd g s) = timers s" "timer_table (prcb_upd g s) = timer_table s"
  "dispatcher_lock (prcb_upd g s) = dispatcher_lock s"
  "dispatch_depth (prcb_upd g s) = dispatch_depth s" "processes (prcb_upd g s) = processes s"
  "time_increment (prcb_upd g s) = time_increment s"
  "tick_count (prcb_upd g s) = tick_count s"
  "interrupt_time (prcb_upd g s) = interrupt_time s"
  "clock_readings (prcb_upd g s) = clock_readings s"
  by (simp_all add: prcb_upd_def)

lemma set_state_access [kstate, simp]:
  "threads (set_state st t s) u =
     (if u = t then (threads s t)\<lparr>state := st\<rparr> else threads s u)"
  "prcb (set_state st t s) = prcb s"
  "objects (set_state st t s) = objects s" "blocks (set_state st t s) = blocks s"
  "timers (set_state st t s) = timers s" "timer_table (set_state st t s) = timer_table s"
  "dispatcher_lock (set_state st t s) = dispatcher_lock s"
  "dispatch_depth (set_state st t s) = dispatch_depth s"
  by (simp_all add: set_state_def)

text \<open>The part of the state the invariant reads.\<close>

lemma sched_inv_cong:
  assumes "prcb s' = prcb s"
    and "\<And>t. queue_linked (threads s' t) = queue_linked (threads s t)"
    and "\<And>t. state (threads s' t) = state (threads s t)"
    and "\<And>t. priority (threads s' t) = priority (threads s t)"
    and "\<And>t. base_priority (threads s' t) = base_priority (threads s t)"
  shows "sched_inv s' = sched_inv s"
  by (simp add: sched_inv_defs assms)

lemma sched_invD:
  assumes "sched_inv s"
  shows "length (ready_list (prcb s)) = 32"
    and "i < 32 \<Longrightarrow> bit (ready_summary (prcb s)) i \<longleftrightarrow> ready_list (prcb s) ! i \<noteq> []"
    and "i < 32 \<Longrightarrow> distinct (ready_list (prcb s) ! i)"
    and "i < 32 \<Longrightarrow> t \<in> set (ready_list (prcb s) ! i) \<Longrightarrow> t \<noteq> 0 \<and> queue_linked (threads s t) \<and>
       state (threads s t) = Ready \<and> priority (threads s t) = int i"
    and "queue_linked (threads s t) \<Longrightarrow> t \<in> set (ready_list (prcb s) ! nat (priority (threads s t)))"
    and "distinct (deferred_ready (prcb s))"
    and "t \<in> set (deferred_ready (prcb s)) \<Longrightarrow>
       t \<noteq> 0 \<and> state (threads s t) = DeferredReady \<and> \<not> queue_linked (threads s t)"
    and "next_thread (prcb s) \<noteq> 0 \<Longrightarrow> state (threads s (next_thread (prcb s))) = Standby \<and>
       \<not> queue_linked (threads s (next_thread (prcb s)))"
    and "0 \<le> priority (threads s t) \<and> priority (threads s t) < 32"
    and "0 \<le> base_priority (threads s t) \<and> base_priority (threads s t) < 32"
  using assms by (auto simp: sched_inv_defs)

lemma linked_Ready:
  assumes "sched_inv s" and "queue_linked (threads s t)"
  shows "state (threads s t) = Ready" and "t \<noteq> 0"
proof -
  have "nat (priority (threads s t)) < 32"
    using sched_invD(9) [OF assms(1), of t] by auto
  then show "state (threads s t) = Ready" and "t \<noteq> 0"
    using sched_invD(4) [OF assms(1)] sched_invD(5) [OF assms] by blast+
qed

text \<open>
  A thread outside every scheduler structure may be changed freely, as long as its priority
  stays in range and it does not claim to be linked.
\<close>

lemma detached_update_inv:
  assumes inv: "sched_inv s" and "\<not> queue_linked (threads s t)"
    and "t \<notin> set (deferred_ready (prcb s))" and "t \<noteq> next_thread (prcb s)"
    and "\<not> queue_linked (f (threads s t))"
    and "0 \<le> priority (f (threads s t))" "priority (f (threads s t)) < 32"
    and "0 \<le> base_priority (f (threads s t))" "base_priority (f (threads s t)) < 32"
  shows "sched_inv (thread_upd t f s)"
proof -
  have nq: "t \<notin> set (ready_list (prcb s) ! i)" if "i < 32" for i
    using sched_invD(4) [OF inv that, of t] assms(2) by auto
  have "queues_ok (thread_upd t f s)"
    using inv nq assms(5) by (auto simp: sched_inv_def queues_ok_def)
  moreover have "deferred_ok (thread_upd t f s)"
    using inv assms(3) by (auto simp: sched_inv_def deferred_ok_def)
  moreover have "next_ok (thread_upd t f s)"
    using inv assms(4) by (auto simp: sched_inv_def next_ok_def)
  moreover have "priorities_ok (thread_upd t f s)"
    using inv assms(6-9) by (auto simp: sched_inv_def priorities_ok_def)
  ultimately show ?thesis by (simp add: sched_inv_def)
qed

text \<open>A change of a thread that keeps its state, links and priorities.\<close>

lemma neutral_update_inv:
  assumes "\<And>x. queue_linked (f x) = queue_linked x" "\<And>x. state (f x) = state x"
    and "\<And>x. priority (f x) = priority x" "\<And>x. base_priority (f x) = base_priority x"
  shows "sched_inv (thread_upd t f s) = sched_inv s"
  by (rule sched_inv_cong) (auto simp: assms)

section \<open>Queue insertion and removal\<close>

definition detached :: "nat \<Rightarrow> KERNEL \<Rightarrow> bool" where
  "detached t s \<longleftrightarrow> t \<noteq> 0 \<and> \<not> queue_linked (threads s t) \<and>
     t \<notin> set (deferred_ready (prcb s)) \<and> t \<noteq> next_thread (prcb s)"

lemma queue_insert_wp:
  assumes inv: "sched_inv s" and det: "detached t s" and st: "state (threads s t) = Ready"
    and p: "p = priority (threads s t)"
  shows "wp_out (queue_insert h t p s) (\<lambda>s'. sched_inv s' \<and>
     s' = s\<lparr>threads := threads s', prcb := prcb s'\<rparr> \<and>
     threads s' = (threads s)(t := (threads s t)\<lparr>queue_linked := True\<rparr>) \<and>
     next_thread (prcb s') = next_thread (prcb s) \<and> current_thread (prcb s') = current_thread (prcb s) \<and>
     idle_thread (prcb s') = idle_thread (prcb s) \<and> deferred_ready (prcb s') = deferred_ready (prcb s) \<and>
     ready_list (prcb s') = (ready_list (prcb s))[nat p :=
        (if h then t # ready_list (prcb s) ! nat p else ready_list (prcb s) ! nat p @ [t])])"
proof -
  have pr: "0 \<le> p" "p < 32" using sched_invD(9) [OF inv, of t] p by auto
  have nl: "\<not> queue_linked (threads s t)" and t0: "t \<noteq> 0"
    and nd: "t \<notin> set (deferred_ready (prcb s))" and nn: "t \<noteq> next_thread (prcb s)"
    using det by (auto simp: detached_def)
  have nq: "t \<notin> set (ready_list (prcb s) ! i)" if "i < 32" for i
    using sched_invD(4) [OF inv that, of t] nl by auto
  have len: "length (ready_list (prcb s)) = 32" by (rule sched_invD(1) [OF inv])
  have np: "nat p < 32" using pr by auto
  define s' where "s' = set_prcb_ready_summary (nat p)
       (thread_upd t (queue_linked_update (\<lambda>_. True))
         (prcb_upd (\<lambda>r. r\<lparr>ready_list := (ready_list r)[nat p :=
             (if h then t # ready_list r ! nat p else ready_list r ! nat p @ [t])]\<rparr>) s))"
  have res: "queue_insert h t p s = Ret s'"
    using pr nl by (simp add: queue_insert_def s'_def)
  have th: "threads s' = (threads s)(t := (threads s t)\<lparr>queue_linked := True\<rparr>)"
    by (rule ext) (simp add: s'_def set_prcb_ready_summary_def)
  have pc: "prcb s' = (prcb s)\<lparr>ready_list := (ready_list (prcb s))[nat p :=
             (if h then t # ready_list (prcb s) ! nat p else ready_list (prcb s) ! nat p @ [t])],
             ready_summary := ready_summary (prcb s) OR shl_u32 (nat p)\<rparr>"
    by (simp add: s'_def set_prcb_ready_summary_def)
  have rl: "ready_list (prcb s') ! i = (if i = nat p
       then (if h then t # ready_list (prcb s) ! nat p else ready_list (prcb s) ! nat p @ [t])
       else ready_list (prcb s) ! i)" if "i < 32" for i
    using that len np by (simp add: pc nth_list_update)
  have bits: "bit (ready_summary (prcb s')) i \<longleftrightarrow> i = nat p \<or> bit (ready_summary (prcb s)) i" for i
    using np by (auto simp: pc bit_or_iff shl_u32_bit)
  have "queues_ok s'"
    unfolding queues_ok_def
  proof (intro conjI allI impI ballI)
    show "length (ready_list (prcb s')) = 32" by (simp add: pc len)
  next
    fix i :: nat assume i: "i < 32"
    show "bit (ready_summary (prcb s')) i \<longleftrightarrow> ready_list (prcb s') ! i \<noteq> []"
      using sched_invD(2) [OF inv i] rl [OF i] bits by auto
    show "distinct (ready_list (prcb s') ! i)"
      using sched_invD(3) [OF inv i] rl [OF i] nq [OF i] by auto
    fix u assume u: "u \<in> set (ready_list (prcb s') ! i)"
    show "u \<noteq> 0" "queue_linked (threads s' u)" "state (threads s' u) = Ready" "priority (threads s' u) = int i"
      using u rl [OF i] sched_invD(4) [OF inv i, of u] t0 st p pr
      by (auto simp: th split: if_splits)
  next
    fix u assume "queue_linked (threads s' u)"
    moreover have "nat (priority (threads s u)) < 32"
      using sched_invD(9) [OF inv, of u] by auto
    ultimately show "u \<in> set (ready_list (prcb s') ! nat (priority (threads s' u)))"
      using sched_invD(5) [OF inv, of u] rl [of "nat (priority (threads s u))"] p np
      by (auto simp: th rl split: if_splits)
  qed
  moreover have "deferred_ok s'" using inv nd by (auto simp: sched_inv_def deferred_ok_def th pc)
  moreover have "next_ok s'" using inv nn by (auto simp: sched_inv_def next_ok_def th pc)
  moreover have "priorities_ok s'" using inv by (auto simp: sched_inv_def priorities_ok_def th)
  ultimately have "sched_inv s'" by (simp add: sched_inv_def)
  moreover have "s' = s\<lparr>threads := threads s', prcb := prcb s'\<rparr>"
    by (simp add: s'_def set_prcb_ready_summary_def upd_defs)
  ultimately show ?thesis by (simp add: res th pc)
qed


section \<open>Readying a thread\<close>

text \<open>A thread that is ready to run is in a ready queue or is the next thread.\<close>

definition placed :: "nat \<Rightarrow> KERNEL \<Rightarrow> bool" where
  "placed t s \<longleftrightarrow> queue_linked (threads s t) \<or> (next_thread (prcb s) = t \<and> t \<noteq> 0)"

lemma placed_not_detached: "placed t s \<Longrightarrow> \<not> detached t s"
  by (auto simp: placed_def detached_def)

text \<open>
  What readying \<open>t\<close> promises: the invariant holds, \<open>t\<close> is placed, nothing that was placed
  is lost, and only \<open>t\<close> leaves the detached threads.
\<close>

definition readied :: "nat \<Rightarrow> KERNEL \<Rightarrow> KERNEL \<Rightarrow> bool" where
  "readied t s s' \<longleftrightarrow> sched_inv s' \<and> placed t s' \<and> (\<forall>u. placed u s \<longrightarrow> placed u s') \<and>
     (\<forall>u. u \<noteq> t \<longrightarrow> detached u s \<longrightarrow> detached u s') \<and>
     current_thread (prcb s') = current_thread (prcb s) \<and> idle_thread (prcb s') = idle_thread (prcb s) \<and>
     deferred_ready (prcb s') = deferred_ready (prcb s) \<and>
     (\<forall>u. u \<noteq> t \<longrightarrow> \<not> placed u s \<longrightarrow> state (threads s' u) = state (threads s u)) \<and>
     next_thread (prcb s') \<in> {next_thread (prcb s), t} \<and>
     dispatcher_lock s' = dispatcher_lock s \<and> dispatch_depth s' = dispatch_depth s"

lemma readiedD:
  assumes "readied t s s'"
  shows "sched_inv s'" and "placed t s'" and "placed u s \<Longrightarrow> placed u s'"
    and "u \<noteq> t \<Longrightarrow> detached u s \<Longrightarrow> detached u s'"
    and "deferred_ready (prcb s') = deferred_ready (prcb s)"
    and "dispatcher_lock s' = dispatcher_lock s" and "dispatch_depth s' = dispatch_depth s"
    and "current_thread (prcb s') = current_thread (prcb s)"
    and "idle_thread (prcb s') = idle_thread (prcb s)"
    and "u \<noteq> t \<Longrightarrow> \<not> placed u s \<Longrightarrow> state (threads s' u) = state (threads s u)"
    and "next_thread (prcb s') \<in> {next_thread (prcb s), t}"
  using assms by (auto simp: readied_def)

lemma next_access [kstate, simp]:
  "threads (ki_set_prcb_next_thread n s) = threads s"
  "prcb (ki_set_prcb_next_thread n s) = (prcb s)\<lparr>next_thread := n\<rparr>"
  "dispatcher_lock (ki_set_prcb_next_thread n s) = dispatcher_lock s"
  "dispatch_depth (ki_set_prcb_next_thread n s) = dispatch_depth s"
  by (simp_all add: ki_set_prcb_next_thread_def)

lemma make_standby_access [kstate, simp]:
  "threads (make_standby t s) u = (if u = t then (threads s t)\<lparr>state := Standby\<rparr> else threads s u)"
  "prcb (make_standby t s) = (prcb s)\<lparr>next_thread := t\<rparr>"
  "dispatcher_lock (make_standby t s) = dispatcher_lock s"
  "dispatch_depth (make_standby t s) = dispatch_depth s"
  by (simp_all add: make_standby_def)

lemma preempt_current_access [kstate, simp]:
  "threads (preempt_current c s) u = (if u = c then (threads s c)\<lparr>preempted := True\<rparr> else threads s u)"
  "prcb (preempt_current c s) = (prcb s)\<lparr>dpc_interrupt_requested := True\<rparr>"
  "dispatcher_lock (preempt_current c s) = dispatcher_lock s"
  "dispatch_depth (preempt_current c s) = dispatch_depth s"
  by (simp_all add: preempt_current_def ki_request_dispatch_interrupt_def hal_request_software_interrupt_def)

lemma clear_next_inv: "sched_inv s \<Longrightarrow> sched_inv (ki_set_prcb_next_thread 0 s)"
  by (simp add: sched_inv_defs)

lemma make_standby_inv:
  assumes inv: "sched_inv s" and det: "detached t s"
  shows "sched_inv (make_standby t s)"
proof -
  have "sched_inv (thread_upd t (state_update (\<lambda>_. Standby)) s)"
    by (rule detached_update_inv)
      (use det sched_invD(9,10) [OF inv] in \<open>auto simp: inv detached_def\<close>)
  then have "sched_inv (set_state Standby t s)" by (simp add: set_state_def)
  then show ?thesis
    using det by (auto simp: sched_inv_defs detached_def)
qed

lemma preempt_current_inv: "sched_inv (preempt_current c s) = sched_inv s"
  by (auto simp: sched_inv_defs)

lemma preempt_current_placed [simp]:
  "placed t (preempt_current c s) = placed t s" "detached t (preempt_current c s) = detached t s"
  by (auto simp: placed_def detached_def)

text \<open>Whatever the next thread is when the old next thread is requeued, it is overwritten.\<close>

lemma requeue_standby_clear:
  "bind_out (requeue_next n s) (\<lambda>s. Ret (make_standby t s)) =
   bind_out (requeue_next n (ki_set_prcb_next_thread 0 s)) (\<lambda>s. Ret (make_standby t s))"
  by (simp add: requeue_next_def queue_insert_def upd_defs set_state_def make_standby_def
      ki_set_prcb_next_thread_def set_prcb_ready_summary_def)

lemma make_standby_readied:
  assumes inv: "sched_inv s" and det: "detached t s" and nx: "next_thread (prcb s) = 0"
  shows "readied t s (make_standby t s)"
  using make_standby_inv [OF inv det] det nx
  by (auto simp: readied_def placed_def detached_def)

lemma requeue_standby_wp:
  assumes inv: "sched_inv s" and det: "detached t s" and nx: "next_thread (prcb s) \<noteq> 0"
  shows "wp_out (bind_out (requeue_next (next_thread (prcb s)) s) (\<lambda>s. Ret (make_standby t s)))
           (readied t s)"
proof -
  let ?n = "next_thread (prcb s)"
  let ?s0 = "ki_set_prcb_next_thread 0 s"
  let ?s1 = "set_state Ready ?n (thread_upd ?n (preempted_update (\<lambda>_. False)) ?s0)"
  have nst: "state (threads s ?n) = Standby" "\<not> queue_linked (threads s ?n)"
    using sched_invD(8) [OF inv nx] by auto
  have nd: "?n \<notin> set (deferred_ready (prcb s))"
    using sched_invD(7) [OF inv, of ?n] nst by auto
  have "sched_inv (thread_upd ?n (\<lambda>x. x\<lparr>preempted := False, state := Ready\<rparr>) ?s0)"
    by (rule detached_update_inv [OF clear_next_inv [OF inv]])
      (use nst nd nx sched_invD(9,10) [OF inv] in auto)
  moreover have "thread_upd ?n (\<lambda>x. x\<lparr>preempted := False, state := Ready\<rparr>) ?s0 = ?s1"
    by (simp add: set_state_def upd_defs)
  ultimately have inv1: "sched_inv ?s1" by simp
  have det1: "detached ?n ?s1" using nx nst nd by (simp add: detached_def)
  have "wp_out (requeue_next ?n ?s0) (\<lambda>s'. readied t s (make_standby t s'))"
    unfolding requeue_next_def
  proof (rule wp_mono [OF queue_insert_wp [OF inv1 det1]], goal_cases)
    case (3 s')
    then have inv': "sched_inv s'" and th: "\<And>u. threads s' u = (if u = ?n then (threads ?s1 ?n)\<lparr>queue_linked := True\<rparr> else threads s u)"
      and pc: "next_thread (prcb s') = 0" "current_thread (prcb s') = current_thread (prcb s)"
        "idle_thread (prcb s') = idle_thread (prcb s)" "deferred_ready (prcb s') = deferred_ready (prcb s)"
      and lk: "dispatcher_lock s' = dispatcher_lock s" "dispatch_depth s' = dispatch_depth s"
      by (auto intro: sym [THEN trans] dest: arg_cong [of s' _ dispatcher_lock] arg_cong [of s' _ dispatch_depth])
    have tn: "t \<noteq> ?n" using det by (auto simp: detached_def)
    have det': "detached t s'" using det tn th pc by (auto simp: detached_def)
    show ?case
      using make_standby_inv [OF inv' det'] det nx tn th pc lk
      by (auto simp: readied_def placed_def detached_def)
  qed simp_all
  then show ?thesis by (simp add: requeue_standby_clear [of _ s])
qed


lemma thread_upd_twice:
  "thread_upd t f (thread_upd t g s) = thread_upd t (\<lambda>x. f (g x)) s"
  by (simp add: upd_defs)

lemma queue_ready_wp:
  assumes inv: "sched_inv s" and det: "detached t s" and p: "p = priority (threads s t)"
    and f: "\<And>x. state (f x) = Ready" "\<And>x. queue_linked (f x) = queue_linked x"
      "\<And>x. priority (f x) = priority x" "\<And>x. base_priority (f x) = base_priority x"
  shows "wp_out (queue_insert h t p (thread_upd t f s)) (readied t s)"
proof -
  let ?s1 = "thread_upd t f s"
  have inv1: "sched_inv ?s1"
    by (rule detached_update_inv [OF inv])
      (use det sched_invD(9,10) [OF inv] in \<open>auto simp: detached_def f\<close>)
  have det1: "detached t ?s1" using det by (simp add: detached_def f)
  show ?thesis
  proof (rule wp_mono [OF queue_insert_wp [OF inv1 det1]], goal_cases)
    case (3 s')
    then have "dispatcher_lock s' = dispatcher_lock s" "dispatch_depth s' = dispatch_depth s"
      by (auto dest: arg_cong [of s' _ dispatcher_lock] arg_cong [of s' _ dispatch_depth])
    with 3 show ?case using det
      by (auto simp: readied_def placed_def detached_def f)
  qed (simp_all add: p f)
qed

lemma ready_enqueue_wp:
  assumes "sched_inv s" and "detached t s" and "p = priority (threads s t)"
  shows "wp_out (ready_enqueue t p s) (readied t s)"
  using queue_ready_wp [OF assms, of "\<lambda>x. x\<lparr>state := Ready, preempted := False\<rparr>" True]
    queue_ready_wp [OF assms, of "\<lambda>x. x\<lparr>state := Ready\<rparr>" False]
  by (simp add: ready_enqueue_def Let_def set_state_def thread_upd_twice)

lemma readied_preempt [simp]: "readied t s (preempt_current c s') = readied t s s'"
proof -
  have "state (threads (preempt_current c s') u) = state (threads s' u)" for u by simp
  then show ?thesis
    by (simp add: readied_def preempt_current_inv del: preempt_current_access(1))
qed

lemma readied_wait_time [simp]: "readied t (thread_upd t (wait_time_update g) s) = readied t s"
proof -
  let ?s = "thread_upd t (wait_time_update g) s"
  have "placed u ?s = placed u s" "detached u ?s = detached u s"
    "state (threads ?s u) = state (threads s u)" for u
    by (auto simp: placed_def detached_def)
  then show ?thesis
    by (intro ext) (simp add: readied_def del: thread_upd_access(1))
qed

theorem ki_ready_thread_wp:
  assumes inv: "sched_inv s" and det: "detached t s"
  shows "wp_out (ki_ready_thread t s) (readied t s)"
proof -
  let ?s = "thread_upd t (wait_time_update (\<lambda>_. ki_query_low_tick_count s)) s"
  have inv': "sched_inv ?s" using inv by (simp add: neutral_update_inv)
  have det': "detached t ?s" using det by (simp add: detached_def)
  have t0: "t \<noteq> 0" using det by (simp add: detached_def)
  have stay: "next_thread (prcb ?s) = 0 \<Longrightarrow> readied t s (make_standby t ?s)"
    using make_standby_readied [OF inv' det'] by simp
  have swap: "next_thread (prcb ?s) \<noteq> 0 \<Longrightarrow>
      wp_out (bind_out (requeue_next (next_thread (prcb ?s)) ?s) (\<lambda>s. Ret (make_standby t s))) (readied t s)"
    using requeue_standby_wp [OF inv' det'] by (simp del: wp_bind)
  have enq: "wp_out (queue_insert False t (priority (threads s t)) (set_state Ready t ?s)) (readied t s)"
    using queue_ready_wp [OF inv' det' refl, of "\<lambda>x. x\<lparr>state := Ready\<rparr>"] by (simp add: set_state_def)
  have enq2: "wp_out (ready_enqueue t (priority (threads s t)) ?s) (readied t s)"
    using ready_enqueue_wp [OF inv' det' refl] by simp
  show ?thesis
    unfolding ki_ready_thread_def Let_def if_not_P [OF t0]
    using stay swap enq enq2 by (auto intro!: wp_if)
qed


section \<open>Priority adjustment\<close>

text \<open>
  An adjustment changes the thread alone, keeps its state, links and base priority, and leaves
  a priority of the 32 levels in the 32 levels.
\<close>

definition in_levels :: "KTHREAD \<Rightarrow> bool" where
  "in_levels x \<longleftrightarrow> 0 \<le> priority x \<and> priority x < 32 \<and> 0 \<le> base_priority x \<and> base_priority x < 32"

definition own_change :: "nat \<Rightarrow> KERNEL \<Rightarrow> KERNEL \<Rightarrow> bool" where
  "own_change t s s' \<longleftrightarrow> (\<exists>x. s' = thread_upd t (\<lambda>_. x) s \<and> queue_linked x = queue_linked (threads s t) \<and>
     state x = state (threads s t) \<and> base_priority x = base_priority (threads s t) \<and>
     (in_levels (threads s t) \<longrightarrow> in_levels x))"

lemma own_change_refl [simp]: "own_change t s s"
  unfolding own_change_def by (rule exI [of _ "threads s t"]) (simp add: upd_defs)

lemma own_change_trans: "own_change t s s' \<Longrightarrow> own_change t s' s'' \<Longrightarrow> own_change t s s''"
  by (auto simp: own_change_def thread_upd_twice)

lemma own_change_levels: "own_change t s s' \<Longrightarrow> in_levels (threads s t) \<Longrightarrow> in_levels (threads s' t)"
  by (auto simp: own_change_def)

lemma own_change_update:
  assumes "queue_linked (f (threads s t)) = queue_linked (threads s t)"
    and "state (f (threads s t)) = state (threads s t)"
    and "base_priority (f (threads s t)) = base_priority (threads s t)"
    and "in_levels (threads s t) \<Longrightarrow> in_levels (f (threads s t))"
  shows "own_change t s (thread_upd t f s)"
  unfolding own_change_def
  by (rule exI [of _ "f (threads s t)"]) (simp add: assms upd_defs)

lemma compute_new_priority_own:
  assumes "ki_compute_new_priority t 1 s = (p, s')" and "t \<noteq> 0"
  shows "own_change t s s'" and "in_levels (threads s t) \<Longrightarrow> 0 \<le> p \<and> p < 32"
    and "in_levels (threads s t) \<Longrightarrow> p \<le> max (priority (threads s t)) (base_priority (threads s t))"
proof -
  show "own_change t s s'"
    using assms
    by (auto simp: ki_compute_new_priority_def Let_def split: if_splits intro!: own_change_update
        simp: in_levels_def)
  show "0 \<le> p \<and> p < 32" if "in_levels (threads s t)"
    using assms that
    by (auto simp: ki_compute_new_priority_def Let_def in_levels_def split: if_splits)
  show "p \<le> max (priority (threads s t)) (base_priority (threads s t))" if "in_levels (threads s t)"
    using assms that
    by (auto simp: ki_compute_new_priority_def Let_def in_levels_def split: if_splits)
qed

lemma adjust_boost_fields:
  "queue_linked (adjust_boost x) = queue_linked x" "state (adjust_boost x) = state x"
  "base_priority (adjust_boost x) = base_priority x"
  by (simp_all add: adjust_boost_def Let_def)

lemma adjust_boost_priority:
  "priority (adjust_boost x) =
    (if disable_boost x = 0 \<and> priority x < 13 \<and> 0 < adjust_increment x \<and> priority x \<le> adjust_increment x
     then min (saturate_i8 (adjust_increment x + 1)) 13 else priority x)"
proof (cases "disable_boost x = 0 \<and> priority x < 13 \<and> 0 < adjust_increment x \<and> priority x \<le> adjust_increment x")
  case True
  then show ?thesis by (simp add: adjust_boost_def Let_def priority_defs)
next
  case False
  then have "\<not> (disable_boost x = 0 \<and> priority x < LOW_REALTIME_PRIORITY - 3 \<and> 0 < adjust_increment x \<and>
      priority x \<le> adjust_increment x)"
    by (simp add: priority_defs)
  then show ?thesis by (simp only: adjust_boost_def Let_def if_not_P [OF False] if_not_P) simp
qed

lemma adjust_boost_levels: "in_levels x \<Longrightarrow> in_levels (adjust_boost x)"
  by (auto simp: in_levels_def adjust_boost_fields adjust_boost_priority saturate_i8_def)

lemma unwait_quantum_own:
  assumes "t \<noteq> 0"
  shows "own_change t s (unwait_quantum t s)"
proof -
  let ?x = "threads s t"
  let ?s1 = "if priority_decrement ?x = 0 \<and> 0 < adjust_increment ?x
               then thread_upd t (quantum_update (\<lambda>_. quantum_reset ?x)) s else s"
  let ?s2 = "thread_upd t (\<lambda>y. y\<lparr>quantum := saturate_i8 (quantum y - 1)\<rparr>) ?s1"
  let ?s2' = "thread_upd t (quantum_update (\<lambda>_. quantum_reset ?x)) ?s2"
  obtain p s3 where c: "ki_compute_new_priority t 1 ?s2' = (p, s3)" by (meson surj_pair)
  have q: "own_change t s (thread_upd t (quantum_update g) s)" for g s
    by (rule own_change_update) (simp_all add: in_levels_def)
  have 1: "own_change t s ?s1" using q by auto
  have 2: "own_change t s ?s2"
    by (rule own_change_trans [OF 1]) (rule own_change_update, simp_all add: in_levels_def)
  have 3: "own_change t s ?s2'" by (rule own_change_trans [OF 2 q])
  have 4: "own_change t s s3"
    by (rule own_change_trans [OF 3 compute_new_priority_own(1) [OF c assms]])
  have 5: "own_change t s (thread_upd t (priority_update (\<lambda>_. p)) s3)"
  proof -
    have "in_levels (threads s t) \<Longrightarrow> in_levels (threads ?s2' t)"
      using 3 by (rule own_change_levels)
    moreover obtain x where "s3 = thread_upd t (\<lambda>_. x) s" "base_priority x = base_priority (threads s t)"
      "queue_linked x = queue_linked (threads s t)" "state x = state (threads s t)"
      using 4 by (auto simp: own_change_def)
    ultimately show ?thesis
      using compute_new_priority_own(2) [OF c assms]
      by (auto simp: thread_upd_twice in_levels_def intro!: own_change_update)
  qed
  show ?thesis
    unfolding unwait_quantum_def Let_def using 1 2 5 c by (auto split: prod.splits)
qed

lemma unwait_boost_own: "own_change t s (unwait_boost t s)"
  by (auto simp: unwait_boost_def Let_def in_levels_def priority_defs intro!: own_change_update)

lemma apply_adjustment_own:
  assumes "t \<noteq> 0"
  shows "own_change t s (apply_adjustment t s)"
proof -
  have q: "own_change t s (thread_upd t (quantum_update g) s)" for g
    by (rule own_change_update) (simp_all add: in_levels_def)
  have u: "own_change t s (adjust_unwait t s)"
    using own_change_trans [OF unwait_quantum_own [OF assms] unwait_boost_own] q
    by (simp add: adjust_unwait_def Let_def)
  have "own_change t s (thread_upd t (\<lambda>x. x\<lparr>adjust_reason := AdjustNone, adjust_increment := 0\<rparr>) (adjust_unwait t s))"
    by (rule own_change_trans [OF u], rule own_change_update) (simp_all add: in_levels_def)
  moreover have "own_change t s (thread_upd t (\<lambda>x. (adjust_boost x)\<lparr>adjust_reason := AdjustNone, adjust_increment := 0\<rparr>) s)"
    by (rule own_change_update) (use adjust_boost_levels in \<open>simp_all add: in_levels_def adjust_boost_fields\<close>)
  ultimately show ?thesis
    by (auto simp: apply_adjustment_def split: KADJUST_REASON.split)
qed

lemma own_change_inv:
  assumes inv: "sched_inv s" and det: "detached t s" and own: "own_change t s s'"
  shows "sched_inv s'" and "detached t s'" and "placed u s' = placed u s"
    and "detached u s' = detached u s" and "prcb s' = prcb s"
    and "dispatcher_lock s' = dispatcher_lock s" and "dispatch_depth s' = dispatch_depth s"
    and "state (threads s' u) = state (threads s u)"
proof -
  obtain x where x: "s' = thread_upd t (\<lambda>_. x) s" "queue_linked x = queue_linked (threads s t)"
      "state x = state (threads s t)" "in_levels (threads s t) \<longrightarrow> in_levels x"
    using own by (auto simp: own_change_def)
  have "in_levels (threads s t)" using sched_invD(9,10) [OF inv] by (simp add: in_levels_def)
  then show "sched_inv s'"
    unfolding x(1) using det x
    by (intro detached_update_inv [OF inv]) (auto simp: in_levels_def detached_def)
  show "detached t s'" "placed u s' = placed u s" "detached u s' = detached u s" "prcb s' = prcb s"
    "dispatcher_lock s' = dispatcher_lock s" "dispatch_depth s' = dispatch_depth s"
    "state (threads s' u) = state (threads s u)"
    using det x by (auto simp: detached_def placed_def)
qed

section \<open>The deferred ready list\<close>

theorem ki_deferred_ready_thread_wp:
  assumes inv: "sched_inv s" and det: "detached t s"
  shows "wp_out (ki_deferred_ready_thread t s) (readied t s)"
proof -
  have t0: "t \<noteq> 0" using det by (simp add: detached_def)
  note own = own_change_inv [OF inv det apply_adjustment_own [OF t0]]
  show ?thesis
    using ki_ready_thread_wp [OF own(1,2)] t0 own
    by (auto simp: ki_deferred_ready_thread_def readied_def elim!: wp_mono)
qed

text \<open>Readying a whole list of detached threads loses none of them.\<close>

definition all_readied :: "nat list \<Rightarrow> KERNEL \<Rightarrow> KERNEL \<Rightarrow> bool" where
  "all_readied ts s s' \<longleftrightarrow> sched_inv s' \<and> (\<forall>t\<in>set ts. placed t s') \<and> (\<forall>u. placed u s \<longrightarrow> placed u s') \<and>
     current_thread (prcb s') = current_thread (prcb s) \<and> idle_thread (prcb s') = idle_thread (prcb s) \<and>
     deferred_ready (prcb s') = deferred_ready (prcb s) \<and>
     (\<forall>u. u \<notin> set ts \<longrightarrow> \<not> placed u s \<longrightarrow> \<not> placed u s' \<and> state (threads s' u) = state (threads s u)) \<and>
     next_thread (prcb s') \<in> insert (next_thread (prcb s)) (set ts) \<and>
     dispatcher_lock s' = dispatcher_lock s \<and> dispatch_depth s' = dispatch_depth s"

lemma not_placed_cases:
  assumes "sched_inv s" and "\<not> placed u s"
  shows "u = 0 \<or> u \<in> set (deferred_ready (prcb s)) \<or> detached u s"
  using assms by (auto simp: placed_def detached_def)

lemma deferred_not_placed:
  assumes inv: "sched_inv s" and "u \<in> set (deferred_ready (prcb s))"
  shows "\<not> placed u s"
  using sched_invD(7) [OF assms] sched_invD(8) [OF inv] by (auto simp: placed_def)

lemma placed_0: "sched_inv s \<Longrightarrow> \<not> placed 0 s"
  by (auto simp: placed_def dest: linked_Ready)

lemma readied_not_placed:
  assumes "readied t s s'" and "sched_inv s" and "u \<noteq> t" and "\<not> placed u s"
  shows "\<not> placed u s'"
  using not_placed_cases [OF assms(2,4)] readiedD [OF assms(1)] placed_0 deferred_not_placed
    placed_not_detached assms(3) by metis

lemma ready_all_wp:
  assumes "sched_inv s" and "\<And>t. t \<in> set ts \<Longrightarrow> detached t s" and "distinct ts"
  shows "wp_out (ready_all ts s) (all_readied ts s)"
  using assms
proof (induction ts arbitrary: s)
  case Nil
  then show ?case by (simp add: all_readied_def)
next
  case (Cons t ts)
  have "wp_out (ki_deferred_ready_thread t s) (readied t s)"
    using Cons.prems by (intro ki_deferred_ready_thread_wp) auto
  then have "wp_out (ki_deferred_ready_thread t s) (\<lambda>s1. wp_out (ready_all ts s1) (all_readied (t # ts) s))"
  proof (rule wp_mono)
    fix s1 assume r: "readied t s s1"
    have det: "detached u s1" if "u \<in> set ts" for u
      using readiedD(4) [OF r, of u] Cons.prems that by auto
    have "wp_out (ready_all ts s1) (all_readied ts s1)"
      using Cons.prems det by (intro Cons.IH readiedD(1) [OF r]) auto
    then show "wp_out (ready_all ts s1) (all_readied (t # ts) s)"
    proof (rule wp_mono)
      fix s2 assume a: "all_readied ts s1 s2"
      have keep: "\<not> placed u s2 \<and> state (threads s2 u) = state (threads s u)"
        if "u \<notin> set (t # ts)" "\<not> placed u s" for u
      proof -
        have "\<not> placed u s1"
          using readied_not_placed [OF r] Cons.prems(1) that by auto
        then show ?thesis using a readiedD(10) [OF r, of u] that by (auto simp: all_readied_def)
      qed
      show "all_readied (t # ts) s s2"
        unfolding all_readied_def
        using a readiedD [OF r] keep by (auto simp: all_readied_def)
    qed
  qed
  then show ?case by simp
qed

text \<open>
  Processing the deferred list empties it and places every thread of it: a thread that was
  woken does not get lost on its way to the processor.
\<close>

lemma process_deferred_wp:
  assumes inv: "sched_inv s"
  shows "wp_out (ki_process_deferred_ready_list s) (\<lambda>s'. sched_inv s' \<and> deferred_ready (prcb s') = [] \<and>
     (\<forall>t. placed t s' \<longleftrightarrow> placed t s \<or> t \<in> set (deferred_ready (prcb s))) \<and>
     current_thread (prcb s') = current_thread (prcb s) \<and> idle_thread (prcb s') = idle_thread (prcb s) \<and>
     (\<forall>u. \<not> placed u s' \<longrightarrow> state (threads s' u) = state (threads s u)) \<and>
     next_thread (prcb s') \<in> insert (next_thread (prcb s)) (set (deferred_ready (prcb s))) \<and>
     dispatcher_lock s' = dispatcher_lock s \<and> dispatch_depth s' = dispatch_depth s)"
proof -
  let ?s = "prcb_upd (deferred_ready_update (\<lambda>_. [])) s"
  have inv': "sched_inv ?s" using inv by (simp add: sched_inv_defs)
  have det: "detached t ?s" if "t \<in> set (deferred_ready (prcb s))" for t
    using sched_invD(7) [OF inv that] sched_invD(8) [OF inv] by (auto simp: detached_def)
  have pl: "placed u ?s = placed u s" for u by (simp add: placed_def)
  have "wp_out (ready_all (deferred_ready (prcb s)) ?s) (all_readied (deferred_ready (prcb s)) ?s)"
    by (rule ready_all_wp [OF inv' det sched_invD(6) [OF inv]])
  then show ?thesis
    unfolding ki_process_deferred_ready_list_def
    by (rule wp_mono) (auto simp: all_readied_def pl)
qed

end
