(* ===== verification/SchedSpec.thy ===== *)
theory SchedSpec
  imports SchedInv
begin

text \<open>
  What the scheduler's operations do on a state that satisfies the invariant: finding a ready
  thread, quantum end, dispatch, the switch made by a waiting thread, the idle loop, and
  priority changes.
\<close>

section \<open>Finding a ready thread\<close>

lemma shl_minus_1: "n < 32 \<Longrightarrow> shl_u32 n - 1 = mask n"
  by (simp add: shl_u32_def mask_eq_exp_minus_1)

lemma level_mask_bit:
  assumes "i < 32" and "n < 32"
  shows "bit (NOT (shl_u32 n - 1)) i \<longleftrightarrow> n \<le> i"
  using assms by (auto simp: shl_minus_1 bit_not_iff bit_mask_iff)

definition level_mask :: "int \<Rightarrow> u32" where
  "level_mask low = (if low \<le> 0 then NOT 0 else NOT (shl_u32 (nat low) - 1))"

lemma level_mask_iff:
  assumes "i < 32" and "low < 32"
  shows "bit (level_mask low) i \<longleftrightarrow> low \<le> int i"
  using assms level_mask_bit [of i "nat low"] by (auto simp: level_mask_def bit_not_iff)

text \<open>The first thread of the highest queue that is not empty, if that queue is high enough.\<close>

definition best_level :: "KERNEL \<Rightarrow> nat \<Rightarrow> bool" where
  "best_level s p \<longleftrightarrow> p < 32 \<and> ready_list (prcb s) ! p \<noteq> [] \<and>
     (\<forall>i<32. p < i \<longrightarrow> ready_list (prcb s) ! i = [])"

definition none_above :: "int \<Rightarrow> KERNEL \<Rightarrow> bool" where
  "none_above low s \<longleftrightarrow> (\<forall>i<32. low \<le> int i \<longrightarrow> ready_list (prcb s) ! i = [])"

lemma find_ready_none:
  assumes inv: "sched_inv s" and "none_above low s" and "low < 32"
  shows "ki_find_ready_thread n low s = (None, s)"
proof -
  have "level_mask low AND ready_summary (prcb s) = 0"
  proof (rule bit_word_eqI)
    fix i assume "i < LENGTH(32)"
    then show "bit (level_mask low AND ready_summary (prcb s)) i \<longleftrightarrow> bit (0 :: u32) i"
      using assms level_mask_iff [of i low] sched_invD(2) [OF inv, of i]
      by (auto simp: bit_and_iff none_above_def)
  qed
  then show ?thesis
    by (simp add: ki_find_ready_thread_def Let_def find_ready_loop.simps level_mask_def)
qed

lemma find_ready_some:
  assumes inv: "sched_inv s" and p: "best_level s p" and low: "low \<le> int p" "low < 32"
  shows "ki_find_ready_thread (number (prcb s)) low s =
     (case queue_take (number (prcb s)) p s of (t, s') \<Rightarrow> (Some t, s'))"
proof -
  let ?w = "level_mask low AND ready_summary (prcb s)"
  have bits: "bit ?w i \<longleftrightarrow> low \<le> int i \<and> ready_list (prcb s) ! i \<noteq> []" if "i < 32" for i
    using that level_mask_iff [of i low] low(2) sched_invD(2) [OF inv that] by (auto simp: bit_and_iff)
  have "bit ?w p" using p low bits by (auto simp: best_level_def)
  then have nz: "?w \<noteq> 0" by auto
  have "31 - leading_zeros ?w = p"
  proof (rule ccontr)
    assume ne: "31 - leading_zeros ?w \<noteq> p"
    consider "31 - leading_zeros ?w < p" | "p < 31 - leading_zeros ?w" using ne by linarith
    then show False
    proof cases
      case 1
      then show ?thesis using leading_zeros_top(3) [OF nz 1] \<open>bit ?w p\<close> by simp
    next
      case 2
      then show ?thesis
        using leading_zeros_top(1,2) [OF nz] bits [of "31 - leading_zeros ?w"] p
        by (auto simp: best_level_def)
    qed
  qed
  then show ?thesis
    using nz p
    by (simp add: ki_find_ready_thread_def Let_def find_ready_loop.simps best_level_def
        flip: level_mask_def)
qed

lemma best_level_exists:
  assumes "\<not> none_above low s"
  shows "\<exists>p. best_level s p \<and> low \<le> int p"
proof -
  let ?P = "\<lambda>i. i < 32 \<and> low \<le> int i \<and> ready_list (prcb s) ! i \<noteq> []"
  obtain i where i: "?P i" using assms by (auto simp: none_above_def)
  define p where "p = Max {i. ?P i}"
  have fin: "finite {i. ?P i}" by (rule finite_subset [of _ "{..<32}"]) auto
  have "p \<in> {i. ?P i}" unfolding p_def by (rule Max_in [OF fin]) (use i in blast)
  moreover have "\<forall>j. ?P j \<longrightarrow> j \<le> p" unfolding p_def using Max_ge [OF fin] by blast
  ultimately show ?thesis
    by (intro exI [of _ p]) (auto simp: best_level_def not_le dest: leD)
qed

lemma queue_take_spec:
  assumes inv: "sched_inv s" and p: "p < 32" "ready_list (prcb s) ! p \<noteq> []"
    and take: "queue_take n p s = (t, s')"
  shows "t = hd (ready_list (prcb s) ! p)" and "sched_inv s'" and "detached t s'"
    and "state (threads s' u) = state (threads s u)"
    and "priority (threads s' u) = priority (threads s u)"
    and "u \<noteq> t \<Longrightarrow> placed u s' = placed u s" and "u \<noteq> t \<Longrightarrow> detached u s' = detached u s"
    and "prcb s' = (prcb s)\<lparr>ready_list := (ready_list (prcb s))[p := tl (ready_list (prcb s) ! p)],
           ready_summary := ready_summary (prcb s')\<rparr>"
    and "dispatcher_lock s' = dispatcher_lock s" and "dispatch_depth s' = dispatch_depth s"
proof -
  show t: "t = hd (ready_list (prcb s) ! p)" using take by (simp add: queue_take_def Let_def)
  have len: "length (ready_list (prcb s)) = 32" by (rule sched_invD(1) [OF inv])
  have tp: "t \<in> set (ready_list (prcb s) ! p)" using t p by simp
  have tst: "t \<noteq> 0" "queue_linked (threads s t)" "state (threads s t) = Ready" "priority (threads s t) = int p"
    using sched_invD(4) [OF inv p(1) tp] by auto
  have th: "threads s' u = (if u = t then (threads s t)\<lparr>queue_linked := False, next_processor := n\<rparr> else threads s u)" for u
    using take by (auto simp: queue_take_def Let_def clear_prcb_ready_summary_def)
  show pc: "prcb s' = (prcb s)\<lparr>ready_list := (ready_list (prcb s))[p := tl (ready_list (prcb s) ! p)],
           ready_summary := ready_summary (prcb s')\<rparr>"
    using take by (auto simp: queue_take_def Let_def clear_prcb_ready_summary_def)
  have sm: "bit (ready_summary (prcb s')) i \<longleftrightarrow>
      bit (ready_summary (prcb s)) i \<and> \<not> (i = p \<and> tl (ready_list (prcb s) ! p) = [])"
    if "i < 32" for i
    using that take p(1) len
    by (auto simp: queue_take_def Let_def clear_prcb_ready_summary_def bit_and_iff bit_not_iff shl_u32_bit
        dest: bit_imp_le_length split: if_splits)
  have rl: "ready_list (prcb s') ! i = (if i = p then tl (ready_list (prcb s) ! p) else ready_list (prcb s) ! i)"
    if "i < 32" for i
    using that len p(1) by (subst pc) (simp add: nth_list_update)
  have tl: "set (tl (ready_list (prcb s) ! p)) = set (ready_list (prcb s) ! p) - {t}"
    using sched_invD(3) [OF inv p(1)] p(2) t by (cases "ready_list (prcb s) ! p") auto
  have other: "u \<noteq> t" if "u \<in> set (ready_list (prcb s) ! i)" "i < 32" "i \<noteq> p" for u i
    using sched_invD(4) [OF inv that(2,1)] tst(4) that(3) by auto
  have q: "queues_ok s'"
    unfolding queues_ok_def
  proof (intro conjI allI impI ballI)
    show "length (ready_list (prcb s')) = 32" by (subst pc) (simp add: len)
  next
    fix i :: nat assume i: "i < 32"
    show "bit (ready_summary (prcb s')) i \<longleftrightarrow> ready_list (prcb s') ! i \<noteq> []"
      using sm [OF i] rl [OF i] sched_invD(2) [OF inv i] p by auto
    show "distinct (ready_list (prcb s') ! i)"
      using rl [OF i] sched_invD(3) [OF inv i] by (auto simp: distinct_tl)
    fix u assume u: "u \<in> set (ready_list (prcb s') ! i)"
    have "u \<noteq> t" "u \<in> set (ready_list (prcb s) ! i)"
      using u rl [OF i] tl other [of u i] i by (auto split: if_splits)
    then show "u \<noteq> 0" "queue_linked (threads s' u)" "state (threads s' u) = Ready" "priority (threads s' u) = int i"
      using sched_invD(4) [OF inv i, of u] by (auto simp: th)
  next
    fix u assume "queue_linked (threads s' u)"
    then have u: "u \<noteq> t" "queue_linked (threads s u)" by (auto simp: th split: if_splits)
    have "nat (priority (threads s u)) < 32" using sched_invD(9) [OF inv, of u] by auto
    then show "u \<in> set (ready_list (prcb s') ! nat (priority (threads s' u)))"
      using u rl sched_invD(5) [OF inv u(2)] tl by (auto simp: th)
  qed
  have nt: "next_thread (prcb s) \<noteq> t"
    using sched_invD(8) [OF inv] tst by auto
  have pcf: "deferred_ready (prcb s') = deferred_ready (prcb s)" "next_thread (prcb s') = next_thread (prcb s)"
    by (subst pc, simp)+
  then show "sched_inv s'"
    using pcf inv q sched_invD(7) [OF inv] by (auto simp: sched_inv_def deferred_ok_def next_ok_def priorities_ok_def th)
  show "detached t s'"
    using tst nt sched_invD(7) [OF inv, of t] by (auto simp: detached_def th pcf)
  show "state (threads s' u) = state (threads s u)" "priority (threads s' u) = priority (threads s u)"
    by (simp_all add: th)
  show "u \<noteq> t \<Longrightarrow> placed u s' = placed u s" "u \<noteq> t \<Longrightarrow> detached u s' = detached u s"
    by (simp_all add: th pcf placed_def detached_def)
  show "dispatcher_lock s' = dispatcher_lock s" "dispatch_depth s' = dispatch_depth s"
    using take by (auto simp: queue_take_def Let_def clear_prcb_ready_summary_def split: if_splits)
qed


section \<open>Lost threads\<close>

text \<open>
  A thread is lost when its state says it waits for the processor and no structure of the
  scheduler holds it.
\<close>

definition not_lost :: "nat \<Rightarrow> KERNEL \<Rightarrow> bool" where
  "not_lost t s \<longleftrightarrow>
     (state (threads s t) = Ready \<longrightarrow> queue_linked (threads s t) \<or> t = idle_thread (prcb s)) \<and>
     (state (threads s t) = Standby \<longrightarrow> next_thread (prcb s) = t) \<and>
     (state (threads s t) = DeferredReady \<longrightarrow> t \<in> set (deferred_ready (prcb s)))"

definition none_lost :: "KERNEL \<Rightarrow> bool" where
  "none_lost s \<longleftrightarrow> (\<forall>t. t \<noteq> 0 \<longrightarrow> not_lost t s)"

lemma placed_not_lost: "sched_inv s \<Longrightarrow> placed t s \<Longrightarrow> not_lost t s"
  by (auto simp: placed_def not_lost_def dest: linked_Ready sched_invD(8))

lemma readied_none_lost:
  assumes r: "readied t s s'" and inv: "sched_inv s" and ok: "\<And>u. u \<noteq> t \<Longrightarrow> u \<noteq> 0 \<Longrightarrow> not_lost u s"
  shows "none_lost s'"
  unfolding none_lost_def
proof (intro allI impI)
  fix u :: nat assume u0: "u \<noteq> 0"
  show "not_lost u s'"
  proof (cases "placed u s'")
    case True
    then show ?thesis by (rule placed_not_lost [OF readiedD(1) [OF r]])
  next
    case False
    then have "u \<noteq> t" "\<not> placed u s" using readiedD(2,3) [OF r] by auto
    then show ?thesis
      using readiedD(5,9,10) [OF r] ok [of u] u0 by (auto simp: not_lost_def placed_def)
  qed
qed

lemma process_deferred_none_lost:
  assumes inv: "sched_inv s" and ok: "none_lost s"
  shows "wp_out (ki_process_deferred_ready_list s) none_lost"
proof (rule wp_mono [OF process_deferred_wp [OF inv]])
  fix s' assume s': "sched_inv s' \<and> deferred_ready (prcb s') = [] \<and>
     (\<forall>t. placed t s' \<longleftrightarrow> placed t s \<or> t \<in> set (deferred_ready (prcb s))) \<and>
     current_thread (prcb s') = current_thread (prcb s) \<and> idle_thread (prcb s') = idle_thread (prcb s) \<and>
     (\<forall>u. \<not> placed u s' \<longrightarrow> state (threads s' u) = state (threads s u)) \<and>
     next_thread (prcb s') \<in> insert (next_thread (prcb s)) (set (deferred_ready (prcb s))) \<and>
     dispatcher_lock s' = dispatcher_lock s \<and> dispatch_depth s' = dispatch_depth s"
  show "none_lost s'"
    unfolding none_lost_def
  proof (intro allI impI)
    fix u :: nat assume u0: "u \<noteq> 0"
    show "not_lost u s'"
    proof (cases "placed u s'")
      case True
      then show ?thesis using s' by (intro placed_not_lost) auto
    next
      case False
      then show ?thesis using s' ok u0 by (auto simp: not_lost_def none_lost_def placed_def)
    qed
  qed
qed

section \<open>Choosing the next thread\<close>

lemma pick_next_spec:
  assumes inv: "sched_inv s" and nx: "next_thread (prcb s) = 0" and low: "low < 32"
    and res: "pick_next low s = (t, s')"
  shows "none_above low s \<Longrightarrow> t = 0 \<and> s' = s"
    and "best_level s p \<Longrightarrow> low \<le> int p \<Longrightarrow> t = hd (ready_list (prcb s) ! p) \<and> readied t s s' \<and>
      next_thread (prcb s') = t \<and> t \<noteq> 0"
proof -
  show "t = 0 \<and> s' = s" if "none_above low s"
    using res find_ready_none [OF inv that low, of "number (prcb s)"] by (simp add: pick_next_def)
  assume p: "best_level s p" and lp: "low \<le> int p"
  obtain u s1 where take: "queue_take (number (prcb s)) p s = (u, s1)" by (meson surj_pair)
  have pp: "p < 32" "ready_list (prcb s) ! p \<noteq> []" using p by (auto simp: best_level_def)
  note q = queue_take_spec [OF inv pp take]
  have r: "t = u" "s' = make_standby u s1"
    using res find_ready_some [OF inv p lp low] take by (auto simp: pick_next_def)
  have nx1: "next_thread (prcb s1) = 0" by (subst q(8)) (simp add: nx)
  have ready: "readied u s1 s'"
    unfolding r by (rule make_standby_readied [OF q(2,3) nx1])
  have flds: "current_thread (prcb s1) = current_thread (prcb s)" "idle_thread (prcb s1) = idle_thread (prcb s)"
    "deferred_ready (prcb s1) = deferred_ready (prcb s)"
    by (subst q(8), simp)+
  have "placed v s \<Longrightarrow> placed v s'" for v
    using readiedD(2) [OF ready] readiedD(3) [OF ready, of v] q(6) [of v] by (cases "v = u") auto
  moreover have "\<not> placed v s1" if "v \<noteq> u" "\<not> placed v s" for v using q(6) that by simp
  ultimately have "readied u s s'"
    using ready q(4,7,9,10) flds r by (simp add: readied_def)
  then show "t = hd (ready_list (prcb s) ! p) \<and> readied t s s' \<and> next_thread (prcb s') = t \<and> t \<noteq> 0"
    using r q(1,3) by (auto simp: detached_def)
qed

end
