(* ===== verification/DispatchSpec.thy ===== *)
theory DispatchSpec
  imports SchedSpec
begin

text \<open>
  Quantum end, dispatch, the switch of a waiting thread, the idle loop and priority changes
  keep the invariant of the scheduler and lose no thread; where the code does lose one or
  runs the wrong one, an execution that shows it.
\<close>

section \<open>The current thread goes back to its queue\<close>

lemma running_detached:
  assumes inv: "sched_inv s" and "t \<noteq> 0" and "state (threads s t) \<notin> {Ready, Standby, DeferredReady}"
  shows "detached t s"
  using assms linked_Ready [OF inv, of t] sched_invD(7) [OF inv, of t] sched_invD(8) [OF inv]
  by (auto simp: detached_def)

lemma ready_current_wp:
  assumes inv: "sched_inv s" and det: "detached t s" and cur: "current_thread (prcb s) = t"
    and idle: "t \<noteq> idle_thread (prcb s)"
  shows "wp_out (ki_ready_thread t s) (\<lambda>s'. readied t s s' \<and> queue_linked (threads s' t) \<and>
     state (threads s' t) = Ready \<and> next_thread (prcb s') = next_thread (prcb s) \<and>
     ready_list (prcb s') = (ready_list (prcb s))[nat (priority (threads s t)) :=
       (if preempted (threads s t) then t # ready_list (prcb s) ! nat (priority (threads s t))
        else ready_list (prcb s) ! nat (priority (threads s t)) @ [t])])"
    (is "wp_out _ (\<lambda>s'. _ \<and> ?Q s')")
proof (rule wp_conj [OF ki_ready_thread_wp [OF inv det]])
  let ?s = "thread_upd t (wait_time_update (\<lambda>_. ki_query_low_tick_count s)) s"
  have t0: "t \<noteq> 0" and nl: "\<not> queue_linked (threads s t)" using det by (auto simp: detached_def)
  have p: "0 \<le> priority (threads s t)" "priority (threads s t) < 32" using sched_invD(9) [OF inv, of t] by auto
  have "ki_ready_thread t s = ready_enqueue t (priority (threads s t)) ?s"
    using t0 cur idle by (simp add: ki_ready_thread_def Let_def)
  then show "wp_out (ki_ready_thread t s) ?Q"
    using p nl by (simp add: ready_enqueue_def Let_def queue_insert_def set_prcb_ready_summary_def)
qed

section \<open>Quantum end\<close>

lemma reset_quantum_own: "own_change t s (reset_quantum t s)"
  by (auto simp: reset_quantum_def in_levels_def intro!: own_change_update)

lemma decay_priority_own:
  assumes "t \<noteq> 0"
  shows "own_change t s (decay_priority t s)"
proof -
  obtain p s' where c: "ki_compute_new_priority t 1 s = (p, s')" by (meson surj_pair)
  note o = compute_new_priority_own [OF c assms]
  obtain x where x: "s' = thread_upd t (\<lambda>_. x) s" "queue_linked x = queue_linked (threads s t)"
      "state x = state (threads s t)" "base_priority x = base_priority (threads s t)"
    using o(1) by (auto simp: own_change_def)
  show ?thesis
    using x o(2) by (auto simp: decay_priority_def c thread_upd_twice in_levels_def intro!: own_change_update)
qed

text \<open>The transfer of facts about lost threads along a change of one thread's own fields.\<close>

lemma own_change_none_lost:
  assumes "own_change t s s'"
  shows "none_lost s' = none_lost s"
proof -
  obtain x where x: "s' = thread_upd t (\<lambda>_. x) s" "queue_linked x = queue_linked (threads s t)"
      "state x = state (threads s t)"
    using assms by (auto simp: own_change_def)
  then have "state (threads s' u) = state (threads s u)"
    "queue_linked (threads s' u) = queue_linked (threads s u)" "prcb s' = prcb s" for u
    by auto
  then show ?thesis by (simp add: none_lost_def not_lost_def)
qed

text \<open>What a step of the current processor keeps.\<close>

definition keeps :: "KERNEL \<Rightarrow> KERNEL \<Rightarrow> bool" where
  "keeps s s' \<longleftrightarrow> sched_inv s' \<and> (none_lost s \<longrightarrow> none_lost s') \<and>
     current_thread (prcb s') = current_thread (prcb s) \<and> idle_thread (prcb s') = idle_thread (prcb s) \<and>
     deferred_ready (prcb s') = deferred_ready (prcb s) \<and>
     dispatcher_lock s' = dispatcher_lock s \<and> dispatch_depth s' = dispatch_depth s"

lemma keeps_refl: "sched_inv s \<Longrightarrow> keeps s s"
  by (simp add: keeps_def)

lemma keeps_trans: "keeps s s' \<Longrightarrow> keeps s' s'' \<Longrightarrow> keeps s s''"
  by (auto simp: keeps_def)

lemma keeps_readied:
  assumes "readied t s s'" and "sched_inv s"
  shows "keeps s s'"
  using assms readiedD [OF assms(1)] readied_none_lost [OF assms]
  by (auto simp: keeps_def none_lost_def)

lemma keeps_own:
  assumes "own_change t s s'" and "sched_inv s" and "detached t s"
  shows "keeps s s'"
  using own_change_inv [OF assms(2,3,1)] own_change_none_lost [OF assms(1)]
  by (auto simp: keeps_def)

lemma pick_next_keeps:
  assumes inv: "sched_inv s" and nx: "next_thread (prcb s) = 0" and low: "low < 32"
    and res: "pick_next low s = (t, s')"
  shows "keeps s s'" and "t = next_thread (prcb s')"
proof -
  note p = pick_next_spec [OF inv nx low res]
  have "keeps s s' \<and> t = next_thread (prcb s')"
  proof (cases "none_above low s")
    case True
    then show ?thesis using p(1) keeps_refl [OF inv] nx by simp
  next
    case False
    then obtain q where q: "best_level s q" "low \<le> int q" using best_level_exists by blast
    show ?thesis using p(2) [OF q] keeps_readied [OF _ inv] by auto
  qed
  then show "keeps s s'" and "t = next_thread (prcb s')" by auto
qed

text \<open>
  At quantum end the current thread either keeps running or goes back to the tail of its
  queue, and then the best ready thread is next; the priority has decayed first. A thread that
  was marked preempted goes to the head instead.
\<close>

definition quantum_rotates :: "KERNEL \<Rightarrow> KERNEL \<Rightarrow> bool" where
  "quantum_rotates s s' \<longleftrightarrow> keeps s s' \<and>
     (next_thread (prcb s) \<noteq> 0 \<longrightarrow> next_thread (prcb s') = next_thread (prcb s)) \<and>
     (state (threads s' (current_thread (prcb s))) = state (threads s (current_thread (prcb s))) \<or>
      next_thread (prcb s') \<noteq> 0 \<and>
      (\<not> preempted (threads s (current_thread (prcb s))) \<longrightarrow>
         queue_linked (threads s' (current_thread (prcb s))) \<and>
         next_thread (prcb s') \<noteq> current_thread (prcb s)))"


lemma summary_level:
  assumes inv: "sched_inv s" and "low < 32"
  shows "ready_summary (prcb s) AND level_mask low = 0 \<longleftrightarrow> none_above low s"
proof
  assume "none_above low s"
  then show "ready_summary (prcb s) AND level_mask low = 0"
    using assms level_mask_iff [of _ low] sched_invD(2) [OF inv]
    by (intro bit_word_eqI) (auto simp: bit_and_iff none_above_def)
next
  assume z: "ready_summary (prcb s) AND level_mask low = 0"
  show "none_above low s"
    unfolding none_above_def
  proof (intro allI impI)
    fix i assume i: "i < 32" "low \<le> int i"
    have "\<not> bit (ready_summary (prcb s) AND level_mask low) i" using z by simp
    then show "ready_list (prcb s) ! i = []"
      using sched_invD(2) [OF inv i(1)] level_mask_iff [OF i(1) assms(2)] i by (simp add: bit_and_iff)
  qed
qed

lemma priority_u32_id: "0 \<le> p \<Longrightarrow> p < 32 \<Longrightarrow> priority_u32 p = nat p"
  by (simp add: priority_u32_def)

text \<open>The dynamic case of \<open>ki_quantum_end\<close>, with the masks read as priorities.\<close>

lemma quantum_end_dynamic:
  assumes inv: "sched_inv s" and det: "detached (current_thread (prcb s)) s"
    and nx: "next_thread (prcb s) = 0" and idle: "current_thread (prcb s) \<noteq> idle_thread (prcb s)"
    and qe: "\<not> quantum_end (prcb s)"
    and dyn: "priority (threads s (current_thread (prcb s))) < 16"
  defines "cur \<equiv> current_thread (prcb s)"
  defines "s2 \<equiv> decay_priority cur (reset_quantum cur s)"
  shows "ki_quantum_end s =
    (if none_above (priority (threads s2 cur)) s2 then Ret (0, s2)
     else bind_out (ki_ready_thread cur s2) (\<lambda>s3. Ret (pick_next (priority (threads s2 cur)) s3)))"
proof -
  have c0: "cur \<noteq> 0" using det by (simp add: detached_def cur_def)
  have s0: "prcb_upd (quantum_end_update (\<lambda>_. False)) s = s"
    using qe by (simp add: upd_defs)
  have own: "own_change cur s s2"
    unfolding s2_def by (rule own_change_trans [OF reset_quantum_own decay_priority_own [OF c0]])
  note o = own_change_inv [OF inv det [folded cur_def] own]
  have lv: "0 \<le> priority (threads s2 cur)" "priority (threads s2 cur) < 32"
    using sched_invD(9) [OF o(1), of cur] by auto
  have q1: "priority (threads (reset_quantum cur s) cur) < LOW_REALTIME_PRIORITY"
    using dyn by (simp add: reset_quantum_def cur_def priority_defs)
  have flds: "idle_thread (prcb s) = idle_thread (prcb s)" by simp
  have "wrap_i32 (int (nat (priority (threads s2 cur)))) = priority (threads s2 cur)"
    using lv by simp
  then show ?thesis
    using c0 nx idle q1 lv summary_level [OF o(1) lv(2)]
    by (cases "priority (threads s2 cur) = 0")
      (simp_all add: ki_quantum_end_def s0 Let_def priority_u32_id not_le level_mask_def flip: cur_def s2_def)
qed

lemma quantum_requeue:
  assumes inv: "sched_inv t" and ready: "\<not> none_above p t" and p: "0 \<le> p" "p < 32"
    and k: "keeps s t" and det: "detached c t"
    and r: "readied c t s3 \<and> queue_linked (threads s3 c) \<and> state (threads s3 c) = Ready \<and>
       next_thread (prcb s3) = next_thread (prcb t) \<and>
       ready_list (prcb s3) = (ready_list (prcb t))[nat p :=
         (if preempted (threads t c) then c # ready_list (prcb t) ! nat p
          else ready_list (prcb t) ! nat p @ [c])]"
    and nx: "next_thread (prcb t) = 0" "next_thread (prcb s) = 0"
    and pre: "preempted (threads t c) = preempted (threads s c)"
    and c: "c = current_thread (prcb s)" and res: "pick_next p s3 = (u, s')"
  shows "quantum_rotates s s'"
proof -
  have inv3: "sched_inv s3" using r by (auto dest: readiedD(1))
  have nx3: "next_thread (prcb s3) = 0" using r nx by simp
  have len: "length (ready_list (prcb t)) = 32" by (rule sched_invD(1) [OF inv])
  have rl: "ready_list (prcb s3) ! i = (if i = nat p
       then (if preempted (threads t c) then c # ready_list (prcb t) ! nat p
             else ready_list (prcb t) ! nat p @ [c])
       else ready_list (prcb t) ! i)" if "i < 32" for i
    using r len that p by (simp add: nth_list_update)
  have "ready_list (prcb s3) ! nat p \<noteq> []" using rl [of "nat p"] p by auto
  then have "\<not> none_above p s3" using p by (auto simp: none_above_def intro!: exI [of _ "nat p"])
  then obtain q where q: "best_level s3 q" "p \<le> int q" using best_level_exists by blast
  note pn = pick_next_spec(2) [OF inv3 nx3 p(2) res q]
  have k3: "keeps s s'"
    using keeps_trans [OF keeps_trans [OF k keeps_readied [OF _ inv]] keeps_readied [OF _ inv3]] r pn by blast
  have nq: "c \<notin> set (ready_list (prcb t) ! i)" if "i < 32" for i
    using sched_invD(4) [OF inv that, of c] det by (auto simp: detached_def)
  have other: "u \<noteq> c" if "\<not> preempted (threads t c)"
  proof -
    have qq: "q < 32" "ready_list (prcb s3) ! q \<noteq> []" "\<And>i. i < 32 \<Longrightarrow> q < i \<Longrightarrow> ready_list (prcb s3) ! i = []"
      using q(1) by (auto simp: best_level_def)
    show ?thesis
    proof (cases "q = nat p")
      case True
      have above: "ready_list (prcb t) ! i = []" if "i < 32" "nat p < i" for i
        using qq(3) [of i] rl [of i] that True by auto
      have "ready_list (prcb t) ! nat p \<noteq> []"
      proof -
        obtain i where "i < 32" "p \<le> int i" "ready_list (prcb t) ! i \<noteq> []"
          using ready by (auto simp: none_above_def)
        then have "i = nat p" using above [of i] p by force
        then show ?thesis using \<open>ready_list (prcb t) ! i \<noteq> []\<close> by simp
      qed
      then have "u \<in> set (ready_list (prcb t) ! nat p)"
        using pn rl [OF qq(1)] that True by simp
      then show ?thesis using nq [of "nat p"] p by auto
    next
      case False
      then have "u \<in> set (ready_list (prcb t) ! q)" using pn rl [OF qq(1)] qq(2) by simp
      then show ?thesis using nq [OF qq(1)] by auto
    qed
  qed
  have "queue_linked (threads s' c)" if "\<not> preempted (threads t c)"
  proof -
    have "placed c s3" using r by (simp add: placed_def)
    then have "placed c s'" using pn readiedD(3) [of u s3 s' c] by blast
    then show ?thesis using other [OF that] pn by (auto simp: placed_def)
  qed
  then show ?thesis
    using k3 pn other pre nx(2) c by (simp add: quantum_rotates_def)
qed

theorem quantum_end_wp:
  assumes inv: "sched_inv s" and run: "state (threads s (current_thread (prcb s))) = Running"
    and c0: "current_thread (prcb s) \<noteq> 0"
  shows "wp_out (ki_quantum_end s) (\<lambda>(_, s'). quantum_rotates s s')"
proof -
  let ?s = "prcb_upd (quantum_end_update (\<lambda>_. False)) s" and ?c = "current_thread (prcb s)"
  have inv0: "sched_inv ?s" using inv by (simp add: sched_inv_defs)
  have k0: "keeps s ?s" using inv0 by (auto simp: keeps_def none_lost_def not_lost_def)
  have det: "detached ?c ?s" using running_detached [OF inv0 c0] run by simp
  have eq: "ki_quantum_end s = ki_quantum_end ?s"
    by (simp add: ki_quantum_end_def upd_defs)
  have stay: "keeps s s' \<Longrightarrow> (next_thread (prcb s) \<noteq> 0 \<longrightarrow> next_thread (prcb s') = next_thread (prcb s)) \<Longrightarrow>
      state (threads s' ?c) = Running \<Longrightarrow> quantum_rotates s s'" for s'
    using run by (simp add: quantum_rotates_def)
  have picked: "quantum_rotates s s'"
    if "pick_next low t = (u, s')" "keeps s t" "detached ?c t" "next_thread (prcb t) = 0" "low < 32"
      "state (threads t ?c) = Running" "next_thread (prcb s) = 0" for low t u s'
  proof -
    have it: "sched_inv t" using that(2) by (simp add: keeps_def)
    note p = pick_next_spec [OF it that(4,5,1)]
    have "state (threads s' ?c) = Running"
    proof (cases "none_above low t")
      case True
      then show ?thesis using p(1) that by simp
    next
      case False
      then obtain q where q: "best_level t q" "low \<le> int q" using best_level_exists by blast
      have "?c \<noteq> u"
        using p(2) [OF q] sched_invD(4) [OF it, of q u] q that(6) by (auto simp: best_level_def)
      then show ?thesis
        using p(2) [OF q] readiedD(10) [of u t s' ?c] that(3,6) placed_not_detached by fastforce
    qed
    then show ?thesis
      using stay keeps_trans [OF that(2) pick_next_keeps(1) [OF it that(4,5,1)]] that(7) by blast
  qed
  show ?thesis
  proof (cases "next_thread (prcb s) = 0")
    case False
    then show ?thesis using c0 stay [OF k0] run by (simp add: ki_quantum_end_def Let_def)
  next
    case nx: True
    show ?thesis
    proof (cases "?c = idle_thread (prcb s)")
      case True
      obtain u s' where "pick_next 0 ?s = (u, s')" by (meson surj_pair)
      then show ?thesis
        using picked [OF _ k0 det] c0 nx run True stay [OF k0]
        by (simp add: ki_quantum_end_def Let_def)
    next
      case idle: False
      let ?s1 = "reset_quantum ?c ?s"
      note o1 = own_change_inv [OF inv0 det reset_quantum_own]
      have k1: "keeps s ?s1" by (rule keeps_trans [OF k0 keeps_own [OF reset_quantum_own inv0 det]])
      have lv: "0 \<le> priority (threads ?s1 ?c)" "priority (threads ?s1 ?c) < 32"
        using sched_invD(9) [OF o1(1), of ?c] by auto
      show ?thesis
      proof (cases "LOW_REALTIME_PRIORITY \<le> priority (threads ?s1 ?c)")
        case True
        let ?h = "priority (threads ?s1 ?c) + 1"
        obtain u s' where pn: "pick_next ?h ?s1 = (u, s')" by (meson surj_pair)
        have "quantum_rotates s s'" if "?h < 32"
          using picked [OF pn k1 o1(2) _ that] o1 nx run by simp
        moreover have "quantum_rotates s ?s1" using stay [OF k1] o1 nx run by simp
        ultimately show ?thesis
          using True pn c0 nx idle by (simp add: ki_quantum_end_def Let_def)
      next
        case False
        then have dyn: "priority (threads ?s ?c) < 16"
          by (simp add: reset_quantum_def priority_defs split: if_splits)
        let ?s2 = "decay_priority ?c ?s1" and ?p = "priority (threads (decay_priority ?c ?s1) ?c)"
        have own: "own_change ?c ?s ?s2"
          by (rule own_change_trans [OF reset_quantum_own decay_priority_own [OF c0]])
        note o2 = own_change_inv [OF inv0 det own]
        have k2: "keeps s ?s2" by (rule keeps_trans [OF k0 keeps_own [OF own inv0 det]])
        have p2: "0 \<le> ?p" "?p < 32" using sched_invD(9) [OF o2(1), of ?c] by auto
        have pre: "preempted (threads ?s2 ?c) = preempted (threads s ?c)"
          by (simp add: decay_priority_def reset_quantum_def ki_compute_new_priority_def Let_def)
        have res: "ki_quantum_end s = (if none_above ?p ?s2 then Ret (0, ?s2)
           else bind_out (ki_ready_thread ?c ?s2) (\<lambda>s3. Ret (pick_next ?p s3)))"
          using quantum_end_dynamic [OF inv0] det nx idle dyn eq by simp
        show ?thesis
        proof (cases "none_above ?p ?s2")
          case True
          then show ?thesis using res stay [OF k2] o2 nx run by simp
        next
          case False
          have "wp_out (ki_ready_thread ?c ?s2) (\<lambda>s3. case pick_next ?p s3 of (_, s') \<Rightarrow> quantum_rotates s s')"
          proof (rule wp_mono [OF ready_current_wp [OF o2(1,2)]])
            fix s3
            assume r: "readied ?c ?s2 s3 \<and> queue_linked (threads s3 ?c) \<and>
              state (threads s3 ?c) = Ready \<and> next_thread (prcb s3) = next_thread (prcb ?s2) \<and>
              ready_list (prcb s3) = (ready_list (prcb ?s2))[nat ?p :=
               (if preempted (threads ?s2 ?c) then ?c # ready_list (prcb ?s2) ! nat ?p
                else ready_list (prcb ?s2) ! nat ?p @ [?c])]"
            show "case pick_next ?p s3 of (_, s') \<Rightarrow> quantum_rotates s s'"
              using quantum_requeue [OF o2(1) False p2 k2 o2(2) r] nx o2 pre by auto
          qed (use o2 idle in simp_all)
          then show ?thesis using False res by simp
        qed
      qed
    qed
  qed
qed

end
