(* ===== verification/DispatchProps.thy ===== *)
theory DispatchProps
  imports DispatchSpec
begin

text \<open>
  The switch and the dispatch: a dispatch on a sound state returns, keeps the invariant, loses
  no thread and leaves one running.
\<close>

section \<open>Switching\<close>

lemma resume_access [kstate, simp]:
  "threads (resume_thread t s) = threads s" "prcb (resume_thread t s) = prcb s"
  "dispatcher_lock (resume_thread t s) = dispatcher_lock s"
  by (simp_all add: resume_thread_def)

lemma swap_context_spec:
  assumes inv: "sched_inv s" and nx: "next_thread (prcb s) \<noteq> 0" and old: "old \<noteq> next_thread (prcb s)"
    and s'_def: "s' = ki_swap_context fr old s"
  shows "sched_inv s'" and "current_thread (prcb s') = next_thread (prcb s)" and "next_thread (prcb s') = 0"
    and "state (threads s' (next_thread (prcb s))) = Running"
    and "dispatcher_lock s' = dispatcher_lock s"
    and "deferred_ready (prcb s') = deferred_ready (prcb s)"
    and "ready_list (prcb s') = ready_list (prcb s)"
    and "none_lost s \<Longrightarrow> state (threads s old) = Running \<longrightarrow> old = idle_thread (prcb s) \<Longrightarrow> none_lost s'"
    and "u \<noteq> old \<Longrightarrow> u \<noteq> next_thread (prcb s) \<Longrightarrow> threads s' u = threads s u"
    and "dispatch_depth s' = (if frame (threads s (next_thread (prcb s))) = DispatchFrame
           then dispatch_depth s - 1 else dispatch_depth s)"
proof -
  let ?n = "next_thread (prcb s)"
  have nst: "state (threads s ?n) = Standby" "\<not> queue_linked (threads s ?n)"
    using sched_invD(8) [OF inv nx] by auto
  have th: "threads s' u = (if u = ?n then (threads s ?n)\<lparr>state := Running\<rparr>
      else if u = old then (if old \<noteq> 0 \<and> state (threads s old) = Running
         then (threads s old)\<lparr>state := Ready, frame := fr\<rparr> else (threads s old)\<lparr>frame := fr\<rparr>)
      else threads s u)" for u
    using nx old by (simp add: s'_def ki_swap_context_def Let_def)
  show pc: "current_thread (prcb s') = ?n" "next_thread (prcb s') = 0"
    "deferred_ready (prcb s') = deferred_ready (prcb s)" "ready_list (prcb s') = ready_list (prcb s)"
    "dispatcher_lock s' = dispatcher_lock s"
    using nx by (simp_all add: s'_def ki_swap_context_def Let_def)
  have pc2: "ready_summary (prcb s') = ready_summary (prcb s)" "idle_thread (prcb s') = idle_thread (prcb s)"
    using nx by (simp_all add: s'_def ki_swap_context_def Let_def)
  show "state (threads s' ?n) = Running" using th [of ?n] by simp
  show "dispatch_depth s' = (if frame (threads s ?n) = DispatchFrame
           then dispatch_depth s - 1 else dispatch_depth s)"
    using nx old by (simp add: s'_def ki_swap_context_def resume_thread_def Let_def)
  show "u \<noteq> old \<Longrightarrow> u \<noteq> ?n \<Longrightarrow> threads s' u = threads s u" by (simp add: th)
  have lk: "queue_linked (threads s' u) = queue_linked (threads s u)"
    "priority (threads s' u) = priority (threads s u)" "base_priority (threads s' u) = base_priority (threads s u)"
    for u by (simp_all add: th)
  have st: "state (threads s' u) = state (threads s u) \<or> u = ?n \<or> (u = old \<and> state (threads s old) = Running)" for u
    by (simp add: th)
  have "state (threads s' u) = Ready" if "queue_linked (threads s u)" for u
    using st [of u] linked_Ready [OF inv that] nst(2) that by auto
  moreover have "state (threads s' u) = DeferredReady" if "u \<in> set (deferred_ready (prcb s))" for u
    using st [of u] sched_invD(7) [OF inv that] nst by auto
  ultimately show "sched_inv s'"
    using sched_invD [OF inv] by (auto simp: sched_inv_defs lk pc pc2)
  show "none_lost s'" if lost: "none_lost s" and oldr: "state (threads s old) = Running \<longrightarrow> old = idle_thread (prcb s)"
    unfolding none_lost_def
  proof (intro allI impI)
    fix u :: nat assume u0: "u \<noteq> 0"
    have nl: "not_lost u s" using lost u0 by (simp add: none_lost_def)
    have nb: "state (threads s u) \<noteq> Standby" if "u \<noteq> ?n"
      using nl that by (auto simp: not_lost_def)
    consider "u = ?n" | "u \<noteq> ?n" "u = old" "old \<noteq> 0 \<and> state (threads s old) = Running"
      | "u \<noteq> ?n" "state (threads s' u) = state (threads s u)"
      using st [of u] u0 by blast
    then show "not_lost u s'"
    proof cases
      case 1
      then show ?thesis using th [of ?n] by (simp add: not_lost_def)
    next
      case 2
      then have "state (threads s' u) = Ready" using th [of u] by simp
      then show ?thesis using 2 oldr pc2 by (simp add: not_lost_def)
    next
      case 3
      then show ?thesis using nl nb pc(3) pc2 lk(1) [of u] by (simp add: not_lost_def)
    qed
  qed
qed

text \<open>
  The current thread is where a switch may start: it runs, or quantum end has put it back into
  its queue; and it is not the thread that is to run next.
\<close>

definition switchable :: "KERNEL \<Rightarrow> bool" where
  "switchable s \<longleftrightarrow> (let c = current_thread (prcb s) in
     c \<noteq> 0 \<and> next_thread (prcb s) \<noteq> c \<and> idle_thread (prcb s) \<noteq> 0 \<and>
     (state (threads s c) = Running \<or> queue_linked (threads s c) \<and> next_thread (prcb s) \<noteq> 0))"

definition running :: "KERNEL \<Rightarrow> bool" where
  "running s \<longleftrightarrow> current_thread (prcb s) \<noteq> 0 \<and> idle_thread (prcb s) \<noteq> 0 \<and>
     state (threads s (current_thread (prcb s))) = Running"

text \<open>Changes outside the processor block and the threads.\<close>

lemma outside_cong:
  assumes "prcb s' = prcb s" and "threads s' = threads s"
  shows "sched_inv s' = sched_inv s" and "none_lost s' = none_lost s" and "running s' = running s"
    and "placed t s' = placed t s" and "switchable s' = switchable s"
  by (simp_all add: sched_inv_defs none_lost_def not_lost_def running_def placed_def switchable_def assms)

lemma lock_access [kstate, simp]:
  "threads (release_dispatcher_lock s) = threads s" "prcb (release_dispatcher_lock s) = prcb s"
  "\<not> dispatcher_lock (release_dispatcher_lock s)"
  "dispatch_depth (release_dispatcher_lock s) = dispatch_depth s"
  by (simp_all add: release_dispatcher_lock_def)

lemma swap_idle [simp]:
  "idle_thread (prcb (ki_swap_context fr old s)) = idle_thread (prcb s)"
  by (simp add: ki_swap_context_def Let_def)

section \<open>Dispatch\<close>

text \<open>Choosing the next thread and marking it standing by, in one step.\<close>

lemma dispatch_choose_spec:
  assumes inv: "sched_inv s" and run: "state (threads s cur) \<noteq> Ready \<or> next_thread (prcb s) \<noteq> 0"
    and ch: "dispatch_choose s = (n, s1)" and n0: "n \<noteq> 0"
    and s2_def: "s2 = (if state (threads s1 n) \<noteq> Standby then set_state Standby n s1 else s1)"
  shows "keeps s s2" and "next_thread (prcb s2) = n"
    and "n \<noteq> cur \<Longrightarrow> state (threads s2 cur) = state (threads s cur)"
    and "current_thread (prcb s1) = current_thread (prcb s)" and "idle_thread (prcb s1) = idle_thread (prcb s)"
    and "n = cur \<Longrightarrow> next_thread (prcb s) = cur"
proof -
  have "keeps s s2 \<and> next_thread (prcb s2) = n \<and> (n \<noteq> cur \<longrightarrow> state (threads s2 cur) = state (threads s cur)) \<and>
    current_thread (prcb s1) = current_thread (prcb s) \<and> idle_thread (prcb s1) = idle_thread (prcb s) \<and>
    (n = cur \<longrightarrow> next_thread (prcb s) = cur)"
  proof (cases "next_thread (prcb s) = 0 \<and> ready_summary (prcb s) \<noteq> 0")
    case False
    then have "n = next_thread (prcb s)" "s1 = s" using ch by (auto simp: dispatch_choose_def)
    then show ?thesis
      using s2_def sched_invD(8) [OF inv] n0 keeps_refl [OF inv] by simp
  next
    case True
    have "\<not> none_above 0 s"
      using summary_level [OF inv, of 0] True by (simp add: level_mask_def)
    then obtain p where p: "best_level s p" "0 \<le> int p" using best_level_exists by blast
    have pp: "p < 32" "ready_list (prcb s) ! p \<noteq> []" using p(1) by (auto simp: best_level_def)
    obtain u t where take: "queue_take (number (prcb s)) p s = (u, t)" by (meson surj_pair)
    note q = queue_take_spec [OF inv pp take]
    have sel: "ki_select_next_thread (number (prcb s)) s = (u, t)"
      using find_ready_some [OF inv p] take by (simp add: ki_select_next_thread_def)
    have u0: "u \<noteq> 0" "state (threads s u) = Ready"
      using q(1,3) sched_invD(4) [OF inv pp(1), of u] pp(2) by (auto simp: detached_def)
    have n: "n = u" "s1 = ki_set_prcb_next_thread u t"
      using ch True sel u0 by (auto simp: dispatch_choose_def)
    have s2: "s2 = make_standby u t"
      using s2_def n q(4) [of u] u0 by (simp add: make_standby_def set_state_def upd_defs ki_set_prcb_next_thread_def)
    have pn: "pick_next 0 s = (u, s2)"
      using find_ready_some [OF inv p] take by (simp add: pick_next_def s2)
    have "current_thread (prcb t) = current_thread (prcb s)" "idle_thread (prcb t) = idle_thread (prcb s)"
      by (subst q(8), simp)+
    moreover have cu: "cur \<noteq> u" using run u0 True by auto
    moreover have "state (threads s2 cur) = state (threads s cur)" using cu q(4) [of cur] by (simp add: s2)
    moreover have "keeps s s2" "next_thread (prcb s2) = u"
      using pick_next_keeps [OF inv _ _ pn] True by auto
    ultimately show ?thesis using n by simp
  qed
  then show "keeps s s2" and "next_thread (prcb s2) = n"
    and "n \<noteq> cur \<Longrightarrow> state (threads s2 cur) = state (threads s cur)"
    and "current_thread (prcb s1) = current_thread (prcb s)" and "idle_thread (prcb s1) = idle_thread (prcb s)"
    and "n = cur \<Longrightarrow> next_thread (prcb s) = cur"
    by blast+
qed

lemma dispatch_choose_zero:
  assumes "sched_inv s" and "dispatch_choose s = (0, s1)"
  shows "s1 = s" and "next_thread (prcb s) = 0"
proof -
  have "s1 = s \<and> next_thread (prcb s) = 0"
  proof (cases "next_thread (prcb s) = 0 \<and> ready_summary (prcb s) \<noteq> 0")
    case False
    then show ?thesis using assms(2) by (auto simp: dispatch_choose_def)
  next
    case True
    have "\<not> none_above 0 s"
      using summary_level [OF assms(1), of 0] True by (simp add: level_mask_def)
    then obtain p where p: "best_level s p" "0 \<le> int p" using best_level_exists by blast
    have pp: "p < 32" "ready_list (prcb s) ! p \<noteq> []" using p(1) by (auto simp: best_level_def)
    obtain u t where take: "queue_take (number (prcb s)) p s = (u, t)" by (meson surj_pair)
    have "u \<noteq> 0" using queue_take_spec(3) [OF assms(1) pp take] by (simp add: detached_def)
    then show ?thesis
      using assms find_ready_some [OF assms(1) p] take True
      by (simp add: dispatch_choose_def ki_select_next_thread_def)
  qed
  then show "s1 = s" and "next_thread (prcb s) = 0" by auto
qed

lemma dispatch_switch_wp:
  assumes inv: "sched_inv s" and sw: "switchable s"
  shows "wp_out (dispatch_switch s) (\<lambda>s'. sched_inv s' \<and> (none_lost s \<longrightarrow> none_lost s') \<and> running s' \<and>
     \<not> dispatcher_lock s' \<and> deferred_ready (prcb s') = deferred_ready (prcb s))"
proof -
  let ?c = "current_thread (prcb s)"
  obtain n s1 where ch: "dispatch_choose s = (n, s1)" by (meson surj_pair)
  show ?thesis
  proof (cases "n = 0")
    case True
    have z: "s1 = s" "next_thread (prcb s) = 0" using dispatch_choose_zero [OF inv] ch True by auto
    have l: "prcb (dispatch_leave s) = prcb s" "threads (dispatch_leave s) = threads s"
      "\<not> dispatcher_lock (dispatch_leave s)" by (simp_all add: dispatch_leave_def)
    have "running s" using sw z by (simp add: switchable_def running_def Let_def)
    then show ?thesis
      using True ch z inv outside_cong [OF l(1,2)] l
      by (simp add: dispatch_switch_def Let_def)
  next
    case n0: False
    define s2 where "s2 = (if state (threads s1 n) \<noteq> Standby then set_state Standby n s1 else s1)"
    have idle: "idle_thread (prcb s) \<noteq> 0" and c0: "?c \<noteq> 0" and nc: "next_thread (prcb s) \<noteq> ?c"
      and run: "state (threads s ?c) = Running \<or> queue_linked (threads s ?c) \<and> next_thread (prcb s) \<noteq> 0"
      using sw by (auto simp: switchable_def Let_def)
    have run': "state (threads s ?c) \<noteq> Ready \<or> next_thread (prcb s) \<noteq> 0" using run by auto
    note d = dispatch_choose_spec [OF inv run' ch n0 s2_def]
    have nn: "n \<noteq> ?c" using d(6) nc by auto
    have k: "sched_inv s2" "none_lost s \<longrightarrow> none_lost s2" "current_thread (prcb s2) = ?c"
      "idle_thread (prcb s2) = idle_thread (prcb s)" "deferred_ready (prcb s2) = deferred_ready (prcb s)"
      using d(1) by (auto simp: keeps_def)
    have st2: "state (threads s2 ?c) = state (threads s ?c)" using d(3) nn by auto
    have stc: "state (threads s ?c) = Running \<or> state (threads s ?c) = Ready"
      using run linked_Ready [OF inv, of ?c] by auto
    let ?post = "\<lambda>s3. sched_inv s3 \<and> (none_lost s \<longrightarrow> none_lost s3) \<and> next_thread (prcb s3) = n \<and>
      (state (threads s3 ?c) = Running \<longrightarrow> ?c = idle_thread (prcb s3)) \<and>
      idle_thread (prcb s3) = idle_thread (prcb s) \<and> deferred_ready (prcb s3) = deferred_ready (prcb s)"
    have rq: "wp_out (requeue_old ?c s2) ?post"
    proof (cases "?c = idle_thread (prcb s) \<or> state (threads s ?c) \<noteq> Running")
      case True
      let ?s3 = "s2\<lparr>idle_summary := idle_summary s2 AND NOT (push_bit (number (prcb s2) mod 64) 1)\<rparr>"
      have "sched_inv ?s3 = sched_inv s2" "none_lost ?s3 = none_lost s2"
        by (simp_all add: sched_inv_defs none_lost_def not_lost_def)
      then show ?thesis
        using True k d(2) st2 by (auto simp: requeue_old_def)
    next
      case False
      have det: "detached ?c s2"
        using running_detached [OF k(1) c0] st2 False by simp
      then have nl: "\<not> queue_linked (threads s2 ?c)" by (simp add: detached_def)
      have "wp_out (ki_ready_thread ?c s2) ?post"
      proof (rule wp_mono [OF ready_current_wp [OF k(1) det k(3)]], goal_cases)
        case 1
        show ?case using False k(4) by simp
      next
        case (2 s3)
        then have r: "readied ?c s2 s3" and st3: "state (threads s3 ?c) = Ready"
          and nx3: "next_thread (prcb s3) = next_thread (prcb s2)" by auto
        have "none_lost s \<longrightarrow> none_lost s3"
          using k(2) readied_none_lost [OF r k(1)] by (auto simp: none_lost_def)
        then show ?case using readiedD(1,5,9) [OF r] st3 nx3 d(2) k(4,5) by simp
      qed
      then show ?thesis using False nl k st2 by (simp add: requeue_old_def)
    qed
    have "wp_out (requeue_old ?c s2) (\<lambda>s3. wp_out
        (Ret (ki_swap_context DispatchFrame ?c (release_dispatcher_lock s3)))
        (\<lambda>s'. sched_inv s' \<and> (none_lost s \<longrightarrow> none_lost s') \<and> running s' \<and> \<not> dispatcher_lock s' \<and>
           deferred_ready (prcb s') = deferred_ready (prcb s)))"
    proof (rule wp_mono [OF rq])
      fix s3 assume p: "?post s3"
      let ?r = "release_dispatcher_lock s3"
      note r = lock_access [of s3]
      have ri: "sched_inv ?r" "none_lost ?r = none_lost s3"
        using p outside_cong [of ?r s3] by auto
      have ne: "next_thread (prcb ?r) \<noteq> 0" "?c \<noteq> next_thread (prcb ?r)" using p n0 nn by auto
      define s' where "s' = ki_swap_context DispatchFrame ?c ?r"
      note sp = swap_context_spec [OF ri(1) ne s'_def]
      have "none_lost s \<longrightarrow> none_lost s'"
        using sp(8) p ri by (auto simp del: imp_conv_disj)
      moreover have "running s'"
        using sp(2,4) ne idle p r by (simp add: running_def s'_def)
      ultimately show "wp_out (Ret (ki_swap_context DispatchFrame ?c ?r))
        (\<lambda>s'. sched_inv s' \<and> (none_lost s \<longrightarrow> none_lost s') \<and> running s' \<and> \<not> dispatcher_lock s' \<and>
           deferred_ready (prcb s') = deferred_ready (prcb s))"
        using sp(1,5,6) p r by (simp flip: s'_def)
    qed
    then show ?thesis
      using ch n0 nn c0 k(3) d(4)
      by (simp add: dispatch_switch_def Let_def flip: s2_def)
  qed
qed


lemma process_deferred_switchable:
  assumes inv: "sched_inv s" and sw: "switchable s"
  shows "wp_out (ki_process_deferred_ready_list s) switchable"
proof (rule wp_mono [OF process_deferred_wp [OF inv]])
  let ?c = "current_thread (prcb s)" and ?D = "set (deferred_ready (prcb s))"
  fix s' assume p: "sched_inv s' \<and> deferred_ready (prcb s') = [] \<and>
     (\<forall>t. placed t s' \<longleftrightarrow> placed t s \<or> t \<in> ?D) \<and>
     current_thread (prcb s') = ?c \<and> idle_thread (prcb s') = idle_thread (prcb s) \<and>
     (\<forall>u. \<not> placed u s' \<longrightarrow> state (threads s' u) = state (threads s u)) \<and>
     next_thread (prcb s') \<in> insert (next_thread (prcb s)) ?D \<and>
     dispatcher_lock s' = dispatcher_lock s \<and> dispatch_depth s' = dispatch_depth s"
  have sw': "?c \<noteq> 0" "next_thread (prcb s) \<noteq> ?c" "idle_thread (prcb s) \<noteq> 0"
    and st: "state (threads s ?c) = Running \<or> queue_linked (threads s ?c) \<and> next_thread (prcb s) \<noteq> 0"
    using sw by (auto simp: switchable_def Let_def)
  have nd: "?c \<notin> ?D" using st sched_invD(7) [OF inv, of ?c] by auto
  then have nn: "next_thread (prcb s') \<noteq> ?c" using p sw'(2) by auto
  have nz: "next_thread (prcb s) \<noteq> 0 \<Longrightarrow> next_thread (prcb s') \<noteq> 0"
    using p sched_invD(7) [OF inv, of 0] by (metis insert_iff)
  show "switchable s'"
  proof (cases "queue_linked (threads s ?c)")
    case True
    then have "placed ?c s'" using p by (simp add: placed_def)
    then have "queue_linked (threads s' ?c)" using nn by (auto simp: placed_def)
    then show ?thesis using p sw' nn nz st True linked_Ready(1) [OF inv True]
      by (auto simp: switchable_def Let_def)
  next
    case False
    then have "\<not> placed ?c s'" using p sw' nd by (auto simp: placed_def)
    then show ?thesis using p sw' nn st False by (simp add: switchable_def Let_def)
  qed
qed

text \<open>
  A dispatch on a sound state returns, keeps the invariant, loses no thread, leaves the lock
  free and a running thread on the processor; every thread of the deferred list has reached a
  ready queue, the next slot or the processor.
\<close>

definition on_processor :: "nat \<Rightarrow> KERNEL \<Rightarrow> bool" where
  "on_processor t s \<longleftrightarrow> placed t s \<or> current_thread (prcb s) = t"

lemma dispatch_quantum_wp:
  assumes inv: "sched_inv s" and run: "running s" and lk: "\<not> dispatcher_lock s"
    and pre: "\<not> preempted (threads s (current_thread (prcb s)))"
  shows "wp_out (dispatch_quantum s) (\<lambda>s'. keeps s s' \<and> switchable s')"
proof -
  let ?c = "current_thread (prcb s)"
  have r: "?c \<noteq> 0" "idle_thread (prcb s) \<noteq> 0" "state (threads s ?c) = Running"
    using run by (auto simp: running_def)
  show ?thesis
  proof (cases "quantum_end (prcb s)")
    case False
    have "next_thread (prcb s) \<noteq> ?c" using sched_invD(8) [OF inv] r by auto
    then show ?thesis using False r keeps_refl [OF inv]
      by (simp add: dispatch_quantum_def switchable_def Let_def)
  next
    case True
    let ?l = "s\<lparr>dispatcher_lock := True\<rparr>"
    have inv': "sched_inv ?l" using inv outside_cong(1) [of ?l s] by simp
    have "wp_out (ki_quantum_end ?l) (\<lambda>(_, s'). keeps s (release_dispatcher_lock s') \<and> switchable (release_dispatcher_lock s'))"
    proof (rule wp_mono [OF quantum_end_wp [OF inv']])
      show "state (threads ?l (current_thread (prcb ?l))) = Running" "current_thread (prcb ?l) \<noteq> 0"
        using r by simp_all
      fix x assume "case x of (_, s') \<Rightarrow> quantum_rotates ?l s'"
      then obtain n s' where x: "x = (n, s')" and q: "quantum_rotates ?l s'" by (cases x) auto
      have k: "keeps ?l s'" using q by (simp add: quantum_rotates_def)
      have i': "sched_inv s'" using k by (simp add: keeps_def)
      have "keeps s (release_dispatcher_lock s')"
        using k outside_cong(1,2) [of ?l s] outside_cong(1,2) [of "release_dispatcher_lock s'" s'] lk
        by (simp add: keeps_def)
      moreover have "switchable s'"
      proof -
        have "current_thread (prcb s') = ?c" "idle_thread (prcb s') = idle_thread (prcb s)"
          using k by (auto simp: keeps_def)
        moreover have "state (threads s' ?c) = Running \<or> next_thread (prcb s') \<noteq> 0 \<and> queue_linked (threads s' ?c)"
          using q r pre by (auto simp: quantum_rotates_def)
        moreover from this have "next_thread (prcb s') \<noteq> ?c"
          using sched_invD(8) [OF i'] r by auto
        ultimately show ?thesis using r by (auto simp: switchable_def Let_def)
      qed
      ultimately show "case x of (_, s') \<Rightarrow> keeps s (release_dispatcher_lock s') \<and> switchable (release_dispatcher_lock s')"
        using x outside_cong(5) [of "release_dispatcher_lock s'" s'] by simp
    qed
    then show ?thesis
      using True lk by (auto simp: dispatch_quantum_def acquire_dispatcher_lock_def case_prod_unfold)
  qed
qed


lemma process_deferred_placed:
  assumes "sched_inv s"
  shows "wp_out (if deferred_ready (prcb s) \<noteq> [] then ki_process_deferred_ready_list s else Ret s)
    (\<lambda>s'. sched_inv s' \<and> deferred_ready (prcb s') = [] \<and>
      (\<forall>t\<in>set (deferred_ready (prcb s)). placed t s') \<and> (\<forall>t. placed t s \<longrightarrow> placed t s'))"
proof (cases "deferred_ready (prcb s) = []")
  case False
  then show ?thesis
    using wp_mono [OF process_deferred_wp [OF assms]] by (simp add: wp_iff)
qed (use assms in simp)

theorem dispatch_wp:
  assumes inv: "sched_inv s" and lost: "none_lost s" and run: "running s"
    and lk: "\<not> dispatcher_lock s" and depth: "dispatch_depth s = 0"
    and pre: "\<not> preempted (threads s (current_thread (prcb s)))"
  shows "wp_out (ki_dispatch_on_current_processor s) (\<lambda>s'. sched_inv s' \<and> none_lost s' \<and> running s' \<and>
     \<not> dispatcher_lock s' \<and> deferred_ready (prcb s') = [])"
proof -
  let ?s = "s\<lparr>dispatch_depth := dispatch_depth s + 1\<rparr>"
  note c = outside_cong [of ?s s, simplified]
  have "wp_out (dispatch_quantum ?s) (\<lambda>s1. keeps ?s s1 \<and> switchable s1)"
    by (rule dispatch_quantum_wp) (use inv run lk pre c in simp_all)
  then have "wp_out (dispatch_quantum ?s) (\<lambda>s1.
      wp_out (bind_out (acquire_dispatcher_lock s1) (\<lambda>s.
         bind_out (if deferred_ready (prcb s) \<noteq> [] then ki_process_deferred_ready_list s else Ret s)
           dispatch_switch)) (\<lambda>s'. sched_inv s' \<and> none_lost s' \<and> running s' \<and>
     \<not> dispatcher_lock s' \<and> deferred_ready (prcb s') = []))"
  proof (rule wp_mono)
    fix s1 assume a: "keeps ?s s1 \<and> switchable s1"
    let ?l = "s1\<lparr>dispatcher_lock := True\<rparr>"
    note cl = outside_cong [of ?l s1, simplified]
    have l1: "acquire_dispatcher_lock s1 = Ret ?l"
      using a lk by (simp add: keeps_def acquire_dispatcher_lock_def)
    have il: "sched_inv ?l" "none_lost ?l" "switchable ?l"
      using a lost cl c by (auto simp: keeps_def)
    have "wp_out (if deferred_ready (prcb ?l) \<noteq> [] then ki_process_deferred_ready_list ?l else Ret ?l)
       (\<lambda>s2. (sched_inv s2 \<and> deferred_ready (prcb s2) = []) \<and> none_lost s2 \<and> switchable s2)"
      (is "wp_out ?m _")
    proof -
      have 1: "wp_out ?m (\<lambda>s2. sched_inv s2 \<and> deferred_ready (prcb s2) = [])"
        by (rule wp_mono [OF process_deferred_placed [OF il(1)]]) simp
      have 2: "wp_out ?m none_lost" "wp_out ?m switchable"
        using process_deferred_none_lost [OF il(1,2)] process_deferred_switchable [OF il(1,3)] il
        by (auto intro: wp_if)
      show ?thesis by (rule wp_conj [OF 1 wp_conj [OF 2]])
    qed
    then have "wp_out (if deferred_ready (prcb ?l) \<noteq> [] then ki_process_deferred_ready_list ?l else Ret ?l)
       (\<lambda>s2. wp_out (dispatch_switch s2) (\<lambda>s'. sched_inv s' \<and> none_lost s' \<and> running s' \<and>
     \<not> dispatcher_lock s' \<and> deferred_ready (prcb s') = []))"
      by (rule wp_mono) (rule wp_mono [OF dispatch_switch_wp], auto)
    then show "wp_out (bind_out (acquire_dispatcher_lock s1) (\<lambda>s.
         bind_out (if deferred_ready (prcb s) \<noteq> [] then ki_process_deferred_ready_list s else Ret s)
           dispatch_switch)) (\<lambda>s'. sched_inv s' \<and> none_lost s' \<and> running s' \<and>
     \<not> dispatcher_lock s' \<and> deferred_ready (prcb s') = [])"
      by (simp add: l1)
  qed
  then show ?thesis using depth by (simp add: ki_dispatch_on_current_processor_def)
qed

end
