(* ===== verification/DispatchLive.thy ===== *)
theory DispatchLive
  imports DispatchProps
begin

text \<open>
  Progress of runnable threads: a dispatch moves no thread out of the runnable states and
  leaves one thread running, so every runnable thread is in a ready queue, next, or on the
  processor when the dispatch is done.
\<close>

section \<open>State changes on the way to a switch\<close>

definition settles :: "KERNEL \<Rightarrow> KERNEL \<Rightarrow> bool" where
  "settles s s' \<longleftrightarrow> current_thread (prcb s') = current_thread (prcb s) \<and>
     (\<forall>t. state (threads s' t) = state (threads s t) \<or> state (threads s' t) \<in> {Ready, Standby})"

lemma settles_refl [simp]: "settles s s"
  by (simp add: settles_def)

lemma settles_trans: "settles s s' \<Longrightarrow> settles s' s'' \<Longrightarrow> settles s s''"
  unfolding settles_def by metis

lemma settles_bind:
  assumes "bind_out m f = Ret s''" and "\<And>s'. m = Ret s' \<Longrightarrow> settles s s'"
    and "\<And>s'. f s' = Ret s'' \<Longrightarrow> settles s' s''"
  shows "settles s s''"
  using assms by (cases m) (auto intro: settles_trans)

lemma settles_upd:
  assumes "state (f (threads s t)) = state (threads s t)"
  shows "settles s (thread_upd t f s)"
  using assms by (simp add: settles_def)

lemma settles_prcb:
  assumes "current_thread (g (prcb s)) = current_thread (prcb s)"
  shows "settles s (prcb_upd g s)"
  using assms by (simp add: settles_def)

lemma settles_set: "st \<in> {Ready, Standby} \<Longrightarrow> settles s (set_state st t s)"
  by (simp add: settles_def)

lemma settles_standby: "settles s (make_standby t s)"
  by (simp add: settles_def)

lemma settles_preempt: "settles s (preempt_current t s)"
  by (simp add: settles_def)

lemma settles_insert: "queue_insert h t p s = Ret s' \<Longrightarrow> settles s s'"
  by (auto simp: queue_insert_def settles_def set_prcb_ready_summary_def split: if_splits)

lemma settles_ready_upd:
  assumes "state (f (threads s t)) = state (threads s t) \<or> state (f (threads s t)) \<in> {Ready, Standby}"
  shows "settles s (thread_upd t f s)"
  using assms by (simp add: settles_def)

lemma settles_requeue:
  assumes "requeue_next n s = Ret s'"
  shows "settles s s'"
proof -
  let ?s = "thread_upd n (preempted_update (\<lambda>_. False)) s"
  have "settles s ?s" "settles ?s (set_state Ready n ?s)"
    by (simp_all add: settles_upd settles_set)
  then show ?thesis
    using settles_insert [OF assms [unfolded requeue_next_def]] by (blast intro: settles_trans)
qed

lemma settles_enqueue:
  assumes "ready_enqueue t p s = Ret s'"
  shows "settles s s'"
proof -
  let ?s = "set_state Ready t s"
  have 1: "settles s ?s" by (simp add: settles_set)
  have 2: "settles ?s (thread_upd t (preempted_update (\<lambda>_. False)) ?s)" by (simp add: settles_upd)
  show ?thesis
  proof (cases "preempted (threads ?s t)")
    case True
    then have "queue_insert True t p (thread_upd t (preempted_update (\<lambda>_. False)) ?s) = Ret s'"
      using assms by (simp add: ready_enqueue_def Let_def)
    from settles_insert [OF this] show ?thesis using 1 2 by (blast intro: settles_trans)
  next
    case False
    then have "queue_insert False t p ?s = Ret s'"
      using assms by (simp add: ready_enqueue_def Let_def)
    from settles_insert [OF this] show ?thesis using 1 by (blast intro: settles_trans)
  qed
qed

lemma settles_ready:
  assumes "ki_ready_thread t s = Ret s'"
  shows "settles s s'"
proof (cases "t = 0")
  case False
  let ?s = "thread_upd t (wait_time_update (\<lambda>_. ki_query_low_tick_count s)) s"
  let ?n = "next_thread (prcb ?s)" and ?c = "current_thread (prcb ?s)"
  have "settles s ?s" by (rule settles_upd) simp
  moreover have "settles ?s s'"
  proof -
    have "settles ?s s'" if "bind_out (requeue_next ?n ?s) (\<lambda>s. Ret (make_standby t s)) = Ret s'"
      using that by (rule settles_bind) (auto intro: settles_requeue settles_standby)
    moreover have "settles ?s s'"
      if "bind_out (requeue_next ?n ?s) (\<lambda>s. Ret (preempt_current ?c (make_standby t s))) = Ret s'"
      using that by (rule settles_bind)
        (auto intro: settles_requeue settles_trans [OF settles_standby settles_preempt])
    moreover have "settles ?s s'" if "queue_insert False t p (set_state Ready t ?s) = Ret s'" for p
      using settles_trans [OF settles_set settles_insert [OF that]] by simp
    moreover have "settles ?s (preempt_current ?c (make_standby t ?s))"
      by (rule settles_trans [OF settles_standby settles_preempt])
    ultimately show ?thesis
      using assms False settles_standby [of ?s t] settles_enqueue [of t _ ?s s']
      unfolding ki_ready_thread_def Let_def
      by (simp del: thread_upd_access split: if_splits)
  qed
  ultimately show ?thesis by (rule settles_trans)
qed (use assms in \<open>simp add: ki_ready_thread_def\<close>)

lemma settles_own: "own_change t s s' \<Longrightarrow> settles s s'"
  by (auto simp: own_change_def intro!: settles_upd)

lemma settles_ready_all: "ready_all ts s = Ret s' \<Longrightarrow> settles s s'"
proof (induction ts arbitrary: s)
  case (Cons t ts)
  have "settles s s1" if "ki_deferred_ready_thread t s = Ret s1" for s1
    using that settles_trans [OF settles_own [OF apply_adjustment_own] settles_ready]
    by (auto simp: ki_deferred_ready_thread_def split: if_splits)
  then show ?case
    using Cons.prems Cons.IH by (auto intro: settles_bind)
qed simp

lemma settles_deferred: "ki_process_deferred_ready_list s = Ret s' \<Longrightarrow> settles s s'"
  unfolding ki_process_deferred_ready_list_def
  by (drule settles_ready_all) (auto simp: settles_def)

lemma settles_take: "queue_take n p s = (t, s') \<Longrightarrow> settles s s'"
  by (cases "(ready_list (prcb s))[p := tl (ready_list (prcb s) ! p)] ! p = []")
    (auto simp: queue_take_def Let_def settles_def clear_prcb_ready_summary_def)

lemma settles_find_loop: "find_ready_loop n w s = (r, s') \<Longrightarrow> settles s s'"
proof (induction n w s rule: find_ready_loop.induct)
  case (1 n w s)
  then show ?case
    by (simp add: find_ready_loop.simps [of n w] Let_def settles_take split: if_splits prod.splits)
qed

lemma settles_find: "ki_find_ready_thread n low s = (r, s') \<Longrightarrow> settles s s'"
  by (auto simp: ki_find_ready_thread_def Let_def dest: settles_find_loop split: if_splits)

lemma settles_select: "ki_select_next_thread n s = (r, s') \<Longrightarrow> settles s s'"
  by (auto simp: ki_select_next_thread_def settles_def dest!: settles_find split: prod.splits option.splits if_splits)

lemma settles_pick: "pick_next low s = (r, s') \<Longrightarrow> settles s s'"
  by (auto simp: pick_next_def intro: settles_trans [OF _ settles_standby] dest!: settles_find
      split: prod.splits option.splits)

section \<open>Quantum end, the switch, the dispatch\<close>

lemma settles_quantum_end:
  assumes "ki_quantum_end s = Ret (u, s')" and "current_thread (prcb s) \<noteq> 0"
  shows "settles s s'"
proof -
  let ?s = "prcb_upd (quantum_end_update (\<lambda>_. False)) s" and ?c = "current_thread (prcb s)"
  have 0: "settles s ?s" by (rule settles_prcb) simp
  have 1: "settles ?s (reset_quantum ?c ?s)" by (rule settles_own [OF reset_quantum_own])
  have 2: "settles t (decay_priority ?c t)" for t by (rule settles_own [OF decay_priority_own [OF assms(2)]])
  have 3: "settles t s'" if m: "bind_out (ki_ready_thread ?c t) (\<lambda>s3. Ret (pick_next p s3)) = Ret (u, s')" for t p
  proof -
    obtain s3 where "ki_ready_thread ?c t = Ret s3" "pick_next p s3 = (u, s')"
      using m by (auto simp: bind_out_Ret_iff)
    then show ?thesis using settles_trans [OF settles_ready settles_pick] by blast
  qed
  have "settles ?s s'"
    using assms 1 2 [of "reset_quantum ?c ?s"] 3 settles_pick
    unfolding ki_quantum_end_def Let_def
    by (auto split: if_splits intro: settles_trans simp del: prcb_upd_access(1))
  then show ?thesis by (rule settles_trans [OF 0])
qed

lemma settles_quantum:
  assumes "dispatch_quantum s = Ret s'" and "current_thread (prcb s) \<noteq> 0"
  shows "settles s s'"
  using assms
  by (auto simp: dispatch_quantum_def bind_out_Ret_iff settles_def acquire_dispatcher_lock_def
      release_dispatcher_lock_def dest!: settles_quantum_end split: if_splits)

definition runnable :: "nat \<Rightarrow> KERNEL \<Rightarrow> bool" where
  "runnable t s \<longleftrightarrow> state (threads s t) \<in> {Ready, Standby, Running, DeferredReady}"

definition one_running :: "KERNEL \<Rightarrow> bool" where
  "one_running s \<longleftrightarrow> (\<forall>t. state (threads s t) = Running \<longrightarrow> t = current_thread (prcb s))"

definition goes_on :: "KERNEL \<Rightarrow> KERNEL \<Rightarrow> bool" where
  "goes_on s s' \<longleftrightarrow> (one_running s \<longrightarrow> one_running s') \<and> (\<forall>t. runnable t s \<longrightarrow> runnable t s')"

lemma settles_goes_on: "settles s s' \<Longrightarrow> goes_on s s'"
  unfolding settles_def goes_on_def one_running_def runnable_def by (metis KTHREAD_STATE.distinct insert_iff empty_iff)

lemma goes_on_trans: "goes_on s s' \<Longrightarrow> goes_on s' s'' \<Longrightarrow> goes_on s s''"
  by (auto simp: goes_on_def)

lemma swap_goes_on:
  assumes "old = current_thread (prcb s)" and "old \<noteq> 0"
  shows "goes_on s (ki_swap_context fr old s)"
proof (cases "next_thread (prcb s) = 0")
  case True
  then show ?thesis by (simp add: ki_swap_context_def goes_on_def)
next
  case False
  let ?n = "next_thread (prcb s)"
  have "state (threads (ki_swap_context fr old s) t) =
      (if t = old \<and> (old = ?n \<or> state (threads s old) = Running) then Ready
       else if t = ?n then Running else state (threads s t))" for t
    using False assms by (auto simp: ki_swap_context_def Let_def)
  moreover have "current_thread (prcb (ki_swap_context fr old s)) = ?n"
    using False by (simp add: ki_swap_context_def Let_def)
  ultimately show ?thesis
    using assms by (auto simp: goes_on_def one_running_def runnable_def split: if_splits)
qed

lemma outside_goes_on:
  assumes "prcb s' = prcb s" and "threads s' = threads s"
  shows "goes_on s s'" and "goes_on t s' = goes_on t s" and "goes_on s' t = goes_on s t"
  using assms by (simp_all add: goes_on_def one_running_def runnable_def)

lemma dispatch_choose_settles: "dispatch_choose s = (n, s') \<Longrightarrow> settles s s'"
  by (auto simp: dispatch_choose_def settles_def dest!: settles_select split: prod.splits if_splits)

lemma requeue_old_settles: "requeue_old old s = Ret s' \<Longrightarrow> settles s s'"
  by (auto simp: requeue_old_def intro: settles_ready settles_set split: if_splits) (simp add: settles_def)

lemma dispatch_switch_goes_on:
  assumes "dispatch_switch s = Ret s'"
  shows "goes_on s s'"
proof -
  obtain n s1 where ch: "dispatch_choose s = (n, s1)" by (meson surj_pair)
  let ?old = "current_thread (prcb s1)"
  define s2 where "s2 = (if state (threads s1 n) \<noteq> Standby then set_state Standby n s1 else s1)"
  have 1: "settles s s1" by (rule dispatch_choose_settles [OF ch])
  have 2: "settles s s2" using settles_trans [OF 1 settles_set] 1 by (simp add: s2_def)
  show ?thesis
  proof (cases "n = 0 \<or> ?old = 0 \<or> ?old = n")
    case True
    have "goes_on s (dispatch_leave s1)"
      using settles_goes_on [OF 1] outside_goes_on(2) [of "dispatch_leave s1" s1] by (simp add: dispatch_leave_def)
    moreover have "goes_on s (dispatch_leave (prcb_upd (next_thread_update (\<lambda>_. 0)) s1))"
      using settles_goes_on [OF settles_trans [OF 1 settles_prcb]]
        outside_goes_on(2) [of "dispatch_leave (prcb_upd (next_thread_update (\<lambda>_. 0)) s1)" "prcb_upd (next_thread_update (\<lambda>_. 0)) s1"]
      by (simp add: dispatch_leave_def)
    ultimately show ?thesis using True assms ch by (auto simp: dispatch_switch_def Let_def split: if_splits)
  next
    case False
    then obtain s3 where s3: "requeue_old ?old s2 = Ret s3"
      "s' = ki_swap_context DispatchFrame ?old (release_dispatcher_lock s3)"
      using assms ch by (auto simp: dispatch_switch_def Let_def bind_out_Ret_iff simp flip: s2_def)
    have st: "settles s s3" by (rule settles_trans [OF 2 requeue_old_settles [OF s3(1)]])
    have "goes_on (release_dispatcher_lock s3) s'"
      unfolding s3(2)
      by (rule swap_goes_on) (use st 1 False in \<open>simp_all add: settles_def\<close>)
    then show ?thesis
      using settles_goes_on [OF st] outside_goes_on(3) [of "release_dispatcher_lock s3" s3]
      by (auto intro: goes_on_trans)
  qed
qed

lemma dispatch_goes_on:
  assumes "ki_dispatch_on_current_processor s = Ret s'" and c0: "current_thread (prcb s) \<noteq> 0"
  shows "goes_on s s'"
proof (cases "0 < dispatch_depth s")
  case True
  then show ?thesis using assms by (simp add: ki_dispatch_on_current_processor_def goes_on_def)
next
  case False
  let ?s = "s\<lparr>dispatch_depth := dispatch_depth s + 1\<rparr>"
  obtain s1 s2 s3 where s: "dispatch_quantum ?s = Ret s1" "acquire_dispatcher_lock s1 = Ret s2"
    "(if deferred_ready (prcb s2) \<noteq> [] then ki_process_deferred_ready_list s2 else Ret s2) = Ret s3"
    "dispatch_switch s3 = Ret s'"
    using assms(1) False by (auto simp: ki_dispatch_on_current_processor_def bind_out_Ret_iff)
  have "goes_on s ?s" using outside_goes_on(1) [of ?s s] by simp
  moreover have "goes_on ?s s1" using settles_goes_on [OF settles_quantum [OF s(1)]] c0 by simp
  moreover have "goes_on s1 s2"
    using s(2) outside_goes_on(1) [of s2 s1] by (auto simp: acquire_dispatcher_lock_def split: if_splits)
  moreover have "goes_on s2 s3"
    using s(3) settles_goes_on [OF settles_deferred, of s2 s3] settles_goes_on [OF settles_refl]
    by (auto split: if_splits)
  moreover have "goes_on s3 s'" by (rule dispatch_switch_goes_on [OF s(4)])
  ultimately show ?thesis by (blast intro: goes_on_trans)
qed

text \<open>Every runnable thread is where the processor finds it.\<close>

lemma runnable_placed:
  assumes "sched_inv s" and "none_lost s" and "one_running s" and "runnable t s"
    and "deferred_ready (prcb s) = []" and "t \<noteq> 0"
  shows "on_processor t s \<or> t = idle_thread (prcb s)"
  using assms unfolding none_lost_def not_lost_def one_running_def runnable_def on_processor_def placed_def
  by auto

theorem dispatch_reaches:
  assumes "sched_inv s" and "none_lost s" and "running s" and "one_running s"
    and "\<not> dispatcher_lock s" and "dispatch_depth s = 0"
    and "\<not> preempted (threads s (current_thread (prcb s)))"
  shows "wp_out (ki_dispatch_on_current_processor s) (\<lambda>s'. sched_inv s' \<and> none_lost s' \<and> running s' \<and>
     one_running s' \<and> \<not> dispatcher_lock s' \<and> deferred_ready (prcb s') = [] \<and>
     (\<forall>t. t \<noteq> 0 \<longrightarrow> runnable t s \<longrightarrow> on_processor t s' \<or> t = idle_thread (prcb s')))"
proof -
  have "current_thread (prcb s) \<noteq> 0" using assms(3) by (simp add: running_def)
  then show ?thesis
    using dispatch_wp [OF assms(1-3,5-7)] dispatch_goes_on [of s] assms(4) runnable_placed
    unfolding wp_iff goes_on_def by metis
qed

end
