(* ===== verification/Objects.thy ===== *)
theory Objects
  imports Sched
begin

text \<open>
  Events, semaphores and mutants (\<open>ke/event.rs\<close>, \<open>ke/semaphore.rs\<close>, \<open>ke/mutex.rs\<close>): the
  operations that change a dispatcher object and wake its waiters.
\<close>

section \<open>Events\<close>

datatype EVENT_TYPE = NotificationEvent | SynchronizationEvent

definition init_header :: "nat \<Rightarrow> int \<Rightarrow> DISPATCHER_HEADER" where
  "init_header ty sig = \<lparr>object_type = ty, signal_state = sig, wait_list = []\<rparr>"

definition ke_initialize_event :: "object_ref \<Rightarrow> EVENT_TYPE \<Rightarrow> bool \<Rightarrow> KERNEL \<Rightarrow> KERNEL" where
  "ke_initialize_event e ty initial s =
    object_upd e (\<lambda>_. init_header (case ty of NotificationEvent \<Rightarrow> EVENT_NOTIFICATION_OBJECT
        | SynchronizationEvent \<Rightarrow> EVENT_SYNCHRONIZATION_OBJECT) (if initial then 1 else 0)) s"

definition ke_set_event :: "object_ref \<Rightarrow> int \<Rightarrow> KERNEL \<Rightarrow> (int \<times> KERNEL) outcome" where
  "ke_set_event e increment s =
    bind_out (acquire_dispatcher_lock s) (\<lambda>s1.
      bind_out (ki_wait_test e (wrap_i8 increment) (object_upd e (signal_state_update (\<lambda>_. 1)) s1)) (\<lambda>s2.
        Ret (signal_state (objects s e), release_dispatcher_lock s2)))"

definition ke_clear_event :: "object_ref \<Rightarrow> KERNEL \<Rightarrow> KERNEL" where
  "ke_clear_event e s = object_upd e (signal_state_update (\<lambda>_. 0)) s"

definition ke_reset_event :: "object_ref \<Rightarrow> KERNEL \<Rightarrow> int \<times> KERNEL" where
  "ke_reset_event e s = (signal_state (objects s e), object_upd e (signal_state_update (\<lambda>_. 0)) s)"

definition ke_read_state_event :: "object_ref \<Rightarrow> KERNEL \<Rightarrow> int" where
  "ke_read_state_event e s = signal_state (objects s e)"

definition ke_pulse_event :: "object_ref \<Rightarrow> int \<Rightarrow> KERNEL \<Rightarrow> (int \<times> KERNEL) outcome" where
  "ke_pulse_event e increment s =
    bind_out (acquire_dispatcher_lock s) (\<lambda>s1.
      bind_out (ki_wait_test e (wrap_i8 increment) (object_upd e (signal_state_update (\<lambda>_. 1)) s1)) (\<lambda>s2.
        Ret (signal_state (objects s e),
             release_dispatcher_lock (object_upd e (signal_state_update (\<lambda>_. 0)) s2))))"

section \<open>Semaphores\<close>

text \<open>The limit of a semaphore is not part of the header; it never changes, so it is an argument.\<close>

definition ke_initialize_semaphore :: "object_ref \<Rightarrow> int \<Rightarrow> KERNEL \<Rightarrow> KERNEL" where
  "ke_initialize_semaphore m count s = object_upd m (\<lambda>_. init_header SEMAPHORE_OBJECT count) s"

text \<open>\<open>Err(())\<close> is \<open>None\<close>. The additions wrap around in a release build.\<close>

definition ke_release_semaphore ::
  "object_ref \<Rightarrow> int \<Rightarrow> int \<Rightarrow> int \<Rightarrow> KERNEL \<Rightarrow> (int option \<times> KERNEL) outcome" where
  "ke_release_semaphore m limit increment adjustment s =
    bind_out (acquire_dispatcher_lock s) (\<lambda>s1.
      let previous = signal_state (objects s m);
          new_value = wrap_i32 (previous + adjustment);
          s2 = object_upd m (signal_state_update (\<lambda>v. wrap_i32 (v + adjustment))) s1
      in if limit < new_value
         then Ret (None, release_dispatcher_lock
                (object_upd m (signal_state_update (\<lambda>v. wrap_i32 (v - adjustment))) s2))
         else bind_out (if previous = 0 \<and> 0 < new_value
                        then ki_wait_test m (wrap_i8 increment) s2 else Ret s2)
                (\<lambda>s3. Ret (Some previous, release_dispatcher_lock s3)))"

definition ke_read_state_semaphore :: "object_ref \<Rightarrow> KERNEL \<Rightarrow> int" where
  "ke_read_state_semaphore m s = signal_state (objects s m)"

section \<open>Mutants\<close>

text \<open>
  The owner of a mutant is written and never read by the operations here: it is the second
  component of the result.
\<close>

definition ke_initialize_mutex :: "object_ref \<Rightarrow> KERNEL \<Rightarrow> nat \<times> KERNEL" where
  "ke_initialize_mutex m s = (0, object_upd m (\<lambda>_. init_header MUTANT_OBJECT 1) s)"

definition ke_release_mutex :: "object_ref \<Rightarrow> nat \<Rightarrow> KERNEL \<Rightarrow> (int \<times> nat \<times> KERNEL) outcome" where
  "ke_release_mutex m owner s =
    bind_out (acquire_dispatcher_lock s) (\<lambda>s1.
      let previous = signal_state (objects s m);
          new_state = wrap_i32 (wrap_i32 (previous + 1));
          s2 = object_upd m (signal_state_update (\<lambda>v. wrap_i32 (v + 1))) s1
      in if 0 < new_state
         then bind_out (ki_wait_test m 1 s2) (\<lambda>s3. Ret (previous, 0, release_dispatcher_lock s3))
         else Ret (previous, owner, release_dispatcher_lock s2))"

definition ke_read_state_mutex :: "object_ref \<Rightarrow> KERNEL \<Rightarrow> int" where
  "ke_read_state_mutex m s = signal_state (objects s m)"

end
