(* ===== verification/Timer.thy ===== *)
theory Timer
  imports Objects
begin

text \<open>
  The timer table (\<open>ke/timer.rs\<close>): 512 buckets of timers sorted by due time, setting and
  cancelling a timer, the check made by the clock interrupt and the expiration at
  DISPATCH_LEVEL; and the update of the system time (\<open>ke/time.rs\<close>).
\<close>

section \<open>Initialisation and reading\<close>

datatype TIMER_TYPE = NotificationTimer | SynchronizationTimer

definition ke_initialize_timer_ex :: "object_ref \<Rightarrow> TIMER_TYPE \<Rightarrow> KERNEL \<Rightarrow> KERNEL" where
  "ke_initialize_timer_ex r ty s =
    timer_upd r (\<lambda>_. \<lparr>due_time = 0, inserted = False, timer_dpc = 0, period = 0\<rparr>)
      (object_upd r (\<lambda>_. init_header (TIMER_NOTIFICATION_OBJECT +
          (case ty of NotificationTimer \<Rightarrow> 0 | SynchronizationTimer \<Rightarrow> 1)) 0) s)"

definition ke_initialize_timer :: "object_ref \<Rightarrow> KERNEL \<Rightarrow> KERNEL" where
  "ke_initialize_timer r s = ke_initialize_timer_ex r NotificationTimer s"

definition ke_read_state_timer :: "object_ref \<Rightarrow> KERNEL \<Rightarrow> bool" where
  "ke_read_state_timer r s \<longleftrightarrow> signal_state (objects s r) \<noteq> 0"

section \<open>Due times\<close>

definition saturating_add_u64 :: "u64 \<Rightarrow> u64 \<Rightarrow> u64" where
  "saturating_add_u64 a b = (if unat a + unat b < 2 ^ 64 then a + b else - 1)"

text \<open>
  A relative time is a negative number of 100ns units; negating the least \<open>i64\<close> and converting
  gives \<open>2 ^ 63\<close>. An absolute time is taken relative to the base time, with wrap-around.
\<close>

definition absolute_due_time :: "u64 \<Rightarrow> int \<Rightarrow> int \<Rightarrow> u64" where
  "absolute_due_time now base due =
    (if due < 0 then saturating_add_u64 now (of_int (- due))
     else if due \<le> base then 0 else of_int (due - base))"

definition ki_compute_due_time :: "int \<Rightarrow> KERNEL \<Rightarrow> (u64 \<times> nat \<times> bool) \<times> KERNEL" where
  "ki_compute_due_time due s0 =
    (case ke_query_interrupt_time s0 of (now, s) \<Rightarrow>
       let a = absolute_due_time now (base_time s) due in
       if a \<le> now then ((a, 0, True), s)
       else ((a, ki_compute_timer_table_index a s, False), s))"

section \<open>Insertion\<close>

text \<open>
  The search runs from the end of the bucket for the last timer that is not due later; the
  list is given in reverse. \<open>None\<close> is a search that reached the head.
\<close>

fun insert_after :: "(object_ref \<Rightarrow> u64) \<Rightarrow> object_ref \<Rightarrow> object_ref list \<Rightarrow> object_ref list option" where
  "insert_after due r [] = None"
| "insert_after due r (e # es) =
    (if due e \<le> due r then Some (r # e # es) else map_option (\<lambda>l. e # l) (insert_after due r es))"

definition check_timer_expired :: "u64 \<Rightarrow> KERNEL \<Rightarrow> bool \<times> KERNEL" where
  "check_timer_expired due s0 = (case ke_query_interrupt_time s0 of (now, s) \<Rightarrow> (due \<le> now, s))"

definition bucket_insert :: "object_ref \<Rightarrow> KERNEL \<Rightarrow> KTIMER_TABLE_ENTRY \<Rightarrow> KTIMER_TABLE_ENTRY" where
  "bucket_insert r s e =
    (case insert_after (\<lambda>x. due_time (timers s x)) r (rev (entry e)) of
       Some l \<Rightarrow> e\<lparr>entry := rev l\<rparr>
     | None \<Rightarrow> e\<lparr>entry := r # entry e, time := due_time (timers s r)\<rparr>)"

text \<open>Linking a timer that is linked already would corrupt the rings.\<close>

definition ki_insert_timer_table :: "object_ref \<Rightarrow> nat \<Rightarrow> KERNEL \<Rightarrow> (bool \<times> KERNEL) outcome" where
  "ki_insert_timer_table r hand s =
    (if length (timer_table s) \<le> hand then Panic
     else if inserted (timers s r) then Undef
     else Ret (check_timer_expired (due_time (timers s r))
       (timer_upd r (inserted_update (\<lambda>_. True))
         (s\<lparr>timer_table := (timer_table s)[hand := bucket_insert r s (timer_table s ! hand)]\<rparr>))))"

section \<open>Signalling and setting\<close>

text \<open>
  \<open>ki_signal_timer\<close> and \<open>kx_insert_timer\<close> call each other when a periodic timer is due again by
  the time it is back in the table. The fuel bounds the nesting; running out of it is
  \<open>Panic\<close>, an exhausted kernel stack.
\<close>

definition queue_timer_dpc :: "object_ref \<Rightarrow> KERNEL \<Rightarrow> KERNEL" where
  "queue_timer_dpc r s =
    (let d = timer_dpc (timers s r); now = nat (int (unat (interrupt_time s)) + base_time s) in
     if d \<noteq> 0 then snd (ke_insert_queue_dpc d (now mod 2 ^ 32) (now div 2 ^ 32 mod 2 ^ 32) s) else s)"

fun ki_signal_timer :: "nat \<Rightarrow> object_ref \<Rightarrow> KERNEL \<Rightarrow> KERNEL outcome"
and kx_insert_timer :: "nat \<Rightarrow> object_ref \<Rightarrow> nat \<Rightarrow> KERNEL \<Rightarrow> KERNEL outcome" where
  "ki_signal_timer n r s =
    bind_out (acquire_dispatcher_lock (object_upd r (signal_state_update (\<lambda>_. 1)) s)) (\<lambda>s1.
    bind_out (ki_wait_test r 0 s1) (\<lambda>s2.
      let s3 = queue_timer_dpc r s2 in
      if 0 < period (timers s3 r) then
        (case ke_query_interrupt_time (object_upd r (signal_state_update (\<lambda>_. 0)) s3) of (now, s4) \<Rightarrow>
           let due = now + of_int (period (timers s4 r)) * 10000;
               s5 = release_dispatcher_lock (timer_upd r (due_time_update (\<lambda>_. due)) s4)
           in case n of 0 \<Rightarrow> Panic
              | Suc m \<Rightarrow> kx_insert_timer m r (ki_compute_timer_table_index due s5) s5)
      else Ret (release_dispatcher_lock s3)))"
| "kx_insert_timer n r hand s =
    bind_out (ki_insert_timer_table r hand s) (\<lambda>(expired, s1).
      if expired then (case n of 0 \<Rightarrow> Panic | Suc m \<Rightarrow> ki_signal_timer m r s1) else Ret s1)"

declare ki_signal_timer.simps [simp del] kx_insert_timer.simps [simp del]

definition signal_depth :: nat where "signal_depth = 16"

definition ke_set_timer_ex :: "object_ref \<Rightarrow> int \<Rightarrow> int \<Rightarrow> nat \<Rightarrow> KERNEL \<Rightarrow> (bool \<times> KERNEL) outcome" where
  "ke_set_timer_ex r due per dpc s =
    (let was = inserted (timers s r);
         s1 = (if was then snd (ke_cancel_timer r s) else s);
         s2 = timer_upd r (\<lambda>t. t\<lparr>timer_dpc := dpc, period := per\<rparr>) s1
     in case ki_compute_due_time due s2 of ((a, hand, expired), s3) \<Rightarrow>
       let s4 = timer_upd r (due_time_update (\<lambda>_. a)) s3 in
       bind_out (if expired then ki_signal_timer signal_depth r s4
                 else kx_insert_timer signal_depth r hand s4)
         (\<lambda>s5. Ret (was, s5)))"

definition ke_set_timer :: "object_ref \<Rightarrow> int \<Rightarrow> nat \<Rightarrow> KERNEL \<Rightarrow> (bool \<times> KERNEL) outcome" where
  "ke_set_timer r due dpc s = ke_set_timer_ex r due 0 dpc s"

section \<open>Clock and expiration\<close>

definition ke_set_time_increment :: "u32 \<Rightarrow> KERNEL \<Rightarrow> u32 \<times> KERNEL" where
  "ke_set_time_increment i s = (time_increment s, s\<lparr>time_increment := i\<rparr>)"

definition ke_set_base_time :: "int \<Rightarrow> KERNEL \<Rightarrow> KERNEL" where
  "ke_set_base_time t s = s\<lparr>base_time := t\<rparr>"

text \<open>The real-time clock is a device: its reading, or \<open>None\<close> when it cannot be read, is an argument.\<close>

definition ke_initialize_time :: "int option \<Rightarrow> KERNEL \<Rightarrow> bool \<times> KERNEL" where
  "ke_initialize_time rtc s =
    (rtc \<noteq> None, ke_set_base_time (case rtc of Some t \<Rightarrow> t | None \<Rightarrow> 133479360000000000) s)"

definition ki_check_timer_table :: "u64 \<Rightarrow> KERNEL \<Rightarrow> nat option" where
  "ki_check_timer_table now s =
    (let hand = unat (tick_count s) mod 512 in
     if time (timer_table s ! hand) \<le> now then Some hand else None)"

definition ke_update_system_time :: "u32 \<Rightarrow> KERNEL \<Rightarrow> KERNEL" where
  "ke_update_system_time increment s =
    (let now = interrupt_time s + ucast increment;
         s1 = s\<lparr>interrupt_time := now, tick_count := tick_count s + 1\<rparr>
     in case ki_check_timer_table now s1 of
          None \<Rightarrow> s1
        | Some hand \<Rightarrow>
            if timer_request (prcb s1) then s1
            else hal_request_software_interrupt
                   (prcb_upd (\<lambda>p. p\<lparr>timer_hand := hand, timer_request := True\<rparr>) s1))"

text \<open>
  The expired timers at the front of a bucket leave it; the batch holds 16 of them, and the
  walk stops when 64 timers have been taken out in this call. The result is the batch, the
  number taken out and the rest of the list.
\<close>

fun expire_bucket :: "(object_ref \<Rightarrow> u64) \<Rightarrow> u64 \<Rightarrow> object_ref list \<Rightarrow> object_ref list \<Rightarrow> object_ref list \<Rightarrow> nat \<Rightarrow>
    object_ref list \<times> object_ref list \<times> object_ref list \<times> nat" where
  "expire_bucket due now [] batch out n = (batch, out, [], n)"
| "expire_bucket due now (e # es) batch out n =
    (if due e \<le> now then
       let batch' = (if length batch < 16 then batch @ [e] else batch) in
       if 64 \<le> Suc n then (batch', out @ [e], es, Suc n)
       else expire_bucket due now es batch' (out @ [e]) (Suc n)
     else (batch, out, e # es, n))"

fun signal_batch :: "object_ref list \<Rightarrow> KERNEL \<Rightarrow> KERNEL outcome" where
  "signal_batch [] s = Ret s"
| "signal_batch (r # rs) s =
    bind_out (ki_wait_test r 0 (object_upd r (signal_state_update (\<lambda>_. 1)) s)) (signal_batch rs)"

fun rearm_batch :: "u64 \<Rightarrow> object_ref list \<Rightarrow> KERNEL \<Rightarrow> KERNEL outcome" where
  "rearm_batch now [] s = Ret s"
| "rearm_batch now (r # rs) s =
    (let s1 = queue_timer_dpc r s in
     bind_out
       (if 0 < period (timers s1 r) then
          let due = now + of_int (period (timers s1 r)) * 10000;
              s2 = timer_upd r (due_time_update (\<lambda>_. due)) (object_upd r (signal_state_update (\<lambda>_. 0)) s1)
          in kx_insert_timer signal_depth r (ki_compute_timer_table_index due s2) s2
        else Ret s1)
       (rearm_batch now rs))"

definition take_expired :: "u64 \<Rightarrow> nat \<Rightarrow> nat \<Rightarrow> KERNEL \<Rightarrow> object_ref list \<times> nat \<times> KERNEL" where
  "take_expired now index n s =
    (case expire_bucket (\<lambda>r. due_time (timers s r)) now (entry (timer_table s ! index)) [] [] n of
       (batch, out, rest, n') \<Rightarrow>
         let s1 = fold (\<lambda>r. timer_upd r (inserted_update (\<lambda>_. False))) out s in
         (batch, n', s1\<lparr>timer_table := (timer_table s1)[index :=
             \<lparr>entry = rest, time = bucket_time (timers s1) rest\<rparr>]\<rparr>))"

definition expire_index :: "u64 \<Rightarrow> nat \<Rightarrow> nat \<Rightarrow> KERNEL \<Rightarrow> (nat \<times> KERNEL) outcome" where
  "expire_index now index n s =
    (let t = time (timer_table s ! index) in
     if t \<noteq> - 1 \<and> t \<le> now then
       (case take_expired now index n s of (batch, n', s1) \<Rightarrow>
          if batch = [] then Ret (n', s1)
          else bind_out (acquire_dispatcher_lock s1) (\<lambda>s2.
               bind_out (signal_batch batch s2) (\<lambda>s3.
               bind_out (rearm_batch now batch (release_dispatcher_lock s3)) (\<lambda>s4. Ret (n', s4)))))
     else Ret (n, s))"

fun expire_buckets :: "u64 \<Rightarrow> nat list \<Rightarrow> nat \<Rightarrow> KERNEL \<Rightarrow> KERNEL outcome" where
  "expire_buckets now [] n s = Ret s"
| "expire_buckets now (i # is) n s =
    bind_out (expire_index now i n s) (\<lambda>(n', s').
      if 64 \<le> n' then Ret s' else expire_buckets now is n' s')"

definition ki_timer_expiration :: "u64 \<Rightarrow> KERNEL \<Rightarrow> KERNEL outcome" where
  "ki_timer_expiration now s = expire_buckets now [0..<512] 0 s"

end
