(* ===== verification/WaitFor.thy ===== *)
theory WaitFor
  imports Timer Dispatch
begin

text \<open>
  Waiting (\<open>ke/wait.rs\<close>): \<open>KeWaitForSingleObject\<close>, \<open>KeWaitForMultipleObjects\<close> and
  \<open>KeDelayExecutionThread\<close> up to the point where the thread gives up the processor, and the
  dispatch interrupt that expires timers and runs DPCs before it dispatches.

  A wait either ends at once with a status or leaves the thread queued on its objects and the
  processor to another thread. When the thread runs again its status is in \<open>wait_status\<close>,
  and the loop starts over if that is \<open>STATUS_KERNEL_APC\<close>; one round of the loop is modelled.
\<close>

definition WAIT_ANY :: nat where "WAIT_ANY = 0"
definition WAIT_ALL :: nat where "WAIT_ALL = 1"
definition MAXIMUM_WAIT_OBJECTS :: nat where "MAXIMUM_WAIT_OBJECTS = 64"
definition THREAD_WAIT_OBJECTS :: nat where "THREAD_WAIT_OBJECTS = 3"
definition TIMER_WAIT_BLOCK :: nat where "TIMER_WAIT_BLOCK = THREAD_WAIT_OBJECTS"

definition STATUS_WAIT_SUCCESS :: int where "STATUS_WAIT_SUCCESS = 0"
definition STATUS_WAIT_INVALID_PARAMETER :: int where "STATUS_WAIT_INVALID_PARAMETER = - 1073741811"
definition STATUS_UNSUCCESSFUL :: int where "STATUS_UNSUCCESSFUL = - 1073741823"

definition PASSIVE_LEVEL :: nat where "PASSIVE_LEVEL = 0"
definition APC_LEVEL :: nat where "APC_LEVEL = 1"

text \<open>The outcome of a round: a status, another round, or a thread that now waits.\<close>

datatype WAIT_RESULT = Status int | Again | Blocked

definition compute_deadline_interrupt :: "int \<Rightarrow> KERNEL \<Rightarrow> u64 \<times> KERNEL" where
  "compute_deadline_interrupt timeout s0 =
    (case ke_query_interrupt_time s0 of (now, s) \<Rightarrow> (absolute_due_time now (base_time s) timeout, s))"

definition set_block :: "wait_block_ref \<Rightarrow> nat \<Rightarrow> object_ref \<Rightarrow> nat \<Rightarrow> nat \<Rightarrow> KERNEL \<Rightarrow> KERNEL" where
  "set_block b t ob ty key s =
     block_upd b (\<lambda>x. x\<lparr>thread := t, object := ob, wait_type := ty, wait_key := key\<rparr>) s"

text \<open>
  Linking a wait block at the tail of the list of its object; a block that is linked already
  would corrupt both lists.
\<close>

definition link_block :: "wait_block_ref \<Rightarrow> KERNEL \<Rightarrow> KERNEL outcome" where
  "link_block b s =
    (if linked (blocks s b) then Undef
     else Ret (object_upd (object (blocks s b)) (\<lambda>h. h\<lparr>wait_list := wait_list h @ [b]\<rparr>)
            (block_upd b (linked_update (\<lambda>_. True)) s)))"

definition enter_waiting :: "nat \<Rightarrow> bool \<Rightarrow> nat \<Rightarrow> nat \<Rightarrow> KERNEL \<Rightarrow> KERNEL" where
  "enter_waiting t alert mode reason s =
    ki_swap_thread (set_state Waiting t (thread_upd t (\<lambda>x. x\<lparr>wait_status := 0, alertable := alert,
       wait_mode := mode, wait_reason := reason, wait_time := ki_query_low_tick_count s\<rparr>) s))"

definition apc_blocks :: "nat \<Rightarrow> nat \<Rightarrow> KERNEL \<Rightarrow> bool" where
  "apc_blocks t irql s \<longleftrightarrow> kernel_apc_pending (threads s t) \<and> irql < APC_LEVEL"

text \<open>
  Arming the thread timer for the rest of the timeout, or not when the deadline has passed. The
  timer block joins the wait list of the timer before the timer is set; the multiple wait
  resets the links of the block first.
\<close>

definition arm_timeout :: "bool \<Rightarrow> nat \<Rightarrow> u64 \<Rightarrow> KERNEL \<Rightarrow> (bool \<times> KERNEL) outcome" where
  "arm_timeout reset t deadline s0 =
    (case ke_query_interrupt_time s0 of (now, s) \<Rightarrow>
       if deadline \<le> now then Ret (False, s)
       else let b = ThreadBlock t TIMER_WAIT_BLOCK;
                s1 = (if reset then block_upd b (linked_update (\<lambda>_. False)) s else s) in
         bind_out (link_block b (set_block b t (ThreadTimer t) WAIT_ANY (nat STATUS_TIMEOUT) s1)) (\<lambda>s2.
         bind_out (ke_set_timer_ex (ThreadTimer t) (- int (unat (deadline - now))) 0 0 s2) (\<lambda>(_, s3).
           Ret (True, s3))))"

definition single_round ::
  "object_ref \<Rightarrow> nat \<Rightarrow> nat \<Rightarrow> bool \<Rightarrow> u64 option \<Rightarrow> nat \<Rightarrow> KERNEL \<Rightarrow> (WAIT_RESULT \<times> KERNEL) outcome" where
  "single_round ob reason mode alert deadline irql s0 =
    (let t = current_thread (prcb s0); s = thread_upd t (wait_irql_update (\<lambda>_. irql)) s0 in
     bind_out (acquire_dispatcher_lock s) (\<lambda>s1.
       if apc_blocks t irql s1 then Ret (Again, release_dispatcher_lock s1)
       else if 0 < signal_state (objects s1 ob) then Ret (Status STATUS_WAIT_SUCCESS, release_dispatcher_lock s1)
       else
         let b = ThreadBlock t 0; s2 = set_block b t ob WAIT_ANY 0 s1 in
         bind_out (case deadline of None \<Rightarrow> Ret (True, s2) | Some d \<Rightarrow> arm_timeout False t d s2) (\<lambda>(armed, s3).
             if \<not> armed then Ret (Status STATUS_TIMEOUT, release_dispatcher_lock s3)
             else
               let ring = (if deadline = None then [b] else [b, ThreadBlock t TIMER_WAIT_BLOCK]) in
               bind_out (link_block b (thread_upd t (wait_block_list_update (\<lambda>_. ring)) s3)) (\<lambda>s4.
                 Ret (Blocked, enter_waiting t alert mode reason s4)))))"

definition ke_wait_for_single_object ::
  "object_ref \<Rightarrow> nat \<Rightarrow> nat \<Rightarrow> bool \<Rightarrow> int option \<Rightarrow> nat \<Rightarrow> KERNEL \<Rightarrow> (WAIT_RESULT \<times> KERNEL) outcome" where
  "ke_wait_for_single_object ob reason mode alert timeout irql s =
    (if ob = Object 0 then Ret (Status STATUS_WAIT_INVALID_PARAMETER, s)
     else if current_thread (prcb s) = 0 then Ret (Status STATUS_UNSUCCESSFUL, s)
     else case timeout of
       None \<Rightarrow> single_round ob reason mode alert None irql s
     | Some t \<Rightarrow>
         if t = 0 then Ret (Status STATUS_TIMEOUT, s)
         else case compute_deadline_interrupt t s of (d, s1) \<Rightarrow>
                single_round ob reason mode alert (Some d) irql s1)"

section \<open>Waiting for several objects\<close>

definition ki_wait_satisfy_object :: "object_ref \<Rightarrow> KERNEL \<Rightarrow> KERNEL" where
  "ki_wait_satisfy_object ob s =
    (if object_type (objects s ob) = EVENT_SYNCHRONIZATION_OBJECT \<or>
        object_type (objects s ob) = SEMAPHORE_OBJECT
     then object_upd ob (\<lambda>h. h\<lparr>signal_state := wrap_i32 (signal_state h - 1)\<rparr>) s else s)"

fun first_signaled :: "nat \<Rightarrow> object_ref list \<Rightarrow> KERNEL \<Rightarrow> nat option" where
  "first_signaled i [] s = None"
| "first_signaled i (ob # obs) s =
    (if 0 < signal_state (objects s ob) then Some i else first_signaled (Suc i) obs s)"

definition all_signaled :: "object_ref list \<Rightarrow> KERNEL \<Rightarrow> bool" where
  "all_signaled obs s = list_all (\<lambda>ob. 0 < signal_state (objects s ob)) obs"

fun init_blocks :: "nat \<Rightarrow> nat \<Rightarrow> nat \<Rightarrow> wait_block_ref list \<Rightarrow> object_ref list \<Rightarrow> KERNEL \<Rightarrow> KERNEL" where
  "init_blocks t ty i (b # bs) (ob # obs) s =
     init_blocks t ty (Suc i) bs obs (block_upd b (linked_update (\<lambda>_. False)) (set_block b t ob ty (i mod 65536) s))"
| "init_blocks t ty i _ _ s = s"

fun link_blocks :: "wait_block_ref list \<Rightarrow> KERNEL \<Rightarrow> KERNEL outcome" where
  "link_blocks [] s = Ret s"
| "link_blocks (b # bs) s = bind_out (link_block b s) (link_blocks bs)"

text \<open>
  The array of wait blocks: the first blocks of the thread for up to three objects, else the
  array of the caller, \<open>None\<close> when that is null.
\<close>

definition choose_blocks :: "nat \<Rightarrow> nat \<Rightarrow> nat option \<Rightarrow> wait_block_ref list option" where
  "choose_blocks t n array =
    (if n \<le> THREAD_WAIT_OBJECTS then Some (map (ThreadBlock t) [0..<n])
     else case array of None \<Rightarrow> None | Some a \<Rightarrow> Some (map (ArrayBlock a) [0..<n]))"

text \<open>
  In the multiple wait the timer block is reset before it is filled in, so it is never linked
  twice; a block that was still linked would be forgotten by its old list.
\<close>

definition multiple_round ::
  "object_ref list \<Rightarrow> nat \<Rightarrow> wait_block_ref list \<Rightarrow> nat \<Rightarrow> nat \<Rightarrow> bool \<Rightarrow> u64 option \<Rightarrow> nat \<Rightarrow> KERNEL \<Rightarrow>
     (WAIT_RESULT \<times> KERNEL) outcome" where
  "multiple_round obs ty bs reason mode alert deadline irql s0 =
    (let t = current_thread (prcb s0); s = thread_upd t (wait_irql_update (\<lambda>_. irql)) s0 in
     bind_out (acquire_dispatcher_lock s) (\<lambda>s1.
       if apc_blocks t irql s1 then Ret (Again, release_dispatcher_lock s1)
       else if Object 0 \<in> set obs then Ret (Status STATUS_WAIT_INVALID_PARAMETER, release_dispatcher_lock s1)
       else if ty = WAIT_ANY \<and> first_signaled 0 obs s1 \<noteq> None then
         (case first_signaled 0 obs s1 of Some i \<Rightarrow>
            Ret (Status (int i), release_dispatcher_lock (ki_wait_satisfy_object (obs ! i) s1)))
       else if ty = WAIT_ALL \<and> all_signaled obs s1 then
         Ret (Status STATUS_WAIT_SUCCESS, release_dispatcher_lock (fold ki_wait_satisfy_object obs s1))
       else
         let tb = ThreadBlock t TIMER_WAIT_BLOCK; s2 = init_blocks t ty 0 bs obs s1 in
         bind_out (case deadline of None \<Rightarrow> Ret (True, s2) | Some d \<Rightarrow> arm_timeout True t d s2) (\<lambda>(armed, s3).
             if \<not> armed then Ret (Status STATUS_TIMEOUT, release_dispatcher_lock s3)
             else
               let ring = (if deadline = None then bs else bs @ [tb]) in
               bind_out (link_blocks bs (thread_upd t (wait_block_list_update (\<lambda>_. ring)) s3)) (\<lambda>s4.
                 Ret (Blocked, enter_waiting t alert mode reason s4)))))"

definition ke_wait_for_multiple_objects ::
  "object_ref list \<Rightarrow> nat \<Rightarrow> nat \<Rightarrow> nat \<Rightarrow> bool \<Rightarrow> int option \<Rightarrow> nat option \<Rightarrow> nat \<Rightarrow> KERNEL \<Rightarrow>
     (WAIT_RESULT \<times> KERNEL) outcome" where
  "ke_wait_for_multiple_objects obs ty reason mode alert timeout array irql s =
    (if obs = [] \<or> MAXIMUM_WAIT_OBJECTS < length obs \<or> ty \<noteq> WAIT_ANY \<and> ty \<noteq> WAIT_ALL
     then Ret (Status STATUS_WAIT_INVALID_PARAMETER, s)
     else if current_thread (prcb s) = 0 then Ret (Status STATUS_UNSUCCESSFUL, s)
     else case choose_blocks (current_thread (prcb s)) (length obs) array of
       None \<Rightarrow> Ret (Status STATUS_WAIT_INVALID_PARAMETER, s)
     | Some bs \<Rightarrow>
         (case timeout of
            None \<Rightarrow> multiple_round obs ty bs reason mode alert None irql s
          | Some t \<Rightarrow>
              if t = 0 then Ret (Status STATUS_TIMEOUT, s)
              else case compute_deadline_interrupt t s of (d, s1) \<Rightarrow>
                     multiple_round obs ty bs reason mode alert (Some d) irql s1))"

section \<open>Delay\<close>

text \<open>The timer block is linked before the deadline is compared with the clock.\<close>

definition delay_round :: "nat \<Rightarrow> bool \<Rightarrow> u64 \<Rightarrow> nat \<Rightarrow> KERNEL \<Rightarrow> (WAIT_RESULT \<times> KERNEL) outcome" where
  "delay_round mode alert deadline irql s0 =
    (let t = current_thread (prcb s0); s = thread_upd t (wait_irql_update (\<lambda>_. irql)) s0 in
     bind_out (acquire_dispatcher_lock s) (\<lambda>s1.
       if apc_blocks t irql s1 then Ret (Again, release_dispatcher_lock s1)
       else if alert \<and> user_apc_pending (threads s1 t) then Ret (Status STATUS_USER_APC, release_dispatcher_lock s1)
       else
         let b = ThreadBlock t TIMER_WAIT_BLOCK;
             s2 = thread_upd t (wait_block_list_update (\<lambda>_. [b])) (set_block b t (ThreadTimer t) WAIT_ANY 0 s1)
         in bind_out (link_block b s2) (\<lambda>s3.
              case ke_query_interrupt_time s3 of (now, s4) \<Rightarrow>
                if deadline \<le> now then Ret (Status STATUS_WAIT_SUCCESS, release_dispatcher_lock s4)
                else bind_out (ke_set_timer_ex (ThreadTimer t) (- int (unat (deadline - now))) 0 0 s4) (\<lambda>(_, s5).
                       Ret (Blocked, enter_waiting t alert mode 4 s5)))))"

definition ke_delay_execution_thread ::
  "nat \<Rightarrow> bool \<Rightarrow> int \<Rightarrow> nat \<Rightarrow> KERNEL \<Rightarrow> (WAIT_RESULT \<times> KERNEL) outcome" where
  "ke_delay_execution_thread mode alert interval irql s =
    (if current_thread (prcb s) = 0 then Ret (Status STATUS_UNSUCCESSFUL, s)
     else if interval = 0 then Ret (Status STATUS_WAIT_SUCCESS, s)
     else case compute_deadline_interrupt interval s of (d, s1) \<Rightarrow> delay_round mode alert d irql s1)"

section \<open>The dispatch interrupt\<close>

text \<open>The DPC list is run by a driver's routines, an argument; \<open>None\<close> is a list that never empties.\<close>

definition ki_dispatch_interrupt ::
  "(nat \<Rightarrow> nat \<Rightarrow> nat \<Rightarrow> KERNEL \<Rightarrow> KERNEL) \<Rightarrow> KERNEL \<Rightarrow> KERNEL outcome option" where
  "ki_dispatch_interrupt run s =
    (let timed = (if timer_request (prcb s) then
           (case ke_query_interrupt_time s of (now, s1) \<Rightarrow>
              bind_out (ki_timer_expiration now s1) (\<lambda>s2.
                Ret (prcb_upd (\<lambda>p. p\<lparr>timer_request := False, timer_hand := 0\<rparr>) s2)))
         else Ret s)
     in case timed of
          Ret s1 \<Rightarrow>
            (case (if dpc_requested (prcb s1) \<or> dpc_queue_depth (prcb s1) \<noteq> 0
                   then ki_retire_dpc_list run s1 else Some s1) of
               None \<Rightarrow> None
             | Some s2 \<Rightarrow> Some (ki_dispatch_on_current_processor s2))
        | Undef \<Rightarrow> Some Undef
        | Panic \<Rightarrow> Some Panic)"

end
