(* ===== verification/WaitSpec.thy ===== *)
theory WaitSpec
  imports WaitFor SchedSpec
begin

text \<open>
  Wait lists: the invariant that ties wait blocks, objects and threads together, what
  unlinking a thread does, and what \<open>ki_wait_test\<close> wakes.
\<close>

section \<open>The wait lists\<close>

definition links_ok :: "KERNEL \<Rightarrow> bool" where
  "links_ok s \<longleftrightarrow> (\<forall>ob. distinct (wait_list (objects s ob))) \<and>
     (\<forall>ob b. b \<in> set (wait_list (objects s ob)) \<longleftrightarrow> linked (blocks s b) \<and> object (blocks s b) = ob)"

definition waits_ok :: "KERNEL \<Rightarrow> bool" where
  "waits_ok s \<longleftrightarrow> links_ok s \<and>
     (\<forall>b. linked (blocks s b) \<longrightarrow> detached (thread (blocks s b)) s \<and>
        b \<in> set (wait_block_list (threads s (thread (blocks s b)))))"

text \<open>Taking the blocks of a list out of every wait list.\<close>

lemma unlink_block_spec:
  assumes "links_ok s"
  shows "links_ok (unlink_block b s)"
    and "objects (unlink_block b s) ob = (objects s ob)\<lparr>wait_list := filter (\<lambda>x. x \<noteq> b) (wait_list (objects s ob))\<rparr>"
    and "blocks (unlink_block b s) x = (if x = b then (blocks s b)\<lparr>linked := False\<rparr> else blocks s x)"
    and "threads (unlink_block b s) = threads s" and "prcb (unlink_block b s) = prcb s"
    and "timers (unlink_block b s) = timers s" and "timer_table (unlink_block b s) = timer_table s"
    and "dispatcher_lock (unlink_block b s) = dispatcher_lock s"
    and "dispatch_depth (unlink_block b s) = dispatch_depth s"
proof -
  have dist: "distinct (wait_list (objects s ob))" for ob using assms by (simp add: links_ok_def)
  have mem: "b \<in> set (wait_list (objects s ob)) \<longleftrightarrow> linked (blocks s b) \<and> object (blocks s b) = ob" for b ob
    using assms by (simp add: links_ok_def)
  have rem: "remove1 b l = filter (\<lambda>x. x \<noteq> b) l" if "distinct l" for l :: "wait_block_ref list"
    using that by (simp add: distinct_remove1_removeAll removeAll_filter_not_eq) (metis (mono_tags))
  have keep: "filter (\<lambda>x. x \<noteq> b) l = l" if "b \<notin> set l" for l :: "wait_block_ref list"
    using that by (auto simp: filter_id_conv)
  show ob: "objects (unlink_block b s) ob = (objects s ob)\<lparr>wait_list := filter (\<lambda>x. x \<noteq> b) (wait_list (objects s ob))\<rparr>" for ob
    using rem [OF dist] keep [of "wait_list (objects s ob)"] mem [of b ob]
    by (cases "linked (blocks s b)") (auto simp: unlink_block_def upd_defs)
  show bl: "blocks (unlink_block b s) x = (if x = b then (blocks s b)\<lparr>linked := False\<rparr> else blocks s x)" for x
    by (cases "linked (blocks s b)") (auto simp: unlink_block_def upd_defs)
  show "links_ok (unlink_block b s)"
    unfolding links_ok_def ob bl using dist mem by auto
  show "threads (unlink_block b s) = threads s" "prcb (unlink_block b s) = prcb s"
    "timers (unlink_block b s) = timers s" "timer_table (unlink_block b s) = timer_table s"
    "dispatcher_lock (unlink_block b s) = dispatcher_lock s"
    "dispatch_depth (unlink_block b s) = dispatch_depth s"
    by (simp_all add: unlink_block_def upd_defs)
qed

lemma unlink_blocks_spec:
  assumes "links_ok s"
  shows "links_ok (fold unlink_block bs s) \<and>
    (\<forall>ob. objects (fold unlink_block bs s) ob = (objects s ob)\<lparr>wait_list := filter (\<lambda>x. x \<notin> set bs) (wait_list (objects s ob))\<rparr>) \<and>
    (\<forall>x. blocks (fold unlink_block bs s) x = (if x \<in> set bs then (blocks s x)\<lparr>linked := False\<rparr> else blocks s x)) \<and>
    threads (fold unlink_block bs s) = threads s \<and> prcb (fold unlink_block bs s) = prcb s \<and>
    timers (fold unlink_block bs s) = timers s \<and> timer_table (fold unlink_block bs s) = timer_table s \<and>
    dispatcher_lock (fold unlink_block bs s) = dispatcher_lock s \<and>
    dispatch_depth (fold unlink_block bs s) = dispatch_depth s"
  using assms
proof (induction bs arbitrary: s)
  case Nil
  then show ?case by simp
next
  case (Cons b bs)
  note u = unlink_block_spec [OF Cons.prems, of b]
  note IH = Cons.IH [OF u(1)]
  show ?case
    using IH by (auto simp: u(2-9) filter_filter intro: filter_cong)
qed


section \<open>Waking one thread\<close>

lemma cancel_timer_frame:
  "threads (snd (ke_cancel_timer r s)) = threads s" "objects (snd (ke_cancel_timer r s)) = objects s"
  "blocks (snd (ke_cancel_timer r s)) = blocks s" "prcb (snd (ke_cancel_timer r s)) = prcb s"
  "dispatcher_lock (snd (ke_cancel_timer r s)) = dispatcher_lock s"
  "dispatch_depth (snd (ke_cancel_timer r s)) = dispatch_depth s"
  by (simp_all add: ke_cancel_timer_def kx_remove_tree_timer_def Let_def timer_upd_def)

text \<open>Unlinking a waiting thread takes exactly its blocks out of every wait list.\<close>

definition unlinked :: "nat \<Rightarrow> KERNEL \<Rightarrow> KERNEL \<Rightarrow> bool" where
  "unlinked t s s' \<longleftrightarrow> prcb s' = prcb s \<and> dispatcher_lock s' = dispatcher_lock s \<and>
     dispatch_depth s' = dispatch_depth s \<and>
     threads s' = (threads s)(t := (threads s t)\<lparr>wait_block_list := []\<rparr>) \<and>
     (\<forall>ob. objects s' ob = (objects s ob)\<lparr>wait_list :=
        filter (\<lambda>b. thread (blocks s b) \<noteq> t) (wait_list (objects s ob))\<rparr>) \<and>
     (\<forall>b. thread (blocks s' b) = thread (blocks s b) \<and> object (blocks s' b) = object (blocks s b) \<and>
        wait_type (blocks s' b) = wait_type (blocks s b) \<and> wait_key (blocks s' b) = wait_key (blocks s b) \<and>
        (linked (blocks s' b) \<longleftrightarrow> linked (blocks s b) \<and> thread (blocks s b) \<noteq> t))"

text \<open>The ring of a thread holds its own blocks.\<close>

definition rings_ok :: "KERNEL \<Rightarrow> bool" where
  "rings_ok s \<longleftrightarrow> (\<forall>t. \<forall>b\<in>set (wait_block_list (threads s t)). thread (blocks s b) = t)"

lemma unlink_thread_spec:
  assumes w: "waits_ok s" and r: "rings_ok s" and t0: "t \<noteq> 0"
  shows "unlinked t s (ki_unlink_thread t s)"
proof -
  let ?bs = "wait_block_list (threads s t)"
  have lk: "links_ok s" using w by (simp add: waits_ok_def)
  note u = unlink_blocks_spec [OF lk, of ?bs]
  have own: "b \<in> set ?bs \<longleftrightarrow> thread (blocks s b) = t" if "linked (blocks s b)" for b
    using w r that unfolding waits_ok_def rings_ok_def by blast
  have mem: "b \<in> set (wait_list (objects s ob)) \<Longrightarrow> linked (blocks s b)" for b ob
    using lk by (simp add: links_ok_def)
  have "filter (\<lambda>x. x \<notin> set ?bs) (wait_list (objects s ob)) =
      filter (\<lambda>b. thread (blocks s b) \<noteq> t) (wait_list (objects s ob))" for ob
    by (rule filter_cong) (use own mem in auto)
  moreover have "linked (if b \<in> set ?bs then (blocks s b)\<lparr>linked := False\<rparr> else blocks s b) \<longleftrightarrow>
      linked (blocks s b) \<and> thread (blocks s b) \<noteq> t" for b
    using own [of b] r by (auto simp: rings_ok_def)
  ultimately show ?thesis
    using u t0
    by (auto simp: unlinked_def ki_unlink_thread_def cancel_timer_frame thread_upd_def)
qed

text \<open>
  Waking a thread that waits: it leaves every wait list, carries its status, and is at the front
  of the deferred ready list; everything else is as before.
\<close>

definition woken :: "nat \<Rightarrow> int \<Rightarrow> KERNEL \<Rightarrow> KERNEL \<Rightarrow> bool" where
  "woken t st s s' \<longleftrightarrow> sched_inv s' \<and> waits_ok s' \<and> rings_ok s' \<and>
     deferred_ready (prcb s') = t # deferred_ready (prcb s) \<and>
     state (threads s' t) = DeferredReady \<and> wait_status (threads s' t) = st \<and>
     (\<forall>u. u \<noteq> t \<longrightarrow> threads s' u = threads s u) \<and>
     (\<forall>u. placed u s' = placed u s) \<and>
     (\<forall>ob. objects s' ob = (objects s ob)\<lparr>wait_list :=
        filter (\<lambda>b. thread (blocks s b) \<noteq> t) (wait_list (objects s ob))\<rparr>) \<and>
     (\<forall>b. thread (blocks s' b) = thread (blocks s b) \<and> object (blocks s' b) = object (blocks s b) \<and>
        wait_type (blocks s' b) = wait_type (blocks s b) \<and> wait_key (blocks s' b) = wait_key (blocks s b)) \<and>
     dispatcher_lock s' = dispatcher_lock s \<and> current_thread (prcb s') = current_thread (prcb s) \<and>
     idle_thread (prcb s') = idle_thread (prcb s) \<and> next_thread (prcb s') = next_thread (prcb s) \<and>
     dispatch_depth s' = dispatch_depth s"

lemma unwait_thread_wp:
  assumes inv: "sched_inv s" and w: "waits_ok s" and r: "rings_ok s" and det: "detached t s"
  shows "wp_out (ki_unwait_thread t st inc s) (woken t st s)"
proof -
  have t0: "t \<noteq> 0" using det by (simp add: detached_def)
  define s1 where "s1 = ki_unlink_thread t s"
  have u: "unlinked t s s1" unfolding s1_def by (rule unlink_thread_spec [OF w r t0])
  define g :: "KTHREAD \<Rightarrow> KTHREAD" where "g = (\<lambda>x. (if priority x < LOW_REALTIME_PRIORITY
     then x\<lparr>wait_status := st, adjust_reason := AdjustUnwait, adjust_increment := inc, state := DeferredReady\<rparr>
     else x\<lparr>wait_status := st, state := DeferredReady\<rparr>))"
  define s' where "s' = prcb_upd (\<lambda>p. p\<lparr>deferred_ready := t # deferred_ready p\<rparr>) (thread_upd t g s1)"
  have th1: "threads s1 = (threads s)(t := (threads s t)\<lparr>wait_block_list := []\<rparr>)" and pc1: "prcb s1 = prcb s"
    using u by (auto simp: unlinked_def)
  have nd: "t \<notin> set (deferred_ready (prcb s))" using det by (simp add: detached_def)
  have res: "ki_unwait_thread t st inc s = Ret s'"
    using t0 nd pc1
    by (auto simp: ki_unwait_thread_def Let_def ki_insert_deferred_ready_list_def s'_def g_def set_state_def
        upd_defs simp flip: s1_def)
  have gf: "queue_linked (g x) = queue_linked x" "priority (g x) = priority x" "state (g x) = DeferredReady"
    "base_priority (g x) = base_priority x" "wait_block_list (g x) = wait_block_list x" "wait_status (g x) = st" for x
    by (simp_all add: g_def)
  have th: "threads s' v = (if v = t then g ((threads s t)\<lparr>wait_block_list := []\<rparr>) else threads s v)" for v
    by (simp add: s'_def th1)
  have pc: "prcb s' = (prcb s)\<lparr>deferred_ready := t # deferred_ready (prcb s)\<rparr>"
    by (simp add: s'_def pc1)
  have ob: "objects s' = objects s1" "blocks s' = blocks s1" "dispatcher_lock s' = dispatcher_lock s"
    "dispatch_depth s' = dispatch_depth s"
    using u by (simp_all add: s'_def unlinked_def)
  have nl: "\<not> queue_linked (threads s t)" "t \<noteq> next_thread (prcb s)" using det by (auto simp: detached_def)
  have fl: "queue_linked (threads s' v) = queue_linked (threads s v)"
    "priority (threads s' v) = priority (threads s v)" "base_priority (threads s' v) = base_priority (threads s v)" for v
    by (simp_all add: th gf)
  have stt: "state (threads s' v) = (if v = t then DeferredReady else state (threads s v))" for v
    by (simp add: th gf)
  have "sched_inv s'"
    unfolding sched_inv_defs fl stt pc
    using sched_invD [OF inv] nl nd t0 by auto
  moreover have pl: "placed v s' = placed v s" for v by (simp add: placed_def fl pc)
  moreover have dt: "detached v s' \<longleftrightarrow> detached v s \<and> v \<noteq> t" for v
    using nl by (auto simp: detached_def fl pc)
  moreover have links: "links_ok s'"
    using w u by (auto simp: waits_ok_def links_ok_def unlinked_def ob)
  moreover have "waits_ok s'"
    using links w u by (auto simp: waits_ok_def dt unlinked_def ob th)
  moreover have "rings_ok s'"
    using r u by (auto simp: rings_ok_def th gf ob unlinked_def split: if_splits)
  ultimately show ?thesis
    using u by (simp add: res woken_def th gf pc ob unlinked_def)
qed


section \<open>The wait test\<close>

lemma signal_upd_frame:
  "threads (object_upd ob (signal_state_update f) s) = threads s"
  "prcb (object_upd ob (signal_state_update f) s) = prcb s"
  "blocks (object_upd ob (signal_state_update f) s) = blocks s"
  "dispatcher_lock (object_upd ob (signal_state_update f) s) = dispatcher_lock s"
  "wait_list (objects (object_upd ob (signal_state_update f) s) o') = wait_list (objects s o')"
  "object_type (objects (object_upd ob (signal_state_update f) s) o') = object_type (objects s o')"
  "signal_state (objects (object_upd ob (signal_state_update f) s) o') =
     (if o' = ob then f (signal_state (objects s ob)) else signal_state (objects s o'))"
  "dispatch_depth (object_upd ob (signal_state_update f) s) = dispatch_depth s"
  by (simp_all add: object_upd_def)

text \<open>The invariants read the wait lists and not the signal states.\<close>

lemma invs_cong:
  assumes "threads s' = threads s" and "prcb s' = prcb s" and "blocks s' = blocks s"
    and "\<And>ob. wait_list (objects s' ob) = wait_list (objects s ob)"
  shows "sched_inv s' = sched_inv s" and "waits_ok s' = waits_ok s" and "rings_ok s' = rings_ok s"
    and "placed t s' = placed t s" and "detached t s' = detached t s"
  using assms
  by (auto simp: sched_inv_defs waits_ok_def links_ok_def rings_ok_def placed_def detached_def)

definition wait_inv :: "KERNEL \<Rightarrow> bool" where
  "wait_inv s \<longleftrightarrow> sched_inv s \<and> waits_ok s \<and> rings_ok s"

lemma wait_inv_cong:
  assumes "threads s' = threads s" and "prcb s' = prcb s" and "blocks s' = blocks s"
    and "\<And>ob. wait_list (objects s' ob) = wait_list (objects s ob)"
  shows "wait_inv s' = wait_inv s"
  using invs_cong [OF assms] by (simp add: wait_inv_def)

definition consumes :: "object_ref \<Rightarrow> KERNEL \<Rightarrow> bool" where
  "consumes ob s \<longleftrightarrow> object_type (objects s ob) = EVENT_SYNCHRONIZATION_OBJECT \<or>
     object_type (objects s ob) = SEMAPHORE_OBJECT"

definition satisfied :: "object_ref \<Rightarrow> wait_block_ref \<Rightarrow> KERNEL \<Rightarrow> int \<Rightarrow> int" where
  "satisfied ob b s v = (if wait_type (blocks s b) = 0 \<and> consumes ob s then wrap_i32 (v - 1) else v)"

definition wake_status :: "wait_block_ref \<Rightarrow> KERNEL \<Rightarrow> int" where
  "wake_status b s = (if wait_type (blocks s b) = 0 \<or> int (wait_key (blocks s b)) = STATUS_TIMEOUT
     then int (wait_key (blocks s b)) else STATUS_KERNEL_APC)"

lemma wait_test_round_wp:
  assumes inv: "wait_inv s" and b: "b \<in> set (wait_list (objects s ob))"
  shows "wp_out (wait_test_round ob inc b s)
    (woken (thread (blocks s b)) (wake_status b s) (object_upd ob (signal_state_update (satisfied ob b s)) s))"
proof -
  let ?t = "thread (blocks s b)"
  let ?s = "object_upd ob (signal_state_update (satisfied ob b s)) s"
  have det: "detached ?t s"
    using inv b by (auto simp: wait_inv_def waits_ok_def links_ok_def)
  then have t0: "?t \<noteq> 0" by (simp add: detached_def)
  note f = signal_upd_frame [of ob "satisfied ob b s" s]
  note c = invs_cong [of ?s s, OF f(1-3,5)]
  have w: "wp_out (ki_unwait_thread ?t st i ?s) (woken ?t st ?s)" for st i
    by (rule unwait_thread_wp) (use inv det c in \<open>simp_all add: wait_inv_def\<close>)
  have nosat: "satisfied ob b s = (\<lambda>v. v)" if "wait_type (blocks s b) \<noteq> 0 \<or> \<not> consumes ob s"
    using that by (auto simp: satisfied_def)
  have h: "signal_state_update (\<lambda>v. v) h = h" for h :: DISPATCHER_HEADER
    by (cases h) simp
  have same: "object_upd ob (signal_state_update (\<lambda>v. v)) s = s"
    by (simp add: object_upd_def h)
  have sat: "ki_wait_satisfy_any ob s = ?s" if ty: "wait_type (blocks s b) = 0"
  proof (cases "consumes ob s")
    case True
    then have "satisfied ob b s = (\<lambda>v. wrap_i32 (v - 1))" using ty by (simp add: satisfied_def fun_eq_iff)
    then show ?thesis
      using True by (auto simp: ki_wait_satisfy_any_def consumes_def object_upd_def fun_eq_iff)
  next
    case False
    then show ?thesis
      using nosat same by (auto simp: ki_wait_satisfy_any_def consumes_def)
  qed
  show ?thesis
    using t0 w sat nosat same by (auto simp: wait_test_round_def Let_def wake_status_def)
qed

lemma woken_wait_inv: "woken t st s s' \<Longrightarrow> wait_inv s'"
  by (simp add: woken_def wait_inv_def)

text \<open>
  The loop always returns, within the fuel it is given, and stops only when the object is no
  longer signalled or nobody waits for it.
\<close>

lemma wait_test_loop_returns:
  assumes "wait_inv s" and "length (wait_list (objects s ob)) \<le> n"
  shows "wp_out (wait_test_loop n ob inc s) (\<lambda>s'. wait_inv s' \<and>
     (signal_state (objects s' ob) \<le> 0 \<or> wait_list (objects s' ob) = []) \<and>
     (\<forall>u. placed u s' = placed u s) \<and> dispatcher_lock s' = dispatcher_lock s \<and>
     (\<exists>ts. deferred_ready (prcb s') = ts @ deferred_ready (prcb s) \<and>
        set ts \<subseteq> thread ` blocks s ` set (wait_list (objects s ob))))"
  using assms
proof (induction n arbitrary: s)
  case 0
  then show ?case by (simp add: wait_test_loop.simps)
next
  case (Suc n)
  show ?case
  proof (cases "signal_state (objects s ob) \<le> 0 \<or> wait_list (objects s ob) = []")
    case True
    then show ?thesis using Suc.prems by (auto simp: wait_test_loop.simps split: list.split)
  next
    case False
    then obtain b bs where l: "wait_list (objects s ob) = b # bs" by (cases "wait_list (objects s ob)") auto
    let ?t = "thread (blocks s b)"
    let ?s = "object_upd ob (signal_state_update (satisfied ob b s)) s"
    note f = signal_upd_frame [of ob "satisfied ob b s" s]
    have step: "wait_test_loop (Suc n) ob inc s =
        bind_out (wait_test_round ob inc b s) (wait_test_loop n ob inc)"
      using False l by (simp add: wait_test_loop.simps [of "Suc n"])
    have "wp_out (wait_test_round ob inc b s) (woken ?t (wake_status b s) ?s)"
      by (rule wait_test_round_wp [OF Suc.prems(1)]) (simp add: l)
    then have "wp_out (wait_test_round ob inc b s) (\<lambda>s1. wp_out (wait_test_loop n ob inc s1) (\<lambda>s'. wait_inv s' \<and>
     (signal_state (objects s' ob) \<le> 0 \<or> wait_list (objects s' ob) = []) \<and>
     (\<forall>u. placed u s' = placed u s) \<and> dispatcher_lock s' = dispatcher_lock s \<and>
     (\<exists>ts. deferred_ready (prcb s') = ts @ deferred_ready (prcb s) \<and>
        set ts \<subseteq> thread ` blocks s ` set (wait_list (objects s ob)))))"
    proof (rule wp_mono)
      fix s1 assume w: "woken ?t (wake_status b s) ?s s1"
      have wl: "wait_list (objects s1 ob) = filter (\<lambda>x. thread (blocks s x) \<noteq> ?t) bs"
        using w f l by (simp add: woken_def)
      have len: "length (wait_list (objects s1 ob)) \<le> n"
        using Suc.prems(2) l le_trans [OF length_filter_le, of bs n "\<lambda>x. thread (blocks s x) \<noteq> ?t"] by (simp add: wl)
      have bl: "thread (blocks s1 x) = thread (blocks s x)" for x using w f by (simp add: woken_def)
      have d1: "deferred_ready (prcb s1) = ?t # deferred_ready (prcb s)" using w f by (simp add: woken_def)
      have pl: "placed u s1 = placed u s" for u
        using w invs_cong(4) [of ?s s, OF f(1-3,5)] by (simp add: woken_def)
      have dl: "dispatcher_lock s1 = dispatcher_lock s" using w f by (simp add: woken_def)
      show "wp_out (wait_test_loop n ob inc s1) (\<lambda>s'. wait_inv s' \<and>
     (signal_state (objects s' ob) \<le> 0 \<or> wait_list (objects s' ob) = []) \<and>
     (\<forall>u. placed u s' = placed u s) \<and> dispatcher_lock s' = dispatcher_lock s \<and>
     (\<exists>ts. deferred_ready (prcb s') = ts @ deferred_ready (prcb s) \<and>
        set ts \<subseteq> thread ` blocks s ` set (wait_list (objects s ob))))"
      proof (rule wp_mono [OF Suc.IH [OF woken_wait_inv [OF w] len]])
        fix s' assume p: "wait_inv s' \<and>
          (signal_state (objects s' ob) \<le> 0 \<or> wait_list (objects s' ob) = []) \<and>
          (\<forall>u. placed u s' = placed u s1) \<and> dispatcher_lock s' = dispatcher_lock s1 \<and>
          (\<exists>ts. deferred_ready (prcb s') = ts @ deferred_ready (prcb s1) \<and>
             set ts \<subseteq> thread ` blocks s1 ` set (wait_list (objects s1 ob)))"
        then obtain ts where ts: "deferred_ready (prcb s') = ts @ ?t # deferred_ready (prcb s)"
          "set ts \<subseteq> thread ` blocks s1 ` set (wait_list (objects s1 ob))"
          using d1 by auto
        have "set (ts @ [?t]) \<subseteq> thread ` blocks s ` set (wait_list (objects s ob))"
          using ts(2) wl l bl by (force simp: image_iff)
        then have "\<exists>ts. deferred_ready (prcb s') = ts @ deferred_ready (prcb s) \<and>
            set ts \<subseteq> thread ` blocks s ` set (wait_list (objects s ob))"
          using ts(1) by (intro exI [of _ "ts @ [?t]"]) simp
        then show "wait_inv s' \<and> (signal_state (objects s' ob) \<le> 0 \<or> wait_list (objects s' ob) = []) \<and>
          (\<forall>u. placed u s' = placed u s) \<and> dispatcher_lock s' = dispatcher_lock s \<and>
          (\<exists>ts. deferred_ready (prcb s') = ts @ deferred_ready (prcb s) \<and>
            set ts \<subseteq> thread ` blocks s ` set (wait_list (objects s ob)))"
          using p pl dl by blast
      qed
    qed
    then show ?thesis by (simp add: step)
  qed
qed

text \<open>
  What is woken exactly, when every waiter waits for any object and waits once: the first
  waiters in the order they came, one for each unit of a consumable signal and all of them
  for any other object.
\<close>

definition wake_count :: "object_ref \<Rightarrow> KERNEL \<Rightarrow> nat" where
  "wake_count ob s =
    (let l = wait_list (objects s ob); sig = signal_state (objects s ob) in
     if consumes ob s then min (nat sig) (length l) else if 0 < sig then length l else 0)"

definition simple_waiters :: "object_ref \<Rightarrow> KERNEL \<Rightarrow> bool" where
  "simple_waiters ob s \<longleftrightarrow> (\<forall>b\<in>set (wait_list (objects s ob)). wait_type (blocks s b) = 0) \<and>
     distinct (map (\<lambda>b. thread (blocks s b)) (wait_list (objects s ob)))"

definition same_processor :: "KERNEL \<Rightarrow> KERNEL \<Rightarrow> bool" where
  "same_processor s s' \<longleftrightarrow> dispatcher_lock s' = dispatcher_lock s \<and> dispatch_depth s' = dispatch_depth s \<and>
     current_thread (prcb s') = current_thread (prcb s) \<and> idle_thread (prcb s') = idle_thread (prcb s) \<and>
     next_thread (prcb s') = next_thread (prcb s)"

lemma same_processor_refl [simp]: "same_processor s s"
  by (simp add: same_processor_def)

lemma same_processor_trans: "same_processor s s' \<Longrightarrow> same_processor s' s'' \<Longrightarrow> same_processor s s''"
  by (simp add: same_processor_def)

definition woke :: "nat \<Rightarrow> object_ref \<Rightarrow> KERNEL \<Rightarrow> KERNEL \<Rightarrow> bool" where
  "woke k ob s s' \<longleftrightarrow> wait_inv s' \<and>
     wait_list (objects s' ob) = drop k (wait_list (objects s ob)) \<and>
     deferred_ready (prcb s') =
       rev (map (\<lambda>b. thread (blocks s b)) (take k (wait_list (objects s ob)))) @ deferred_ready (prcb s) \<and>
     signal_state (objects s' ob) = signal_state (objects s ob) - (if consumes ob s then int k else 0) \<and>
     object_type (objects s' ob) = object_type (objects s ob) \<and>
     (\<forall>b\<in>set (take k (wait_list (objects s ob))).
        state (threads s' (thread (blocks s b))) = DeferredReady \<and>
        wait_status (threads s' (thread (blocks s b))) = int (wait_key (blocks s b))) \<and>
     (\<forall>u. u \<notin> (\<lambda>b. thread (blocks s b)) ` set (take k (wait_list (objects s ob))) \<longrightarrow> threads s' u = threads s u) \<and>
     (\<forall>u. placed u s' = placed u s) \<and> same_processor s s'"

lemma wait_test_loop_exact:
  assumes "wait_inv s" and "length (wait_list (objects s ob)) \<le> n" and "simple_waiters ob s"
    and "signal_state (objects s ob) < 2147483648"
  shows "wp_out (wait_test_loop n ob inc s) (woke (wake_count ob s) ob s)"
  using assms
proof (induction n arbitrary: s)
  case 0
  then show ?case by (auto simp: wait_test_loop.simps woke_def wake_count_def Let_def)
next
  case (Suc n)
  show ?case
  proof (cases "signal_state (objects s ob) \<le> 0 \<or> wait_list (objects s ob) = []")
    case True
    then have "wake_count ob s = 0" by (auto simp: wake_count_def Let_def)
    then show ?thesis using Suc.prems True by (auto simp: wait_test_loop.simps woke_def split: list.split)
  next
    case False
    then obtain b bs where l: "wait_list (objects s ob) = b # bs" by (cases "wait_list (objects s ob)") auto
    let ?t = "thread (blocks s b)"
    let ?s = "object_upd ob (signal_state_update (satisfied ob b s)) s"
    note f = signal_upd_frame [of ob "satisfied ob b s" s]
    have sig: "0 < signal_state (objects s ob)" using False by simp
    have step: "wait_test_loop (Suc n) ob inc s =
        bind_out (wait_test_round ob inc b s) (wait_test_loop n ob inc)"
      using False l by (simp add: wait_test_loop.simps [of "Suc n"])
    have ty: "wait_type (blocks s b) = 0" using Suc.prems(3) l by (simp add: simple_waiters_def)
    have "wp_out (wait_test_round ob inc b s) (woken ?t (wake_status b s) ?s)"
      by (rule wait_test_round_wp [OF Suc.prems(1)]) (simp add: l)
    then have "wp_out (wait_test_round ob inc b s) (\<lambda>s1. wp_out (wait_test_loop n ob inc s1) (woke (wake_count ob s) ob s))"
    proof (rule wp_mono)
      fix s1 assume w: "woken ?t (wake_status b s) ?s s1"
      have nt: "?t \<notin> (\<lambda>x. thread (blocks s x)) ` set bs" using Suc.prems(3) l by (simp add: simple_waiters_def)
      have "filter (\<lambda>x. thread (blocks s x) \<noteq> ?t) bs = bs"
        by (rule filter_True) (use nt in \<open>auto simp: image_iff\<close>)
      then have wl: "wait_list (objects s1 ob) = bs" using w f l by (simp add: woken_def)
      have bl: "thread (blocks s1 x) = thread (blocks s x)" "wait_type (blocks s1 x) = wait_type (blocks s x)"
        "wait_key (blocks s1 x) = wait_key (blocks s x)" for x using w f by (simp_all add: woken_def)
      have ot: "object_type (objects s1 ob) = object_type (objects s ob)" using w f by (simp add: woken_def)
      have co: "consumes ob s1 = consumes ob s" by (simp add: consumes_def ot)
      have sg: "signal_state (objects s1 ob) = signal_state (objects s ob) - (if consumes ob s then 1 else 0)"
        using w f ty sig Suc.prems(4) by (simp add: woken_def satisfied_def)
      have d1: "deferred_ready (prcb s1) = ?t # deferred_ready (prcb s)" using w f by (simp add: woken_def)
      have th: "u \<noteq> ?t \<Longrightarrow> threads s1 u = threads s u" for u using w f by (simp add: woken_def)
      have tt: "state (threads s1 ?t) = DeferredReady" "wait_status (threads s1 ?t) = int (wait_key (blocks s b))"
        using w ty by (simp_all add: woken_def wake_status_def)
      have sp: "same_processor s s1" using w f by (simp add: woken_def same_processor_def)
      have pl: "placed u s1 = placed u s" for u
        using w invs_cong(4) [of ?s s, OF f(1-3,5)] by (simp add: woken_def)
      have sw: "simple_waiters ob s1" using Suc.prems(3) l by (simp add: simple_waiters_def wl bl)
      have wc: "wake_count ob s = Suc (wake_count ob s1)"
        using l sig sg wl co by (auto simp: wake_count_def Let_def)
      show "wp_out (wait_test_loop n ob inc s1) (woke (wake_count ob s) ob s)"
      proof (rule wp_mono [OF Suc.IH [OF woken_wait_inv [OF w]]])
        show "length (wait_list (objects s1 ob)) \<le> n" using Suc.prems(2) l wl by simp
        show "simple_waiters ob s1" by (rule sw)
        show "signal_state (objects s1 ob) < 2147483648" using sg Suc.prems(4) by simp
        fix s' assume p: "woke (wake_count ob s1) ob s1 s'"
        let ?k = "wake_count ob s1"
        have tk: "?t \<notin> (\<lambda>x. thread (blocks s x)) ` set (take ?k bs)"
          using nt set_take_subset [of ?k bs] by blast
        have "threads s' ?t = threads s1 ?t" using p tk by (simp add: woke_def bl wl)
        then show "woke (wake_count ob s) ob s s'"
          using p tt th tk same_processor_trans [OF sp]
          by (auto simp: woke_def wc l wl bl ot co sg d1 pl)
      qed
    qed
    then show ?thesis by (simp add: step)
  qed
qed

theorem wait_test_exact:
  assumes "wait_inv s" and "ob \<noteq> Object 0" and "simple_waiters ob s"
    and "signal_state (objects s ob) < 2147483648"
  shows "wp_out (ki_wait_test ob inc s) (woke (wake_count ob s) ob s)"
  using wait_test_loop_exact [OF assms(1) _ assms(3,4), of "Suc (length (wait_list (objects s ob)))" inc] assms(2)
  by (simp add: ki_wait_test_def)

end
