(* ===== verification/KeInit.thy ===== *)
theory KeInit
  imports DispatchLive WaitSpec
begin

text \<open>
  The initial values of the dispatcher's structures (\<open>new\<close> of \<open>KTHREAD\<close>, \<open>KPRCB\<close> and the others),
  the initialisation of processes, threads and the idle thread (\<open>ke/thread.rs\<close>,
  \<open>ps/process.rs\<close>, \<open>ke/idle.rs\<close>), and the invariants on the state they leave.
\<close>

section \<open>Initial values\<close>

definition KTHREAD_new :: KTHREAD where
  "KTHREAD_new = \<lparr>state = Initialized, priority = 8, base_priority = 8, priority_decrement = 0, quantum = 0,
     quantum_reset = 6, adjust_reason = AdjustNone, adjust_increment = 0, disable_boost = 0, preempted = False,
     queue_linked = False, next_processor = 0, wait_status = 0, wait_block_list = [], wait_irql = 0, wait_time = 0,
     alertable = False, wait_mode = 0, wait_reason = 0, kernel_apc_list = [], user_apc_list = [],
     kernel_apc_pending = False, user_apc_pending = False, special_apc_disable = 0, process = 0,
     frame = StartupFrame\<rparr>"

definition KWAIT_BLOCK_new :: KWAIT_BLOCK where
  "KWAIT_BLOCK_new = \<lparr>linked = False, thread = 0, object = Object 0, wait_type = 0, wait_key = 0\<rparr>"

definition DISPATCHER_HEADER_new :: "nat \<Rightarrow> DISPATCHER_HEADER" where
  "DISPATCHER_HEADER_new ty = \<lparr>object_type = ty, signal_state = 0, wait_list = []\<rparr>"

definition KTIMER_new :: KTIMER where
  "KTIMER_new = \<lparr>due_time = 0, inserted = False, timer_dpc = 0, period = 0\<rparr>"

definition KTIMER_TABLE_ENTRY_new :: KTIMER_TABLE_ENTRY where
  "KTIMER_TABLE_ENTRY_new = \<lparr>entry = [], time = - 1\<rparr>"

definition KDPC_new :: KDPC where
  "KDPC_new = \<lparr>importance = 1, queued = False, system_argument1 = 0, system_argument2 = 0\<rparr>"

definition KAPC_new :: KAPC where
  "KAPC_new = \<lparr>apc_thread = 0, apc_mode = 0, apc_inserted = False\<rparr>"

definition KPROCESS_new :: KPROCESS where
  "KPROCESS_new = \<lparr>process_base_priority = 8, foreground = 0, foreground_boost = 0, process_quantum = 6,
     process_quantum_reset = 6\<rparr>"

definition KPRCB_new :: KPRCB where
  "KPRCB_new = \<lparr>current_thread = 0, next_thread = 0, idle_thread = 0, number = 0, ready_summary = 0,
     ready_list = replicate 32 [], deferred_ready = [], quantum_end = False, dpc_list = [], dpc_queue_depth = 0,
     dpc_requested = False, dpc_interrupt_requested = False, timer_request = False, timer_hand = 0\<rparr>"

text \<open>The statics of the dispatcher as the image is loaded.\<close>

definition kernel_statics :: KERNEL where
  "kernel_statics = \<lparr>threads = \<lambda>_. KTHREAD_new, blocks = \<lambda>_. KWAIT_BLOCK_new,
     objects = \<lambda>_. DISPATCHER_HEADER_new 0, timers = \<lambda>_. KTIMER_new,
     timer_table = replicate 512 KTIMER_TABLE_ENTRY_new, dpcs = \<lambda>_. KDPC_new, apcs = \<lambda>_. KAPC_new,
     processes = \<lambda>_. KPROCESS_new, prcb = KPRCB_new, idle_summary = 0, dispatch_depth = 0,
     dispatcher_lock = False, interrupt_time = 0, clock_readings = [], base_time = 0, tick_count = 0,
     time_increment = 100000\<rparr>"

definition ki_init_scheduler :: "KERNEL \<Rightarrow> KERNEL" where
  "ki_init_scheduler s = s\<lparr>idle_summary := 0\<rparr>"

section \<open>Processes and threads\<close>

definition ke_initialize_process :: "nat \<Rightarrow> int \<Rightarrow> KERNEL \<Rightarrow> KERNEL" where
  "ke_initialize_process p prio s =
    (if p = 0 then s
     else s\<lparr>processes := (processes s)(p := \<lparr>process_base_priority = prio, foreground = 0, foreground_boost = 0,
            process_quantum = 6, process_quantum_reset = 6\<rparr>)\<rparr>)"

definition ke_initialize_thread :: "nat \<Rightarrow> nat \<Rightarrow> KERNEL \<Rightarrow> KERNEL" where
  "ke_initialize_thread p t s =
    (if t = 0 \<or> p = 0 then s
     else let pr = processes s p in
       thread_upd t (\<lambda>x. x\<lparr>priority := process_base_priority pr, base_priority := process_base_priority pr,
           priority_decrement := 0, quantum := process_quantum pr, quantum_reset := process_quantum_reset pr,
           adjust_reason := AdjustNone, adjust_increment := 0, preempted := False, queue_linked := False,
           next_processor := 0, state := Initialized, wait_block_list := [], wait_irql := 0, wait_time := 0,
           wait_mode := 0, wait_reason := 0, kernel_apc_list := [], user_apc_list := [],
           special_apc_disable := 0, process := p\<rparr>)
         (fold (\<lambda>i. block_upd (ThreadBlock t i) (thread_update (\<lambda>_. t))) [0..<4] s))"

definition ki_initialize_idle_process :: "nat \<Rightarrow> KERNEL \<Rightarrow> KERNEL" where
  "ki_initialize_idle_process p s =
    (let s1 = ke_initialize_process p 0 s
     in s1\<lparr>processes := (processes s1)(p := (processes s1 p)\<lparr>process_quantum_reset := 127\<rparr>)\<rparr>)"

definition DISPATCH_LEVEL :: nat where "DISPATCH_LEVEL = 2"

definition zeroed_thread :: KTHREAD where
  "zeroed_thread = KTHREAD_new\<lparr>priority := 0, base_priority := 0, quantum_reset := 0\<rparr>"

definition ki_initialize_idle_thread :: "nat \<Rightarrow> nat \<Rightarrow> nat \<Rightarrow> KERNEL \<Rightarrow> bool \<times> KERNEL" where
  "ki_initialize_idle_thread p t processor s =
    (if processor \<noteq> 0 then (False, s)
     else (True,
       prcb_upd (\<lambda>r. r\<lparr>current_thread := t, next_thread := 0, idle_thread := t\<rparr>)
         (thread_upd t (\<lambda>x. x\<lparr>next_processor := processor, priority := HIGH_PRIORITY, state := Running,
             wait_irql := DISPATCH_LEVEL\<rparr>)
           (ke_initialize_thread p t (thread_upd t (\<lambda>_. zeroed_thread) s)))))"

definition ki_set_idle_thread_priority :: "KERNEL \<Rightarrow> KERNEL" where
  "ki_set_idle_thread_priority s =
    (let t = idle_thread (prcb s) in
     if t = 0 then s
     else let s1 = thread_upd t (\<lambda>x. x\<lparr>priority := 0, base_priority := 0\<rparr>) s in
       if next_thread (prcb s1) = 0
       then s1\<lparr>idle_summary := idle_summary s1 OR push_bit (number (prcb s1) mod 64) 1\<rparr> else s1)"

text \<open>The boot sequence of the processor: idle process, idle thread, priority.\<close>

definition boot :: "nat \<Rightarrow> nat \<Rightarrow> KERNEL" where
  "boot p t = ki_set_idle_thread_priority (snd (ki_initialize_idle_thread p t 0
     (ki_initialize_idle_process p kernel_statics)))"

lemmas new_defs = KTHREAD_new_def KWAIT_BLOCK_new_def DISPATCHER_HEADER_new_def KTIMER_new_def
  KTIMER_TABLE_ENTRY_new_def KDPC_new_def KAPC_new_def KPROCESS_new_def KPRCB_new_def kernel_statics_def
  zeroed_thread_def

section \<open>The invariants at boot\<close>

definition ke_inv :: "KERNEL \<Rightarrow> bool" where
  "ke_inv s \<longleftrightarrow> wait_inv s \<and> none_lost s \<and> running s \<and> one_running s"

lemma boot_thread:
  assumes "p \<noteq> 0" and "t \<noteq> 0"
  shows "threads (boot p t) u = (if u = t then zeroed_thread\<lparr>quantum := 6, quantum_reset := 127,
      state := Running, wait_irql := 2, process := p\<rparr> else KTHREAD_new)"
    and "prcb (boot p t) = KPRCB_new\<lparr>current_thread := t, idle_thread := t\<rparr>"
    and "objects (boot p t) = objects kernel_statics"
    and "blocks (boot p t) b = (case b of ThreadBlock v i \<Rightarrow> if v = t \<and> i < 4 then KWAIT_BLOCK_new\<lparr>thread := t\<rparr>
           else KWAIT_BLOCK_new | _ \<Rightarrow> KWAIT_BLOCK_new)"
proof -
  have 4: "[0..<4] = [0, 1, 2, 3::nat]" by (simp add: upt_rec)
  note d = boot_def ki_set_idle_thread_priority_def ki_initialize_idle_thread_def ke_initialize_thread_def
    ki_initialize_idle_process_def ke_initialize_process_def Let_def
  show "threads (boot p t) u = (if u = t then zeroed_thread\<lparr>quantum := 6, quantum_reset := 127,
      state := Running, wait_irql := 2, process := p\<rparr> else KTHREAD_new)"
    "prcb (boot p t) = KPRCB_new\<lparr>current_thread := t, idle_thread := t\<rparr>"
    "objects (boot p t) = objects kernel_statics"
    using assms by (simp_all add: d new_defs 4 upd_defs DISPATCH_LEVEL_def)
  show "blocks (boot p t) b = (case b of ThreadBlock v i \<Rightarrow> if v = t \<and> i < 4 then KWAIT_BLOCK_new\<lparr>thread := t\<rparr>
           else KWAIT_BLOCK_new | _ \<Rightarrow> KWAIT_BLOCK_new)"
    using assms by (auto simp: d new_defs 4 upd_defs split: wait_block_ref.split)
qed

theorem boot_inv:
  assumes "p \<noteq> 0" and "t \<noteq> 0"
  shows "ke_inv (boot p t) \<and> \<not> preempted (threads (boot p t) t)"
proof -
  note b = boot_thread [OF assms]
  show ?thesis
    unfolding ke_inv_def wait_inv_def waits_ok_def links_ok_def rings_ok_def sched_inv_defs none_lost_def not_lost_def
      running_def one_running_def b
    using assms by (auto simp: new_defs split: wait_block_ref.splits)
qed

end
