(* ===== verification/KeProps.thy ===== *)
theory KeProps
  imports KeInit
begin

text \<open>
  What the dispatcher's operations promise their callers: which waiters an event, a semaphore
  and a mutant wake and that the woken threads reach the processor, and how timed waits fail.
\<close>

section \<open>Signalling an object\<close>

lemma woke_lock:
  assumes "woke k ob (s\<lparr>dispatcher_lock := l\<rparr>) s'"
  shows "woke k ob s (s'\<lparr>dispatcher_lock := dispatcher_lock s\<rparr>)"
proof -
  have c: "wait_inv (s'\<lparr>dispatcher_lock := dispatcher_lock s\<rparr>) = wait_inv s'"
    by (rule wait_inv_cong) simp_all
  have p: "placed u (x\<lparr>dispatcher_lock := l\<rparr>) = placed u x" for u l and x :: KERNEL by (simp add: placed_def)
  show ?thesis
    using assms by (simp add: woke_def same_processor_def consumes_def p c)
qed

lemma wake_count_lock [simp]: "wake_count ob (s\<lparr>dispatcher_lock := l\<rparr>) = wake_count ob s"
  by (simp add: wake_count_def consumes_def)

lemma woken_under_lock:
  assumes inv: "wait_inv s" and ob: "ob \<noteq> Object 0" and sw: "simple_waiters ob s"
    and sig: "signal_state (objects s ob) < 2147483648" and lk: "\<not> dispatcher_lock s"
  shows "wp_out (ki_wait_test ob inc (s\<lparr>dispatcher_lock := True\<rparr>))
    (\<lambda>s'. woke (wake_count ob s) ob s (release_dispatcher_lock s'))"
proof -
  let ?l = "s\<lparr>dispatcher_lock := True\<rparr>"
  have "wait_inv ?l" using inv wait_inv_cong [of ?l s] by simp
  moreover have "simple_waiters ob ?l" using sw by (simp add: simple_waiters_def)
  ultimately have "wp_out (ki_wait_test ob inc ?l) (woke (wake_count ob ?l) ob ?l)"
    by (rule wait_test_exact [OF _ ob]) (use sig in simp_all)
  then show ?thesis
    by (rule wp_mono) (use lk in \<open>auto dest: woke_lock simp: release_dispatcher_lock_def\<close>)
qed

definition signalled :: "object_ref \<Rightarrow> int \<Rightarrow> KERNEL \<Rightarrow> KERNEL" where
  "signalled ob v s = object_upd ob (signal_state_update (\<lambda>_. v)) s"

lemma signalled_inv:
  "wait_inv (signalled ob v s) = wait_inv s" "simple_waiters ob (signalled ob v s) = simple_waiters ob s"
  "consumes ob (signalled ob v s) = consumes ob s" "dispatcher_lock (signalled ob v s) = dispatcher_lock s"
  "signal_state (objects (signalled ob v s) ob) = v"
  "wait_list (objects (signalled ob v s) ob) = wait_list (objects s ob)"
  "(signalled ob v s)\<lparr>dispatcher_lock := l\<rparr> = signalled ob v (s\<lparr>dispatcher_lock := l\<rparr>)"
  using wait_inv_cong [of "signalled ob v s" s]
  by (simp_all add: signalled_def object_upd_def simple_waiters_def consumes_def)

lemma set_event_wakes0:
  assumes "wait_inv s" and "e \<noteq> Object 0" and "simple_waiters e s" and "\<not> dispatcher_lock s"
  shows "wp_out (ke_set_event e inc s) (\<lambda>(old, s'). old = signal_state (objects s e) \<and>
    woke (if consumes e s then min 1 (length (wait_list (objects s e))) else length (wait_list (objects s e)))
      e (signalled e 1 s) s')"
proof -
  have wc: "wake_count e (signalled e 1 s) =
      (if consumes e s then min 1 (length (wait_list (objects s e))) else length (wait_list (objects s e)))"
    by (simp add: wake_count_def signalled_inv Let_def)
  have "wp_out (ki_wait_test e (wrap_i8 inc) ((signalled e 1 s)\<lparr>dispatcher_lock := True\<rparr>))
    (\<lambda>s'. woke (wake_count e (signalled e 1 s)) e (signalled e 1 s) (release_dispatcher_lock s'))"
    by (rule woken_under_lock) (use assms in \<open>simp_all add: signalled_inv\<close>)
  moreover have "object_upd e (signal_state_update (\<lambda>_. 1)) (s\<lparr>dispatcher_lock := True\<rparr>) =
      (signalled e 1 s)\<lparr>dispatcher_lock := True\<rparr>"
    by (simp add: signalled_def object_upd_def)
  ultimately show ?thesis
    using assms(4) wc by (simp add: ke_set_event_def acquire_dispatcher_lock_def)
qed

text \<open>
  \<open>KeSetEvent\<close> returns the old state and wakes waiters in the order they came: the first
  one of a synchronization event, whose signal is consumed, and all of a notification event,
  which stays signalled. Each woken thread carries its wait key as status, is off every wait
  list and on the deferred ready list; nothing else changes.
\<close>

theorem set_event_wakes:
  assumes "wait_inv s" and "e \<noteq> Object 0" and "simple_waiters e s" and "\<not> dispatcher_lock s"
  shows "wp_out (ke_set_event e inc s) (\<lambda>(old, s'). old = signal_state (objects s e) \<and>
    woke (if consumes e s then min 1 (length (wait_list (objects s e))) else length (wait_list (objects s e)))
      e (signalled e 1 s) s')"
  by (rule set_event_wakes0 [OF assms])

text \<open>
  \<open>KeReleaseSemaphore\<close> fails and changes nothing when the count would exceed the limit. When
  the count was 0 and the release stays within the limit it wakes as many of the longest
  waiting threads as it has units, and keeps the rest of the units.
\<close>

theorem release_semaphore_wakes:
  assumes "wait_inv s" and "m \<noteq> Object 0" and "simple_waiters m s" and "\<not> dispatcher_lock s"
    and "object_type (objects s m) = SEMAPHORE_OBJECT" and "0 \<le> signal_state (objects s m)"
    and "0 < a" and "signal_state (objects s m) + a \<le> 2147483647"
  shows "(limit < signal_state (objects s m) + a \<longrightarrow> ke_release_semaphore m limit inc a s = Ret (None, s)) \<and>
    (signal_state (objects s m) = 0 \<longrightarrow> a \<le> limit \<longrightarrow>
       wp_out (ke_release_semaphore m limit inc a s) (\<lambda>(r, s'). r = Some 0 \<and>
         woke (min (nat a) (length (wait_list (objects s m)))) m (signalled m a s) s' \<and>
         signal_state (objects s' m) = a - int (min (nat a) (length (wait_list (objects s m))))))"
proof (intro conjI impI)
  let ?v = "signal_state (objects s m)"
  assume "limit < ?v + a"
  then show "ke_release_semaphore m limit inc a s = Ret (None, s)"
    using assms
    by (cases s) (auto simp: ke_release_semaphore_def acquire_dispatcher_lock_def Let_def object_upd_def
        release_dispatcher_lock_def)
next
  let ?k = "min (nat a) (length (wait_list (objects s m)))"
  assume z: "signal_state (objects s m) = 0" and lim: "a \<le> limit"
  have co: "consumes m s" using assms(5) by (simp add: consumes_def)
  have wc: "wake_count m (signalled m a s) = ?k"
    using co assms(7) by (simp add: wake_count_def signalled_inv Let_def)
  have up: "object_upd m (signal_state_update (\<lambda>v. wrap_i32 (v + a))) (s\<lparr>dispatcher_lock := True\<rparr>) =
      (signalled m a s)\<lparr>dispatcher_lock := True\<rparr>"
    using z assms(7,8) by (cases "objects s m") (simp add: signalled_def object_upd_def)
  have "wp_out (ki_wait_test m (wrap_i8 inc) ((signalled m a s)\<lparr>dispatcher_lock := True\<rparr>))
    (\<lambda>s'. woke (wake_count m (signalled m a s)) m (signalled m a s) (release_dispatcher_lock s'))"
    by (rule woken_under_lock) (use assms z in \<open>simp_all add: signalled_inv\<close>)
  then have w: "wp_out (ki_wait_test m (wrap_i8 inc) ((signalled m a s)\<lparr>dispatcher_lock := True\<rparr>))
    (\<lambda>s'. woke ?k m (signalled m a s) (release_dispatcher_lock s') \<and>
       signal_state (objects (release_dispatcher_lock s') m) = a - int ?k)"
    by (rule wp_mono) (use co in \<open>simp add: wc woke_def signalled_inv\<close>)
  have res: "ke_release_semaphore m limit inc a s =
      bind_out (ki_wait_test m (wrap_i8 inc) ((signalled m a s)\<lparr>dispatcher_lock := True\<rparr>))
        (\<lambda>s3. Ret (Some 0, release_dispatcher_lock s3))"
    using assms(4,7,8) lim z
    by (simp add: ke_release_semaphore_def acquire_dispatcher_lock_def Let_def up)
  show "wp_out (ke_release_semaphore m limit inc a s) (\<lambda>(r, s'). r = Some 0 \<and>
         woke ?k m (signalled m a s) s' \<and> signal_state (objects s' m) = a - int ?k)"
    unfolding res by (simp add: w)
qed

text \<open>
  Releasing a held mutant does not hand it to one waiter: every waiter is woken with its wait
  key, a success, and the mutant stays signalled, so all of them believe they own it.
\<close>

theorem release_mutex_wakes_all:
  assumes "wait_inv s" and "m \<noteq> Object 0" and "simple_waiters m s" and "\<not> dispatcher_lock s"
    and "object_type (objects s m) = MUTANT_OBJECT" and "signal_state (objects s m) = 0"
  shows "wp_out (ke_release_mutex m owner s) (\<lambda>(old, own, s'). old = 0 \<and> own = 0 \<and>
    wait_list (objects s' m) = [] \<and> signal_state (objects s' m) = 1 \<and>
    (\<forall>b\<in>set (wait_list (objects s m)). state (threads s' (thread (blocks s b))) = DeferredReady \<and>
       wait_status (threads s' (thread (blocks s b))) = int (wait_key (blocks s b))))"
proof -
  have co: "\<not> consumes m s" using assms(5) by (simp add: consumes_def object_type_defs)
  have wc: "wake_count m (signalled m 1 s) = length (wait_list (objects s m))"
    using co by (simp add: wake_count_def signalled_inv Let_def)
  have up: "object_upd m (signal_state_update (\<lambda>v. wrap_i32 (v + 1))) (s\<lparr>dispatcher_lock := True\<rparr>) =
      (signalled m 1 s)\<lparr>dispatcher_lock := True\<rparr>"
    using assms(6) by (cases "objects s m") (simp add: signalled_def object_upd_def)
  have "wp_out (ki_wait_test m 1 ((signalled m 1 s)\<lparr>dispatcher_lock := True\<rparr>))
    (\<lambda>s'. woke (wake_count m (signalled m 1 s)) m (signalled m 1 s) (release_dispatcher_lock s'))"
    by (rule woken_under_lock) (use assms in \<open>simp_all add: signalled_inv\<close>)
  then have "wp_out (ki_wait_test m 1 ((signalled m 1 s)\<lparr>dispatcher_lock := True\<rparr>))
    (\<lambda>s'. wait_list (objects (release_dispatcher_lock s') m) = [] \<and>
       signal_state (objects (release_dispatcher_lock s') m) = 1 \<and>
       (\<forall>b\<in>set (wait_list (objects s m)).
          state (threads (release_dispatcher_lock s') (thread (blocks s b))) = DeferredReady \<and>
          wait_status (threads (release_dispatcher_lock s') (thread (blocks s b))) = int (wait_key (blocks s b))))"
    by (rule wp_mono) (use co in \<open>simp add: wc woke_def signalled_inv, simp add: signalled_def object_upd_def\<close>)
  then show ?thesis
    using assms(4,6)
    by (simp add: ke_release_mutex_def acquire_dispatcher_lock_def Let_def up)
qed

section \<open>From the signal to the processor\<close>

lemma woke_keeps:
  assumes w: "woke k ob s s'" and l: "none_lost s" and r: "running s" and o: "one_running s"
    and wait: "\<forall>b\<in>set (wait_list (objects s ob)). state (threads s (thread (blocks s b))) = Waiting"
  shows "none_lost s'" and "running s'" and "one_running s'"
    and "threads s' (current_thread (prcb s')) = threads s (current_thread (prcb s))"
proof -
  let ?W = "(\<lambda>b. thread (blocks s b)) ` set (take k (wait_list (objects s ob)))"
  have sp: "current_thread (prcb s') = current_thread (prcb s)" "idle_thread (prcb s') = idle_thread (prcb s)"
    "next_thread (prcb s') = next_thread (prcb s)"
    using w by (simp_all add: woke_def same_processor_def)
  have inW: "state (threads s' u) = DeferredReady" "u \<in> set (deferred_ready (prcb s'))"
      "state (threads s u) = Waiting" if "u \<in> ?W" for u
    using w wait that set_take_subset [of k "wait_list (objects s ob)"] by (auto simp: woke_def)
  have out: "threads s' u = threads s u" if "u \<notin> ?W" for u
    using w that by (simp add: woke_def)
  have sub: "set (deferred_ready (prcb s)) \<subseteq> set (deferred_ready (prcb s'))"
    using w by (auto simp: woke_def)
  show "none_lost s'"
    unfolding none_lost_def
  proof (intro allI impI)
    fix u :: nat assume "u \<noteq> 0"
    then show "not_lost u s'"
      using l inW(1,2) [of u] out [of u] sp sub
      by (cases "u \<in> ?W") (auto simp: none_lost_def not_lost_def)
  qed
  have c: "current_thread (prcb s) \<notin> ?W" using r inW(3) by (auto simp: running_def)
  then show "running s'" "threads s' (current_thread (prcb s')) = threads s (current_thread (prcb s))"
    using r out sp by (simp_all add: running_def)
  show "one_running s'"
    unfolding one_running_def
  proof (intro allI impI)
    fix u assume "state (threads s' u) = Running"
    then show "u = current_thread (prcb s')"
      using o inW(1) [of u] out [of u] sp by (cases "u \<in> ?W") (auto simp: one_running_def)
  qed
qed


section \<open>Waits that do not block\<close>

text \<open>
  The fast path of \<open>KeWaitForSingleObject\<close> on a signalled object succeeds without touching the
  object, so a synchronization event stays set and a semaphore keeps its unit, while
  \<open>KeWaitForMultipleObjects\<close> on the same single object takes the unit; and a timeout of zero
  reports a timeout although the object is signalled.
\<close>

theorem single_wait_keeps_signal:
  assumes "ob \<noteq> Object 0" and "current_thread (prcb s) \<noteq> 0" and "\<not> dispatcher_lock s"
    and "0 < signal_state (objects s ob)" and "signal_state (objects s ob) < 2147483648"
    and "consumes ob s" and "\<not> kernel_apc_pending (threads s (current_thread (prcb s)))"
  shows "wp_out (ke_wait_for_single_object ob reason mode alert None irql s) (\<lambda>(r, s').
      r = Status STATUS_WAIT_SUCCESS \<and> objects s' = objects s) \<and>
    wp_out (ke_wait_for_multiple_objects [ob] WAIT_ANY reason mode alert None array irql s) (\<lambda>(r, s').
      r = Status STATUS_WAIT_SUCCESS \<and>
      signal_state (objects s' ob) = signal_state (objects s ob) - 1) \<and>
    ke_wait_for_single_object ob reason mode alert (Some 0) irql s = Ret (Status STATUS_TIMEOUT, s)"
proof (intro conjI)
  show "wp_out (ke_wait_for_single_object ob reason mode alert None irql s) (\<lambda>(r, s').
      r = Status STATUS_WAIT_SUCCESS \<and> objects s' = objects s)"
    using assms by (simp add: ke_wait_for_single_object_def single_round_def Let_def acquire_dispatcher_lock_def
      apc_blocks_def release_dispatcher_lock_def)
  show "wp_out (ke_wait_for_multiple_objects [ob] WAIT_ANY reason mode alert None array irql s) (\<lambda>(r, s').
      r = Status STATUS_WAIT_SUCCESS \<and>
      signal_state (objects s' ob) = signal_state (objects s ob) - 1)"
    using assms by (simp add: ke_wait_for_multiple_objects_def multiple_round_def Let_def acquire_dispatcher_lock_def
      apc_blocks_def release_dispatcher_lock_def MAXIMUM_WAIT_OBJECTS_def choose_blocks_def THREAD_WAIT_OBJECTS_def
      ki_wait_satisfy_object_def consumes_def STATUS_WAIT_SUCCESS_def object_upd_def)
  show "ke_wait_for_single_object ob reason mode alert (Some 0) irql s = Ret (Status STATUS_TIMEOUT, s)"
    using assms by (simp add: ke_wait_for_single_object_def)
qed

section \<open>Timed waits\<close>

lemma relative_due: "k < 9223372036854775808 \<Longrightarrow> 0 < k \<Longrightarrow> unat (n :: u64) + k < 18446744073709551616 \<Longrightarrow>
    absolute_due_time n base (- int k) = n + of_nat k"
  by (simp add: absolute_due_time_def saturating_add_u64_def unat_of_nat_64)

text \<open>
  A relative delay whose deadline has passed by the second reading of the clock succeeds, but
  the timer block of the thread is already linked and stays linked; the thread's next delay
  links it again and corrupts the wait list of its timer.
\<close>

theorem delay_leaves_block_linked:
  assumes "current_thread (prcb s) = t" and "t \<noteq> 0" and "\<not> dispatcher_lock s"
    and "\<not> kernel_apc_pending (threads s t)" and "\<not> linked (blocks s (ThreadBlock t 3))"
    and "0 < k" and "k < 9223372036854775808" and "unat n0 + k < 18446744073709551616"
    and "clock_readings s = n0 # n1 # ns" and "unat n0 + k \<le> unat n1" and "i \<noteq> 0"
  shows "wp_out (ke_delay_execution_thread mode False (- int k) irql s) (\<lambda>(r, s').
    r = Status STATUS_WAIT_SUCCESS \<and> linked (blocks s' (ThreadBlock t 3)) \<and>
    ke_delay_execution_thread mode False i irql s' = Undef)"
proof -
  have d: "absolute_due_time n0 (base_time s) (- int k) = n0 + of_nat k"
    using assms(6-8) by (simp add: relative_due)
  have le: "n0 + of_nat k \<le> n1"
    using assms(6-8,10) by (simp add: word_le_nat_alt unat_word_ariths unat_of_nat_64)
  show ?thesis
    using assms d le
    by (simp add: ke_delay_execution_thread_def compute_deadline_interrupt_def delay_round_def Let_def
        ke_query_interrupt_time_def acquire_dispatcher_lock_def apc_blocks_def release_dispatcher_lock_def
        link_block_def set_block_def block_upd_def object_upd_def TIMER_WAIT_BLOCK_def THREAD_WAIT_OBJECTS_def
        split: list.split)
qed

lemma signal_under_lock: "dispatcher_lock x \<Longrightarrow> ki_signal_timer n r x = Panic"
  by (cases n) (simp_all add: ki_signal_timer.simps acquire_dispatcher_lock_def object_upd_def)

lemma table_index_less: "ki_compute_timer_table_index due s < 512"
  by (simp add: ki_compute_timer_table_index_def Let_def)

lemma set_timer_race:
  assumes "dispatcher_lock x" and "\<not> inserted (timers x r)" and "length (timer_table x) = 512"
    and "clock_readings x = [n2, n3]" and "0 < k" and "k < 9223372036854775808"
    and "unat n2 + k < 18446744073709551616" and "unat n2 + k \<le> unat n3" and e: "e = - int k"
  shows "ke_set_timer_ex r e 0 0 x = Panic"
proof -
  have due: "absolute_due_time n2 b (- int k) = n2 + of_nat k" for b
    by (rule relative_due) (use assms(5-7) in auto)
  have u: "unat (n2 + of_nat k) = unat n2 + k"
    using assms(6,7) by (simp add: unat_word_ariths unat_of_nat_64)
  have ne: "\<not> n2 + of_nat k \<le> n2" and ex: "n2 + of_nat k \<le> n3"
    using u assms(5,8) by (simp_all add: word_le_nat_alt)
  show ?thesis
    using assms(1-4) due ne ex e
    by (simp add: ke_set_timer_ex_def ki_compute_due_time_def ke_query_interrupt_time_def Let_def timer_upd_def
        signal_depth_def eval_nat_numeral kx_insert_timer.simps ki_insert_timer_table_def check_timer_expired_def
        table_index_less [simplified] signal_under_lock not_le)
qed

lemma arm_timeout_race:
  assumes "dispatcher_lock x" and "\<not> linked (blocks x (ThreadBlock t 3))"
    and "\<not> inserted (timers x (ThreadTimer t))" and "length (timer_table x) = 512"
    and "clock_readings x = [n1, n2, n3]" and "n1 < d" and "unat d - unat n1 < 9223372036854775808"
    and "unat n2 + (unat d - unat n1) < 18446744073709551616" and "unat n2 + (unat d - unat n1) \<le> unat n3"
  shows "arm_timeout False t d x = Panic"
proof -
  have u: "unat (d - n1) = unat d - unat n1" using assms(6) by (simp add: unat_sub)
  have "0 < unat (d - n1)" unfolding u using assms(6) by (simp add: word_less_nat_alt)
  moreover have "\<not> d \<le> n1" using assms(6) by simp
  moreover have "unat (d - n1) < 9223372036854775808" "unat n2 + unat (d - n1) < 18446744073709551616"
    "unat n2 + unat (d - n1) \<le> unat n3"
    using assms(7-9) by (simp_all add: u)
  ultimately show ?thesis
    using assms(1-5) set_timer_race [where k = "unat (d - n1)" and r = "ThreadTimer t" and ?n2.0 = n2 and ?n3.0 = n3]
    by (simp add: arm_timeout_def ke_query_interrupt_time_def Let_def link_block_def set_block_def block_upd_def
        object_upd_def TIMER_WAIT_BLOCK_def THREAD_WAIT_OBJECTS_def)
qed

text \<open>
  C34. A timed wait takes the dispatcher lock, arms the thread's timer under it, and signals the
  timer itself when the clock has reached the due time by the end of the insertion; signalling
  takes the same lock again, so the processor spins for ever.
\<close>

theorem timed_wait_deadlock:
  assumes "ob \<noteq> Object 0" and "current_thread (prcb s) = t" and "t \<noteq> 0" and "\<not> dispatcher_lock s"
    and "\<not> kernel_apc_pending (threads s t)" and "signal_state (objects s ob) \<le> 0"
    and "\<not> linked (blocks s (ThreadBlock t 3))" and "\<not> inserted (timers s (ThreadTimer t))"
    and "length (timer_table s) = 512"
    and "clock_readings s = [n0, n1, n2, n3]" and "0 < k" and "k < 9223372036854775808"
    and "unat n0 \<le> unat n1" and "unat n1 < unat n0 + k" and "unat n2 + k < 18446744073709551616"
    and "unat n0 + k < 18446744073709551616"
    and "unat n2 + (unat n0 + k - unat n1) \<le> unat n3"
  shows "ke_wait_for_single_object ob reason mode alert (Some (- int k)) irql s = Panic"
proof -
  let ?d = "n0 + of_nat k"
  have ud: "unat ?d = unat n0 + k" using assms(12,16) by (simp add: unat_word_ariths unat_of_nat_64)
  have d: "absolute_due_time n0 (base_time s) (- int k) = ?d" by (rule relative_due) (use assms in auto)
  have "n1 < ?d" using assms(14) ud by (simp add: word_less_nat_alt)
  then show ?thesis
    using assms d ud
    by (simp add: ke_wait_for_single_object_def compute_deadline_interrupt_def ke_query_interrupt_time_def
        single_round_def Let_def acquire_dispatcher_lock_def apc_blocks_def set_block_def block_upd_def
        arm_timeout_race)
qed

end
