(* ===== verification/SchedProps.thy ===== *)
theory SchedProps
  imports KeInit
begin

text \<open>
  What the scheduler promises: the choice of the best ready thread, the range of priorities,
  the dispatch, changes of priority, and two executions in which a dispatch serves the wrong
  thread or none.
\<close>

section \<open>Choosing and adjusting\<close>


lemma compute_new_priority_dynamic:
  assumes "ki_compute_new_priority t 1 s = (p, s')" and "t \<noteq> 0" and "in_levels (threads s t)"
    and "priority (threads s t) < 16" and "base_priority (threads s t) < 16"
  shows "p < 16"
  using compute_new_priority_own(3) [OF assms(1,2,3)] assms(4,5) by linarith

lemma unwait_quantum_dynamic:
  assumes "t \<noteq> 0" and "in_levels (threads s t)"
    and "priority (threads s t) < 16" and "base_priority (threads s t) < 16"
  shows "priority (threads (unwait_quantum t s) t) < 16"
proof -
  have c: "p < 16" if "ki_compute_new_priority t 1 (thread_upd t (quantum_update g) x) = (p, x')"
    "in_levels (threads x t)" "priority (threads x t) < 16" "base_priority (threads x t) < 16" for p g x x'
    by (rule compute_new_priority_dynamic [OF that(1) assms(1)]) (use that(2-4) in \<open>simp_all add: in_levels_def\<close>)
  show ?thesis
    using assms(2-4) c
    by (auto simp: unwait_quantum_def Let_def in_levels_def thread_upd_twice split: prod.splits)
qed

text \<open>
  C28. Priorities keep their class and their range: the adjustment a woken thread gets before it
  is readied leaves a real-time thread as it is and raises a dynamic thread to 15 at most, and
  every priority stays between 0 and 31.
\<close>

theorem adjustment_levels:
  assumes "t \<noteq> 0" and "in_levels (threads s t)"
  shows "in_levels (threads (apply_adjustment t s) t) \<and>
    (\<forall>u. u \<noteq> t \<longrightarrow> threads (apply_adjustment t s) u = threads s u) \<and>
    (16 \<le> priority (threads s t) \<longrightarrow> priority (threads (apply_adjustment t s) t) = priority (threads s t)) \<and>
    (priority (threads s t) < 16 \<longrightarrow> base_priority (threads s t) < 16 \<longrightarrow>
       priority (threads (apply_adjustment t s) t) < 16)"
proof (intro conjI allI impI)
  let ?x = "threads s t"
  have own: "own_change t s (apply_adjustment t s)" by (rule apply_adjustment_own [OF assms(1)])
  show "in_levels (threads (apply_adjustment t s) t)" by (rule own_change_levels [OF own assms(2)])
  show "threads (apply_adjustment t s) u = threads s u" if "u \<noteq> t" for u
    using own that by (auto simp: own_change_def)
  show "priority (threads (apply_adjustment t s) t) = priority ?x" if "16 \<le> priority ?x"
    using that by (auto simp: apply_adjustment_def adjust_unwait_def priority_defs adjust_boost_priority
        split: KADJUST_REASON.splits)
  assume dyn: "priority ?x < 16" and base: "base_priority ?x < 16"
  have q: "priority (threads (unwait_quantum t s) t) < 16"
    by (rule unwait_quantum_dynamic [OF assms dyn base])
  have b: "priority (threads (unwait_boost t y) t) < 16" if "priority (threads y t) < 16" for y
    using that by (auto simp: unwait_boost_def Let_def priority_defs)
  have u: "priority (threads (adjust_unwait t s) t) < 16"
    using dyn b [OF q] by (simp add: adjust_unwait_def Let_def priority_defs)
  have a: "priority (adjust_boost ?x) < 16"
    using dyn by (simp add: adjust_boost_priority min_def)
  show "priority (threads (apply_adjustment t s) t) < 16"
    using dyn u a by (cases "adjust_reason ?x") (simp_all add: apply_adjustment_def)
qed

section \<open>Dispatch\<close>


lemma ready_current_frame:
  assumes "current_thread (prcb s) = t" and "t \<noteq> idle_thread (prcb s)" and "ki_ready_thread t s = Ret s'"
  shows "frame (threads s' u) = frame (threads s u)"
  using assms
  by (auto simp: ki_ready_thread_def Let_def ready_enqueue_def queue_insert_def set_prcb_ready_summary_def
      split: if_splits)

text \<open>
  A dispatch without quantum end and deferred threads, on a processor that runs a thread other
  than the idle thread, with no next thread and some thread ready.
\<close>

lemma dispatch_to_best:
  assumes inv: "sched_inv s" and run: "running s" and lk: "\<not> dispatcher_lock s" and dd: "dispatch_depth s = 0"
    and qe: "\<not> quantum_end (prcb s)" and nx: "next_thread (prcb s) = 0" and de: "deferred_ready (prcb s) = []"
    and idle: "current_thread (prcb s) \<noteq> idle_thread (prcb s)" and best: "best_level s p"
  defines "n \<equiv> hd (ready_list (prcb s) ! p)"
  shows "wp_out (ki_dispatch_on_current_processor s) (\<lambda>s'. current_thread (prcb s') = n \<and>
    placed (current_thread (prcb s)) s' \<and>
    dispatch_depth s' = (if frame (threads s n) = DispatchFrame then 0 else 1))"
proof -
  let ?s = "s\<lparr>dispatch_depth := 1, dispatcher_lock := True\<rparr>" and ?c = "current_thread (prcb s)"
  note oc = outside_cong [of ?s s, simplified]
  have pp: "p < 32" "ready_list (prcb s) ! p \<noteq> []" using best by (simp_all add: best_level_def)
  have b: "best_level ?s p" using best by (simp add: best_level_def)
  obtain t s1 where tk: "queue_take (number (prcb s)) p ?s = (t, s1)" by (meson surj_pair)
  have inv': "sched_inv ?s" using inv oc by simp
  note q = queue_take_spec [OF inv' _ _ tk, simplified]
  have tn: "t = n" using q(1) pp by (simp add: n_def)
  have sum: "ready_summary (prcb s) \<noteq> 0"
    using sched_invD(2) [OF inv pp(1)] pp(2) by auto
  have ch: "dispatch_choose ?s = (t, ki_set_prcb_next_thread t s1)" and t0: "t \<noteq> 0"
    using nx sum find_ready_some [OF inv' b, of 0] tk q(3) pp
    by (auto simp: dispatch_choose_def ki_select_next_thread_def detached_def)
  let ?s1 = "ki_set_prcb_next_thread t s1"
  define s2 where "s2 = (if state (threads ?s1 t) \<noteq> Standby then set_state Standby t ?s1 else ?s1)"
  have c0: "?c \<noteq> 0" and rc: "state (threads s ?c) = Running" and i0: "idle_thread (prcb s) \<noteq> 0"
    using run by (simp_all add: running_def)
  have "state (threads ?s ?c) \<noteq> Ready \<or> next_thread (prcb ?s) \<noteq> 0" using rc by simp
  note d = dispatch_choose_spec [OF inv' this ch t0 s2_def]
  have tc: "t \<noteq> ?c" using d(6) nx c0 by auto
  have k: "sched_inv s2" "current_thread (prcb s2) = ?c" "idle_thread (prcb s2) = idle_thread (prcb s)"
    "dispatch_depth s2 = 1"
    using d(1) by (auto simp: keeps_def)
  have st2: "state (threads s2 ?c) = Running" using d(3) tc rc by simp
  have fr2: "frame (threads s2 t) = frame (threads s t)"
    using tk by (auto simp: s2_def queue_take_def Let_def clear_prcb_ready_summary_def split: if_splits)
  have det: "detached ?c s2" using running_detached [OF k(1) c0] st2 by simp
  have rq: "wp_out (ki_ready_thread ?c s2) (\<lambda>s3. sched_inv s3 \<and> queue_linked (threads s3 ?c) \<and>
      next_thread (prcb s3) = t \<and> dispatch_depth s3 = 1 \<and> frame (threads s3 t) = frame (threads s t))"
    (is "wp_out ?m ?P")
  proof -
    have "wp_out ?m (\<lambda>s3. (sched_inv s3 \<and> queue_linked (threads s3 ?c) \<and> next_thread (prcb s3) = t \<and>
      dispatch_depth s3 = 1) \<and> ?m = Ret s3)"
      using ready_current_wp [OF k(1) det k(2)] idle k(3,4) d(2) by (auto simp: wp_iff readied_def)
    then show ?thesis
      by (rule wp_mono) (use ready_current_frame [OF k(2)] idle k(3) fr2 in auto)
  qed
  have res: "dispatch_switch ?s = bind_out (ki_ready_thread ?c s2)
      (\<lambda>s3. Ret (ki_swap_context DispatchFrame ?c (release_dispatcher_lock s3)))"
  proof -
    have "requeue_old ?c s2 = ki_ready_thread ?c s2"
      using k(3) idle st2 det by (simp add: requeue_old_def detached_def)
    then show ?thesis
      using ch t0 tc c0 d(4) by (simp add: dispatch_switch_def Let_def s2_def)
  qed
  have "wp_out (dispatch_switch ?s) (\<lambda>s'. current_thread (prcb s') = n \<and> placed ?c s' \<and>
    dispatch_depth s' = (if frame (threads s n) = DispatchFrame then 0 else 1))"
    unfolding res wp_bind
  proof (rule wp_mono [OF rq])
    fix s3 assume p: "?P s3"
    let ?r = "release_dispatcher_lock s3"
    have ri: "sched_inv ?r" using p outside_cong [of ?r s3] by simp
    have ne: "next_thread (prcb ?r) \<noteq> 0" "?c \<noteq> next_thread (prcb ?r)" using p t0 tc by auto
    define s' where "s' = ki_swap_context DispatchFrame ?c ?r"
    note sp = swap_context_spec [OF ri ne s'_def]
    have "?c \<in> set (ready_list (prcb s3) ! nat (priority (threads s3 ?c)))"
      using p sched_invD(5) [of s3 ?c] by blast
    moreover have "nat (priority (threads s3 ?c)) < 32"
      using p sched_invD(9) [of s3 ?c] by auto
    ultimately have "queue_linked (threads s' ?c)"
      using sp(1,7) sched_invD(4) [OF sp(1), of "nat (priority (threads s3 ?c))" ?c] by simp
    then show "wp_out (Ret (ki_swap_context DispatchFrame ?c ?r)) (\<lambda>s'. current_thread (prcb s') = n \<and>
      placed ?c s' \<and> dispatch_depth s' = (if frame (threads s n) = DispatchFrame then 0 else 1))"
      using sp(2,10) p tn by (simp add: placed_def flip: s'_def)
  qed
  then show ?thesis
    using dd lk qe de
    by (simp add: ki_dispatch_on_current_processor_def dispatch_quantum_def acquire_dispatcher_lock_def)
qed

text \<open>
  A dispatch that is not asked for by quantum end, a next thread or a woken thread still gives
  the processor to the best ready thread, whatever its priority: a running thread of higher
  priority goes back to its ready queue in the middle of its quantum.
\<close>

theorem dispatch_demotes:
  assumes "sched_inv s" and "running s" and "\<not> dispatcher_lock s" and "dispatch_depth s = 0"
    and "\<not> quantum_end (prcb s)" and "next_thread (prcb s) = 0" and "deferred_ready (prcb s) = []"
    and "current_thread (prcb s) \<noteq> idle_thread (prcb s)" and "best_level s p"
    and "int p < priority (threads s (current_thread (prcb s)))"
  shows "wp_out (ki_dispatch_on_current_processor s) (\<lambda>s'.
    current_thread (prcb s') = hd (ready_list (prcb s) ! p) \<and>
    priority (threads s (current_thread (prcb s'))) < priority (threads s (current_thread (prcb s))) \<and>
    placed (current_thread (prcb s)) s')"
proof -
  have "hd (ready_list (prcb s) ! p) \<in> set (ready_list (prcb s) ! p)" and "p < 32"
    using assms(9) by (simp_all add: best_level_def)
  then have "priority (threads s (hd (ready_list (prcb s) ! p))) = int p"
    using sched_invD(4) [OF assms(1)] by blast
  then show ?thesis
    using wp_mono [OF dispatch_to_best [OF assms(1-9)]] assms(10) by (simp add: wp_iff)
qed

text \<open>
  C35. The depth counter that keeps dispatches from nesting is given back by the thread that
  resumes inside its own dispatch. A dispatch that switches to a thread which starts, or
  waits in \<open>KiSwapThread\<close>, leaves the counter at 1, and the next dispatch does nothing.
\<close>

theorem dispatch_disables_itself:
  assumes "sched_inv s" and "running s" and "\<not> dispatcher_lock s" and "dispatch_depth s = 0"
    and "\<not> quantum_end (prcb s)" and "next_thread (prcb s) = 0" and "deferred_ready (prcb s) = []"
    and "current_thread (prcb s) \<noteq> idle_thread (prcb s)" and "best_level s p"
    and "frame (threads s (hd (ready_list (prcb s) ! p))) \<noteq> DispatchFrame"
  shows "wp_out (ki_dispatch_on_current_processor s) (\<lambda>s'.
    current_thread (prcb s') = hd (ready_list (prcb s) ! p) \<and> dispatch_depth s' = 1 \<and>
    (\<forall>g. ki_dispatch_on_current_processor (prcb_upd g s') = Ret (prcb_upd g s')))"
  by (rule wp_mono [OF dispatch_to_best [OF assms(1-9)]])
    (use assms(10) in \<open>simp add: ki_dispatch_on_current_processor_def\<close>)

end
