(* ===== verification/KeWitness.thy ===== *)
theory KeWitness
  imports KeProps SchedProps
begin

text \<open>
  A concrete state of the dispatcher on which the properties of the previous theories apply:
  thread 2 runs, thread 3 is ready, threads 4 to 7 wait on an event, a semaphore and a mutant.
\<close>

definition demo_thread :: "nat \<Rightarrow> KTHREAD" where
  "demo_thread u =
    (if u = 1 then KTHREAD_new\<lparr>state := Ready, priority := 0, base_priority := 0\<rparr>
     else if u = 2 then KTHREAD_new\<lparr>state := Running, priority := 10\<rparr>
     else if u = 3 then KTHREAD_new\<lparr>state := Ready, queue_linked := True\<rparr>
     else if u \<in> {4, 5, 6, 7} then KTHREAD_new\<lparr>state := Waiting, wait_block_list := [ThreadBlock u 0]\<rparr>
     else KTHREAD_new)"

definition demo_block :: "wait_block_ref \<Rightarrow> KWAIT_BLOCK" where
  "demo_block b =
    (if b \<in> {ThreadBlock 4 0, ThreadBlock 5 0, ThreadBlock 6 0, ThreadBlock 7 0} then
       KWAIT_BLOCK_new\<lparr>linked := True,
         thread := (if b = ThreadBlock 4 0 then 4 else if b = ThreadBlock 5 0 then 5 else if b = ThreadBlock 6 0 then 6 else 7),
         object := (if b = ThreadBlock 4 0 then Object 1 else if b = ThreadBlock 5 0 then Object 2 else Object 3)\<rparr>
     else KWAIT_BLOCK_new)"

definition demo_object :: "object_ref \<Rightarrow> DISPATCHER_HEADER" where
  "demo_object ob =
    (if ob = Object 1 then \<lparr>object_type = EVENT_SYNCHRONIZATION_OBJECT, signal_state = 0, wait_list = [ThreadBlock 4 0]\<rparr>
     else if ob = Object 2 then \<lparr>object_type = SEMAPHORE_OBJECT, signal_state = 0, wait_list = [ThreadBlock 5 0]\<rparr>
     else if ob = Object 3 then \<lparr>object_type = MUTANT_OBJECT, signal_state = 0, wait_list = [ThreadBlock 6 0, ThreadBlock 7 0]\<rparr>
     else if ob = Object 4 then \<lparr>object_type = SEMAPHORE_OBJECT, signal_state = 2, wait_list = []\<rparr>
     else DISPATCHER_HEADER_new 0)"

definition demo :: KERNEL where
  "demo = kernel_statics\<lparr>threads := demo_thread, blocks := demo_block, objects := demo_object,
     prcb := KPRCB_new\<lparr>current_thread := 2, idle_thread := 1, ready_summary := shl_u32 8,
       ready_list := (replicate 32 [])[8 := [3]]\<rparr>\<rparr>"

lemma demo_fields [simp]:
  "threads demo = demo_thread" "blocks demo = demo_block" "objects demo = demo_object"
  "current_thread (prcb demo) = 2" "idle_thread (prcb demo) = 1" "next_thread (prcb demo) = 0"
  "ready_list (prcb demo) = (replicate 32 [])[8 := [3]]" "ready_summary (prcb demo) = shl_u32 8"
  "deferred_ready (prcb demo) = []" "quantum_end (prcb demo) = False" "number (prcb demo) = 0"
  "dispatcher_lock demo = False" "dispatch_depth demo = 0" "timers demo = (\<lambda>_. KTIMER_new)"
  "length (timer_table demo) = 512" "clock_readings demo = []"
  by (simp_all add: demo_def kernel_statics_def KPRCB_new_def)

lemma demo_queue: "i < 32 \<Longrightarrow> (replicate 32 [])[8 := [3]] ! i = (if i = 8 then [3::nat] else [])"
  by (simp add: nth_list_update)

lemma demo_linked: "queue_linked (demo_thread u) \<longleftrightarrow> u = 3"
  by (simp add: demo_thread_def KTHREAD_new_def)

lemma demo_sched: "sched_inv demo"
  unfolding sched_inv_def
proof (intro conjI)
  show "queues_ok demo"
    by (auto simp: queues_ok_def demo_queue shl_u32_bit demo_linked)
      (simp_all add: demo_thread_def KTHREAD_new_def)
  show "priorities_ok demo"
    by (simp add: priorities_ok_def demo_thread_def KTHREAD_new_def)
qed (simp_all add: deferred_ok_def next_ok_def)

lemma demo_linked_block: "linked (demo_block b) \<longleftrightarrow>
    b \<in> {ThreadBlock 4 0, ThreadBlock 5 0, ThreadBlock 6 0, ThreadBlock 7 0}"
  by (simp add: demo_block_def KWAIT_BLOCK_new_def)

lemma demo_waits: "wait_inv demo"
  unfolding wait_inv_def waits_ok_def
proof (intro conjI)
  show "sched_inv demo" by (rule demo_sched)
  show "links_ok demo"
    by (auto simp: links_ok_def demo_object_def demo_linked_block DISPATCHER_HEADER_new_def)
      (auto simp: demo_block_def)
  show "rings_ok demo"
    by (auto simp: rings_ok_def demo_thread_def KTHREAD_new_def demo_block_def)
  show "\<forall>b. linked (blocks demo b) \<longrightarrow> detached (thread (blocks demo b)) demo \<and>
     b \<in> set (wait_block_list (threads demo (thread (blocks demo b))))"
    by (auto simp: demo_linked_block detached_def demo_linked) (auto simp: demo_block_def demo_thread_def)
qed

lemma demo_run: "running demo" "one_running demo" "none_lost demo"
  by (auto simp: running_def one_running_def none_lost_def not_lost_def demo_thread_def KTHREAD_new_def)

lemma demo_inv: "ke_inv demo"
  by (simp add: ke_inv_def demo_waits demo_run)

lemma demo_best: "best_level demo 8"
  by (auto simp: best_level_def demo_queue)

lemma demo_simple: "simple_waiters (Object i) demo"
  by (auto simp: simple_waiters_def demo_object_def demo_block_def KWAIT_BLOCK_new_def DISPATCHER_HEADER_new_def)

section \<open>The scheduler\<close>


theorem adjustment_levels_witness:
  "in_levels (threads (apply_adjustment 4 demo) 4)"
proof -
  have "in_levels (threads demo 4)" by (simp add: demo_thread_def KTHREAD_new_def in_levels_def)
  then show ?thesis using adjustment_levels [of 4 demo] by simp
qed


theorem dispatch_demotes_witness:
  "wp_out (ki_dispatch_on_current_processor demo) (\<lambda>s'. current_thread (prcb s') = 3 \<and> placed 2 s')"
  by (rule wp_mono [OF dispatch_demotes [OF demo_sched demo_run(1) _ _ _ _ _ _ demo_best]])
    (simp_all add: demo_queue demo_thread_def KTHREAD_new_def)

theorem dispatch_disables_itself_witness:
  "wp_out (ki_dispatch_on_current_processor demo) (\<lambda>s'. current_thread (prcb s') = 3 \<and> dispatch_depth s' = 1)"
  by (rule wp_mono [OF dispatch_disables_itself [OF demo_sched demo_run(1) _ _ _ _ _ _ demo_best]])
    (simp_all add: demo_queue demo_thread_def KTHREAD_new_def)

section \<open>Waits and signals\<close>

theorem set_event_wakes_witness:
  "wp_out (ke_set_event (Object 1) 1 demo) (\<lambda>(old, s'). old = 0 \<and> woke 1 (Object 1) (signalled (Object 1) 1 demo) s')"
proof -
  have "consumes (Object 1) demo" "length (wait_list (demo_object (Object 1))) = 1" "signal_state (demo_object (Object 1)) = 0"
    by (simp_all add: consumes_def demo_object_def)
  then show ?thesis using set_event_wakes [OF demo_waits _ demo_simple, of 1 1] by simp
qed

theorem release_semaphore_wakes_witness:
  "ke_release_semaphore (Object 2) 0 1 3 demo = Ret (None, demo) \<and>
   wp_out (ke_release_semaphore (Object 2) 5 1 3 demo) (\<lambda>(r, s'). r = Some 0 \<and> signal_state (objects s' (Object 2)) = 2)"
proof -
  have o: "object_type (demo_object (Object 2)) = SEMAPHORE_OBJECT" "signal_state (demo_object (Object 2)) = 0"
    "length (wait_list (demo_object (Object 2))) = 1" by (simp_all add: demo_object_def)
  note r = release_semaphore_wakes [OF demo_waits _ demo_simple, of 2 3]
  have "ke_release_semaphore (Object 2) 0 1 3 demo = Ret (None, demo)" using r [of 0 1] o by simp
  moreover have "wp_out (ke_release_semaphore (Object 2) 5 1 3 demo)
      (\<lambda>(r, s'). r = Some 0 \<and> signal_state (objects s' (Object 2)) = 2)"
    using r [of 5 1] o by (auto elim!: wp_mono)
  ultimately show ?thesis by simp
qed

theorem release_mutex_wakes_all_witness:
  "wp_out (ke_release_mutex (Object 3) 2 demo) (\<lambda>(old, own, s'). signal_state (objects s' (Object 3)) = 1 \<and>
     state (threads s' 6) = DeferredReady \<and> state (threads s' 7) = DeferredReady)"
proof -
  have o: "object_type (demo_object (Object 3)) = MUTANT_OBJECT" "signal_state (demo_object (Object 3)) = 0"
    "wait_list (demo_object (Object 3)) = [ThreadBlock 6 0, ThreadBlock 7 0]" by (simp_all add: demo_object_def)
  have b: "thread (demo_block (ThreadBlock 6 0)) = 6" "thread (demo_block (ThreadBlock 7 0)) = 7"
    by (simp_all add: demo_block_def)
  show ?thesis
    by (rule wp_mono [OF release_mutex_wakes_all [OF demo_waits _ demo_simple]]) (auto simp: o b)
qed


theorem single_wait_keeps_signal_witness:
  "ke_wait_for_single_object (Object 4) 0 0 False (Some 0) 0 demo = Ret (Status STATUS_TIMEOUT, demo) \<and>
   wp_out (ke_wait_for_single_object (Object 4) 0 0 False None 0 demo) (\<lambda>(r, s'). objects s' = objects demo)"
proof -
  have o: "signal_state (demo_object (Object 4)) = 2" "consumes (Object 4) demo" "kernel_apc_pending (demo_thread 2) = False"
    by (simp_all add: demo_object_def consumes_def demo_thread_def KTHREAD_new_def)
  note w = single_wait_keeps_signal [of "Object 4" demo 0 0 False 0 None]
  show ?thesis using w by (auto simp: o elim!: wp_mono)
qed

theorem delay_leaves_block_linked_witness:
  "wp_out (ke_delay_execution_thread 0 False (- int 5) 0 (demo\<lparr>clock_readings := [10, 20]\<rparr>)) (\<lambda>(r, s').
     r = Status STATUS_WAIT_SUCCESS \<and> ke_delay_execution_thread 0 False (- 1) 0 s' = Undef)"
  by (rule wp_mono [OF delay_leaves_block_linked [where t = 2 and ?n0.0 = 10 and ?n1.0 = 20 and ns = "[]" and i = "- 1"]])
    (auto simp: demo_thread_def KTHREAD_new_def demo_linked_block)

theorem timed_wait_deadlock_witness:
  "ke_wait_for_single_object (Object 1) 0 0 False (Some (- int 5)) 0 (demo\<lparr>clock_readings := [10, 11, 12, 16]\<rparr>) = Panic"
  by (rule timed_wait_deadlock [where t = 2 and ?n0.0 = 10 and ?n1.0 = 11 and ?n2.0 = 12 and ?n3.0 = 16])
    (simp_all add: demo_thread_def KTHREAD_new_def demo_linked_block demo_object_def KTIMER_new_def)

theorem boot_inv_witness: "ke_inv (boot 5 6) \<and> \<not> preempted (threads (boot 5 6) 6)"
  by (rule boot_inv) simp_all

end
