(* ===== verification/Locks.thy ===== *)
theory Locks
  imports KeState
begin

text \<open>
  The spinning locks of the executive (\<open>ke/spinlock.rs\<close>, the second half of \<open>ke/mutex.rs\<close> and of
  \<open>ke/semaphore.rs\<close>): spin locks, push locks, fast mutexes and resources. Any number of threads
  below a bound runs interleaved; a step is one atomic operation on the lock, and the program
  counter of a thread says which operation it does next. What a thread may do is a list of
  results, so the steps can be computed.
\<close>

section \<open>Interleaving\<close>

text \<open>
  The state is the shared part with a local part for each thread; \<open>acts v p\<close> lists what the shared and
  the local part can become.
\<close>

inductive interleaved :: "nat \<Rightarrow> ('v \<Rightarrow> 'p \<Rightarrow> ('v \<times> 'p) list) \<Rightarrow> 'v \<times> (nat \<Rightarrow> 'p) \<Rightarrow> 'v \<times> (nat \<Rightarrow> 'p) \<Rightarrow> bool"
  for n :: nat and acts :: "'v \<Rightarrow> 'p \<Rightarrow> ('v \<times> 'p) list" where
  act: "i < n \<Longrightarrow> (v', p') \<in> set (acts v (f i)) \<Longrightarrow> interleaved n acts (v, f) (v', f(i := p'))"

inductive_cases interleavedE: "interleaved n acts s s'"

inductive reachable :: "nat \<Rightarrow> ('v \<Rightarrow> 'p \<Rightarrow> ('v \<times> 'p) list) \<Rightarrow> 'v \<times> (nat \<Rightarrow> 'p) \<Rightarrow> 'v \<times> (nat \<Rightarrow> 'p) \<Rightarrow> bool"
  for n :: nat and acts :: "'v \<Rightarrow> 'p \<Rightarrow> ('v \<times> 'p) list" and s0 :: "'v \<times> (nat \<Rightarrow> 'p)" where
  start: "reachable n acts s0 s0"
| step: "reachable n acts s0 s \<Longrightarrow> interleaved n acts s s' \<Longrightarrow> reachable n acts s0 s'"

lemma reachable_invariant:
  assumes "reachable n acts s0 s" and "I s0"
    and "\<And>v f i v' p'. I (v, f) \<Longrightarrow> i < n \<Longrightarrow> (v', p') \<in> set (acts v (f i)) \<Longrightarrow> I (v', f(i := p'))"
  shows "I s"
  using assms(1)
proof (induction rule: reachable.induct)
  case start
  then show ?case by (rule assms(2))
next
  case (step s s')
  from step.hyps(2) show ?case
    by (rule interleavedE) (use step.IH assms(3) in auto)
qed

text \<open>A run of given threads making given choices, for witnesses.\<close>

fun run :: "('v \<Rightarrow> 'p \<Rightarrow> ('v \<times> 'p) list) \<Rightarrow> (nat \<times> nat) list \<Rightarrow> 'v \<times> (nat \<Rightarrow> 'p) \<Rightarrow> 'v \<times> (nat \<Rightarrow> 'p)" where
  "run acts [] s = s"
| "run acts ((i, k) # r) (v, f) = (case acts v (f i) ! k of (v', p') \<Rightarrow> run acts r (v', f(i := p')))"

fun run_ok :: "nat \<Rightarrow> ('v \<Rightarrow> 'p \<Rightarrow> ('v \<times> 'p) list) \<Rightarrow> (nat \<times> nat) list \<Rightarrow> 'v \<times> (nat \<Rightarrow> 'p) \<Rightarrow> bool" where
  "run_ok n acts [] s = True"
| "run_ok n acts ((i, k) # r) (v, f) = (i < n \<and> k < length (acts v (f i)) \<and>
     (case acts v (f i) ! k of (v', p') \<Rightarrow> run_ok n acts r (v', f(i := p'))))"

lemma run_reachable: "reachable n acts s0 s \<Longrightarrow> run_ok n acts r s \<Longrightarrow> reachable n acts s0 (run acts r s)"
proof (induction r arbitrary: s)
  case Nil
  then show ?case by simp
next
  case (Cons a r)
  obtain i k v f where e: "a = (i, k)" "s = (v, f)" by (meson surj_pair)
  obtain v' p' where a: "acts v (f i) ! k = (v', p')" by (meson surj_pair)
  have "(v', p') \<in> set (acts v (f i))" using Cons.prems(2) e a nth_mem by (metis run_ok.simps(2))
  then have "reachable n acts s0 (v', f(i := p'))"
    using Cons.prems e by (auto intro: reachable.step act)
  then show ?case using Cons.IH Cons.prems(2) e a by simp
qed

text \<open>How many threads are at a place.\<close>

definition tally :: "nat \<Rightarrow> ('p \<Rightarrow> bool) \<Rightarrow> (nat \<Rightarrow> 'p) \<Rightarrow> nat" where
  "tally n P f = (\<Sum>i<n. of_bool (P (f i)))"

lemma tally_update:
  assumes "i < n"
  shows "tally n P (f(i := p)) + of_bool (P (f i)) = tally n P f + of_bool (P p)"
proof -
  have "sum g {..<n} = g i + sum g ({..<n} - {i})" for g :: "nat \<Rightarrow> nat"
    using assms by (simp add: sum.remove)
  then show ?thesis by (simp add: tally_def)
qed

lemma tally_pos: "i < n \<Longrightarrow> P (f i) \<Longrightarrow> 0 < tally n P f"
  unfolding tally_def by (rule sum_pos2 [of _ i]) auto

lemma tally_zero: "tally n P f = 0 \<Longrightarrow> i < n \<Longrightarrow> \<not> P (f i)"
  using tally_pos by fastforce

lemma tally_le: "tally n P f \<le> n"
proof -
  have "tally n P f \<le> (\<Sum>i<n. 1)" unfolding tally_def by (rule sum_mono) simp
  then show ?thesis by simp
qed

lemma tally_two:
  assumes "i < n" "j < n" "i \<noteq> j" "P (f i)" "P (f j)"
  shows "2 \<le> tally n P f"
proof -
  have "sum (\<lambda>k. of_bool (P (f k))) {i, j} \<le> tally n P f"
    unfolding tally_def by (rule sum_mono2) (use assms in auto)
  then show ?thesis using assms by simp
qed

lemma tally_const: "\<not> P p \<Longrightarrow> tally n P (\<lambda>_. p) = 0"
  by (simp add: tally_def)

section \<open>Push locks\<close>

definition EX_PUSH_LOCK_LOCKED :: u64 where "EX_PUSH_LOCK_LOCKED = 0x1"
definition EX_PUSH_LOCK_MULTIPLE_SHARED :: u64 where "EX_PUSH_LOCK_MULTIPLE_SHARED = 0x8"
definition EX_PUSH_LOCK_SHARE_INC :: u64 where "EX_PUSH_LOCK_SHARE_INC = 0x10"

lemmas push_defs = EX_PUSH_LOCK_LOCKED_def EX_PUSH_LOCK_MULTIPLE_SHARED_def EX_PUSH_LOCK_SHARE_INC_def

datatype PUSH_PC = Outside | ExLoad | ExSwap | ExHeld | ShLoad | ShSwap u64 | ShHeld | ShClear u64

text \<open>One atomic step of a thread in each of the four operations; a failed test or exchange starts over.\<close>

fun ex_acquire_push_lock_exclusive :: "u64 \<Rightarrow> PUSH_PC \<Rightarrow> (u64 \<times> PUSH_PC) list" where
  "ex_acquire_push_lock_exclusive v ExLoad = [(v, if v = 0 then ExSwap else ExLoad)]"
| "ex_acquire_push_lock_exclusive v ExSwap = [if v = 0 then (EX_PUSH_LOCK_LOCKED, ExHeld) else (v, ExLoad)]"
| "ex_acquire_push_lock_exclusive v _ = []"

definition ex_release_push_lock_exclusive :: "u64 \<Rightarrow> u64 \<times> PUSH_PC" where
  "ex_release_push_lock_exclusive v = (0, Outside)"

definition shared_value :: "u64 \<Rightarrow> u64" where
  "shared_value c = (if c = 0
     then EX_PUSH_LOCK_LOCKED OR EX_PUSH_LOCK_MULTIPLE_SHARED OR EX_PUSH_LOCK_SHARE_INC
     else c + EX_PUSH_LOCK_SHARE_INC)"

fun ex_acquire_push_lock_shared :: "u64 \<Rightarrow> PUSH_PC \<Rightarrow> (u64 \<times> PUSH_PC) list" where
  "ex_acquire_push_lock_shared v ShLoad =
     [(v, if v AND EX_PUSH_LOCK_LOCKED = 0 \<or> v AND EX_PUSH_LOCK_MULTIPLE_SHARED \<noteq> 0 then ShSwap v else ShLoad)]"
| "ex_acquire_push_lock_shared v (ShSwap c) = [if v = c then (shared_value c, ShHeld) else (v, ShLoad)]"
| "ex_acquire_push_lock_shared v _ = []"

fun ex_release_push_lock_shared :: "u64 \<Rightarrow> PUSH_PC \<Rightarrow> (u64 \<times> PUSH_PC) list" where
  "ex_release_push_lock_shared v ShHeld =
     [let n = v - EX_PUSH_LOCK_SHARE_INC
      in (n, if n = EX_PUSH_LOCK_LOCKED OR EX_PUSH_LOCK_MULTIPLE_SHARED then ShClear n else Outside)]"
| "ex_release_push_lock_shared v (ShClear n) = [(if v = n then 0 else v, Outside)]"
| "ex_release_push_lock_shared v _ = []"

definition push_acts :: "u64 \<Rightarrow> PUSH_PC \<Rightarrow> (u64 \<times> PUSH_PC) list" where
  "push_acts v p =
    (case p of
       Outside \<Rightarrow> [(v, ExLoad), (v, ShLoad)]
     | ExHeld \<Rightarrow> [ex_release_push_lock_exclusive v]
     | ExLoad \<Rightarrow> ex_acquire_push_lock_exclusive v p | ExSwap \<Rightarrow> ex_acquire_push_lock_exclusive v p
     | ShLoad \<Rightarrow> ex_acquire_push_lock_shared v p | ShSwap c \<Rightarrow> ex_acquire_push_lock_shared v p
     | ShHeld \<Rightarrow> ex_release_push_lock_shared v p | ShClear c \<Rightarrow> ex_release_push_lock_shared v p)"

text \<open>
  The invariant: the word is 0 with nobody inside, 1 with one exclusive owner, or 9 plus 16 for
  each shared owner; in the last case, with no owner, some thread is about to clear it.
\<close>

definition is_clear :: "PUSH_PC \<Rightarrow> bool" where "is_clear p \<longleftrightarrow> p = ShClear 9"

definition push_inv :: "nat \<Rightarrow> u64 \<times> (nat \<Rightarrow> PUSH_PC) \<Rightarrow> bool" where
  "push_inv n = (\<lambda>(v, f).
    (\<forall>i<n. \<forall>c. f i = ShClear c \<longrightarrow> c = 9) \<and>
    (\<forall>i<n. \<forall>c. f i = ShSwap c \<longrightarrow> c AND 1 = 0 \<or> c AND 8 \<noteq> 0) \<and>
    (v = 0 \<and> tally n (\<lambda>p. p = ExHeld) f = 0 \<and> tally n (\<lambda>p. p = ShHeld) f = 0 \<or>
     v = 1 \<and> tally n (\<lambda>p. p = ExHeld) f = 1 \<and> tally n (\<lambda>p. p = ShHeld) f = 0 \<or>
     unat v = 9 + 16 * tally n (\<lambda>p. p = ShHeld) f \<and> tally n (\<lambda>p. p = ExHeld) f = 0 \<and>
       (tally n (\<lambda>p. p = ShHeld) f = 0 \<longrightarrow> 0 < tally n is_clear f)))"

lemma unat_eq_iff_9: "unat (v :: u64) = 9 \<longleftrightarrow> v = 9"
  by (simp add: word_unat_eq_iff)

lemma push_inv_step:
  assumes inv: "push_inv n (v, f)" and i: "i < n" and n: "n < 1152921504606846975"
    and act: "(v', p') \<in> set (push_acts v (f i))"
  shows "push_inv n (v', f(i := p'))"
proof -
  let ?e = "tally n (\<lambda>p. p = ExHeld)" and ?s = "tally n (\<lambda>p. p = ShHeld)" and ?c = "tally n is_clear"
  note u = tally_update [OF i, where f = f and p = p'] 
  note ue = u [of "\<lambda>p. p = ExHeld"] and us = u [of "\<lambda>p. p = ShHeld"] and uc = u [of is_clear]
  have sn: "?s f < 1152921504606846975" using tally_le [of n "\<lambda>p. p = ShHeld" f] n by linarith
  have cases3: "v = 0 \<and> ?e f = 0 \<and> ?s f = 0 \<or> v = 1 \<and> ?e f = 1 \<and> ?s f = 0 \<or>
     unat v = 9 + 16 * ?s f \<and> ?e f = 0 \<and> (?s f = 0 \<longrightarrow> 0 < ?c f)"
    and cl: "\<forall>i<n. \<forall>c. f i = ShClear c \<longrightarrow> c = 9"
    and sw: "\<forall>i<n. \<forall>c. f i = ShSwap c \<longrightarrow> c AND 1 = 0 \<or> c AND 8 \<noteq> 0"
    using inv by (auto simp: push_inv_def)
  let ?f = "f(i := p')"
  have upd: "(\<forall>j<n. \<forall>c. ?f j = ShClear c \<longrightarrow> c = 9) \<longleftrightarrow> (\<forall>c. p' = ShClear c \<longrightarrow> c = 9)"
    "(\<forall>j<n. \<forall>c. ?f j = ShSwap c \<longrightarrow> c AND 1 = 0 \<or> c AND 8 \<noteq> 0) \<longleftrightarrow>
       (\<forall>c. p' = ShSwap c \<longrightarrow> c AND 1 = 0 \<or> c AND 8 \<noteq> 0)"
    using cl sw i by (auto simp: fun_upd_apply split: if_splits)
  have nine: "v = 9" if "unat v = 9" using that by (metis unat_eq_iff_9)
  show ?thesis
  proof (cases "f i")
    case Outside
    then show ?thesis
      using act ue us uc cases3 upd by (auto simp: push_inv_def push_acts_def is_clear_def)
  next
    case ExLoad
    then show ?thesis
      using act ue us uc cases3 upd by (auto simp: push_inv_def push_acts_def is_clear_def split: if_splits)
  next
    case ExSwap
    then show ?thesis
      using act ue us uc cases3 upd by (auto simp: push_inv_def push_acts_def is_clear_def push_defs split: if_splits)
  next
    case ExHeld
    then have "0 < ?e f" using tally_pos [OF i, of "\<lambda>p. p = ExHeld"] by simp
    then show ?thesis
      using act ue us uc cases3 upd ExHeld
      by (auto simp: push_inv_def push_acts_def is_clear_def ex_release_push_lock_exclusive_def)
  next
    case ShLoad
    then show ?thesis
      using act ue us uc cases3 upd by (auto simp: push_inv_def push_acts_def is_clear_def push_defs split: if_splits)
  next
    case (ShSwap c)
    show ?thesis
    proof (cases "v = c")
      case False
      then show ?thesis
        using act ue us uc cases3 upd ShSwap by (auto simp: push_inv_def push_acts_def is_clear_def)
    next
      case True
      have v1: "v \<noteq> 1" using sw i ShSwap True by auto
      have e: "v' = shared_value v" "p' = ShHeld" using act ShSwap True by (auto simp: push_acts_def)
      consider "v = 0" "?e f = 0" "?s f = 0" | "unat v = 9 + 16 * ?s f" "?e f = 0" using cases3 v1 by auto
      then show ?thesis
      proof cases
        case 1
        then have "v' = 25" using e by (simp add: shared_value_def push_defs)
        then show ?thesis using 1 e ue us upd ShSwap by (simp add: push_inv_def)
      next
        case 2
        then have "v' = v + 16" using e by (auto simp: shared_value_def push_defs)
        moreover have "unat (v + 16) = unat v + 16" using 2 sn by (simp add: unat_word_ariths)
        ultimately show ?thesis using 2 e ue us upd ShSwap by (simp add: push_inv_def)
      qed
    qed
  next
    case ShHeld
    then have s1: "0 < ?s f" using tally_pos [OF i, of "\<lambda>p. p = ShHeld"] by simp
    then have v: "unat v = 9 + 16 * ?s f" "?e f = 0" using cases3 by auto
    have u16: "unat (v - 16) = unat v - 16" using v s1 by (subst unat_sub) (auto simp: word_le_nat_alt)
    have e: "v' = v - 16" "p' = (if v - 16 = 9 then ShClear 9 else Outside)"
      using act ShHeld by (auto simp: push_acts_def Let_def push_defs)
    have z: "v - 16 = 9" if "?s f = 1" using u16 v that by (metis add_diff_cancel_right' mult.right_neutral unat_eq_iff_9)
    show ?thesis
      using e ue us uc upd ShHeld v u16 s1 z by (auto simp: push_inv_def is_clear_def split: if_splits)
  next
    case (ShClear c)
    then have c9: "c = 9" using cl i by blast
    have e: "v' = (if v = 9 then 0 else v)" "p' = Outside" using act ShClear c9 by (auto simp: push_acts_def)
    show ?thesis
    proof (cases "v = 9")
      case True
      then have "?s f = 0" "?e f = 0" using cases3 by auto
      then show ?thesis using e ue us upd ShClear True by (simp add: push_inv_def)
    next
      case False
      then have "unat v = 9 + 16 * ?s f \<Longrightarrow> ?s f \<noteq> 0" using nine by auto
      then show ?thesis using e ue us upd ShClear False cases3 by (auto simp: push_inv_def)
    qed
  qed
qed

definition push_start :: "u64 \<times> (nat \<Rightarrow> PUSH_PC)" where "push_start = (0, \<lambda>_. Outside)"

text \<open>
  C18. A push lock excludes: while a thread owns it exclusively no other thread owns it in either
  mode, for every interleaving of any number of threads; and whenever no thread is inside
  one of the operations or owns the lock, the word is 0, so the lock can be taken again.
\<close>

theorem push_lock_exclusion:
  assumes "reachable n push_acts push_start (v, f)" and "n < 1152921504606846975"
  shows "(\<forall>i<n. \<forall>j<n. f i = ExHeld \<longrightarrow> f j \<in> {ExHeld, ShHeld} \<longrightarrow> i = j) \<and>
    ((\<forall>i<n. f i \<noteq> ExHeld \<and> f i \<noteq> ShHeld \<and> (\<forall>c. f i \<noteq> ShClear c)) \<longrightarrow> v = 0)"
proof -
  have "push_inv n (v, f)"
    using assms(1)
  proof (rule reachable_invariant)
    show "push_inv n push_start" by (simp add: push_inv_def push_start_def tally_const)
  qed (rule push_inv_step [OF _ _ assms(2)])
  then have 3: "v = 0 \<and> tally n (\<lambda>p. p = ExHeld) f = 0 \<and> tally n (\<lambda>p. p = ShHeld) f = 0 \<or>
     v = 1 \<and> tally n (\<lambda>p. p = ExHeld) f = 1 \<and> tally n (\<lambda>p. p = ShHeld) f = 0 \<or>
     unat v = 9 + 16 * tally n (\<lambda>p. p = ShHeld) f \<and> tally n (\<lambda>p. p = ExHeld) f = 0 \<and>
       (tally n (\<lambda>p. p = ShHeld) f = 0 \<longrightarrow> 0 < tally n is_clear f)"
    by (auto simp: push_inv_def)
  have ex: "i = j" if "i < n" "j < n" "f i = ExHeld" "f j \<in> {ExHeld, ShHeld}" for i j
    using 3 that tally_pos [of i n "\<lambda>p. p = ExHeld" f] tally_pos [of j n "\<lambda>p. p = ShHeld" f]
      tally_two [of i n j "\<lambda>p. p = ExHeld" f] by auto
  have "v = 0" if free: "\<forall>i<n. f i \<noteq> ExHeld \<and> f i \<noteq> ShHeld \<and> (\<forall>c. f i \<noteq> ShClear c)"
  proof -
    have "tally n (\<lambda>p. p = ExHeld) f = 0" "tally n (\<lambda>p. p = ShHeld) f = 0" "tally n is_clear f = 0"
      using free by (simp_all add: tally_def is_clear_def)
    then show ?thesis using 3 by auto
  qed
  then show ?thesis using ex by blast
qed

section \<open>Spin locks\<close>

text \<open>
  The IRQL of the thread is part of its place. \<open>kf_raise_irql\<close> and \<open>kf_lower_irql\<close> set it to their argument;
  the assertions that it rises or falls are not part of a release build.
\<close>

datatype SPIN_PC = SpinOutside nat | SpinTry nat | SpinHeld nat

definition try_acquire :: "u64 \<Rightarrow> bool \<times> u64" where
  "try_acquire v = (if v = 0 then (True, 1) else (False, v))"

definition is_locked :: "u64 \<Rightarrow> bool" where "is_locked v \<longleftrightarrow> v \<noteq> 0"

text \<open>
  \<open>ke_acquire_spin_lock\<close> raises the IRQL and spins; \<open>ke_try_to_acquire_spin_lock\<close> gives up at once;
  \<open>ke_acquire_spin_lock_raise_to\<close> waits for the lock to look free before it raises the IRQL. The
  old IRQL travels with the thread.
\<close>

definition spin_acts :: "u64 \<Rightarrow> SPIN_PC \<Rightarrow> (u64 \<times> SPIN_PC) list" where
  "spin_acts v p =
    (case p of
       SpinOutside q \<Rightarrow>
         [(v, SpinTry q),
          (case try_acquire v of (ok, v') \<Rightarrow> (v', if ok then SpinHeld q else SpinOutside q)),
          (v, if is_locked v then SpinOutside q else SpinTry q)]
     | SpinTry q \<Rightarrow> (case try_acquire v of (ok, v') \<Rightarrow> [(v', if ok then SpinHeld q else SpinTry q)])
     | SpinHeld q \<Rightarrow> [(0, SpinOutside q)])"

definition spin_start :: "nat \<Rightarrow> u64 \<times> (nat \<Rightarrow> SPIN_PC)" where "spin_start q = (0, \<lambda>_. SpinOutside q)"

definition spin_inv :: "nat \<Rightarrow> u64 \<times> (nat \<Rightarrow> SPIN_PC) \<Rightarrow> bool" where
  "spin_inv n = (\<lambda>(v, f). v = 0 \<and> tally n (\<lambda>p. \<exists>q. p = SpinHeld q) f = 0 \<or> v = 1 \<and> tally n (\<lambda>p. \<exists>q. p = SpinHeld q) f = 1)"

text \<open>At most one thread holds a spin lock.\<close>

lemma spin_lock_exclusion:
  assumes "reachable n spin_acts (spin_start q0) (v, f)" and "i < n" "j < n" "f i = SpinHeld q" "f j = SpinHeld r"
  shows "i = j"
proof -
  let ?H = "\<lambda>p. \<exists>q. p = SpinHeld q"
  have "spin_inv n (v, f)"
    using assms(1)
  proof (rule reachable_invariant)
    show "spin_inv n (spin_start q0)" by (simp add: spin_inv_def spin_start_def tally_const)
  next
    fix v f i v' p' assume I: "spin_inv n (v, f)" and i: "i < n" and a: "(v', p') \<in> set (spin_acts v (f i))"
    note u = tally_update [OF i, where f = f and p = p' and P = ?H]
    have pos: "0 < tally n ?H f" if "f i = SpinHeld q" for q using tally_pos [OF i, of ?H] that by simp
    show "spin_inv n (v', f(i := p'))"
      using I u pos a
      by (cases "f i") (auto simp: spin_inv_def spin_acts_def try_acquire_def is_locked_def split: if_splits)
  qed
  then have "tally n ?H f \<le> 1" by (auto simp: spin_inv_def)
  moreover have "i \<noteq> j \<Longrightarrow> 2 \<le> tally n ?H f"
    by (rule tally_two [of i n j]) (use assms(2-5) in auto)
  ultimately show ?thesis by linarith
qed

section \<open>Fast mutexes\<close>

text \<open>The owner is written and never read; the event is set and never waited for.\<close>

record FAST_MUTEX =
  mutex_count :: int
  mutex_irql :: nat
  mutex_event :: bool

datatype FAST_PC = FmOutside nat | FmDecrement | FmSpin | FmTaken nat | FmHeld | FmRelease nat

definition ex_initialize_fast_mutex :: FAST_MUTEX where
  "ex_initialize_fast_mutex = \<lparr>mutex_count = 1, mutex_irql = 0, mutex_event = False\<rparr>"

text \<open>\<open>ExAcquireFastMutex\<close>: the IRQL is saved in the mutex before the mutex is taken.\<close>

fun ex_acquire_fast_mutex :: "FAST_MUTEX \<Rightarrow> FAST_PC \<Rightarrow> (FAST_MUTEX \<times> FAST_PC) list" where
  "ex_acquire_fast_mutex m (FmOutside q) = [(m\<lparr>mutex_irql := q\<rparr>, FmDecrement)]"
| "ex_acquire_fast_mutex m FmDecrement =
     [(m\<lparr>mutex_count := wrap_i32 (mutex_count m - 1)\<rparr>, if mutex_count m \<le> 0 then FmSpin else FmHeld)]"
| "ex_acquire_fast_mutex m FmSpin = [(m, if mutex_count m < 0 then FmSpin else FmHeld)]"
| "ex_acquire_fast_mutex m _ = []"

fun ex_release_fast_mutex :: "FAST_MUTEX \<Rightarrow> FAST_PC \<Rightarrow> (FAST_MUTEX \<times> FAST_PC) list" where
  "ex_release_fast_mutex m FmHeld = [(m, FmRelease (mutex_irql m))]"
| "ex_release_fast_mutex m (FmRelease q) =
     [(m\<lparr>mutex_count := wrap_i32 (mutex_count m + 1), mutex_event := mutex_event m \<or> mutex_count m < 0\<rparr>, FmOutside q)]"
| "ex_release_fast_mutex m _ = []"

fun ex_try_to_acquire_fast_mutex :: "FAST_MUTEX \<Rightarrow> FAST_PC \<Rightarrow> (FAST_MUTEX \<times> FAST_PC) list" where
  "ex_try_to_acquire_fast_mutex m (FmOutside q) =
     [if mutex_count m = 1 then (m\<lparr>mutex_count := 0\<rparr>, FmTaken q) else (m, FmOutside q)]"
| "ex_try_to_acquire_fast_mutex m (FmTaken q) = [(m\<lparr>mutex_irql := q\<rparr>, FmHeld)]"
| "ex_try_to_acquire_fast_mutex m _ = []"

text \<open>A thread outside may also change its IRQL between PASSIVE_LEVEL and APC_LEVEL.\<close>

definition fast_acts :: "FAST_MUTEX \<Rightarrow> FAST_PC \<Rightarrow> (FAST_MUTEX \<times> FAST_PC) list" where
  "fast_acts m p = ex_acquire_fast_mutex m p @ ex_release_fast_mutex m p @ ex_try_to_acquire_fast_mutex m p @
     (case p of FmOutside q \<Rightarrow> [(m, FmOutside 0), (m, FmOutside 1)] | _ \<Rightarrow> [])"

definition fast_start :: "FAST_MUTEX \<times> (nat \<Rightarrow> FAST_PC)" where
  "fast_start = (ex_initialize_fast_mutex, \<lambda>_. FmOutside 0)"

definition owns :: "FAST_PC \<Rightarrow> bool" where
  "owns p \<longleftrightarrow> p = FmHeld \<or> (\<exists>q. p = FmTaken q \<or> p = FmRelease q)"

definition inside :: "FAST_PC \<Rightarrow> bool" where "inside p \<longleftrightarrow> owns p \<or> p = FmSpin"

definition fast_inv :: "nat \<Rightarrow> nat \<Rightarrow> FAST_MUTEX \<times> (nat \<Rightarrow> FAST_PC) \<Rightarrow> bool" where
  "fast_inv n k = (\<lambda>(m, f). mutex_count m = 1 - int (tally n inside f) \<and> tally n owns f \<le> k)"

lemma owns_simps [simp]:
  "owns FmHeld" "owns (FmTaken q)" "owns (FmRelease q)" "\<not> owns FmSpin" "\<not> owns FmDecrement" "\<not> owns (FmOutside q)"
  "inside FmHeld" "inside (FmTaken q)" "inside (FmRelease q)" "inside FmSpin" "\<not> inside FmDecrement"
  "\<not> inside (FmOutside q)"
  by (simp_all add: owns_def inside_def)

lemma tally_owns_inside: "tally n owns f + tally n (\<lambda>p. p = FmSpin) f = tally n inside f"
proof -
  have "inside p \<longleftrightarrow> owns p \<or> p = FmSpin" "\<not> (owns p \<and> p = FmSpin)" for p
    by (auto simp: inside_def owns_def)
  then have "(of_bool (owns p) :: nat) + of_bool (p = FmSpin) = of_bool (inside p)" for p by auto
  then show ?thesis unfolding tally_def by (simp only: flip: sum.distrib)
qed

lemma fast_inv_step:
  assumes inv: "fast_inv n k (m, f)" and i: "i < n" and n: "n < 2147483648"
    and act: "(m', p') \<in> set (fast_acts m (f i))" and k: "k = 1 \<or> 2 \<le> tally n (\<lambda>p. p = FmSpin) f"
  shows "fast_inv n k (m', f(i := p'))"
proof -
  note u = tally_update [OF i, where f = f and p = p']
  note ui = u [of inside] and uo = u [of owns]
  have le: "tally n inside f \<le> n" by (rule tally_le)
  have c: "mutex_count m = 1 - int (tally n inside f)" "tally n owns f \<le> k" using inv by (simp_all add: fast_inv_def)
  note oi = tally_owns_inside [of n f]
  show ?thesis
  proof (cases "f i")
    case (FmOutside q)
    then show ?thesis
      using act ui uo c k oi by (auto simp: fast_inv_def fast_acts_def split: if_splits)
  next
    case FmDecrement
    then show ?thesis
      using act ui uo c k oi le n by (auto simp: fast_inv_def fast_acts_def split: if_splits)
  next
    case FmSpin
    then have "0 < tally n (\<lambda>p. p = FmSpin) f" using tally_pos [OF i, of "\<lambda>p. p = FmSpin"] by simp
    then show ?thesis
      using act ui uo c k oi FmSpin by (auto simp: fast_inv_def fast_acts_def split: if_splits)
  next
    case (FmTaken q)
    then show ?thesis using act ui uo c by (auto simp: fast_inv_def fast_acts_def)
  next
    case FmHeld
    then show ?thesis using act ui uo c by (auto simp: fast_inv_def fast_acts_def)
  next
    case (FmRelease q)
    then have "0 < tally n inside f" using tally_pos [OF i, of inside] by simp
    then show ?thesis using act ui uo c FmRelease le n by (auto simp: fast_inv_def fast_acts_def)
  qed
qed

text \<open>A fast mutex excludes: at most one thread owns it, in every interleaving.\<close>

theorem fast_mutex_exclusion:
  assumes "reachable n fast_acts fast_start (m, f)" and "n < 2147483648"
  shows "\<forall>i<n. \<forall>j<n. owns (f i) \<longrightarrow> owns (f j) \<longrightarrow> i = j"
proof -
  have "fast_inv n 1 (m, f)"
    using assms(1)
  proof (rule reachable_invariant)
    show "fast_inv n 1 fast_start"
      by (simp add: fast_inv_def fast_start_def ex_initialize_fast_mutex_def tally_const)
  qed (rule fast_inv_step [OF _ _ assms(2)], simp_all)
  then have "tally n owns f \<le> 1" by (simp add: fast_inv_def)
  then show ?thesis using tally_two [of _ n _ owns f] by fastforce
qed

text \<open>
  Two threads that spin with nobody owning the mutex: the count is negative, a new thread only
  makes it smaller, and none of them can go on.
\<close>

definition stuck :: "nat \<Rightarrow> FAST_MUTEX \<times> (nat \<Rightarrow> FAST_PC) \<Rightarrow> bool" where
  "stuck n s \<longleftrightarrow> fast_inv n 0 s \<and> snd s 1 = FmSpin \<and> snd s 2 = FmSpin"

lemma stuck_for_ever:
  assumes "reachable n fast_acts s s'" and "stuck n s" and "2 < n" "n < 2147483648"
  shows "stuck n s'"
  using assms(1,2)
proof (rule reachable_invariant)
  fix m f i m' p' assume I: "stuck n (m, f)" and i: "i < n" and a: "(m', p') \<in> set (fast_acts m (f i))"
  have two: "2 \<le> tally n (\<lambda>p. p = FmSpin) f"
    by (rule tally_two [of 1 n 2]) (use I assms(3) in \<open>auto simp: stuck_def\<close>)
  have neg: "mutex_count m < 0" using I two tally_owns_inside [of n f] by (simp add: stuck_def fast_inv_def)
  have "fast_inv n 0 (m', f(i := p'))"
    by (rule fast_inv_step [where f = f and m = m, OF _ i assms(4) a]) (use I two in \<open>simp_all add: stuck_def\<close>)
  moreover have "f i = FmSpin \<Longrightarrow> p' = FmSpin" using a neg by (simp add: fast_acts_def)
  ultimately show "stuck n (m', f(i := p'))" using I by (auto simp: stuck_def)
qed

text \<open>
  A fast mutex with one owner and two waiters deadlocks: once the owner has released it the
  count is -1, both waiters wait for it to reach 0, and no thread will ever own it again,
  whatever any thread does.
\<close>

theorem fast_mutex_deadlock:
  assumes "2 < n" and "n < 2147483648"
  shows "\<exists>s. reachable n fast_acts fast_start s \<and>
    (\<forall>s'. reachable n fast_acts s s' \<longrightarrow> snd s' 1 = FmSpin \<and> snd s' 2 = FmSpin \<and> (\<forall>i<n. \<not> owns (snd s' i)))"
proof -
  let ?r = "[(0, 0), (0, 0), (1, 0), (1, 0), (2, 0), (2, 0), (0, 0), (0, 0)]"
  define s where "s = run fast_acts ?r fast_start"
  have ok: "run_ok n fast_acts ?r fast_start"
    using assms by (simp add: fast_acts_def fast_start_def ex_initialize_fast_mutex_def)
  have s: "s = (\<lparr>mutex_count = - 1, mutex_irql = 0, mutex_event = True\<rparr>,
      (\<lambda>_. FmOutside 0)(1 := FmSpin, 2 := FmSpin))"
    by (auto simp: s_def fast_acts_def fast_start_def ex_initialize_fast_mutex_def fun_eq_iff)
  have t: "tally n P (\<lambda>_. FmOutside 0) = 0" if "\<not> P (FmOutside 0)" for P
    using that by (simp add: tally_def)
  have "tally n P ((\<lambda>_. FmOutside 0)(1 := FmSpin, 2 := FmSpin)) = 2 * of_bool (P FmSpin)"
    if "\<not> P (FmOutside 0)" for P
    using tally_update [of 2 n P "(\<lambda>_. FmOutside 0)(1 := FmSpin)" FmSpin] tally_update [of 1 n P "\<lambda>_. FmOutside 0" FmSpin]
      t [of P, OF that] that assms(1) by simp
  then have "stuck n s" by (simp add: stuck_def fast_inv_def s)
  have "snd s' 1 = FmSpin \<and> snd s' 2 = FmSpin \<and> (\<forall>i<n. \<not> owns (snd s' i))" if "reachable n fast_acts s s'" for s'
    using stuck_for_ever [OF that \<open>stuck n s\<close> assms] tally_zero [of n owns "snd s'"]
    by (cases s') (auto simp: stuck_def fast_inv_def)
  moreover have "reachable n fast_acts fast_start s"
    unfolding s_def by (rule run_reachable [OF reachable.start ok])
  ultimately show ?thesis by blast
qed

section \<open>Resources\<close>

text \<open>
  A resource counts its owners in an \<open>i16\<close>: -1 for an exclusive one. The waiting is not
  implemented in the code: an acquisition that has to wait fails whatever \<open>wait\<close> says. The spin
  lock is released with IRQL 0 instead of the saved one, so the result carries the IRQL.
\<close>

definition wrap_i16 :: "int \<Rightarrow> int" where "wrap_i16 x = (x + 32768) mod 65536 - 32768"

definition ex_initialize_resource_lite :: int where "ex_initialize_resource_lite = 0"

definition is_acquired :: "int \<Rightarrow> bool" where "is_acquired a \<longleftrightarrow> a \<noteq> 0"
definition is_acquired_exclusive :: "int \<Rightarrow> bool" where "is_acquired_exclusive a \<longleftrightarrow> a < 0"
definition is_acquired_shared :: "int \<Rightarrow> bool" where "is_acquired_shared a \<longleftrightarrow> 0 < a"

definition ex_acquire_resource_exclusive_lite :: "bool \<Rightarrow> int \<times> nat \<Rightarrow> bool \<times> int \<times> nat" where
  "ex_acquire_resource_exclusive_lite wait = (\<lambda>(a, irql). if a = 0 then (True, - 1, 0) else (False, a, 0))"

definition ex_acquire_resource_shared_lite :: "bool \<Rightarrow> int \<times> nat \<Rightarrow> bool \<times> int \<times> nat" where
  "ex_acquire_resource_shared_lite wait =
    (\<lambda>(a, irql). if 0 \<le> a then (True, wrap_i16 (a + 1), 0) else (False, a, 0))"

definition ex_release_resource_lite :: "int \<times> nat \<Rightarrow> int \<times> nat" where
  "ex_release_resource_lite =
    (\<lambda>(a, irql). (if a < 0 then 0 else if 0 < a then a - 1 else a, 0))"

datatype RESOURCE_OP = AcquireExclusive | AcquireShared | Release

fun resource_run :: "RESOURCE_OP list \<Rightarrow> int \<times> nat \<Rightarrow> int \<times> nat" where
  "resource_run [] s = s"
| "resource_run (AcquireExclusive # r) s = resource_run r (snd (ex_acquire_resource_exclusive_lite True s))"
| "resource_run (AcquireShared # r) s = resource_run r (snd (ex_acquire_resource_shared_lite True s))"
| "resource_run (Release # r) s = resource_run r (ex_release_resource_lite s)"

text \<open>
  The count of a resource: after any sequence of fewer than 32768 operations it is -1 or the number
  of shared owners; every operation leaves the processor at PASSIVE_LEVEL.
\<close>

lemma resource_count:
  assumes "length ops < 32768"
  shows "fst (resource_run ops (0, q)) \<in> {- 1..int (length ops)} \<and> (ops \<noteq> [] \<longrightarrow> snd (resource_run ops (0, q)) = 0)"
proof -
  have "fst (resource_run ops (a, q)) \<in> {- 1..a' + int (length ops)} \<and> (ops \<noteq> [] \<longrightarrow> snd (resource_run ops (a, q)) = 0)"
    if "- 1 \<le> a" "a \<le> a'" "0 \<le> a'" "a' + int (length ops) < 32768" for a a'
    using that
  proof (induction ops arbitrary: a a' q)
    case (Cons op ops)
    have nil: "resource_run [] x = x" for x by simp
    have ex: "snd (ex_acquire_resource_exclusive_lite True (a, q)) = (if a = 0 then - 1 else a, 0)"
      and sh: "snd (ex_acquire_resource_shared_lite True (a, q)) = (if 0 \<le> a then a + 1 else a, 0)"
      and re: "ex_release_resource_lite (a, q) = (if a < 0 then 0 else if 0 < a then a - 1 else a, 0)"
      using Cons.prems
      by (simp_all add: ex_acquire_resource_exclusive_lite_def ex_acquire_resource_shared_lite_def
          ex_release_resource_lite_def wrap_i16_def)
    have "fst (resource_run ops (b, 0)) \<in> {- 1..a' + (1 + int (length ops))} \<and>
        (ops \<noteq> [] \<longrightarrow> snd (resource_run ops (b, 0)) = 0)"
      if "- 1 \<le> b" "b \<le> a' + 1" for b
      using Cons.IH [of b "a' + 1" 0] that Cons.prems by (simp add: add.assoc)
    then show ?case
      using Cons.prems ex sh re by (cases op; cases "ops = []") auto
  qed simp
  from this [of 0 0] show ?thesis using assms by simp
qed

section \<open>Witnesses\<close>

text \<open>Thread 0 takes the push lock exclusively while thread 1 waits for it.\<close>

theorem push_lock_exclusion_witness:
  "reachable 2 push_acts push_start (run push_acts [(0, 0), (0, 0), (0, 0), (1, 1), (1, 0)] push_start) \<and>
   snd (run push_acts [(0, 0), (0, 0), (0, 0), (1, 1), (1, 0)] push_start) 0 = ExHeld \<and>
   snd (run push_acts [(0, 0), (0, 0), (0, 0), (1, 1), (1, 0)] push_start) 1 \<notin> {ExHeld, ShHeld}"
proof -
  let ?r = "[(0, 0), (0, 0), (0, 0), (1, 1), (1, 0)]"
  have ok: "run_ok 2 push_acts ?r push_start" by (simp add: push_start_def push_acts_def push_defs)
  have re: "reachable 2 push_acts push_start (run push_acts ?r push_start)"
    by (rule run_reachable [OF reachable.start ok])
  obtain v f where s: "run push_acts ?r push_start = (v, f)" by (meson surj_pair)
  have h: "f 0 = ExHeld" using s by (simp add: push_start_def push_acts_def push_defs) auto
  have "\<forall>i<2. \<forall>j<2. f i = ExHeld \<longrightarrow> f j \<in> {ExHeld, ShHeld} \<longrightarrow> i = j"
    using push_lock_exclusion [OF re [unfolded s]] by simp
  from this [rule_format, of 0 1] have "f 1 \<notin> {ExHeld, ShHeld}" using h by auto
  then show ?thesis using re s h by (simp del: run.simps One_nat_def)
qed

theorem fast_mutex_exclusion_witness:
  "reachable 2 fast_acts fast_start (run fast_acts [(0, 0), (0, 0), (1, 0), (1, 0)] fast_start) \<and>
   owns (snd (run fast_acts [(0, 0), (0, 0), (1, 0), (1, 0)] fast_start) 0) \<and>
   \<not> owns (snd (run fast_acts [(0, 0), (0, 0), (1, 0), (1, 0)] fast_start) 1)"
proof -
  let ?r = "[(0, 0), (0, 0), (1, 0), (1, 0)]"
  have ok: "run_ok 2 fast_acts ?r fast_start"
    by (simp add: fast_start_def fast_acts_def ex_initialize_fast_mutex_def)
  have re: "reachable 2 fast_acts fast_start (run fast_acts ?r fast_start)"
    by (rule run_reachable [OF reachable.start ok])
  obtain m f where s: "run fast_acts ?r fast_start = (m, f)" by (meson surj_pair)
  have h: "owns (f 0)" using s by (simp add: fast_start_def fast_acts_def ex_initialize_fast_mutex_def) auto
  have "\<forall>i<2. \<forall>j<2. owns (f i) \<longrightarrow> owns (f j) \<longrightarrow> i = j"
    using fast_mutex_exclusion [OF re [unfolded s]] by simp
  from this [rule_format, of 0 1] have "\<not> owns (f 1)" using h by auto
  then show ?thesis using re s h by (simp del: run.simps One_nat_def)
qed

theorem fast_mutex_deadlock_witness:
  "\<exists>s. reachable 3 fast_acts fast_start s \<and> (\<forall>s'. reachable 3 fast_acts s s' \<longrightarrow> snd s' 1 = FmSpin \<and> snd s' 2 = FmSpin)"
  using fast_mutex_deadlock [of 3] by auto

end
