(* ===== verification/Pte.thy ===== *)
theory Pte
  imports XPrelude
begin

text \<open>
  Page table entries and the recursive mapping of the page tables (\<open>mm/pte.rs\<close>): where the entry
  of an address is mapped, the indices of an address, the fields of an entry. The page walk
  of the processor is written down here as the reference the address functions are compared
  with: four levels, entry 493 of the top level referring to the top level itself.
\<close>

section \<open>Constants and flags\<close>

definition PXI_SELF :: u64 where "PXI_SELF = 493"
definition PTE_BASE :: u64 where "PTE_BASE = 0xFFFFF68000000000"
definition PDE_BASE :: u64 where "PDE_BASE = 0xFFFFF6FB40000000"
definition PPE_BASE :: u64 where "PPE_BASE = 0xFFFFF6FB7DA00000"
definition PXE_BASE :: u64 where "PXE_BASE = 0xFFFFF6FB7DBED000"

definition PTE_VALID :: u64 where "PTE_VALID = 0x1"
definition PTE_READWRITE :: u64 where "PTE_READWRITE = 0x2"
definition PTE_USER :: u64 where "PTE_USER = 0x4"
definition PTE_WRITETHROUGH :: u64 where "PTE_WRITETHROUGH = 0x8"
definition PTE_DISABLE_CACHE :: u64 where "PTE_DISABLE_CACHE = 0x10"
definition PTE_ACCESSED :: u64 where "PTE_ACCESSED = 0x20"
definition PTE_DIRTY :: u64 where "PTE_DIRTY = 0x40"
definition PTE_LARGE_PAGE :: u64 where "PTE_LARGE_PAGE = 0x80"
definition PTE_GLOBAL :: u64 where "PTE_GLOBAL = 0x100"
definition PTE_WRITECOPY :: u64 where "PTE_WRITECOPY = 0x200"
definition PTE_PROTOTYPE :: u64 where "PTE_PROTOTYPE = 0x400"
definition PTE_NX :: u64 where "PTE_NX = 0x8000000000000000"
definition PTE_FRAME_MASK :: u64 where "PTE_FRAME_MASK = 0x000FFFFFFFFFF000"
definition PTE_PROTECT_MASK :: u64 where
  "PTE_PROTECT_MASK = PTE_READWRITE OR PTE_USER OR PTE_WRITETHROUGH OR PTE_DISABLE_CACHE OR PTE_NX"

lemmas pte_flag_defs = PTE_VALID_def PTE_READWRITE_def PTE_USER_def PTE_WRITETHROUGH_def
  PTE_DISABLE_CACHE_def PTE_ACCESSED_def PTE_DIRTY_def PTE_LARGE_PAGE_def PTE_GLOBAL_def
  PTE_WRITECOPY_def PTE_PROTOTYPE_def PTE_NX_def PTE_PROTECT_MASK_def

section \<open>Addresses of entries\<close>

definition mm_get_pte_address :: "u64 \<Rightarrow> u64" where
  "mm_get_pte_address va = PTE_BASE + push_bit 3 (drop_bit 12 va AND 0x0000000FFFFFFFFF)"

definition mm_get_pde_address :: "u64 \<Rightarrow> u64" where
  "mm_get_pde_address va = PDE_BASE + push_bit 3 (drop_bit 21 va AND 0x00000007FFFFFFFF)"

definition mm_get_ppe_address :: "u64 \<Rightarrow> u64" where
  "mm_get_ppe_address va = PPE_BASE + push_bit 3 (drop_bit 30 va AND 0x000000000003FFFF)"

definition mm_get_pxe_address :: "u64 \<Rightarrow> u64" where
  "mm_get_pxe_address va = PXE_BASE + push_bit 3 (drop_bit 39 va AND 0x1FF)"

definition mm_get_pxe_index :: "u64 \<Rightarrow> u64" where "mm_get_pxe_index va = drop_bit 39 va AND 0x1FF"
definition mm_get_ppe_index :: "u64 \<Rightarrow> u64" where "mm_get_ppe_index va = drop_bit 30 va AND 0x1FF"
definition mm_get_pde_index :: "u64 \<Rightarrow> u64" where "mm_get_pde_index va = drop_bit 21 va AND 0x1FF"
definition mm_get_pte_index :: "u64 \<Rightarrow> u64" where "mm_get_pte_index va = drop_bit 12 va AND 0x1FF"

section \<open>Entries\<close>

record MMPTE = pte_value :: u64

definition mmpte_invalid :: MMPTE where "mmpte_invalid = \<lparr>pte_value = 0\<rparr>"
definition mmpte_from_raw :: "u64 \<Rightarrow> MMPTE" where "mmpte_from_raw v = \<lparr>pte_value = v\<rparr>"
definition mmpte_is_valid :: "MMPTE \<Rightarrow> bool" where "mmpte_is_valid e \<longleftrightarrow> pte_value e AND PTE_VALID \<noteq> 0"
definition mmpte_is_large :: "MMPTE \<Rightarrow> bool" where "mmpte_is_large e \<longleftrightarrow> pte_value e AND PTE_LARGE_PAGE \<noteq> 0"
definition mmpte_is_writable :: "MMPTE \<Rightarrow> bool" where "mmpte_is_writable e \<longleftrightarrow> pte_value e AND PTE_READWRITE \<noteq> 0"
definition mmpte_is_user :: "MMPTE \<Rightarrow> bool" where "mmpte_is_user e \<longleftrightarrow> pte_value e AND PTE_USER \<noteq> 0"
definition mmpte_is_accessed :: "MMPTE \<Rightarrow> bool" where "mmpte_is_accessed e \<longleftrightarrow> pte_value e AND PTE_ACCESSED \<noteq> 0"
definition mmpte_is_dirty :: "MMPTE \<Rightarrow> bool" where "mmpte_is_dirty e \<longleftrightarrow> pte_value e AND PTE_DIRTY \<noteq> 0"
definition mmpte_frame :: "MMPTE \<Rightarrow> u64" where "mmpte_frame e = pte_value e AND PTE_FRAME_MASK"
definition mmpte_pfn :: "MMPTE \<Rightarrow> u64" where "mmpte_pfn e = drop_bit 12 (mmpte_frame e)"

definition frame_bits :: "u64 \<Rightarrow> u64" where "frame_bits p = push_bit 12 p AND PTE_FRAME_MASK"

definition mmpte_set_pfn :: "u64 \<Rightarrow> MMPTE \<Rightarrow> MMPTE" where
  "mmpte_set_pfn p e = \<lparr>pte_value = pte_value e AND NOT PTE_FRAME_MASK OR frame_bits p\<rparr>"

definition mmpte_set_flags :: "u64 \<Rightarrow> MMPTE \<Rightarrow> MMPTE" where
  "mmpte_set_flags f e = \<lparr>pte_value = pte_value e OR f\<rparr>"

definition mmpte_clear_flags :: "u64 \<Rightarrow> MMPTE \<Rightarrow> MMPTE" where
  "mmpte_clear_flags f e = \<lparr>pte_value = pte_value e AND NOT f\<rparr>"

definition kernel_pte :: "u64 \<Rightarrow> bool \<Rightarrow> MMPTE" where
  "kernel_pte p writable =
    \<lparr>pte_value = (let v = PTE_VALID OR PTE_GLOBAL OR frame_bits p in if writable then v OR PTE_READWRITE else v)\<rparr>"

definition user_pte :: "u64 \<Rightarrow> bool \<Rightarrow> bool \<Rightarrow> MMPTE" where
  "user_pte p writable executable =
    \<lparr>pte_value = (let v = PTE_VALID OR PTE_USER OR frame_bits p;
                     w = (if writable then v OR PTE_READWRITE else v)
                 in if executable then w else w OR PTE_NX)\<rparr>"

section \<open>Decomposition of an address\<close>

record VirtualAddressIndices =
  pml4 :: u64
  pdpt :: u64
  pd :: u64
  pt :: u64
  offset :: u64

definition from_address :: "u64 \<Rightarrow> VirtualAddressIndices" where
  "from_address a = \<lparr>pml4 = drop_bit 39 a AND 0x1FF, pdpt = drop_bit 30 a AND 0x1FF,
     pd = drop_bit 21 a AND 0x1FF, pt = drop_bit 12 a AND 0x1FF, offset = a AND 0xFFF\<rparr>"

definition to_address :: "VirtualAddressIndices \<Rightarrow> u64" where
  "to_address x =
    (let a = push_bit 39 (pml4 x) OR push_bit 30 (pdpt x) OR push_bit 21 (pd x) OR push_bit 12 (pt x) OR offset x
     in if a AND push_bit 47 1 \<noteq> 0 then a OR 0xFFFF000000000000 else a)"

definition canonical :: "u64 \<Rightarrow> bool" where
  "canonical a \<longleftrightarrow> (\<forall>i\<in>{48..<64}. bit a i = bit a 47)"

section \<open>Bits\<close>

lemma mask_9: "(0x1FF :: u64) = mask 9" by (simp add: mask_eq_exp_minus_1)
lemma mask_12: "(0xFFF :: u64) = mask 12" by (simp add: mask_eq_exp_minus_1)
lemma mask_18: "(0x3FFFF :: u64) = mask 18" by (simp add: mask_eq_exp_minus_1)
lemma mask_35: "(0x7FFFFFFFF :: u64) = mask 35" by (simp add: mask_eq_exp_minus_1)
lemma mask_36: "(0xFFFFFFFFF :: u64) = mask 36" by (simp add: mask_eq_exp_minus_1)
lemma mask_high: "(0xFFFF000000000000 :: u64) = push_bit 48 (mask 16)"
  by (simp add: mask_eq_exp_minus_1 push_bit_eq_mult)
lemma mask_frame: "(0x000FFFFFFFFFF000 :: u64) = push_bit 12 (mask 40)"
  by (simp add: mask_eq_exp_minus_1 push_bit_eq_mult)

lemmas masks = mask_9 mask_12 mask_18 mask_35 mask_36 mask_high mask_frame

lemmas word_bits = bit_and_iff bit_or_iff bit_not_iff bit_drop_bit_eq bit_push_bit_iff bit_mask_iff

lemma field_bit: "i < 64 \<Longrightarrow> bit (push_bit n (drop_bit n (a :: u64) AND mask k)) i \<longleftrightarrow> n \<le> i \<and> i < n + k \<and> bit a i"
  by (auto simp: bit_push_bit_iff bit_and_iff bit_drop_bit_eq bit_mask_iff)

lemma low_bit: "i < 64 \<Longrightarrow> bit ((a :: u64) AND mask k) i \<longleftrightarrow> i < k \<and> bit a i"
  by (auto simp: bit_and_iff bit_mask_iff)

lemma single_bit_test: "(a :: u64) AND push_bit n 1 \<noteq> 0 \<longleftrightarrow> bit a n"
proof -
  have "bit (a AND push_bit n 1) i \<longleftrightarrow> i = n \<and> bit a n" for i
    using bit_imp_le_length [of a n] by (auto simp: bit_and_iff bit_push_bit_iff bit_1_iff simp del: push_bit_of_1)
  then show ?thesis by (metis bit_0_eq bot_apply bot_bool_def bit_eqI)
qed

lemma indices_bit:
  assumes "i < 64"
  shows "bit (push_bit 39 (drop_bit 39 a AND mask 9) OR push_bit 30 (drop_bit 30 a AND mask 9) OR
    push_bit 21 (drop_bit 21 a AND mask 9) OR push_bit 12 (drop_bit 12 a AND mask 9) OR (a AND mask 12) :: u64) i \<longleftrightarrow>
    bit a i \<and> i < 48"
  using assms by (simp only: bit_or_iff field_bit low_bit) (cases "bit a i", simp_all, linarith)

text \<open>A canonical address comes back from its indices, and indices in range come back from their address.\<close>

lemma to_from_address:
  assumes "canonical a"
  shows "to_address (from_address a) = a"
proof -
  define b where "b = push_bit 39 (drop_bit 39 a AND mask 9) OR push_bit 30 (drop_bit 30 a AND mask 9) OR
    push_bit 21 (drop_bit 21 a AND mask 9) OR push_bit 12 (drop_bit 12 a AND mask 9) OR (a AND mask 12)"
  have b: "bit b i \<longleftrightarrow> bit a i \<and> i < 48" if "i < 64" for i
    unfolding b_def by (rule indices_bit [OF that])
  have "to_address (from_address a) = (if b AND push_bit 47 1 \<noteq> 0 then b OR 0xFFFF000000000000 else b)"
    by (simp add: to_address_def from_address_def b_def mask_9 mask_12 Let_def)
  also have "\<dots> = (if bit a 47 then b OR push_bit 48 (mask 16) else b)"
    by (simp only: single_bit_test b mask_high) simp
  also have "\<dots> = a"
  proof (rule bit_word_eqI)
    fix i assume i: "i < LENGTH(64)"
    have "48 \<le> i \<Longrightarrow> bit a i = bit a 47" using assms i by (simp add: canonical_def)
    then show "bit (if bit a 47 then b OR push_bit 48 (mask 16) else b) i = bit a i"
      using b [of i] i by (cases "48 \<le> i") (auto simp: bit_or_iff bit_push_bit_iff bit_mask_iff)
  qed
  finally show ?thesis .
qed

definition indices_ok :: "VirtualAddressIndices \<Rightarrow> bool" where
  "indices_ok x \<longleftrightarrow> unat (pml4 x) < 512 \<and> unat (pdpt x) < 512 \<and> unat (pd x) < 512 \<and> unat (pt x) < 512 \<and>
     unat (offset x) < 4096"

lemma field_high:
  "unat (w :: u64) < 512 \<Longrightarrow> 9 \<le> i \<Longrightarrow> \<not> bit w i" "unat (w :: u64) < 4096 \<Longrightarrow> 12 \<le> i \<Longrightarrow> \<not> bit w i"
  using high_bit_unset [of w 9 i] high_bit_unset [of w 12 i] by simp_all

lemma to_address_bit:
  assumes "i < 48"
  shows "bit (to_address x) i \<longleftrightarrow> 39 \<le> i \<and> bit (pml4 x) (i - 39) \<or> 30 \<le> i \<and> bit (pdpt x) (i - 30) \<or>
    21 \<le> i \<and> bit (pd x) (i - 21) \<or> 12 \<le> i \<and> bit (pt x) (i - 12) \<or> bit (offset x) i"
proof -
  have h: "\<not> bit (0xFFFF000000000000 :: u64) i" using assms by (simp only: mask_high bit_push_bit_iff) simp
  show ?thesis using assms h by (simp add: to_address_def Let_def bit_or_iff bit_push_bit_iff)
qed

lemma from_to_address:
  assumes "indices_ok x"
  shows "from_address (to_address x) = x"
proof -
  note f = assms [unfolded indices_ok_def]
  have m: "drop_bit n (to_address x) AND mask 9 = w"
    if "\<And>i. i < 9 \<Longrightarrow> bit (to_address x) (n + i) = bit w i" "unat w < 512" for n w
  proof (rule bit_word_eqI)
    fix i assume "i < LENGTH(64)"
    show "bit (drop_bit n (to_address x) AND mask 9) i = bit w i"
      using that(1) [of i] field_high(1) [OF that(2), of i]
      by (cases "i < 9") (auto simp: bit_and_iff bit_drop_bit_eq bit_mask_iff)
  qed
  have "drop_bit 39 (to_address x) AND mask 9 = pml4 x" "drop_bit 30 (to_address x) AND mask 9 = pdpt x"
    "drop_bit 21 (to_address x) AND mask 9 = pd x" "drop_bit 12 (to_address x) AND mask 9 = pt x"
    by (rule m; use f field_high in \<open>simp add: to_address_bit\<close>)+
  moreover have "to_address x AND mask 12 = offset x"
  proof (rule bit_word_eqI)
    fix i assume "i < LENGTH(64)"
    show "bit (to_address x AND mask 12) i = bit (offset x) i"
      using f field_high(2) [of "offset x" i] by (cases "i < 12") (simp_all add: bit_and_iff bit_mask_iff to_address_bit)
  qed
  ultimately show ?thesis by (cases x) (simp add: from_address_def mask_9 mask_12)
qed

lemma canonical_to_address:
  assumes "indices_ok x"
  shows "canonical (to_address x)"
proof -
  define b where "b = push_bit 39 (pml4 x) OR push_bit 30 (pdpt x) OR push_bit 21 (pd x) OR push_bit 12 (pt x) OR offset x"
  have b: "\<not> bit b i" if "48 \<le> i" for i
    using assms that field_high [of "pml4 x"] field_high [of "pdpt x"] field_high [of "pd x"] field_high [of "pt x"]
      field_high(2) [of "offset x"]
    by (auto simp: b_def indices_ok_def bit_or_iff bit_push_bit_iff)
  have "to_address x = (if bit b 47 then b OR push_bit 48 (mask 16) else b)"
    by (simp only: to_address_def Let_def flip: b_def mask_high single_bit_test)
  then show ?thesis
    by (auto simp: canonical_def b bit_or_iff bit_push_bit_iff bit_mask_iff)
qed

section \<open>Entry fields\<close>

lemma frame_bits_bit: "i < 64 \<Longrightarrow> bit (frame_bits p) i \<longleftrightarrow> 12 \<le> i \<and> i < 52 \<and> bit p (i - 12)"
  by (auto simp: frame_bits_def PTE_FRAME_MASK_def mask_frame bit_and_iff bit_push_bit_iff bit_mask_iff)

lemma frame_mask_bit: "i < 64 \<Longrightarrow> bit PTE_FRAME_MASK i \<longleftrightarrow> 12 \<le> i \<and> i < 52"
  by (auto simp: PTE_FRAME_MASK_def mask_frame bit_push_bit_iff bit_mask_iff)

lemma set_pfn_pfn:
  assumes "unat p < 2 ^ 40"
  shows "mmpte_pfn (mmpte_set_pfn p e) = p"
    and "pte_value (mmpte_set_pfn p e) AND NOT PTE_FRAME_MASK = pte_value e AND NOT PTE_FRAME_MASK"
proof -
  have h: "\<not> bit p i" if "40 \<le> i" for i using high_bit_unset [OF assms that] .
  show "mmpte_pfn (mmpte_set_pfn p e) = p"
  proof (rule bit_word_eqI)
    fix i assume "i < LENGTH(64)"
    then show "bit (mmpte_pfn (mmpte_set_pfn p e)) i = bit p i"
      using h [of i] frame_bits_bit [of "12 + i" p] frame_mask_bit [of "12 + i"]
        bit_imp_le_length [of p i] bit_imp_le_length [of "frame_bits p" "12 + i"]
      by (cases "i < 40") (auto simp: mmpte_pfn_def mmpte_frame_def mmpte_set_pfn_def bit_drop_bit_eq bit_and_iff bit_or_iff bit_not_iff dest: bit_imp_le_length)
  qed
  show "pte_value (mmpte_set_pfn p e) AND NOT PTE_FRAME_MASK = pte_value e AND NOT PTE_FRAME_MASK"
    by (rule bit_word_eqI) (auto simp: mmpte_set_pfn_def bit_and_iff bit_or_iff bit_not_iff frame_bits_bit frame_mask_bit)
qed

section \<open>The recursive mapping\<close>

text \<open>
  The page walk of the processor: each level reads the entry of its index, which must be valid,
  and above the last level not a large page, and goes on with the frame of the entry.
\<close>

definition table_entry :: "(u64 \<Rightarrow> u64) \<Rightarrow> u64 \<Rightarrow> u64 \<Rightarrow> MMPTE" where
  "table_entry mem tbl i = mmpte_from_raw (mem (tbl + push_bit 3 i))"

definition next_table :: "(u64 \<Rightarrow> u64) \<Rightarrow> u64 \<Rightarrow> u64 \<Rightarrow> u64 option" where
  "next_table mem tbl i = (let e = table_entry mem tbl i in
     if mmpte_is_valid e \<and> \<not> mmpte_is_large e then Some (mmpte_frame e) else None)"

definition walk_pdpt :: "(u64 \<Rightarrow> u64) \<Rightarrow> u64 \<Rightarrow> u64 \<Rightarrow> u64 option" where
  "walk_pdpt mem cr3 va = next_table mem cr3 (mm_get_pxe_index va)"

definition walk_pd :: "(u64 \<Rightarrow> u64) \<Rightarrow> u64 \<Rightarrow> u64 \<Rightarrow> u64 option" where
  "walk_pd mem cr3 va = Option.bind (walk_pdpt mem cr3 va) (\<lambda>t. next_table mem t (mm_get_ppe_index va))"

definition walk_pt :: "(u64 \<Rightarrow> u64) \<Rightarrow> u64 \<Rightarrow> u64 \<Rightarrow> u64 option" where
  "walk_pt mem cr3 va = Option.bind (walk_pd mem cr3 va) (\<lambda>t. next_table mem t (mm_get_pde_index va))"

text \<open>Bit 7 of an entry of the last level is not a page size.\<close>

definition page_translate :: "(u64 \<Rightarrow> u64) \<Rightarrow> u64 \<Rightarrow> u64 \<Rightarrow> u64 option" where
  "page_translate mem cr3 va = Option.bind (walk_pt mem cr3 va) (\<lambda>t.
     let e = table_entry mem t (mm_get_pte_index va) in
     if mmpte_is_valid e then Some (mmpte_frame e + (va AND 0xFFF)) else None)"

definition self_mapped :: "(u64 \<Rightarrow> u64) \<Rightarrow> u64 \<Rightarrow> bool" where
  "self_mapped mem cr3 \<longleftrightarrow> next_table mem cr3 PXI_SELF = Some cr3"

lemma pte_base: "PTE_BASE = push_bit 39 0x1FFFFED"
  by (simp add: PTE_BASE_def push_bit_eq_mult)

lemma bit_39_low: "i < 39 \<Longrightarrow> \<not> bit PTE_BASE i"
  unfolding pte_base bit_push_bit_iff by simp

lemma pte_or: "mm_get_pte_address va = PTE_BASE OR push_bit 3 (drop_bit 12 va AND mask 36)"
  unfolding mm_get_pte_address_def mask_36
  by (rule disjunctive_add) (use bit_39_low in \<open>force simp: bit_push_bit_iff bit_and_iff bit_mask_iff not_less\<close>)

lemma pte_bit: "i < 39 \<Longrightarrow> bit (mm_get_pte_address va) i \<longleftrightarrow> 3 \<le> i \<and> bit va (i + 9)"
proof -
  assume i: "i < 39"
  then have e: "12 + (i - 3) = i + 9" if "3 \<le> i" using that by simp
  show ?thesis
    using i bit_39_low [OF i] e
    by (auto simp: pte_or bit_or_iff bit_push_bit_iff bit_and_iff bit_mask_iff bit_drop_bit_eq add.commute)
qed

lemma pte_indices:
  "mm_get_pxe_index (mm_get_pte_address va) = PXI_SELF"
  "mm_get_ppe_index (mm_get_pte_address va) = mm_get_pxe_index va"
  "mm_get_pde_index (mm_get_pte_address va) = mm_get_ppe_index va"
  "mm_get_pte_index (mm_get_pte_address va) = mm_get_pde_index va"
  "mm_get_pte_address va AND 0xFFF = push_bit 3 (mm_get_pte_index va)"
proof -
  have z: "drop_bit 39 (push_bit 3 (drop_bit 12 va AND mask 36)) = (0 :: u64)"
    by (rule bit_word_eqI) (auto simp: bit_drop_bit_eq bit_push_bit_iff bit_and_iff bit_mask_iff)
  have d: "drop_bit 39 PTE_BASE = 0x1FFFFED" by (simp add: PTE_BASE_def)
  show "mm_get_pxe_index (mm_get_pte_address va) = PXI_SELF"
    unfolding mm_get_pxe_index_def pte_or drop_bit_or z d PXI_SELF_def by simp
  have f: "drop_bit n (mm_get_pte_address va) AND mask 9 = drop_bit (n + 9) va AND mask 9"
    if "3 \<le> n" "n + 9 \<le> 39" for n
  proof (rule bit_word_eqI)
    fix i assume "i < LENGTH(64)"
    show "bit (drop_bit n (mm_get_pte_address va) AND mask 9) i = bit (drop_bit (n + 9) va AND mask 9) i"
      using that pte_bit [of "n + i" va] by (cases "i < 9") (simp_all add: bit_and_iff bit_drop_bit_eq bit_mask_iff ac_simps)
  qed
  show "mm_get_ppe_index (mm_get_pte_address va) = mm_get_pxe_index va"
    "mm_get_pde_index (mm_get_pte_address va) = mm_get_ppe_index va"
    "mm_get_pte_index (mm_get_pte_address va) = mm_get_pde_index va"
    using f [of 30] f [of 21] f [of 12]
    by (simp_all add: mm_get_ppe_index_def mm_get_pxe_index_def mm_get_pde_index_def mm_get_pte_index_def mask_9)
  show "mm_get_pte_address va AND 0xFFF = push_bit 3 (mm_get_pte_index va)"
  proof (rule bit_word_eqI)
    fix i assume i: "i < LENGTH(64)"
    show "bit (mm_get_pte_address va AND 0xFFF) i = bit (push_bit 3 (mm_get_pte_index va)) i"
      using i pte_bit [of i va]
      by (cases "i < 12") (auto simp: mm_get_pte_index_def mask_9 mask_12 bit_and_iff bit_drop_bit_eq bit_mask_iff bit_push_bit_iff ac_simps)
  qed
qed

lemma self_map_walk:
  assumes "self_mapped mem cr3"
  shows "walk_pdpt mem cr3 (mm_get_pte_address va) = Some cr3"
    and "walk_pd mem cr3 (mm_get_pte_address va) = walk_pdpt mem cr3 va"
    and "walk_pt mem cr3 (mm_get_pte_address va) = walk_pd mem cr3 va"
    and "walk_pt mem cr3 va = Some t \<Longrightarrow>
      page_translate mem cr3 (mm_get_pte_address va) = Some (t + push_bit 3 (mm_get_pte_index va))"
proof -
  show 1: "walk_pdpt mem cr3 (mm_get_pte_address va) = Some cr3"
    using assms by (simp add: walk_pdpt_def pte_indices self_mapped_def)
  show 2: "walk_pd mem cr3 (mm_get_pte_address va) = walk_pdpt mem cr3 va"
    unfolding walk_pd_def 1 pte_indices by (simp add: walk_pdpt_def)
  show 3: "walk_pt mem cr3 (mm_get_pte_address va) = walk_pd mem cr3 va"
    unfolding walk_pt_def 2 pte_indices by (simp add: walk_pd_def)
  show "page_translate mem cr3 (mm_get_pte_address va) = Some (t + push_bit 3 (mm_get_pte_index va))"
    if w: "walk_pt mem cr3 va = Some t"
  proof -
    obtain d where d: "walk_pd mem cr3 va = Some d" "next_table mem d (mm_get_pde_index va) = Some t"
      using w by (auto simp: walk_pt_def bind_eq_Some_conv)
    then show ?thesis
      unfolding page_translate_def 3 pte_indices by (simp add: next_table_def Let_def split: if_splits)
  qed
qed

text \<open>
  The entries of the upper levels are the entries of the entries: shifting an address nine bits
  down under the base, the bits of the base go down with it.
\<close>

definition pte_shift :: "u64 \<Rightarrow> u64" where
  "pte_shift x = push_bit 3 (drop_bit 12 x AND mask 36)"

lemma pte_shift: "mm_get_pte_address va = PTE_BASE OR pte_shift va"
  by (simp add: pte_or pte_shift_def)

lemma pte_shift_or: "pte_shift (x OR y) = pte_shift x OR pte_shift y"
  by (rule bit_word_eqI) (auto simp: pte_shift_def bit_push_bit_iff bit_and_iff bit_or_iff bit_mask_iff bit_drop_bit_eq)

lemma pte_shift_bit: "bit (pte_shift x) i \<longleftrightarrow> 3 \<le> i \<and> i < 39 \<and> bit x (i + 9)"
proof (cases "3 \<le> i \<and> i < 39")
  case True
  then have "12 + (i - 3) = i + 9" by simp
  then show ?thesis using True by (auto simp: pte_shift_def bit_push_bit_iff bit_and_iff bit_mask_iff bit_drop_bit_eq add.commute)
next
  case False
  then show ?thesis by (auto simp: pte_shift_def bit_push_bit_iff bit_and_iff bit_mask_iff)
qed

lemma pte_shift2: "pte_shift (pte_shift x) = push_bit 3 (drop_bit 21 x AND mask 27)"
  and pte_shift3: "pte_shift (pte_shift (pte_shift x)) = push_bit 3 (drop_bit 30 x AND mask 18)"
  and pte_shift4: "pte_shift (pte_shift (pte_shift (pte_shift x))) = push_bit 3 (drop_bit 39 x AND mask 9)"
proof -
  have s: "bit (push_bit 3 (drop_bit (12 + n) x AND mask (36 - n))) i \<longleftrightarrow> 3 \<le> i \<and> i < 39 - n \<and> bit x (i + 9 + n)"
    if "n \<le> 36" for n i :: nat and x :: u64
  proof (cases "3 \<le> i \<and> i < 39 - n")
    case True
    then have "12 + n + (i - 3) = i + 9 + n" by simp
    then show ?thesis using True that by (auto simp: bit_push_bit_iff bit_and_iff bit_mask_iff bit_drop_bit_eq ac_simps)
  next
    case False
    then show ?thesis using that by (auto simp: bit_push_bit_iff bit_and_iff bit_mask_iff)
  qed
  show "pte_shift (pte_shift x) = push_bit 3 (drop_bit 21 x AND mask 27)"
  proof (rule bit_word_eqI)
    fix i assume "i < LENGTH(64)"
    show "bit (pte_shift (pte_shift x)) i = bit (push_bit 3 (drop_bit 21 x AND mask 27)) i"
      using s [of 9 x i] by (simp only: pte_shift_bit) (simp add: ac_simps, arith?)
  qed
  show "pte_shift (pte_shift (pte_shift x)) = push_bit 3 (drop_bit 30 x AND mask 18)"
  proof (rule bit_word_eqI)
    fix i assume "i < LENGTH(64)"
    show "bit (pte_shift (pte_shift (pte_shift x))) i = bit (push_bit 3 (drop_bit 30 x AND mask 18)) i"
      using s [of 18 x i] by (simp only: pte_shift_bit) (simp add: ac_simps, arith?)
  qed
  show "pte_shift (pte_shift (pte_shift (pte_shift x))) = push_bit 3 (drop_bit 39 x AND mask 9)"
  proof (rule bit_word_eqI)
    fix i assume "i < LENGTH(64)"
    show "bit (pte_shift (pte_shift (pte_shift (pte_shift x)))) i = bit (push_bit 3 (drop_bit 39 x AND mask 9)) i"
      using s [of 27 x i] by (simp only: pte_shift_bit) (simp add: ac_simps, arith?)
  qed
qed

lemma bases:
  "PDE_BASE = PTE_BASE OR pte_shift PTE_BASE"
  "PPE_BASE = PTE_BASE OR pte_shift PDE_BASE"
  "PXE_BASE = PTE_BASE OR pte_shift PPE_BASE"
  by (simp_all add: PTE_BASE_def PDE_BASE_def PPE_BASE_def PXE_BASE_def pte_shift_def flip: mask_36)

lemma base_low: "PDE_BASE = push_bit 30 0x3FFFFDBED" "PPE_BASE = push_bit 21 0x7FFFFB7DBED" "PXE_BASE = push_bit 12 0xFFFFF6FB7DBED"
  by (simp_all add: PDE_BASE_def PPE_BASE_def PXE_BASE_def push_bit_eq_mult)

lemma add_field:
  assumes "k + 3 \<le> n"
  shows "push_bit n b + push_bit 3 (x AND mask k) = push_bit n b OR push_bit 3 (x AND mask k :: u64)"
  by (rule disjunctive_add) (use assms in \<open>auto simp: bit_push_bit_iff bit_and_iff bit_mask_iff\<close>)

lemma upper_addresses:
  "mm_get_pte_address (mm_get_pte_address va) = PDE_BASE + push_bit 3 (drop_bit 21 va AND mask 27)"
  "mm_get_ppe_address va = mm_get_pte_address (mm_get_pte_address (mm_get_pte_address va))"
  "mm_get_pxe_address va = mm_get_pte_address (mm_get_pte_address (mm_get_pte_address (mm_get_pte_address va)))"
proof -
  have 2: "mm_get_pte_address (mm_get_pte_address va) = PDE_BASE OR pte_shift (pte_shift va)"
    by (simp only: pte_shift pte_shift_or bases or.assoc)
  have 3: "mm_get_pte_address (mm_get_pte_address (mm_get_pte_address va)) = PPE_BASE OR pte_shift (pte_shift (pte_shift va))"
    unfolding 2 by (simp only: pte_shift pte_shift_or bases(2) or.assoc)
  have 4: "mm_get_pte_address (mm_get_pte_address (mm_get_pte_address (mm_get_pte_address va))) =
      PXE_BASE OR pte_shift (pte_shift (pte_shift (pte_shift va)))"
    unfolding 3 by (simp only: pte_shift pte_shift_or bases(3) or.assoc)
  show "mm_get_pte_address (mm_get_pte_address va) = PDE_BASE + push_bit 3 (drop_bit 21 va AND mask 27)"
    unfolding 2 pte_shift2 base_low by (rule add_field [symmetric]) simp
  show "mm_get_ppe_address va = mm_get_pte_address (mm_get_pte_address (mm_get_pte_address va))"
    unfolding 3 pte_shift3 mm_get_ppe_address_def mask_18 base_low by (rule add_field) simp
  show "mm_get_pxe_address va = mm_get_pte_address (mm_get_pte_address (mm_get_pte_address (mm_get_pte_address va)))"
    unfolding 4 pte_shift4 mm_get_pxe_address_def mask_9 base_low by (rule add_field) simp
qed

lemma pde_address_iff:
  "mm_get_pde_address va = mm_get_pte_address (mm_get_pte_address va) \<longleftrightarrow> (\<forall>i\<in>{48..<56}. \<not> bit va i)"
proof -
  have inj: "push_bit 3 (x AND mask 35) = push_bit 3 (y AND mask 35) \<longleftrightarrow> x AND mask 35 = y AND mask 35" for x y :: u64
  proof
    assume e: "push_bit 3 (x AND mask 35) = push_bit 3 (y AND mask 35)"
    show "x AND mask 35 = y AND mask 35"
    proof (rule bit_word_eqI)
      fix i assume "i < LENGTH(64)"
      have "bit (push_bit 3 (x AND mask 35)) (i + 3) = bit (push_bit 3 (y AND mask 35)) (i + 3)" by (simp only: e)
      then show "bit (x AND mask 35) i = bit (y AND mask 35) i"
        by (cases "i < 35") (auto simp: bit_push_bit_iff bit_and_iff bit_mask_iff)
    qed
  qed simp
  have m: "drop_bit 21 va AND mask 27 = (drop_bit 21 va AND mask 27) AND (mask 35 :: u64)"
    by (rule bit_word_eqI) (auto simp: bit_and_iff bit_mask_iff)
  have "mm_get_pde_address va = mm_get_pte_address (mm_get_pte_address va) \<longleftrightarrow>
      drop_bit 21 va AND mask 35 = drop_bit 21 va AND mask 27"
    unfolding mm_get_pde_address_def upper_addresses mask_35 add_left_cancel
    by (subst m, subst inj) (simp flip: m)
  also have "\<dots> \<longleftrightarrow> (\<forall>i\<in>{48..<56}. \<not> bit va i)"
  proof
    assume e: "drop_bit 21 va AND mask 35 = drop_bit 21 va AND mask 27"
    show "\<forall>i\<in>{48..<56}. \<not> bit va i"
    proof
      fix i assume i: "i \<in> {48..<56::nat}"
      have "bit (drop_bit 21 va AND mask 35) (i - 21) = bit (drop_bit 21 va AND mask 27) (i - 21)" by (simp only: e)
      then show "\<not> bit va i" using i by (auto simp: bit_and_iff bit_mask_iff bit_drop_bit_eq)
    qed
  next
    assume z: "\<forall>i\<in>{48..<56}. \<not> bit va i"
    show "drop_bit 21 va AND mask 35 = drop_bit 21 va AND mask 27"
    proof (rule bit_word_eqI)
      fix i assume "i < LENGTH(64)"
      show "bit (drop_bit 21 va AND mask 35) i = bit (drop_bit 21 va AND mask 27) i"
        using z by (cases "27 \<le> i") (auto simp: bit_and_iff bit_mask_iff bit_drop_bit_eq)
    qed
  qed
  finally show ?thesis .
qed

section \<open>Properties\<close>

lemma recursive_levels:
  assumes s: "self_mapped mem cr3"
  shows "walk_pt mem cr3 va = Some t \<Longrightarrow>
      page_translate mem cr3 (mm_get_pte_address va) = Some (t + push_bit 3 (mm_get_pte_index va))"
    and "walk_pd mem cr3 va = Some t \<Longrightarrow>
      page_translate mem cr3 (mm_get_pte_address (mm_get_pte_address va)) = Some (t + push_bit 3 (mm_get_pde_index va))"
    and "walk_pdpt mem cr3 va = Some t \<Longrightarrow>
      page_translate mem cr3 (mm_get_ppe_address va) = Some (t + push_bit 3 (mm_get_ppe_index va))"
    and "page_translate mem cr3 (mm_get_pxe_address va) = Some (cr3 + push_bit 3 (mm_get_pxe_index va))"
  using self_map_walk [OF s]
  by (simp_all add: upper_addresses(2,3) pte_indices)


definition sample_tables :: "u64 \<Rightarrow> u64" where
  "sample_tables a = (if a = 0x1F68 then 0x1003 else if a = 0x1000 then 0x2003 else if a = 0x2000 then 0x3003
     else if a = 0x3000 then 0x4003 else 0)"


text \<open>
  The address of a page directory entry is masked to 35 bits and not to 27: it is the
  address of the entry of the entry exactly where bits 48 to 55 of the address are clear, so
  for no canonical address of the upper half, the kernel's own.
\<close>

theorem pde_address_kernel:
  "(mm_get_pde_address va = mm_get_pte_address (mm_get_pte_address va) \<longleftrightarrow> (\<forall>i\<in>{48..<56}. \<not> bit va i)) \<and>
   (canonical va \<and> bit va 47 \<longrightarrow> mm_get_pde_address va \<noteq> mm_get_pte_address (mm_get_pte_address va))"
  using pde_address_iff [of va] by (auto simp: canonical_def dest!: bspec [of _ _ 48])

lemma pde_address_kernel_witness:
  "mm_get_pde_address 0xFFFF800000000000 \<noteq> mm_get_pte_address (mm_get_pte_address 0xFFFF800000000000)"
proof -
  have "canonical 0xFFFF800000000000 \<and> bit (0xFFFF800000000000 :: u64) 47" unfolding canonical_def by code_simp
  then show ?thesis using pde_address_kernel [of "0xFFFF800000000000"] by blast
qed

text \<open>
  C29. Indices and addresses determine one another: a canonical address is rebuilt from its
  indices, and indices within a table and an offset within a page from their address, which
  is canonical.
\<close>

theorem address_indices_round_trip:
  "(canonical a \<longrightarrow> to_address (from_address a) = a) \<and>
   (indices_ok x \<longrightarrow> canonical (to_address x) \<and> from_address (to_address x) = x)"
  using to_from_address from_to_address canonical_to_address by blast

lemma address_indices_round_trip_witness:
  "to_address (from_address 0xFFFFF80012345678) = 0xFFFFF80012345678 \<and>
   canonical (to_address \<lparr>pml4 = 493, pdpt = 1, pd = 2, pt = 3, offset = 4\<rparr>)"
proof -
  have "canonical 0xFFFFF80012345678" unfolding canonical_def by code_simp
  moreover have "indices_ok \<lparr>pml4 = 493, pdpt = 1, pd = 2, pt = 3, offset = 4\<rparr>" by (simp add: indices_ok_def)
  ultimately show ?thesis using address_indices_round_trip by blast
qed

end
