(* ===== verification/Pfn.thy ===== *)
theory Pfn
  imports Pte
begin

text \<open>
  The page frame number database (\<open>mm/pfn.rs\<close>): an entry for each physical page, the lists of
  zeroed, free, standby, modified and bad pages threaded through the entries, the counters, and
  the operations that move pages. The array of entries is a function of the index; an access is
  guarded by the bounds of the database wherever the source guards it. The contents of a page
  are its 4096 bytes; the direct map that \<open>mm_pfn_to_virtual\<close> uses gives every page frame its own
  addresses. The page table entries, at the addresses the recursive mapping gives them, are
  \<open>pte_words\<close>; \<open>hyper_bitmap\<close> holds the hyperspace slots of the processor, always the first.
  Counters wrap, as the atomic operations do.
\<close>

section \<open>Types of the memory manager (\<open>mm/types.rs\<close>)\<close>

definition PAGE_BYTES :: nat where "PAGE_BYTES = 4096"
definition PAGE_SHIFT :: nat where "PAGE_SHIFT = 12"
definition PAGE_MASK :: u64 where "PAGE_MASK = 4095"

definition page_align :: "u64 \<Rightarrow> u64" where "page_align a = a AND NOT PAGE_MASK"
definition page_align_up :: "u64 \<Rightarrow> u64" where "page_align_up a = (a + PAGE_MASK) AND NOT PAGE_MASK"
definition address_to_pfn :: "u64 \<Rightarrow> u64" where "address_to_pfn a = drop_bit PAGE_SHIFT a"
definition pfn_to_address :: "u64 \<Rightarrow> u64" where "pfn_to_address p = push_bit PAGE_SHIFT p"
definition bytes_to_pages :: "u64 \<Rightarrow> u64" where "bytes_to_pages n = drop_bit PAGE_SHIFT (n + PAGE_MASK)"
definition pages_to_bytes :: "u64 \<Rightarrow> u64" where "pages_to_bytes n = push_bit PAGE_SHIFT n"

section \<open>Lists and entries\<close>

datatype MMLISTS = ZeroedPageList | FreePageList | StandbyPageList | ModifiedPageList
  | ModifiedNoWritePageList | BadPageList | ActiveAndValid | TransitionPage

fun mmlists_code :: "MMLISTS \<Rightarrow> u8" where
  "mmlists_code ZeroedPageList = 0"
| "mmlists_code FreePageList = 1"
| "mmlists_code StandbyPageList = 2"
| "mmlists_code ModifiedPageList = 3"
| "mmlists_code ModifiedNoWritePageList = 4"
| "mmlists_code BadPageList = 5"
| "mmlists_code ActiveAndValid = 6"
| "mmlists_code TransitionPage = 7"

definition LIST_HEAD :: u64 where "LIST_HEAD = - 1"

record MMPFNLIST =
  pl_total :: u64
  pl_name :: MMLISTS
  pl_flink :: u64
  pl_blink :: u64

definition mmpfnlist_new :: "MMLISTS \<Rightarrow> MMPFNLIST" where
  "mmpfnlist_new n = \<lparr>pl_total = 0, pl_name = n, pl_flink = LIST_HEAD, pl_blink = LIST_HEAD\<rparr>"

definition mmpfnlist_is_empty :: "MMPFNLIST \<Rightarrow> bool" where "mmpfnlist_is_empty l \<longleftrightarrow> pl_total l = 0"
definition mmpfnlist_count :: "MMPFNLIST \<Rightarrow> u64" where "mmpfnlist_count = pl_total"

datatype PFN_FLAGS = WriteInProgress | ReadInProgress | Modified | ParityError | Rom | PrototypePte

fun pfn_flag_code :: "PFN_FLAGS \<Rightarrow> u8" where
  "pfn_flag_code WriteInProgress = 0x01"
| "pfn_flag_code ReadInProgress = 0x02"
| "pfn_flag_code Modified = 0x04"
| "pfn_flag_code ParityError = 0x08"
| "pfn_flag_code Rom = 0x10"
| "pfn_flag_code PrototypePte = 0x20"

record MMPFN =
  pf_flink :: u64
  pf_blink :: u64
  pf_pte :: u64
  pf_refs :: u16
  pf_flags :: u8
  pf_loc :: u8
  pf_orig :: u64
  pf_share :: u32
  pf_color :: u16

definition mmpfn_new :: MMPFN where
  "mmpfn_new = \<lparr>pf_flink = LIST_HEAD, pf_blink = LIST_HEAD, pf_pte = 0, pf_refs = 0, pf_flags = 0,
     pf_loc = mmlists_code FreePageList, pf_orig = 0, pf_share = 0, pf_color = 0\<rparr>"

definition mmpfn_is_free :: "MMPFN \<Rightarrow> bool" where
  "mmpfn_is_free e \<longleftrightarrow> pf_loc e = mmlists_code FreePageList \<or> pf_loc e = mmlists_code ZeroedPageList"

definition mmpfn_has_flag :: "PFN_FLAGS \<Rightarrow> MMPFN \<Rightarrow> bool" where
  "mmpfn_has_flag f e \<longleftrightarrow> pf_flags e AND pfn_flag_code f \<noteq> 0"

definition mmpfn_set_flag :: "PFN_FLAGS \<Rightarrow> MMPFN \<Rightarrow> MMPFN" where
  "mmpfn_set_flag f e = e\<lparr>pf_flags := pf_flags e OR pfn_flag_code f\<rparr>"

definition mmpfn_clear_flag :: "PFN_FLAGS \<Rightarrow> MMPFN \<Rightarrow> MMPFN" where
  "mmpfn_clear_flag f e = e\<lparr>pf_flags := pf_flags e AND NOT (pfn_flag_code f)\<rparr>"

definition saturating_inc :: "'a::len word \<Rightarrow> 'a word" where "saturating_inc w = (if w = - 1 then w else w + 1)"
definition saturating_dec :: "'a::len word \<Rightarrow> 'a word" where "saturating_dec w = (if w = 0 then w else w - 1)"

section \<open>The database and the global state\<close>

record PfnDatabase =
  db_entries :: "u64 \<Rightarrow> MMPFN"
  db_count :: u64
  db_start :: u64
  db_end :: u64

record MM =
  pfn_db :: PfnDatabase
  pfn_lists :: "MMLISTS \<Rightarrow> MMPFNLIST"
  available_pages :: u64
  modified_count :: u64
  standby_count :: u64
  page_bytes :: "u64 \<Rightarrow> u8 list"
  pte_words :: "u64 \<Rightarrow> u64"
  hyper_bitmap :: u64

definition pfn_database_init :: "u64 \<Rightarrow> u64 \<Rightarrow> PfnDatabase" where
  "pfn_database_init s e = \<lparr>db_entries = (\<lambda>_. mmpfn_new), db_count = e - s, db_start = s, db_end = e\<rparr>"

definition is_valid_pfn :: "PfnDatabase \<Rightarrow> u64 \<Rightarrow> bool" where
  "is_valid_pfn db p \<longleftrightarrow> db_start db \<le> p \<and> p < db_end db"

definition pfn_database_get :: "PfnDatabase \<Rightarrow> u64 \<Rightarrow> MMPFN option" where
  "pfn_database_get db p = (if is_valid_pfn db p then Some (db_entries db (p - db_start db)) else None)"

text \<open>What the source does through \<open>get_mut\<close>: a change of the entry when the frame is in bounds.\<close>

definition put_entry :: "u64 \<Rightarrow> (MMPFN \<Rightarrow> MMPFN) \<Rightarrow> MM \<Rightarrow> MM" where
  "put_entry p f s = (let db = pfn_db s; i = p - db_start db in
     s\<lparr>pfn_db := db\<lparr>db_entries := (db_entries db)(i := f (db_entries db i))\<rparr>\<rparr>)"

definition pfn_database_get_mut :: "u64 \<Rightarrow> (MMPFN \<Rightarrow> MMPFN) \<Rightarrow> MM \<Rightarrow> MM" where
  "pfn_database_get_mut p f s = (if is_valid_pfn (pfn_db s) p then put_entry p f s else s)"

definition get_pfn_entry_mut :: "u64 \<Rightarrow> (MMPFN \<Rightarrow> MMPFN) \<Rightarrow> MM \<Rightarrow> MM" where
  "get_pfn_entry_mut = pfn_database_get_mut"

definition get_pfn_entry :: "MM \<Rightarrow> u64 \<Rightarrow> MMPFN option" where
  "get_pfn_entry s p = pfn_database_get (pfn_db s) p"

definition put_list :: "MMLISTS \<Rightarrow> (MMPFNLIST \<Rightarrow> MMPFNLIST) \<Rightarrow> MM \<Rightarrow> MM" where
  "put_list l f s = s\<lparr>pfn_lists := (pfn_lists s)(l := f (pfn_lists s l))\<rparr>"

definition zero_page :: "u64 \<Rightarrow> MM \<Rightarrow> MM" where
  "zero_page p s = s\<lparr>page_bytes := (page_bytes s)(p := replicate PAGE_BYTES 0)\<rparr>"

definition mm_initial :: "PfnDatabase \<Rightarrow> (u64 \<Rightarrow> u8 list) \<Rightarrow> (u64 \<Rightarrow> u64) \<Rightarrow> MM" where
  "mm_initial db b w = \<lparr>pfn_db = db, pfn_lists = mmpfnlist_new, available_pages = 0, modified_count = 0,
     standby_count = 0, page_bytes = b, pte_words = w, hyper_bitmap = 0\<rparr>"

section \<open>List operations\<close>

definition counts_available :: "MMLISTS \<Rightarrow> bool" where
  "counts_available l \<longleftrightarrow> l = FreePageList \<or> l = ZeroedPageList"

definition link_old_head :: "MMLISTS \<Rightarrow> u64 \<Rightarrow> u64 \<Rightarrow> MM \<Rightarrow> MM" where
  "link_old_head l old p s =
    (if old \<noteq> LIST_HEAD then get_pfn_entry_mut old (\<lambda>e. e\<lparr>pf_blink := p\<rparr>) s
     else put_list l (\<lambda>h. h\<lparr>pl_blink := p\<rparr>) s)"

definition mi_insert_page_in_list :: "MMLISTS \<Rightarrow> u64 \<Rightarrow> MM \<Rightarrow> MM" where
  "mi_insert_page_in_list l p s =
    (if \<not> is_valid_pfn (pfn_db s) p then s
     else let name = pl_name (pfn_lists s l); old = pl_flink (pfn_lists s l);
              s = put_entry p (\<lambda>e. e\<lparr>pf_flink := old, pf_blink := LIST_HEAD, pf_loc := mmlists_code name\<rparr>) s;
              s = link_old_head l old p s;
              s = put_list l (\<lambda>h. h\<lparr>pl_flink := p, pl_total := pl_total h + 1\<rparr>) s
          in if counts_available name then s\<lparr>available_pages := available_pages s + 1\<rparr> else s)"

definition unlink_next :: "MMLISTS \<Rightarrow> u64 \<Rightarrow> u64 \<Rightarrow> MM \<Rightarrow> MM" where
  "unlink_next l next prev s =
    (if next \<noteq> LIST_HEAD then get_pfn_entry_mut next (\<lambda>e. e\<lparr>pf_blink := prev\<rparr>) s
     else put_list l (\<lambda>h. h\<lparr>pl_blink := prev\<rparr>) s)"

definition unlink_prev :: "MMLISTS \<Rightarrow> u64 \<Rightarrow> u64 \<Rightarrow> MM \<Rightarrow> MM" where
  "unlink_prev l next prev s =
    (if prev \<noteq> LIST_HEAD then get_pfn_entry_mut prev (\<lambda>e. e\<lparr>pf_flink := next\<rparr>) s
     else put_list l (\<lambda>h. h\<lparr>pl_flink := next\<rparr>) s)"

definition mi_remove_page_from_list :: "MMLISTS \<Rightarrow> u64 \<Rightarrow> MM \<Rightarrow> MM" where
  "mi_remove_page_from_list l p s =
    (case get_pfn_entry s p of None \<Rightarrow> s
     | Some e \<Rightarrow>
         (let name = pl_name (pfn_lists s l);
              s = unlink_next l (pf_flink e) (pf_blink e) s;
              s = unlink_prev l (pf_flink e) (pf_blink e) s;
              s = put_entry p (\<lambda>e. e\<lparr>pf_flink := LIST_HEAD, pf_blink := LIST_HEAD\<rparr>) s;
              s = put_list l (\<lambda>h. h\<lparr>pl_total := pl_total h - 1\<rparr>) s
          in if counts_available name then s\<lparr>available_pages := available_pages s - 1\<rparr> else s))"

definition mi_remove_any_page :: "MMLISTS \<Rightarrow> MM \<Rightarrow> u64 option \<times> MM" where
  "mi_remove_any_page l s = (let head = pl_flink (pfn_lists s l) in
     if head = LIST_HEAD then (None, s) else (Some head, mi_remove_page_from_list l head s))"

definition mi_remove_zero_page :: "MM \<Rightarrow> u64 option \<times> MM" where
  "mi_remove_zero_page = mi_remove_any_page ZeroedPageList"

definition mi_remove_free_page :: "MM \<Rightarrow> u64 option \<times> MM" where
  "mi_remove_free_page = mi_remove_any_page FreePageList"

section \<open>Allocation\<close>

definition make_active :: "MMPFN \<Rightarrow> MMPFN" where
  "make_active e = e\<lparr>pf_loc := mmlists_code ActiveAndValid, pf_refs := 1\<rparr>"

definition mi_allocate_pfn :: "MM \<Rightarrow> u64 option \<times> MM" where
  "mi_allocate_pfn s =
    (case mi_remove_zero_page s of
       (Some p, s) \<Rightarrow> (Some p, get_pfn_entry_mut p make_active s)
     | (None, s) \<Rightarrow>
         (case mi_remove_free_page s of
            (Some p, s) \<Rightarrow> (Some p, get_pfn_entry_mut p make_active (zero_page p s))
          | (None, s) \<Rightarrow> (None, s)))"

definition mi_allocate_pfn_for_zero_page :: "MM \<Rightarrow> u64 option \<times> MM" where
  "mi_allocate_pfn_for_zero_page = mi_remove_any_page FreePageList"

definition mi_free_pfn :: "u64 \<Rightarrow> MM \<Rightarrow> MM" where
  "mi_free_pfn p s = mi_insert_page_in_list FreePageList p
     (get_pfn_entry_mut p (\<lambda>e. e\<lparr>pf_refs := 0, pf_share := 0, pf_pte := 0\<rparr>) s)"

definition mi_insert_zeroed_page :: "u64 \<Rightarrow> MM \<Rightarrow> MM" where
  "mi_insert_zeroed_page = mi_insert_page_in_list ZeroedPageList"

section \<open>Standby and modified pages\<close>

definition mi_insert_page_in_standby_list :: "u64 \<Rightarrow> MM \<Rightarrow> MM" where
  "mi_insert_page_in_standby_list p s =
    (let s = get_pfn_entry_mut p (\<lambda>e. mmpfn_clear_flag Modified (e\<lparr>pf_loc := mmlists_code StandbyPageList\<rparr>)) s;
         s = mi_insert_page_in_list StandbyPageList p s
     in s\<lparr>standby_count := standby_count s + 1\<rparr>)"

definition mi_insert_page_in_modified_list :: "u64 \<Rightarrow> MM \<Rightarrow> MM" where
  "mi_insert_page_in_modified_list p s =
    (let s = get_pfn_entry_mut p (\<lambda>e. mmpfn_set_flag Modified (e\<lparr>pf_loc := mmlists_code ModifiedPageList\<rparr>)) s;
         s = mi_insert_page_in_list ModifiedPageList p s
     in s\<lparr>modified_count := modified_count s + 1\<rparr>)"

definition mi_remove_page_from_standby_list :: "u64 \<Rightarrow> MM \<Rightarrow> MM" where
  "mi_remove_page_from_standby_list p s =
    (let s = mi_remove_page_from_list StandbyPageList p s in s\<lparr>standby_count := standby_count s - 1\<rparr>)"

definition mi_remove_page_from_modified_list :: "u64 \<Rightarrow> MM \<Rightarrow> MM" where
  "mi_remove_page_from_modified_list p s =
    (let s = mi_remove_page_from_list ModifiedPageList p s in s\<lparr>modified_count := modified_count s - 1\<rparr>)"

definition mi_unlink_page_from_list :: "u64 \<Rightarrow> MM \<Rightarrow> MM" where
  "mi_unlink_page_from_list p s =
    (case get_pfn_entry s p of None \<Rightarrow> s
     | Some e \<Rightarrow>
         if pf_loc e = mmlists_code ZeroedPageList then mi_remove_page_from_list ZeroedPageList p s
         else if pf_loc e = mmlists_code FreePageList then mi_remove_page_from_list FreePageList p s
         else if pf_loc e = mmlists_code StandbyPageList
         then mi_remove_page_from_list StandbyPageList p (s\<lparr>standby_count := standby_count s - 1\<rparr>)
         else if pf_loc e = mmlists_code ModifiedPageList
         then mi_remove_page_from_list ModifiedPageList p (s\<lparr>modified_count := modified_count s - 1\<rparr>)
         else if pf_loc e = mmlists_code BadPageList then mi_remove_page_from_list BadPageList p s
         else s)"

definition forget_transition :: "u64 \<Rightarrow> MM \<Rightarrow> MM" where
  "forget_transition p s =
    (case get_pfn_entry s p of None \<Rightarrow> s
     | Some e \<Rightarrow>
         (let s = (if pf_pte e \<noteq> 0 then s\<lparr>pte_words := (pte_words s)(pf_pte e := 0)\<rparr> else s)
          in put_entry p (\<lambda>e. (make_active e)\<lparr>pf_pte := 0, pf_orig := 0\<rparr>) s))"

definition mi_repurpose_standby_page :: "MM \<Rightarrow> u64 option \<times> MM" where
  "mi_repurpose_standby_page s =
    (case mi_remove_any_page StandbyPageList s of
       (None, s) \<Rightarrow> (None, s)
     | (Some p, s) \<Rightarrow> (Some p, forget_transition p (s\<lparr>standby_count := standby_count s - 1\<rparr>)))"

definition mi_allocate_pfn_ex :: "MM \<Rightarrow> u64 option \<times> MM" where
  "mi_allocate_pfn_ex s =
    (case mi_remove_zero_page s of
       (Some p, s) \<Rightarrow> (Some p, get_pfn_entry_mut p make_active s)
     | (None, s) \<Rightarrow>
         (case mi_remove_free_page s of
            (Some p, s) \<Rightarrow> (Some p, get_pfn_entry_mut p make_active (zero_page p s))
          | (None, s) \<Rightarrow>
              (case mi_repurpose_standby_page s of
                 (Some p, s) \<Rightarrow> (Some p, zero_page p s)
               | (None, s) \<Rightarrow> (None, s))))"

definition mi_get_modified_page_for_write :: "MM \<Rightarrow> (u64 \<times> u64 \<times> u64) option \<times> MM" where
  "mi_get_modified_page_for_write s = (let p = pl_flink (pfn_lists s ModifiedPageList) in
     if p = LIST_HEAD then (None, s)
     else case get_pfn_entry s p of None \<Rightarrow> (None, s)
       | Some e \<Rightarrow> (Some (p, pf_orig e, pf_pte e), get_pfn_entry_mut p (mmpfn_set_flag WriteInProgress) s))"

definition mi_complete_modified_page_write :: "u64 \<Rightarrow> bool \<Rightarrow> MM \<Rightarrow> MM" where
  "mi_complete_modified_page_write p success s =
    (let s = mi_remove_page_from_modified_list p s;
         s = get_pfn_entry_mut p (\<lambda>e. mmpfn_clear_flag Modified (mmpfn_clear_flag WriteInProgress e)) s
     in if success then mi_insert_page_in_standby_list p s else mi_insert_page_in_modified_list p s)"

definition MM_MODIFIED_PAGE_WRITER_THRESHOLD :: u64 where "MM_MODIFIED_PAGE_WRITER_THRESHOLD = 64"

definition mm_should_write_modified_pages :: "MM \<Rightarrow> bool" where
  "mm_should_write_modified_pages s \<longleftrightarrow> MM_MODIFIED_PAGE_WRITER_THRESHOLD \<le> modified_count s"

definition mi_make_transition_page :: "u64 \<Rightarrow> bool \<Rightarrow> MM \<Rightarrow> MM" where
  "mi_make_transition_page p is_dirty s =
    (if is_dirty then mi_insert_page_in_modified_list p s else mi_insert_page_in_standby_list p s)"

definition mi_resolve_transition_page :: "u64 \<Rightarrow> MM \<Rightarrow> MM" where
  "mi_resolve_transition_page p s =
    get_pfn_entry_mut p (\<lambda>e. e\<lparr>pf_loc := mmlists_code ActiveAndValid, pf_refs := saturating_inc (pf_refs e)\<rparr>)
      (mi_unlink_page_from_list p s)"

section \<open>Reference counts\<close>

definition mi_reference_pfn :: "u64 \<Rightarrow> MM \<Rightarrow> MM" where
  "mi_reference_pfn p = get_pfn_entry_mut p (\<lambda>e. e\<lparr>pf_refs := saturating_inc (pf_refs e)\<rparr>)"

definition mi_dereference_pfn :: "u64 \<Rightarrow> MM \<Rightarrow> bool \<times> MM" where
  "mi_dereference_pfn p s =
    (let s' = get_pfn_entry_mut p (\<lambda>e. e\<lparr>pf_refs := saturating_dec (pf_refs e)\<rparr>) s in
     case get_pfn_entry s' p of None \<Rightarrow> (False, s')
     | Some e \<Rightarrow> if pf_refs e = 0 \<and> pf_share e = 0 then (True, mi_free_pfn p s') else (False, s'))"

definition mi_increment_share_count :: "u64 \<Rightarrow> MM \<Rightarrow> MM" where
  "mi_increment_share_count p = get_pfn_entry_mut p (\<lambda>e. e\<lparr>pf_share := saturating_inc (pf_share e)\<rparr>)"

definition mi_decrement_share_count :: "u64 \<Rightarrow> MM \<Rightarrow> MM" where
  "mi_decrement_share_count p = get_pfn_entry_mut p (\<lambda>e. e\<lparr>pf_share := saturating_dec (pf_share e)\<rparr>)"

section \<open>Queries\<close>

definition mm_get_available_pages :: "MM \<Rightarrow> u64" where "mm_get_available_pages = available_pages"
definition mm_get_zeroed_page_count :: "MM \<Rightarrow> u64" where
  "mm_get_zeroed_page_count s = mmpfnlist_count (pfn_lists s ZeroedPageList)"
definition mm_get_free_page_count :: "MM \<Rightarrow> u64" where
  "mm_get_free_page_count s = mmpfnlist_count (pfn_lists s FreePageList)"
definition mm_get_modified_page_count :: "MM \<Rightarrow> u64" where "mm_get_modified_page_count = modified_count"
definition mm_get_standby_page_count :: "MM \<Rightarrow> u64" where "mm_get_standby_page_count = standby_count"

end
