(* ===== verification/PfnSpec.thy ===== *)
theory PfnSpec
  imports Pfn
begin

text \<open>
  What the lists of the frame database mean: a list of frames for each of them, chained through
  the entries in both directions, counted in its header, and marked in every entry's location.
  Insertion and removal refine consing and \<open>remove1\<close> on these lists, and leave everything but the links,
  the headers and the count of available pages alone.
\<close>

named_theorems mm_fields \<open>fields of the state after a store\<close>

definition ent :: "MM \<Rightarrow> u64 \<Rightarrow> MMPFN" where
  "ent s p = db_entries (pfn_db s) (p - db_start (pfn_db s))"

definition bounds :: "MM \<Rightarrow> u64 \<times> u64" where "bounds s = (db_start (pfn_db s), db_end (pfn_db s))"

definition in_db :: "MM \<Rightarrow> u64 \<Rightarrow> bool" where "in_db s p = is_valid_pfn (pfn_db s) p"

lemma in_db_bounds: "bounds s = bounds s' \<Longrightarrow> in_db s = in_db s'"
  by (simp add: bounds_def in_db_def is_valid_pfn_def fun_eq_iff)

lemma in_db_not_head: "in_db s p \<Longrightarrow> p \<noteq> LIST_HEAD"
  using unat_lt_64 [of "db_end (pfn_db s)"] by (auto simp: in_db_def is_valid_pfn_def LIST_HEAD_def word_less_nat_alt simp del: unat_lt_64)

lemma put_entry_fields [mm_fields]:
  "pfn_lists (put_entry p f s) = pfn_lists s" "available_pages (put_entry p f s) = available_pages s"
  "modified_count (put_entry p f s) = modified_count s" "standby_count (put_entry p f s) = standby_count s"
  "page_bytes (put_entry p f s) = page_bytes s" "pte_words (put_entry p f s) = pte_words s" "hyper_bitmap (put_entry p f s) = hyper_bitmap s"
  "bounds (put_entry p f s) = bounds s" "in_db (put_entry p f s) = in_db s"
  "ent (put_entry p f s) q = (if q = p then f (ent s p) else ent s q)"
  by (auto simp: put_entry_def Let_def bounds_def in_db_def is_valid_pfn_def fun_eq_iff ent_def)

lemma put_list_fields [mm_fields]:
  "pfn_lists (put_list l f s) = (pfn_lists s)(l := f (pfn_lists s l))"
  "available_pages (put_list l f s) = available_pages s"
  "modified_count (put_list l f s) = modified_count s" "standby_count (put_list l f s) = standby_count s"
  "page_bytes (put_list l f s) = page_bytes s" "pte_words (put_list l f s) = pte_words s" "hyper_bitmap (put_list l f s) = hyper_bitmap s"
  "bounds (put_list l f s) = bounds s" "in_db (put_list l f s) = in_db s" "ent (put_list l f s) = ent s"
  by (auto simp: put_list_def bounds_def in_db_def fun_eq_iff ent_def)

lemma update_fields [mm_fields]:
  "bounds (s\<lparr>available_pages := n\<rparr>) = bounds s" "in_db (s\<lparr>available_pages := n\<rparr>) = in_db s"
  "ent (s\<lparr>available_pages := n\<rparr>) = ent s"
  "bounds (s\<lparr>standby_count := n\<rparr>) = bounds s" "in_db (s\<lparr>standby_count := n\<rparr>) = in_db s"
  "ent (s\<lparr>standby_count := n\<rparr>) = ent s"
  "bounds (s\<lparr>modified_count := n\<rparr>) = bounds s" "in_db (s\<lparr>modified_count := n\<rparr>) = in_db s"
  "ent (s\<lparr>modified_count := n\<rparr>) = ent s"
  "bounds (s\<lparr>page_bytes := b\<rparr>) = bounds s" "in_db (s\<lparr>page_bytes := b\<rparr>) = in_db s"
  "ent (s\<lparr>page_bytes := b\<rparr>) = ent s"
  "bounds (s\<lparr>pte_words := w\<rparr>) = bounds s" "in_db (s\<lparr>pte_words := w\<rparr>) = in_db s"
  "ent (s\<lparr>pte_words := w\<rparr>) = ent s"
  "bounds (s\<lparr>hyper_bitmap := n\<rparr>) = bounds s" "in_db (s\<lparr>hyper_bitmap := n\<rparr>) = in_db s"
  "ent (s\<lparr>hyper_bitmap := n\<rparr>) = ent s"
  by (auto simp: bounds_def in_db_def fun_eq_iff ent_def)

lemma zero_page_fields [mm_fields]:
  "pfn_lists (zero_page p s) = pfn_lists s" "available_pages (zero_page p s) = available_pages s"
  "modified_count (zero_page p s) = modified_count s" "standby_count (zero_page p s) = standby_count s"
  "page_bytes (zero_page p s) = (page_bytes s)(p := replicate PAGE_BYTES 0)" "pte_words (zero_page p s) = pte_words s" "hyper_bitmap (zero_page p s) = hyper_bitmap s"
  "bounds (zero_page p s) = bounds s" "in_db (zero_page p s) = in_db s" "ent (zero_page p s) = ent s"
  by (simp_all add: zero_page_def mm_fields)

lemma get_mut: "get_pfn_entry_mut p f s = (if in_db s p then put_entry p f s else s)"
  by (simp add: get_pfn_entry_mut_def pfn_database_get_mut_def in_db_def)

lemma get_entry: "get_pfn_entry s p = (if in_db s p then Some (ent s p) else None)"
  by (simp add: get_pfn_entry_def pfn_database_get_def in_db_def ent_def)

lemma get_mut_fields [mm_fields]:
  "pfn_lists (get_pfn_entry_mut p f s) = pfn_lists s" "available_pages (get_pfn_entry_mut p f s) = available_pages s"
  "modified_count (get_pfn_entry_mut p f s) = modified_count s" "standby_count (get_pfn_entry_mut p f s) = standby_count s"
  "page_bytes (get_pfn_entry_mut p f s) = page_bytes s" "pte_words (get_pfn_entry_mut p f s) = pte_words s" "hyper_bitmap (get_pfn_entry_mut p f s) = hyper_bitmap s"
  "bounds (get_pfn_entry_mut p f s) = bounds s" "in_db (get_pfn_entry_mut p f s) = in_db s"
  "ent (get_pfn_entry_mut p f s) q = (if q = p \<and> in_db s p then f (ent s p) else ent s q)"
  by (simp_all add: get_mut mm_fields)

section \<open>Chains\<close>

definition hd_or :: "'a \<Rightarrow> 'a list \<Rightarrow> 'a" where "hd_or d xs = (case xs of [] \<Rightarrow> d | x # _ \<Rightarrow> x)"
definition last_or :: "'a \<Rightarrow> 'a list \<Rightarrow> 'a" where "last_or d xs = (if xs = [] then d else last xs)"

lemma hd_or_simps [simp]: "hd_or d [] = d" "hd_or d (x # xs) = x"
  by (simp_all add: hd_or_def)

lemma last_or_simps [simp]: "last_or d [] = d" "last_or d (x # xs) = last_or x xs" "last_or d (xs @ [x]) = x"
  by (auto simp: last_or_def)

lemma hd_or_append: "hd_or d (xs @ ys) = hd_or (hd_or d ys) xs"
  by (cases xs) auto

lemma last_or_append: "last_or d (xs @ ys) = last_or (last_or d xs) ys"
  by (auto simp: last_or_def)

lemma hd_or_mem: "hd_or d xs = d \<or> hd_or d xs \<in> set xs"
  by (cases xs) auto

lemma last_or_mem: "last_or d xs = d \<or> last_or d xs \<in> set xs"
  by (auto simp: last_or_def)

fun chain :: "(u64 \<Rightarrow> MMPFN) \<Rightarrow> u64 \<Rightarrow> u64 list \<Rightarrow> u64 \<Rightarrow> bool" where
  "chain E prev [] nxt \<longleftrightarrow> True"
| "chain E prev (p # ps) nxt \<longleftrightarrow> pf_blink (E p) = prev \<and> pf_flink (E p) = hd_or nxt ps \<and> chain E p ps nxt"

lemma chain_append: "chain E prev (xs @ ys) nxt \<longleftrightarrow> chain E prev xs (hd_or nxt ys) \<and> chain E (last_or prev xs) ys nxt"
  by (induction xs arbitrary: prev) (auto simp: hd_or_append)

lemma chain_cong:
  assumes "\<And>p. p \<in> set xs \<Longrightarrow> pf_blink (E p) = pf_blink (E' p) \<and> pf_flink (E p) = pf_flink (E' p)"
  shows "chain E prev xs nxt = chain E' prev xs nxt"
  using assms by (induction xs arbitrary: prev) auto

lemma chain_relink_hd:
  assumes "chain E q (x # xs) nxt" and "x \<notin> set xs" and "\<And>p. p \<in> set xs \<Longrightarrow> E' p = E p"
    and "pf_blink (E' x) = r" and "pf_flink (E' x) = pf_flink (E x)"
  shows "chain E' r (x # xs) nxt"
  using assms chain_cong [of xs E' E x nxt] by simp

lemma chain_relink_last:
  assumes "chain E prev (xs @ [x]) q" and "x \<notin> set xs" and "\<And>p. p \<in> set xs \<Longrightarrow> E' p = E p"
    and "pf_flink (E' x) = r" and "pf_blink (E' x) = pf_blink (E x)"
  shows "chain E' prev (xs @ [x]) r"
  using assms chain_cong [of xs E' E prev x] by (simp add: chain_append)

section \<open>Representation\<close>

definition list_rep :: "MM \<Rightarrow> MMLISTS \<Rightarrow> u64 list \<Rightarrow> bool" where
  "list_rep s l xs \<longleftrightarrow> distinct xs \<and> (\<forall>p\<in>set xs. in_db s p \<and> pf_loc (ent s p) = mmlists_code l) \<and>
     chain (ent s) LIST_HEAD xs LIST_HEAD \<and>
     pfn_lists s l = \<lparr>pl_total = of_nat (length xs), pl_name = l, pl_flink = hd_or LIST_HEAD xs, pl_blink = last_or LIST_HEAD xs\<rparr>"

type_synonym frame_lists = "MMLISTS \<Rightarrow> u64 list"

definition reps :: "MM \<Rightarrow> frame_lists \<Rightarrow> bool" where
  "reps s a \<longleftrightarrow> (\<forall>l. list_rep s l (a l)) \<and>
     available_pages s = of_nat (length (a ZeroedPageList) + length (a FreePageList))"

definition off_lists :: "u64 \<Rightarrow> frame_lists \<Rightarrow> bool" where
  "off_lists p a \<longleftrightarrow> (\<forall>l. p \<notin> set (a l))"

lemma mmlists_code_inj: "mmlists_code l = mmlists_code l' \<longleftrightarrow> l = l'"
  by (cases l; cases l') simp_all

lemma reps_rep: "reps s a \<Longrightarrow> list_rep s l (a l)"
  by (simp add: reps_def)

lemma rep_loc: "reps s a \<Longrightarrow> p \<in> set (a l) \<Longrightarrow> pf_loc (ent s p) = mmlists_code l"
  and rep_in_db: "reps s a \<Longrightarrow> p \<in> set (a l) \<Longrightarrow> in_db s p"
  and rep_distinct: "reps s a \<Longrightarrow> distinct (a l)"
  and rep_flink: "reps s a \<Longrightarrow> pl_flink (pfn_lists s l) = hd_or LIST_HEAD (a l)"
  and rep_name: "reps s a \<Longrightarrow> pl_name (pfn_lists s l) = l"
  and rep_total: "reps s a \<Longrightarrow> pl_total (pfn_lists s l) = of_nat (length (a l))"
  using reps_rep [of s a l] by (auto simp: list_rep_def)

lemma rep_disjoint: "reps s a \<Longrightarrow> p \<in> set (a l) \<Longrightarrow> p \<in> set (a l') \<Longrightarrow> l = l'"
  using rep_loc [of s a p l] rep_loc [of s a p l'] by (simp add: mmlists_code_inj)

lemma rep_hd: "reps s a \<Longrightarrow> hd_or LIST_HEAD (a l) = LIST_HEAD \<longleftrightarrow> a l = []"
  using rep_in_db [of s a _ l] in_db_not_head by (cases "a l") auto

lemma list_rep_cong:
  assumes "list_rep s l xs" and "pfn_lists s' l = pfn_lists s l" and "in_db s' = in_db s"
    and "\<And>p. p \<in> set xs \<Longrightarrow> pf_blink (ent s' p) = pf_blink (ent s p) \<and> pf_flink (ent s' p) = pf_flink (ent s p) \<and>
      pf_loc (ent s' p) = pf_loc (ent s p)"
  shows "list_rep s' l xs"
  using assms chain_cong [of xs "ent s'" "ent s"] by (simp add: list_rep_def)

section \<open>Insertion\<close>

lemma insert_ent:
  assumes "in_db s p" and "pl_flink (pfn_lists s l) \<noteq> p"
  shows "ent (mi_insert_page_in_list l p s) q =
    (if q = p then (ent s p)\<lparr>pf_flink := pl_flink (pfn_lists s l), pf_blink := LIST_HEAD,
        pf_loc := mmlists_code (pl_name (pfn_lists s l))\<rparr>
     else if q = pl_flink (pfn_lists s l) \<and> q \<noteq> LIST_HEAD \<and> in_db s q then (ent s q)\<lparr>pf_blink := p\<rparr> else ent s q)"
  using assms
  by (auto simp: mi_insert_page_in_list_def Let_def mm_fields link_old_head_def get_mut in_db_not_head simp flip: in_db_def)

lemma insert_lists:
  assumes "in_db s p"
  shows "pfn_lists (mi_insert_page_in_list l p s) = (pfn_lists s)(l := (pfn_lists s l)\<lparr>pl_flink := p,
     pl_total := pl_total (pfn_lists s l) + 1,
     pl_blink := (if pl_flink (pfn_lists s l) = LIST_HEAD then p else pl_blink (pfn_lists s l))\<rparr>)"
  using assms
  by (auto simp: mi_insert_page_in_list_def Let_def mm_fields link_old_head_def get_mut fun_eq_iff simp flip: in_db_def)

lemma insert_fields [mm_fields]:
  "modified_count (mi_insert_page_in_list l p s) = modified_count s"
  "standby_count (mi_insert_page_in_list l p s) = standby_count s"
  "page_bytes (mi_insert_page_in_list l p s) = page_bytes s" "pte_words (mi_insert_page_in_list l p s) = pte_words s" "hyper_bitmap (mi_insert_page_in_list l p s) = hyper_bitmap s"
  "bounds (mi_insert_page_in_list l p s) = bounds s" "in_db (mi_insert_page_in_list l p s) = in_db s"
  "available_pages (mi_insert_page_in_list l p s) =
     (if in_db s p \<and> counts_available (pl_name (pfn_lists s l)) then available_pages s + 1 else available_pages s)"
  by (simp_all add: mi_insert_page_in_list_def Let_def mm_fields link_old_head_def get_mut flip: in_db_def)

lemma insert_keeps [mm_fields]:
  "pf_refs (ent (mi_insert_page_in_list l p s) q) = pf_refs (ent s q)"
  "pf_share (ent (mi_insert_page_in_list l p s) q) = pf_share (ent s q)"
  "pf_pte (ent (mi_insert_page_in_list l p s) q) = pf_pte (ent s q)"
  "pf_orig (ent (mi_insert_page_in_list l p s) q) = pf_orig (ent s q)"
  "pf_flags (ent (mi_insert_page_in_list l p s) q) = pf_flags (ent s q)"
  by (simp_all add: mi_insert_page_in_list_def Let_def mm_fields link_old_head_def get_mut flip: in_db_def)

lemma insert_reps:
  assumes r: "reps s a" and v: "in_db s p" and off: "off_lists p a"
  shows "reps (mi_insert_page_in_list l p s) (a(l := p # a l))"
proof -
  let ?t = "mi_insert_page_in_list l p s"
  note h = rep_flink [OF r, of l] and n = rep_name [OF r, of l]
  have np: "p \<notin> set (a k)" for k using off by (simp add: off_lists_def)
  have ph: "p \<noteq> LIST_HEAD" by (rule in_db_not_head [OF v])
  then have nf: "pl_flink (pfn_lists s l) \<noteq> p" using h np [of l] hd_or_mem [of LIST_HEAD "a l"] by auto
  note e = insert_ent [OF v nf] and ls = insert_lists [OF v]
  have "list_rep ?t k (a k)" if "k \<noteq> l" for k
  proof (rule list_rep_cong [OF reps_rep [OF r, of k]])
    show "pfn_lists ?t k = pfn_lists s k" using that by (simp add: ls)
    show "in_db ?t = in_db s" by (simp add: mm_fields)
    fix q assume q: "q \<in> set (a k)"
    have "q \<noteq> p" using np q by auto
    moreover have "q \<noteq> pl_flink (pfn_lists s l) \<or> q = LIST_HEAD"
      using rep_disjoint [OF r q, of l] that h hd_or_mem [of LIST_HEAD "a l"] by auto
    ultimately show "pf_blink (ent ?t q) = pf_blink (ent s q) \<and> pf_flink (ent ?t q) = pf_flink (ent s q) \<and>
      pf_loc (ent ?t q) = pf_loc (ent s q)" by (auto simp: e)
  qed
  moreover have "list_rep ?t l (p # a l)"
  proof -
    note R = reps_rep [OF r, of l, unfolded list_rep_def]
    have "chain (ent ?t) LIST_HEAD (p # a l) LIST_HEAD"
    proof (cases "a l")
      case Nil
      then show ?thesis by (simp add: e h)
    next
      case (Cons x xs)
      have x: "x \<noteq> LIST_HEAD" "x \<noteq> p" "in_db s x" using Cons rep_in_db [OF r, of x l] in_db_not_head np [of l] by auto
      have "chain (ent ?t) p (x # xs) LIST_HEAD"
      proof (rule chain_relink_hd)
        show "chain (ent s) LIST_HEAD (x # xs) LIST_HEAD" "x \<notin> set xs" using R Cons by auto
        show "ent ?t q = ent s q" if "q \<in> set xs" for q using that R np [of l] Cons by (auto simp: e h)
      qed (use x in \<open>simp_all add: e h Cons\<close>)
      then show ?thesis using Cons x by (simp add: e h)
    qed
    then show ?thesis
      using R np [of l] v hd_or_mem [of LIST_HEAD "a l"] rep_hd [OF r, of l]
      by (cases "a l") (auto simp: list_rep_def e ls h mm_fields last_or_def)
  qed
  moreover have "available_pages ?t = of_nat (length ((a(l := p # a l)) ZeroedPageList) + length ((a(l := p # a l)) FreePageList))"
    using r v by (auto simp: mm_fields n counts_available_def reps_def)
  ultimately show ?thesis by (simp add: reps_def)
qed

section \<open>Removal\<close>

lemma remove_out [simp]: "\<not> in_db s p \<Longrightarrow> mi_remove_page_from_list l p s = s"
  by (simp add: mi_remove_page_from_list_def get_entry)

lemma remove_ent:
  assumes "in_db s p" and "n = pf_flink (ent s p)" and "v = pf_blink (ent s p)"
    and "n \<noteq> p" and "v \<noteq> p" and "n = v \<Longrightarrow> n = LIST_HEAD"
  shows "ent (mi_remove_page_from_list l p s) q =
    (if q = p then (ent s p)\<lparr>pf_flink := LIST_HEAD, pf_blink := LIST_HEAD\<rparr>
     else if q = n \<and> n \<noteq> LIST_HEAD \<and> in_db s n then (ent s n)\<lparr>pf_blink := v\<rparr>
     else if q = v \<and> v \<noteq> LIST_HEAD \<and> in_db s v then (ent s v)\<lparr>pf_flink := n\<rparr> else ent s q)"
  using assms
  by (auto simp: mi_remove_page_from_list_def get_entry Let_def mm_fields unlink_next_def unlink_prev_def)

lemma remove_lists:
  assumes "in_db s p" and "n = pf_flink (ent s p)" and "v = pf_blink (ent s p)"
  shows "pfn_lists (mi_remove_page_from_list l p s) = (pfn_lists s)(l := (pfn_lists s l)\<lparr>
     pl_total := pl_total (pfn_lists s l) - 1,
     pl_flink := (if v = LIST_HEAD then n else pl_flink (pfn_lists s l)),
     pl_blink := (if n = LIST_HEAD then v else pl_blink (pfn_lists s l))\<rparr>)"
  using assms
  by (auto simp: mi_remove_page_from_list_def get_entry Let_def mm_fields unlink_next_def unlink_prev_def fun_eq_iff)

lemma remove_fields [mm_fields]:
  "modified_count (mi_remove_page_from_list l p s) = modified_count s"
  "standby_count (mi_remove_page_from_list l p s) = standby_count s"
  "page_bytes (mi_remove_page_from_list l p s) = page_bytes s" "pte_words (mi_remove_page_from_list l p s) = pte_words s" "hyper_bitmap (mi_remove_page_from_list l p s) = hyper_bitmap s"
  "bounds (mi_remove_page_from_list l p s) = bounds s" "in_db (mi_remove_page_from_list l p s) = in_db s"
  "available_pages (mi_remove_page_from_list l p s) =
     (if in_db s p \<and> counts_available (pl_name (pfn_lists s l)) then available_pages s - 1 else available_pages s)"
  by (cases "in_db s p"; simp add: mi_remove_page_from_list_def get_entry Let_def mm_fields unlink_next_def unlink_prev_def)+

lemma remove_keeps [mm_fields]:
  "pf_refs (ent (mi_remove_page_from_list l p s) q) = pf_refs (ent s q)"
  "pf_share (ent (mi_remove_page_from_list l p s) q) = pf_share (ent s q)"
  "pf_pte (ent (mi_remove_page_from_list l p s) q) = pf_pte (ent s q)"
  "pf_orig (ent (mi_remove_page_from_list l p s) q) = pf_orig (ent s q)"
  "pf_flags (ent (mi_remove_page_from_list l p s) q) = pf_flags (ent s q)"
  "pf_loc (ent (mi_remove_page_from_list l p s) q) = pf_loc (ent s q)"
  by (cases "in_db s p"; simp add: mi_remove_page_from_list_def get_entry Let_def mm_fields unlink_next_def unlink_prev_def)+

lemma remove_reps:
  assumes r: "reps s a" and m: "p \<in> set (a l)"
  shows "reps (mi_remove_page_from_list l p s) (a(l := remove1 p (a l)))"
proof -
  let ?t = "mi_remove_page_from_list l p s"
  obtain as bs where al: "a l = as @ p # bs" using m by (meson split_list)
  note v = rep_in_db [OF r m] and R = reps_rep [OF r, of l, unfolded list_rep_def al]
  have d: "p \<notin> set as" "p \<notin> set bs" "set as \<inter> set bs = {}" "distinct as" "distinct bs" using R by auto
  have ne: "\<And>q. q \<in> set (a l) \<Longrightarrow> q \<noteq> LIST_HEAD" using rep_in_db [OF r] in_db_not_head by blast
  define n where "n = hd_or LIST_HEAD bs"
  define w where "w = last_or LIST_HEAD as"
  have f: "n = pf_flink (ent s p)" "w = pf_blink (ent s p)" using R by (auto simp: chain_append n_def w_def)
  have n: "n = LIST_HEAD \<or> n \<in> set bs" and w: "w = LIST_HEAD \<or> w \<in> set as"
    using hd_or_mem [of LIST_HEAD bs] last_or_mem [of LIST_HEAD as] by (auto simp: n_def w_def)
  have c: "n \<noteq> p" "w \<noteq> p" "n = w \<Longrightarrow> n = LIST_HEAD" using n w d ne [of p] al by auto
  note e = remove_ent [OF v f c, of l] and ls = remove_lists [OF v f, of l]
  have mem: "n \<noteq> LIST_HEAD \<Longrightarrow> n \<in> set (a l)" "w \<noteq> LIST_HEAD \<Longrightarrow> w \<in> set (a l)" using n w al by auto
  have idb: "n \<noteq> LIST_HEAD \<Longrightarrow> in_db s n" "w \<noteq> LIST_HEAD \<Longrightarrow> in_db s w" using mem rep_in_db [OF r] by auto
  have "list_rep ?t k (a k)" if "k \<noteq> l" for k
  proof (rule list_rep_cong [OF reps_rep [OF r, of k]])
    show "pfn_lists ?t k = pfn_lists s k" using that by (simp add: ls)
    show "in_db ?t = in_db s" by (simp add: mm_fields)
    fix q assume q: "q \<in> set (a k)"
    have "q \<noteq> p" "q = n \<Longrightarrow> n = LIST_HEAD" "q = w \<Longrightarrow> w = LIST_HEAD"
      using rep_disjoint [OF r q, of l] that m mem by auto
    then show "pf_blink (ent ?t q) = pf_blink (ent s q) \<and> pf_flink (ent ?t q) = pf_flink (ent s q) \<and>
      pf_loc (ent ?t q) = pf_loc (ent s q)" by (simp only: e) auto
  qed
  moreover have "list_rep ?t l (as @ bs)"
  proof -
    have ca: "chain (ent ?t) LIST_HEAD as n"
    proof (cases as rule: rev_cases)
      case (snoc xs x)
      have x: "w = x" using snoc by (simp add: w_def)
      have xb: "x \<in> set as" using snoc by simp
      show ?thesis unfolding snoc
      proof (rule chain_relink_last)
        show "chain (ent s) LIST_HEAD (xs @ [x]) p" using R snoc by (simp add: chain_append)
        show "x \<notin> set xs" using d snoc by simp
        show "ent ?t q = ent s q" if "q \<in> set xs" for q
          using that d n snoc x ne al by (subst e) auto
        show "pf_flink (ent ?t x) = n" "pf_blink (ent ?t x) = pf_blink (ent s x)"
          using d n x xb ne idb al by (subst e; auto)+
      qed
    qed simp
    moreover have "chain (ent ?t) w bs LIST_HEAD"
    proof (cases bs)
      case (Cons x xs)
      have x: "n = x" using Cons by (simp add: n_def)
      have xb: "x \<in> set bs" using Cons by simp
      show ?thesis unfolding Cons
      proof (rule chain_relink_hd)
        show "chain (ent s) p (x # xs) LIST_HEAD" using R Cons by (simp add: chain_append)
        show "x \<notin> set xs" using d Cons by simp
        show "ent ?t q = ent s q" if "q \<in> set xs" for q
          using that d w Cons x ne al by (subst e) auto
        show "pf_blink (ent ?t x) = w" "pf_flink (ent ?t x) = pf_flink (ent s x)"
          using d x xb ne idb al by (subst e; auto)+
      qed
    qed simp
    ultimately have ch: "chain (ent ?t) LIST_HEAD (as @ bs) LIST_HEAD"
      by (simp add: chain_append n_def w_def)
    have tot: "pl_total (pfn_lists ?t l) = of_nat (length (as @ bs))"
      using R by (simp add: ls)
    have we: "w = LIST_HEAD \<longleftrightarrow> as = []" and nb: "n = LIST_HEAD \<longleftrightarrow> bs = []"
      using ne al by (auto simp: w_def n_def last_or_def hd_or_def split: list.splits)
    have "pl_flink (pfn_lists ?t l) = hd_or LIST_HEAD (as @ bs)"
      using R we by (cases as) (simp_all add: ls n_def)
    moreover have "pl_blink (pfn_lists ?t l) = last_or LIST_HEAD (as @ bs)"
      using R nb by (cases bs) (simp_all add: ls w_def last_or_append)
    moreover have "pl_name (pfn_lists ?t l) = l" using R by (simp add: ls)
    ultimately show ?thesis
      using ch tot R d by (auto simp: list_rep_def mm_fields intro: MMPFNLIST.equality)
  qed
  moreover have "remove1 p (a l) = as @ bs" using d by (simp add: al remove1_append)
  moreover have "available_pages ?t = of_nat (length ((a(l := as @ bs)) ZeroedPageList) + length ((a(l := as @ bs)) FreePageList))"
    using r v rep_name [OF r, of l] al by (auto simp: mm_fields counts_available_def reps_def)
  ultimately show ?thesis by (simp add: reps_def)
qed

section \<open>Stores that leave the lists alone\<close>

lemma reps_cong:
  assumes "reps s a" and "pfn_lists s' = pfn_lists s" and "in_db s' = in_db s" and "available_pages s' = available_pages s"
    and "\<And>l p. p \<in> set (a l) \<Longrightarrow> pf_blink (ent s' p) = pf_blink (ent s p) \<and> pf_flink (ent s' p) = pf_flink (ent s p) \<and>
      pf_loc (ent s' p) = pf_loc (ent s p)"
  shows "reps s' a"
  using assms list_rep_cong [of s _ "a _" s'] by (simp add: reps_def)

lemma reps_off:
  assumes "reps s a" and "off_lists p a"
  shows "reps (get_pfn_entry_mut p f s) a"
proof (rule reps_cong [OF assms(1)])
  fix l q assume "q \<in> set (a l)"
  then have "q \<noteq> p" using assms(2) by (auto simp: off_lists_def)
  then show "pf_blink (ent (get_pfn_entry_mut p f s) q) = pf_blink (ent s q) \<and>
    pf_flink (ent (get_pfn_entry_mut p f s) q) = pf_flink (ent s q) \<and> pf_loc (ent (get_pfn_entry_mut p f s) q) = pf_loc (ent s q)"
    by (simp add: mm_fields)
qed (simp_all add: mm_fields)

lemma reps_same_links:
  assumes "reps s a" and "\<And>e. pf_blink (f e) = pf_blink e \<and> pf_flink (f e) = pf_flink e \<and> pf_loc (f e) = pf_loc e"
  shows "reps (get_pfn_entry_mut p f s) a"
  by (rule reps_cong [OF assms(1)]) (simp_all add: mm_fields assms(2))

lemma reps_other_fields:
  "reps (s\<lparr>standby_count := n\<rparr>) a = reps s a" "reps (s\<lparr>modified_count := n\<rparr>) a = reps s a"
  "reps (s\<lparr>page_bytes := b\<rparr>) a = reps s a" "reps (s\<lparr>pte_words := w\<rparr>) a = reps s a"
  "reps (s\<lparr>hyper_bitmap := n\<rparr>) a = reps s a" "reps (zero_page p s) a = reps s a"
  by (simp_all add: reps_def list_rep_def mm_fields)

lemma off_after_remove:
  assumes "reps s a" and "p \<in> set (a l)"
  shows "off_lists p (a(l := remove1 p (a l)))"
proof -
  have "p \<notin> set ((a(l := remove1 p (a l))) k)" for k
    using rep_disjoint [OF assms, of k] rep_distinct [OF assms(1), of l] by (cases "k = l") auto
  then show ?thesis by (simp add: off_lists_def)
qed

section \<open>The invariant\<close>

text \<open>
  The lists are represented, the counters count, and what is on the list of zeroed pages is
  zero. The locations that are not lists stay empty.
\<close>

definition frames_ok :: "MM \<Rightarrow> frame_lists \<Rightarrow> bool" where
  "frames_ok s a \<longleftrightarrow> reps s a \<and> standby_count s = of_nat (length (a StandbyPageList)) \<and>
     modified_count s = of_nat (length (a ModifiedPageList)) \<and>
     (\<forall>p\<in>set (a ZeroedPageList). page_bytes s p = replicate PAGE_BYTES 0) \<and>
     a ActiveAndValid = [] \<and> a TransitionPage = [] \<and> a ModifiedNoWritePageList = []"

lemma frames_reps: "frames_ok s a \<Longrightarrow> reps s a"
  by (simp add: frames_ok_def)

definition frame_active :: "MM \<Rightarrow> u64 \<Rightarrow> bool" where
  "frame_active s p \<longleftrightarrow> in_db s p \<and> pf_loc (ent s p) = mmlists_code ActiveAndValid"

lemma active_off: "frames_ok s a \<Longrightarrow> frame_active s p \<Longrightarrow> off_lists p a"
proof -
  assume ok: "frames_ok s a" and p: "frame_active s p"
  have "p \<notin> set (a l)" for l
    using rep_loc [OF frames_reps [OF ok], of p l] p ok
    by (cases l) (auto simp: frame_active_def frames_ok_def)
  then show ?thesis by (simp add: off_lists_def)
qed

definition mm_ok :: "MM \<Rightarrow> bool" where "mm_ok s \<longleftrightarrow> (\<exists>a. frames_ok s a)"

lemma initial_ok: "frames_ok (mm_initial db b w) (\<lambda>_. [])"
  by (simp add: frames_ok_def reps_def list_rep_def mm_initial_def mmpfnlist_new_def)

section \<open>What the operations do to the lists\<close>

lemma insert_free_ok:
  assumes "frames_ok s a" and "in_db s p" and "off_lists p a"
  shows "frames_ok (mi_insert_page_in_list FreePageList p s) (a(FreePageList := p # a FreePageList))"
  using assms insert_reps [OF frames_reps [OF assms(1)] assms(2,3)] by (simp add: frames_ok_def mm_fields)

lemma insert_zeroed_ok:
  assumes "frames_ok s a" and "in_db s p" and "off_lists p a" and "page_bytes s p = replicate PAGE_BYTES 0"
  shows "frames_ok (mi_insert_zeroed_page p s) (a(ZeroedPageList := p # a ZeroedPageList))"
  unfolding mi_insert_zeroed_page_def
  using assms insert_reps [OF frames_reps [OF assms(1)] assms(2,3)] by (simp add: frames_ok_def mm_fields)

lemma ok_off: "frames_ok s a \<Longrightarrow> off_lists p a \<Longrightarrow> frames_ok (get_pfn_entry_mut p f s) a"
  by (simp add: frames_ok_def reps_off mm_fields)

lemma ok_zero_page: "frames_ok s a \<Longrightarrow> frames_ok (zero_page p s) a"
  by (simp add: frames_ok_def reps_other_fields mm_fields)

lemma free_ok:
  assumes "frames_ok s a" and "in_db s p" and "off_lists p a"
  shows "frames_ok (mi_free_pfn p s) (a(FreePageList := p # a FreePageList))"
  unfolding mi_free_pfn_def by (rule insert_free_ok) (use assms in \<open>simp_all add: ok_off mm_fields\<close>)

lemma standby_ok:
  assumes "frames_ok s a" and "in_db s p" and "off_lists p a"
  shows "frames_ok (mi_insert_page_in_standby_list p s) (a(StandbyPageList := p # a StandbyPageList))"
  using assms insert_reps [OF reps_off [OF frames_reps [OF assms(1)] assms(3)] _ assms(3), of _ StandbyPageList]
  by (simp add: frames_ok_def mm_fields mi_insert_page_in_standby_list_def Let_def reps_other_fields)

lemma modified_ok:
  assumes "frames_ok s a" and "in_db s p" and "off_lists p a"
  shows "frames_ok (mi_insert_page_in_modified_list p s) (a(ModifiedPageList := p # a ModifiedPageList))"
  using assms insert_reps [OF reps_off [OF frames_reps [OF assms(1)] assms(3)] _ assms(3), of _ ModifiedPageList]
  by (simp add: frames_ok_def mm_fields mi_insert_page_in_modified_list_def Let_def reps_other_fields)

lemma transition_ok:
  assumes "frames_ok s a" and "in_db s p" and "off_lists p a"
  shows "frames_ok (mi_make_transition_page p dirty s)
    (if dirty then a(ModifiedPageList := p # a ModifiedPageList) else a(StandbyPageList := p # a StandbyPageList))"
  using standby_ok [OF assms] modified_ok [OF assms] by (simp add: mi_make_transition_page_def)

lemma length_remove1_word: "p \<in> set xs \<Longrightarrow> (of_nat (length (remove1 p xs)) :: u64) = of_nat (length xs) - 1"
  by (cases "length xs") (auto simp: length_remove1)

text \<open>The list a frame is on and the counter that goes with it.\<close>

definition counted_down :: "MMLISTS \<Rightarrow> MM \<Rightarrow> MM" where
  "counted_down l s = (if l = StandbyPageList then s\<lparr>standby_count := standby_count s - 1\<rparr>
     else if l = ModifiedPageList then s\<lparr>modified_count := modified_count s - 1\<rparr> else s)"

lemma counted_down_fields:
  "pfn_lists (counted_down l s) = pfn_lists s" "bounds (counted_down l s) = bounds s" "in_db (counted_down l s) = in_db s"
  "ent (counted_down l s) = ent s" "page_bytes (counted_down l s) = page_bytes s" "reps (counted_down l s) a = reps s a"
  "pte_words (counted_down l s) = pte_words s" "hyper_bitmap (counted_down l s) = hyper_bitmap s"
  by (simp_all add: counted_down_def mm_fields reps_other_fields)

lemma remove_counted_ok:
  assumes ok: "frames_ok s a" and m: "p \<in> set (a l)"
  shows "frames_ok (mi_remove_page_from_list l p (counted_down l s)) (a(l := remove1 p (a l)))"
proof -
  have r: "reps (counted_down l s) a" using ok by (simp add: counted_down_fields frames_ok_def)
  have "\<forall>q\<in>set ((a(l := remove1 p (a l))) ZeroedPageList). page_bytes s q = replicate PAGE_BYTES 0"
    using ok by (auto simp: frames_ok_def dest: notin_set_remove1)
  then show ?thesis
    using remove_reps [OF r m] ok m length_remove1_word [OF m]
    by (auto simp: frames_ok_def mm_fields counted_down_def)
qed

lemma removed_ok:
  assumes ok: "frames_ok s a" and m: "p \<in> set (a l)"
  shows "frames_ok (counted_down l (mi_remove_page_from_list l p s)) (a(l := remove1 p (a l)))"
proof -
  have r: "reps (counted_down l (mi_remove_page_from_list l p s)) (a(l := remove1 p (a l)))"
    using remove_reps [OF frames_reps [OF ok] m] by (simp add: counted_down_fields)
  have "\<forall>q\<in>set ((a(l := remove1 p (a l))) ZeroedPageList). page_bytes s q = replicate PAGE_BYTES 0"
    using ok by (auto simp: frames_ok_def dest: notin_set_remove1)
  then show ?thesis
    using r ok m length_remove1_word [OF m] by (auto simp: frames_ok_def mm_fields counted_down_def)
qed

lemma unlink_ok:
  assumes ok: "frames_ok s a" and m: "p \<in> set (a l)"
  shows "frames_ok (mi_unlink_page_from_list p s) (a(l := remove1 p (a l)))"
proof -
  have "mi_unlink_page_from_list p s = mi_remove_page_from_list l p (counted_down l s)"
    using rep_loc [OF frames_reps [OF ok] m] rep_in_db [OF frames_reps [OF ok] m] ok m
    by (cases l) (auto simp: mi_unlink_page_from_list_def get_entry counted_down_def frames_ok_def)
  then show ?thesis using remove_counted_ok [OF assms] by simp
qed

lemma resolve_ok:
  assumes ok: "frames_ok s a" and m: "p \<in> set (a l)"
  shows "frames_ok (mi_resolve_transition_page p s) (a(l := remove1 p (a l)))"
  unfolding mi_resolve_transition_page_def
  by (rule ok_off [OF unlink_ok [OF assms] off_after_remove [OF frames_reps [OF ok] m]])

lemma take_head:
  assumes "reps s a"
  shows "a l = [] \<Longrightarrow> mi_remove_any_page l s = (None, s)"
    and "a l = p # ps \<Longrightarrow> mi_remove_any_page l s = (Some p, mi_remove_page_from_list l p s) \<and> p \<in> set (a l)"
  using rep_flink [OF assms, of l] rep_hd [OF assms, of l] by (simp_all add: mi_remove_any_page_def Let_def)

lemma remove_uncounted_ok:
  assumes "frames_ok s a" and "a l = p # ps" and "l \<noteq> StandbyPageList" and "l \<noteq> ModifiedPageList"
  shows "frames_ok (mi_remove_page_from_list l p s) (a(l := ps))" and "off_lists p (a(l := ps))" and "in_db s p"
proof -
  have "p \<in> set (a l)" using assms(2) by simp
  then show "frames_ok (mi_remove_page_from_list l p s) (a(l := ps))" "off_lists p (a(l := ps))" "in_db s p"
    using remove_counted_ok [OF assms(1), of p l] off_after_remove [OF frames_reps [OF assms(1)], of p l] assms
      rep_in_db [OF frames_reps [OF assms(1)], of p l]
    by (simp_all add: counted_down_def)
qed

section \<open>Locations\<close>

text \<open>A frame off every list is marked active, or as free from the start.\<close>

definition loc_ok :: "MM \<Rightarrow> frame_lists \<Rightarrow> bool" where
  "loc_ok s a \<longleftrightarrow> (\<forall>p. in_db s p \<longrightarrow> off_lists p a \<longrightarrow>
     pf_loc (ent s p) = mmlists_code ActiveAndValid \<or> pf_loc (ent s p) = mmlists_code FreePageList)"

lemma insert_loc: "pf_loc (ent (mi_insert_page_in_list l p s) q) =
    (if q = p \<and> in_db s p then mmlists_code (pl_name (pfn_lists s l)) else pf_loc (ent s q))"
  by (simp add: mi_insert_page_in_list_def Let_def mm_fields link_old_head_def get_mut flip: in_db_def)

lemma on_list: "loc_ok s a \<Longrightarrow> reps s a \<Longrightarrow> in_db s p \<Longrightarrow> pf_loc (ent s p) = mmlists_code l \<Longrightarrow>
    l \<noteq> ActiveAndValid \<Longrightarrow> l \<noteq> FreePageList \<Longrightarrow> p \<in> set (a l)"
  using rep_loc [of s a p] mmlists_code_inj unfolding loc_ok_def off_lists_def by metis

lemma loc_insert:
  assumes "loc_ok s a" and "\<And>q. q \<noteq> p \<Longrightarrow> pf_loc (ent s' q) = pf_loc (ent s q)" and "in_db s' = in_db s"
  shows "loc_ok s' (a(l := p # a l))"
  using assms unfolding loc_ok_def off_lists_def
  by (metis fun_upd_other fun_upd_same list.set_intros(1) list.set_intros(2))

lemma loc_remove:
  assumes "loc_ok s a" and "\<And>q. q \<noteq> p \<Longrightarrow> pf_loc (ent s' q) = pf_loc (ent s q)" and "in_db s' = in_db s"
    and "pf_loc (ent s' p) = mmlists_code ActiveAndValid"
  shows "loc_ok s' (a(l := remove1 p (a l)))"
proof -
  have "off_lists q a" if "q \<noteq> p" "off_lists q (a(l := remove1 p (a l)))" for q
    using that unfolding off_lists_def by (metis fun_upd_other fun_upd_same in_set_remove1)
  then show ?thesis using assms unfolding loc_ok_def by metis
qed

lemma loc_same:
  assumes "loc_ok s a" and "\<And>q. pf_loc (ent s' q) = pf_loc (ent s q)" and "in_db s' = in_db s"
  shows "loc_ok s' a"
  using assms by (simp add: loc_ok_def)

end
