(* ===== verification/Hyper.thy ===== *)
theory Hyper
  imports PfnSpec
begin

text \<open>
  Hyperspace (\<open>mm/hyperspace.rs\<close>): the slots through which the kernel maps a frame for a moment,
  the helpers that clear and copy frames through them, and the walk of the page tables through
  the direct map. The compare-and-swap loop of the slot allocator ends in its first round when
  nobody else changes the bitmap; the processor number is always 0, as in the source.
\<close>

definition HYPER_SPACE :: u64 where "HYPER_SPACE = 0xFFFFF70000000000"
definition HYPERSPACE_SLOTS_PER_CPU :: nat where "HYPERSPACE_SLOTS_PER_CPU = 16"
definition MAX_PROCESSORS :: nat where "MAX_PROCESSORS = 64"
definition HYPERSPACE_SIZE_PER_CPU :: nat where "HYPERSPACE_SIZE_PER_CPU = HYPERSPACE_SLOTS_PER_CPU * PAGE_BYTES"

definition get_current_cpu_id :: nat where "get_current_cpu_id = 0"

definition hyperspace_cpu_base :: "nat \<Rightarrow> u64" where
  "hyperspace_cpu_base cpu = HYPER_SPACE + of_nat (cpu * HYPERSPACE_SIZE_PER_CPU)"

definition hyperspace_slot_to_va :: "nat \<Rightarrow> nat \<Rightarrow> u64" where
  "hyperspace_slot_to_va cpu slot = hyperspace_cpu_base cpu + of_nat (slot * PAGE_BYTES)"

definition trailing_zeros :: "u64 \<Rightarrow> nat" where
  "trailing_zeros w = (case List.find (bit w) [0..<64] of Some i \<Rightarrow> i | None \<Rightarrow> 64)"

definition allocate_hyperspace_slot :: "MM \<Rightarrow> nat option \<times> MM" where
  "allocate_hyperspace_slot s = (let free_slot = trailing_zeros (NOT (hyper_bitmap s)) in
     if HYPERSPACE_SLOTS_PER_CPU \<le> free_slot then (None, s)
     else (Some free_slot, s\<lparr>hyper_bitmap := hyper_bitmap s OR push_bit free_slot 1\<rparr>))"

definition free_hyperspace_slot :: "nat \<Rightarrow> MM \<Rightarrow> MM" where
  "free_hyperspace_slot slot s = (if HYPERSPACE_SLOTS_PER_CPU \<le> slot then s
     else s\<lparr>hyper_bitmap := hyper_bitmap s AND NOT (push_bit slot 1)\<rparr>)"

definition map_hyper :: "u64 \<Rightarrow> u64 \<Rightarrow> MM \<Rightarrow> u64 \<times> MM" where
  "map_hyper flags p s =
    (if MAX_PROCESSORS \<le> get_current_cpu_id then (0, s)
     else case allocate_hyperspace_slot s of
       (None, s) \<Rightarrow> (0, s)
     | (Some slot, s) \<Rightarrow>
         (let va = hyperspace_slot_to_va get_current_cpu_id slot
          in (va, s\<lparr>pte_words := (pte_words s)(mm_get_pte_address va := push_bit 12 p OR flags)\<rparr>)))"

definition mi_map_page_in_hyperspace :: "u64 \<Rightarrow> MM \<Rightarrow> u64 \<times> MM" where
  "mi_map_page_in_hyperspace = map_hyper (PTE_VALID OR PTE_READWRITE)"

definition mi_map_page_in_hyperspace_readonly :: "u64 \<Rightarrow> MM \<Rightarrow> u64 \<times> MM" where
  "mi_map_page_in_hyperspace_readonly = map_hyper PTE_VALID"

definition mi_unmap_page_in_hyperspace :: "u64 \<Rightarrow> MM \<Rightarrow> MM" where
  "mi_unmap_page_in_hyperspace va s =
    (let base = hyperspace_cpu_base get_current_cpu_id in
     if va = 0 \<or> MAX_PROCESSORS \<le> get_current_cpu_id \<or> va < base \<or> base + of_nat HYPERSPACE_SIZE_PER_CPU \<le> va then s
     else let slot = unat ((va - base) div 4096) in
       if HYPERSPACE_SLOTS_PER_CPU \<le> slot then s
       else free_hyperspace_slot slot (s\<lparr>pte_words := (pte_words s)(mm_get_pte_address va := 0)\<rparr>))"

text \<open>The bytes are written through the entry just made, which maps the frame.\<close>

definition mi_zero_physical_page :: "u64 \<Rightarrow> MM \<Rightarrow> MM" where
  "mi_zero_physical_page p s = (case mi_map_page_in_hyperspace p s of (va, s) \<Rightarrow>
     if va \<noteq> 0 then mi_unmap_page_in_hyperspace va (zero_page p s) else s)"

definition mi_copy_physical_page :: "u64 \<Rightarrow> u64 \<Rightarrow> MM \<Rightarrow> MM" where
  "mi_copy_physical_page src dst s = (case mi_map_page_in_hyperspace_readonly src s of (sva, s) \<Rightarrow>
     if sva = 0 then s
     else case mi_map_page_in_hyperspace dst s of (dva, s) \<Rightarrow>
       if dva = 0 then mi_unmap_page_in_hyperspace sva s
       else mi_unmap_page_in_hyperspace sva (mi_unmap_page_in_hyperspace dva
         (s\<lparr>page_bytes := (page_bytes s)(dst := page_bytes s src)\<rparr>)))"

section \<open>The walk through the direct map\<close>

definition phys_word :: "u64 \<Rightarrow> (u64 \<Rightarrow> u64) \<Rightarrow> u64 \<Rightarrow> u64 \<Rightarrow> u64" where
  "phys_word hhdm mem tbl i = mem (hhdm + tbl + push_bit 3 i)"

definition get_physical_address :: "(u64 \<Rightarrow> u64) \<Rightarrow> u64 \<Rightarrow> u64 \<Rightarrow> u64 \<Rightarrow> u64 option" where
  "get_physical_address mem cr3 hhdm va =
    (if hhdm \<le> va \<and> va < hhdm + 0x80000000000 then Some (va - hhdm)
     else let pml4e = phys_word hhdm mem (cr3 AND NOT 0xFFF) (drop_bit 39 va AND 0x1FF) in
       if pml4e AND PTE_VALID = 0 then None
       else let pdpte = phys_word hhdm mem (pml4e AND PTE_FRAME_MASK) (drop_bit 30 va AND 0x1FF) in
         if pdpte AND PTE_VALID = 0 then None
         else if pdpte AND push_bit 7 1 \<noteq> 0 then Some ((pdpte AND PTE_FRAME_MASK) + (va AND 0x3FFFFFFF))
         else let pde = phys_word hhdm mem (pdpte AND PTE_FRAME_MASK) (drop_bit 21 va AND 0x1FF) in
           if pde AND PTE_VALID = 0 then None
           else if pde AND push_bit 7 1 \<noteq> 0 then Some ((pde AND PTE_FRAME_MASK) + (va AND 0x1FFFFF))
           else let pte = phys_word hhdm mem (pde AND PTE_FRAME_MASK) (drop_bit 12 va AND 0x1FF) in
             if pte AND PTE_VALID = 0 then None else Some ((pte AND PTE_FRAME_MASK) + (va AND 0xFFF)))"

section \<open>Slots\<close>

lemma find_upt: "List.find P [0..<n] = Some i \<longleftrightarrow> i < n \<and> P i \<and> (\<forall>j<i. \<not> P j)"
  by (auto simp: find_Some_iff intro!: exI [of _ i])

lemma trailing_zeros_spec:
  assumes "i < 64" and "bit w i" and "\<And>j. j < i \<Longrightarrow> \<not> bit w j"
  shows "trailing_zeros w = i"
proof -
  have "List.find (bit w) [0..<64] = Some i"
    unfolding find_upt using assms by blast
  then show ?thesis unfolding trailing_zeros_def by (simp only: option.case)
qed

lemma trailing_zeros_bound: "i < 64 \<Longrightarrow> bit w i \<Longrightarrow> trailing_zeros w \<le> i \<and> bit w (trailing_zeros w) \<and> (\<forall>j<trailing_zeros w. \<not> bit w j)"
  for w :: u64
proof -
  assume i: "i < 64" "bit w i"
  define k where "k = (LEAST k. bit w k)"
  have k: "bit w k" "k \<le> i" "\<And>j. j < k \<Longrightarrow> \<not> bit w j"
    unfolding k_def by (rule LeastI [of "bit w", OF i(2)], rule Least_le [of "bit w", OF i(2)], rule not_less_Least)
  then have "trailing_zeros w = k" using i by (intro trailing_zeros_spec) auto
  then show ?thesis using k by simp
qed

definition slot_free :: "MM \<Rightarrow> bool" where
  "slot_free s \<longleftrightarrow> (\<exists>i<HYPERSPACE_SLOTS_PER_CPU. \<not> bit (hyper_bitmap s) i)"

definition free_slot :: "MM \<Rightarrow> nat" where "free_slot s = trailing_zeros (NOT (hyper_bitmap s))"

lemma free_slot:
  assumes "slot_free s"
  shows "free_slot s < 16" and "\<not> bit (hyper_bitmap s) (free_slot s)"
proof -
  obtain i where i: "i < 16" "\<not> bit (hyper_bitmap s) i"
    using assms by (auto simp: slot_free_def HYPERSPACE_SLOTS_PER_CPU_def)
  then have "bit (NOT (hyper_bitmap s)) i" by (simp add: bit_not_iff)
  from trailing_zeros_bound [OF _ this] i
  show "free_slot s < 16" "\<not> bit (hyper_bitmap s) (free_slot s)"
    by (auto simp: free_slot_def bit_not_iff)
qed

lemma no_slot: "\<not> slot_free s \<Longrightarrow> 16 \<le> trailing_zeros (NOT (hyper_bitmap s))"
proof (rule ccontr)
  assume a: "\<not> slot_free s" "\<not> 16 \<le> trailing_zeros (NOT (hyper_bitmap s))"
  define k where "k = trailing_zeros (NOT (hyper_bitmap s))"
  have "k < 16" using a by (simp add: k_def)
  then have "List.find (bit (NOT (hyper_bitmap s))) [0..<64] = Some k"
    unfolding k_def trailing_zeros_def by (auto split: option.splits simp del: upt_rec_numeral)
  then have "bit (NOT (hyper_bitmap s)) k" unfolding find_upt by blast
  then show False using a \<open>k < 16\<close> by (auto simp: slot_free_def HYPERSPACE_SLOTS_PER_CPU_def bit_not_iff)
qed

lemma allocate_slot:
  "slot_free s \<Longrightarrow> allocate_hyperspace_slot s = (Some (free_slot s), s\<lparr>hyper_bitmap := hyper_bitmap s OR push_bit (free_slot s) 1\<rparr>)"
  "\<not> slot_free s \<Longrightarrow> allocate_hyperspace_slot s = (None, s)"
  using free_slot(1) [of s] no_slot [of s]
  by (simp_all add: allocate_hyperspace_slot_def HYPERSPACE_SLOTS_PER_CPU_def free_slot_def Let_def)

lemma slot_va:
  assumes "k < 16"
  shows "unat (hyperspace_slot_to_va 0 k) = 0xFFFFF70000000000 + 4096 * k"
proof -
  define n where "n = k * 4096"
  have n: "n < 65536" using assms by (simp add: n_def)
  then have "unat (of_nat n :: u64) = n" by (simp add: unat_of_nat_64)
  then have "unat (HYPER_SPACE + of_nat n) = unat HYPER_SPACE + n"
    using assms by (simp add: unat_word_ariths HYPER_SPACE_def n_def)
  then show ?thesis
    by (simp add: hyperspace_slot_to_va_def hyperspace_cpu_base_def HYPER_SPACE_def PAGE_BYTES_def n_def)
qed

lemma bitmap_round_trip:
  assumes "\<not> bit (b :: u64) k"
  shows "(b OR push_bit k 1) AND NOT (push_bit k 1) = b"
  by (rule bit_word_eqI) (use assms in \<open>auto simp: bit_and_iff bit_or_iff bit_not_iff bit_push_bit_iff bit_1_iff simp del: push_bit_of_1\<close>)

lemma slot_back:
  assumes "k < 16"
  shows "mi_unmap_page_in_hyperspace (hyperspace_slot_to_va 0 k) s =
    s\<lparr>pte_words := (pte_words s)(mm_get_pte_address (hyperspace_slot_to_va 0 k) := 0),
      hyper_bitmap := hyper_bitmap s AND NOT (push_bit k 1)\<rparr>"
proof -
  let ?va = "hyperspace_slot_to_va 0 k"
  note u = slot_va [OF assms]
  have b: "hyperspace_cpu_base 0 = 0xFFFFF70000000000" by (simp add: hyperspace_cpu_base_def HYPER_SPACE_def)
  have d: "unat (?va - 0xFFFFF70000000000) = 4096 * k"
    using u by (subst unat_sub) (simp_all add: word_le_nat_alt)
  have "unat ((?va - 0xFFFFF70000000000) div 4096) = k" by (simp add: unat_div d)
  moreover have "?va \<noteq> 0" "\<not> ?va < 0xFFFFF70000000000" "\<not> (0xFFFFF70000000000 + of_nat HYPERSPACE_SIZE_PER_CPU \<le> ?va)"
    using u assms
    by (auto simp: word_less_nat_alt word_le_nat_alt HYPERSPACE_SIZE_PER_CPU_def HYPERSPACE_SLOTS_PER_CPU_def PAGE_BYTES_def)
  ultimately show ?thesis
    using assms
    by (simp add: mi_unmap_page_in_hyperspace_def get_current_cpu_id_def b MAX_PROCESSORS_def HYPERSPACE_SLOTS_PER_CPU_def
        free_hyperspace_slot_def Let_def)
qed

text \<open>Mapping, using and unmapping leaves the slots as they were and the entry of the slot clear.\<close>

definition slot_entry :: "MM \<Rightarrow> u64" where
  "slot_entry s = mm_get_pte_address (hyperspace_slot_to_va 0 (free_slot s))"

lemma zero_physical:
  "mi_zero_physical_page p s =
    (if slot_free s then (zero_page p s)\<lparr>pte_words := (pte_words s)(slot_entry s := 0)\<rparr> else s)"
proof (cases "slot_free s")
  case True
  have ne: "hyperspace_slot_to_va 0 (free_slot s) \<noteq> 0"
    using slot_va [OF free_slot(1) [OF True]] by auto
  show ?thesis
    using True ne slot_back [OF free_slot(1) [OF True]] bitmap_round_trip [OF free_slot(2) [OF True]]
    by (simp add: mi_zero_physical_page_def mi_map_page_in_hyperspace_def map_hyper_def get_current_cpu_id_def
        MAX_PROCESSORS_def allocate_slot slot_entry_def Let_def zero_page_def)
qed (simp add: mi_zero_physical_page_def mi_map_page_in_hyperspace_def map_hyper_def get_current_cpu_id_def
    MAX_PROCESSORS_def allocate_slot)

lemma zero_physical_fields [mm_fields]:
  "pfn_lists (mi_zero_physical_page p s) = pfn_lists s" "available_pages (mi_zero_physical_page p s) = available_pages s"
  "modified_count (mi_zero_physical_page p s) = modified_count s" "standby_count (mi_zero_physical_page p s) = standby_count s"
  "hyper_bitmap (mi_zero_physical_page p s) = hyper_bitmap s" "bounds (mi_zero_physical_page p s) = bounds s"
  "in_db (mi_zero_physical_page p s) = in_db s" "ent (mi_zero_physical_page p s) = ent s"
  "slot_free s \<Longrightarrow> page_bytes (mi_zero_physical_page p s) = (page_bytes s)(p := replicate PAGE_BYTES 0)"
  by (auto simp: zero_physical mm_fields)

section \<open>The walk and the translation\<close>

lemma walk_frame: "pte_value (table_entry mem tbl i) = mem (tbl + push_bit 3 i)"
  by (simp add: table_entry_def mmpte_from_raw_def)

text \<open>
  Outside the direct map the walk gives the address the processor translates to, where the address
  is mapped by a page of 4 KB; \<open>mem\<close> is the memory behind the direct map.
\<close>

lemma get_physical_address_translate:
  assumes "\<not> (hhdm \<le> va \<and> va < hhdm + 0x80000000000)"
    and "walk_pt (\<lambda>p. mem (hhdm + p)) (cr3 AND NOT 0xFFF) va = Some t"
  shows "get_physical_address mem cr3 hhdm va = page_translate (\<lambda>p. mem (hhdm + p)) (cr3 AND NOT 0xFFF) va"
proof -
  let ?m = "\<lambda>p. mem (hhdm + p)"
  obtain p d where "walk_pdpt ?m (cr3 AND NOT 0xFFF) va = Some p"
    and "next_table ?m p (mm_get_ppe_index va) = Some d" and "next_table ?m d (mm_get_pde_index va) = Some t"
    using assms(2) by (auto simp: walk_pt_def walk_pd_def bind_eq_Some_conv)
  then show ?thesis
    using assms unfolding walk_pdpt_def page_translate_def get_physical_address_def
    by (auto simp: next_table_def Let_def phys_word_def mmpte_is_valid_def mmpte_is_large_def mmpte_frame_def walk_frame
        mm_get_pxe_index_def mm_get_ppe_index_def mm_get_pde_index_def mm_get_pte_index_def PTE_LARGE_PAGE_def
        add.assoc split: if_splits)
qed

end
