(* ===== verification/PageThreads.thy ===== *)
theory PageThreads
  imports Hyper
begin

text \<open>
  The zero page thread (\<open>mm/zero.rs\<close>), the modified page writer (\<open>mm/mpw.rs\<close>) and the filling of
  the free list at start (\<open>mm/init.rs\<close>). Both threads move frames between two lists in batches;
  a locale of lists that lose and gain heads gives what a batch does once for both.
\<close>

section \<open>Batches\<close>

text \<open>
  A batch runs a step up to \<open>n\<close> times and stops early where the step finds nothing to do;
  it counts the steps that report success.
\<close>

fun run_batch :: "('s \<Rightarrow> (bool \<times> 's) option) \<Rightarrow> nat \<Rightarrow> 's \<Rightarrow> nat \<times> 's" where
  "run_batch step 0 s = (0, s)"
| "run_batch step (Suc n) s =
    (case step s of None \<Rightarrow> (0, s)
     | Some (ok, s') \<Rightarrow> (case run_batch step n s' of (k, s'') \<Rightarrow> (if ok then Suc k else k, s'')))"

locale frame_mover =
  fixes ok :: "'s \<Rightarrow> ('l \<Rightarrow> 'p list) \<Rightarrow> bool" and step :: "'s \<Rightarrow> (bool \<times> 's) option" and A B :: 'l
  assumes empty: "ok s a \<Longrightarrow> a A = [] \<Longrightarrow> step s = None"
    and moves: "ok s a \<Longrightarrow> a A = p # ps \<Longrightarrow> \<exists>s'. step s = Some (True, s') \<and> ok s' (a(A := ps, B := p # a B))"
    and distinct_lists: "A \<noteq> B"
begin

text \<open>A batch moves as many heads as there are, at most \<open>n\<close>, and reverses them on the way.\<close>

lemma batch:
  assumes "ok s a"
  shows "\<exists>s'. run_batch step n s = (min n (length (a A)), s') \<and>
    ok s' (a(A := drop n (a A), B := rev (take n (a A)) @ a B))"
  using assms
proof (induction n arbitrary: s a)
  case 0
  then show ?case by simp
next
  case (Suc n)
  show ?case
  proof (cases "a A")
    case Nil
    then show ?thesis using empty [OF Suc.prems] Suc.prems distinct_lists by (simp add: fun_upd_idem)
  next
    case (Cons p ps)
    obtain s' where s': "step s = Some (True, s')" "ok s' (a(A := ps, B := p # a B))"
      using moves [OF Suc.prems Cons] by blast
    define a' where "a' = a(A := ps, B := p # a B)"
    have a': "a' A = ps" "a' B = p # a B" "a'(A := x, B := y) = a(A := x, B := y)" for x y
      using distinct_lists by (auto simp: a'_def fun_eq_iff)
    obtain s'' where "run_batch step n s' = (min n (length ps), s'')"
      "ok s'' (a(A := drop n ps, B := rev (take n ps) @ p # a B))"
      using Suc.IH [OF s'(2) [folded a'_def]] unfolding a' by blast
    moreover from this(1) have "run_batch step (Suc n) s = (min (Suc n) (length (a A)), s'')"
      using s'(1) Cons by simp
    moreover have "drop (Suc n) (a A) = drop n ps" "rev (take (Suc n) (a A)) @ a B = rev (take n ps) @ p # a B"
      using Cons by simp_all
    ultimately show ?thesis by metis
  qed
qed

end

section \<open>The zero page thread\<close>

definition MM_ZEROED_PAGE_LOW_WATERMARK :: u64 where "MM_ZEROED_PAGE_LOW_WATERMARK = 32"
definition MM_ZEROED_PAGE_HIGH_WATERMARK :: u64 where "MM_ZEROED_PAGE_HIGH_WATERMARK = 256"
definition ZERO_BATCH_SIZE :: u64 where "ZERO_BATCH_SIZE = 16"

definition zero_one :: "MM \<Rightarrow> (bool \<times> MM) option" where
  "zero_one s = (case mi_allocate_pfn_for_zero_page s of
     (None, s) \<Rightarrow> None
   | (Some p, s) \<Rightarrow>
       (let s = mi_zero_physical_page p s;
            s = get_pfn_entry_mut p (\<lambda>e. e\<lparr>pf_loc := mmlists_code ZeroedPageList\<rparr>) s
        in Some (True, mi_insert_zeroed_page p s)))"

definition mi_zero_page_batch :: "nat \<Rightarrow> MM \<Rightarrow> nat \<times> MM" where
  "mi_zero_page_batch = run_batch zero_one"

record zero_thread =
  zero_wakeup_requested :: bool
  zeroed_page_total :: u64

datatype thread_round = Slept | Worked | Worked_and_yielded

text \<open>One round of the endless loop, and whether it ends in a sleep.\<close>

definition zero_thread_round :: "zero_thread \<Rightarrow> MM \<Rightarrow> thread_round \<times> zero_thread \<times> MM" where
  "zero_thread_round t s =
    (if MM_ZEROED_PAGE_HIGH_WATERMARK \<le> mm_get_zeroed_page_count s \<and> \<not> zero_wakeup_requested t then (Slept, t, s)
     else if mm_get_free_page_count s = 0 then (Slept, t, s)
     else case mi_zero_page_batch (unat (min (mm_get_free_page_count s) ZERO_BATCH_SIZE)) s of (n, s') \<Rightarrow>
       (if n < unat ZERO_BATCH_SIZE div 2 then Worked_and_yielded else Worked,
        t\<lparr>zero_wakeup_requested := False, zeroed_page_total := zeroed_page_total t + of_nat n\<rparr>, s'))"

definition mm_request_zero_pages :: "zero_thread \<Rightarrow> zero_thread" where
  "mm_request_zero_pages t = t\<lparr>zero_wakeup_requested := True\<rparr>"

definition mi_signal_zeroed_pages_low :: "MM \<Rightarrow> zero_thread \<Rightarrow> zero_thread" where
  "mi_signal_zeroed_pages_low s t =
    (if mm_get_zeroed_page_count s < MM_ZEROED_PAGE_LOW_WATERMARK then mm_request_zero_pages t else t)"

section \<open>The modified page writer\<close>

definition MPW_BATCH_SIZE :: u64 where "MPW_BATCH_SIZE = 16"
definition MPW_CRITICAL_THRESHOLD :: u64 where "MPW_CRITICAL_THRESHOLD = 256"

definition mi_write_page_to_backing_store :: "u64 \<Rightarrow> u64 \<Rightarrow> u64 \<Rightarrow> bool" where
  "mi_write_page_to_backing_store p original_pte pte_address =
    (let is_prototype = original_pte AND 0x2 \<noteq> 0 in
     if is_prototype then True else if original_pte \<noteq> 0 then True else True)"

definition write_one :: "MM \<Rightarrow> (bool \<times> MM) option" where
  "write_one s = (case mi_get_modified_page_for_write s of
     (None, s) \<Rightarrow> None
   | (Some (p, original_pte, pte_address), s) \<Rightarrow>
       (let success = mi_write_page_to_backing_store p original_pte pte_address
        in Some (success, mi_complete_modified_page_write p success s)))"

definition mi_write_modified_pages_batch :: "nat \<Rightarrow> MM \<Rightarrow> nat \<times> MM" where
  "mi_write_modified_pages_batch = run_batch write_one"

record mpw_thread =
  mpw_wakeup_requested :: bool
  pages_written :: u64
  mpw_io_count :: u64

definition mpw_round :: "mpw_thread \<Rightarrow> MM \<Rightarrow> thread_round \<times> mpw_thread \<times> MM" where
  "mpw_round t s =
    (if mm_get_modified_page_count s < MM_MODIFIED_PAGE_WRITER_THRESHOLD \<and> \<not> mpw_wakeup_requested t then (Slept, t, s)
     else let batch_size = (if MPW_CRITICAL_THRESHOLD \<le> mm_get_modified_page_count s then MPW_BATCH_SIZE * 2 else MPW_BATCH_SIZE)
       in case mi_write_modified_pages_batch (unat batch_size) s of (n, s') \<Rightarrow>
         (if n < unat batch_size div 2 then Worked_and_yielded else Worked,
          t\<lparr>mpw_wakeup_requested := False, pages_written := pages_written t + of_nat n,
            mpw_io_count := (if 0 < n then mpw_io_count t + 1 else mpw_io_count t)\<rparr>, s'))"

definition mm_request_page_write :: "mpw_thread \<Rightarrow> mpw_thread" where
  "mm_request_page_write t = t\<lparr>mpw_wakeup_requested := True\<rparr>"

definition mi_signal_memory_pressure :: "MM \<Rightarrow> mpw_thread \<times> zero_thread \<Rightarrow> mpw_thread \<times> zero_thread" where
  "mi_signal_memory_pressure s tz = (case tz of (t, z) \<Rightarrow>
     (if 0 < mm_get_modified_page_count s then mm_request_page_write t else t, mi_signal_zeroed_pages_low s z))"

text \<open>The flush loops until the counter is zero or a batch writes nothing; \<open>None\<close> is an endless loop.\<close>

partial_function (option) mm_flush_all_modified_pages :: "MM \<Rightarrow> MM option" where
  "mm_flush_all_modified_pages s =
    (if mm_get_modified_page_count s = 0 then Some s
     else case mi_write_modified_pages_batch (unat (min (mm_get_modified_page_count s) (MPW_BATCH_SIZE * 4))) s of
       (n, s') \<Rightarrow> if n = 0 then Some s' else mm_flush_all_modified_pages s')"

section \<open>Filling the free list\<close>

datatype MEMORY_TYPE = LoaderExceptionBlock | LoaderSystemBlock | LoaderFree | LoaderBad
  | LoaderLoadedProgram | LoaderFirmwareTemporary | LoaderFirmwarePermanent | LoaderOsloaderHeap
  | LoaderOsloaderStack | LoaderSystemCode | LoaderHalCode | LoaderBootDriver
  | LoaderConsoleInDriver | LoaderConsoleOutDriver | LoaderStartupDpcStack
  | LoaderStartupKernelStack | LoaderStartupPanicStack | LoaderStartupPcrPage | LoaderStartupPdrPage
  | LoaderRegistryData | LoaderMemoryData | LoaderNlsData | LoaderSpecialMemory | LoaderBBTMemory
  | LoaderReserve | LoaderXIPRom | LoaderHALCachedMemory | LoaderLargePageFiller
  | LoaderErrorLogMemory | LoaderMaximum

record MEMORY_ALLOCATION_DESCRIPTOR =
  md_type :: MEMORY_TYPE
  md_base :: u64
  md_count :: u64

definition SIZEOF_MMPFN :: u64 where "SIZEOF_MMPFN = 48"

definition mi_is_usable_memory_type :: "MEMORY_TYPE \<Rightarrow> bool" where
  "mi_is_usable_memory_type t \<longleftrightarrow> t = LoaderFree"

text \<open>The first pass: lowest frame, end of the highest region and number of frames of the usable memory.\<close>

definition scan_descriptor :: "MEMORY_ALLOCATION_DESCRIPTOR \<Rightarrow> u64 \<times> u64 \<times> u64 \<Rightarrow> u64 \<times> u64 \<times> u64" where
  "scan_descriptor d acc = (case acc of (lowest, highest, usable) \<Rightarrow>
     if mi_is_usable_memory_type (md_type d)
     then (if md_base d < lowest then md_base d else lowest,
           if highest < md_base d + md_count d then md_base d + md_count d else highest,
           usable + md_count d)
     else acc)"

definition scan_descriptors :: "MEMORY_ALLOCATION_DESCRIPTOR list \<Rightarrow> u64 \<times> u64 \<times> u64" where
  "scan_descriptors ds = fold scan_descriptor (take 10001 ds) (- 1, 0, 0)"

definition pfn_db_base :: "MEMORY_ALLOCATION_DESCRIPTOR list \<Rightarrow> u64 \<Rightarrow> u64" where
  "pfn_db_base ds pages =
    (case List.find (\<lambda>d. md_type d = LoaderFree \<and> pages + 64 \<le> md_count d) ds of
       None \<Rightarrow> 0 | Some d \<Rightarrow> if md_base d = 0 then 1 else md_base d)"

definition frames_of :: "MEMORY_ALLOCATION_DESCRIPTOR \<Rightarrow> u64 list" where
  "frames_of d = map of_nat [unat (md_base d)..<unat (md_base d + md_count d)]"

definition add_frame :: "u64 \<Rightarrow> u64 \<Rightarrow> u64 \<Rightarrow> MM \<Rightarrow> MM" where
  "add_frame lo hi p s =
    (if p = 0 then s else if lo \<le> p \<and> p < hi then s else mi_insert_page_in_list FreePageList p s)"

definition add_descriptor :: "u64 \<Rightarrow> u64 \<Rightarrow> MEMORY_ALLOCATION_DESCRIPTOR \<Rightarrow> MM \<Rightarrow> MM" where
  "add_descriptor lo hi d s =
    (if md_type d = LoaderFree then fold (add_frame lo hi) (frames_of d) s else s)"

definition mi_init_pfn_from_loader_block :: "MEMORY_ALLOCATION_DESCRIPTOR list \<Rightarrow> MM \<Rightarrow> bool \<times> MM" where
  "mi_init_pfn_from_loader_block ds s =
    (if ds = [] then (False, s)
     else case scan_descriptors ds of (lowest, highest, usable) \<Rightarrow>
       if highest = 0 \<or> lowest = - 1 \<or> usable = 0 then (False, s)
       else let db_pages = bytes_to_pages (highest * SIZEOF_MMPFN);
                base = pfn_db_base ds db_pages
            in if base = 0 then (False, s)
               else (True, fold (add_descriptor base (base + db_pages)) ds (s\<lparr>pfn_db := pfn_database_init 0 highest\<rparr>)))"

section \<open>What the steps do\<close>

text \<open>The invariant of the state: the lists, what the locations say, and a hyperspace slot to spare.\<close>

definition mm_inv :: "MM \<Rightarrow> frame_lists \<Rightarrow> bool" where
  "mm_inv s a \<longleftrightarrow> frames_ok s a \<and> loc_ok s a \<and> slot_free s"

lemma inv_frames: "mm_inv s a \<Longrightarrow> frames_ok s a"
  and inv_slot: "mm_inv s a \<Longrightarrow> slot_free s"
  and inv_loc: "mm_inv s a \<Longrightarrow> loc_ok s a"
  by (simp_all add: mm_inv_def)

lemma slot_free_cong: "hyper_bitmap s' = hyper_bitmap s \<Longrightarrow> slot_free s' = slot_free s"
  by (simp add: slot_free_def)

lemma frames_slot: "frames_ok s' a \<Longrightarrow> hyper_bitmap s' = hyper_bitmap s \<Longrightarrow> loc_ok s' a \<Longrightarrow> mm_inv s b \<Longrightarrow> mm_inv s' a"
  using slot_free_cong [of s' s] by (simp add: mm_inv_def)

lemma loc_move:
  assumes "loc_ok s a" and "a A = p # ps" and "A \<noteq> B"
    and "\<And>q. q \<noteq> p \<Longrightarrow> pf_loc (ent s' q) = pf_loc (ent s q)" and "in_db s' = in_db s"
  shows "loc_ok s' (a(A := ps, B := p # a B))"
proof -
  have "q \<noteq> p \<and> off_lists q a" if "off_lists q (a(A := ps, B := p # a B))" for q
  proof -
    have "q \<noteq> p" using that unfolding off_lists_def by (metis fun_upd_same list.set_intros(1))
    moreover have "q \<notin> set (a l)" for l
      using that assms(2,3) \<open>q \<noteq> p\<close> unfolding off_lists_def
      by (cases "l = A"; cases "l = B") (auto dest: spec [of _ l])
    ultimately show ?thesis by (simp add: off_lists_def)
  qed
  then show ?thesis using assms unfolding loc_ok_def by metis
qed

lemma zero_physical_ok: "frames_ok s a \<Longrightarrow> frames_ok (mi_zero_physical_page p s) a"
  by (auto simp: zero_physical frames_ok_def reps_other_fields mm_fields)

lemma zero_one_moves:
  assumes ok: "mm_inv s a" and f: "a FreePageList = p # ps"
  shows "\<exists>s'. zero_one s = Some (True, s') \<and> mm_inv s' (a(FreePageList := ps, ZeroedPageList := p # a ZeroedPageList))"
proof -
  note F = inv_frames [OF ok]
  let ?t = "mi_zero_physical_page p (mi_remove_page_from_list FreePageList p s)"
  let ?u = "get_pfn_entry_mut p (\<lambda>e. e\<lparr>pf_loc := mmlists_code ZeroedPageList\<rparr>) ?t"
  have t: "frames_ok (mi_remove_page_from_list FreePageList p s) (a(FreePageList := ps))"
    "off_lists p (a(FreePageList := ps))" "in_db s p"
    using remove_uncounted_ok [OF F f] by simp_all
  have sf: "slot_free (mi_remove_page_from_list FreePageList p s)"
    using ok slot_free_cong [of "mi_remove_page_from_list FreePageList p s" s] by (simp add: mm_inv_def mm_fields)
  have u: "frames_ok ?u (a(FreePageList := ps))" by (rule ok_off [OF zero_physical_ok [OF t(1)] t(2)])
  have "frames_ok (mi_insert_zeroed_page p ?u) ((a(FreePageList := ps))(ZeroedPageList := p # (a(FreePageList := ps)) ZeroedPageList))"
    by (rule insert_zeroed_ok [OF u _ t(2)]) (simp_all add: mm_fields t(3) sf)
  moreover have "slot_free (mi_insert_zeroed_page p ?u)"
    using sf slot_free_cong [of "mi_insert_zeroed_page p ?u" "mi_remove_page_from_list FreePageList p s"]
    by (simp add: mi_insert_zeroed_page_def mm_fields)
  moreover have "loc_ok (mi_insert_zeroed_page p ?u) (a(FreePageList := ps, ZeroedPageList := p # a ZeroedPageList))"
    by (rule loc_move [OF inv_loc [OF ok] f]) (simp_all add: mi_insert_zeroed_page_def mm_fields insert_loc)
  moreover have "zero_one s = Some (True, mi_insert_zeroed_page p ?u)"
    using take_head(2) [OF frames_reps [OF F] f] by (simp add: zero_one_def mi_allocate_pfn_for_zero_page_def Let_def)
  ultimately show ?thesis by (simp add: mm_inv_def)
qed

lemma ok_flags: "frames_ok s a \<Longrightarrow> frames_ok (get_pfn_entry_mut p (mmpfn_set_flag f) s) a"
  by (auto simp: frames_ok_def mm_fields mmpfn_set_flag_def intro!: reps_same_links)

lemma get_modified:
  assumes "frames_ok s a"
  shows "a ModifiedPageList = [] \<Longrightarrow> mi_get_modified_page_for_write s = (None, s)"
    and "a ModifiedPageList = p # ps \<Longrightarrow> mi_get_modified_page_for_write s =
      (Some (p, pf_orig (ent s p), pf_pte (ent s p)), get_pfn_entry_mut p (mmpfn_set_flag WriteInProgress) s)"
  using rep_flink [OF frames_reps [OF assms], of ModifiedPageList] rep_hd [OF frames_reps [OF assms], of ModifiedPageList]
    rep_in_db [OF frames_reps [OF assms], of p ModifiedPageList]
  by (simp_all add: mi_get_modified_page_for_write_def Let_def get_entry)

lemma complete_ok:
  assumes ok: "frames_ok s a" and m: "a ModifiedPageList = p # ps"
  shows "frames_ok (mi_complete_modified_page_write p success s)
    (if success then a(ModifiedPageList := ps, StandbyPageList := p # a StandbyPageList) else a)"
proof -
  let ?s = "mi_remove_page_from_modified_list p s" and ?b = "a(ModifiedPageList := ps)"
  have f: "frames_ok ?s ?b" using removed_ok [OF ok, of p ModifiedPageList] m
    by (simp add: mi_remove_page_from_modified_list_def counted_down_def Let_def)
  have off: "off_lists p ?b" and db: "in_db s p"
    using off_after_remove [OF frames_reps [OF ok], of p ModifiedPageList] rep_in_db [OF frames_reps [OF ok], of p ModifiedPageList] m
    by simp_all
  define t where "t = get_pfn_entry_mut p (\<lambda>e. mmpfn_clear_flag Modified (mmpfn_clear_flag WriteInProgress e)) ?s"
  have t: "frames_ok t ?b" "in_db t p" using ok_off [OF f off] db by (simp_all add: t_def mm_fields mi_remove_page_from_modified_list_def)
  have "?b(ModifiedPageList := p # ps) = a" using m by auto
  then show ?thesis
    using standby_ok [OF t(1,2) off] modified_ok [OF t(1,2) off]
    by (simp add: mi_complete_modified_page_write_def Let_def flip: t_def)
qed


lemma removal_bitmap:
  "hyper_bitmap (mi_remove_page_from_modified_list p s) = hyper_bitmap s"
  "hyper_bitmap (mi_insert_page_in_standby_list p s) = hyper_bitmap s"
  "hyper_bitmap (mi_insert_page_in_modified_list p s) = hyper_bitmap s"
  "hyper_bitmap (mi_complete_modified_page_write p ok s) = hyper_bitmap s"
  by (simp_all add: mi_remove_page_from_modified_list_def mi_insert_page_in_standby_list_def
      mi_insert_page_in_modified_list_def mi_complete_modified_page_write_def Let_def mm_fields)

lemma write_one_moves:
  assumes ok: "mm_inv s a" and m: "a ModifiedPageList = p # ps"
  shows "\<exists>s'. write_one s = Some (True, s') \<and> mm_inv s' (a(ModifiedPageList := ps, StandbyPageList := p # a StandbyPageList))"
proof -
  note F = inv_frames [OF ok]
  let ?t = "get_pfn_entry_mut p (mmpfn_set_flag WriteInProgress) s"
  have "frames_ok (mi_complete_modified_page_write p True ?t) (a(ModifiedPageList := ps, StandbyPageList := p # a StandbyPageList))"
    using complete_ok [OF ok_flags [OF F] m, where success = True] by simp
  then have "mm_inv (mi_complete_modified_page_write p True ?t) (a(ModifiedPageList := ps, StandbyPageList := p # a StandbyPageList))"
    by (rule frames_slot [OF _ _ loc_move [OF inv_loc [OF ok] m] ok])
      (simp_all add: removal_bitmap mm_fields mi_complete_modified_page_write_def Let_def insert_loc
        mi_insert_page_in_standby_list_def mi_remove_page_from_modified_list_def)
  then show ?thesis
    using get_modified(2) [OF F m] by (auto simp: write_one_def mi_write_page_to_backing_store_def Let_def)
qed

interpretation zeroing: frame_mover mm_inv zero_one FreePageList ZeroedPageList
proof
  show "zero_one s = None" if "mm_inv s a" "a FreePageList = []" for s a
    using that take_head(1) [of s a FreePageList]
    by (simp add: zero_one_def mi_allocate_pfn_for_zero_page_def mm_inv_def frames_ok_def)
qed (use zero_one_moves in simp_all)

interpretation writing: frame_mover mm_inv write_one ModifiedPageList StandbyPageList
proof
  show "write_one s = None" if "mm_inv s a" "a ModifiedPageList = []" for s a
    using that get_modified(1) [of s a] by (simp add: write_one_def mm_inv_def)
qed (use write_one_moves in simp_all)

lemma length_word_bound:
  assumes "reps s a"
  shows "unat (of_nat (length (a l)) :: u64) = length (a l)"
proof -
  have "length (a l) = card (set (a l))" using rep_distinct [OF assms, of l] by (simp add: distinct_card)
  also have "\<dots> \<le> card (UNIV - {LIST_HEAD})"
    using rep_in_db [OF assms, of _ l] in_db_not_head by (intro card_mono) auto
  also have "\<dots> = 2 ^ 64 - 1" by (simp add: card_Diff_singleton card_word)
  finally show ?thesis by (simp add: unat_of_nat_64)
qed

lemma zeroed_total: "mm_inv s a \<Longrightarrow> unat (mm_get_zeroed_page_count s) = length (a ZeroedPageList)"
  and free_total: "mm_inv s a \<Longrightarrow> unat (mm_get_free_page_count s) = length (a FreePageList)"
  and modified_total: "mm_inv s a \<Longrightarrow> unat (mm_get_modified_page_count s) = length (a ModifiedPageList)"
  using length_word_bound [of s a] rep_total [of s a]
  by (simp_all add: mm_inv_def frames_ok_def mm_get_zeroed_page_count_def mm_get_free_page_count_def mmpfnlist_count_def
      mm_get_modified_page_count_def)

text \<open>The flush ends, and then every page that was modified is on the standby list.\<close>

lemma flush:
  assumes "mm_inv s a"
  shows "\<exists>s' b. mm_flush_all_modified_pages s = Some s' \<and> mm_inv s' b \<and> b ModifiedPageList = [] \<and>
    set (b StandbyPageList) = set (a StandbyPageList) \<union> set (a ModifiedPageList) \<and>
    (\<forall>l. l \<noteq> StandbyPageList \<and> l \<noteq> ModifiedPageList \<longrightarrow> b l = a l)"
  using assms
proof (induction "length (a ModifiedPageList)" arbitrary: s a rule: less_induct)
  case less
  note t = modified_total [OF less.prems]
  show ?case
  proof (cases "mm_get_modified_page_count s = 0")
    case True
    then have "a ModifiedPageList = []" using t by simp
    then show ?thesis using True less.prems by (subst mm_flush_all_modified_pages.simps) auto
  next
    case False
    define n where "n = unat (min (mm_get_modified_page_count s) (MPW_BATCH_SIZE * 4))"
    have n: "0 < n" "n \<le> length (a ModifiedPageList)"
      using False t by (auto simp: n_def min_def MPW_BATCH_SIZE_def word_le_nat_alt unat_gt_0)
    obtain s' where s': "mi_write_modified_pages_batch n s = (n, s')"
      "mm_inv s' (a(ModifiedPageList := drop n (a ModifiedPageList),
         StandbyPageList := rev (take n (a ModifiedPageList)) @ a StandbyPageList))" (is "mm_inv s' ?b")
      using writing.batch [OF less.prems, of n] n by (auto simp: mi_write_modified_pages_batch_def min_def split: if_splits)
    have "length (?b ModifiedPageList) < length (a ModifiedPageList)" using n by simp
    from less.hyps [OF this s'(2)] obtain s'' b where b: "mm_flush_all_modified_pages s' = Some s''" "mm_inv s'' b"
      "b ModifiedPageList = []" "set (b StandbyPageList) = set (?b StandbyPageList) \<union> set (?b ModifiedPageList)"
      "\<forall>l. l \<noteq> StandbyPageList \<and> l \<noteq> ModifiedPageList \<longrightarrow> b l = ?b l" by blast
    have "set (a ModifiedPageList) = set (take n (a ModifiedPageList)) \<union> set (drop n (a ModifiedPageList))"
      by (metis append_take_drop_id set_append)
    then have "set (b StandbyPageList) = set (a StandbyPageList) \<union> set (a ModifiedPageList)" using b(4) by auto
    moreover have "mm_flush_all_modified_pages s = Some s''"
      using False s'(1) n b(1) by (subst mm_flush_all_modified_pages.simps) (simp add: n_def)
    moreover have "\<forall>l. l \<noteq> StandbyPageList \<and> l \<noteq> ModifiedPageList \<longrightarrow> b l = a l" using b(5) by simp
    ultimately show ?thesis using b(2,3) by blast
  qed
qed

end
