(* ===== verification/PfnProps.thy ===== *)
theory PfnProps
  imports PageThreads
begin

text \<open>
  Correctness of the frame database: its state machine, the invariant of its reachable states,
  what allocation promises, and what goes wrong where the source does not keep to its rules.
\<close>

section \<open>Allocation\<close>

definition spec_allocate :: "frame_lists \<Rightarrow> u64 option \<times> frame_lists" where
  "spec_allocate a = (case a ZeroedPageList of p # ps \<Rightarrow> (Some p, a(ZeroedPageList := ps))
     | [] \<Rightarrow> (case a FreePageList of p # ps \<Rightarrow> (Some p, a(FreePageList := ps)) | [] \<Rightarrow> (None, a)))"

definition spec_allocate_ex :: "frame_lists \<Rightarrow> u64 option \<times> frame_lists" where
  "spec_allocate_ex a = (case spec_allocate a of
     (None, _) \<Rightarrow> (case a StandbyPageList of p # ps \<Rightarrow> (Some p, a(StandbyPageList := ps)) | [] \<Rightarrow> (None, a))
   | r \<Rightarrow> r)"

lemma take_inv:
  assumes inv: "mm_inv s a" and h: "a l = p # ps" and l: "l \<noteq> StandbyPageList" "l \<noteq> ModifiedPageList"
    and f: "\<And>q. q \<noteq> p \<Longrightarrow> pf_loc (ent s' q) = pf_loc (ent s q)" "pf_loc (ent s' p) = mmlists_code ActiveAndValid"
      "frames_ok s' (a(l := ps))" "in_db s' = in_db s" "hyper_bitmap s' = hyper_bitmap s"
  shows "mm_inv s' (a(l := ps)) \<and> frame_active s' p"
proof -
  have m: "p \<in> set (a l)" using h by simp
  have db: "in_db s p" by (rule rep_in_db [OF frames_reps [OF inv_frames [OF inv]] m])
  have "loc_ok s' (a(l := remove1 p (a l)))" by (rule loc_remove [OF inv_loc [OF inv] f(1,4,2)])
  then have "loc_ok s' (a(l := ps))" using h by simp
  moreover have "mm_inv s' (a(l := ps))"
    using inv slot_free_cong [OF f(5)] f(3) \<open>loc_ok s' (a(l := ps))\<close> by (simp add: mm_inv_def)
  ultimately show ?thesis using f(2,4) db by (simp add: mm_inv_def frame_active_def)
qed

lemma allocate_inv:
  assumes inv: "mm_inv s a"
  shows "fst (mi_allocate_pfn s) = fst (spec_allocate a)"
    and "mm_inv (snd (mi_allocate_pfn s)) (snd (spec_allocate a))"
    and "mi_allocate_pfn s = (Some p, s') \<Longrightarrow> frame_active s' p \<and> pf_refs (ent s' p) = 1 \<and>
      page_bytes s' p = replicate PAGE_BYTES 0 \<and> (\<forall>q. q \<noteq> p \<longrightarrow> page_bytes s' q = page_bytes s q)"
proof -
  note F = inv_frames [OF inv] and R = frames_reps [OF inv_frames [OF inv]]
  have "fst (mi_allocate_pfn s) = fst (spec_allocate a) \<and> mm_inv (snd (mi_allocate_pfn s)) (snd (spec_allocate a)) \<and>
    (mi_allocate_pfn s = (Some p, s') \<longrightarrow> frame_active s' p \<and> pf_refs (ent s' p) = 1 \<and>
      page_bytes s' p = replicate PAGE_BYTES 0 \<and> (\<forall>q. q \<noteq> p \<longrightarrow> page_bytes s' q = page_bytes s q))"
  proof (cases "a ZeroedPageList")
    case (Cons r rs)
    let ?t = "get_pfn_entry_mut r make_active (mi_remove_page_from_list ZeroedPageList r s)"
    have e: "mi_allocate_pfn s = (Some r, ?t)"
      using take_head(2) [OF R Cons] by (simp add: mi_allocate_pfn_def mi_remove_zero_page_def)
    note t = remove_uncounted_ok [OF F Cons, simplified]
    have "mm_inv ?t (a(ZeroedPageList := rs)) \<and> frame_active ?t r"
      by (rule take_inv [OF inv Cons]) (use ok_off [OF t(1,2)] t(3) in \<open>simp_all add: mm_fields make_active_def\<close>)
    moreover have "page_bytes s r = replicate PAGE_BYTES 0" using F Cons by (simp add: frames_ok_def)
    ultimately show ?thesis using e t(3) Cons by (auto simp: spec_allocate_def mm_fields make_active_def)
  next
    case Z: Nil
    note nz = take_head(1) [OF R Z]
    show ?thesis
    proof (cases "a FreePageList")
      case (Cons r rs)
      let ?t = "get_pfn_entry_mut r make_active (zero_page r (mi_remove_page_from_list FreePageList r s))"
      have e: "mi_allocate_pfn s = (Some r, ?t)"
        using take_head(2) [OF R Cons] nz
        by (simp add: mi_allocate_pfn_def mi_remove_zero_page_def mi_remove_free_page_def)
      note t = remove_uncounted_ok [OF F Cons, simplified]
      have "mm_inv ?t (a(FreePageList := rs)) \<and> frame_active ?t r"
        by (rule take_inv [OF inv Cons]) (use ok_off [OF ok_zero_page [OF t(1)] t(2)] t(3) in \<open>simp_all add: mm_fields make_active_def\<close>)
      then show ?thesis using e t(3) Cons Z by (auto simp: spec_allocate_def mm_fields make_active_def)
    next
      case Nil
      then have "mi_allocate_pfn s = (None, s)"
        using take_head(1) [OF R Nil] nz
        by (simp add: mi_allocate_pfn_def mi_remove_zero_page_def mi_remove_free_page_def)
      then show ?thesis using Nil Z inv by (simp add: spec_allocate_def)
    qed
  qed
  then show "fst (mi_allocate_pfn s) = fst (spec_allocate a)"
    "mm_inv (snd (mi_allocate_pfn s)) (snd (spec_allocate a))"
    "mi_allocate_pfn s = (Some p, s') \<Longrightarrow> frame_active s' p \<and> pf_refs (ent s' p) = 1 \<and>
      page_bytes s' p = replicate PAGE_BYTES 0 \<and> (\<forall>q. q \<noteq> p \<longrightarrow> page_bytes s' q = page_bytes s q)" by blast+
qed

lemma allocate_ex_same: "fst (mi_allocate_pfn s) \<noteq> None \<Longrightarrow> mi_allocate_pfn_ex s = mi_allocate_pfn s"
  by (simp add: mi_allocate_pfn_ex_def mi_allocate_pfn_def split: prod.splits option.splits)

lemma spec_allocate_None: "fst (spec_allocate a) = None \<longleftrightarrow> a ZeroedPageList = [] \<and> a FreePageList = []"
  by (simp add: spec_allocate_def split: list.splits)

lemma repurpose_fields:
  assumes "in_db s p"
  shows "forget_transition p s = put_entry p (\<lambda>e. (make_active e)\<lparr>pf_pte := 0, pf_orig := 0\<rparr>)
    (if pf_pte (ent s p) \<noteq> 0 then s\<lparr>pte_words := (pte_words s)(pf_pte (ent s p) := 0)\<rparr> else s)"
  using assms by (simp add: forget_transition_def get_entry Let_def)

lemma ok_put_off: "frames_ok s a \<Longrightarrow> off_lists p a \<Longrightarrow> in_db s p \<Longrightarrow> frames_ok (put_entry p f s) a"
  using ok_off [of s a p f] by (simp add: get_mut)

lemma ok_pte_words: "frames_ok (s\<lparr>pte_words := w\<rparr>) a = frames_ok s a"
  by (simp add: frames_ok_def reps_other_fields)

lemma allocate_ex_inv:
  assumes inv: "mm_inv s a"
  shows "fst (mi_allocate_pfn_ex s) = fst (spec_allocate_ex a) \<and>
    mm_inv (snd (mi_allocate_pfn_ex s)) (snd (spec_allocate_ex a)) \<and>
    (\<forall>p s'. mi_allocate_pfn_ex s = (Some p, s') \<longrightarrow> frame_active s' p \<and> page_bytes s' p = replicate PAGE_BYTES 0)"
proof (cases "fst (spec_allocate a)")
  case (Some p)
  then have "mi_allocate_pfn_ex s = mi_allocate_pfn s" "spec_allocate_ex a = spec_allocate a"
    using allocate_inv(1) [OF inv] by (auto simp: allocate_ex_same spec_allocate_ex_def split: prod.splits option.splits)
  then show ?thesis using allocate_inv [OF inv] by metis
next
  case None
  then have z: "a ZeroedPageList = []" "a FreePageList = []" by (simp_all add: spec_allocate_None)
  note F = inv_frames [OF inv] and R = frames_reps [OF inv_frames [OF inv]]
  have n: "mi_allocate_pfn_ex s = (case mi_repurpose_standby_page s of (Some p, s) \<Rightarrow> (Some p, zero_page p s) | (None, s) \<Rightarrow> (None, s))"
    using take_head(1) [OF R z(1)] take_head(1) [OF R z(2)]
    by (simp add: mi_allocate_pfn_ex_def mi_remove_zero_page_def mi_remove_free_page_def)
  show ?thesis
  proof (cases "a StandbyPageList")
    case Nil
    then show ?thesis using n take_head(1) [OF R Nil] z inv
      by (simp add: mi_repurpose_standby_page_def spec_allocate_ex_def spec_allocate_def)
  next
    case (Cons p ps)
    define t where "t = counted_down StandbyPageList (mi_remove_page_from_list StandbyPageList p s)"
    have m: "p \<in> set (a StandbyPageList)" using Cons by simp
    have t: "frames_ok t (a(StandbyPageList := ps))" "off_lists p (a(StandbyPageList := ps))"
      using removed_ok [OF F m] off_after_remove [OF R m] Cons by (simp_all add: t_def)
    have db: "in_db t p" using rep_in_db [OF R m] by (simp add: t_def counted_down_fields mm_fields)
    have tf: "in_db t = in_db s" "hyper_bitmap t = hyper_bitmap s" "\<And>q. pf_loc (ent t q) = pf_loc (ent s q)"
      by (simp_all add: t_def counted_down_fields mm_fields)
    define u where "u = zero_page p (forget_transition p t)"
    have e: "mi_allocate_pfn_ex s = (Some p, u)"
      using take_head(2) [OF R Cons] by (simp add: n mi_repurpose_standby_page_def u_def t_def counted_down_def mm_fields)
    have "frames_ok u (a(StandbyPageList := ps))"
      unfolding u_def repurpose_fields [OF db]
      by (intro ok_zero_page ok_put_off t(2)) (use t(1) db in \<open>simp_all add: ok_pte_words mm_fields\<close>)
    moreover have "loc_ok u (a(StandbyPageList := ps))"
    proof -
      have "loc_ok u (a(StandbyPageList := remove1 p (a StandbyPageList)))"
        by (rule loc_remove [OF inv_loc [OF inv]]) (simp_all add: u_def repurpose_fields [OF db] mm_fields tf make_active_def)
      then show ?thesis using Cons by simp
    qed
    moreover have "hyper_bitmap u = hyper_bitmap s" by (simp add: u_def repurpose_fields [OF db] mm_fields tf)
    ultimately have "mm_inv u (a(StandbyPageList := ps))"
      using inv_slot [OF inv] slot_free_cong [of u s] by (simp add: mm_inv_def mm_inv_def)
    moreover have "frame_active u p \<and> page_bytes u p = replicate PAGE_BYTES 0"
      using db by (simp add: u_def repurpose_fields [OF db] mm_fields frame_active_def make_active_def)
    ultimately show ?thesis using e Cons z by (simp add: spec_allocate_ex_def spec_allocate_def)
  qed
qed

section \<open>The other operations\<close>

lemma add_inv:
  assumes inv: "mm_inv s a" and p: "frame_active s p"
    and f: "frames_ok s' (a(l := p # a l))" "in_db s' = in_db s" "hyper_bitmap s' = hyper_bitmap s"
      "\<And>q. q \<noteq> p \<Longrightarrow> pf_loc (ent s' q) = pf_loc (ent s q)"
  shows "mm_inv s' (a(l := p # a l))"
  using frames_slot [OF f(1,3) loc_insert [OF inv_loc [OF inv] f(4,2)] inv] .

lemma free_inv:
  assumes inv: "mm_inv s a" and p: "frame_active s p"
  shows "mm_inv (mi_free_pfn p s) (a(FreePageList := p # a FreePageList))"
proof (rule add_inv [OF assms])
  show "frames_ok (mi_free_pfn p s) (a(FreePageList := p # a FreePageList))"
    by (rule free_ok [OF inv_frames [OF inv] _ active_off [OF inv_frames [OF inv] p]])
      (use p in \<open>simp add: frame_active_def\<close>)
qed (simp_all add: mi_free_pfn_def mm_fields insert_loc)

lemma transition_inv:
  assumes inv: "mm_inv s a" and p: "frame_active s p"
  shows "mm_inv (mi_make_transition_page p dirty s)
    (if dirty then a(ModifiedPageList := p # a ModifiedPageList) else a(StandbyPageList := p # a StandbyPageList))"
proof -
  have db: "in_db s p" using p by (simp add: frame_active_def)
  note off = active_off [OF inv_frames [OF inv] p]
  note ok = transition_ok [OF inv_frames [OF inv] db off, of dirty]
  show ?thesis
    using add_inv [OF assms, of "mi_make_transition_page p dirty s" ModifiedPageList]
      add_inv [OF assms, of "mi_make_transition_page p dirty s" StandbyPageList] ok
    by (cases dirty) (simp_all add: mi_make_transition_page_def mi_insert_page_in_modified_list_def
        mi_insert_page_in_standby_list_def Let_def mm_fields insert_loc)
qed

lemma resolve_inv:
  assumes inv: "mm_inv s a" and p: "in_db s p"
    and l: "pf_loc (ent s p) = mmlists_code StandbyPageList \<or> pf_loc (ent s p) = mmlists_code ModifiedPageList"
  shows "\<exists>b. mm_inv (mi_resolve_transition_page p s) b \<and> frame_active (mi_resolve_transition_page p s) p"
proof -
  obtain l where m: "p \<in> set (a l)"
    using l on_list [OF inv_loc [OF inv] frames_reps [OF inv_frames [OF inv]] p] by blast
  let ?t = "mi_resolve_transition_page p s"
  have f: "\<And>q. pf_loc (ent (mi_unlink_page_from_list p s) q) = pf_loc (ent s q)"
    "in_db (mi_unlink_page_from_list p s) = in_db s" "hyper_bitmap (mi_unlink_page_from_list p s) = hyper_bitmap s"
    by (simp_all add: mi_unlink_page_from_list_def get_entry mm_fields)
  have "frames_ok ?t (a(l := remove1 p (a l)))" by (rule resolve_ok [OF inv_frames [OF inv] m])
  moreover have "loc_ok ?t (a(l := remove1 p (a l)))"
    by (rule loc_remove [OF inv_loc [OF inv]]) (use p in \<open>simp_all add: mi_resolve_transition_page_def mm_fields f\<close>)
  moreover have "slot_free ?t"
    using slot_free_cong [of ?t s] inv_slot [OF inv] by (simp add: mi_resolve_transition_page_def mm_fields f)
  ultimately have "mm_inv ?t (a(l := remove1 p (a l)))" by (simp add: mm_inv_def mm_inv_def)
  moreover have "frame_active ?t p" using p by (simp add: frame_active_def mi_resolve_transition_page_def mm_fields f)
  ultimately show ?thesis by blast
qed

section \<open>The state machine\<close>

text \<open>
  What the kernel does to the database, one operation at a time. Frames in use are freed,
  trimmed, written and counted; frames on the standby and modified lists are faulted back.
\<close>

inductive mm_step :: "MM \<Rightarrow> MM \<Rightarrow> bool" where
  Allocate: "mm_step s (snd (mi_allocate_pfn s))"
| Allocate_ex: "mm_step s (snd (mi_allocate_pfn_ex s))"
| Free: "frame_active s p \<Longrightarrow> mm_step s (mi_free_pfn p s)"
| Dereference: "frame_active s p \<Longrightarrow> mm_step s (snd (mi_dereference_pfn p s))"
| Reference: "mm_step s (mi_reference_pfn p s)"
| Share: "mm_step s (mi_increment_share_count p s)"
| Unshare: "mm_step s (mi_decrement_share_count p s)"
| Trim: "frame_active s p \<Longrightarrow> mm_step s (mi_make_transition_page p dirty s)"
| Fault_back: "in_db s p \<Longrightarrow>
    pf_loc (ent s p) = mmlists_code StandbyPageList \<or> pf_loc (ent s p) = mmlists_code ModifiedPageList \<Longrightarrow>
    mm_step s (mi_resolve_transition_page p s)"
| Zero_batch: "mm_step s (snd (mi_zero_page_batch n s))"
| Write_batch: "mm_step s (snd (mi_write_modified_pages_batch n s))"
| Use: "frame_active s p \<Longrightarrow> mm_step s (s\<lparr>page_bytes := (page_bytes s)(p := bytes)\<rparr>)"

definition mm_reachable :: "MM \<Rightarrow> MM \<Rightarrow> bool" where
  "mm_reachable s0 s \<longleftrightarrow> mm_step\<^sup>*\<^sup>* s0 s"

lemma same_links_inv:
  assumes "mm_inv s a" and "\<And>e. pf_blink (f e) = pf_blink e \<and> pf_flink (f e) = pf_flink e \<and> pf_loc (f e) = pf_loc e"
  shows "mm_inv (get_pfn_entry_mut p f s) a"
proof (rule frames_slot [OF _ _ _ assms(1)])
  show "frames_ok (get_pfn_entry_mut p f s) a"
    using assms(1) reps_same_links [OF _ assms(2)] by (simp add: mm_inv_def frames_ok_def mm_fields)
  show "loc_ok (get_pfn_entry_mut p f s) a"
    by (rule loc_same [OF inv_loc [OF assms(1)]]) (simp_all add: mm_fields assms(2))
qed (simp add: mm_fields)

lemma dereference_inv:
  assumes inv: "mm_inv s a" and p: "frame_active s p"
  shows "\<exists>b. mm_inv (snd (mi_dereference_pfn p s)) b"
proof -
  let ?t = "get_pfn_entry_mut p (\<lambda>e. e\<lparr>pf_refs := saturating_dec (pf_refs e)\<rparr>) s"
  have t: "mm_inv ?t a" by (rule same_links_inv [OF inv]) simp
  have "frame_active ?t p" using p by (simp add: frame_active_def mm_fields)
  from free_inv [OF t this] t p show ?thesis
    by (auto simp: mi_dereference_pfn_def Let_def get_entry frame_active_def mm_fields)
qed

lemma use_inv:
  assumes inv: "mm_inv s a" and p: "frame_active s p"
  shows "mm_inv (s\<lparr>page_bytes := (page_bytes s)(p := b)\<rparr>) a"
proof (rule frames_slot [OF _ _ _ inv])
  have "p \<notin> set (a ZeroedPageList)" using active_off [OF inv_frames [OF inv] p] by (simp add: off_lists_def)
  then have "\<forall>q\<in>set (a ZeroedPageList). ((page_bytes s)(p := b)) q = replicate PAGE_BYTES 0"
    using inv_frames [OF inv] by (auto simp: frames_ok_def)
  then show "frames_ok (s\<lparr>page_bytes := (page_bytes s)(p := b)\<rparr>) a"
    using inv_frames [OF inv] by (simp add: frames_ok_def reps_other_fields)
  show "loc_ok (s\<lparr>page_bytes := (page_bytes s)(p := b)\<rparr>) a"
    by (rule loc_same [OF inv_loc [OF inv]]) (simp_all add: mm_fields)
qed simp

lemma step_inv: "mm_step s t \<Longrightarrow> mm_inv s a \<Longrightarrow> \<exists>b. mm_inv t b"
proof (induction rule: mm_step.cases)
  case (Allocate s)
  then show ?case using allocate_inv(2) by blast
next
  case (Allocate_ex s)
  then show ?case using allocate_ex_inv by blast
next
  case (Free s p)
  then show ?case using free_inv by blast
next
  case (Dereference s p)
  then show ?case using dereference_inv by blast
next
  case (Reference s p)
  then show ?case using same_links_inv [of s a "\<lambda>e. e\<lparr>pf_refs := saturating_inc (pf_refs e)\<rparr>" p]
    by (auto simp: mi_reference_pfn_def)
next
  case (Share s p)
  then show ?case using same_links_inv [of s a "\<lambda>e. e\<lparr>pf_share := saturating_inc (pf_share e)\<rparr>" p]
    by (auto simp: mi_increment_share_count_def)
next
  case (Unshare s p)
  then show ?case using same_links_inv [of s a "\<lambda>e. e\<lparr>pf_share := saturating_dec (pf_share e)\<rparr>" p]
    by (auto simp: mi_decrement_share_count_def)
next
  case (Trim s p dirty)
  then show ?case using transition_inv by blast
next
  case (Fault_back s p)
  then show ?case using resolve_inv by blast
next
  case (Zero_batch s n)
  then show ?case using zeroing.batch [of s a n] by (auto simp: mi_zero_page_batch_def)
next
  case (Write_batch s n)
  then show ?case using writing.batch [of s a n] by (auto simp: mi_write_modified_pages_batch_def)
next
  case (Use s p bytes)
  then show ?case using use_inv by blast
qed

lemma reachable_inv:
  assumes "mm_reachable s0 s" and "mm_inv s0 a"
  shows "\<exists>b. mm_inv s b"
  using assms unfolding mm_reachable_def by (induction rule: rtranclp_induct) (use step_inv in blast)+

section \<open>Filling the free list\<close>

definition keep_frame :: "u64 \<Rightarrow> u64 \<Rightarrow> u64 \<Rightarrow> bool" where
  "keep_frame lo hi p \<longleftrightarrow> p \<noteq> 0 \<and> \<not> (lo \<le> p \<and> p < hi)"

lemma add_frames:
  assumes "mm_inv s a" and "distinct ps" and "\<And>p. p \<in> set ps \<Longrightarrow> off_lists p a"
  shows "mm_inv (fold (add_frame lo hi) ps s)
      (a(FreePageList := rev (filter (\<lambda>p. keep_frame lo hi p \<and> in_db s p) ps) @ a FreePageList)) \<and>
    in_db (fold (add_frame lo hi) ps s) = in_db s"
  using assms
proof (induction ps arbitrary: s a)
  case Nil
  then show ?case by simp
next
  case (Cons p ps)
  show ?case
  proof (cases "keep_frame lo hi p \<and> in_db s p")
    case False
    then have "add_frame lo hi p s = s"
      by (auto simp: add_frame_def keep_frame_def mi_insert_page_in_list_def in_db_def)
    then show ?thesis using Cons.IH [OF Cons.prems(1)] Cons.prems False by auto
  next
    case True
    then have e: "add_frame lo hi p s = mi_insert_page_in_list FreePageList p s" by (auto simp: add_frame_def keep_frame_def)
    let ?b = "a(FreePageList := p # a FreePageList)"
    have ok: "frames_ok (mi_insert_page_in_list FreePageList p s) ?b"
      by (rule insert_free_ok [OF inv_frames [OF Cons.prems(1)]]) (use True Cons.prems(3) in auto)
    have "mm_inv (mi_insert_page_in_list FreePageList p s) ?b"
      by (rule frames_slot [OF ok _ loc_insert [OF inv_loc [OF Cons.prems(1)]] Cons.prems(1)])
        (simp_all add: mm_fields insert_loc)
    moreover have "distinct ps" "\<And>q. q \<in> set ps \<Longrightarrow> off_lists q ?b"
      using Cons.prems(2,3) by (auto simp: off_lists_def)
    ultimately have "mm_inv (fold (add_frame lo hi) ps (mi_insert_page_in_list FreePageList p s))
        (?b(FreePageList := rev (filter (\<lambda>p. keep_frame lo hi p \<and> in_db s p) ps) @ ?b FreePageList)) \<and>
      in_db (fold (add_frame lo hi) ps (mi_insert_page_in_list FreePageList p s)) = in_db s"
      using Cons.IH [of "mi_insert_page_in_list FreePageList p s" ?b] unfolding insert_fields(7) by blast
    moreover have "rev (filter (\<lambda>p. keep_frame lo hi p \<and> in_db s p) (p # ps)) @ a FreePageList =
      rev (filter (\<lambda>p. keep_frame lo hi p \<and> in_db s p) ps) @ ?b FreePageList"
      using True by simp
    moreover have "?b(FreePageList := xs) = a(FreePageList := xs)" for xs by simp
    ultimately show ?thesis using e by (simp only: fold_Cons o_apply)
  qed
qed

definition usable_frames :: "MEMORY_ALLOCATION_DESCRIPTOR list \<Rightarrow> u64 list" where
  "usable_frames ds = concat (map frames_of (filter (\<lambda>d. md_type d = LoaderFree) ds))"

lemma add_descriptors: "fold (add_descriptor lo hi) ds s = fold (add_frame lo hi) (usable_frames ds) s"
  by (induction ds arbitrary: s) (auto simp: usable_frames_def add_descriptor_def)

lemma init_db: "s\<lparr>pfn_db := d\<rparr> = mm_initial d (page_bytes s) (pte_words s)"
  if "s = mm_initial d' b w"
  using that by (simp add: mm_initial_def)

lemma initial_inv: "mm_inv (mm_initial (pfn_database_init lo hi) b w) (\<lambda>_. [])"
  using initial_ok [of "pfn_database_init lo hi" b w]
  by (auto simp: mm_inv_def loc_ok_def ent_def mm_initial_def pfn_database_init_def mmpfn_new_def slot_free_def
      HYPERSPACE_SLOTS_PER_CPU_def intro!: exI [of _ 0])

lemma init_free_list0:
  assumes i: "mi_init_pfn_from_loader_block ds (mm_initial db b w) = (True, s)" and d: "distinct (usable_frames ds)"
    and h: "scan_descriptors ds = (lowest, highest, usable)"
  shows "mm_inv s ((\<lambda>_. [])(FreePageList := rev (filter (\<lambda>p. p < highest \<and>
    keep_frame (pfn_db_base ds (bytes_to_pages (highest * SIZEOF_MMPFN)))
      (pfn_db_base ds (bytes_to_pages (highest * SIZEOF_MMPFN)) + bytes_to_pages (highest * SIZEOF_MMPFN)) p)
    (usable_frames ds))))"
proof -
  let ?s = "mm_initial (pfn_database_init 0 highest) b w"
  have v: "in_db ?s p \<longleftrightarrow> p < highest" for p
    by (simp add: in_db_def is_valid_pfn_def mm_initial_def pfn_database_init_def)
  have s: "s = fold (add_frame (pfn_db_base ds (bytes_to_pages (highest * SIZEOF_MMPFN)))
      (pfn_db_base ds (bytes_to_pages (highest * SIZEOF_MMPFN)) + bytes_to_pages (highest * SIZEOF_MMPFN))) (usable_frames ds) ?s"
    using i h by (auto simp: mi_init_pfn_from_loader_block_def Let_def add_descriptors init_db [OF refl] mm_initial_def
        split: if_splits)
  show ?thesis
    using add_frames [OF initial_inv [of 0 highest b w] d] unfolding s
    by (simp add: v off_lists_def conj_commute)
qed

section \<open>Broken rules\<close>

lemma insert_head_again:
  assumes "in_db s p" and "pl_flink (pfn_lists s l) = p"
  shows "pf_flink (ent (mi_insert_page_in_list l p s) p) = p" and "pf_blink (ent (mi_insert_page_in_list l p s) p) = p"
    and "pl_flink (pfn_lists (mi_insert_page_in_list l p s) l) = p"
  using assms in_db_not_head [OF assms(1)]
  by (simp_all add: mi_insert_page_in_list_def Let_def mm_fields link_old_head_def get_mut flip: in_db_def)

lemma remove_self_loop:
  assumes "in_db s p" and "pf_flink (ent s p) = p" and "pf_blink (ent s p) = p"
  shows "pf_flink (ent (mi_remove_page_from_list l p s) p) = LIST_HEAD"
    and "pf_blink (ent (mi_remove_page_from_list l p s) p) = LIST_HEAD"
    and "pfn_lists (mi_remove_page_from_list l p s) =
      (pfn_lists s)(l := (pfn_lists s l)\<lparr>pl_total := pl_total (pfn_lists s l) - 1\<rparr>)"
  using assms in_db_not_head [OF assms(1)]
  by (auto simp: mi_remove_page_from_list_def get_entry Let_def mm_fields unlink_next_def unlink_prev_def)

lemma remove_unlinked:
  assumes "in_db s p" and "pf_flink (ent s p) = LIST_HEAD" and "pf_blink (ent s p) = LIST_HEAD"
  shows "pfn_lists (mi_remove_page_from_list l p s) = (pfn_lists s)(l := (pfn_lists s l)\<lparr>
      pl_total := pl_total (pfn_lists s l) - 1, pl_flink := LIST_HEAD, pl_blink := LIST_HEAD\<rparr>)"
  using assms by (simp add: remove_lists fun_eq_iff)

lemma allocate_from_free:
  assumes "pl_flink (pfn_lists s ZeroedPageList) = LIST_HEAD" and "pl_flink (pfn_lists s FreePageList) = p"
    and "p \<noteq> LIST_HEAD"
  shows "mi_allocate_pfn s = (Some p, get_pfn_entry_mut p make_active (zero_page p (mi_remove_page_from_list FreePageList p s)))"
  using assms by (simp add: mi_allocate_pfn_def mi_remove_zero_page_def mi_remove_free_page_def mi_remove_any_page_def)

lemma allocate_none:
  assumes "pl_flink (pfn_lists s ZeroedPageList) = LIST_HEAD" and "pl_flink (pfn_lists s FreePageList) = LIST_HEAD"
  shows "fst (mi_allocate_pfn s) = None"
  using assms by (simp add: mi_allocate_pfn_def mi_remove_zero_page_def mi_remove_free_page_def mi_remove_any_page_def)

lemma removed_links:
  assumes "frames_ok s a" and "p \<in> set (a l)"
  shows "pf_flink (ent (mi_remove_page_from_list l p s) p) = LIST_HEAD"
    and "pf_blink (ent (mi_remove_page_from_list l p s) p) = LIST_HEAD"
  using rep_in_db [OF frames_reps [OF assms(1)] assms(2)]
  by (simp_all add: mi_remove_page_from_list_def get_entry Let_def mm_fields)

lemma double_free0:
  assumes inv: "mm_inv s a" and p: "frame_active s p" and z: "a ZeroedPageList = []"
  defines "s2 \<equiv> mi_free_pfn p (mi_free_pfn p s)"
  shows "fst (mi_allocate_pfn s2) = Some p"
    and "fst (mi_allocate_pfn (snd (mi_allocate_pfn s2))) = Some p"
    and "fst (mi_allocate_pfn (snd (mi_allocate_pfn (snd (mi_allocate_pfn s2))))) = None"
proof -
  have db: "in_db s p" using p by (simp add: frame_active_def)
  have ph: "p \<noteq> LIST_HEAD" by (rule in_db_not_head [OF db])
  define s1 where "s1 = mi_free_pfn p s"
  have r1: "reps s1 (a(FreePageList := p # a FreePageList))"
    using free_inv [OF inv p] by (simp add: s1_def mm_inv_def frames_ok_def)
  have l1: "pl_flink (pfn_lists s1 FreePageList) = p" "pl_flink (pfn_lists s1 ZeroedPageList) = LIST_HEAD"
    using rep_flink [OF r1, of FreePageList] rep_flink [OF r1, of ZeroedPageList] z by simp_all
  have db1: "in_db s1 p" using db by (simp add: s1_def mi_free_pfn_def mm_fields)
  define u where "u = get_pfn_entry_mut p (\<lambda>e. e\<lparr>pf_refs := 0, pf_share := 0, pf_pte := 0\<rparr>) s1"
  have u: "in_db u p" "pl_flink (pfn_lists u FreePageList) = p" "pl_flink (pfn_lists u ZeroedPageList) = LIST_HEAD"
    using db1 l1 by (simp_all add: u_def mm_fields)
  have s2: "s2 = mi_insert_page_in_list FreePageList p u" by (simp add: s2_def s1_def u_def mi_free_pfn_def)
  have db2: "in_db s2 p" using u by (simp add: s2 mm_fields)
  have l2: "pf_flink (ent s2 p) = p" "pf_blink (ent s2 p) = p" "pl_flink (pfn_lists s2 FreePageList) = p"
    "pl_flink (pfn_lists s2 ZeroedPageList) = LIST_HEAD"
    using insert_head_again [OF u(1,2)] u insert_lists [OF u(1), of FreePageList] by (simp_all add: s2)
  note a2 = allocate_from_free [OF l2(4,3) ph]
  define s3 where "s3 = snd (mi_allocate_pfn s2)"
  have s3: "s3 = get_pfn_entry_mut p make_active (zero_page p (mi_remove_page_from_list FreePageList p s2))"
    by (simp add: s3_def a2)
  note rm = remove_self_loop [OF db2 l2(1,2), of FreePageList]
  have l3: "in_db s3 p" "pf_flink (ent s3 p) = LIST_HEAD" "pf_blink (ent s3 p) = LIST_HEAD"
    "pl_flink (pfn_lists s3 FreePageList) = p" "pl_flink (pfn_lists s3 ZeroedPageList) = LIST_HEAD"
    using db2 rm l2 by (simp_all add: s3 mm_fields make_active_def)
  note a3 = allocate_from_free [OF l3(5,4) ph]
  have l4: "pl_flink (pfn_lists (snd (mi_allocate_pfn s3)) ZeroedPageList) = LIST_HEAD"
    "pl_flink (pfn_lists (snd (mi_allocate_pfn s3)) FreePageList) = LIST_HEAD"
    using remove_unlinked [OF l3(1-3), of FreePageList] l3(5) by (simp_all add: a3 mm_fields)
  show "fst (mi_allocate_pfn s2) = Some p" by (simp add: a2)
  show "fst (mi_allocate_pfn (snd (mi_allocate_pfn s2))) = Some p" using a3 by (simp flip: s3_def)
  show "fst (mi_allocate_pfn (snd (mi_allocate_pfn (snd (mi_allocate_pfn s2))))) = None"
    using allocate_none [OF l4] by (simp flip: s3_def)
qed

lemma dereference_freed:
  assumes "frame_active s p"
  shows "fst (mi_dereference_pfn p (mi_free_pfn p s))"
  using assms by (simp add: mi_dereference_pfn_def Let_def get_entry frame_active_def mi_free_pfn_def mm_fields saturating_dec_def)

lemma unlocked_removal0:
  assumes inv: "mm_inv s a" and z: "a ZeroedPageList = []" and f: "a FreePageList = p # ps"
  shows "pl_flink (pfn_lists s FreePageList) = p" and "fst (mi_allocate_pfn s) = Some p"
    and "fst (mi_allocate_pfn (mi_remove_page_from_list FreePageList p (snd (mi_allocate_pfn s)))) = None"
proof -
  note R = frames_reps [OF inv_frames [OF inv]]
  have l: "pl_flink (pfn_lists s FreePageList) = p" "pl_flink (pfn_lists s ZeroedPageList) = LIST_HEAD"
    using rep_flink [OF R, of FreePageList] rep_flink [OF R, of ZeroedPageList] z f by simp_all
  have m: "p \<in> set (a FreePageList)" using f by simp
  have db: "in_db s p" by (rule rep_in_db [OF R m])
  note al = allocate_from_free [OF l(2,1) in_db_not_head [OF db]]
  let ?t = "snd (mi_allocate_pfn s)"
  have t: "in_db ?t p" "pf_flink (ent ?t p) = LIST_HEAD" "pf_blink (ent ?t p) = LIST_HEAD"
    "pl_flink (pfn_lists ?t ZeroedPageList) = LIST_HEAD"
    using removed_links [OF inv_frames [OF inv] m] db l remove_lists [OF db refl refl, of FreePageList]
    by (simp_all add: al mm_fields make_active_def)
  show "pl_flink (pfn_lists s FreePageList) = p" by (rule l)
  show "fst (mi_allocate_pfn s) = Some p" by (simp add: al)
  show "fst (mi_allocate_pfn (mi_remove_page_from_list FreePageList p ?t)) = None"
    by (rule allocate_none) (use remove_unlinked [OF t(1-3), of FreePageList] t(4) in simp_all)
qed

lemma trim_fault_refs0:
  fixes dirty :: bool
  assumes inv: "mm_inv s a" and p: "frame_active s p" and r: "pf_refs (ent s p) = 1"
  defines "t \<equiv> mi_resolve_transition_page p (mi_make_transition_page p dirty s)"
  shows "pf_refs (ent t p) = 2" and "\<not> fst (mi_dereference_pfn p t)"
proof -
  have db: "in_db s p" using p by (simp add: frame_active_def)
  have u: "pf_refs (ent (mi_unlink_page_from_list p u) q) = pf_refs (ent u q)" "in_db (mi_unlink_page_from_list p u) = in_db u" for u q
    by (simp_all add: mi_unlink_page_from_list_def get_entry mm_fields)
  have m: "pf_refs (ent (mi_make_transition_page p dirty s) p) = 1" "in_db (mi_make_transition_page p dirty s) = in_db s"
    using r by (simp_all add: mi_make_transition_page_def mi_insert_page_in_modified_list_def
        mi_insert_page_in_standby_list_def Let_def mm_fields mmpfn_set_flag_def mmpfn_clear_flag_def)
  show t: "pf_refs (ent t p) = 2"
    using db m by (simp add: t_def mi_resolve_transition_page_def mm_fields u saturating_inc_def)
  have "in_db t p" using db m by (simp add: t_def mi_resolve_transition_page_def mm_fields u)
  then show "\<not> fst (mi_dereference_pfn p t)"
    using t by (simp add: mi_dereference_pfn_def Let_def get_entry mm_fields saturating_dec_def)
qed

lemma no_slot_zeroing0:
  assumes ok: "frames_ok s a" and f: "a FreePageList = p # ps" and n: "\<not> slot_free s"
  shows "\<exists>s'. zero_one s = Some (True, s') \<and> page_bytes s' = page_bytes s \<and> pl_flink (pfn_lists s' ZeroedPageList) = p"
proof -
  let ?r = "mi_remove_page_from_list FreePageList p s"
  have r: "in_db s p" using remove_uncounted_ok(3) [OF ok f] by simp
  have z: "mi_zero_physical_page p ?r = ?r"
    using n slot_free_cong [of ?r s] by (simp add: zero_physical mm_fields)
  show ?thesis
    using take_head(2) [OF frames_reps [OF ok] f] r
    by (simp add: zero_one_def mi_allocate_pfn_for_zero_page_def Let_def z mi_insert_zeroed_page_def mm_fields insert_lists)
qed

section \<open>Properties\<close>

definition sample_mm :: MM where
  "sample_mm = fold (add_frame 0 0) [1, 2] (mm_initial (pfn_database_init 0 8) (\<lambda>_. [0xCC]) (\<lambda>_. 0))"

lemma sample_inv: "mm_inv sample_mm ((\<lambda>_. [])(FreePageList := [2, 1]))"
proof -
  have "in_db (mm_initial (pfn_database_init 0 8) (\<lambda>_. [0xCC]) (\<lambda>_. 0)) 1 \<and>
    in_db (mm_initial (pfn_database_init 0 8) (\<lambda>_. [0xCC]) (\<lambda>_. 0)) 2"
    by (simp add: in_db_def is_valid_pfn_def mm_initial_def pfn_database_init_def)
  then show ?thesis
    using add_frames [OF initial_inv [of 0 8 "\<lambda>_. [0xCC]" "\<lambda>_. 0"], of "[1, 2]" 0 0]
    by (simp add: sample_mm_def off_lists_def keep_frame_def)
qed

definition sample_used :: MM where "sample_used = snd (mi_allocate_pfn sample_mm)"

lemma sample_used: "mm_inv sample_used ((\<lambda>_. [])(FreePageList := [1]))" "frame_active sample_used 2"
  "pf_refs (ent sample_used 2) = 1"
proof -
  have e: "fst (mi_allocate_pfn sample_mm) = Some 2"
    using allocate_inv(1) [OF sample_inv] by (simp add: spec_allocate_def)
  show "mm_inv sample_used ((\<lambda>_. [])(FreePageList := [1]))"
    using allocate_inv(2) [OF sample_inv] by (simp add: spec_allocate_def sample_used_def)
  show "frame_active sample_used 2" "pf_refs (ent sample_used 2) = 1"
    using allocate_inv(3) [OF sample_inv, of 2 sample_used] e by (simp_all add: sample_used_def prod_eq_iff)
qed


lemma one_less_max: "(1 :: u64) < - 1"
  by (simp add: word_less_nat_alt)

definition sample_descriptors :: "MEMORY_ALLOCATION_DESCRIPTOR list" where
  "sample_descriptors = [\<lparr>md_type = LoaderFree, md_base = 1, md_count = 68\<rparr>]"

lemma sample_init:
  "fst (mi_init_pfn_from_loader_block sample_descriptors (mm_initial db b w))"
  "distinct (usable_frames sample_descriptors)"
proof -
  show "fst (mi_init_pfn_from_loader_block sample_descriptors (mm_initial db b w))"
    by (simp add: mi_init_pfn_from_loader_block_def sample_descriptors_def scan_descriptors_def scan_descriptor_def
        mi_is_usable_memory_type_def one_less_max Let_def pfn_db_base_def bytes_to_pages_def PAGE_SHIFT_def PAGE_MASK_def SIZEOF_MMPFN_def)
  have "inj_on (of_nat :: nat \<Rightarrow> u64) {1..<69}"
  proof (rule inj_onI)
    fix x y :: nat assume b: "x \<in> {1..<69}" "y \<in> {1..<69}" and "(of_nat x :: u64) = of_nat y"
    then have "unat (of_nat x :: u64) = unat (of_nat y :: u64)" by simp
    then show "x = y" using b by (simp add: unat_of_nat_64)
  qed
  then show "distinct (usable_frames sample_descriptors)"
    by (simp add: usable_frames_def sample_descriptors_def frames_of_def distinct_map del: upt_rec_numeral)
qed




text \<open>
  C20. The allocator with fallback refines its policy on lists: the head of the zeroed list, else of
  the free list, else of the standby list, else nothing; the lists after it are the policy's.
\<close>

theorem allocate_ex_refines:
  assumes "mm_inv s a"
  shows "fst (mi_allocate_pfn_ex s) = fst (spec_allocate_ex a) \<and>
    mm_inv (snd (mi_allocate_pfn_ex s)) (snd (spec_allocate_ex a))"
  using allocate_ex_inv [OF assms] by blast

lemma allocate_ex_refines_witness: "fst (mi_allocate_pfn_ex sample_mm) = Some 2"
  using allocate_ex_refines [OF sample_inv] by (simp add: spec_allocate_ex_def spec_allocate_def)

text \<open>
  C12. Flushing the modified pages ends, although it loops as long as the counter is not zero,
  and leaves no modified page: each is on the standby list, and the other lists are unchanged.
\<close>

theorem flush_terminates:
  assumes "mm_inv s a"
  shows "\<exists>s' b. mm_flush_all_modified_pages s = Some s' \<and> mm_inv s' b \<and> b ModifiedPageList = [] \<and>
    set (b StandbyPageList) = set (a StandbyPageList) \<union> set (a ModifiedPageList) \<and> b FreePageList = a FreePageList"
  using flush [OF assms] by blast

lemma flush_terminates_witness:
  "\<exists>s' b. mm_flush_all_modified_pages (mi_make_transition_page 2 True sample_used) = Some s' \<and> mm_inv s' b \<and>
    b ModifiedPageList = [] \<and> set (b StandbyPageList) = {2}"
  using flush_terminates [OF transition_inv [OF sample_used(1,2), of True]] by fastforce

text \<open>
  C36. Freeing a frame twice hands it out twice: the second free links it to itself, the next two
  allocations both return it, and the one after that finds no page, whatever was free before.
  Nothing stops the second free: dropping a reference to the free frame reports that it frees it.
\<close>

theorem double_free_hands_out_twice:
  assumes "mm_inv s a" and "frame_active s p" and "a ZeroedPageList = []"
  shows "(let s2 = mi_free_pfn p (mi_free_pfn p s); s3 = snd (mi_allocate_pfn s2); s4 = snd (mi_allocate_pfn s3) in
    fst (mi_dereference_pfn p (mi_free_pfn p s)) \<and>
    fst (mi_allocate_pfn s2) = Some p \<and> fst (mi_allocate_pfn s3) = Some p \<and> fst (mi_allocate_pfn s4) = None)"
  using double_free0 [OF assms(1-3)] dereference_freed [OF assms(2)] by (simp add: Let_def)

lemma double_free_hands_out_twice_witness:
  "fst (mi_allocate_pfn (snd (mi_allocate_pfn (mi_free_pfn 2 (mi_free_pfn 2 sample_used))))) = Some 2"
  using double_free_hands_out_twice [OF sample_used(1,2)] by (simp add: Let_def)

text \<open>
  What the lists' lock is for. Removing the first page takes two steps, reading the head and
  unlinking it. The zero page thread and the fault handlers take them without the lock: when an allocation
  comes between the two steps, both get the same frame, and the unlinking empties the free list, whatever
  it held.
\<close>

theorem unlocked_removal_loses_list:
  assumes "mm_inv s a" and "a ZeroedPageList = []" and "a FreePageList = p # ps"
  shows "pl_flink (pfn_lists s FreePageList) = p \<and> fst (mi_allocate_pfn s) = Some p \<and>
    fst (mi_allocate_pfn (mi_remove_page_from_list FreePageList p (snd (mi_allocate_pfn s)))) = None"
  using unlocked_removal0 [OF assms] by simp

lemma unlocked_removal_loses_list_witness:
  "fst (mi_allocate_pfn (mi_remove_page_from_list FreePageList 2 sample_used)) = None"
  using unlocked_removal_loses_list [OF sample_inv, of 2 "[1]"] by (simp add: sample_used_def)

text \<open>
  A page that is trimmed and faulted back is never freed by its last user: trimming keeps its
  reference and the fault adds one, so after it two references stand for one user and
  dropping the one does not free the frame.
\<close>

theorem trim_fault_leaks:
  assumes "mm_inv s a" and "frame_active s p" and "pf_refs (ent s p) = 1"
  shows "(let t = mi_resolve_transition_page p (mi_make_transition_page p dirty s) in
    pf_refs (ent t p) = 2 \<and> \<not> fst (mi_dereference_pfn p t))"
  using trim_fault_refs0 [OF assms] by (simp add: Let_def)

lemma trim_fault_leaks_witness:
  "\<not> fst (mi_dereference_pfn 2 (mi_resolve_transition_page 2 (mi_make_transition_page 2 True sample_used)))"
  using trim_fault_leaks [OF sample_used] by (simp add: Let_def)

text \<open>
  C27. What the loader's memory map becomes: when the frames of the usable descriptors are distinct, the free list
  holds, in reverse, exactly those below the highest usable frame that are not frame 0 and not
  among the frames set aside for the database, and the count of available pages is their number.
\<close>

theorem init_free_list:
  assumes "mi_init_pfn_from_loader_block ds (mm_initial db b w) = (True, s)" and "distinct (usable_frames ds)"
    and "scan_descriptors ds = (lowest, highest, usable)"
  shows "(let pages = bytes_to_pages (highest * SIZEOF_MMPFN); base = pfn_db_base ds pages;
      free = rev (filter (\<lambda>p. p < highest \<and> keep_frame base (base + pages) p) (usable_frames ds)) in
    mm_inv s ((\<lambda>_. [])(FreePageList := free)) \<and> available_pages s = of_nat (length free))"
  using init_free_list0 [OF assms] by (simp add: Let_def mm_inv_def frames_ok_def reps_def)

lemma init_free_list_witness:
  "available_pages (snd (mi_init_pfn_from_loader_block sample_descriptors (mm_initial (pfn_database_init 0 0) (\<lambda>_. []) (\<lambda>_. 0)))) =
    of_nat (length (filter (\<lambda>p. p < 69 \<and> keep_frame 1 2 p) (usable_frames sample_descriptors)))"
proof -
  have s: "scan_descriptors sample_descriptors = (1, 69, 68)"
    by (simp add: sample_descriptors_def scan_descriptors_def scan_descriptor_def mi_is_usable_memory_type_def one_less_max)
  have i: "mi_init_pfn_from_loader_block sample_descriptors (mm_initial (pfn_database_init 0 0) (\<lambda>_. []) (\<lambda>_. 0)) =
    (True, snd (mi_init_pfn_from_loader_block sample_descriptors (mm_initial (pfn_database_init 0 0) (\<lambda>_. []) (\<lambda>_. 0))))"
    using sample_init(1) by (simp add: prod_eq_iff)
  have "pfn_db_base sample_descriptors (bytes_to_pages (69 * SIZEOF_MMPFN)) = 1" "bytes_to_pages (69 * SIZEOF_MMPFN) = 1"
    by (simp_all add: sample_descriptors_def pfn_db_base_def bytes_to_pages_def PAGE_SHIFT_def PAGE_MASK_def SIZEOF_MMPFN_def)
  then show ?thesis using init_free_list [OF i sample_init(2) s] by (simp add: Let_def)
qed

end
