(* ===== verification/Vad.thy ===== *)
theory Vad
  imports XPrelude "HOL-Library.Tree"
begin

text \<open>
  Virtual address descriptors: \<open>kernel/ntoskrnl/src/mm/vad.rs\<close>. The nodes of the tree live in a
  store from addresses to \<open>MMVAD_SHORT\<close>, linked by parent and child addresses, 0 for null, as in
  the source; the store is a field of the table. Loops and recursions that follow links may run
  forever on a malformed store: they are \<open>partial_function (option)\<close>, \<open>None\<close> for not returning.
\<close>

definition PAGE_SIZE :: u64 where "PAGE_SIZE = 4096"
definition VPN_SHIFT :: nat where "VPN_SHIFT = 12"
definition MM_LOWEST_USER_ADDRESS :: u64 where "MM_LOWEST_USER_ADDRESS = 0x10000"
definition MM_HIGHEST_USER_ADDRESS :: u64 where "MM_HIGHEST_USER_ADDRESS = 0x7FFFFFFFFFFF"

section \<open>Flags\<close>

datatype VAD_TYPE = VadPrivateMemory | VadMapped | VadImage | VadAwe | VadLargePages | VadRotatePhysical

fun vad_type_code :: "VAD_TYPE \<Rightarrow> u32" where
  "vad_type_code VadPrivateMemory = 0"
| "vad_type_code VadMapped = 1"
| "vad_type_code VadImage = 2"
| "vad_type_code VadAwe = 3"
| "vad_type_code VadLargePages = 4"
| "vad_type_code VadRotatePhysical = 5"

definition vad_type :: "u32 \<Rightarrow> VAD_TYPE" where
  "vad_type bits = (let k = bits AND 0x7 in
     if k = 0 then VadPrivateMemory else if k = 1 then VadMapped else if k = 2 then VadImage
     else if k = 3 then VadAwe else if k = 4 then VadLargePages else if k = 5 then VadRotatePhysical
     else VadPrivateMemory)"

definition set_vad_type :: "u32 \<Rightarrow> VAD_TYPE \<Rightarrow> u32" where
  "set_vad_type bits t = (bits AND NOT 0x7) OR vad_type_code t"

definition protection :: "u32 \<Rightarrow> u32" where
  "protection bits = drop_bit 3 bits AND 0x1F"

definition set_protection :: "u32 \<Rightarrow> u32 \<Rightarrow> u32" where
  "set_protection bits p = (bits AND NOT (push_bit 3 0x1F)) OR push_bit 3 (p AND 0x1F)"

definition set_flag :: "nat \<Rightarrow> u32 \<Rightarrow> bool \<Rightarrow> u32" where
  "set_flag n bits c = (if c then bits OR push_bit n 1 else bits AND NOT (push_bit n 1))"

definition commit :: "u32 \<Rightarrow> bool" where "commit bits \<longleftrightarrow> bits AND push_bit 8 1 \<noteq> 0"
definition set_commit :: "u32 \<Rightarrow> bool \<Rightarrow> u32" where "set_commit = set_flag 8"
definition private_memory :: "u32 \<Rightarrow> bool" where "private_memory bits \<longleftrightarrow> bits AND push_bit 9 1 \<noteq> 0"
definition set_private_memory :: "u32 \<Rightarrow> bool \<Rightarrow> u32" where "set_private_memory = set_flag 9"
definition no_change :: "u32 \<Rightarrow> bool" where "no_change bits \<longleftrightarrow> bits AND push_bit 10 1 \<noteq> 0"
definition set_no_change :: "u32 \<Rightarrow> bool \<Rightarrow> u32" where "set_no_change = set_flag 10"

section \<open>Nodes and table\<close>

record MMVAD_SHORT =
  parent :: nat
  left_child :: nat
  right_child :: nat
  starting_vpn :: u64
  ending_vpn :: u64
  vad_flags :: u32
  balance :: int
  reference_count :: u32
  push_lock :: u64

definition mmvad_short_new :: MMVAD_SHORT where
  "mmvad_short_new = \<lparr>parent = 0, left_child = 0, right_child = 0, starting_vpn = 0, ending_vpn = 0,
     vad_flags = 0, balance = 0, reference_count = 1, push_lock = 0\<rparr>"

definition start_address :: "MMVAD_SHORT \<Rightarrow> u64" where
  "start_address v = push_bit VPN_SHIFT (starting_vpn v)"

definition end_address :: "MMVAD_SHORT \<Rightarrow> u64" where
  "end_address v = push_bit VPN_SHIFT (ending_vpn v + 1)"

definition vad_size :: "MMVAD_SHORT \<Rightarrow> u64" where
  "vad_size v = push_bit VPN_SHIFT (ending_vpn v - starting_vpn v + 1)"

definition contains_address :: "MMVAD_SHORT \<Rightarrow> u64 \<Rightarrow> bool" where
  "contains_address v va = (let vpn = drop_bit VPN_SHIFT va in starting_vpn v \<le> vpn \<and> vpn \<le> ending_vpn v)"

type_synonym vad_store = "nat \<Rightarrow> MMVAD_SHORT"

record MM_AVL_TABLE =
  root :: nat
  node_count :: u64
  free_hint :: nat
  vads :: vad_store

definition is_empty :: "MM_AVL_TABLE \<Rightarrow> bool" where "is_empty s \<longleftrightarrow> root s = 0"

text \<open>Writes through a node pointer.\<close>

definition upd :: "nat \<Rightarrow> (MMVAD_SHORT \<Rightarrow> MMVAD_SHORT) \<Rightarrow> MM_AVL_TABLE \<Rightarrow> MM_AVL_TABLE" where
  "upd p f s = s\<lparr>vads := (vads s)(p := f (vads s p))\<rparr>"

abbreviation set_parent :: "nat \<Rightarrow> nat \<Rightarrow> MM_AVL_TABLE \<Rightarrow> MM_AVL_TABLE" where
  "set_parent p v \<equiv> upd p (parent_update (\<lambda>_. v))"

abbreviation set_left :: "nat \<Rightarrow> nat \<Rightarrow> MM_AVL_TABLE \<Rightarrow> MM_AVL_TABLE" where
  "set_left p v \<equiv> upd p (left_child_update (\<lambda>_. v))"

abbreviation set_right :: "nat \<Rightarrow> nat \<Rightarrow> MM_AVL_TABLE \<Rightarrow> MM_AVL_TABLE" where
  "set_right p v \<equiv> upd p (right_child_update (\<lambda>_. v))"

section \<open>Lookup\<close>

partial_function (option) find_from :: "vad_store \<Rightarrow> u64 \<Rightarrow> nat \<Rightarrow> nat option" where
  "find_from h vpn current =
     (if current = 0 then Some 0
      else if vpn < starting_vpn (h current) then find_from h vpn (left_child (h current))
      else if ending_vpn (h current) < vpn then find_from h vpn (right_child (h current))
      else Some current)"

definition mi_find_vad :: "MM_AVL_TABLE \<Rightarrow> u64 \<Rightarrow> nat option" where
  "mi_find_vad s va = find_from (vads s) (drop_bit VPN_SHIFT va) (root s)"

definition mi_find_vad_for_range :: "MM_AVL_TABLE \<Rightarrow> u64 \<Rightarrow> u64 \<Rightarrow> nat option" where
  "mi_find_vad_for_range s start_vpn end_vpn =
     Option.bind (mi_find_vad s (push_bit VPN_SHIFT start_vpn)) (\<lambda>vad.
       if vad = 0 then Some 0
       else if starting_vpn (vads s vad) \<le> start_vpn \<and> end_vpn \<le> ending_vpn (vads s vad) then Some vad
       else Some 0)"

section \<open>Heights, balances and rotations\<close>

partial_function (option) mi_get_height :: "vad_store \<Rightarrow> nat \<Rightarrow> int option" where
  "mi_get_height h node =
     (if node = 0 then Some 0
      else Option.bind (mi_get_height h (left_child (h node))) (\<lambda>left_height.
           Option.bind (mi_get_height h (right_child (h node))) (\<lambda>right_height.
           Some (1 + (if right_height < left_height then left_height else right_height)))))"

definition mi_get_balance :: "vad_store \<Rightarrow> nat \<Rightarrow> int option" where
  "mi_get_balance h node =
     (if node = 0 then Some 0
      else Option.bind (mi_get_height h (left_child (h node))) (\<lambda>left_height.
           Option.bind (mi_get_height h (right_child (h node))) (\<lambda>right_height.
           Some (signed_take_bit 7 (right_height - left_height)))))"

definition mi_update_balance :: "nat \<Rightarrow> MM_AVL_TABLE \<Rightarrow> MM_AVL_TABLE option" where
  "mi_update_balance node s =
     (if node = 0 then Some s
      else map_option (\<lambda>b. upd node (balance_update (\<lambda>_. b)) s) (mi_get_balance (vads s) node))"

text \<open>Making \<open>new\<close> the child of \<open>par\<close> that \<open>old\<close> was, or the root.\<close>

definition replace_child :: "nat \<Rightarrow> nat \<Rightarrow> nat \<Rightarrow> MM_AVL_TABLE \<Rightarrow> MM_AVL_TABLE" where
  "replace_child par old new s =
     (if par = 0 then s\<lparr>root := new\<rparr>
      else if left_child (vads s par) = old then set_left par new s
      else set_right par new s)"

definition mi_rotate_left :: "nat \<Rightarrow> MM_AVL_TABLE \<Rightarrow> MM_AVL_TABLE option" where
  "mi_rotate_left x s =
     (let y = right_child (vads s x) in
      if y = 0 then Some s
      else
        let s1 = set_right x (left_child (vads s y)) s;
            s2 = (if left_child (vads s1 y) \<noteq> 0 then set_parent (left_child (vads s1 y)) x s1 else s1);
            s3 = set_parent y (parent (vads s2 x)) s2;
            s4 = replace_child (parent (vads s3 x)) x y s3;
            s5 = set_left y x s4;
            s6 = set_parent x y s5
        in Option.bind (mi_update_balance x s6) (mi_update_balance y))"

definition mi_rotate_right :: "nat \<Rightarrow> MM_AVL_TABLE \<Rightarrow> MM_AVL_TABLE option" where
  "mi_rotate_right y s =
     (let x = left_child (vads s y) in
      if x = 0 then Some s
      else
        let s1 = set_left y (right_child (vads s x)) s;
            s2 = (if right_child (vads s1 x) \<noteq> 0 then set_parent (right_child (vads s1 x)) y s1 else s1);
            s3 = set_parent x (parent (vads s2 y)) s2;
            s4 = replace_child (parent (vads s3 y)) y x s3;
            s5 = set_right x y s4;
            s6 = set_parent y x s5
        in Option.bind (mi_update_balance y s6) (mi_update_balance x))"

definition rebalance_node :: "nat \<Rightarrow> MM_AVL_TABLE \<Rightarrow> MM_AVL_TABLE option" where
  "rebalance_node node s0 = Option.bind (mi_update_balance node s0) (\<lambda>s.
     let b = balance (vads s node) in
     if b < -1 then
       let lft = left_child (vads s node) in
       Option.bind (if lft \<noteq> 0 \<and> 0 < balance (vads s lft) then mi_rotate_left lft s else Some s)
         (mi_rotate_right node)
     else if 1 < b then
       let rgt = right_child (vads s node) in
       Option.bind (if rgt \<noteq> 0 \<and> balance (vads s rgt) < 0 then mi_rotate_right rgt s else Some s)
         (mi_rotate_left node)
     else Some s)"

partial_function (option) mi_rebalance_tree :: "nat \<Rightarrow> MM_AVL_TABLE \<Rightarrow> MM_AVL_TABLE option" where
  "mi_rebalance_tree node s =
     (if node = 0 then Some s
      else Option.bind (rebalance_node node s) (\<lambda>s'. mi_rebalance_tree (parent (vads s' node)) s'))"

section \<open>Insertion\<close>

text \<open>The descent: \<open>Inl ()\<close> for an overlap, else the parent and the side.\<close>

partial_function (option) insert_place :: "vad_store \<Rightarrow> u64 \<Rightarrow> u64 \<Rightarrow> nat \<Rightarrow> nat \<Rightarrow> bool \<Rightarrow> (unit + nat \<times> bool) option" where
  "insert_place h new_start new_end par current go_left =
     (if current = 0 then Some (Inr (par, go_left))
      else if new_end < starting_vpn (h current)
        then insert_place h new_start new_end current (left_child (h current)) True
      else if ending_vpn (h current) < new_start
        then insert_place h new_start new_end current (right_child (h current)) False
      else Some (Inl ()))"

definition reset_node :: "MMVAD_SHORT \<Rightarrow> MMVAD_SHORT" where
  "reset_node v = v\<lparr>left_child := 0, right_child := 0, balance := 0\<rparr>"

definition mi_insert_vad :: "nat \<Rightarrow> MM_AVL_TABLE \<Rightarrow> (ntstatus \<times> MM_AVL_TABLE) option" where
  "mi_insert_vad vad s =
     (if vad = 0 then Some (STATUS_NO_MEMORY, s)
      else
        let new_start = starting_vpn (vads s vad);
            new_end = ending_vpn (vads s vad);
            s1 = upd vad reset_node s
        in if is_empty s1 then Some (STATUS_SUCCESS, (set_parent vad 0 (s1\<lparr>root := vad\<rparr>))\<lparr>node_count := 1\<rparr>)
        else Option.bind (insert_place (vads s1) new_start new_end 0 (root s1) False) (\<lambda>place.
          case place of
            Inl _ \<Rightarrow> Some (STATUS_CONFLICTING_ADDRESSES, s1)
          | Inr (par, go_left) \<Rightarrow>
              let s2 = set_parent vad par s1;
                  s3 = (if go_left then set_left par vad s2 else set_right par vad s2);
                  s4 = s3\<lparr>node_count := node_count s3 + 1\<rparr>
              in map_option (\<lambda>s5. (STATUS_SUCCESS, s5)) (mi_rebalance_tree vad s4)))"

section \<open>Removal\<close>

partial_function (option) mi_find_minimum :: "vad_store \<Rightarrow> nat \<Rightarrow> nat option" where
  "mi_find_minimum h node =
     (if node \<noteq> 0 \<and> left_child (h node) \<noteq> 0 then mi_find_minimum h (left_child (h node)) else Some node)"

text \<open>The four cases of unlinking; the result holds the node where rebalancing starts.\<close>

definition splice_out :: "nat \<Rightarrow> nat \<Rightarrow> MM_AVL_TABLE \<Rightarrow> nat \<times> MM_AVL_TABLE" where
  "splice_out vad child s =
     (let par = parent (vads s vad);
          s1 = replace_child par vad child s
      in (par, if child \<noteq> 0 then set_parent child par s1 else s1))"

definition replace_by_successor :: "nat \<Rightarrow> nat \<Rightarrow> MM_AVL_TABLE \<Rightarrow> nat \<times> MM_AVL_TABLE" where
  "replace_by_successor vad successor s =
     (let par = parent (vads s vad);
          lft = left_child (vads s vad);
          rgt = right_child (vads s vad);
          successor_parent = parent (vads s successor);
          successor_right = right_child (vads s successor);
          (start, s1) = (if successor_parent = vad then (successor, s)
            else
              let a = set_left successor_parent successor_right s;
                  b = (if successor_right \<noteq> 0 then set_parent successor_right successor_parent a else a);
                  c = set_right successor rgt b
              in (successor_parent, set_parent rgt successor c));
          s2 = set_left successor lft s1;
          s3 = set_parent lft successor s2;
          s4 = set_parent successor par s3;
          s5 = replace_child par vad successor s4
      in (start, upd successor (balance_update (\<lambda>_. balance (vads s5 vad))) s5))"

definition unlink_vad :: "nat \<Rightarrow> MM_AVL_TABLE \<Rightarrow> (nat \<times> MM_AVL_TABLE) option" where
  "unlink_vad vad s =
     (let lft = left_child (vads s vad); rgt = right_child (vads s vad) in
      if lft = 0 \<and> rgt = 0 then Some (splice_out vad 0 s)
      else if lft = 0 then Some (splice_out vad rgt s)
      else if rgt = 0 then Some (splice_out vad lft s)
      else map_option (\<lambda>successor. replace_by_successor vad successor s) (mi_find_minimum (vads s) rgt))"

definition clear_links :: "MMVAD_SHORT \<Rightarrow> MMVAD_SHORT" where
  "clear_links v = v\<lparr>parent := 0, left_child := 0, right_child := 0\<rparr>"

definition mi_remove_vad :: "nat \<Rightarrow> MM_AVL_TABLE \<Rightarrow> MM_AVL_TABLE option" where
  "mi_remove_vad vad s =
     (if vad = 0 then Some s
      else Option.bind (unlink_vad vad s) (\<lambda>(rebalance_start, s1).
        let s2 = s1\<lparr>node_count := node_count s1 - 1\<rparr>;
            s3 = upd vad clear_links s2
        in if rebalance_start \<noteq> 0 then mi_rebalance_tree rebalance_start s3 else Some s3))"

section \<open>Splitting and merging\<close>

text \<open>\<open>new_vad\<close> is the node the pool returns, 0 when it is out of memory.\<close>

definition mi_split_vad :: "nat \<Rightarrow> u64 \<Rightarrow> nat \<Rightarrow> MM_AVL_TABLE \<Rightarrow> (nat \<times> MM_AVL_TABLE) option" where
  "mi_split_vad vad split_vpn new_vad s =
     (if vad = 0 then Some (0, s)
      else
        let original_start = starting_vpn (vads s vad);
            original_end = ending_vpn (vads s vad)
        in if split_vpn \<le> original_start \<or> original_end < split_vpn then Some (0, s)
        else if new_vad = 0 then Some (0, s)
        else
          let s1 = upd new_vad (\<lambda>_. mmvad_short_new\<lparr>starting_vpn := split_vpn, ending_vpn := original_end,
                      vad_flags := vad_flags (vads s vad)\<rparr>) s;
              s2 = upd vad (ending_vpn_update (\<lambda>_. split_vpn - 1)) s1
          in map_option (\<lambda>(status, s3).
               if status \<noteq> STATUS_SUCCESS then (0, upd vad (ending_vpn_update (\<lambda>_. original_end)) s3)
               else (new_vad, s3)) (mi_insert_vad new_vad s2))"

partial_function (option) climb_from_right :: "vad_store \<Rightarrow> nat \<Rightarrow> nat \<Rightarrow> nat option" where
  "climb_from_right h current par =
     (if par \<noteq> 0 \<and> current = right_child (h par) then climb_from_right h par (parent (h par)) else Some par)"

definition mi_find_successor :: "vad_store \<Rightarrow> nat \<Rightarrow> nat option" where
  "mi_find_successor h node =
     (if node = 0 then Some 0
      else if right_child (h node) \<noteq> 0 then mi_find_minimum h (right_child (h node))
      else climb_from_right h node (parent (h node)))"

partial_function (option) find_maximum :: "vad_store \<Rightarrow> nat \<Rightarrow> nat option" where
  "find_maximum h pred =
     (if right_child (h pred) \<noteq> 0 then find_maximum h (right_child (h pred)) else Some pred)"

partial_function (option) climb_from_left :: "vad_store \<Rightarrow> nat \<Rightarrow> nat \<Rightarrow> nat option" where
  "climb_from_left h current par =
     (if par \<noteq> 0 \<and> current = left_child (h par) then climb_from_left h par (parent (h par)) else Some par)"

definition mi_find_predecessor :: "vad_store \<Rightarrow> nat \<Rightarrow> nat option" where
  "mi_find_predecessor h node =
     (if node = 0 then Some 0
      else if left_child (h node) \<noteq> 0 then find_maximum h (left_child (h node))
      else climb_from_left h node (parent (h node)))"

definition mi_can_merge_vads :: "vad_store \<Rightarrow> nat \<Rightarrow> nat \<Rightarrow> bool" where
  "mi_can_merge_vads h l r =
     (if l = 0 \<or> r = 0 then False
      else if ending_vpn (h l) + 1 \<noteq> starting_vpn (h r) then False
      else vad_type (vad_flags (h l)) = vad_type (vad_flags (h r)) \<and>
           protection (vad_flags (h l)) = protection (vad_flags (h r)) \<and>
           commit (vad_flags (h l)) = commit (vad_flags (h r)) \<and>
           private_memory (vad_flags (h l)) = private_memory (vad_flags (h r)))"

definition mi_try_merge_vad :: "nat \<Rightarrow> MM_AVL_TABLE \<Rightarrow> (bool \<times> MM_AVL_TABLE) option" where
  "mi_try_merge_vad vad s =
     (if vad = 0 then Some (False, s)
      else Option.bind (mi_find_successor (vads s) vad) (\<lambda>next.
        if next \<noteq> 0 \<and> mi_can_merge_vads (vads s) vad next then
          map_option (Pair True)
            (mi_remove_vad next (upd vad (ending_vpn_update (\<lambda>_. ending_vpn (vads s next))) s))
        else Option.bind (mi_find_predecessor (vads s) vad) (\<lambda>prev.
          if prev \<noteq> 0 \<and> mi_can_merge_vads (vads s) prev vad then
            map_option (Pair True)
              (mi_remove_vad vad (upd prev (ending_vpn_update (\<lambda>_. ending_vpn (vads s vad))) s))
          else Some (False, s))))"

section \<open>Free ranges and conflicts\<close>

definition align_up :: "u64 \<Rightarrow> u64 \<Rightarrow> u64" where
  "align_up vpn align_pages = (vpn + align_pages - 1) AND NOT (align_pages - 1)"

definition align_down :: "u64 \<Rightarrow> u64 \<Rightarrow> u64" where
  "align_down vpn align_pages = vpn AND NOT (align_pages - 1)"

text \<open>
  The traversals keep the pending nodes on a stack of 64 entries, here a list with its top first;
  with the stack full they give up with the value for \<open>no\<close>.
\<close>

partial_function (option) gap_up ::
  "vad_store \<Rightarrow> u64 \<Rightarrow> u64 \<Rightarrow> u64 \<Rightarrow> nat list \<Rightarrow> nat \<Rightarrow> u64 \<Rightarrow> u64 option" where
  "gap_up h pages_needed align_pages highest_vpn stack node current_vpn =
     (if node \<noteq> 0 then
        if 64 \<le> length stack then Some 0
        else gap_up h pages_needed align_pages highest_vpn (node # stack) (left_child (h node)) current_vpn
      else if stack = [] then
        Some (if align_up current_vpn align_pages < highest_vpn \<and>
                 pages_needed \<le> highest_vpn - align_up current_vpn align_pages
              then push_bit VPN_SHIFT (align_up current_vpn align_pages) else 0)
      else if align_up current_vpn align_pages < starting_vpn (h (hd stack)) \<and>
              pages_needed \<le> starting_vpn (h (hd stack)) - align_up current_vpn align_pages
        then Some (push_bit VPN_SHIFT (align_up current_vpn align_pages))
      else gap_up h pages_needed align_pages highest_vpn (tl stack) (right_child (h (hd stack)))
             (ending_vpn (h (hd stack)) + 1))"

definition mi_find_gap_bottom_up :: "MM_AVL_TABLE \<Rightarrow> u64 \<Rightarrow> u64 \<Rightarrow> u64 \<Rightarrow> u64 \<Rightarrow> u64 option" where
  "mi_find_gap_bottom_up s pages_needed align_pages lowest_vpn highest_vpn =
     gap_up (vads s) pages_needed align_pages highest_vpn [] (root s) lowest_vpn"

text \<open>The candidate below \<open>gap_end\<close>, when the gap above \<open>gap_start\<close> is large enough.\<close>

definition top_candidate :: "u64 \<Rightarrow> u64 \<Rightarrow> u64 \<Rightarrow> u64 \<Rightarrow> u64 \<Rightarrow> u64 option" where
  "top_candidate pages_needed align_pages lowest_vpn gap_start gap_end =
     (let result = push_bit VPN_SHIFT (align_down (gap_end - pages_needed) align_pages) in
      if align_up gap_start align_pages < gap_end \<and> pages_needed \<le> gap_end - align_up gap_start align_pages \<and>
         push_bit VPN_SHIFT lowest_vpn \<le> result
      then Some result else None)"

partial_function (option) gap_down ::
  "vad_store \<Rightarrow> u64 \<Rightarrow> u64 \<Rightarrow> u64 \<Rightarrow> nat list \<Rightarrow> nat \<Rightarrow> u64 \<Rightarrow> u64 option" where
  "gap_down h pages_needed align_pages lowest_vpn stack node current_vpn =
     (if node \<noteq> 0 then
        if 64 \<le> length stack then Some 0
        else gap_down h pages_needed align_pages lowest_vpn (node # stack) (right_child (h node)) current_vpn
      else if stack = [] then
        Some (case top_candidate pages_needed align_pages lowest_vpn lowest_vpn current_vpn of
                Some result \<Rightarrow> result | None \<Rightarrow> 0)
      else if top_candidate pages_needed align_pages lowest_vpn (ending_vpn (h (hd stack)) + 1) current_vpn \<noteq> None
        then top_candidate pages_needed align_pages lowest_vpn (ending_vpn (h (hd stack)) + 1) current_vpn
      else gap_down h pages_needed align_pages lowest_vpn (tl stack) (left_child (h (hd stack)))
             (starting_vpn (h (hd stack))))"

definition mi_find_gap_top_down :: "MM_AVL_TABLE \<Rightarrow> u64 \<Rightarrow> u64 \<Rightarrow> u64 \<Rightarrow> u64 \<Rightarrow> u64 option" where
  "mi_find_gap_top_down s pages_needed align_pages lowest_vpn highest_vpn =
     gap_down (vads s) pages_needed align_pages lowest_vpn [] (root s) highest_vpn"

definition mi_find_empty_address_range :: "MM_AVL_TABLE \<Rightarrow> u64 \<Rightarrow> u64 \<Rightarrow> bool \<Rightarrow> u64 option" where
  "mi_find_empty_address_range s size_bytes alignment top_down =
     (if size_bytes = 0 then Some 0
      else
        let pages_needed = (size_bytes + PAGE_SIZE - 1) div PAGE_SIZE;
            align_pages = alignment div PAGE_SIZE;
            lowest_vpn = drop_bit VPN_SHIFT MM_LOWEST_USER_ADDRESS;
            highest_vpn = drop_bit VPN_SHIFT MM_HIGHEST_USER_ADDRESS
        in if is_empty s then
          let start_vpn = align_up lowest_vpn align_pages in
          Some (if start_vpn + pages_needed \<le> highest_vpn then push_bit VPN_SHIFT start_vpn else 0)
        else if top_down then mi_find_gap_top_down s pages_needed align_pages lowest_vpn highest_vpn
        else mi_find_gap_bottom_up s pages_needed align_pages lowest_vpn highest_vpn)"

partial_function (option) conflict_walk :: "vad_store \<Rightarrow> u64 \<Rightarrow> u64 \<Rightarrow> nat list \<Rightarrow> nat \<Rightarrow> bool option" where
  "conflict_walk h start_vpn end_vpn stack current =
     (if current \<noteq> 0 then
        if 64 \<le> length stack then Some False
        else conflict_walk h start_vpn end_vpn (current # stack) (left_child (h current))
      else if stack = [] then Some False
      else if starting_vpn (h (hd stack)) \<le> end_vpn \<and> start_vpn \<le> ending_vpn (h (hd stack)) then Some True
      else if end_vpn < starting_vpn (h (hd stack)) then Some False
      else conflict_walk h start_vpn end_vpn (tl stack) (right_child (h (hd stack))))"

definition mi_check_vad_conflict :: "MM_AVL_TABLE \<Rightarrow> u64 \<Rightarrow> u64 \<Rightarrow> bool option" where
  "mi_check_vad_conflict s start_vpn end_vpn =
     (if is_empty s then Some False
      else Option.bind (mi_find_vad s (push_bit VPN_SHIFT start_vpn)) (\<lambda>v1.
        if v1 \<noteq> 0 then Some True
        else Option.bind (mi_find_vad s (push_bit VPN_SHIFT end_vpn)) (\<lambda>v2.
          if v2 \<noteq> 0 then Some True
          else conflict_walk (vads s) start_vpn end_vpn [] (root s))))"

end
