(* ===== verification/VadTree.thy ===== *)
theory VadTree
  imports Vad
begin

text \<open>
  What a store of VAD nodes represents: a binary tree of node addresses whose parent links are
  consistent. A position in the tree is a context, the path to the root with the subtrees beside
  it. Rotations, unlinking and rebalancing are shown to act on the represented tree.
\<close>

section \<open>Represented trees and contexts\<close>

fun vtree :: "vad_store \<Rightarrow> nat \<Rightarrow> nat \<Rightarrow> nat tree \<Rightarrow> bool" where
  "vtree h par p Leaf \<longleftrightarrow> p = 0"
| "vtree h par p (Node l a r) \<longleftrightarrow> p = a \<and> a \<noteq> 0 \<and> parent (h a) = par \<and>
     vtree h a (left_child (h a)) l \<and> vtree h a (right_child (h a)) r"

type_synonym ctx = "(bool \<times> nat \<times> nat tree) list"

fun plug :: "ctx \<Rightarrow> nat tree \<Rightarrow> nat tree" where
  "plug [] t = t"
| "plug ((is_left, a, u) # C) t = plug C (if is_left then Node t a u else Node u a t)"

fun ctx_addr :: "ctx \<Rightarrow> nat" where
  "ctx_addr [] = 0"
| "ctx_addr ((is_left, a, u) # C) = a"

fun before :: "ctx \<Rightarrow> nat list" where
  "before [] = []"
| "before ((is_left, a, u) # C) = before C @ (if is_left then [] else inorder u @ [a])"

fun after :: "ctx \<Rightarrow> nat list" where
  "after [] = []"
| "after ((is_left, a, u) # C) = (if is_left then a # inorder u else []) @ after C"

fun ctxrep :: "vad_store \<Rightarrow> nat \<Rightarrow> ctx \<Rightarrow> nat \<Rightarrow> bool" where
  "ctxrep h rt [] p \<longleftrightarrow> rt = p"
| "ctxrep h rt ((is_left, a, u) # C) p \<longleftrightarrow> a \<noteq> 0 \<and> parent (h a) = ctx_addr C \<and>
     (if is_left then left_child (h a) = p \<and> vtree h a (right_child (h a)) u
      else right_child (h a) = p \<and> vtree h a (left_child (h a)) u) \<and> ctxrep h rt C a"

definition links :: "MMVAD_SHORT \<Rightarrow> nat \<times> nat \<times> nat" where
  "links v = (parent v, left_child v, right_child v)"

lemma inorder_plug: "inorder (plug C t) = before C @ inorder t @ after C"
  by (induction C t rule: plug.induct) auto

lemma vtree_plug: "vtree h 0 rt (plug C t) \<longleftrightarrow> (\<exists>p. ctxrep h rt C p \<and> vtree h (ctx_addr C) p t)"
  by (induction C t rule: plug.induct) auto

lemma vtree_frame:
  "vtree h par p t \<Longrightarrow> (\<And>a. a \<in> set (inorder t) \<Longrightarrow> links (h' a) = links (h a)) \<Longrightarrow> vtree h' par p t"
  by (induction t arbitrary: par p) (auto simp: links_def)

lemma vtree_nonzero: "vtree h par p t \<Longrightarrow> a \<in> set (inorder t) \<Longrightarrow> a \<noteq> 0"
  by (induction t arbitrary: par p) auto

lemma vtree_root: "vtree h par p t \<Longrightarrow> p \<noteq> 0 \<Longrightarrow> p \<in> set (inorder t)"
  by (cases t) auto

lemma vtree_root_iff: "vtree h par p t \<Longrightarrow> p = 0 \<longleftrightarrow> t = Leaf"
  by (cases t) auto

lemma vtree_reparent:
  assumes "vtree h par p t" and "distinct (inorder t)"
    and "\<And>a. a \<in> set (inorder t) \<Longrightarrow> left_child (h' a) = left_child (h a) \<and> right_child (h' a) = right_child (h a)"
    and "\<And>a. a \<in> set (inorder t) \<Longrightarrow> a \<noteq> p \<Longrightarrow> parent (h' a) = parent (h a)"
    and "p \<noteq> 0 \<Longrightarrow> parent (h' p) = q"
  shows "vtree h' q p t"
proof (cases t)
  case (Node l a r)
  have p: "p = a" "a \<noteq> 0" using assms(1) Node by simp_all
  have "links (h' x) = links (h x)" if "x \<in> set (inorder l) \<union> set (inorder r)" for x
  proof -
    have "x \<in> set (inorder t)" "x \<noteq> p" using that assms(2) Node p by auto
    then show ?thesis using assms(3,4) [of x] by (simp add: links_def)
  qed
  then have "vtree h' a (left_child (h a)) l" "vtree h' a (right_child (h a)) r"
    using assms(1) Node by (auto intro!: vtree_frame [of h a _ _ h'])
  then show ?thesis using assms(3) [of a] assms(5) Node p by simp
qed (use assms in simp)

lemma ctxrep_nonzero: "ctxrep h rt C p \<Longrightarrow> a \<in> set (before C) \<union> set (after C) \<Longrightarrow> a \<noteq> 0"
  by (induction h rt C p rule: ctxrep.induct) (auto split: if_splits dest: vtree_nonzero)

lemma ctx_addr_in: "C \<noteq> [] \<Longrightarrow> ctx_addr C \<in> set (before C) \<union> set (after C)"
  by (cases C rule: ctx_addr.cases) auto

lemma ctxrep_frame:
  "ctxrep h rt C p \<Longrightarrow> (\<And>a. a \<in> set (before C) \<union> set (after C) \<Longrightarrow> links (h' a) = links (h a)) \<Longrightarrow> ctxrep h' rt C p"
proof (induction h rt C p rule: ctxrep.induct)
  case (2 h rt is_left a u C p)
  have "links (h' a) = links (h a)" "\<And>x. x \<in> set (inorder u) \<Longrightarrow> links (h' x) = links (h x)"
    using 2(3) by auto
  then show ?case using 2 by (auto simp: links_def intro!: vtree_frame [of h a _ u h'])
qed simp

text \<open>Replacing the subtree at a position.\<close>

lemma ctx_replace:
  assumes "ctxrep (vads s) (root s) C p" and "distinct (before C @ after C)" and "p \<noteq> 0"
    and "p \<notin> set (before C) \<union> set (after C)"
    and "s' = replace_child (ctx_addr C) p q s"
  shows "ctxrep (vads s') (root s') C q"
    and "\<And>a. C = [] \<or> a \<noteq> ctx_addr C \<Longrightarrow> vads s' a = vads s a"
proof -
  have "ctxrep (vads s') (root s') C q \<and> (\<forall>a. C = [] \<or> a \<noteq> ctx_addr C \<longrightarrow> vads s' a = vads s a)"
  proof (cases C)
    case Nil
    then show ?thesis using assms by (simp add: replace_child_def)
  next
    case (Cons c D)
    obtain d a u where c: "c = (d, a, u)" by (cases c) auto
    have a: "a \<noteq> 0" "ctxrep (vads s) (root s) D a" "a \<notin> set (before D) \<union> set (after D)" "a \<notin> set (inorder u)"
      "(set (before D) \<union> set (after D)) \<inter> set (inorder u) = {}"
      using assms(1,2) Cons c by (auto split: if_splits)
    have D: "ctxrep h (root s) D a" if "\<And>x. x \<noteq> a \<Longrightarrow> h x = vads s x" for h
      using a that by (intro ctxrep_frame [OF a(2)]) (metis)
    have u: "vtree h a q' u" if "\<And>x. x \<noteq> a \<Longrightarrow> h x = vads s x" "vtree (vads s) a q' u" for h q'
      using a that by (intro vtree_frame [OF that(2)]) (metis)
    show ?thesis
    proof (cases d)
      case True
      then have e: "s' = set_left a q s" using assms Cons c by (simp add: replace_child_def)
      show ?thesis using assms(1) Cons c True a D [of "vads s'"] u [of "vads s'"] unfolding e by (auto simp: upd_def)
    next
      case False
      have "left_child (vads s a) \<noteq> p"
        using assms(1,3,4) Cons c False vtree_root by fastforce
      then have e: "s' = set_right a q s" using assms Cons c False by (simp add: replace_child_def)
      show ?thesis using assms(1) Cons c False a D [of "vads s'"] u [of "vads s'"] unfolding e by (auto simp: upd_def)
    qed
  qed
  then show "ctxrep (vads s') (root s') C q" "\<And>a. C = [] \<or> a \<noteq> ctx_addr C \<Longrightarrow> vads s' a = vads s a" by blast+
qed

section \<open>Heights and balances\<close>

lemma get_height_vtree: "vtree h par p t \<Longrightarrow> mi_get_height h p = Some (int (height t))"
proof (induction t arbitrary: par p)
  case Leaf
  then show ?case by (simp add: mi_get_height.simps)
next
  case (Node l a r)
  then show ?case by (subst mi_get_height.simps) (auto simp: max_def)
qed

text \<open>The balance the code computes for a node over two subtrees.\<close>

definition bal_of :: "nat tree \<Rightarrow> nat tree \<Rightarrow> int" where
  "bal_of l r = signed_take_bit 7 (int (height r) - int (height l))"

fun bal_ok :: "vad_store \<Rightarrow> nat tree \<Rightarrow> bool" where
  "bal_ok h Leaf \<longleftrightarrow> True"
| "bal_ok h (Node l a r) \<longleftrightarrow> balance (h a) = bal_of l r \<and> bal_ok h l \<and> bal_ok h r"

fun ctx_bal_ok :: "vad_store \<Rightarrow> ctx \<Rightarrow> bool" where
  "ctx_bal_ok h [] \<longleftrightarrow> True"
| "ctx_bal_ok h ((d, a, u) # C) \<longleftrightarrow> bal_ok h u \<and> ctx_bal_ok h C"

lemma bal_ok_frame:
  "bal_ok h t \<Longrightarrow> (\<And>a. a \<in> set (inorder t) \<Longrightarrow> balance (h' a) = balance (h a)) \<Longrightarrow> bal_ok h' t"
  by (induction t) auto

lemma ctx_bal_ok_frame:
  "ctx_bal_ok h C \<Longrightarrow> (\<And>a. a \<in> set (before C) \<union> set (after C) \<Longrightarrow> balance (h' a) = balance (h a)) \<Longrightarrow> ctx_bal_ok h' C"
proof (induction h C rule: ctx_bal_ok.induct)
  case (2 h d a u C)
  then show ?case using bal_ok_frame [of h u h'] by (auto split: if_splits)
qed simp

definition data :: "MMVAD_SHORT \<Rightarrow> u64 \<times> u64 \<times> u32 \<times> u32 \<times> u64" where
  "data v = (starting_vpn v, ending_vpn v, vad_flags v, reference_count v, push_lock v)"

text \<open>Only links, balances and the root differ, and these only at nodes of \<open>A\<close>.\<close>

definition same_data :: "nat set \<Rightarrow> MM_AVL_TABLE \<Rightarrow> MM_AVL_TABLE \<Rightarrow> bool" where
  "same_data A s s' \<longleftrightarrow> node_count s' = node_count s \<and> free_hint s' = free_hint s \<and>
     (\<forall>a. data (vads s' a) = data (vads s a)) \<and> (\<forall>a. a \<notin> A \<longrightarrow> vads s' a = vads s a)"

lemma same_data_refl: "same_data A s s" by (simp add: same_data_def)

lemma same_data_trans: "same_data A s1 s2 \<Longrightarrow> same_data A s2 s3 \<Longrightarrow> same_data A s1 s3"
  by (simp add: same_data_def)

lemma same_data_upd:
  "a \<in> A \<Longrightarrow> same_data A s (set_parent a v s)" "a \<in> A \<Longrightarrow> same_data A s (set_left a v s)"
  "a \<in> A \<Longrightarrow> same_data A s (set_right a v s)" "a \<in> A \<Longrightarrow> same_data A s (upd a (balance_update (\<lambda>_. b)) s)"
  by (simp_all add: same_data_def upd_def data_def)

lemma same_data_replace: "par = 0 \<or> par \<in> A \<Longrightarrow> same_data A s (replace_child par old new s)"
  by (auto simp: replace_child_def same_data_upd) (simp_all add: same_data_def)

lemma update_balance:
  assumes "vtree (vads s) par p (Node l p r)"
  shows "mi_update_balance p s = Some (upd p (balance_update (\<lambda>_. bal_of l r)) s)"
  using assms by (auto simp: mi_update_balance_def mi_get_balance_def get_height_vtree bal_of_def)

lemma vads_upd: "vads (upd p f s) a = (if a = p then f (vads s p) else vads s a)"
  and root_upd: "root (upd p f s) = root s"
  by (simp_all add: upd_def)

lemma links_upd_balance: "links (vads (upd p (balance_update (\<lambda>_. b)) s) a) = links (vads s a)"
  by (simp add: vads_upd links_def)

definition tree_nodes :: "ctx \<Rightarrow> nat tree \<Rightarrow> nat set" where
  "tree_nodes C t = set (before C) \<union> set (inorder t) \<union> set (after C)"

text \<open>The table represents \<open>t\<close> in the context \<open>C\<close>.\<close>

definition rep :: "MM_AVL_TABLE \<Rightarrow> ctx \<Rightarrow> nat tree \<Rightarrow> bool" where
  "rep s C t \<longleftrightarrow> vtree (vads s) 0 (root s) (plug C t) \<and> distinct (inorder (plug C t))"

lemma rep_balance: "rep (upd p (balance_update (\<lambda>_. b)) s) C t \<longleftrightarrow> rep s C t"
proof -
  have "vtree h par p t \<longleftrightarrow> vtree h' par p t" if "\<And>a. links (h' a) = links (h a)" for h h' par p t
    using that vtree_frame [of h par p t h'] vtree_frame [of h' par p t h] by auto
  from this [of "vads (upd p (balance_update (\<lambda>_. b)) s)" "vads s"] show ?thesis
    by (simp add: rep_def root_upd links_upd_balance)
qed

lemma repD:
  assumes "rep s C t"
  obtains p where "ctxrep (vads s) (root s) C p" "vtree (vads s) (ctx_addr C) p t" "distinct (inorder t)"
    "distinct (before C @ after C)" "\<And>a. a \<in> set (inorder t) \<Longrightarrow> a \<notin> set (before C) \<union> set (after C)"
    "\<And>a. a \<in> set (inorder t) \<Longrightarrow> a \<noteq> ctx_addr C"
proof -
  obtain p where p: "ctxrep (vads s) (root s) C p" "vtree (vads s) (ctx_addr C) p t"
    using assms by (auto simp: rep_def vtree_plug)
  have d: "distinct (before C @ inorder t @ after C)" using assms by (simp add: rep_def inorder_plug)
  have o: "a \<notin> set (before C) \<union> set (after C)" if "a \<in> set (inorder t)" for a
    using that d by (auto simp del: set_inorder)
  have n: "a \<noteq> ctx_addr C" if "a \<in> set (inorder t)" for a
  proof (cases "C = []")
    case True
    then show ?thesis using vtree_nonzero [OF p(2) that] by simp
  next
    case False
    then show ?thesis using o [OF that] ctx_addr_in by metis
  qed
  show thesis by (rule that [OF p _ _ o n]) (use d in auto)
qed

lemma repI:
  assumes "ctxrep (vads s) (root s) C p" and "vtree (vads s) (ctx_addr C) p t"
    and "distinct (before C @ inorder t @ after C)"
  shows "rep s C t"
  using assms by (auto simp: rep_def vtree_plug inorder_plug)

section \<open>Rotations\<close>

lemma rotate_right_rep:
  assumes "rep s C (Node (Node a x b) y c)"
  obtains s' where "mi_rotate_right y s = Some s'" and "rep s' C (Node a x (Node b y c))"
    and "same_data (tree_nodes C (Node (Node a x b) y c)) s s'"
    and "balance (vads s' y) = bal_of b c" and "balance (vads s' x) = bal_of a (Node b y c)"
    and "\<And>z. z \<noteq> x \<Longrightarrow> z \<noteq> y \<Longrightarrow> balance (vads s' z) = balance (vads s z)"
proof -
  let ?T = "Node (Node a x b) y c"
  obtain p where p: "ctxrep (vads s) (root s) C p" "vtree (vads s) (ctx_addr C) p ?T" "distinct (inorder ?T)"
    "distinct (before C @ after C)" "\<And>z. z \<in> set (inorder ?T) \<Longrightarrow> z \<notin> set (before C) \<union> set (after C)"
    "\<And>z. z \<in> set (inorder ?T) \<Longrightarrow> z \<noteq> ctx_addr C"
    by (rule repD [OF assms]) blast
  let ?h = "vads s"
  have l: "left_child (?h y) = x" "x \<noteq> 0" "y \<noteq> 0" "x \<noteq> y" "p = y" "parent (?h y) = ctx_addr C"
    "vtree ?h x (left_child (?h x)) a" "vtree ?h x (right_child (?h x)) b" "vtree ?h y (right_child (?h y)) c"
    using p(2,3) by auto
  let ?b = "right_child (?h x)"
  have nb: "?b \<noteq> x" "?b \<noteq> y" "?b \<noteq> 0 \<Longrightarrow> ?b \<in> set (inorder b)"
    using vtree_root [OF l(8)] p(3) l(2,3) by (cases "?b = 0"; auto)+
  define s1 where "s1 = set_left y ?b s"
  define s2 where "s2 = (if ?b \<noteq> 0 then set_parent ?b y s1 else s1)"
  define s3 where "s3 = set_parent x (ctx_addr C) s2"
  define s4 where "s4 = replace_child (ctx_addr C) y x s3"
  define s5 where "s5 = set_right x y s4"
  define s6 where "s6 = set_parent y x s5"
  have v3: "vads s3 z = (if z = y then (?h y)\<lparr>left_child := ?b\<rparr> else if z = x then (?h x)\<lparr>parent := ctx_addr C\<rparr>
      else if z = ?b \<and> ?b \<noteq> 0 then (?h z)\<lparr>parent := y\<rparr> else ?h z)" for z
    using l(4) nb by (auto simp: s3_def s2_def s1_def vads_upd)
  have r3: "root s3 = root s" by (simp add: s3_def s2_def s1_def root_upd)
  have c3: "ctxrep (vads s3) (root s3) C y"
    unfolding r3
  proof (rule ctxrep_frame)
    show "ctxrep (vads s) (root s) C y" using p(1) l(5) by simp
    fix z assume "z \<in> set (before C) \<union> set (after C)"
    then have "z \<notin> set (inorder ?T)" using p(5) by blast
    then show "links (vads s3 z) = links (?h z)" using nb v3 by auto
  qed
  have ny: "y \<notin> set (before C) \<union> set (after C)" using p(5) by simp
  note rc = ctx_replace [OF c3 p(4) l(3) ny s4_def]
  have nx: "x \<noteq> ctx_addr C" "y \<noteq> ctx_addr C" using p(6) by simp_all
  have v4: "vads s4 z = vads s3 z" if "z \<in> set (inorder ?T)" for z
    using rc(2) [of z] p(6) [OF that] by simp
  have v6: "vads s6 z = (if z = y then (vads s4 y)\<lparr>parent := x\<rparr> else if z = x then (vads s4 x)\<lparr>right_child := y\<rparr>
      else vads s4 z)" for z
    using l(4) by (simp add: s6_def s5_def vads_upd)
  have r6: "root s6 = root s4" by (simp add: s6_def s5_def root_upd)
  have w: "vads s6 z = (if z = y then (?h y)\<lparr>left_child := ?b, parent := x\<rparr>
      else if z = x then (?h x)\<lparr>parent := ctx_addr C, right_child := y\<rparr>
      else if z = ?b \<and> ?b \<noteq> 0 then (?h z)\<lparr>parent := y\<rparr> else ?h z)" if "z \<in> set (inorder ?T)" for z
    using that v6 v4 v3 l(4) by auto
  have ta: "vtree (vads s6) x (left_child (vads s6 x)) a"
  proof -
    have "vtree (vads s6) x (left_child (?h x)) a"
      by (rule vtree_frame [OF l(7)]) (use p(3) nb w in \<open>auto simp: links_def\<close>)
    then show ?thesis using w [of x] l(4) by simp
  qed
  have tc: "vtree (vads s6) y (right_child (vads s6 y)) c"
  proof -
    have "vtree (vads s6) y (right_child (?h y)) c"
      by (rule vtree_frame [OF l(9)]) (use p(3) nb w in \<open>auto simp: links_def\<close>)
    then show ?thesis using w [of y] by simp
  qed
  have tb: "vtree (vads s6) y (left_child (vads s6 y)) b"
  proof -
    have "vtree (vads s6) y ?b b"
      by (rule vtree_reparent [OF l(8)]) (use p(3) nb w in auto)
    then show ?thesis using w [of y] by simp
  qed
  have cx: "ctxrep (vads s6) (root s6) C x"
    unfolding r6
  proof (rule ctxrep_frame [OF rc(1)])
    fix z assume "z \<in> set (before C) \<union> set (after C)"
    then have "z \<noteq> x" "z \<noteq> y" using p(5) [of x] p(5) [of y] by auto
    then show "links (vads s6 z) = links (vads s4 z)" using v6 by simp
  qed
  have wx: "vads s6 x = (?h x)\<lparr>parent := ctx_addr C, right_child := y\<rparr>" and wy: "vads s6 y = (?h y)\<lparr>left_child := ?b, parent := x\<rparr>"
    using w [of x] w [of y] l(4) by simp_all
  have ty: "vtree (vads s6) x y (Node b y c)" using tb tc l(3) by (simp add: wy)
  have tx: "vtree (vads s6) (ctx_addr C) x (Node a x (Node b y c))"
    using ta ty l(2) by (simp add: wx)
  have d: "distinct (before C @ inorder (Node a x (Node b y c)) @ after C)"
    using assms by (simp add: rep_def inorder_plug)
  have rep6: "rep s6 C (Node a x (Node b y c))" by (rule repI [OF cx tx d])
  define s7 where "s7 = upd y (balance_update (\<lambda>_. bal_of b c)) s6"
  define s8 where "s8 = upd x (balance_update (\<lambda>_. bal_of a (Node b y c))) s7"
  have u7: "mi_update_balance y s6 = Some s7" unfolding s7_def by (rule update_balance [OF ty])
  have "vtree (vads s7) (ctx_addr C) x (Node a x (Node b y c))"
    by (rule vtree_frame [OF tx]) (simp add: s7_def links_upd_balance)
  then have u8: "mi_update_balance x s7 = Some s8" unfolding s8_def by (rule update_balance)
  have run: "mi_rotate_right y s = Some s8"
    using l(1,2,4) nb u7 u8
    by (cases "?b = 0") (simp_all add: mi_rotate_right_def Let_def s6_def s5_def s4_def s3_def s2_def s1_def l(6) vads_upd cong: if_cong)
  have bal6: "balance (vads s6 z) = balance (?h z)" for z
    using v6 [of z] v3 [of z] rc(2) [of z]
    by (auto simp: s4_def replace_child_def vads_upd)
  let ?A = "tree_nodes C ?T"
  have in_A: "x \<in> ?A" "y \<in> ?A" "?b = 0 \<or> ?b \<in> ?A" "ctx_addr C = 0 \<or> ctx_addr C \<in> ?A"
    using nb(3) ctx_addr_in [of C] by (cases "C = []"; auto simp: tree_nodes_def)+
  have "same_data ?A s s1" "same_data ?A s1 s2" "same_data ?A s2 s3" "same_data ?A s3 s4" "same_data ?A s4 s5"
    "same_data ?A s5 s6" "same_data ?A s6 s7" "same_data ?A s7 s8"
    using in_A by (auto simp: s1_def s2_def s3_def s4_def s5_def s6_def s7_def s8_def same_data_refl
        intro: same_data_upd same_data_replace)
  then have sd: "same_data ?A s s8" by (blast intro: same_data_trans)
  show ?thesis
    by (rule that [OF run _ sd])
       (use rep6 l(4) bal6 in \<open>simp_all add: s8_def s7_def rep_balance vads_upd\<close>)
qed

lemma rotate_left_rep:
  assumes "rep s C (Node a x (Node b y c))"
  obtains s' where "mi_rotate_left x s = Some s'" and "rep s' C (Node (Node a x b) y c)"
    and "same_data (tree_nodes C (Node a x (Node b y c))) s s'"
    and "balance (vads s' x) = bal_of a b" and "balance (vads s' y) = bal_of (Node a x b) c"
    and "\<And>z. z \<noteq> y \<Longrightarrow> z \<noteq> x \<Longrightarrow> balance (vads s' z) = balance (vads s z)"
proof -
  let ?T = "Node a x (Node b y c)"
  obtain p where p: "ctxrep (vads s) (root s) C p" "vtree (vads s) (ctx_addr C) p ?T" "distinct (inorder ?T)"
    "distinct (before C @ after C)" "\<And>z. z \<in> set (inorder ?T) \<Longrightarrow> z \<notin> set (before C) \<union> set (after C)"
    "\<And>z. z \<in> set (inorder ?T) \<Longrightarrow> z \<noteq> ctx_addr C"
    by (rule repD [OF assms]) blast
  let ?h = "vads s"
  have l: "right_child (?h x) = y" "y \<noteq> 0" "x \<noteq> 0" "y \<noteq> x" "p = x" "parent (?h x) = ctx_addr C"
    "vtree ?h y (right_child (?h y)) c" "vtree ?h y (left_child (?h y)) b" "vtree ?h x (left_child (?h x)) a"
    using p(2,3) by auto
  let ?b = "left_child (?h y)"
  have nb: "?b \<noteq> y" "?b \<noteq> x" "?b \<noteq> 0 \<Longrightarrow> ?b \<in> set (inorder b)"
    using vtree_root [OF l(8)] p(3) l(2,3) by (cases "?b = 0"; auto)+
  define s1 where "s1 = set_right x ?b s"
  define s2 where "s2 = (if ?b \<noteq> 0 then set_parent ?b x s1 else s1)"
  define s3 where "s3 = set_parent y (ctx_addr C) s2"
  define s4 where "s4 = replace_child (ctx_addr C) x y s3"
  define s5 where "s5 = set_left y x s4"
  define s6 where "s6 = set_parent x y s5"
  have v3: "vads s3 z = (if z = x then (?h x)\<lparr>right_child := ?b\<rparr> else if z = y then (?h y)\<lparr>parent := ctx_addr C\<rparr>
      else if z = ?b \<and> ?b \<noteq> 0 then (?h z)\<lparr>parent := x\<rparr> else ?h z)" for z
    using l(4) nb by (auto simp: s3_def s2_def s1_def vads_upd)
  have r3: "root s3 = root s" by (simp add: s3_def s2_def s1_def root_upd)
  have c3: "ctxrep (vads s3) (root s3) C x"
    unfolding r3
  proof (rule ctxrep_frame)
    show "ctxrep (vads s) (root s) C x" using p(1) l(5) by simp
    fix z assume "z \<in> set (before C) \<union> set (after C)"
    then have "z \<notin> set (inorder ?T)" using p(5) by blast
    then show "links (vads s3 z) = links (?h z)" using nb v3 by auto
  qed
  have ny: "x \<notin> set (before C) \<union> set (after C)" using p(5) by simp
  note rc = ctx_replace [OF c3 p(4) l(3) ny s4_def]
  have nx: "y \<noteq> ctx_addr C" "x \<noteq> ctx_addr C" using p(6) by simp_all
  have v4: "vads s4 z = vads s3 z" if "z \<in> set (inorder ?T)" for z
    using rc(2) [of z] p(6) [OF that] by simp
  have v6: "vads s6 z = (if z = x then (vads s4 x)\<lparr>parent := y\<rparr> else if z = y then (vads s4 y)\<lparr>left_child := x\<rparr>
      else vads s4 z)" for z
    using l(4) by (simp add: s6_def s5_def vads_upd)
  have r6: "root s6 = root s4" by (simp add: s6_def s5_def root_upd)
  have w: "vads s6 z = (if z = x then (?h x)\<lparr>right_child := ?b, parent := y\<rparr>
      else if z = y then (?h y)\<lparr>parent := ctx_addr C, left_child := x\<rparr>
      else if z = ?b \<and> ?b \<noteq> 0 then (?h z)\<lparr>parent := x\<rparr> else ?h z)" if "z \<in> set (inorder ?T)" for z
    using that v6 v4 v3 l(4) by auto
  have ta: "vtree (vads s6) y (right_child (vads s6 y)) c"
  proof -
    have "vtree (vads s6) y (right_child (?h y)) c"
      by (rule vtree_frame [OF l(7)]) (use p(3) nb w in \<open>auto simp: links_def\<close>)
    then show ?thesis using w [of y] l(4) by simp
  qed
  have tc: "vtree (vads s6) x (left_child (vads s6 x)) a"
  proof -
    have "vtree (vads s6) x (left_child (?h x)) a"
      by (rule vtree_frame [OF l(9)]) (use p(3) nb w in \<open>auto simp: links_def\<close>)
    then show ?thesis using w [of x] by simp
  qed
  have tb: "vtree (vads s6) x (right_child (vads s6 x)) b"
  proof -
    have "vtree (vads s6) x ?b b"
      by (rule vtree_reparent [OF l(8)]) (use p(3) nb w in auto)
    then show ?thesis using w [of x] by simp
  qed
  have cx: "ctxrep (vads s6) (root s6) C y"
    unfolding r6
  proof (rule ctxrep_frame [OF rc(1)])
    fix z assume "z \<in> set (before C) \<union> set (after C)"
    then have "z \<noteq> y" "z \<noteq> x" using p(5) [of y] p(5) [of x] by auto
    then show "links (vads s6 z) = links (vads s4 z)" using v6 by simp
  qed
  have wx: "vads s6 y = (?h y)\<lparr>parent := ctx_addr C, left_child := x\<rparr>" and wy: "vads s6 x = (?h x)\<lparr>right_child := ?b, parent := y\<rparr>"
    using w [of y] w [of x] l(4) by simp_all
  have ty: "vtree (vads s6) y x (Node a x b)" using tb tc l(3) by (simp add: wy)
  have tx: "vtree (vads s6) (ctx_addr C) y (Node (Node a x b) y c)"
    using ta ty l(2) by (simp add: wx)
  have d: "distinct (before C @ inorder (Node (Node a x b) y c) @ after C)"
    using assms by (simp add: rep_def inorder_plug)
  have rep6: "rep s6 C (Node (Node a x b) y c)" by (rule repI [OF cx tx d])
  define s7 where "s7 = upd x (balance_update (\<lambda>_. bal_of a b)) s6"
  define s8 where "s8 = upd y (balance_update (\<lambda>_. bal_of (Node a x b) c)) s7"
  have u7: "mi_update_balance x s6 = Some s7" unfolding s7_def by (rule update_balance [OF ty])
  have "vtree (vads s7) (ctx_addr C) y (Node (Node a x b) y c)"
    by (rule vtree_frame [OF tx]) (simp add: s7_def links_upd_balance)
  then have u8: "mi_update_balance y s7 = Some s8" unfolding s8_def by (rule update_balance)
  have run: "mi_rotate_left x s = Some s8"
    using l(1,2,4) nb u7 u8
    by (cases "?b = 0") (simp_all add: mi_rotate_left_def Let_def s6_def s5_def s4_def s3_def s2_def s1_def l(6) vads_upd cong: if_cong)
  have bal6: "balance (vads s6 z) = balance (?h z)" for z
    using v6 [of z] v3 [of z] rc(2) [of z]
    by (auto simp: s4_def replace_child_def vads_upd)
  let ?A = "tree_nodes C ?T"
  have in_A: "y \<in> ?A" "x \<in> ?A" "?b = 0 \<or> ?b \<in> ?A" "ctx_addr C = 0 \<or> ctx_addr C \<in> ?A"
    using nb(3) ctx_addr_in [of C] by (cases "C = []"; auto simp: tree_nodes_def)+
  have "same_data ?A s s1" "same_data ?A s1 s2" "same_data ?A s2 s3" "same_data ?A s3 s4" "same_data ?A s4 s5"
    "same_data ?A s5 s6" "same_data ?A s6 s7" "same_data ?A s7 s8"
    using in_A by (auto simp: s1_def s2_def s3_def s4_def s5_def s6_def s7_def s8_def same_data_refl
        intro: same_data_upd same_data_replace)
  then have sd: "same_data ?A s s8" by (blast intro: same_data_trans)
  show ?thesis
    by (rule that [OF run _ sd])
       (use rep6 l(4) bal6 in \<open>simp_all add: s8_def s7_def rep_balance vads_upd\<close>)
qed


end
