(* ===== verification/VadSpec.thy ===== *)
theory VadSpec
  imports VadTree
begin

text \<open>
  The VAD tree is a balanced map of disjoint page ranges: rebalancing after a change restores the
  AVL shape and the stored balances, and lookup, insertion, removal and the gap searches are
  characterised by the ranges of the represented tree.
\<close>

section \<open>Balance\<close>

fun avl :: "nat tree \<Rightarrow> bool" where
  "avl Leaf \<longleftrightarrow> True"
| "avl (Node l a r) \<longleftrightarrow> height l \<le> height r + 1 \<and> height r \<le> height l + 1 \<and> avl l \<and> avl r"

lemma bal_of_small:
  assumes "height l \<le> height r + 2" and "height r \<le> height l + 2"
  shows "bal_of l r = int (height r) - int (height l)"
  unfolding bal_of_def using assms by (intro signed_take_bit_int_eq_self) simp_all

lemma rep_node:
  assumes "rep s C (Node l p r)"
  shows "vtree (vads s) (ctx_addr C) p (Node l p r)" and "p \<noteq> 0" and "parent (vads s p) = ctx_addr C"
    and "vtree (vads s) p (left_child (vads s p)) l" and "vtree (vads s) p (right_child (vads s p)) r"
  using assms by (auto elim!: repD)

lemma rep_left: "rep s C (Node l a r) \<longleftrightarrow> rep s ((True, a, r) # C) l"
  and rep_right: "rep s C (Node l a r) \<longleftrightarrow> rep s ((False, a, l) # C) r"
  by (simp_all add: rep_def)

lemma rep_child:
  "rep s C (Node (Node a x b) p r) \<Longrightarrow> left_child (vads s p) = x \<and> x \<noteq> 0 \<and> parent (vads s x) = p"
  "rep s C (Node l p (Node a x b)) \<Longrightarrow> right_child (vads s p) = x \<and> x \<noteq> 0 \<and> parent (vads s x) = p"
  using rep_node(4,5) by fastforce+

text \<open>The subtree \<open>t\<close> at the position \<open>C\<close> became \<open>t'\<close>, with the same nodes in the same order.\<close>

definition moved :: "ctx \<Rightarrow> nat tree \<Rightarrow> MM_AVL_TABLE \<Rightarrow> nat tree \<Rightarrow> MM_AVL_TABLE \<Rightarrow> bool" where
  "moved C t s t' s' \<longleftrightarrow> rep s' C t' \<and> inorder t' = inorder t \<and> same_data (tree_nodes C t) s s' \<and>
     (\<forall>z. z \<notin> set (inorder t) \<longrightarrow> balance (vads s' z) = balance (vads s z))"

lemma tree_nodes_inorder: "inorder t' = inorder t \<Longrightarrow> tree_nodes C t' = tree_nodes C t"
  unfolding tree_nodes_def by simp

lemma moved_trans:
  assumes "moved C t s t' s'" and "moved C t' s' t'' s''"
  shows "moved C t s t'' s''"
  using assms tree_nodes_inorder [of t' t C] unfolding moved_def
  by (auto simp del: set_inorder intro: same_data_trans)

lemma moved_left:
  assumes "moved ((True, p, r) # C) l s l' s'"
  shows "moved C (Node l p r) s (Node l' p r) s'"
proof -
  have "tree_nodes ((True, p, r) # C) l = tree_nodes C (Node l p r)" by (auto simp: tree_nodes_def)
  then show ?thesis using assms rep_left unfolding moved_def by auto
qed

lemma moved_right:
  assumes "moved ((False, p, l) # C) r s r' s'"
  shows "moved C (Node l p r) s (Node l p r') s'"
proof -
  have "tree_nodes ((False, p, l) # C) r = tree_nodes C (Node l p r)" by (auto simp: tree_nodes_def)
  then show ?thesis using assms rep_right unfolding moved_def by auto
qed

lemma moved_bal_ok:
  assumes "moved C t s t' s'" and "bal_ok (vads s) u" and "set (inorder u) \<inter> set (inorder t) = {}"
  shows "bal_ok (vads s') u"
  by (rule bal_ok_frame [OF assms(2)]) (use assms(1,3) in \<open>auto simp: moved_def\<close>)

lemma bal_ok_keep:
  assumes "bal_ok (vads s) t" and "\<And>z. z \<noteq> x \<Longrightarrow> z \<noteq> p \<Longrightarrow> balance (vads s' z) = balance (vads s z)"
    and "x \<notin> set (inorder t)" and "p \<notin> set (inorder t)"
  shows "bal_ok (vads s') t"
proof (rule bal_ok_frame [OF assms(1)])
  fix z assume "z \<in> set (inorder t)"
  then have "z \<noteq> x" "z \<noteq> p" using assms(3,4) by blast+
  then show "balance (vads s' z) = balance (vads s z)" by (rule assms(2))
qed

lemma balanced_step:
  assumes "rep s C (Node l p r)"
  obtains s' where "mi_update_balance p s = Some s'" and "moved C (Node l p r) s (Node l p r) s'"
    and "balance (vads s' p) = bal_of l r" and "\<And>t. bal_ok (vads s) t \<Longrightarrow> p \<notin> set (inorder t) \<Longrightarrow> bal_ok (vads s') t"
proof -
  define s' where "s' = upd p (balance_update (\<lambda>_. bal_of l r)) s"
  have "mi_update_balance p s = Some s'" unfolding s'_def by (rule update_balance [OF rep_node(1) [OF assms(1)]])
  then show ?thesis
  proof (rule that)
    show "bal_ok (vads s') t" if "bal_ok (vads s) t" "p \<notin> set (inorder t)" for t
      by (rule bal_ok_keep [OF that(1) _ that(2) that(2)]) (simp add: s'_def vads_upd)
  qed (use assms in \<open>auto simp: moved_def s'_def rep_balance vads_upd tree_nodes_def intro: same_data_upd\<close>)
qed

lemma rotated_right:
  assumes "rep s C (Node (Node a x b) p r)" and "bal_ok (vads s) a" and "bal_ok (vads s) b" and "bal_ok (vads s) r"
  obtains s' where "mi_rotate_right p s = Some s'" and "moved C (Node (Node a x b) p r) s (Node a x (Node b p r)) s'"
    and "bal_ok (vads s') (Node a x (Node b p r))"
proof -
  let ?T = "Node (Node a x b) p r"
  obtain s' where s': "mi_rotate_right p s = Some s'" "rep s' C (Node a x (Node b p r))"
    "same_data (tree_nodes C ?T) s s'" "balance (vads s' p) = bal_of b r" "balance (vads s' x) = bal_of a (Node b p r)"
    "\<And>z. z \<noteq> x \<Longrightarrow> z \<noteq> p \<Longrightarrow> balance (vads s' z) = balance (vads s z)"
    by (rule rotate_right_rep [OF assms(1)]) blast
  have d: "distinct (inorder ?T)" using assms(1) by (auto elim!: repD)
  have keep: "bal_ok (vads s') t" if "bal_ok (vads s) t" "x \<notin> set (inorder t)" "p \<notin> set (inorder t)" for t
    by (rule bal_ok_keep [OF that(1) _ that(2,3)]) (rule s'(6))
  have "bal_ok (vads s') a" "bal_ok (vads s') b" "bal_ok (vads s') r"
    using d by (auto intro!: keep assms)
  then show ?thesis using s' that by (auto simp: moved_def)
qed

lemma rotated_left:
  assumes "rep s C (Node l p (Node b x c))" and "bal_ok (vads s) l" and "bal_ok (vads s) b" and "bal_ok (vads s) c"
  obtains s' where "mi_rotate_left p s = Some s'" and "moved C (Node l p (Node b x c)) s (Node (Node l p b) x c) s'"
    and "bal_ok (vads s') (Node (Node l p b) x c)"
proof -
  let ?T = "Node l p (Node b x c)"
  obtain s' where s': "mi_rotate_left p s = Some s'" "rep s' C (Node (Node l p b) x c)"
    "same_data (tree_nodes C ?T) s s'" "balance (vads s' p) = bal_of l b" "balance (vads s' x) = bal_of (Node l p b) c"
    "\<And>z. z \<noteq> x \<Longrightarrow> z \<noteq> p \<Longrightarrow> balance (vads s' z) = balance (vads s z)"
    by (rule rotate_left_rep [OF assms(1)]) blast
  have d: "distinct (inorder ?T)" using assms(1) by (auto elim!: repD)
  have keep: "bal_ok (vads s') t" if "bal_ok (vads s) t" "x \<notin> set (inorder t)" "p \<notin> set (inorder t)" for t
    by (rule bal_ok_keep [OF that(1) _ that(2,3)]) (rule s'(6))
  have "bal_ok (vads s') l" "bal_ok (vads s') b" "bal_ok (vads s') c"
    using d by (auto intro!: keep assms)
  then show ?thesis using s' that by (auto simp: moved_def)
qed

text \<open>What a step of the rebalancing loop at a node over two AVL trees does.\<close>

definition rebalanced :: "ctx \<Rightarrow> nat tree \<Rightarrow> MM_AVL_TABLE \<Rightarrow> nat tree \<Rightarrow> MM_AVL_TABLE \<Rightarrow> bool" where
  "rebalanced C t s t' s' \<longleftrightarrow> moved C t s t' s' \<and> avl t' \<and> bal_ok (vads s') t'"

lemma rebalance_flat:
  assumes "rep s C (Node l p r)" and "avl (Node l p r)" and "bal_ok (vads s) l" and "bal_ok (vads s) r"
  obtains s' where "rebalance_node p s = Some s'" and "rebalanced C (Node l p r) s (Node l p r) s'"
proof -
  obtain s' where u: "mi_update_balance p s = Some s'" "moved C (Node l p r) s (Node l p r) s'"
    "balance (vads s' p) = bal_of l r" "\<And>t. bal_ok (vads s) t \<Longrightarrow> p \<notin> set (inorder t) \<Longrightarrow> bal_ok (vads s') t"
    by (rule balanced_step [OF assms(1)]) blast
  have b: "bal_of l r = int (height r) - int (height l)" using assms(2) by (intro bal_of_small) simp_all
  have d: "p \<notin> set (inorder l)" "p \<notin> set (inorder r)" using assms(1) by (auto elim!: repD)
  have "bal_ok (vads s') l" "bal_ok (vads s') r"
    using d by (auto intro!: u(4) assms)
  moreover have "rebalance_node p s = Some s'" using assms(2) by (simp add: rebalance_node_def u(1,3) b Let_def)
  ultimately show ?thesis using assms(2) u(2,3) that by (simp add: rebalanced_def)
qed

lemma rebalance_left_heavy:
  assumes "rep s C (Node l p r)" and "avl l" and "avl r" and "bal_ok (vads s) l" and "bal_ok (vads s) r"
    and "height l = height r + 2"
  obtains s' L q R where "rebalance_node p s = Some s'" and "rebalanced C (Node l p r) s (Node L q R) s'"
    and "height (Node L q R) = height l \<or> height (Node L q R) = height l + 1" and "parent (vads s' p) = q"
proof -
  obtain a x b where l: "l = Node a x b" using assms(6) by (cases l) auto
  obtain s1 where u: "mi_update_balance p s = Some s1" "moved C (Node l p r) s (Node l p r) s1"
    "balance (vads s1 p) = bal_of l r" "\<And>t. bal_ok (vads s) t \<Longrightarrow> p \<notin> set (inorder t) \<Longrightarrow> bal_ok (vads s1) t"
    by (rule balanced_step [OF assms(1)]) blast
  have b: "bal_of l r = -2" using bal_of_small [of l r] assms(6) by simp
  have d: "distinct (inorder (Node l p r))" using assms(1) by (auto elim!: repD)
  have ok: "bal_ok (vads s1) l" "bal_ok (vads s1) r"
    using d by (auto intro!: u(4) assms)
  have r1: "rep s1 C (Node (Node a x b) p r)" using u(2) l by (simp add: moved_def)
  note ch = rep_child(1) [OF r1]
  have bx: "balance (vads s1 x) = int (height b) - int (height a)"
    using ok(1) l assms(2) bal_of_small [of a b] by simp
  show ?thesis
  proof (cases "height a < height b")
    case False
    then obtain s2 where s2: "mi_rotate_right p s1 = Some s2" "moved C (Node l p r) s1 (Node a x (Node b p r)) s2"
      "bal_ok (vads s2) (Node a x (Node b p r))"
      using rotated_right [OF r1] ok l by auto
    have "rebalance_node p s = Some s2" using False by (simp add: rebalance_node_def u(1,3) b ch bx s2(1) Let_def)
    moreover have "parent (vads s2 p) = x" using s2(2) rep_child(2) by (auto simp: moved_def)
    moreover have h: "height a = height r + 1" "height b = height r \<or> height b = height r + 1"
      using assms(2,6) l False by auto
    moreover have "rebalanced C (Node l p r) s (Node a x (Node b p r)) s2"
      using moved_trans [OF u(2) s2(2)] s2(3) assms(2,3) h l by (auto simp: rebalanced_def)
    ultimately show ?thesis using that [of s2 a x "Node b p r"] assms(6) by auto
  next
    case True
    then obtain b1 z b2 where bz: "b = Node b1 z b2" by (cases b) auto
    have rl: "rep s1 ((True, p, r) # C) (Node a x (Node b1 z b2))" using r1 bz rep_left by simp
    obtain s2 where s2: "mi_rotate_left x s1 = Some s2"
      "moved ((True, p, r) # C) (Node a x (Node b1 z b2)) s1 (Node (Node a x b1) z b2) s2"
      "bal_ok (vads s2) (Node (Node a x b1) z b2)"
      using rotated_left [OF rl] ok l bz by auto
    note m2 = moved_left [OF s2(2)]
    have r2: "rep s2 C (Node (Node (Node a x b1) z b2) p r)" using m2 by (simp add: moved_def)
    have okr: "bal_ok (vads s2) r" by (rule moved_bal_ok [OF s2(2) ok(2)]) (use d l bz in auto)
    obtain s3 where s3: "mi_rotate_right p s2 = Some s3"
      "moved C (Node (Node (Node a x b1) z b2) p r) s2 (Node (Node a x b1) z (Node b2 p r)) s3"
      "bal_ok (vads s3) (Node (Node a x b1) z (Node b2 p r))"
      using rotated_right [OF r2] s2(3) okr by auto
    have "rebalance_node p s = Some s3"
      using True by (simp add: rebalance_node_def u(1,3) b ch bx s2(1) s3(1) Let_def)
    moreover have "parent (vads s3 p) = z" using s3(2) rep_child(2) by (auto simp: moved_def)
    moreover have "moved C (Node l p r) s (Node (Node a x b1) z (Node b2 p r)) s3"
      using moved_trans [OF u(2)] moved_trans [OF m2 s3(2)] l bz by simp
    moreover have h: "height a = height r" "height b1 = height r \<or> height b2 = height r"
      "height b1 \<le> height r" "height b2 \<le> height r" "height r \<le> height b1 + 1" "height r \<le> height b2 + 1"
      using assms(2,6) l bz True by auto
    ultimately show ?thesis
      using that [of s3 "Node a x b1" z "Node b2 p r"] s3(3) assms(2,3,6) l bz
      by (auto simp: rebalanced_def)
  qed
qed

lemma rebalance_right_heavy:
  assumes "rep s C (Node l p r)" and "avl l" and "avl r" and "bal_ok (vads s) l" and "bal_ok (vads s) r"
    and "height r = height l + 2"
  obtains s' L q R where "rebalance_node p s = Some s'" and "rebalanced C (Node l p r) s (Node L q R) s'"
    and "height (Node L q R) = height r \<or> height (Node L q R) = height r + 1" and "parent (vads s' p) = q"
proof -
  obtain a x b where r: "r = Node a x b" using assms(6) by (cases r) auto
  obtain s1 where u: "mi_update_balance p s = Some s1" "moved C (Node l p r) s (Node l p r) s1"
    "balance (vads s1 p) = bal_of l r" "\<And>t. bal_ok (vads s) t \<Longrightarrow> p \<notin> set (inorder t) \<Longrightarrow> bal_ok (vads s1) t"
    by (rule balanced_step [OF assms(1)]) blast
  have b: "bal_of l r = 2" using bal_of_small [of l r] assms(6) by simp
  have d: "distinct (inorder (Node l p r))" using assms(1) by (auto elim!: repD)
  have ok: "bal_ok (vads s1) l" "bal_ok (vads s1) r"
    using d by (auto intro!: u(4) assms)
  have r1: "rep s1 C (Node l p (Node a x b))" using u(2) r by (simp add: moved_def)
  note ch = rep_child(2) [OF r1]
  have bx: "balance (vads s1 x) = int (height b) - int (height a)"
    using ok(2) r assms(3) bal_of_small [of a b] by simp
  show ?thesis
  proof (cases "height b < height a")
    case False
    then obtain s2 where s2: "mi_rotate_left p s1 = Some s2" "moved C (Node l p r) s1 (Node (Node l p a) x b) s2"
      "bal_ok (vads s2) (Node (Node l p a) x b)"
      using rotated_left [OF r1] ok r by auto
    have "rebalance_node p s = Some s2" using False by (simp add: rebalance_node_def u(1,3) b ch bx s2(1) Let_def)
    moreover have "parent (vads s2 p) = x" using s2(2) rep_child(1) by (auto simp: moved_def)
    moreover have h: "height b = height l + 1" "height a = height l \<or> height a = height l + 1"
      using assms(3,6) r False by auto
    moreover have "rebalanced C (Node l p r) s (Node (Node l p a) x b) s2"
      using moved_trans [OF u(2) s2(2)] s2(3) assms(2,3) h r by (auto simp: rebalanced_def)
    ultimately show ?thesis using that [of s2 "Node l p a" x b] assms(6) by auto
  next
    case True
    then obtain a1 z a2 where az: "a = Node a1 z a2" by (cases a) auto
    have rl: "rep s1 ((False, p, l) # C) (Node (Node a1 z a2) x b)" using r1 az rep_right by simp
    obtain s2 where s2: "mi_rotate_right x s1 = Some s2"
      "moved ((False, p, l) # C) (Node (Node a1 z a2) x b) s1 (Node a1 z (Node a2 x b)) s2"
      "bal_ok (vads s2) (Node a1 z (Node a2 x b))"
      using rotated_right [OF rl] ok r az by auto
    note m2 = moved_right [OF s2(2)]
    have r2: "rep s2 C (Node l p (Node a1 z (Node a2 x b)))" using m2 by (simp add: moved_def)
    have okl: "bal_ok (vads s2) l" by (rule moved_bal_ok [OF s2(2) ok(1)]) (use d r az in auto)
    obtain s3 where s3: "mi_rotate_left p s2 = Some s3"
      "moved C (Node l p (Node a1 z (Node a2 x b))) s2 (Node (Node l p a1) z (Node a2 x b)) s3"
      "bal_ok (vads s3) (Node (Node l p a1) z (Node a2 x b))"
      using rotated_left [OF r2] s2(3) okl by auto
    have "rebalance_node p s = Some s3"
      using True by (simp add: rebalance_node_def u(1,3) b ch bx s2(1) s3(1) Let_def)
    moreover have "parent (vads s3 p) = z" using s3(2) rep_child(1) by (auto simp: moved_def)
    moreover have "moved C (Node l p r) s (Node (Node l p a1) z (Node a2 x b)) s3"
      using moved_trans [OF u(2)] moved_trans [OF m2 s3(2)] r az by simp
    moreover have h: "height b = height l" "height a1 = height l \<or> height a2 = height l"
      "height a1 \<le> height l" "height a2 \<le> height l" "height l \<le> height a1 + 1" "height l \<le> height a2 + 1"
      using assms(3,6) r az True by auto
    ultimately show ?thesis
      using that [of s3 "Node l p a1" z "Node a2 x b"] s3(3) assms(2,3,6) r az
      by (auto simp: rebalanced_def)
  qed
qed

section \<open>The rebalancing loop\<close>

text \<open>The context was an AVL tree around a focus of height \<open>n\<close>.\<close>

fun ctx_avl :: "ctx \<Rightarrow> nat \<Rightarrow> bool" where
  "ctx_avl [] n \<longleftrightarrow> True"
| "ctx_avl ((d, a, u) # C) n \<longleftrightarrow> avl u \<and> n \<le> height u + 1 \<and> height u \<le> n + 1 \<and> ctx_avl C (1 + max n (height u))"

definition near :: "nat \<Rightarrow> nat \<Rightarrow> bool" where "near k n \<longleftrightarrow> k \<le> n + 1 \<and> n \<le> k + 1"

text \<open>From a node over two AVL trees whose heights differ by at most 2, the loop gets to its parent.\<close>

lemma rebalance_to_parent:
  assumes "rep s C (Node l p r)" and "avl l" and "avl r" and "bal_ok (vads s) l" and "bal_ok (vads s) r"
    and "height l \<le> height r + 2" and "height r \<le> height l + 2"
  obtains s' t where "mi_rebalance_tree p s = mi_rebalance_tree (ctx_addr C) s'" and "rebalanced C (Node l p r) s t s'"
    and "height t = 1 + max (height l) (height r) \<or>
         height t = max (height l) (height r) \<and> (height l = height r + 2 \<or> height r = height l + 2)"
proof (cases "height l \<le> height r + 1 \<and> height r \<le> height l + 1")
  case True
  then have "avl (Node l p r)" using assms(2,3) by simp
  then obtain s' where s': "rebalance_node p s = Some s'" "rebalanced C (Node l p r) s (Node l p r) s'"
    by (rule rebalance_flat [OF assms(1) _ assms(4,5)]) blast
  have "parent (vads s' p) = ctx_addr C" "p \<noteq> 0"
    using s'(2) rep_node(2,3) by (auto simp: rebalanced_def moved_def)
  then have "mi_rebalance_tree p s = mi_rebalance_tree (ctx_addr C) s'"
    using s'(1) by (subst mi_rebalance_tree.simps) simp
  then show ?thesis using s'(2) that by auto
next
  case False
  obtain s1 L q R where s1: "rebalance_node p s = Some s1" "rebalanced C (Node l p r) s (Node L q R) s1"
    "height (Node L q R) = 1 + max (height l) (height r) \<or> height (Node L q R) = max (height l) (height r)"
    "parent (vads s1 p) = q"
  proof (cases "height l = height r + 2")
    case True
    obtain s1 L q R where h: "rebalance_node p s = Some s1" "rebalanced C (Node l p r) s (Node L q R) s1"
      "height (Node L q R) = height l \<or> height (Node L q R) = height l + 1" "parent (vads s1 p) = q"
      by (rule rebalance_left_heavy [OF assms(1-5) True]) blast
    have "max (height l) (height r) = height l" using True by simp
    then show ?thesis using that [OF h(1,2) _ h(4)] h(3) by auto
  next
    case False
    then have r: "height r = height l + 2" using \<open>\<not> (_ \<and> _)\<close> assms(6,7) by auto
    obtain s1 L q R where h: "rebalance_node p s = Some s1" "rebalanced C (Node l p r) s (Node L q R) s1"
      "height (Node L q R) = height r \<or> height (Node L q R) = height r + 1" "parent (vads s1 p) = q"
      by (rule rebalance_right_heavy [OF assms(1-5) r]) blast
    have "max (height l) (height r) = height r" using r by simp
    then show ?thesis using that [OF h(1,2) _ h(4)] h(3) by auto
  qed
  have q: "rep s1 C (Node L q R)" "avl (Node L q R)" "bal_ok (vads s1) L" "bal_ok (vads s1) R"
    using s1(2) by (auto simp: rebalanced_def moved_def)
  obtain s' where s': "rebalance_node q s1 = Some s'" "rebalanced C (Node L q R) s1 (Node L q R) s'"
    by (rule rebalance_flat [OF q]) blast
  have pq: "parent (vads s' q) = ctx_addr C" "q \<noteq> 0" "p \<noteq> 0"
    using s'(2) rep_node(2,3) rep_node(2) [OF assms(1)] by (auto simp: rebalanced_def moved_def)
  have "mi_rebalance_tree p s = mi_rebalance_tree (ctx_addr C) s'"
    using s1(1,4) s'(1) pq by (subst mi_rebalance_tree.simps, simp, subst mi_rebalance_tree.simps, simp)
  moreover have "rebalanced C (Node l p r) s (Node L q R) s'"
    using s1(2) s'(2) moved_trans unfolding rebalanced_def by blast
  ultimately show ?thesis using that s1(3) False assms(6,7) by auto
qed

lemma rebalance_tree:
  assumes "rep s C t" and "avl t" and "bal_ok (vads s) t" and "ctx_bal_ok (vads s) C" and "ctx_avl C n"
    and "near (height t) n"
  shows "\<exists>s' T. mi_rebalance_tree (ctx_addr C) s = Some s' \<and> rep s' [] T \<and> avl T \<and> bal_ok (vads s') T \<and>
           inorder T = inorder (plug C t) \<and> same_data (tree_nodes C t) s s'"
  using assms
proof (induction C arbitrary: s t n)
  case Nil
  then show ?case by (auto simp: mi_rebalance_tree.simps same_data_refl)
next
  case (Cons c C)
  obtain d a u where c: "c = (d, a, u)" by (cases c) auto
  define l r where "l = (if d then t else u)" and "r = (if d then u else t)"
  have rep: "rep s C (Node l a r)" using Cons.prems(1) c by (auto simp: rep_def l_def r_def)
  have h: "avl l" "avl r" "bal_ok (vads s) l" "bal_ok (vads s) r" "height l \<le> height r + 2" "height r \<le> height l + 2"
    using Cons.prems(2-6) c by (auto simp: l_def r_def near_def)
  obtain s1 t1 where s1: "mi_rebalance_tree a s = mi_rebalance_tree (ctx_addr C) s1" "rebalanced C (Node l a r) s t1 s1"
    "height t1 = 1 + max (height l) (height r) \<or>
         height t1 = max (height l) (height r) \<and> (height l = height r + 2 \<or> height r = height l + 2)"
    by (rule rebalance_to_parent [OF rep h]) blast
  have m: "moved C (Node l a r) s t1 s1" using s1(2) by (simp add: rebalanced_def)
  have "rep s1 C t1" "avl t1" "bal_ok (vads s1) t1" using s1(2) by (auto simp: rebalanced_def moved_def)
  moreover have "ctx_bal_ok (vads s1) C"
  proof (rule ctx_bal_ok_frame)
    show "ctx_bal_ok (vads s) C" using Cons.prems(4) c by simp
    fix z assume "z \<in> set (before C) \<union> set (after C)"
    then have "z \<notin> set (inorder (Node l a r))" using rep by (metis repD)
    then show "balance (vads s1 z) = balance (vads s z)" using m by (simp add: moved_def)
  qed
  moreover have "ctx_avl C (1 + max n (height u))" using Cons.prems(5) c by simp
  moreover have "near (height t1) (1 + max n (height u))"
    using s1(3) Cons.prems(5,6) c by (cases d) (auto simp: near_def l_def r_def)
  ultimately obtain s' T where T: "mi_rebalance_tree (ctx_addr C) s1 = Some s'" "rep s' [] T" "avl T" "bal_ok (vads s') T"
    "inorder T = inorder (plug C t1)" "same_data (tree_nodes C t1) s1 s'"
    using Cons.IH by blast
  have "tree_nodes C t1 = tree_nodes C (Node l a r)" using m tree_nodes_inorder by (simp add: moved_def)
  also have "\<dots> = tree_nodes (c # C) t" by (auto simp: tree_nodes_def c l_def r_def)
  finally have "same_data (tree_nodes (c # C) t) s s'"
    using m T(6) tree_nodes_def unfolding moved_def
    by (metis same_data_trans \<open>tree_nodes C t1 = tree_nodes C (Node l a r)\<close>)
  moreover have "inorder T = inorder (plug (c # C) t)"
    using T(5) m c by (auto simp: inorder_plug moved_def l_def r_def)
  ultimately show ?case using T(1-4) s1(1) c by auto
qed

end
