(* ===== verification/VadMap.thy ===== *)
theory VadMap
  imports VadSpec
begin

text \<open>
  The VAD table as a finite set of disjoint page ranges: lookup, insertion and removal.
\<close>

section \<open>The invariant of the table\<close>

definition overlaps :: "vad_store \<Rightarrow> u64 \<Rightarrow> u64 \<Rightarrow> nat \<Rightarrow> bool" where
  "overlaps h lo hi a \<longleftrightarrow> starting_vpn (h a) \<le> hi \<and> lo \<le> ending_vpn (h a)"

definition ranges_ok :: "vad_store \<Rightarrow> nat list \<Rightarrow> bool" where
  "ranges_ok h xs \<longleftrightarrow> (\<forall>a \<in> set xs. starting_vpn (h a) \<le> ending_vpn (h a)) \<and>
     sorted_wrt (\<lambda>a b. ending_vpn (h a) < starting_vpn (h b)) xs"

definition vad_shape :: "MM_AVL_TABLE \<Rightarrow> nat tree \<Rightarrow> bool" where
  "vad_shape s T \<longleftrightarrow> rep s [] T \<and> avl T \<and> bal_ok (vads s) T \<and> node_count s = of_nat (size T)"

definition vad_inv :: "MM_AVL_TABLE \<Rightarrow> nat tree \<Rightarrow> bool" where
  "vad_inv s T \<longleftrightarrow> vad_shape s T \<and> ranges_ok (vads s) (inorder T)"

lemma rep_plug: "rep s C t \<longleftrightarrow> rep s [] (plug C t)"
  by (simp add: rep_def)

lemma avl_plug: "avl (plug C t) \<longleftrightarrow> avl t \<and> ctx_avl C (height t)"
  by (induction C t rule: plug.induct) (auto simp: max.commute)

lemma bal_ok_plug: "bal_ok h (plug C t) \<Longrightarrow> bal_ok h t \<and> ctx_bal_ok h C"
  by (induction C t rule: plug.induct) (auto split: if_splits)

lemma plug_append: "plug (C @ D) t = plug D (plug C t)"
  by (induction C t rule: plug.induct) auto

lemma before_append: "before (C @ D) = before D @ before C"
  and after_append: "after (C @ D) = after C @ after D"
  by (induction C) auto

lemma ranges_ok_data:
  assumes "ranges_ok h xs" and "\<And>a. data (h' a) = data (h a)"
  shows "ranges_ok h' xs"
proof -
  have "starting_vpn (h' a) = starting_vpn (h a)" "ending_vpn (h' a) = ending_vpn (h a)" for a
    using assms(2) [of a] by (simp_all add: data_def)
  then show ?thesis using assms(1) by (simp add: ranges_ok_def)
qed

lemma ranges_ok_append:
  "ranges_ok h (xs @ ys) \<longleftrightarrow> ranges_ok h xs \<and> ranges_ok h ys \<and>
     (\<forall>a \<in> set xs. \<forall>b \<in> set ys. ending_vpn (h a) < starting_vpn (h b))"
  by (auto simp: ranges_ok_def sorted_wrt_append)

lemma ranges_ok_Cons:
  "ranges_ok h (x # ys) \<longleftrightarrow> starting_vpn (h x) \<le> ending_vpn (h x) \<and> ranges_ok h ys \<and>
     (\<forall>b \<in> set ys. ending_vpn (h x) < starting_vpn (h b))"
  by (auto simp: ranges_ok_def)

lemmas ranges_simps = ranges_ok_append ranges_ok_Cons

lemma same_data_count:
  "same_data A s s' \<Longrightarrow> node_count s' = node_count s" "same_data A s s' \<Longrightarrow> data (vads s' a) = data (vads s a)"
  by (simp_all add: same_data_def)

section \<open>Lookup\<close>

lemma find_from_tree:
  assumes "vtree h par p t" and "ranges_ok h (inorder t)"
  shows "(\<exists>a \<in> set_tree t. find_from h v p = Some a \<and> starting_vpn (h a) \<le> v \<and> v \<le> ending_vpn (h a)) \<or>
         find_from h v p = Some 0 \<and> (\<forall>a \<in> set_tree t. \<not> (starting_vpn (h a) \<le> v \<and> v \<le> ending_vpn (h a)))"
  using assms
proof (induction t arbitrary: par p)
  case Leaf
  then show ?case by (simp add: find_from.simps)
next
  case (Node l a r)
  have e: "find_from h v p = (if v < starting_vpn (h a) then find_from h v (left_child (h a))
      else if ending_vpn (h a) < v then find_from h v (right_child (h a)) else Some a)"
    using Node.prems(1) by (subst find_from.simps) simp
  have o: "ranges_ok h (inorder l)" "ranges_ok h (inorder r)" "starting_vpn (h a) \<le> ending_vpn (h a)"
    "\<And>b. b \<in> set_tree l \<Longrightarrow> ending_vpn (h b) < starting_vpn (h a)" "\<And>b. b \<in> set_tree r \<Longrightarrow> ending_vpn (h a) < starting_vpn (h b)"
    using Node.prems(2) by (auto simp: ranges_simps)
  have vt: "vtree h a (left_child (h a)) l" "vtree h a (right_child (h a)) r" using Node.prems(1) by simp_all
  consider (below) "v < starting_vpn (h a)" | (above) "ending_vpn (h a) < v" "\<not> v < starting_vpn (h a)"
    | (at) "starting_vpn (h a) \<le> v" "v \<le> ending_vpn (h a)" by fastforce
  then show ?case
  proof cases
    case below
    have "\<not> starting_vpn (h b) \<le> v" if "b \<in> set_tree r" for b using o(3) o(5) [OF that] below by auto
    then show ?thesis using Node.IH(1) [OF vt(1) o(1)] below e by auto
  next
    case above
    have "\<not> v \<le> ending_vpn (h b)" if "b \<in> set_tree l" for b using o(3) o(4) [OF that] above by auto
    then show ?thesis using Node.IH(2) [OF vt(2) o(2)] above e by auto
  qed (use e in auto)
qed

section \<open>Insertion\<close>

lemma insert_place_tree:
  assumes "vtree h par p t" and "ranges_ok h (inorder t)" and "lo \<le> hi"
  shows "insert_place h lo hi par p d = Some (Inl ()) \<and> (\<exists>a \<in> set_tree t. overlaps h lo hi a) \<or>
    (\<exists>D. plug D Leaf = t \<and>
       insert_place h lo hi par p d = Some (Inr (if D = [] then (par, d) else (ctx_addr D, fst (hd D)))) \<and>
       (\<forall>a \<in> set (before D). ending_vpn (h a) < lo) \<and> (\<forall>a \<in> set (after D). hi < starting_vpn (h a)))"
  using assms(1,2)
proof (induction t arbitrary: par p d)
  case Leaf
  then show ?case by (auto simp: insert_place.simps intro: exI [of _ "[]"])
next
  case (Node l a r)
  have e: "insert_place h lo hi par p d =
      (if hi < starting_vpn (h a) then insert_place h lo hi a (left_child (h a)) True
       else if ending_vpn (h a) < lo then insert_place h lo hi a (right_child (h a)) False else Some (Inl ()))"
    using Node.prems(1) by (subst insert_place.simps) simp
  have o: "ranges_ok h (inorder l)" "ranges_ok h (inorder r)" "starting_vpn (h a) \<le> ending_vpn (h a)"
    "\<And>b. b \<in> set_tree l \<Longrightarrow> ending_vpn (h b) < starting_vpn (h a)" "\<And>b. b \<in> set_tree r \<Longrightarrow> ending_vpn (h a) < starting_vpn (h b)"
    using Node.prems(2) by (auto simp: ranges_simps)
  have vt: "vtree h a (left_child (h a)) l" "vtree h a (right_child (h a)) r" using Node.prems(1) by simp_all
  have hd: "(if D @ [(x, a, u)] = [] then z else (ctx_addr (D @ [(x, a, u)]), fst (hd (D @ [(x, a, u)])))) =
    (if D = [] then (a, x) else (ctx_addr D, fst (hd D)))" for D x u z
    by (cases D) (auto split: prod.splits)
  consider (below) "hi < starting_vpn (h a)" | (above) "ending_vpn (h a) < lo" "\<not> hi < starting_vpn (h a)"
    | (at) "starting_vpn (h a) \<le> hi" "lo \<le> ending_vpn (h a)" by fastforce
  then show ?case
  proof cases
    case below
    have r: "hi < starting_vpn (h b)" if "b \<in> set_tree r" for b using o(3) o(5) [OF that] below by auto
    from Node.IH(1) [OF vt(1) o(1), of True] show ?thesis
    proof
      assume "\<exists>D. plug D Leaf = l \<and>
        insert_place h lo hi a (left_child (h a)) True = Some (Inr (if D = [] then (a, True) else (ctx_addr D, fst (hd D)))) \<and>
        (\<forall>a \<in> set (before D). ending_vpn (h a) < lo) \<and> (\<forall>a \<in> set (after D). hi < starting_vpn (h a))"
      then obtain D where "plug D Leaf = l"
        "insert_place h lo hi a (left_child (h a)) True = Some (Inr (if D = [] then (a, True) else (ctx_addr D, fst (hd D))))"
        "\<forall>a \<in> set (before D). ending_vpn (h a) < lo" "\<forall>a \<in> set (after D). hi < starting_vpn (h a)"
        by blast
      then show ?thesis using below r e
        by (intro disjI2 exI [of _ "D @ [(True, a, r)]"]) (simp only: hd, auto simp: plug_append before_append after_append)
    qed (use below e in auto)
  next
    case above
    have l: "ending_vpn (h b) < lo" if "b \<in> set_tree l" for b using o(3) o(4) [OF that] above by auto
    from Node.IH(2) [OF vt(2) o(2), of False] show ?thesis
    proof
      assume "\<exists>D. plug D Leaf = r \<and>
        insert_place h lo hi a (right_child (h a)) False = Some (Inr (if D = [] then (a, False) else (ctx_addr D, fst (hd D)))) \<and>
        (\<forall>a \<in> set (before D). ending_vpn (h a) < lo) \<and> (\<forall>a \<in> set (after D). hi < starting_vpn (h a))"
      then obtain D where "plug D Leaf = r"
        "insert_place h lo hi a (right_child (h a)) False = Some (Inr (if D = [] then (a, False) else (ctx_addr D, fst (hd D))))"
        "\<forall>a \<in> set (before D). ending_vpn (h a) < lo" "\<forall>a \<in> set (after D). hi < starting_vpn (h a)"
        by blast
      then show ?thesis using above l e
        by (intro disjI2 exI [of _ "D @ [(False, a, l)]"]) (simp only: hd, auto simp: plug_append before_append after_append)
    qed (use above e in auto)
  next
    case at
    have "insert_place h lo hi par p d = Some (Inl ())" using at e by auto
    then show ?thesis using at by (intro disjI1) (auto simp: overlaps_def)
  qed
qed

lemma rep_frame:
  assumes "rep s C t" and "root s' = root s"
    and "\<And>a. a \<in> tree_nodes C t \<Longrightarrow> links (vads s' a) = links (vads s a)"
  shows "rep s' C t"
  using assms vtree_frame [of "vads s" 0 "root s" "plug C t" "vads s'"]
  by (auto simp: rep_def tree_nodes_def inorder_plug simp del: set_inorder)

lemma hang_child:
  assumes "ctxrep (vads s) (root s) C p" and "distinct (before C @ after C)" and "C \<noteq> []"
    and "s' = (if fst (hd C) then set_left (ctx_addr C) q s else set_right (ctx_addr C) q s)"
  shows "ctxrep (vads s') (root s') C q" and "\<And>a. a \<noteq> ctx_addr C \<Longrightarrow> vads s' a = vads s a"
proof -
  obtain d a u D where C: "C = (d, a, u) # D" using assms(3) by (metis list.exhaust prod_cases3)
  have a: "a \<noteq> 0" "ctxrep (vads s) (root s) D a" "a \<notin> set (before D) \<union> set (after D)" "a \<notin> set (inorder u)"
    "(set (before D) \<union> set (after D)) \<inter> set (inorder u) = {}"
    using assms(1,2) C by (auto split: if_splits)
  have other: "vads s' x = vads s x" if "x \<noteq> a" for x
    using that assms(4) C by (simp add: vads_upd)
  have rt: "root s' = root s" using assms(4) by (simp add: root_upd)
  have D: "ctxrep (vads s') (root s) D a"
    using a other by (intro ctxrep_frame [OF a(2)]) metis
  have u: "vtree (vads s') a q' u" if "vtree (vads s) a q' u" for q'
    using a other by (intro vtree_frame [OF that]) metis
  show "ctxrep (vads s') (root s') C q"
    using assms(1,4) C a D u by (cases d) (auto simp: root_upd vads_upd)
  show "\<And>x. x \<noteq> ctx_addr C \<Longrightarrow> vads s' x = vads s x" using other C by simp
qed

text \<open>Linking a fresh node, with no children, into an empty position.\<close>

lemma hang_leaf:
  assumes "rep s C Leaf" and "C \<noteq> []" and "v \<notin> tree_nodes C Leaf" and "v \<noteq> 0"
    and "left_child (vads s v) = 0" and "right_child (vads s v) = 0" and "parent (vads s v) = ctx_addr C"
    and "s' = (if fst (hd C) then set_left (ctx_addr C) v s else set_right (ctx_addr C) v s)"
  shows "rep s' C (Node Leaf v Leaf)"
proof -
  obtain p where p: "ctxrep (vads s) (root s) C p" "distinct (before C @ after C)"
    by (rule repD [OF assms(1)]) blast
  note h = hang_child [OF p assms(2,8)]
  have "ctx_addr C \<noteq> v" using ctx_addr_in [OF assms(2)] assms(3) by (auto simp: tree_nodes_def)
  then have "vads s' v = vads s v" using h(2) by metis
  then have "vtree (vads s') (ctx_addr C) v (Node Leaf v Leaf)" using assms(4-7) by simp
  then show ?thesis using h(1) p(2) assms(3) by (intro repI [of _ _ v]) (auto simp: tree_nodes_def)
qed

lemma size_plug: "size (plug C t) = size (plug C Leaf) + size t"
proof (induction C arbitrary: t)
  case (Cons c C)
  obtain d a u where c: "c = (d, a, u)" by (cases c)
  show ?case
    using Cons [of "if d then Node t a u else Node u a t"] Cons [of "if d then Node Leaf a u else Node u a Leaf"]
    by (simp add: c)
qed simp

lemma size_inorder: "inorder T = inorder T' \<Longrightarrow> size T = size T'"
  by (metis length_inorder)

lemma rebalanced_shape:
  assumes "rep s C t" and "avl t" and "bal_ok (vads s) t" and "ctx_bal_ok (vads s) C" and "ctx_avl C n"
    and "near (height t) n" and "node_count s = of_nat (size (plug C t))"
  obtains s' T where "mi_rebalance_tree (ctx_addr C) s = Some s'" and "vad_shape s' T"
    and "inorder T = inorder (plug C t)" and "same_data (tree_nodes C t) s s'"
proof -
  obtain s' T where T: "mi_rebalance_tree (ctx_addr C) s = Some s'" "rep s' [] T" "avl T" "bal_ok (vads s') T"
    "inorder T = inorder (plug C t)" "same_data (tree_nodes C t) s s'"
    using rebalance_tree [OF assms(1-6)] by blast
  have "node_count s' = of_nat (size T)"
    using assms(7) same_data_count(1) [OF T(6)] size_inorder [OF T(5)] by simp
  then show ?thesis using that T by (simp add: vad_shape_def)
qed

lemma rebalance_up:
  "p \<noteq> 0 \<Longrightarrow> rebalance_node p s = Some s1 \<Longrightarrow> mi_rebalance_tree p s = mi_rebalance_tree (parent (vads s1 p)) s1"
  by (subst mi_rebalance_tree.simps) simp

lemma near_refl: "near n n" "near (Suc n) n" "near n (Suc n)"
  by (simp_all add: near_def)

text \<open>Resetting the links of a node outside the tree.\<close>

lemma vad_inv_outside:
  assumes "vad_inv s T" and "v \<notin> set_tree T" and "data (f (vads s v)) = data (vads s v)"
  shows "vad_inv (upd v f s) T"
proof -
  have i: "rep s [] T" "avl T" "bal_ok (vads s) T" "ranges_ok (vads s) (inorder T)" "node_count s = of_nat (size T)"
    using assms(1) by (simp_all add: vad_inv_def vad_shape_def)
  have o: "vads (upd v f s) a = vads s a" if "a \<in> set_tree T" for a
    using that assms(2) by (auto simp: vads_upd)
  have "rep (upd v f s) [] T"
    by (rule rep_frame [OF i(1) root_upd]) (simp add: o tree_nodes_def)
  moreover have "bal_ok (vads (upd v f s)) T"
    by (rule bal_ok_frame [OF i(3)]) (simp add: o)
  moreover have "ranges_ok (vads (upd v f s)) (inorder T)"
    by (rule ranges_ok_data [OF i(4)]) (simp add: vads_upd assms(3))
  ultimately show ?thesis using i by (simp add: vad_inv_def vad_shape_def upd_def)
qed

lemma vad_inv_empty: "vad_inv s T \<Longrightarrow> is_empty s \<longleftrightarrow> T = Leaf"
  using vtree_root_iff [of "vads s" 0 "root s" T] by (simp add: vad_inv_def vad_shape_def is_empty_def rep_def)

lemma insert_new:
  assumes inv: "vad_inv s T" and v: "v \<noteq> 0" "v \<notin> set_tree T" "starting_vpn (vads s v) \<le> ending_vpn (vads s v)"
    and z: "left_child (vads s v) = 0" "right_child (vads s v) = 0" "balance (vads s v) = 0"
    and D: "plug D Leaf = T" "D \<noteq> []" "\<forall>a \<in> set (before D). ending_vpn (vads s a) < starting_vpn (vads s v)"
      "\<forall>a \<in> set (after D). ending_vpn (vads s v) < starting_vpn (vads s a)"
    and s2: "s2 = set_parent v (ctx_addr D) s"
    and s3: "s3 = (if fst (hd D) then set_left (ctx_addr D) v s2 else set_right (ctx_addr D) v s2)"
    and s4: "s4 = s3\<lparr>node_count := node_count s3 + 1\<rparr>"
  obtains s' T' where "mi_rebalance_tree v s4 = Some s'" and "vad_inv s' T'"
    and "inorder T' = before D @ v # after D" and "same_data (tree_nodes D (Node Leaf v Leaf)) s4 s'"
proof -
  have nd: "v \<notin> tree_nodes D Leaf" using v(2) D(1) inorder_plug [of D Leaf]
    by (metis Un_iff append_Nil inorder.simps(1) set_append set_inorder tree_nodes_def)
  have r: "rep s D Leaf" using inv D(1) rep_plug by (auto simp: vad_inv_def vad_shape_def)
  have r2: "rep s2 D Leaf"
    by (rule rep_frame [OF r]) (use nd s2 in \<open>auto simp: root_upd vads_upd\<close>)
  have "rep s3 D (Node Leaf v Leaf)"
    by (rule hang_leaf [OF r2 D(2) nd v(1) _ _ _ s3]) (use z s2 in \<open>simp_all add: vads_upd\<close>)
  then have r4: "rep s4 D (Node Leaf v Leaf)" by (simp add: s4 rep_def)
  have b4: "balance (vads s4 a) = balance (vads s a)" "data (vads s4 a) = data (vads s a)" for a
    by (auto simp: s4 s3 s2 vads_upd data_def)
  have n4: "node_count s4 = node_count s + 1" by (simp add: s4 s3 s2 upd_def)
  obtain s' t where t: "mi_rebalance_tree v s4 = mi_rebalance_tree (ctx_addr D) s'" "rebalanced D (Node Leaf v Leaf) s4 t s'"
    "height t = 1"
    by (rule rebalance_to_parent [OF r4]) auto
  have m: "moved D (Node Leaf v Leaf) s4 t s'" "rep s' D t" "avl t" "bal_ok (vads s') t" "inorder t = [v]"
    "same_data (tree_nodes D (Node Leaf v Leaf)) s4 s'" "\<And>a. a \<noteq> v \<Longrightarrow> balance (vads s' a) = balance (vads s4 a)"
    using t(2) by (auto simp: rebalanced_def moved_def)
  have c: "avl (plug D Leaf)" "bal_ok (vads s) (plug D Leaf)" using inv D(1) by (simp_all add: vad_inv_def vad_shape_def)
  have "ctx_bal_ok (vads s') D"
  proof (rule ctx_bal_ok_frame [of "vads s"])
    show "ctx_bal_ok (vads s) D" using bal_ok_plug [OF c(2)] by simp
    fix a assume "a \<in> set (before D) \<union> set (after D)"
    then have "a \<noteq> v" using nd by (auto simp: tree_nodes_def)
    then show "balance (vads s' a) = balance (vads s a)" using m(7) b4(1) by metis
  qed
  moreover have "ctx_avl D 0" using c(1) by (simp add: avl_plug)
  moreover have "near (height t) 0" by (simp add: t(3) near_def)
  moreover have e: "inorder (plug D t) = before D @ v # after D" by (simp add: inorder_plug m(5))
  moreover have sz: "size (plug D t) = size T + 1"
    using size_plug [of D t] D(1) m(5) length_inorder [of t] by simp
  moreover have n: "node_count s' = of_nat (size (plug D t))"
    using same_data_count(1) [OF m(6)] n4 inv sz by (simp add: vad_inv_def vad_shape_def)
  ultimately obtain s'' T' where T': "mi_rebalance_tree (ctx_addr D) s' = Some s''" "vad_shape s'' T'"
    "inorder T' = inorder (plug D t)" "same_data (tree_nodes D t) s' s''"
    using rebalanced_shape [OF m(2-4)] by metis
  have "ranges_ok (vads s'') (inorder (plug D t))"
  proof (rule ranges_ok_data)
    have "ranges_ok (vads s) (before D @ after D)" using inv D(1) inorder_plug [of D Leaf] by (simp add: vad_inv_def vad_shape_def)
    then show "ranges_ok (vads s) (inorder (plug D t))"
      using D(3,4) v(3) by (auto simp: e ranges_simps)
    show "\<And>a. data (vads s'' a) = data (vads s a)"
      using same_data_count(2) [OF T'(4)] same_data_count(2) [OF m(6)] b4(2) by simp
  qed
  then have "vad_inv s'' T'" using T'(2,3) by (simp add: vad_inv_def)
  moreover
  have "tree_nodes D t = tree_nodes D (Node Leaf v Leaf)" by (rule tree_nodes_inorder) (simp add: m(5))
  then have "same_data (tree_nodes D (Node Leaf v Leaf)) s4 s''" using m(6) T'(4) same_data_trans by metis
  ultimately show ?thesis using that T' t(1) e by simp
qed

text \<open>The result of an insertion: a conflict, or the table with one range more.\<close>

lemma insert_vad_conflict:
  assumes "vad_inv s T" and "v \<noteq> 0" and "v \<notin> set_tree T" and "starting_vpn (vads s v) \<le> ending_vpn (vads s v)"
    and "\<exists>a \<in> set_tree T. overlaps (vads s) (starting_vpn (vads s v)) (ending_vpn (vads s v)) a"
  shows "mi_insert_vad v s = Some (STATUS_CONFLICTING_ADDRESSES, upd v reset_node s)"
    and "vad_inv (upd v reset_node s) T"
proof -
  let ?s = "upd v reset_node s" and ?lo = "starting_vpn (vads s v)" and ?hi = "ending_vpn (vads s v)"
  have d: "data (vads ?s a) = data (vads s a)" for a by (simp add: vads_upd reset_node_def data_def)
  show inv: "vad_inv ?s T" using vad_inv_outside [OF assms(1,3)] d [of v] by (simp add: vads_upd)
  have e: "\<not> is_empty ?s" using vad_inv_empty [OF inv] assms(5) by auto
  have vt: "vtree (vads ?s) 0 (root ?s) T" "ranges_ok (vads ?s) (inorder T)" using inv by (simp_all add: vad_inv_def vad_shape_def rep_def)
  have no: "\<not> (\<exists>D. plug D Leaf = T \<and> x D \<and> (\<forall>a \<in> set (before D). ending_vpn (vads ?s a) < ?lo) \<and>
      (\<forall>a \<in> set (after D). ?hi < starting_vpn (vads ?s a)))" for x
  proof
    assume "\<exists>D. plug D Leaf = T \<and> x D \<and> (\<forall>a \<in> set (before D). ending_vpn (vads ?s a) < ?lo) \<and>
      (\<forall>a \<in> set (after D). ?hi < starting_vpn (vads ?s a))"
    then obtain D where D: "plug D Leaf = T" "\<forall>a \<in> set (before D). ending_vpn (vads ?s a) < ?lo"
      "\<forall>a \<in> set (after D). ?hi < starting_vpn (vads ?s a)" by blast
    have "set_tree T = set (before D) \<union> set (after D)" using inorder_plug [of D Leaf] D(1) set_inorder [of T] by simp
    then show False using assms(5) D(2,3) d by (auto simp: overlaps_def data_def)
  qed
  have "insert_place (vads ?s) ?lo ?hi 0 (root ?s) False = Some (Inl ())"
    using insert_place_tree [OF vt assms(4), of False] no by blast
  then show "mi_insert_vad v s = Some (STATUS_CONFLICTING_ADDRESSES, ?s)"
    using assms(2) e by (simp add: mi_insert_vad_def Let_def)
qed

lemma insert_vad_first:
  assumes "vad_inv s Leaf" and "v \<noteq> 0" and "starting_vpn (vads s v) \<le> ending_vpn (vads s v)"
  obtains s' where "mi_insert_vad v s = Some (STATUS_SUCCESS, s')" and "vad_inv s' (Node Leaf v Leaf)"
    and "\<And>a. data (vads s' a) = data (vads s a)" and "\<And>a. a \<noteq> v \<Longrightarrow> vads s' a = vads s a"
proof -
  let ?s1 = "upd v reset_node s"
  let ?s' = "(set_parent v 0 (?s1\<lparr>root := v\<rparr>))\<lparr>node_count := 1\<rparr>"
  have "is_empty ?s1" using vad_inv_empty [OF assms(1)] by (simp add: is_empty_def root_upd)
  then have "mi_insert_vad v s = Some (STATUS_SUCCESS, ?s')"
    using assms(2) by (simp add: mi_insert_vad_def Let_def)
  moreover have "vad_inv ?s' (Node Leaf v Leaf)"
    using assms by (simp add: vad_inv_def vad_shape_def rep_def upd_def reset_node_def ranges_ok_def bal_of_def)
  ultimately show ?thesis by (rule that) (simp_all add: upd_def reset_node_def data_def)
qed

lemma insert_vad_new:
  assumes "vad_inv s T" and "v \<noteq> 0" and "v \<notin> set_tree T" and "starting_vpn (vads s v) \<le> ending_vpn (vads s v)"
    and "T \<noteq> Leaf" and "\<forall>a \<in> set_tree T. \<not> overlaps (vads s) (starting_vpn (vads s v)) (ending_vpn (vads s v)) a"
  obtains s' T' where "mi_insert_vad v s = Some (STATUS_SUCCESS, s')" and "vad_inv s' T'"
    and "set_tree T' = insert v (set_tree T)" and "\<And>a. data (vads s' a) = data (vads s a)"
    and "\<And>a. a \<notin> insert v (set_tree T) \<Longrightarrow> vads s' a = vads s a"
proof -
  let ?s = "upd v reset_node s" and ?lo = "starting_vpn (vads s v)" and ?hi = "ending_vpn (vads s v)"
  have d: "data (vads ?s a) = data (vads s a)" "\<And>x. overlaps (vads ?s) lo hi x = overlaps (vads s) lo hi x" for a lo hi
    by (simp_all add: vads_upd reset_node_def data_def overlaps_def)
  have r: "starting_vpn (vads ?s v) = ?lo" "ending_vpn (vads ?s v) = ?hi" by (simp_all add: vads_upd reset_node_def)
  have inv: "vad_inv ?s T" using vad_inv_outside [OF assms(1,3)] d(1) [of v] by (simp add: vads_upd)
  have e: "\<not> is_empty ?s" using vad_inv_empty [OF inv] assms(5) by simp
  have vt: "vtree (vads ?s) 0 (root ?s) T" "ranges_ok (vads ?s) (inorder T)" using inv by (simp_all add: vad_inv_def vad_shape_def rep_def)
  obtain D where D: "plug D Leaf = T"
    "insert_place (vads ?s) ?lo ?hi 0 (root ?s) False = Some (Inr (if D = [] then (0, False) else (ctx_addr D, fst (hd D))))"
    "\<forall>a \<in> set (before D). ending_vpn (vads ?s a) < ?lo" "\<forall>a \<in> set (after D). ?hi < starting_vpn (vads ?s a)"
    using insert_place_tree [OF vt assms(4), of False] assms(6) d(2) by metis
  have ne: "D \<noteq> []" using D(1) assms(5) by auto
  define s2 where "s2 = set_parent v (ctx_addr D) ?s"
  define s3 where "s3 = (if fst (hd D) then set_left (ctx_addr D) v s2 else set_right (ctx_addr D) v s2)"
  define s4 where "s4 = s3\<lparr>node_count := node_count s3 + 1\<rparr>"
  have z: "left_child (vads ?s v) = 0" "right_child (vads ?s v) = 0" "balance (vads ?s v) = 0"
    by (simp_all add: vads_upd reset_node_def)
  have le: "starting_vpn (vads ?s v) \<le> ending_vpn (vads ?s v)" using assms(4) r by simp
  obtain s' T' where T': "mi_rebalance_tree v s4 = Some s'" "vad_inv s' T'"
    "inorder T' = before D @ v # after D" "same_data (tree_nodes D (Node Leaf v Leaf)) s4 s'"
    by (rule insert_new [OF inv assms(2,3) le z D(1) ne _ _ s2_def s3_def s4_def])
       (use D(3,4) r in auto)
  have "mi_insert_vad v s = Some (STATUS_SUCCESS, s')"
    using assms(2) e D(2) ne T'(1) [unfolded s4_def s3_def s2_def]
    by (cases "fst (hd D)") (simp_all add: mi_insert_vad_def Let_def)
  moreover have nodes: "set_tree T = set (before D) \<union> set (after D)"
    using inorder_plug [of D Leaf] D(1) set_inorder [of T] by simp
  moreover have "set_tree T' = insert v (set_tree T)"
    using T'(3) nodes set_inorder [of T'] by auto
  moreover have "data (vads s' a) = data (vads s a)" for a
    using same_data_count(2) [OF T'(4)] d(1) [of a] by (auto simp: s4_def s3_def s2_def vads_upd data_def)
  moreover have "vads s' a = vads s a" if "a \<notin> insert v (set_tree T)" for a
  proof -
    have "a \<notin> tree_nodes D (Node Leaf v Leaf)" using that nodes by (auto simp: tree_nodes_def)
    then have "vads s' a = vads s4 a" using T'(4) by (simp add: same_data_def)
    moreover have "ctx_addr D \<in> set_tree T" using ctx_addr_in [OF ne] nodes by simp
    ultimately show ?thesis using that by (auto simp: s4_def s3_def s2_def vads_upd)
  qed
  ultimately show ?thesis using that T'(2) by metis
qed

section \<open>Removal\<close>

lemma plug_at: "a \<in> set_tree t \<Longrightarrow> \<exists>C l r. t = plug C (Node l a r)"
proof (induction t)
  case (Node l x r)
  then consider "x = a" | "a \<in> set_tree l" | "a \<in> set_tree r" by auto
  then show ?case
  proof cases
    case 1
    then show ?thesis by (metis plug.simps(1))
  next
    case 2
    then obtain C l' r' where "l = plug C (Node l' a r')" using Node.IH by blast
    then have "Node l x r = plug (C @ [(True, x, r)]) (Node l' a r')" by (simp add: plug_append)
    then show ?thesis by blast
  next
    case 3
    then obtain C l' r' where "r = plug C (Node l' a r')" using Node.IH by blast
    then have "Node l x r = plug (C @ [(False, x, l)]) (Node l' a r')" by (simp add: plug_append)
    then show ?thesis by blast
  qed
qed simp

lemma root_replace: "ctx_addr C \<noteq> 0 \<Longrightarrow> root (replace_child (ctx_addr C) p q s) = root s"
  by (simp add: replace_child_def root_upd)

lemma replace_child_data:
  "data (vads (replace_child par p q s) a) = data (vads s a)"
  "balance (vads (replace_child par p q s) a) = balance (vads s a)"
  "node_count (replace_child par p q s) = node_count s"
  by (simp_all add: replace_child_def upd_def data_def)

text \<open>Unlinking a node with one child at most.\<close>

lemma splice_out_rep:
  assumes "rep s C (Node l v r)" and "t = l \<and> r = Leaf \<or> t = r \<and> l = Leaf" and "vtree (vads s) v q t"
    and "splice_out v q s = (start, s')"
  shows "rep s' C t" and "start = ctx_addr C" and "\<And>a. data (vads s' a) = data (vads s a)"
    and "\<And>a. balance (vads s' a) = balance (vads s a)" and "node_count s' = node_count s"
    and "\<And>a. a \<notin> tree_nodes C t \<Longrightarrow> vads s' a = vads s a"
proof -
  obtain p where p: "ctxrep (vads s) (root s) C p" "vtree (vads s) (ctx_addr C) p (Node l v r)" "distinct (inorder (Node l v r))"
    "distinct (before C @ after C)" "\<And>z. z \<in> set (inorder (Node l v r)) \<Longrightarrow> z \<notin> set (before C) \<union> set (after C)"
    "\<And>z. z \<in> set (inorder (Node l v r)) \<Longrightarrow> z \<noteq> ctx_addr C"
    by (rule repD [OF assms(1)]) blast
  have v: "p = v" "v \<noteq> 0" "parent (vads s v) = ctx_addr C" using p(2) by auto
  have sub: "set (inorder t) \<subseteq> set (inorder (Node l v r))" "v \<notin> set (inorder t)" "distinct (inorder t)"
    "inorder t = inorder l @ inorder r" using assms(2) p(3) by auto
  define s1 where "s1 = replace_child (ctx_addr C) v q s"
  have st: "start = ctx_addr C" "s' = (if q \<noteq> 0 then set_parent q (ctx_addr C) s1 else s1)"
    using assms(4) v by (auto simp: splice_out_def Let_def s1_def)
  show "start = ctx_addr C" by (rule st)
  have nv: "v \<notin> set (before C) \<union> set (after C)" using p(5) [of v] by simp
  note rc = ctx_replace [OF p(1) [unfolded v(1)] p(4) v(2) nv s1_def]
  have q: "q \<noteq> 0 \<Longrightarrow> q \<in> set (inorder t)" using vtree_root [OF assms(3)] by blast
  have keep: "vads s1 a = vads s a" if "a \<in> set (inorder t)" for a
  proof -
    have "a \<noteq> ctx_addr C" using that sub(1) p(6) by blast
    then show ?thesis by (rule rc(2) [OF disjI2])
  qed
  have w: "vads s' a = (if a = q \<and> q \<noteq> 0 then (vads s1 q)\<lparr>parent := ctx_addr C\<rparr> else vads s1 a)" for a
    by (simp add: st(2) vads_upd)
  have "vtree (vads s') (ctx_addr C) q t"
    by (rule vtree_reparent [OF assms(3) sub(3)]) (use w keep in auto)
  moreover have "ctxrep (vads s') (root s') C q"
  proof -
    have rt: "root s' = root s1" by (simp add: st(2) root_upd)
    have ctx: "links (vads s' a) = links (vads s1 a)" if "a \<in> set (before C) \<union> set (after C)" for a
    proof -
      have "a \<notin> set (inorder t)" using that sub(1) p(5) by blast
      then show ?thesis using w q by (metis)
    qed
    show ?thesis unfolding rt by (rule ctxrep_frame [OF rc(1) ctx])
  qed
  moreover have "distinct (before C @ inorder t @ after C)"
    using assms(1) sub(4) by (auto simp: rep_def inorder_plug simp del: set_inorder)
  ultimately show "rep s' C t" by (intro repI)
  show "\<And>a. data (vads s' a) = data (vads s a)" "\<And>a. balance (vads s' a) = balance (vads s a)"
    using replace_child_data(1,2) [of "ctx_addr C" v q s] by (auto simp: st(2) s1_def vads_upd data_def)
  show "node_count s' = node_count s" using replace_child_data(3) by (simp add: st(2) s1_def upd_def)
  show "vads s' a = vads s a" if "a \<notin> tree_nodes C t" for a
  proof -
    have "C = [] \<or> a \<noteq> ctx_addr C" using that ctx_addr_in [of C] by (auto simp: tree_nodes_def)
    moreover have "\<not> (a = q \<and> q \<noteq> 0)" using that q by (auto simp: tree_nodes_def)
    ultimately show ?thesis using w rc(2) by metis
  qed
qed

lemma find_minimum_tree:
  assumes "vtree h par p t" and "t \<noteq> Leaf"
  shows "\<exists>E a q. t = plug E (Node Leaf a q) \<and> (\<forall>c \<in> set E. fst c) \<and> mi_find_minimum h p = Some a"
  using assms
proof (induction t arbitrary: par p)
  case (Node l x r)
  show ?case
  proof (cases "l = Leaf")
    case True
    then have "mi_find_minimum h p = Some x" using Node.prems(1) by (subst mi_find_minimum.simps) simp
    then show ?thesis using True by (intro exI [of _ "[]"]) auto
  next
    case False
    have l: "vtree h x (left_child (h x)) l" "left_child (h x) \<noteq> 0" "p = x" "x \<noteq> 0"
      using Node.prems(1) vtree_root_iff [of h x "left_child (h x)" l] False by auto
    obtain E a q where E: "l = plug E (Node Leaf a q)" "\<forall>c \<in> set E. fst c" "mi_find_minimum h (left_child (h x)) = Some a"
      using Node.IH(1) [OF l(1) False] by blast
    have "mi_find_minimum h p = Some a" using l E(3) by (subst mi_find_minimum.simps) simp
    moreover have "Node l x r = plug (E @ [(True, x, r)]) (Node Leaf a q)" by (simp add: plug_append E(1))
    ultimately show ?thesis using E(2) by (intro exI [of _ "E @ [(True, x, r)]"]) auto
  qed
qed simp

text \<open>Putting \<open>w\<close>, with its right subtree in place, where \<open>v\<close> is.\<close>

lemma substitute_rep:
  assumes "ctxrep (vads s) (root s) C v" and "v \<noteq> 0" and "v \<notin> set (before C) \<union> set (after C)"
    and "vtree (vads s) v lft l" and "lft \<noteq> 0" and "vtree (vads s) w (right_child (vads s w)) r" and "w \<noteq> 0"
    and d: "distinct (before C @ (inorder l @ w # inorder r) @ after C)"
    and s4: "s4 = set_parent w (ctx_addr C) (set_parent lft w (set_left w lft s))"
    and s': "s' = replace_child (ctx_addr C) v w s4"
  shows "rep s' C (Node l w r)" and "\<And>a. data (vads s' a) = data (vads s a)"
    and "\<And>a. balance (vads s' a) = balance (vads s a)" and "node_count s' = node_count s"
    and "\<And>a. a \<notin> tree_nodes C (Node l w r) \<Longrightarrow> vads s' a = vads s a"
proof -
  have lft: "lft \<in> set (inorder l)" by (rule vtree_root [OF assms(4,5)])
  have nd: "w \<notin> set (inorder l)" "w \<notin> set (inorder r)" "set (inorder l) \<inter> set (inorder r) = {}" "distinct (inorder l)"
    "distinct (before C @ after C)" using d by (auto simp del: set_inorder)
  have out: "a \<notin> set (before C) \<union> set (after C)" if "a \<in> set (inorder (Node l w r))" for a
    using that d by (auto simp del: set_inorder)
  have nc: "a \<noteq> ctx_addr C \<or> C = []" if "a \<in> set (inorder (Node l w r))" for a
    using out [OF that] ctx_addr_in by metis
  have v4: "vads s4 a = (if a = w then (vads s w)\<lparr>left_child := lft, parent := ctx_addr C\<rparr>
      else if a = lft then (vads s lft)\<lparr>parent := w\<rparr> else vads s a)" for a
    using nd(1) lft by (auto simp: s4 vads_upd)
  have r4: "root s4 = root s" by (simp add: s4 root_upd)
  have "ctxrep (vads s4) (root s4) C v"
    unfolding r4
  proof (rule ctxrep_frame [OF assms(1)])
    fix a assume "a \<in> set (before C) \<union> set (after C)"
    then have "a \<noteq> w" "a \<noteq> lft" using out [of w] out [of lft] lft by auto
    then show "links (vads s4 a) = links (vads s a)" by (simp add: v4)
  qed
  note rc = ctx_replace [OF this nd(5) assms(2,3) s']
  have v: "vads s' a = vads s4 a" if "a \<in> set (inorder (Node l w r))" for a
    using rc(2) nc [OF that] by blast
  have "vtree (vads s') w lft l"
    by (rule vtree_reparent [OF assms(4) nd(4)]) (use v v4 nd lft in auto)
  moreover have "vtree (vads s') w (right_child (vads s w)) r"
  proof (rule vtree_frame [OF assms(6)])
    fix a assume "a \<in> set (inorder r)"
    then have "a \<noteq> w" "a \<noteq> lft" "a \<in> set (inorder (Node l w r))" using nd lft by auto
    then show "links (vads s' a) = links (vads s a)" using v v4 by simp
  qed
  moreover have "vads s' w = (vads s w)\<lparr>left_child := lft, parent := ctx_addr C\<rparr>" using v [of w] v4 by simp
  ultimately have "vtree (vads s') (ctx_addr C) w (Node l w r)" using assms(7) by simp
  then show "rep s' C (Node l w r)" using rc(1) d by (intro repI [of _ _ w]) simp_all
  show "\<And>a. data (vads s' a) = data (vads s a)" "\<And>a. balance (vads s' a) = balance (vads s a)"
    using replace_child_data(1,2) [of "ctx_addr C" v w s4] v4 by (auto simp: s' data_def)
  show "node_count s' = node_count s" using replace_child_data(3) by (simp add: s' s4 upd_def)
  show "vads s' a = vads s a" if "a \<notin> tree_nodes C (Node l w r)" for a
  proof -
    have "C = [] \<or> a \<noteq> ctx_addr C" using that ctx_addr_in [of C] by (auto simp: tree_nodes_def)
    moreover have "a \<noteq> w" "a \<noteq> lft" using that lft by (auto simp: tree_nodes_def)
    ultimately show ?thesis using rc(2) v4 by metis
  qed
qed

lemma vtree_nonleaf: "vtree h par p t \<Longrightarrow> t \<noteq> Leaf \<Longrightarrow> p \<noteq> 0"
  using vtree_root_iff by blast

text \<open>The successor is the right child itself: it keeps its right subtree.\<close>

lemma successor_child:
  assumes "rep s C (Node l v (Node Leaf w q))" and "l \<noteq> Leaf"
    and "replace_by_successor v w s = (start, s')"
  shows "rep s' C (Node l w q)" and "start = w" and "\<And>a. data (vads s' a) = data (vads s a)"
    and "\<And>a. a \<noteq> w \<Longrightarrow> balance (vads s' a) = balance (vads s a)" and "node_count s' = node_count s"
    and "\<And>a. a \<notin> tree_nodes C (Node l w q) \<Longrightarrow> vads s' a = vads s a"
proof -
  let ?T = "Node l v (Node Leaf w q)"
  obtain p where p: "ctxrep (vads s) (root s) C p" "vtree (vads s) (ctx_addr C) p ?T" "distinct (inorder ?T)"
    "distinct (before C @ after C)" "\<And>z. z \<in> set (inorder ?T) \<Longrightarrow> z \<notin> set (before C) \<union> set (after C)"
    "\<And>z. z \<in> set (inorder ?T) \<Longrightarrow> z \<noteq> ctx_addr C"
    by (rule repD [OF assms(1)]) blast
  have v: "p = v" "v \<noteq> 0" "parent (vads s v) = ctx_addr C" "w \<noteq> 0" "parent (vads s w) = v"
    "vtree (vads s) w (right_child (vads s w)) q" "vtree (vads s) v (left_child (vads s v)) l"
    using p(2) by auto
  have l0: "left_child (vads s v) \<noteq> 0" by (rule vtree_nonleaf [OF v(7) assms(2)])
  define s4 where "s4 = set_parent w (ctx_addr C) (set_parent (left_child (vads s v)) w (set_left w (left_child (vads s v)) s))"
  define s5 where "s5 = replace_child (ctx_addr C) v w s4"
  have nv: "v \<notin> set (before C) \<union> set (after C)" using p(5) [of v] by simp
  have d: "distinct (before C @ (inorder l @ w # inorder q) @ after C)"
    using assms(1) by (auto simp: rep_def inorder_plug simp del: set_inorder)
  note sub = substitute_rep [OF p(1) [unfolded v(1)] v(2) nv v(7) l0 v(6,4) d s4_def s5_def]
  have e: "start = w" "s' = upd w (balance_update (\<lambda>_. balance (vads s5 v))) s5"
    using assms(3) v by (auto simp: replace_by_successor_def Let_def s5_def s4_def)
  show "start = w" by (rule e)
  show "rep s' C (Node l w q)" using sub(1) by (simp add: e(2) rep_balance)
  show "\<And>a. data (vads s' a) = data (vads s a)" using sub(2) by (simp add: e(2) vads_upd data_def)
  show "\<And>a. a \<noteq> w \<Longrightarrow> balance (vads s' a) = balance (vads s a)" using sub(3) by (simp add: e(2) vads_upd)
  show "node_count s' = node_count s" using sub(4) by (simp add: e(2) upd_def)
  show "\<And>a. a \<notin> tree_nodes C (Node l w q) \<Longrightarrow> vads s' a = vads s a"
    using sub(5) by (simp add: e(2) vads_upd tree_nodes_def)
qed

text \<open>The successor is deeper: it is unlinked first, then put in place of the node.\<close>

lemma successor_deep:
  assumes "rep s C (Node l v (plug E (Node Leaf w q)))" and "l \<noteq> Leaf" and "E \<noteq> []" and "\<forall>c \<in> set E. fst c"
    and "replace_by_successor v w s = (start, s')"
  shows "rep s' C (Node l w (plug E q))" and "start = ctx_addr E" and "\<And>a. data (vads s' a) = data (vads s a)"
    and "\<And>a. a \<noteq> w \<Longrightarrow> balance (vads s' a) = balance (vads s a)" and "node_count s' = node_count s"
    and "\<And>a. a \<notin> tree_nodes C (Node l w (plug E q)) \<Longrightarrow> vads s' a = vads s a"
proof -
  let ?E = "E @ (False, v, l) # C" and ?h = "vads s"
  obtain y u F where E: "E = (True, y, u) # F"
    using assms(3,4) by (cases E rule: ctx_addr.cases) auto
  have rE: "rep s ?E (Node Leaf w q)" using assms(1) by (simp add: rep_def plug_append)
  have cE: "ctx_addr ?E = y" "ctx_addr E = y" by (simp_all add: E)
  obtain p1 where p1: "ctxrep ?h (root s) ?E p1" "vtree ?h (ctx_addr ?E) p1 (Node Leaf w q)"
    by (rule repD [OF rE]) blast
  have w: "w \<noteq> 0" "parent (?h w) = y" "vtree ?h w (right_child (?h w)) q" "y \<noteq> 0" "left_child (?h y) = w"
    using p1 by (auto simp: E)
  define b where "b = snd (splice_out w (right_child (?h w)) s)"
  have sp: "splice_out w (right_child (?h w)) s = (y, b)" using w(2) by (simp add: b_def splice_out_def Let_def)
  note spl = splice_out_rep [OF rE _ w(3) sp, of]
  have b: "rep b ?E q" "\<And>a. data (vads b a) = data (?h a)" "\<And>a. balance (vads b a) = balance (?h a)"
    "node_count b = node_count s" "\<And>a. a \<notin> tree_nodes ?E q \<Longrightarrow> vads b a = ?h a"
    using spl by auto
  have b_eq: "b = (if right_child (?h w) \<noteq> 0 then set_parent (right_child (?h w)) y (set_left y (right_child (?h w)) s)
      else set_left y (right_child (?h w)) s)"
    using w by (simp add: b_def splice_out_def Let_def replace_child_def)
  have rb: "rep b C (Node l v (plug E q))" using b(1) by (simp add: rep_def plug_append)
  let ?T = "Node l v (plug E q)"
  obtain p where p: "ctxrep (vads b) (root b) C p" "vtree (vads b) (ctx_addr C) p ?T" "distinct (inorder ?T)"
    "distinct (before C @ after C)" "\<And>z. z \<in> set (inorder ?T) \<Longrightarrow> z \<notin> set (before C) \<union> set (after C)"
    "\<And>z. z \<in> set (inorder ?T) \<Longrightarrow> z \<noteq> ctx_addr C"
    by (rule repD [OF rb]) blast
  have D: "distinct (before C @ (inorder l @ [v] @ before E @ w # inorder q @ after E) @ after C)"
    using assms(1) by (simp add: rep_def inorder_plug del: set_inorder)
  have wn: "w \<notin> tree_nodes ?E q" using D by (auto simp: tree_nodes_def before_append after_append simp del: set_inorder)
  have bw: "vads b w = ?h w" by (rule b(5) [OF wn])
  have ne: "v \<noteq> y" "v \<noteq> w" using D by (auto simp: E)
  have nq: "right_child (?h w) \<noteq> v"
  proof
    assume "right_child (?h w) = v"
    then have "right_child (?h w) \<noteq> 0" using p(2) by auto
    then have "v \<in> set (inorder q)" using vtree_root [OF w(3)] \<open>_ = v\<close> by simp
    then show False using D by auto
  qed
  have bv: "vads b v = ?h v" using ne nq by (auto simp: b_eq vads_upd)
  let ?l = "left_child (?h v)" and ?r = "right_child (?h v)"
  have v: "p = v" "v \<noteq> 0" "parent (?h v) = ctx_addr C" "vtree (vads b) v ?l l" "vtree (vads b) v ?r (plug E q)"
    using p(2) bv by auto
  have l0: "?l \<noteq> 0" by (rule vtree_nonleaf [OF v(4) assms(2)])
  have "inorder (plug E q) \<noteq> []" by (simp add: inorder_plug E)
  then have "plug E q \<noteq> Leaf" by auto
  then have r0: "?r \<noteq> 0" by (rule vtree_nonleaf [OF v(5)])
  then have rin: "?r \<in> set (inorder (plug E q))" using vtree_root [OF v(5)] by blast
  define d where "d = set_parent ?r w (set_right w ?r b)"
  have wr: "w \<noteq> ?r" using rin D by (auto simp: inorder_plug)
  have vd: "vads d a = (if a = w then (vads b w)\<lparr>right_child := ?r\<rparr> else if a = ?r then (vads b ?r)\<lparr>parent := w\<rparr>
      else vads b a)" for a
    using wr by (auto simp: d_def vads_upd)
  have other: "vads d a = vads b a" if "a \<noteq> w" "a \<noteq> ?r" for a using that vd by simp
  have rd: "root d = root b" by (simp add: d_def root_upd)
  have cd: "ctxrep (vads d) (root d) C v"
    unfolding rd
  proof (rule ctxrep_frame [OF p(1) [unfolded v(1)]])
    fix a assume "a \<in> set (before C) \<union> set (after C)"
    then have "a \<noteq> w" "a \<noteq> ?r" using D p(5) [of ?r] rin by auto
    then show "links (vads d a) = links (vads b a)" using other by simp
  qed
  have nv: "v \<notin> set (before C) \<union> set (after C)" using p(5) [of v] by simp
  have ld: "vtree (vads d) v ?l l"
  proof (rule vtree_frame [OF v(4)])
    fix a assume "a \<in> set (inorder l)"
    then have "a \<noteq> w" "a \<noteq> ?r" using D p(3) rin by auto
    then show "links (vads d a) = links (vads b a)" using other by simp
  qed
  have dist: "distinct (inorder (plug E q))" "w \<notin> set (inorder (plug E q))" using D by (auto simp: inorder_plug)
  have "vtree (vads d) w ?r (plug E q)"
  proof (rule vtree_reparent [OF v(5) dist(1)])
    fix a assume "a \<in> set (inorder (plug E q))"
    then have "a \<noteq> w" using dist by blast
    then show "left_child (vads d a) = left_child (vads b a) \<and> right_child (vads d a) = right_child (vads b a)"
      and "a \<noteq> ?r \<Longrightarrow> parent (vads d a) = parent (vads b a)" using vd by auto
  qed (use vd wr in simp)
  then have rd': "vtree (vads d) w (right_child (vads d w)) (plug E q)" using vd by simp
  define s4 where "s4 = set_parent w (ctx_addr C) (set_parent ?l w (set_left w ?l d))"
  define s5 where "s5 = replace_child (ctx_addr C) v w s4"
  have D': "distinct (before C @ (inorder l @ w # inorder (plug E q)) @ after C)"
    using D by (auto simp: inorder_plug simp del: set_inorder)
  note sub = substitute_rep [OF cd v(2) nv ld l0 rd' w(1) D' s4_def s5_def]
  have e: "start = y" "s' = upd w (balance_update (\<lambda>_. balance (vads s5 v))) s5"
    using assms(5) w(2) ne(1) v(3)
    by (auto simp: replace_by_successor_def Let_def s5_def s4_def d_def b_eq)
  have dd: "data (vads d a) = data (?h a)" "balance (vads d a) = balance (?h a)" for a
    using b(2,3) [of a] by (auto simp: vd data_def)
  show "start = ctx_addr E" using e cE by simp
  show "rep s' C (Node l w (plug E q))" using sub(1) by (simp add: e(2) rep_balance)
  show "\<And>a. data (vads s' a) = data (vads s a)" using sub(2) dd(1) by (simp add: e(2) vads_upd data_def)
  show "\<And>a. a \<noteq> w \<Longrightarrow> balance (vads s' a) = balance (vads s a)" using sub(3) dd(2) by (simp add: e(2) vads_upd)
  show "node_count s' = node_count s" using sub(4) b(4) by (simp add: e(2) upd_def d_def)
  fix a assume a: "a \<notin> tree_nodes C (Node l w (plug E q))"
  have "a \<noteq> v \<Longrightarrow> a \<notin> tree_nodes ?E q" using a by (auto simp: tree_nodes_def before_append after_append inorder_plug)
  moreover have "a \<noteq> w" "a \<noteq> ?r" using a rin by (auto simp: tree_nodes_def)
  ultimately show "vads s' a = vads s a"
    using sub(5) [OF a] b(5) [of a] bv vd by (auto simp: e(2) vads_upd)
qed

text \<open>What unlinking leaves: a tree without the node, out of balance at most around the position \<open>C\<close>.\<close>

definition unlinked :: "MM_AVL_TABLE \<Rightarrow> nat list \<Rightarrow> nat \<Rightarrow> nat \<Rightarrow> MM_AVL_TABLE \<Rightarrow> ctx \<Rightarrow> nat tree \<Rightarrow> nat \<Rightarrow> bool" where
  "unlinked s xs v start s' C t n \<longleftrightarrow> rep s' C t \<and> start = ctx_addr C \<and> avl t \<and> bal_ok (vads s') t \<and>
     ctx_bal_ok (vads s') C \<and> ctx_avl C n \<and> near (height t) n \<and> xs = before C @ inorder t @ after C \<and>
     (\<forall>a. data (vads s' a) = data (vads s a)) \<and> node_count s' = node_count s \<and>
     (\<forall>a. a \<notin> tree_nodes C t \<longrightarrow> vads s' a = vads s a)"

lemma ctx_swap:
  "ctx_avl (E @ (d, v, u) # C) n = ctx_avl (E @ (d, w, u) # C) n"
  "ctx_bal_ok h (E @ (d, v, u) # C) = ctx_bal_ok h (E @ (d, w, u) # C)"
  by (induction E arbitrary: n) auto

lemma remove1_inorder_plug:
  "distinct (inorder (plug C (Node l v r))) \<Longrightarrow>
   remove1 v (inorder (plug C (Node l v r))) = before C @ inorder l @ inorder r @ after C"
  by (auto simp: inorder_plug remove1_append simp del: set_inorder)

lemma unlink_splice:
  assumes "vad_shape s (plug C (Node l v r))" and "t = l \<and> r = Leaf \<or> t = r \<and> l = Leaf" and "vtree (vads s) v q t"
    and "xs = before C @ inorder l @ inorder r @ after C"
  shows "unlinked s xs v (fst (splice_out v q s)) (snd (splice_out v q s)) C t (height (Node l v r))"
proof -
  obtain start s' where sp: "splice_out v q s = (start, s')" by (rule prod.exhaust)
  have i: "rep s C (Node l v r)" "avl (plug C (Node l v r))" "bal_ok (vads s) (plug C (Node l v r))"
    using assms(1) rep_plug by (auto simp: vad_shape_def)
  note r = splice_out_rep [OF i(1) assms(2,3) sp]
  have b: "bal_ok (vads s) t" "ctx_bal_ok (vads s) C" using bal_ok_plug [OF i(3)] assms(2) by auto
  have "bal_ok (vads s') t" "ctx_bal_ok (vads s') C"
    using bal_ok_frame [OF b(1), of "vads s'"] ctx_bal_ok_frame [OF b(2), of "vads s'"] r(4) by simp_all
  moreover have "avl t" "ctx_avl C (height (Node l v r))" "near (height t) (height (Node l v r))"
    using i(2) assms(2) by (auto simp: avl_plug near_def)
  ultimately show ?thesis using r assms(2,4) by (auto simp: unlinked_def sp)
qed

lemma replace_by_successor_rep:
  assumes "rep s C (Node l v (plug E (Node Leaf w q)))" and "l \<noteq> Leaf" and "\<forall>c \<in> set E. fst c"
    and "replace_by_successor v w s = (start, s')"
  shows "start = ctx_addr (E @ (False, w, l) # C) \<and> rep s' C (Node l w (plug E q)) \<and>
    (\<forall>a. data (vads s' a) = data (vads s a)) \<and> (\<forall>a. a \<noteq> w \<longrightarrow> balance (vads s' a) = balance (vads s a)) \<and>
    node_count s' = node_count s \<and> (\<forall>a. a \<notin> tree_nodes C (Node l w (plug E q)) \<longrightarrow> vads s' a = vads s a)"
proof (cases "E = []")
  case True
  then have r: "rep s C (Node l v (Node Leaf w q))" using assms(1) by simp
  show ?thesis using successor_child [OF r assms(2,4)] True by simp
next
  case False
  then have "ctx_addr (E @ (False, w, l) # C) = ctx_addr E" by (cases E rule: ctx_addr.cases) auto
  then show ?thesis using successor_deep [OF assms(1,2) False assms(3,4)] by simp
qed

lemma unlink_successor:
  assumes inv: "vad_shape s (plug C (Node l v (plug E (Node Leaf w q))))" and "l \<noteq> Leaf" and "\<forall>c \<in> set E. fst c"
    and "xs = before C @ inorder l @ inorder (plug E (Node Leaf w q)) @ after C"
  shows "unlinked s xs v (fst (replace_by_successor v w s)) (snd (replace_by_successor v w s))
           (E @ (False, w, l) # C) q (height (Node Leaf w q))"
proof -
  obtain start s' where sp: "replace_by_successor v w s = (start, s')" by (rule prod.exhaust)
  let ?C = "E @ (False, w, l) # C" and ?V = "E @ (False, v, l) # C"
  have i: "rep s C (Node l v (plug E (Node Leaf w q)))" "avl (plug ?V (Node Leaf w q))" "bal_ok (vads s) (plug ?V (Node Leaf w q))"
    using inv rep_plug by (auto simp: vad_shape_def plug_append)
  have "\<forall>c \<in> set E. fst c \<Longrightarrow> before E = []" by (induction E) auto
  then have bE: "before E = []" using assms(3) by blast
  have c: "start = ctx_addr ?C" "rep s' C (Node l w (plug E q))" "\<forall>a. data (vads s' a) = data (vads s a)"
    "\<forall>a. a \<noteq> w \<longrightarrow> balance (vads s' a) = balance (vads s a)" "node_count s' = node_count s"
    "\<forall>a. a \<notin> tree_nodes C (Node l w (plug E q)) \<longrightarrow> vads s' a = vads s a"
    using replace_by_successor_rep [OF i(1) assms(2,3) sp] by blast+
  have tn: "tree_nodes ?C q = tree_nodes C (Node l w (plug E q))"
    by (auto simp: tree_nodes_def before_append after_append inorder_plug)
  have rC: "rep s' ?C q" using c(2) by (simp add: rep_def plug_append)
  have d: "distinct (before ?V @ (w # inorder q) @ after ?V)"
    using i(1) by (simp add: rep_def inorder_plug before_append after_append del: set_inorder)
  have b: "bal_ok (vads s) q" "ctx_bal_ok (vads s) ?V" using bal_ok_plug [OF i(3)] by auto
  have bq: "bal_ok (vads s') q"
    by (rule bal_ok_frame [OF b(1)]) (use d c(4) in auto)
  have "ctx_bal_ok (vads s') ?V"
  proof (rule ctx_bal_ok_frame [OF b(2)])
    fix a assume "a \<in> set (before ?V) \<union> set (after ?V)"
    then have "a \<noteq> w" using d by auto
    then show "balance (vads s' a) = balance (vads s a)" using c(4) by blast
  qed
  then have bC: "ctx_bal_ok (vads s') ?C" using ctx_swap(2) by metis
  have "avl q" "ctx_avl ?V (height (Node Leaf w q))" using i(2) by (simp_all add: avl_plug)
  then have aC: "avl q" "ctx_avl ?C (height (Node Leaf w q))" using ctx_swap(1) by metis+
  have "xs = before ?C @ inorder q @ after ?C" using assms(4) bE by (simp add: inorder_plug before_append after_append)
  then show ?thesis using rC c(1,3,5,6) tn bq bC aC by (simp add: unlinked_def sp near_def)
qed

lemma unlink_vad_tree:
  assumes inv: "vad_shape s (plug C (Node l v r))" and xs: "xs = before C @ inorder l @ inorder r @ after C"
  shows "\<exists>start s' D t n. unlink_vad v s = Some (start, s') \<and> unlinked s xs v start s' D t n"
proof -
  have rs: "rep s C (Node l v r)" using inv rep_plug by (auto simp: vad_shape_def)
  note n = rep_node [OF rs]
  have z: "left_child (vads s v) = 0 \<longleftrightarrow> l = Leaf" "right_child (vads s v) = 0 \<longleftrightarrow> r = Leaf"
    using n(4,5) vtree_root_iff by blast+
  consider "l = Leaf" "r = Leaf" | "l = Leaf" "r \<noteq> Leaf" | "l \<noteq> Leaf" "r = Leaf" | "l \<noteq> Leaf" "r \<noteq> Leaf" by blast
  then show ?thesis
  proof cases
    case 1
    then have "unlinked s xs v (fst (splice_out v 0 s)) (snd (splice_out v 0 s)) C Leaf (height (Node l v r))"
      by (intro unlink_splice [OF inv _ _ xs]) auto
    then show ?thesis using 1 z by (auto simp: unlink_vad_def Let_def) (metis prod.collapse)
  next
    case 2
    then have "unlinked s xs v (fst (splice_out v (right_child (vads s v)) s)) (snd (splice_out v (right_child (vads s v)) s)) C r
        (height (Node l v r))"
      using n(5) by (intro unlink_splice [OF inv _ _ xs]) auto
    then show ?thesis using 2 z by (auto simp: unlink_vad_def Let_def) (metis prod.collapse)
  next
    case 3
    then have "unlinked s xs v (fst (splice_out v (left_child (vads s v)) s)) (snd (splice_out v (left_child (vads s v)) s)) C l
        (height (Node l v r))"
      using n(4) by (intro unlink_splice [OF inv _ _ xs]) auto
    then show ?thesis using 3 z by (auto simp: unlink_vad_def Let_def) (metis prod.collapse)
  next
    case 4
    obtain E w q where E: "r = plug E (Node Leaf w q)" "\<forall>c \<in> set E. fst c"
      "mi_find_minimum (vads s) (right_child (vads s v)) = Some w"
      using find_minimum_tree [OF n(5) 4(2)] by blast
    have "unlinked s xs v (fst (replace_by_successor v w s)) (snd (replace_by_successor v w s))
           (E @ (False, w, l) # C) q (height (Node Leaf w q))"
      by (rule unlink_successor [OF inv [unfolded E(1)] 4(1) E(2)]) (use xs E(1) in simp)
    then show ?thesis using 4 z E(3) by (auto simp: unlink_vad_def Let_def) (metis prod.collapse)
  qed
qed

lemma remove_rebalances:
  assumes "unlinked s xs v start s1 C t n" and "v \<notin> set xs" 
    and "node_count s - 1 = of_nat (length xs)" and s3: "s3 = upd v clear_links (s1\<lparr>node_count := node_count s1 - 1\<rparr>)"
  obtains s' T' where "(if start \<noteq> 0 then mi_rebalance_tree start s3 else Some s3) = Some s'" and "vad_shape s' T'"
    and "inorder T' = xs" and "\<And>a. data (vads s' a) = data (vads s a)"
    and "vads s' v = clear_links (vads s v)" and "\<And>a. a \<noteq> v \<Longrightarrow> a \<notin> set xs \<Longrightarrow> vads s' a = vads s a"
proof -
  have u: "rep s1 C t" "start = ctx_addr C" "avl t" "bal_ok (vads s1) t" "ctx_bal_ok (vads s1) C" "ctx_avl C n" "near (height t) n"
    "xs = before C @ inorder t @ after C" "\<And>a. data (vads s1 a) = data (vads s a)" "node_count s1 = node_count s"
    "\<And>a. a \<notin> tree_nodes C t \<Longrightarrow> vads s1 a = vads s a"
    using assms(1) by (simp_all add: unlinked_def)
  have tn: "tree_nodes C t = set xs" using u(8) by (auto simp: tree_nodes_def)
  have v3: "vads s3 a = (if a = v then clear_links (vads s1 v) else vads s1 a)" for a by (simp add: s3 upd_def)
  have d3: "data (vads s3 a) = data (vads s a)" "balance (vads s3 a) = balance (vads s1 a)" for a
    using u(9) [of a] by (auto simp: v3 clear_links_def data_def)
  have r3: "rep s3 C t"
  proof (rule rep_frame [OF u(1)])
    show "root s3 = root s1" by (simp add: s3 root_upd)
    show "links (vads s3 a) = links (vads s1 a)" if "a \<in> tree_nodes C t" for a
      using that assms(2) tn v3 by auto
  qed
  have b3: "bal_ok (vads s3) t" "ctx_bal_ok (vads s3) C"
    using bal_ok_frame [OF u(4), of "vads s3"] ctx_bal_ok_frame [OF u(5), of "vads s3"] d3(2) by blast+
  have e: "inorder (plug C t) = xs" by (simp add: u(8) inorder_plug)
  have n3: "node_count s3 = of_nat (size (plug C t))"
    using assms(3) u(10) length_inorder [of "plug C t"] by (simp add: s3 upd_def e)
  obtain s' T' where s': "mi_rebalance_tree (ctx_addr C) s3 = Some s'" "vad_shape s' T'"
    "inorder T' = inorder (plug C t)" "same_data (tree_nodes C t) s3 s'"
    by (rule rebalanced_shape [OF r3 u(3) b3 u(6,7) n3]) blast
  have same: "vads s' a = vads s3 a" if "a \<notin> set xs" for a
    using that s'(4) tn by (auto simp: same_data_def)
  have "mi_rebalance_tree 0 s3 = Some s3" by (subst mi_rebalance_tree.simps) simp
  then have run: "(if start \<noteq> 0 then mi_rebalance_tree start s3 else Some s3) = Some s'"
    using s'(1) u(2) by (cases "start = 0") simp_all
  show ?thesis
    by (rule that [OF run s'(2)])
       (use s'(3) e same_data_count(2) [OF s'(4)] d3(1) same u(11) tn v3 assms(2) in auto)
qed

lemma remove_vad_shape:
  assumes "vad_shape s T" and "v \<in> set_tree T"
  obtains s' T' where "mi_remove_vad v s = Some s'" and "vad_shape s' T'"
    and "inorder T' = remove1 v (inorder T)" and "\<And>a. data (vads s' a) = data (vads s a)"
    and "vads s' v = clear_links (vads s v)" and "\<And>a. a \<notin> set_tree T \<Longrightarrow> vads s' a = vads s a"
proof -
  obtain C l r where T: "T = plug C (Node l v r)" using plug_at [OF assms(2)] by blast
  have i: "vad_shape s (plug C (Node l v r))" "distinct (inorder T)" "v \<noteq> 0"
    "node_count s = of_nat (size T)"
    using assms T vtree_nonzero [of "vads s" 0 "root s" T v] by (auto simp: vad_shape_def rep_def)
  let ?xs = "before C @ inorder l @ inorder r @ after C"
  have xs: "?xs = remove1 v (inorder T)" using remove1_inorder_plug i(2) T by metis
  have e: "inorder T = (before C @ inorder l) @ v # (inorder r @ after C)" by (simp add: T inorder_plug)
  have nv: "v \<notin> set ?xs" using i(2) unfolding e by (simp del: set_inorder)
  have "size T = length ?xs + 1" using length_inorder [of T] unfolding e by simp
  then have n: "node_count s - 1 = of_nat (length ?xs)" using i(4) by simp
  obtain start s1 D t m where u: "unlink_vad v s = Some (start, s1)" "unlinked s ?xs v start s1 D t m"
    using unlink_vad_tree [OF i(1) refl] by blast
  obtain s' T' where s': "(if start \<noteq> 0 then mi_rebalance_tree start (upd v clear_links (s1\<lparr>node_count := node_count s1 - 1\<rparr>))
        else Some (upd v clear_links (s1\<lparr>node_count := node_count s1 - 1\<rparr>))) = Some s'" "vad_shape s' T'"
    "inorder T' = ?xs" "\<And>a. data (vads s' a) = data (vads s a)" "vads s' v = clear_links (vads s v)"
    "\<And>a. a \<noteq> v \<Longrightarrow> a \<notin> set ?xs \<Longrightarrow> vads s' a = vads s a"
    by (rule remove_rebalances [OF u(2) nv n refl]) blast
  have "mi_remove_vad v s = Some s'"
    using s'(1) u(1) i(3) by (simp add: mi_remove_vad_def Let_def)
  moreover have "vads s' a = vads s a" if "a \<notin> set_tree T" for a
    using s'(6) [of a] that e set_inorder [of T] by auto
  ultimately show ?thesis using that [OF _ s'(2) _ s'(4,5)] s'(3) xs by simp
qed

lemma ranges_ok_remove1: "ranges_ok h xs \<Longrightarrow> ranges_ok h (remove1 v xs)"
proof (induction xs)
  case (Cons a xs)
  then show ?case using set_remove1_subset [of v xs] by (auto simp: ranges_ok_Cons)
qed simp

lemma remove_vad_tree:
  assumes "vad_inv s T" and "v \<in> set_tree T"
  obtains s' T' where "mi_remove_vad v s = Some s'" and "vad_inv s' T'"
    and "inorder T' = remove1 v (inorder T)" and "\<And>a. data (vads s' a) = data (vads s a)"
    and "vads s' v = clear_links (vads s v)" and "\<And>a. a \<notin> set_tree T \<Longrightarrow> vads s' a = vads s a"
proof -
  have i: "vad_shape s T" "ranges_ok (vads s) (inorder T)" using assms(1) by (simp_all add: vad_inv_def)
  obtain s' T' where r: "mi_remove_vad v s = Some s'" "vad_shape s' T'" "inorder T' = remove1 v (inorder T)"
    "\<And>a. data (vads s' a) = data (vads s a)" "vads s' v = clear_links (vads s v)"
    "\<And>a. a \<notin> set_tree T \<Longrightarrow> vads s' a = vads s a"
    by (rule remove_vad_shape [OF i(1) assms(2)]) blast
  have "ranges_ok (vads s') (inorder T')"
    unfolding r(3) by (rule ranges_ok_data [OF ranges_ok_remove1 [OF i(2)] r(4)])
  then show ?thesis using that [OF r(1) _ r(3-6)] r(2) by (simp add: vad_inv_def)
qed

section \<open>Neighbours\<close>

text \<open>The first node after a position, 0 when there is none.\<close>

definition first_of :: "nat list \<Rightarrow> nat" where "first_of xs = (case xs of [] \<Rightarrow> 0 | x # _ \<Rightarrow> x)"

lemma find_minimum_first: "vtree h par p t \<Longrightarrow> t \<noteq> Leaf \<Longrightarrow> mi_find_minimum h p = Some (hd (inorder t))"
proof -
  assume a: "vtree h par p t" "t \<noteq> Leaf"
  obtain E x q where E: "t = plug E (Node Leaf x q)" "\<forall>c \<in> set E. fst c" "mi_find_minimum h p = Some x"
    using find_minimum_tree [OF a] by blast
  have "\<forall>c \<in> set E. fst c \<Longrightarrow> before E = []" by (induction E) auto
  then show ?thesis using E by (simp add: inorder_plug)
qed

lemma climb_from_right_ctx:
  assumes "ctxrep h rt C p" and "distinct (before C @ p # after C)" and "p \<noteq> 0" and "parent (h p) = ctx_addr C"
  shows "climb_from_right h p (ctx_addr C) = Some (first_of (after C))"
  using assms
proof (induction C arbitrary: p)
  case Nil
  then show ?case by (simp add: climb_from_right.simps first_of_def)
next
  case (Cons c C)
  obtain d a u where c: "c = (d, a, u)" by (cases c)
  show ?case
  proof (cases d)
    case True
    have "p \<noteq> right_child (h a)"
    proof
      assume e: "p = right_child (h a)"
      have "vtree h a (right_child (h a)) u" using Cons.prems(1) c True by simp
      from vtree_root [OF this] have "p \<in> set (inorder u)" using e Cons.prems(3) by simp
      then show False using Cons.prems(2) c True by auto
    qed
    then show ?thesis using c True Cons.prems(1) by (simp add: climb_from_right.simps first_of_def)
  next
    case False
    then have a: "right_child (h a) = p" "a \<noteq> 0" "ctxrep h rt C a" "parent (h a) = ctx_addr C" using Cons.prems(1) c by auto
    have "distinct (before C @ a # after C)" using Cons.prems(2) c False by auto
    then have "climb_from_right h a (ctx_addr C) = Some (first_of (after C))" by (intro Cons.IH a)
    moreover have "climb_from_right h p a = climb_from_right h a (parent (h a))"
      using a by (subst climb_from_right.simps) simp
    ultimately show ?thesis using c False a(4) by simp
  qed
qed

lemma find_successor_tree:
  assumes "rep s C (Node l v r)"
  shows "mi_find_successor (vads s) v = Some (first_of (inorder r @ after C))"
proof -
  note n = rep_node [OF assms]
  obtain p where p: "ctxrep (vads s) (root s) C p" "vtree (vads s) (ctx_addr C) p (Node l v r)"
    by (rule repD [OF assms]) blast
  have d: "distinct (before C @ (inorder l @ v # inorder r) @ after C)" using assms by (simp add: rep_def inorder_plug del: set_inorder)
  show ?thesis
  proof (cases "r = Leaf")
    case True
    then have "right_child (vads s v) = 0" using n(5) by simp
    moreover have "climb_from_right (vads s) v (ctx_addr C) = Some (first_of (after C))"
      using p n(2,3) d by (intro climb_from_right_ctx [of _ "root s"]) auto
    ultimately show ?thesis using n(2,3) True by (simp add: mi_find_successor_def)
  next
    case False
    then have "right_child (vads s v) \<noteq> 0" by (rule vtree_nonleaf [OF n(5)])
    moreover have "hd (inorder r) = first_of (inorder r @ after C)" using False by (cases "inorder r") (auto simp: first_of_def)
    ultimately show ?thesis using n(2) find_minimum_first [OF n(5) False] by (simp add: mi_find_successor_def)
  qed
qed

text \<open>The same for the predecessor.\<close>

lemma find_maximum_last: "vtree h par p t \<Longrightarrow> t \<noteq> Leaf \<Longrightarrow> find_maximum h p = Some (last (inorder t))"
proof (induction t arbitrary: par p)
  case (Node l x r)
  show ?case
  proof (cases "r = Leaf")
    case True
    then show ?thesis using Node.prems(1) by (subst find_maximum.simps) simp
  next
    case False
    have r: "vtree h x (right_child (h x)) r" "p = x" using Node.prems(1) by simp_all
    have "find_maximum h p = find_maximum h (right_child (h x))"
      using vtree_nonleaf [OF r(1) False] r(2) by (subst find_maximum.simps) simp
    then show ?thesis using Node.IH(2) [OF r(1) False] False by simp
  qed
qed simp

lemma climb_from_left_ctx:
  assumes "ctxrep h rt C p" and "distinct (before C @ p # after C)" and "p \<noteq> 0" and "parent (h p) = ctx_addr C"
  shows "climb_from_left h p (ctx_addr C) = Some (first_of (rev (before C)))"
  using assms
proof (induction C arbitrary: p)
  case Nil
  then show ?case by (simp add: climb_from_left.simps first_of_def)
next
  case (Cons c C)
  obtain d a u where c: "c = (d, a, u)" by (cases c)
  show ?case
  proof (cases d)
    case False
    have "p \<noteq> left_child (h a)"
    proof
      assume e: "p = left_child (h a)"
      have "vtree h a (left_child (h a)) u" using Cons.prems(1) c False by simp
      from vtree_root [OF this] have "p \<in> set (inorder u)" using e Cons.prems(3) by simp
      then show False using Cons.prems(2) c False by auto
    qed
    then show ?thesis using c False Cons.prems(1) by (simp add: climb_from_left.simps first_of_def)
  next
    case True
    then have a: "left_child (h a) = p" "a \<noteq> 0" "ctxrep h rt C a" "parent (h a) = ctx_addr C" using Cons.prems(1) c by auto
    have "distinct (before C @ a # after C)" using Cons.prems(2) c True by auto
    then have "climb_from_left h a (ctx_addr C) = Some (first_of (rev (before C)))" by (intro Cons.IH a)
    moreover have "climb_from_left h p a = climb_from_left h a (parent (h a))"
      using a by (subst climb_from_left.simps) simp
    ultimately show ?thesis using c True a(4) by simp
  qed
qed

lemma find_predecessor_tree:
  assumes "rep s C (Node l v r)"
  shows "mi_find_predecessor (vads s) v = Some (first_of (rev (before C @ inorder l)))"
proof -
  note n = rep_node [OF assms]
  obtain p where p: "ctxrep (vads s) (root s) C p" "vtree (vads s) (ctx_addr C) p (Node l v r)"
    by (rule repD [OF assms]) blast
  have d: "distinct (before C @ (inorder l @ v # inorder r) @ after C)" using assms by (simp add: rep_def inorder_plug del: set_inorder)
  show ?thesis
  proof (cases "l = Leaf")
    case True
    then have "left_child (vads s v) = 0" using n(4) by simp
    moreover have "climb_from_left (vads s) v (ctx_addr C) = Some (first_of (rev (before C)))"
      using p n(2,3) d by (intro climb_from_left_ctx [of _ "root s"]) auto
    ultimately show ?thesis using n(2,3) True by (simp add: mi_find_predecessor_def)
  next
    case False
    then have "left_child (vads s v) \<noteq> 0" by (rule vtree_nonleaf [OF n(4)])
    moreover have "last (inorder l) = first_of (rev (before C @ inorder l))"
      using False by (cases "inorder l" rule: rev_cases) (auto simp: first_of_def)
    ultimately show ?thesis using n(2) find_maximum_last [OF n(4) False] by (simp add: mi_find_predecessor_def)
  qed
qed

end
