(* ===== verification/VadGap.thy ===== *)
theory VadGap
  imports VadMap
begin

text \<open>
  The searches over the VAD table: free ranges, bottom up and top down, and conflicts. The
  traversals with an explicit stack are equal to scans of the ranges in order, as long as the
  stack of 64 entries is enough, which it is for every AVL tree over the user address space.
\<close>

section \<open>Alignment\<close>

lemma and_not_low: "(x :: u64) AND NOT (2 ^ k - 1) = push_bit k (drop_bit k x)"
  by (rule bit_word_eqI) (auto simp: bit_simps simp flip: mask_eq_exp_minus_1)

lemma unat_take_bit_64: "take_bit 64 (unat (x :: u64)) = unat x"
proof -
  have "unat x < 2 ^ LENGTH(64)" by (rule unsigned_less)
  then show ?thesis by (simp add: take_bit_nat_eq_self_iff)
qed

lemma unat_push_drop: "unat (push_bit k (drop_bit k (x :: u64))) = unat x div 2 ^ k * 2 ^ k"
proof -
  have "unat x div 2 ^ k * 2 ^ k \<le> unat x" by simp
  also have "unat x < 2 ^ LENGTH(64)" by (rule unsigned_less)
  finally have "unat x div 2 ^ k * 2 ^ k < 2 ^ 64" by simp
  moreover have "unat (push_bit k (drop_bit k x)) = take_bit 64 (push_bit k (drop_bit k (unat x)))"
    using unat_take_bit_64 [of x] by (simp only: unsigned_push_bit_eq unsigned_drop_bit_eq) simp
  ultimately show ?thesis by (simp add: push_bit_eq_mult drop_bit_eq_div take_bit_eq_mod)
qed

lemma unat_align_down: "unat (align_down v (2 ^ k)) = unat v div 2 ^ k * 2 ^ k"
  by (simp add: align_down_def and_not_low unat_push_drop)

lemma unat_align_up:
  assumes "unat v \<le> 2 ^ 36" and "k \<le> 62"
  shows "unat (align_up v (2 ^ k)) = (unat v + (2 ^ k - 1)) div 2 ^ k * 2 ^ k"
proof -
  have "(2 :: nat) ^ k \<le> 2 ^ 62" using assms(2) by (intro power_increasing) simp_all
  then have "unat v + (2 ^ k - 1) < 2 ^ 64" using assms(1) by simp
  moreover have "of_nat (unat v + (2 ^ k - 1)) = v + (2 ^ k - 1)" unfolding of_nat_add by (subst of_nat_diff) simp_all
  then have "v + 2 ^ k - 1 = of_nat (unat v + (2 ^ k - 1))" by (simp add: algebra_simps)
  ultimately have "unat (v + 2 ^ k - 1) = unat v + (2 ^ k - 1)" by (simp only:) (rule unat_of_nat_64, simp)
  then show ?thesis by (simp add: align_up_def and_not_low unat_push_drop)
qed

text \<open>The least multiple above, the greatest below.\<close>

lemma align_up_least:
  assumes "unat v \<le> 2 ^ 36" and "k \<le> 62"
  shows "2 ^ k dvd unat (align_up v (2 ^ k))" and "unat v \<le> unat (align_up v (2 ^ k))"
    and "\<And>w. unat v \<le> w \<Longrightarrow> 2 ^ k dvd w \<Longrightarrow> unat (align_up v (2 ^ k)) \<le> w"
proof -
  let ?m = "(2 :: nat) ^ k"
  have pos: "0 < ?m" by simp
  note e = unat_align_up [OF assms]
  show "?m dvd unat (align_up v (2 ^ k))" by (simp add: e)
  have "unat v + (?m - 1) = (unat v + (?m - 1)) div ?m * ?m + (unat v + (?m - 1)) mod ?m"
    by (rule div_mult_mod_eq [symmetric])
  moreover have "(unat v + (?m - 1)) mod ?m < ?m" by simp
  ultimately show "unat v \<le> unat (align_up v (2 ^ k))" unfolding e by linarith
  fix w assume w: "unat v \<le> w" "?m dvd w"
  then obtain c where c: "w = c * ?m" by (metis dvd_def mult.commute)
  have "(unat v + (?m - 1)) div ?m \<le> (c * ?m + (?m - 1)) div ?m" using w(1) c by (intro div_le_mono) simp
  also have "\<dots> = c" using pos by (subst div_mult_self3) simp_all
  finally show "unat (align_up v (2 ^ k)) \<le> w" by (simp add: e c)
qed

lemma align_down_greatest:
  shows "2 ^ k dvd unat (align_down v (2 ^ k))" and "unat (align_down v (2 ^ k)) \<le> unat v"
    and "\<And>w. w \<le> unat v \<Longrightarrow> 2 ^ k dvd w \<Longrightarrow> w \<le> unat (align_down v (2 ^ k))"
proof -
  let ?m = "(2 :: nat) ^ k"
  show "?m dvd unat (align_down v (2 ^ k))" "unat (align_down v (2 ^ k)) \<le> unat v"
    by (simp_all add: unat_align_down)
  fix w assume w: "w \<le> unat v" "?m dvd w"
  then obtain c where c: "w = c * ?m" by (metis dvd_def mult.commute)
  have "c = (c * ?m) div ?m" by simp
  also have "\<dots> \<le> unat v div ?m" using w(1) c by (intro div_le_mono) simp
  finally show "w \<le> unat (align_down v (2 ^ k))" by (simp add: unat_align_down c)
qed

section \<open>Traversals are scans\<close>

fun scan_up :: "vad_store \<Rightarrow> u64 \<Rightarrow> u64 \<Rightarrow> nat list \<Rightarrow> u64 \<Rightarrow> u64 + u64" where
  "scan_up h n al [] c = Inr c"
| "scan_up h n al (a # xs) c =
     (if align_up c al < starting_vpn (h a) \<and> n \<le> starting_vpn (h a) - align_up c al then Inl (align_up c al)
      else scan_up h n al xs (ending_vpn (h a) + 1))"

lemma scan_up_append:
  "scan_up h n al (xs @ ys) c = (case scan_up h n al xs c of Inl g \<Rightarrow> Inl g | Inr d \<Rightarrow> scan_up h n al ys d)"
  by (induction xs arbitrary: c) auto

lemma gap_up_tree:
  assumes "vtree h par p t" and "length stk + height t \<le> 64"
  shows "gap_up h n al hi stk p c =
    (case scan_up h n al (inorder t) c of Inl g \<Rightarrow> Some (push_bit VPN_SHIFT g) | Inr d \<Rightarrow> gap_up h n al hi stk 0 d)"
  using assms
proof (induction t arbitrary: par p stk c)
  case (Node l a r)
  have p: "p = a" "a \<noteq> 0" and l: "vtree h a (left_child (h a)) l" and r: "vtree h a (right_child (h a)) r"
    using Node.prems(1) by simp_all
  have len: "length (a # stk) + height l \<le> 64" "length stk + height r \<le> 64" using Node.prems(2) by auto
  have 1: "gap_up h n al hi stk p c = gap_up h n al hi (a # stk) (left_child (h a)) c"
    using p len by (subst gap_up.simps) simp
  have 2: "gap_up h n al hi (a # stk) 0 d =
    (if align_up d al < starting_vpn (h a) \<and> n \<le> starting_vpn (h a) - align_up d al then Some (push_bit VPN_SHIFT (align_up d al))
     else gap_up h n al hi stk (right_child (h a)) (ending_vpn (h a) + 1))" for d
    by (subst gap_up.simps) simp
  show ?case
    unfolding 1 Node.IH(1) [OF l len(1)] by (auto simp: scan_up_append 2 Node.IH(2) [OF r len(2)] split: sum.split)
qed simp

fun scan_down :: "vad_store \<Rightarrow> u64 \<Rightarrow> u64 \<Rightarrow> u64 \<Rightarrow> nat list \<Rightarrow> u64 \<Rightarrow> u64 + u64" where
  "scan_down h n al lo [] c = Inr c"
| "scan_down h n al lo (a # xs) c =
     (case top_candidate n al lo (ending_vpn (h a) + 1) c of Some r \<Rightarrow> Inl r
      | None \<Rightarrow> scan_down h n al lo xs (starting_vpn (h a)))"

lemma scan_down_append:
  "scan_down h n al lo (xs @ ys) c =
     (case scan_down h n al lo xs c of Inl g \<Rightarrow> Inl g | Inr d \<Rightarrow> scan_down h n al lo ys d)"
  by (induction xs arbitrary: c) (auto split: option.split)

lemma gap_down_tree:
  assumes "vtree h par p t" and "length stk + height t \<le> 64"
  shows "gap_down h n al lo stk p c =
    (case scan_down h n al lo (rev (inorder t)) c of Inl r \<Rightarrow> Some r | Inr d \<Rightarrow> gap_down h n al lo stk 0 d)"
  using assms
proof (induction t arbitrary: par p stk c)
  case (Node l a r)
  have p: "p = a" "a \<noteq> 0" and l: "vtree h a (left_child (h a)) l" and r: "vtree h a (right_child (h a)) r"
    using Node.prems(1) by simp_all
  have len: "length stk + height l \<le> 64" "length (a # stk) + height r \<le> 64" using Node.prems(2) by auto
  have 1: "gap_down h n al lo stk p c = gap_down h n al lo (a # stk) (right_child (h a)) c"
    using p len by (subst gap_down.simps) simp
  have 2: "gap_down h n al lo (a # stk) 0 d =
    (case top_candidate n al lo (ending_vpn (h a) + 1) d of Some x \<Rightarrow> Some x
     | None \<Rightarrow> gap_down h n al lo stk (left_child (h a)) (starting_vpn (h a)))" for d
    by (subst gap_down.simps) (simp split: option.split)
  show ?case
    unfolding 1 Node.IH(2) [OF r len(2)]
    by (auto simp: scan_down_append 2 Node.IH(1) [OF l len(1)] split: sum.split option.split)
qed simp

section \<open>Free places\<close>

text \<open>\<open>n\<close> pages from \<open>st\<close> on touch no range of the nodes \<open>A\<close>.\<close>

definition room :: "vad_store \<Rightarrow> nat set \<Rightarrow> nat \<Rightarrow> nat \<Rightarrow> bool" where
  "room h A n st \<longleftrightarrow> (\<forall>a \<in> A. st + n \<le> unat (starting_vpn (h a)) \<or> unat (ending_vpn (h a)) < st)"

text \<open>An aligned start of \<open>n\<close> free pages inside \<open>[lo, hi)\<close>.\<close>

definition free_place :: "vad_store \<Rightarrow> nat set \<Rightarrow> nat \<Rightarrow> nat \<Rightarrow> nat \<Rightarrow> nat \<Rightarrow> nat \<Rightarrow> bool" where
  "free_place h A n al lo hi st \<longleftrightarrow> lo \<le> st \<and> st + n \<le> hi \<and> al dvd st \<and> room h A n st"

definition within :: "vad_store \<Rightarrow> nat set \<Rightarrow> nat \<Rightarrow> nat \<Rightarrow> bool" where
  "within h A lo hi \<longleftrightarrow> (\<forall>a \<in> A. lo \<le> unat (starting_vpn (h a)) \<and> unat (ending_vpn (h a)) \<le> hi)"

lemma room_insert: "room h (insert a A) n st \<longleftrightarrow>
    (st + n \<le> unat (starting_vpn (h a)) \<or> unat (ending_vpn (h a)) < st) \<and> room h A n st"
  by (auto simp: room_def)

lemma gap_fits:
  "g < e \<and> n \<le> e - g \<longleftrightarrow> unat g < unat e \<and> unat g + unat n \<le> unat (e :: u64)"
  by (auto simp: word_less_nat_alt word_le_nat_alt unat_sub_if_size)

lemma unat_succ: "unat (e :: u64) \<le> 2 ^ 36 \<Longrightarrow> unat (e + 1) = unat e + 1"
  using unat_of_nat_64 [of "unat e + 1"] by (simp add: add.commute)

lemma scan_up_first:
  assumes "k \<le> 62" and "0 < unat n" and "ranges_ok h xs" and "within h (set xs) (unat c) M" and "M < 2 ^ 36" and "unat c \<le> 2 ^ 36"
  shows "case scan_up h n (2 ^ k) xs c of
      Inl g \<Rightarrow> free_place h (set xs) (unat n) (2 ^ k) (unat c) M (unat g) \<and>
        (\<forall>st. unat c \<le> st \<and> 2 ^ k dvd st \<and> room h (set xs) (unat n) st \<longrightarrow> unat g \<le> st)
    | Inr d \<Rightarrow> unat c \<le> unat d \<and> unat d \<le> 2 ^ 36 \<and> (\<forall>a \<in> set xs. unat (ending_vpn (h a)) < unat d) \<and>
        (\<forall>st. unat c \<le> st \<and> 2 ^ k dvd st \<and> room h (set xs) (unat n) st \<longrightarrow> unat d \<le> st)"
  using assms(3-6)
proof (induction xs arbitrary: c)
  case (Cons a xs)
  let ?g = "align_up c (2 ^ k)" and ?s = "unat (starting_vpn (h a))" and ?e = "unat (ending_vpn (h a))"
  note al = align_up_least [OF Cons.prems(4) assms(1)]
  have a: "?s \<le> ?e" "?e \<le> M" "unat c \<le> ?s" using Cons.prems(1,2) by (auto simp: ranges_ok_Cons within_def word_le_nat_alt)
  have above: "?e < unat (starting_vpn (h b))" if "b \<in> set xs" for b
    using Cons.prems(1) that by (auto simp: ranges_ok_Cons word_less_nat_alt)
  have xs: "ranges_ok h xs" "within h (set xs) (?e + 1) M"
    using Cons.prems(1,2) above by (auto simp: ranges_ok_Cons within_def Suc_le_eq)
  show ?case
  proof (cases "?g < starting_vpn (h a) \<and> n \<le> starting_vpn (h a) - ?g")
    case True
    then have g: "unat ?g + unat n \<le> ?s" by (simp add: gap_fits)
    have "room h (set xs) (unat n) (unat ?g)" using g above a(1) by (fastforce simp: room_def)
    then show ?thesis using True g al a by (auto simp: free_place_def room_insert)
  next
    case False
    have e1: "unat (ending_vpn (h a) + 1) = ?e + 1" using a(2) assms(5) by (intro unat_succ) simp
    have no: "?e + 1 \<le> st" if "unat c \<le> st" "2 ^ k dvd st" "room h (set (a # xs)) (unat n) st" for st
    proof -
      have "unat ?g \<le> st" using al(3) that by blast
      then have "\<not> st + unat n \<le> ?s" using False assms(2) by (auto simp: gap_fits)
      then show ?thesis using that(3) by (auto simp: room_def)
    qed
    have step: "scan_up h n (2 ^ k) (a # xs) c = scan_up h n (2 ^ k) xs (ending_vpn (h a) + 1)" using False by auto
    have b: "unat (ending_vpn (h a) + 1) \<le> 2 ^ 36" using e1 a(2) assms(5) by simp
    have IH: "case scan_up h n (2 ^ k) xs (ending_vpn (h a) + 1) of
      Inl g \<Rightarrow> free_place h (set xs) (unat n) (2 ^ k) (?e + 1) M (unat g) \<and>
        (\<forall>st. ?e + 1 \<le> st \<and> 2 ^ k dvd st \<and> room h (set xs) (unat n) st \<longrightarrow> unat g \<le> st)
    | Inr d \<Rightarrow> ?e + 1 \<le> unat d \<and> unat d \<le> 2 ^ 36 \<and> (\<forall>a \<in> set xs. unat (ending_vpn (h a)) < unat d) \<and>
        (\<forall>st. ?e + 1 \<le> st \<and> 2 ^ k dvd st \<and> room h (set xs) (unat n) st \<longrightarrow> unat d \<le> st)"
      using Cons.IH [of "ending_vpn (h a) + 1"] xs assms(5) b unfolding e1 by simp
    have r: "room h (set (a # xs)) (unat n) st \<Longrightarrow> room h (set xs) (unat n) st" for st by (simp add: room_def)
    show ?thesis
    proof (cases "scan_up h n (2 ^ k) xs (ending_vpn (h a) + 1)")
      case (Inl g)
      then have "?e + 1 \<le> unat g" "free_place h (set xs) (unat n) (2 ^ k) (?e + 1) M (unat g)"
        using IH by (simp_all add: free_place_def)
      then have "free_place h (set (a # xs)) (unat n) (2 ^ k) (unat c) M (unat g)"
        using a by (simp add: free_place_def room_insert)
      moreover have "unat g \<le> st" if "unat c \<le> st" "2 ^ k dvd st" "room h (set (a # xs)) (unat n) st" for st
        using IH Inl no [OF that] that r by auto
      ultimately show ?thesis by (simp only: step Inl sum.case) blast
    next
      case (Inr d)
      have "unat d \<le> st" if "unat c \<le> st" "2 ^ k dvd st" "room h (set (a # xs)) (unat n) st" for st
        using IH Inr no [OF that] that r by auto
      moreover have "unat c \<le> unat d" "unat d \<le> 2 ^ 36" "\<forall>b \<in> set (a # xs). unat (ending_vpn (h b)) < unat d"
        using IH Inr a by auto
      ultimately show ?thesis by (simp only: step Inr sum.case) blast
    qed
  qed
qed simp

section \<open>The stack is deep enough\<close>

text \<open>An AVL tree of height \<open>h\<close> has at least \<open>min_size h 1 2 - 1\<close> nodes.\<close>

primrec min_size :: "nat \<Rightarrow> nat \<Rightarrow> nat \<Rightarrow> nat" where
  "min_size 0 a b = a"
| "min_size (Suc n) a b = min_size n b (a + b)"

lemma min_size_Suc: "min_size (Suc (Suc n)) a b = min_size (Suc n) a b + min_size n a b"
proof (induction n arbitrary: a b)
  case (Suc n)
  show ?case using Suc [of b "a + b"] by simp
qed simp

lemma min_size_step: "min_size (Suc h) 1 2 \<le> min_size h 1 2 + min_size (h - 1) 1 2"
  by (cases h) (simp_all only: min_size_Suc, simp_all)

lemma min_size_mono: "m \<le> n \<Longrightarrow> min_size m 1 2 \<le> min_size n 1 2"
proof (induction n)
  case (Suc n)
  have "min_size n 1 2 \<le> min_size (Suc n) 1 2" by (cases n) (simp_all only: min_size_Suc, simp_all)
  moreover have "m = Suc n \<or> m \<le> n" using Suc.prems by auto
  ultimately show ?case using Suc.IH by (auto simp del: min_size.simps)
qed simp

lemma avl_min_size: "avl t \<Longrightarrow> min_size (height t) 1 2 \<le> size t + 1"
proof (induction t)
  case (Node l a r)
  have l: "min_size (height l) 1 2 \<le> size l + 1" and r: "min_size (height r) 1 2 \<le> size r + 1"
    using Node by simp_all
  show ?case
  proof (cases "height l \<le> height r")
    case True
    then have "height r - 1 \<le> height l" using Node.prems by auto
    then have "min_size (height r - 1) 1 2 \<le> size l + 1" using min_size_mono l order_trans by blast
    then show ?thesis using min_size_step [of "height r"] r True by (simp add: max_absorb2 del: min_size.simps)
  next
    case False
    then have "height l - 1 \<le> height r" using Node.prems by auto
    then have "min_size (height l - 1) 1 2 \<le> size r + 1" using min_size_mono r order_trans by blast
    then show ?thesis using min_size_step [of "height l"] l False by (simp add: max_absorb1 del: min_size.simps)
  qed
qed simp

lemma min_size_numeral: "min_size (numeral k) a b = min_size (pred_numeral k) b (a + b)"
  by (simp add: numeral_eq_Suc)

lemma min_size_65: "2 ^ 36 + 1 < min_size 65 1 2"
  by (simp add: min_size_numeral)

lemma ranges_distinct_starts:
  assumes "ranges_ok h xs" shows "distinct (map (\<lambda>a. unat (starting_vpn (h a))) xs)"
  using assms
proof (induction xs)
  case (Cons a xs)
  have "unat (starting_vpn (h a)) < unat (starting_vpn (h b))" if "b \<in> set xs" for b
    using Cons.prems that by (fastforce simp: ranges_ok_Cons word_less_nat_alt word_le_nat_alt)
  then have "unat (starting_vpn (h a)) \<notin> (\<lambda>a. unat (starting_vpn (h a))) ` set xs" by fastforce
  then show ?case using Cons by (simp add: ranges_ok_Cons)
qed simp

lemma vad_height:
  assumes "vad_inv s T" and "within (vads s) (set_tree T) lo hi" and "hi < 2 ^ 36"
  shows "height T \<le> 64"
proof -
  have r: "ranges_ok (vads s) (inorder T)" and a: "avl T" using assms(1) by (simp_all add: vad_inv_def vad_shape_def)
  let ?starts = "map (\<lambda>a. unat (starting_vpn (vads s a))) (inorder T)"
  have "unat (starting_vpn (vads s a)) < 2 ^ 36" if "a \<in> set_tree T" for a
    using that r assms(2,3) by (fastforce simp: within_def ranges_ok_def word_le_nat_alt)
  then have "set ?starts \<subseteq> {..< 2 ^ 36}" by auto
  then have "card (set ?starts) \<le> 2 ^ 36" using card_mono [of "{..< 2 ^ 36}" "set ?starts"] by simp
  then have "size T \<le> 2 ^ 36" using distinct_card [OF ranges_distinct_starts [OF r]] by simp
  then show ?thesis using avl_min_size [OF a] min_size_mono [of 65 "height T"] min_size_65 by linarith
qed

section \<open>The gap searches\<close>

lemma unat_page: "unat g < 2 ^ 52 \<Longrightarrow> unat (push_bit VPN_SHIFT g :: u64) = unat g * 4096"
  using unat_of_nat_64 [of "unat g * 4096"] by (simp add: VPN_SHIFT_def push_bit_eq_mult)

lemma gap_bottom_up:
  assumes "vad_inv s T" and "within (vads s) (set_tree T) (unat lo) (unat hi)" and "unat hi < 2 ^ 36" and "unat lo \<le> unat hi"
    and "k \<le> 62" and "0 < unat n" and "0 < unat lo"
  obtains (full) "mi_find_gap_bottom_up s n (2 ^ k) lo hi = Some 0"
      "\<And>st. \<not> free_place (vads s) (set_tree T) (unat n) (2 ^ k) (unat lo) (unat hi) st"
    | (found) r st where "mi_find_gap_bottom_up s n (2 ^ k) lo hi = Some r" "unat r = st * 4096" "r \<noteq> 0"
      "free_place (vads s) (set_tree T) (unat n) (2 ^ k) (unat lo) (unat hi) st"
      "\<And>st'. free_place (vads s) (set_tree T) (unat n) (2 ^ k) (unat lo) (unat hi) st' \<Longrightarrow> st \<le> st'"
proof -
  have vt: "vtree (vads s) 0 (root s) T" and r: "ranges_ok (vads s) (inorder T)"
    using assms(1) by (simp_all add: vad_inv_def vad_shape_def rep_def)
  have len: "length [] + height T \<le> 64" using vad_height [OF assms(1-3)] by simp
  have run: "mi_find_gap_bottom_up s n (2 ^ k) lo hi = (case scan_up (vads s) n (2 ^ k) (inorder T) lo of
      Inl g \<Rightarrow> Some (push_bit VPN_SHIFT g)
    | Inr d \<Rightarrow> Some (if align_up d (2 ^ k) < hi \<and> n \<le> hi - align_up d (2 ^ k) then push_bit VPN_SHIFT (align_up d (2 ^ k)) else 0))"
    unfolding mi_find_gap_bottom_up_def gap_up_tree [OF vt len] by (auto simp: gap_up.simps split: sum.split)
  have w: "within (vads s) (set (inorder T)) (unat lo) (unat hi)" using assms(2) by simp
  have lo: "unat lo \<le> 2 ^ 36" using assms(3,4) by simp
  note scan = scan_up_first [OF assms(5,6) r w assms(3) lo, unfolded set_inorder]
  have page: "unat (push_bit VPN_SHIFT g) = unat g * 4096 \<and> push_bit VPN_SHIFT g \<noteq> 0"
    if "free_place (vads s) (set_tree T) (unat n) (2 ^ k) (unat lo) (unat hi) (unat g)" for g :: u64
  proof -
    have "unat g < 2 ^ 52" "0 < unat g" using that assms(3,7) by (auto simp: free_place_def)
    then have "unat (push_bit VPN_SHIFT g) = unat g * 4096" using unat_page by blast
    then show ?thesis using \<open>0 < unat g\<close> by (metis mult_is_0 neq0_conv unat_0 zero_neq_numeral)
  qed
  show ?thesis
  proof (cases "scan_up (vads s) n (2 ^ k) (inorder T) lo")
    case (Inl g)
    then have g: "free_place (vads s) (set_tree T) (unat n) (2 ^ k) (unat lo) (unat hi) (unat g)"
      and least: "\<And>st. unat lo \<le> st \<Longrightarrow> 2 ^ k dvd st \<Longrightarrow> room (vads s) (set_tree T) (unat n) st \<Longrightarrow> unat g \<le> st"
      using scan by auto
    show ?thesis
      by (rule found [of "push_bit VPN_SHIFT g" "unat g"])
         (use run Inl page [OF g] g least in \<open>auto simp: free_place_def\<close>)
  next
    case (Inr d)
    then have d: "unat lo \<le> unat d" "unat d \<le> 2 ^ 36" "\<And>a. a \<in> set_tree T \<Longrightarrow> unat (ending_vpn (vads s a)) < unat d"
      and least: "\<And>st. unat lo \<le> st \<Longrightarrow> 2 ^ k dvd st \<Longrightarrow> room (vads s) (set_tree T) (unat n) st \<Longrightarrow> unat d \<le> st"
      using scan by auto
    let ?g = "align_up d (2 ^ k)"
    note al = align_up_least [OF d(2) assms(5)]
    have least': "unat ?g \<le> st" if "free_place (vads s) (set_tree T) (unat n) (2 ^ k) (unat lo) (unat hi) st" for st
      using that least al(3) by (auto simp: free_place_def)
    show ?thesis
    proof (cases "?g < hi \<and> n \<le> hi - ?g")
      case True
      then have "unat ?g + unat n \<le> unat hi" by (simp add: gap_fits)
      moreover have "room (vads s) (set_tree T) (unat n) (unat ?g)" using d(3) al(2) by (fastforce simp: room_def)
      ultimately have g: "free_place (vads s) (set_tree T) (unat n) (2 ^ k) (unat lo) (unat hi) (unat ?g)"
        using d(1) al(1,2) by (simp add: free_place_def)
      show ?thesis
        by (rule found [of "push_bit VPN_SHIFT ?g" "unat ?g"]) (use run Inr True page [OF g] g least' in auto)
    next
      case False
      then have "\<not> free_place (vads s) (set_tree T) (unat n) (2 ^ k) (unat lo) (unat hi) st" for st
        using least' [of st] assms(6) by (auto simp: gap_fits free_place_def)
      then show ?thesis using full run Inr False by auto
    qed
  qed
qed

lemma push_mono: "unat g < 2 ^ 52 \<Longrightarrow> lo \<le> g \<Longrightarrow> push_bit VPN_SHIFT lo \<le> (push_bit VPN_SHIFT g :: u64)"
  using unat_page [of g] unat_page [of lo] by (auto simp: word_le_nat_alt)

lemma top_candidate_greatest:
  assumes "unat gs \<le> 2 ^ 36" and "unat c \<le> 2 ^ 36" and "k \<le> 62" and "0 < unat n" and "0 < unat lo" and "unat lo \<le> unat gs"
  shows "case top_candidate n (2 ^ k) lo gs c of
      Some r \<Rightarrow> \<exists>st. unat r = st * 4096 \<and> r \<noteq> 0 \<and> unat gs \<le> st \<and> st + unat n \<le> unat c \<and> 2 ^ k dvd st \<and>
        (\<forall>st'. 2 ^ k dvd st' \<and> st' + unat n \<le> unat c \<longrightarrow> st' \<le> st)
    | None \<Rightarrow> \<forall>st. \<not> (unat gs \<le> st \<and> st + unat n \<le> unat c \<and> 2 ^ k dvd st)"
proof (cases "align_up gs (2 ^ k) < c \<and> n \<le> c - align_up gs (2 ^ k)")
  case True
  let ?u = "align_up gs (2 ^ k)" and ?d = "align_down (c - n) (2 ^ k)"
  have u: "unat ?u + unat n \<le> unat c" using True by (simp add: gap_fits)
  note up = align_up_least [OF assms(1,3)] and down = align_down_greatest [where v = "c - n" and k = k]
  have cn: "unat (c - n) = unat c - unat n" using u by (simp add: unat_sub_if_size word_le_nat_alt)
  have ge: "unat ?u \<le> unat ?d" using u cn by (intro down(3) up(1)) simp
  have b: "unat ?d < 2 ^ 52" "0 < unat ?d" "lo \<le> ?d"
    using down(2) cn assms(2,5,6) up(2) ge by (simp_all add: word_le_nat_alt)
  have "top_candidate n (2 ^ k) lo gs c = Some (push_bit VPN_SHIFT ?d)"
    using True push_mono [OF b(1,3)] by (simp add: top_candidate_def Let_def)
  moreover have "unat (push_bit VPN_SHIFT ?d) = unat ?d * 4096" by (rule unat_page [OF b(1)])
  moreover from this have "push_bit VPN_SHIFT ?d \<noteq> 0" using b(2) by (metis mult_is_0 neq0_conv unat_0 zero_neq_numeral)
  moreover have "\<forall>st'. 2 ^ k dvd st' \<and> st' + unat n \<le> unat c \<longrightarrow> st' \<le> unat ?d"
    by (intro allI impI down(3)) (auto simp: cn)
  moreover have "unat gs \<le> unat ?d" "unat ?d + unat n \<le> unat c" using up(2) ge down(2) cn u by linarith+
  ultimately show ?thesis using down(1) by (intro option.case_eq_if [THEN iffD2]) auto
next
  case False
  then have "top_candidate n (2 ^ k) lo gs c = None" by (auto simp: top_candidate_def Let_def)
  moreover have "\<not> (unat gs \<le> st \<and> st + unat n \<le> unat c \<and> 2 ^ k dvd st)" for st
    using False align_up_least(3) [OF assms(1,3), of st] assms(4) by (auto simp: gap_fits)
  ultimately show ?thesis by simp
qed

lemma scan_down_last:
  assumes "k \<le> 62" and "0 < unat n" and "0 < unat lo" and "ranges_ok h (rev ys)" and "within h (set ys) (unat lo) (unat c)"
    and "unat c < 2 ^ 36"
  shows "case scan_down h n (2 ^ k) lo ys c of
      Inl r \<Rightarrow> \<exists>st. unat r = st * 4096 \<and> r \<noteq> 0 \<and> free_place h (set ys) (unat n) (2 ^ k) (unat lo) (unat c) st \<and>
        (\<forall>st'. free_place h (set ys) (unat n) (2 ^ k) (unat lo) (unat c) st' \<longrightarrow> st' \<le> st)
    | Inr d \<Rightarrow> unat d \<le> unat c \<and> (\<forall>a \<in> set ys. unat d \<le> unat (starting_vpn (h a))) \<and>
        (\<forall>st. free_place h (set ys) (unat n) (2 ^ k) (unat lo) (unat c) st \<longrightarrow> st + unat n \<le> unat d)"
  using assms(4-6)
proof (induction ys arbitrary: c)
  case Nil
  then show ?case by (simp add: free_place_def)
next
  case (Cons a ys)
  let ?s = "unat (starting_vpn (h a))" and ?e = "unat (ending_vpn (h a))"
  have a: "?s \<le> ?e" "?e \<le> unat c" "unat lo \<le> ?s" "?s \<le> unat c"
    using Cons.prems(1,2) by (auto simp: ranges_simps within_def word_le_nat_alt)
  have below: "unat (ending_vpn (h b)) < ?s" if "b \<in> set ys" for b
    using Cons.prems(1) that by (auto simp: ranges_simps word_less_nat_alt)
  have ys: "ranges_ok h (rev ys)" "within h (set ys) (unat lo) ?s"
    using Cons.prems(1,2) below by (auto simp: ranges_simps within_def less_imp_le)
  have e1: "unat (ending_vpn (h a) + 1) = ?e + 1" using a(2) Cons.prems(3) by (intro unat_succ) simp
  have "unat (ending_vpn (h a) + 1) \<le> 2 ^ 36" "unat c \<le> 2 ^ 36" "unat lo \<le> unat (ending_vpn (h a) + 1)"
    using e1 a Cons.prems(3) by simp_all
  note top = top_candidate_greatest [OF this(1,2) assms(1-3) this(3), unfolded e1]
  show ?case
  proof (cases "top_candidate n (2 ^ k) lo (ending_vpn (h a) + 1) c")
    case (Some r)
    then obtain st where st: "unat r = st * 4096" "r \<noteq> 0" "?e + 1 \<le> st" "st + unat n \<le> unat c" "2 ^ k dvd st"
      "\<And>st'. 2 ^ k dvd st' \<Longrightarrow> st' + unat n \<le> unat c \<Longrightarrow> st' \<le> st" using top by auto
    have "room h (set ys) (unat n) st" using below a(1) st(3) by (fastforce simp: room_def)
    then have "free_place h (set (a # ys)) (unat n) (2 ^ k) (unat lo) (unat c) st"
      using st a by (simp add: free_place_def room_insert)
    moreover have "\<forall>st'. free_place h (set (a # ys)) (unat n) (2 ^ k) (unat lo) (unat c) st' \<longrightarrow> st' \<le> st"
      using st(6) by (simp add: free_place_def)
    ultimately show ?thesis using Some st(1,2) by auto
  next
    case None
    have step: "scan_down h n (2 ^ k) lo (a # ys) c = scan_down h n (2 ^ k) lo ys (starting_vpn (h a))" using None by simp
    have sub: "free_place h (set (a # ys)) (unat n) (2 ^ k) (unat lo) (unat c) st \<longleftrightarrow>
        free_place h (set ys) (unat n) (2 ^ k) (unat lo) ?s st" for st
      using top None a assms(2) by (fastforce simp: free_place_def room_insert)
    have "?s < 2 ^ 36" using a Cons.prems(3) by simp
    note IH = Cons.IH [OF ys(1) ys(2) this]
    show ?thesis unfolding step sub using IH a(4) by (auto split: sum.split_asm sum.split)
  qed
qed

text \<open>Common to both searches: the answer is 0 or a free place, the best by the order \<open>better\<close>.\<close>

definition best_place :: "MM_AVL_TABLE \<Rightarrow> nat tree \<Rightarrow> (nat \<Rightarrow> nat \<Rightarrow> bool) \<Rightarrow> nat \<Rightarrow> nat \<Rightarrow> nat \<Rightarrow> nat \<Rightarrow> u64 \<Rightarrow> bool" where
  "best_place s T better n al lo hi r \<longleftrightarrow>
     (if r = 0 then \<forall>st. \<not> free_place (vads s) (set_tree T) n al lo hi st
      else \<exists>st. unat r = st * 4096 \<and> free_place (vads s) (set_tree T) n al lo hi st \<and>
             (\<forall>st'. free_place (vads s) (set_tree T) n al lo hi st' \<longrightarrow> better st st'))"

lemma gap_bottom_up_best:
  assumes "vad_inv s T" and "within (vads s) (set_tree T) (unat lo) (unat hi)" and "unat hi < 2 ^ 36" and "unat lo \<le> unat hi"
    and "k \<le> 62" and "0 < unat n" and "0 < unat lo"
  shows "\<exists>r. mi_find_gap_bottom_up s n (2 ^ k) lo hi = Some r \<and>
    best_place s T (\<le>) (unat n) (2 ^ k) (unat lo) (unat hi) r"
  by (rule gap_bottom_up [OF assms]) (auto simp: best_place_def)

lemma gap_top_down_best:
  assumes "vad_inv s T" and "within (vads s) (set_tree T) (unat lo) (unat hi)" and "unat hi < 2 ^ 36" and "unat lo \<le> unat hi"
    and "k \<le> 62" and "0 < unat n" and "0 < unat lo"
  shows "\<exists>r. mi_find_gap_top_down s n (2 ^ k) lo hi = Some r \<and>
    best_place s T (\<ge>) (unat n) (2 ^ k) (unat lo) (unat hi) r"
proof -
  have vt: "vtree (vads s) 0 (root s) T" and r: "ranges_ok (vads s) (rev (rev (inorder T)))"
    using assms(1) by (simp_all add: vad_inv_def vad_shape_def rep_def)
  have len: "length [] + height T \<le> 64" using vad_height [OF assms(1-3)] by simp
  have run: "mi_find_gap_top_down s n (2 ^ k) lo hi = (case scan_down (vads s) n (2 ^ k) lo (rev (inorder T)) hi of
      Inl r \<Rightarrow> Some r
    | Inr d \<Rightarrow> Some (case top_candidate n (2 ^ k) lo lo d of Some x \<Rightarrow> x | None \<Rightarrow> 0))"
    unfolding mi_find_gap_top_down_def gap_down_tree [OF vt len] by (auto simp: gap_down.simps split: sum.split)
  have w: "within (vads s) (set (rev (inorder T))) (unat lo) (unat hi)" using assms(2) by simp
  note scan = scan_down_last [OF assms(5-7) r w assms(3), unfolded set_rev set_inorder]
  show ?thesis
  proof (cases "scan_down (vads s) n (2 ^ k) lo (rev (inorder T)) hi")
    case (Inl r)
    then show ?thesis using scan run by (auto simp: best_place_def)
  next
    case (Inr d)
    then have d: "unat d \<le> unat hi" "\<And>a. a \<in> set_tree T \<Longrightarrow> unat d \<le> unat (starting_vpn (vads s a))"
      and last: "\<And>st. free_place (vads s) (set_tree T) (unat n) (2 ^ k) (unat lo) (unat hi) st \<Longrightarrow> st + unat n \<le> unat d"
      using scan by auto
    have "unat lo \<le> 2 ^ 36" "unat d \<le> 2 ^ 36" using assms(3,4) d(1) by simp_all
    note top = top_candidate_greatest [OF this assms(5-7) order_refl]
    show ?thesis
    proof (cases "top_candidate n (2 ^ k) lo lo d")
      case None
      then have "\<not> free_place (vads s) (set_tree T) (unat n) (2 ^ k) (unat lo) (unat hi) st" for st
        using top last [of st] by (auto simp: free_place_def)
      then show ?thesis using run Inr None by (simp add: best_place_def)
    next
      case (Some r)
      then obtain st where st: "unat r = st * 4096" "r \<noteq> 0" "unat lo \<le> st" "st + unat n \<le> unat d" "2 ^ k dvd st"
        "\<And>st'. 2 ^ k dvd st' \<Longrightarrow> st' + unat n \<le> unat d \<Longrightarrow> st' \<le> st" using top by auto
      have "st + unat n \<le> unat (starting_vpn (vads s a))" if "a \<in> set_tree T" for a
        using st(4) d(2) [OF that] by simp
      then have "free_place (vads s) (set_tree T) (unat n) (2 ^ k) (unat lo) (unat hi) st"
        using st d(1) by (simp add: free_place_def room_def)
      moreover have "st' \<le> st" if "free_place (vads s) (set_tree T) (unat n) (2 ^ k) (unat lo) (unat hi) st'" for st'
        using st(6) last [OF that] that by (simp add: free_place_def)
      ultimately show ?thesis using run Inr Some st(1,2) by (auto simp: best_place_def)
    qed
  qed
qed

section \<open>Conflicts\<close>

fun scan_conflict :: "vad_store \<Rightarrow> u64 \<Rightarrow> u64 \<Rightarrow> nat list \<Rightarrow> bool option" where
  "scan_conflict h lo hi [] = None"
| "scan_conflict h lo hi (a # xs) =
     (if starting_vpn (h a) \<le> hi \<and> lo \<le> ending_vpn (h a) then Some True
      else if hi < starting_vpn (h a) then Some False
      else scan_conflict h lo hi xs)"

lemma scan_conflict_append:
  "scan_conflict h lo hi (xs @ ys) = (case scan_conflict h lo hi xs of Some b \<Rightarrow> Some b | None \<Rightarrow> scan_conflict h lo hi ys)"
  by (induction xs) auto

lemma conflict_walk_tree:
  assumes "vtree h par p t" and "length stk + height t \<le> 64"
  shows "conflict_walk h lo hi stk p =
    (case scan_conflict h lo hi (inorder t) of Some b \<Rightarrow> Some b | None \<Rightarrow> conflict_walk h lo hi stk 0)"
  using assms
proof (induction t arbitrary: par p stk)
  case (Node l a r)
  have p: "p = a" "a \<noteq> 0" and l: "vtree h a (left_child (h a)) l" and r: "vtree h a (right_child (h a)) r"
    using Node.prems(1) by simp_all
  have len: "length (a # stk) + height l \<le> 64" "length stk + height r \<le> 64" using Node.prems(2) by auto
  have 1: "conflict_walk h lo hi stk p = conflict_walk h lo hi (a # stk) (left_child (h a))"
    using p len by (subst conflict_walk.simps) simp
  have 2: "conflict_walk h lo hi (a # stk) 0 =
    (if starting_vpn (h a) \<le> hi \<and> lo \<le> ending_vpn (h a) then Some True
     else if hi < starting_vpn (h a) then Some False else conflict_walk h lo hi stk (right_child (h a)))"
    by (subst conflict_walk.simps) simp
  show ?case
    unfolding 1 Node.IH(1) [OF l len(1)] by (auto simp: scan_conflict_append 2 Node.IH(2) [OF r len(2)] split: option.split)
qed simp

lemma scan_conflict_overlaps:
  assumes "ranges_ok h xs"
  shows "(case scan_conflict h lo hi xs of Some b \<Rightarrow> b | None \<Rightarrow> False) \<longleftrightarrow> (\<exists>a \<in> set xs. overlaps h lo hi a)"
  using assms
proof (induction xs)
  case (Cons a xs)
  have after: "hi < starting_vpn (h b)" if "b \<in> set xs" "hi < starting_vpn (h a)" for b
  proof -
    have "starting_vpn (h a) \<le> ending_vpn (h a)" "ending_vpn (h a) < starting_vpn (h b)"
      using Cons.prems that(1) by (auto simp: ranges_ok_Cons)
    then show ?thesis using that(2) by order
  qed
  have IH: "(case scan_conflict h lo hi xs of Some b \<Rightarrow> b | None \<Rightarrow> False) \<longleftrightarrow> (\<exists>a \<in> set xs. overlaps h lo hi a)"
    using Cons by (simp add: ranges_ok_Cons)
  show ?case
  proof (cases "hi < starting_vpn (h a)")
    case True
    then have "\<not> overlaps h lo hi b" if "b \<in> set (a # xs)" for b using that after True by (auto simp: overlaps_def dest: leD)
    then show ?thesis using True by auto
  next
    case False
    then show ?thesis using IH by (simp add: overlaps_def)
  qed
qed simp

end
