(* ===== verification/PageFault.thy ===== *)
theory PageFault
  imports PfnProps VadGap
begin

text \<open>
  Page faults (\<open>mm/pagefault.rs\<close>): the decision tree of \<open>MmAccessFault\<close>, the handlers of the software
  states of an entry, copy on write, prototype entries, and the operations that commit and
  decommit a page. The address space of the current process is its VAD table, none where the
  process or its table is null. An entry is a word of \<open>pte_words\<close> at its address in the recursive
  mapping, and so is a prototype entry. A bug check does not return; the translation buffer is not
  modelled.
\<close>

definition STATUS_ACCESS_VIOLATION :: ntstatus where "STATUS_ACCESS_VIOLATION = 0xC0000005"
definition STATUS_GUARD_PAGE_VIOLATION :: ntstatus where "STATUS_GUARD_PAGE_VIOLATION = 0x80000001"
definition STATUS_IN_PAGE_ERROR :: ntstatus where "STATUS_IN_PAGE_ERROR = 0xC0000006"

definition MM_SYSTEM_RANGE_START :: u64 where "MM_SYSTEM_RANGE_START = 0xFFFF800000000000"

definition PF_PRESENT :: u64 where "PF_PRESENT = 0x1"
definition PF_WRITE :: u64 where "PF_WRITE = 0x2"
definition PF_USER :: u64 where "PF_USER = 0x4"
definition PF_RESERVED :: u64 where "PF_RESERVED = 0x8"

definition PTE_DEMAND_ZERO :: u64 where "PTE_DEMAND_ZERO = 0x2"
definition PTE_TRANSITION :: u64 where "PTE_TRANSITION = 0x4"
definition PTE_PROTO :: u64 where "PTE_PROTO = 0x8"
definition PTE_GUARD :: u64 where "PTE_GUARD = 0x10"

definition MM_READONLY :: u32 where "MM_READONLY = 1"
definition MM_EXECUTE :: u32 where "MM_EXECUTE = 2"
definition MM_EXECUTE_READ :: u32 where "MM_EXECUTE_READ = 3"
definition MM_READWRITE :: u32 where "MM_READWRITE = 4"
definition MM_WRITECOPY :: u32 where "MM_WRITECOPY = 5"
definition MM_EXECUTE_READWRITE :: u32 where "MM_EXECUTE_READWRITE = 6"
definition MM_EXECUTE_WRITECOPY :: u32 where "MM_EXECUTE_WRITECOPY = 7"

datatype fault_result = FaultStatus ntstatus | FaultBugCheck

definition write_pte :: "u64 \<Rightarrow> u64 \<Rightarrow> MM \<Rightarrow> MM" where
  "write_pte a v s = s\<lparr>pte_words := (pte_words s)(a := v)\<rparr>"

definition read_pte :: "MM \<Rightarrow> u64 \<Rightarrow> u64" where "read_pte s a = pte_words s a"

section \<open>Helpers\<close>

definition mi_is_pte_pointer_valid :: "MM \<Rightarrow> u64 \<Rightarrow> bool" where
  "mi_is_pte_pointer_valid s va \<longleftrightarrow>
     (if read_pte s (mm_get_pxe_address va) AND PTE_VALID = 0 then False
      else if read_pte s (mm_get_ppe_address va) AND PTE_VALID = 0 then False
      else if read_pte s (mm_get_pde_address va) AND PTE_VALID = 0 then False
      else True)"

definition mi_software_protection_to_pte :: "u32 \<Rightarrow> u64" where
  "mi_software_protection_to_pte prot =
    (let k = prot AND 0x7;
         flags = (if k = MM_READONLY \<or> k = MM_EXECUTE_READ then 0
                  else if k = MM_READWRITE \<or> k = MM_EXECUTE_READWRITE then PTE_READWRITE
                  else if k = MM_WRITECOPY \<or> k = MM_EXECUTE_WRITECOPY then PTE_WRITECOPY
                  else 0);
         flags = (if prot AND 0x4 = 0 then flags OR PTE_NX else flags)
     in flags OR PTE_USER)"

definition pte_protection :: "u64 \<Rightarrow> u32" where "pte_protection v = ucast (drop_bit 5 v AND 0x1F)"
definition pte_frame :: "u64 \<Rightarrow> u64" where "pte_frame v = drop_bit 12 v AND 0xFFFFFFFFFF"

definition valid_pte :: "u64 \<Rightarrow> u32 \<Rightarrow> u64" where
  "valid_pte p prot = push_bit 12 p OR mi_software_protection_to_pte prot OR PTE_VALID"

definition software_pte :: "u64 \<Rightarrow> u32 \<Rightarrow> u64" where
  "software_pte state prot = state OR push_bit 5 (ucast prot AND 0x1F)"

section \<open>The VAD gate\<close>

datatype VadCheckResult = NotInVad | NotCommitted | StackGuard nat | Committed nat

definition mi_check_vad_for_fault :: "MM_AVL_TABLE option \<Rightarrow> u64 \<Rightarrow> VadCheckResult option" where
  "mi_check_vad_for_fault t va =
    (case t of None \<Rightarrow> Some NotInVad
     | Some tbl \<Rightarrow> Option.bind (mi_find_vad tbl va) (\<lambda>v.
         Some (if v = 0 then NotInVad
               else let k = vad_type (vad_flags (vads tbl v)) in
                 if k = VadPrivateMemory then (if \<not> commit (vad_flags (vads tbl v)) then NotCommitted else Committed v)
                 else if k = VadMapped \<or> k = VadImage then Committed v
                 else NotCommitted)))"

section \<open>Handlers\<close>

definition mi_handle_demand_zero_fault :: "u64 \<Rightarrow> u64 \<Rightarrow> MM \<Rightarrow> ntstatus \<times> MM" where
  "mi_handle_demand_zero_fault pte_ptr pte_val s =
    (case mi_allocate_pfn s of
       (None, s) \<Rightarrow> (STATUS_IN_PAGE_ERROR, s)
     | (Some p, s) \<Rightarrow>
         (STATUS_SUCCESS, write_pte pte_ptr (valid_pte p (pte_protection pte_val)) (mi_zero_physical_page p s)))"

definition mi_handle_stack_growth :: "MM_AVL_TABLE \<Rightarrow> u64 \<Rightarrow> nat \<Rightarrow> MM \<Rightarrow> ntstatus \<times> MM" where
  "mi_handle_stack_growth tbl va vad s =
    (if vad = 0 then (STATUS_ACCESS_VIOLATION, s)
     else let vpn = drop_bit VPN_SHIFT va; v = vads tbl vad in
       if vpn < starting_vpn v \<or> ending_vpn v < vpn then (STATUS_ACCESS_VIOLATION, s)
       else let prot = protection (vad_flags v); pte_ptr = mm_get_pte_address va;
                s = write_pte pte_ptr (software_pte PTE_DEMAND_ZERO prot) s
            in case mi_allocate_pfn s of
                 (None, s) \<Rightarrow> (STATUS_IN_PAGE_ERROR, s)
               | (Some p, s) \<Rightarrow> (STATUS_SUCCESS, write_pte pte_ptr (valid_pte p prot) (mi_zero_physical_page p s)))"

definition fault_back_frame :: "u64 \<Rightarrow> MM \<Rightarrow> MM" where
  "fault_back_frame p s =
    (case get_pfn_entry s p of None \<Rightarrow> s
     | Some e \<Rightarrow>
         get_pfn_entry_mut p (\<lambda>e. e\<lparr>pf_loc := mmlists_code ActiveAndValid, pf_refs := saturating_inc (pf_refs e)\<rparr>)
           (if pf_loc e = mmlists_code StandbyPageList then mi_remove_page_from_list StandbyPageList p s
            else if pf_loc e = mmlists_code ModifiedPageList then mi_remove_page_from_list ModifiedPageList p s
            else s))"

definition mi_handle_transition_fault :: "u64 \<Rightarrow> u64 \<Rightarrow> MM \<Rightarrow> ntstatus \<times> MM" where
  "mi_handle_transition_fault pte_ptr pte_val s =
    (let p = pte_frame pte_val in
     (STATUS_SUCCESS, write_pte pte_ptr (valid_pte p (pte_protection pte_val)) (fault_back_frame p s)))"

definition mi_handle_guard_page_fault :: "u64 \<Rightarrow> u64 \<Rightarrow> MM \<Rightarrow> ntstatus \<times> MM" where
  "mi_handle_guard_page_fault pte_ptr pte_val s =
    (STATUS_GUARD_PAGE_VIOLATION, write_pte pte_ptr (pte_val AND NOT PTE_GUARD) s)"

definition private_copy :: "u64 \<Rightarrow> MMPFN \<Rightarrow> MMPFN" where
  "private_copy pte_ptr e = e\<lparr>pf_loc := mmlists_code ActiveAndValid, pf_refs := 1, pf_share := 1, pf_pte := pte_ptr\<rparr>"

definition mi_perform_cow_for_prototype :: "u64 \<Rightarrow> u64 \<Rightarrow> u64 \<Rightarrow> MM \<Rightarrow> ntstatus \<times> MM" where
  "mi_perform_cow_for_prototype pte_ptr old_pfn proto s =
    (case mi_allocate_pfn s of
       (None, s) \<Rightarrow> (STATUS_IN_PAGE_ERROR, s)
     | (Some p, s) \<Rightarrow>
         (let s = mi_copy_physical_page old_pfn p s;
              s = get_pfn_entry_mut p (private_copy pte_ptr) s;
              preserved = proto AND (PTE_USER OR PTE_NX OR PTE_GLOBAL)
          in (STATUS_SUCCESS, write_pte pte_ptr (push_bit 12 p OR PTE_VALID OR PTE_READWRITE OR preserved) s)))"

definition mi_resolve_valid_prototype :: "u64 \<Rightarrow> u64 \<Rightarrow> bool \<Rightarrow> MM \<Rightarrow> ntstatus \<times> MM" where
  "mi_resolve_valid_prototype pte_ptr proto is_write s =
    (let p = pte_frame proto in
     if is_write \<and> (proto AND PTE_WRITECOPY \<noteq> 0 \<or> proto AND PTE_READWRITE = 0)
     then mi_perform_cow_for_prototype pte_ptr p proto s
     else (STATUS_SUCCESS, write_pte pte_ptr proto
       (get_pfn_entry_mut p (\<lambda>e. e\<lparr>pf_share := saturating_inc (pf_share e)\<rparr>) s)))"

definition mi_resolve_prototype_demand_zero :: "u64 \<Rightarrow> u64 \<Rightarrow> u64 \<Rightarrow> MM \<Rightarrow> ntstatus \<times> MM" where
  "mi_resolve_prototype_demand_zero pte_ptr proto_addr proto s =
    (case mi_allocate_pfn s of
       (None, s) \<Rightarrow> (STATUS_IN_PAGE_ERROR, s)
     | (Some p, s) \<Rightarrow>
         (let new_proto = valid_pte p (pte_protection proto)
          in (STATUS_SUCCESS, write_pte pte_ptr new_proto (write_pte proto_addr new_proto (mi_zero_physical_page p s)))))"

definition mi_resolve_prototype_transition :: "u64 \<Rightarrow> u64 \<Rightarrow> u64 \<Rightarrow> MM \<Rightarrow> ntstatus \<times> MM" where
  "mi_resolve_prototype_transition pte_ptr proto_addr proto s =
    (let new_proto = valid_pte (pte_frame proto) (pte_protection proto)
     in (STATUS_SUCCESS, write_pte pte_ptr new_proto (write_pte proto_addr new_proto s)))"

definition mi_handle_prototype_fault :: "u64 \<Rightarrow> u64 \<Rightarrow> bool \<Rightarrow> MM \<Rightarrow> ntstatus \<times> MM" where
  "mi_handle_prototype_fault pte_ptr pte_val is_write s =
    (let proto_addr = pte_val AND NOT 0xFFF in
     if proto_addr = 0 then (STATUS_ACCESS_VIOLATION, s)
     else let proto = read_pte s proto_addr in
       if proto AND PTE_VALID \<noteq> 0 then mi_resolve_valid_prototype pte_ptr proto is_write s
       else if proto AND PTE_DEMAND_ZERO \<noteq> 0 then mi_resolve_prototype_demand_zero pte_ptr proto_addr proto s
       else if proto AND PTE_TRANSITION \<noteq> 0 then mi_resolve_prototype_transition pte_ptr proto_addr proto s
       else (STATUS_ACCESS_VIOLATION, s))"

definition release_cow_source :: "u64 \<Rightarrow> MM \<Rightarrow> MM" where
  "release_cow_source p s =
    (case get_pfn_entry s p of None \<Rightarrow> s
     | Some e \<Rightarrow>
         (let n = (if 0 < pf_share e then pf_share e - 1 else pf_share e);
              s = put_entry p (\<lambda>e. e\<lparr>pf_share := n\<rparr>) s
          in if n = 0 \<and> pf_refs e = 0 then mi_free_pfn p s else s))"

definition mi_handle_copy_on_write :: "u64 \<Rightarrow> u64 \<Rightarrow> MM \<Rightarrow> ntstatus \<times> MM" where
  "mi_handle_copy_on_write va pte_val s =
    (let old_pfn = pte_frame pte_val in
     case mi_allocate_pfn s of
       (None, s) \<Rightarrow> (STATUS_IN_PAGE_ERROR, s)
     | (Some p, s) \<Rightarrow>
         (let s = mi_copy_physical_page old_pfn p s;
              s = release_cow_source old_pfn s;
              s = get_pfn_entry_mut p (private_copy (mm_get_pte_address va)) s;
              preserved = pte_val AND (PTE_USER OR PTE_NX OR PTE_GLOBAL OR PTE_DISABLE_CACHE)
          in (STATUS_SUCCESS, write_pte (mm_get_pte_address va)
                (push_bit 12 p OR PTE_VALID OR PTE_READWRITE OR preserved) s)))"

definition mi_handle_protection_fault :: "u64 \<Rightarrow> u64 \<Rightarrow> bool \<Rightarrow> MM \<Rightarrow> ntstatus \<times> MM" where
  "mi_handle_protection_fault va pte_val is_write s =
    (if is_write \<and> pte_val AND PTE_WRITECOPY \<noteq> 0 then mi_handle_copy_on_write va pte_val s
     else (STATUS_ACCESS_VIOLATION, s))"

section \<open>Faults\<close>

definition resolve_software_pte :: "u64 \<Rightarrow> u64 \<Rightarrow> bool \<Rightarrow> MM \<Rightarrow> ntstatus \<times> MM" where
  "resolve_software_pte pte_ptr pte_val is_write s =
    (if pte_val = 0 then (STATUS_ACCESS_VIOLATION, s)
     else if pte_val AND PTE_DEMAND_ZERO \<noteq> 0 then mi_handle_demand_zero_fault pte_ptr pte_val s
     else if pte_val AND PTE_TRANSITION \<noteq> 0 then mi_handle_transition_fault pte_ptr pte_val s
     else if pte_val AND PTE_GUARD \<noteq> 0 then mi_handle_guard_page_fault pte_ptr pte_val s
     else if pte_val AND PTE_PROTO \<noteq> 0 then mi_handle_prototype_fault pte_ptr pte_val is_write s
     else (STATUS_ACCESS_VIOLATION, s))"

definition mi_resolve_not_present_fault ::
    "MM_AVL_TABLE option \<Rightarrow> u64 \<Rightarrow> u64 \<Rightarrow> u64 \<Rightarrow> bool \<Rightarrow> MM \<Rightarrow> (ntstatus \<times> MM) option" where
  "mi_resolve_not_present_fault t va pte_ptr pte_val is_write s =
    (if va < MM_SYSTEM_RANGE_START
     then Option.bind (mi_check_vad_for_fault t va) (\<lambda>c.
       case c of
         NotInVad \<Rightarrow> Some (STATUS_ACCESS_VIOLATION, s)
       | NotCommitted \<Rightarrow> Some (STATUS_ACCESS_VIOLATION, s)
       | StackGuard vad \<Rightarrow> Option.bind t (\<lambda>tbl. Some (mi_handle_stack_growth tbl va vad s))
       | Committed vad \<Rightarrow> Some (resolve_software_pte pte_ptr pte_val is_write s))
     else Some (resolve_software_pte pte_ptr pte_val is_write s))"

definition MmAccessFault :: "MM_AVL_TABLE option \<Rightarrow> u64 \<Rightarrow> u64 \<Rightarrow> MM \<Rightarrow> (fault_result \<times> MM) option" where
  "MmAccessFault t va error_code s =
    (if error_code AND PF_RESERVED \<noteq> 0 then Some (FaultBugCheck, s)
     else let is_present = error_code AND PF_PRESENT \<noteq> 0; is_write = error_code AND PF_WRITE \<noteq> 0;
              is_user = error_code AND PF_USER \<noteq> 0; is_kernel_address = MM_SYSTEM_RANGE_START \<le> va in
       if is_user \<and> is_kernel_address then Some (FaultStatus STATUS_ACCESS_VIOLATION, s)
       else if \<not> mi_is_pte_pointer_valid s va
       then Some (if is_kernel_address then FaultBugCheck else FaultStatus STATUS_ACCESS_VIOLATION, s)
       else let pte_val = read_pte s (mm_get_pte_address va) in
         map_option (map_prod FaultStatus id)
           (if is_present then Some (mi_handle_protection_fault va pte_val is_write s)
            else mi_resolve_not_present_fault t va (mm_get_pte_address va) pte_val is_write s))"

section \<open>Committing and decommitting\<close>

definition mi_make_demand_zero_pte :: "u64 \<Rightarrow> u32 \<Rightarrow> MM \<Rightarrow> MM" where
  "mi_make_demand_zero_pte va prot = write_pte (mm_get_pte_address va) (software_pte PTE_DEMAND_ZERO prot)"

definition mi_make_guard_pte :: "u64 \<Rightarrow> u32 \<Rightarrow> MM \<Rightarrow> MM" where
  "mi_make_guard_pte va prot = write_pte (mm_get_pte_address va) (software_pte (PTE_GUARD OR PTE_DEMAND_ZERO) prot)"

definition mi_decommit_page :: "u64 \<Rightarrow> MM \<Rightarrow> MM" where
  "mi_decommit_page va s =
    (let v = read_pte s (mm_get_pte_address va);
         s = (if v AND PTE_VALID \<noteq> 0 then mi_free_pfn (pte_frame v) s else s)
     in write_pte (mm_get_pte_address va) 0 s)"

end
