(* ===== verification/FaultProps.thy ===== *)
theory FaultProps
  imports PageFault
begin

text \<open>
  What the page fault handler does with the frame database: the demand-zero path against its
  contract, and the paths that break the invariant or lose a protection.
\<close>

lemma write_pte_fields [mm_fields]:
  "pfn_lists (write_pte x v s) = pfn_lists s" "available_pages (write_pte x v s) = available_pages s"
  "modified_count (write_pte x v s) = modified_count s" "standby_count (write_pte x v s) = standby_count s"
  "page_bytes (write_pte x v s) = page_bytes s" "pte_words (write_pte x v s) = (pte_words s)(x := v)"
  "hyper_bitmap (write_pte x v s) = hyper_bitmap s" "bounds (write_pte x v s) = bounds s"
  "in_db (write_pte x v s) = in_db s" "ent (write_pte x v s) = ent s"
  by (simp_all add: write_pte_def mm_fields)

lemma frame_active_fields: "frame_active (write_pte x v s) = frame_active s"
  "frame_active (mi_zero_physical_page p s) = frame_active s"
  by (simp_all add: fun_eq_iff frame_active_def mm_fields)

lemma write_pte_inv: "mm_inv s a \<Longrightarrow> mm_inv (write_pte x v s) a"
  by (rule frames_slot [OF _ _ loc_same])
    (auto simp: mm_inv_def write_pte_def ok_pte_words mm_fields)

lemma zero_physical_inv: "mm_inv s a \<Longrightarrow> mm_inv (mi_zero_physical_page p s) a"
  by (rule frames_slot [OF zero_physical_ok _ loc_same]) (auto simp: mm_inv_def mm_fields)

section \<open>Software entries\<close>

lemma prot_bits:
  assumes "unat prot < 32"
  shows "ucast prot AND 0x1F = (ucast prot :: u64)"
proof (rule bit_word_eqI)
  fix i assume "i < LENGTH(64)"
  have m: "(0x1F :: u64) = mask 5" by (simp add: mask_eq_exp_minus_1)
  show "bit (ucast prot AND 0x1F :: u64) i = bit (ucast prot :: u64) i"
    unfolding m using high_bit_unset [of prot 5 i] assms
    by (cases "5 \<le> i") (auto simp: bit_and_iff bit_mask_iff bit_ucast_iff)
qed

lemma software_prot:
  assumes "unat prot < 32" and "st = PTE_DEMAND_ZERO \<or> st = PTE_GUARD OR PTE_DEMAND_ZERO"
  shows "pte_protection (software_pte st prot) = prot" and "software_pte st prot AND PTE_DEMAND_ZERO \<noteq> 0"
    and "software_pte st prot \<noteq> 0"
proof -
  have low: "\<not> bit st i" if "5 \<le> i" for i
  proof -
    have "unat st < 2 ^ 5" using assms(2) by (auto simp: PTE_DEMAND_ZERO_def PTE_GUARD_def)
    then show ?thesis using high_bit_unset that by blast
  qed
  have m: "(0x1F :: u64) = mask 5" by (simp add: mask_eq_exp_minus_1)
  show "pte_protection (software_pte st prot) = prot"
  proof (rule bit_word_eqI)
    fix i assume i: "i < LENGTH(32)"
    have "bit (software_pte st prot) (5 + i) \<longleftrightarrow> bit prot i" if "i < 5"
      using that low [of "5 + i"]
      by (simp add: software_pte_def prot_bits [OF assms(1)] bit_or_iff bit_push_bit_iff bit_ucast_iff)
    then show "bit (pte_protection (software_pte st prot)) i = bit prot i"
      using i high_bit_unset [of prot 5 i] assms(1)
      by (cases "i < 5") (auto simp: pte_protection_def m bit_and_iff bit_mask_iff bit_ucast_iff bit_drop_bit_eq)
  qed
  have "bit st 1" using assms(2) by (auto simp: PTE_DEMAND_ZERO_def PTE_GUARD_def bit_or_iff bit_numeral_rec)
  then have "bit (software_pte st prot) 1" by (simp add: software_pte_def bit_or_iff)
  then have "bit (software_pte st prot AND PTE_DEMAND_ZERO) 1"
    by (simp add: bit_and_iff PTE_DEMAND_ZERO_def bit_numeral_rec)
  then show "software_pte st prot AND PTE_DEMAND_ZERO \<noteq> 0" "software_pte st prot \<noteq> 0"
    by (metis bit_0_eq bot_apply bot_bool_def, metis \<open>bit (software_pte st prot) 1\<close> bit_0_eq bot_apply bot_bool_def)
qed

section \<open>The demand-zero path\<close>

definition committed_private :: "MM_AVL_TABLE option \<Rightarrow> u64 \<Rightarrow> bool" where
  "committed_private t va \<longleftrightarrow> (\<exists>tbl v. t = Some tbl \<and> mi_find_vad tbl va = Some v \<and> v \<noteq> 0 \<and>
     vad_type (vad_flags (vads tbl v)) = VadPrivateMemory \<and> commit (vad_flags (vads tbl v)))"

lemma committed_check: "committed_private t va \<Longrightarrow> \<exists>v. mi_check_vad_for_fault t va = Some (Committed v)"
  by (auto simp: committed_private_def mi_check_vad_for_fault_def)

lemma user_fault:
  assumes "va < MM_SYSTEM_RANGE_START" and "ec AND PF_RESERVED = 0" and "ec AND PF_PRESENT = 0"
    and "mi_is_pte_pointer_valid s va" and "committed_private t va"
  shows "MmAccessFault t va ec s = Some (map_prod FaultStatus id
    (resolve_software_pte (mm_get_pte_address va) (read_pte s (mm_get_pte_address va)) (ec AND PF_WRITE \<noteq> 0) s))"
proof -
  obtain v where "mi_check_vad_for_fault t va = Some (Committed v)" using committed_check [OF assms(5)] by blast
  moreover have "\<not> MM_SYSTEM_RANGE_START \<le> va" using assms(1) by simp
  ultimately show ?thesis using assms(1-4) by (simp add: MmAccessFault_def Let_def mi_resolve_not_present_fault_def)
qed

lemma demand_zero_handler:
  assumes inv: "mm_inv s a"
  shows "case mi_handle_demand_zero_fault x v s of (st, s') \<Rightarrow>
    (case fst (spec_allocate a) of
       None \<Rightarrow> st = STATUS_IN_PAGE_ERROR \<and> s' = s
     | Some p \<Rightarrow> st = STATUS_SUCCESS \<and> mm_inv s' (snd (spec_allocate a)) \<and> frame_active s' p \<and>
         page_bytes s' p = replicate PAGE_BYTES 0 \<and> read_pte s' x = valid_pte p (pte_protection v))"
proof (cases "fst (spec_allocate a)")
  case None
  then have "a ZeroedPageList = []" "a FreePageList = []" by (simp_all add: spec_allocate_None)
  note z = take_head(1) [OF frames_reps [OF inv_frames [OF inv]] this(1)]
    take_head(1) [OF frames_reps [OF inv_frames [OF inv]] this(2)]
  have "mi_allocate_pfn s = (None, s)"
    by (simp add: mi_allocate_pfn_def mi_remove_zero_page_def mi_remove_free_page_def z)
  then show ?thesis using None by (simp add: mi_handle_demand_zero_fault_def)
next
  case (Some p)
  then obtain s1 where s1: "mi_allocate_pfn s = (Some p, s1)"
    using allocate_inv(1) [OF inv] by (metis prod.collapse)
  have i1: "mm_inv s1 (snd (spec_allocate a))" using allocate_inv(2) [OF inv] s1 by simp
  note a1 = allocate_inv(3) [OF inv s1]
  show ?thesis
    using Some s1 a1 write_pte_inv [OF zero_physical_inv [OF i1]] inv_slot [OF i1]
    by (simp add: mi_handle_demand_zero_fault_def frame_active_fields mm_fields read_pte_def)
qed

section \<open>A representation is unique\<close>

lemma chain_unique:
  assumes "chain E v xs LIST_HEAD" and "chain E v ys LIST_HEAD" and "hd_or LIST_HEAD xs = hd_or LIST_HEAD ys"
    and "LIST_HEAD \<notin> set xs" and "LIST_HEAD \<notin> set ys"
  shows "xs = ys"
  using assms
proof (induction xs arbitrary: v ys)
  case Nil
  then show ?case by (cases ys) auto
next
  case (Cons x xs)
  then obtain zs where "ys = x # zs" by (cases ys) auto
  then show ?case using Cons by auto
qed

lemma reps_unique:
  assumes "reps s a" and "reps s b"
  shows "a = b"
proof
  fix l
  have n: "LIST_HEAD \<notin> set (a l)" "LIST_HEAD \<notin> set (b l)"
    using rep_in_db [OF assms(1)] rep_in_db [OF assms(2)] in_db_not_head by blast+
  show "a l = b l"
    by (rule chain_unique [OF _ _ _ n])
      (use reps_rep [OF assms(1), of l] reps_rep [OF assms(2), of l] in \<open>auto simp: list_rep_def\<close>)
qed

section \<open>The transition path\<close>

lemma fault_back_reps:
  assumes inv: "mm_inv s a" and m: "p \<in> set (a l)" and l: "l = StandbyPageList \<or> l = ModifiedPageList"
  shows "reps (fault_back_frame p s) (a(l := remove1 p (a l)))" and "frame_active (fault_back_frame p s) p"
    and "standby_count (fault_back_frame p s) = standby_count s" and "modified_count (fault_back_frame p s) = modified_count s"
proof -
  note r = frames_reps [OF inv_frames [OF inv]]
  note db = rep_in_db [OF r m] and loc = rep_loc [OF r m]
  have e: "fault_back_frame p s = get_pfn_entry_mut p (\<lambda>e. e\<lparr>pf_loc := mmlists_code ActiveAndValid,
      pf_refs := saturating_inc (pf_refs e)\<rparr>) (mi_remove_page_from_list l p s)"
    using l loc db by (auto simp: fault_back_frame_def get_entry)
  show "reps (fault_back_frame p s) (a(l := remove1 p (a l)))"
    unfolding e by (rule reps_off [OF remove_reps [OF r m] off_after_remove [OF r m]])
  show "frame_active (fault_back_frame p s) p" using db by (simp add: e frame_active_def mm_fields)
  show "standby_count (fault_back_frame p s) = standby_count s" "modified_count (fault_back_frame p s) = modified_count s"
    by (simp_all add: e mm_fields)
qed

lemma word_pred_ne: "(of_nat (length xs) :: u64) \<noteq> of_nat (length (remove1 p xs))" if "p \<in> set xs"
  using length_remove1_word [OF that] by simp

lemma fault_back_breaks:
  assumes inv: "mm_inv s a" and m: "p \<in> set (a l)" and l: "l = StandbyPageList \<or> l = ModifiedPageList"
  shows "\<not> mm_inv (fault_back_frame p s) b"
proof
  assume b: "mm_inv (fault_back_frame p s) b"
  note f = fault_back_reps [OF assms]
  have "b = a(l := remove1 p (a l))" by (rule reps_unique [OF frames_reps [OF inv_frames [OF b]] f(1)])
  then show False
    using inv_frames [OF b] inv_frames [OF inv] f(3,4) l word_pred_ne [OF m] by (auto simp: frames_ok_def)
qed

section \<open>Prototype entries in transition\<close>

lemma prototype_transition0:
  assumes inv: "mm_inv s a" and e: "a ZeroedPageList = []" "a FreePageList = []" "a StandbyPageList = p # ps"
    and proto: "x AND NOT 0xFFF = q" "q \<noteq> 0" "read_pte s q AND PTE_VALID = 0" "read_pte s q AND PTE_DEMAND_ZERO = 0"
      "read_pte s q AND PTE_TRANSITION \<noteq> 0" "pte_frame (read_pte s q) = p"
  shows "fst (mi_handle_prototype_fault y x w s) = STATUS_SUCCESS"
    and "read_pte (snd (mi_handle_prototype_fault y x w s)) y = valid_pte p (pte_protection (read_pte s q))"
    and "fst (mi_allocate_pfn_ex (snd (mi_handle_prototype_fault y x w s))) = Some p"
proof -
  let ?v = "valid_pte p (pte_protection (read_pte s q))"
  have h: "mi_handle_prototype_fault y x w s = (STATUS_SUCCESS, write_pte y ?v (write_pte q ?v s))"
    using proto by (simp add: mi_handle_prototype_fault_def mi_resolve_prototype_transition_def Let_def)
  show "fst (mi_handle_prototype_fault y x w s) = STATUS_SUCCESS" by (simp add: h)
  show "read_pte (snd (mi_handle_prototype_fault y x w s)) y = ?v" by (simp add: h read_pte_def mm_fields)
  show "fst (mi_allocate_pfn_ex (snd (mi_handle_prototype_fault y x w s))) = Some p"
    using allocate_ex_inv [OF write_pte_inv [OF write_pte_inv [OF inv]], of y ?v q ?v] e
    by (simp add: h spec_allocate_ex_def spec_allocate_def)
qed

section \<open>Properties\<close>


definition sample_vads :: "MM_AVL_TABLE option" where
  "sample_vads = Some \<lparr>root = 1, node_count = 1, free_hint = 0,
     vads = (\<lambda>_. mmvad_short_new\<lparr>starting_vpn := 0x10, ending_vpn := 0x1F, vad_flags := 0x100\<rparr>)\<rparr>"

lemma sample_committed: "committed_private sample_vads 0x10123"
  by (simp add: committed_private_def sample_vads_def mi_find_vad_def find_from.simps VPN_SHIFT_def mmvad_short_new_def
      vad_type_def commit_def)

definition sample_space :: "MM \<Rightarrow> MM" where
  "sample_space s = write_pte PXE_BASE 1 (write_pte PPE_BASE 1 (write_pte PDE_BASE 1 s))"

lemma sample_space: "mm_inv s a \<Longrightarrow> mm_inv (sample_space s) a"
  "mi_is_pte_pointer_valid (write_pte 0xFFFFF68000000080 v (sample_space s)) 0x10123"
  "mm_get_pte_address 0x10123 = 0xFFFFF68000000080"
  by (simp_all add: sample_space_def write_pte_inv mi_is_pte_pointer_valid_def read_pte_def mm_fields
      mm_get_pxe_address_def mm_get_ppe_address_def mm_get_pde_address_def mm_get_pte_address_def
      PXE_BASE_def PPE_BASE_def PDE_BASE_def PTE_BASE_def PTE_VALID_def)


text \<open>
  C38. Guard pages do not guard. The entry \<open>mi_make_guard_pte\<close> writes has the demand-zero bit too, which
  the handler looks at first, so a touch of a guard page never reports \<open>STATUS_GUARD_PAGE_VIOLATION\<close>,
  at any address, whatever its VADs, the access and the state.
\<close>

theorem guard_page_not_reported:
  assumes "unat prot < 32" and "MmAccessFault t va ec (mi_make_guard_pte va prot s) = Some (FaultStatus st, s')"
  shows "st \<noteq> STATUS_GUARD_PAGE_VIOLATION"
proof -
  let ?s = "mi_make_guard_pte va prot s" and ?x = "software_pte (PTE_GUARD OR PTE_DEMAND_ZERO) prot"
  have r: "read_pte ?s (mm_get_pte_address va) = ?x" by (simp add: mi_make_guard_pte_def read_pte_def mm_fields)
  note x = software_prot [OF assms(1), of "PTE_GUARD OR PTE_DEMAND_ZERO", simplified]
  have ne: "STATUS_ACCESS_VIOLATION \<noteq> STATUS_GUARD_PAGE_VIOLATION" "STATUS_SUCCESS \<noteq> STATUS_GUARD_PAGE_VIOLATION"
    "STATUS_IN_PAGE_ERROR \<noteq> STATUS_GUARD_PAGE_VIOLATION"
    by (simp_all add: STATUS_ACCESS_VIOLATION_def STATUS_GUARD_PAGE_VIOLATION_def STATUS_SUCCESS_def STATUS_IN_PAGE_ERROR_def)
  have h: "fst (resolve_software_pte y ?x w u) \<noteq> STATUS_GUARD_PAGE_VIOLATION" for y w u
    using x ne by (simp add: resolve_software_pte_def mi_handle_demand_zero_fault_def split: prod.splits option.splits)
  have g: "fst (mi_handle_stack_growth tbl va v u) \<noteq> STATUS_GUARD_PAGE_VIOLATION" for tbl v u
    using ne by (simp add: mi_handle_stack_growth_def Let_def split: prod.splits option.splits)
  have c: "fst (mi_handle_protection_fault va y w u) \<noteq> STATUS_GUARD_PAGE_VIOLATION" for y w u
    using ne by (simp add: mi_handle_protection_fault_def mi_handle_copy_on_write_def Let_def split: prod.splits option.splits)
  have np: "fst q \<noteq> STATUS_GUARD_PAGE_VIOLATION" if n: "mi_resolve_not_present_fault t va y ?x w u = Some q" for y w u q
  proof (cases "va < MM_SYSTEM_RANGE_START")
    case True
    then obtain c where "mi_check_vad_for_fault t va = Some c" using n
      by (auto simp: mi_resolve_not_present_fault_def bind_eq_Some_conv)
    then show ?thesis using n h g ne True
      by (cases c) (auto simp: mi_resolve_not_present_fault_def bind_eq_Some_conv)
  qed (use n h in \<open>auto simp: mi_resolve_not_present_fault_def\<close>)
  have mp: "map_prod FaultStatus id x = (FaultStatus st, s') \<longleftrightarrow> x = (st, s')" for x :: "ntstatus \<times> MM"
    by (cases x) auto
  have c': "mi_handle_protection_fault va y w u \<noteq> (STATUS_GUARD_PAGE_VIOLATION, z)" for y w u z
    using c [of y w u] by auto
  have np': "mi_resolve_not_present_fault t va y ?x w u \<noteq> Some (STATUS_GUARD_PAGE_VIOLATION, z)" for y w u z
    using np [of y w u "(STATUS_GUARD_PAGE_VIOLATION, z)"] by auto
  show ?thesis
    using assms(2) ne unfolding MmAccessFault_def Let_def r
    by (auto simp: mp c' np' split: if_splits)
qed

lemma guard_page_not_reported_witness:
  "\<exists>st s'. MmAccessFault sample_vads 0x10123 0x6 (mi_make_guard_pte 0x10123 4 (sample_space sample_mm)) =
      Some (FaultStatus st, s') \<and> st \<noteq> STATUS_GUARD_PAGE_VIOLATION"
proof -
  let ?s = "mi_make_guard_pte 0x10123 4 (sample_space sample_mm)"
  have p: "mi_is_pte_pointer_valid ?s 0x10123" by (simp only: mi_make_guard_pte_def sample_space)
  have "(0x10123 :: u64) < MM_SYSTEM_RANGE_START" by (simp add: MM_SYSTEM_RANGE_START_def)
  from user_fault [OF this _ _ p sample_committed, of 6] obtain st s' where
    e: "MmAccessFault sample_vads 0x10123 0x6 ?s = Some (FaultStatus st, s')"
    by (auto simp: PF_RESERVED_def PF_PRESENT_def map_prod_def split: prod.splits)
  then show ?thesis using guard_page_not_reported [OF _ e] by auto
qed

text \<open>
  Executability is inverted. The NX bit is taken from bit 2 of the protection, which is not the
  execute bit: read-only execute pages are made non-executable, and plain read-write pages
  are executable.
\<close>

theorem execute_protection_inverted:
  "mi_software_protection_to_pte MM_EXECUTE AND PTE_NX \<noteq> 0 \<and>
   mi_software_protection_to_pte MM_EXECUTE_READ AND PTE_NX \<noteq> 0 \<and>
   mi_software_protection_to_pte MM_READWRITE AND PTE_NX = 0 \<and>
   mi_software_protection_to_pte MM_READWRITE AND PTE_READWRITE \<noteq> 0 \<and>
   mi_software_protection_to_pte MM_WRITECOPY AND PTE_NX = 0"
  by (simp add: mi_software_protection_to_pte_def Let_def MM_EXECUTE_def MM_EXECUTE_READ_def MM_READWRITE_def
      MM_EXECUTE_READWRITE_def MM_WRITECOPY_def MM_EXECUTE_WRITECOPY_def MM_READONLY_def PTE_NX_def PTE_READWRITE_def
      PTE_USER_def PTE_WRITECOPY_def)

text \<open>
  A transition fault takes the page off its list but not off the count of that list. After it the
  frame is in use, and no lists represent the state any more with exact counts: the invariant
  of the database is gone for good.
\<close>

theorem transition_fault_breaks_counts:
  assumes "mm_inv s a" and "p \<in> set (a StandbyPageList) \<or> p \<in> set (a ModifiedPageList)" and "pte_frame x = p"
  shows "frame_active (snd (mi_handle_transition_fault y x s)) p \<and>
    \<not> (\<exists>b. mm_inv (snd (mi_handle_transition_fault y x s)) b)"
proof -
  obtain l where l: "p \<in> set (a l)" "l = StandbyPageList \<or> l = ModifiedPageList" using assms(2) by blast
  have e: "snd (mi_handle_transition_fault y x s) = write_pte y (valid_pte p (pte_protection x)) (fault_back_frame p s)"
    using assms(3) by (simp add: mi_handle_transition_fault_def Let_def)
  have "mm_inv (fault_back_frame p s) b" if "mm_inv (write_pte y v (fault_back_frame p s)) b" for v b
    using write_pte_inv [OF that, of y "pte_words (fault_back_frame p s) y"]
    by (simp add: write_pte_def)
  then show ?thesis
    using fault_back_breaks [OF assms(1) l] fault_back_reps(2) [OF assms(1) l] by (auto simp: e frame_active_fields)
qed

lemma transition_fault_breaks_counts_witness:
  "\<not> (\<exists>b. mm_inv (snd (mi_handle_transition_fault 0 0x2000 (mi_make_transition_page 2 False sample_used))) b)"
proof -
  have "pte_frame 0x2000 = 2" by (simp add: pte_frame_def)
  then show ?thesis
    using transition_fault_breaks_counts [OF transition_inv [OF sample_used(1,2), of False], of 2 "0x2000" 0] by simp
qed

text \<open>
  C37. A shared page faulted back through its prototype entry stays on the standby list: the handler
  maps it in both entries and leaves the list alone, so the next allocation that falls back
  to the standby list takes the page away from those who have it mapped.
\<close>

theorem prototype_transition_page_reused:
  assumes "mm_inv s a" and "a ZeroedPageList = []" and "a FreePageList = []" and "a StandbyPageList = p # ps"
    and "x AND NOT 0xFFF = q" and "q \<noteq> 0" and "read_pte s q AND PTE_VALID = 0" and "read_pte s q AND PTE_DEMAND_ZERO = 0"
    and "read_pte s q AND PTE_TRANSITION \<noteq> 0" and "pte_frame (read_pte s q) = p"
  shows "fst (mi_handle_prototype_fault y x w s) = STATUS_SUCCESS \<and>
    read_pte (snd (mi_handle_prototype_fault y x w s)) y = valid_pte p (pte_protection (read_pte s q)) \<and>
    fst (mi_allocate_pfn_ex (snd (mi_handle_prototype_fault y x w s))) = Some p"
  using prototype_transition0 [OF assms] by blast

definition sample_shared :: MM where
  "sample_shared = write_pte 0x5000 0x2004 (mi_make_transition_page 2 False (snd (mi_allocate_pfn sample_used)))"

lemma prototype_transition_page_reused_witness:
  "fst (mi_allocate_pfn_ex (snd (mi_handle_prototype_fault 0 0x5008 False sample_shared))) = Some 2"
proof -
  have i: "mm_inv (snd (mi_allocate_pfn sample_used)) ((\<lambda>_. [])(FreePageList := []))"
    using allocate_inv(2) [OF sample_used(1)] by (simp add: spec_allocate_def)
  have e: "fst (mi_allocate_pfn sample_used) = Some 1"
    using allocate_inv(1) [OF sample_used(1)] by (simp add: spec_allocate_def)
  have "frame_active (snd (mi_allocate_pfn sample_used)) 2"
  proof -
    have f: "pl_flink (pfn_lists sample_used ZeroedPageList) = LIST_HEAD" "pl_flink (pfn_lists sample_used FreePageList) = 1"
      using rep_flink [OF frames_reps [OF inv_frames [OF sample_used(1)]], of ZeroedPageList]
        rep_flink [OF frames_reps [OF inv_frames [OF sample_used(1)]], of FreePageList] by simp_all
    show ?thesis using sample_used(2) allocate_from_free [OF f]
      by (simp add: LIST_HEAD_def frame_active_def mm_fields)
  qed
  from write_pte_inv [OF transition_inv [OF i this, of False]]
  have s: "mm_inv sample_shared ((\<lambda>_. [])(StandbyPageList := [2]))"
    by (simp add: sample_shared_def fun_upd_def)
  have "read_pte sample_shared 0x5000 = 0x2004" by (simp add: sample_shared_def read_pte_def mm_fields)
  then show ?thesis
    using prototype_transition_page_reused [OF s, of 2 "[]" "0x5008" "0x5000" 0 False]
    by (simp add: PTE_VALID_def PTE_DEMAND_ZERO_def PTE_TRANSITION_def pte_frame_def)
qed

end
