(* ===== verification/WorkingSet.thy ===== *)
theory WorkingSet
  imports FaultProps
begin

text \<open>
  Working sets (\<open>mm/workingset.rs\<close>). An entry of the list is one word that holds, by a union, the page
  address with its flags or the index of the next free entry. An access past the array is
  \<open>Undef\<close>; the counters wrap. Whether the pool has memory is an argument of the operations that
  allocate.
\<close>

definition MM_MINIMUM_WORKING_SET_DEFAULT :: u64 where "MM_MINIMUM_WORKING_SET_DEFAULT = 50"
definition MM_LOW_MEMORY_THRESHOLD :: u64 where "MM_LOW_MEMORY_THRESHOLD = 256"
definition MM_VERY_LOW_MEMORY_THRESHOLD :: u64 where "MM_VERY_LOW_MEMORY_THRESHOLD = 64"
definition MM_MAX_TRIM_PAGES :: u64 where "MM_MAX_TRIM_PAGES = 64"

definition WSLE_VALID :: u64 where "WSLE_VALID = 0x1"
definition WSLE_LOCKED :: u64 where "WSLE_LOCKED = 0x2"

section \<open>Entries\<close>

type_synonym MMWSLE = u64

definition wsle_virtual_address :: "MMWSLE \<Rightarrow> u64" where "wsle_virtual_address e = e AND NOT 0xFFF"
definition wsle_set_virtual_address :: "u64 \<Rightarrow> MMWSLE \<Rightarrow> MMWSLE" where
  "wsle_set_virtual_address va e = (let flags = e AND 0xFFF in va AND NOT 0xFFF OR flags)"
definition wsle_flags :: "MMWSLE \<Rightarrow> u16" where "wsle_flags e = ucast (e AND 0xFFF)"
definition wsle_is_active :: "MMWSLE \<Rightarrow> bool" where "wsle_is_active e \<longleftrightarrow> e AND WSLE_VALID \<noteq> 0"
definition wsle_set_valid :: "bool \<Rightarrow> MMWSLE \<Rightarrow> MMWSLE" where
  "wsle_set_valid v e = (if v then e OR WSLE_VALID else e AND NOT WSLE_VALID)"

record MMWSL =
  first_free :: u32
  last_initialized_wsle :: u32
  wsle_count :: u32
  wsle :: "MMWSLE list"

record MMSUPPORT =
  vm_working_set_list :: "MMWSL option"
  ws_initialized :: bool
  being_trimmed :: bool
  working_set_size :: u64
  peak_working_set_size :: u64
  minimum_working_set_size :: u64
  maximum_working_set_size :: u64
  trim_count :: u32

definition mmsupport_new :: MMSUPPORT where
  "mmsupport_new = \<lparr>vm_working_set_list = None, ws_initialized = False, being_trimmed = False,
     working_set_size = 0, peak_working_set_size = 0, minimum_working_set_size = 50, maximum_working_set_size = 345,
     trim_count = 0\<rparr>"

section \<open>Initialization and growth\<close>

definition free_entries :: "nat \<Rightarrow> nat \<Rightarrow> MMWSLE list" where
  "free_entries lo hi = map (\<lambda>i. of_nat (i + 1)) [lo..<hi]"

definition mi_initialize_working_set :: "bool \<Rightarrow> u64 \<Rightarrow> u64 \<Rightarrow> MMSUPPORT \<Rightarrow> (ntstatus \<times> MMSUPPORT) outcome" where
  "mi_initialize_working_set pool_ok min_ws max_ws m =
    (let m = m\<lparr>minimum_working_set_size := max min_ws MM_MINIMUM_WORKING_SET_DEFAULT,
               maximum_working_set_size := max max_ws min_ws\<rparr>;
         n = unat (min_ws * 2)
     in if \<not> pool_ok then Ret (STATUS_NO_MEMORY, m)
        else if n = 0 then Undef
        else Ret (STATUS_SUCCESS, m\<lparr>vm_working_set_list := Some \<lparr>first_free = 0, last_initialized_wsle = of_nat n - 1,
               wsle_count = 0, wsle = (free_entries 0 n)[n - 1 := - 1]\<rparr>, ws_initialized := True\<rparr>))"

definition mi_delete_working_set :: "MMSUPPORT \<Rightarrow> MMSUPPORT" where
  "mi_delete_working_set m = m\<lparr>vm_working_set_list := None, ws_initialized := False\<rparr>"

definition mi_expand_working_set_list :: "bool \<Rightarrow> MMWSL \<Rightarrow> MMWSL option" where
  "mi_expand_working_set_list pool_ok w =
    (let old = length (wsle w); new = old * 2 in
     if \<not> pool_ok then None
     else Some (w\<lparr>wsle := (wsle w @ free_entries old new)[new - 1 := ucast (first_free w)], first_free := of_nat old,
            last_initialized_wsle := of_nat new - 1\<rparr>))"

section \<open>Adding and removing pages\<close>

definition put_free :: "nat \<Rightarrow> MMWSL \<Rightarrow> MMWSL" where
  "put_free i w = w\<lparr>wsle := (wsle w)[i := ucast (first_free w)], first_free := of_nat i, wsle_count := wsle_count w - 1\<rparr>"

definition take_entry :: "u64 \<Rightarrow> MMWSL \<Rightarrow> MMWSL outcome" where
  "take_entry va w = (let i = unat (first_free w) in
     if length (wsle w) \<le> i then Undef
     else let e = wsle w ! i in
       Ret (w\<lparr>first_free := ucast e, wsle := (wsle w)[i := wsle_set_valid True (wsle_set_virtual_address va e)],
         wsle_count := wsle_count w + 1\<rparr>))"

definition mi_add_page_to_working_set :: "bool \<Rightarrow> u64 \<Rightarrow> MMSUPPORT \<Rightarrow> (bool \<times> MMSUPPORT) outcome" where
  "mi_add_page_to_working_set pool_ok va m =
    (case vm_working_set_list m of None \<Rightarrow> Ret (False, m)
     | Some w \<Rightarrow>
         (case (if first_free w = - 1 then mi_expand_working_set_list pool_ok w else Some w) of
            None \<Rightarrow> Ret (False, m)
          | Some w \<Rightarrow> bind_out (take_entry va w) (\<lambda>w.
              let n = working_set_size m + 1 in
              Ret (True, m\<lparr>vm_working_set_list := Some w, working_set_size := n,
                peak_working_set_size := max n (peak_working_set_size m)\<rparr>))))"

definition mi_remove_page_from_working_set :: "u64 \<Rightarrow> MMSUPPORT \<Rightarrow> bool \<times> MMSUPPORT" where
  "mi_remove_page_from_working_set va m =
    (case vm_working_set_list m of None \<Rightarrow> (False, m)
     | Some w \<Rightarrow>
         (case List.find (\<lambda>i. wsle_is_active (wsle w ! i) \<and> wsle_virtual_address (wsle w ! i) = va AND NOT 0xFFF)
             [0..<length (wsle w)] of
            None \<Rightarrow> (False, m)
          | Some i \<Rightarrow> (True, m\<lparr>vm_working_set_list := Some (put_free i w), working_set_size := working_set_size m - 1\<rparr>)))"

section \<open>Trimming\<close>

definition transition_pte :: "u64 \<Rightarrow> u64" where
  "transition_pte v = (let prot = drop_bit 1 v AND 0x1F in push_bit 12 (pte_frame v) OR PTE_TRANSITION OR push_bit 5 prot)"

definition trim_page :: "u64 \<Rightarrow> u64 \<Rightarrow> MM \<Rightarrow> MM" where
  "trim_page va v s =
    (let p = pte_frame v; s = write_pte (mm_get_pte_address va) (transition_pte v) s in
     if v AND PTE_DIRTY \<noteq> 0
     then (mi_insert_page_in_list ModifiedPageList p s)\<lparr>modified_count := modified_count s + 1\<rparr>
     else (mi_insert_page_in_list StandbyPageList p s)\<lparr>standby_count := standby_count s + 1\<rparr>)"

text \<open>One entry of the loop: skipped, dropped without a page, or trimmed.\<close>

definition trim_entry :: "nat \<Rightarrow> nat \<times> MMWSL \<times> MM \<Rightarrow> nat \<times> MMWSL \<times> MM" where
  "trim_entry i st = (case st of (trimmed, w, s) \<Rightarrow>
     let e = wsle w ! i in
     if \<not> wsle_is_active e then (trimmed, w, s)
     else if ucast (wsle_flags e) AND WSLE_LOCKED \<noteq> 0 then (trimmed, w, s)
     else let va = wsle_virtual_address e; v = read_pte s (mm_get_pte_address va) in
       if v AND PTE_VALID = 0 then (trimmed, put_free i w, s)
       else (trimmed + 1, put_free i w, trim_page va v s))"

fun trim_loop :: "nat \<Rightarrow> nat list \<Rightarrow> nat \<times> MMWSL \<times> MM \<Rightarrow> nat \<times> MMWSL \<times> MM" where
  "trim_loop max_trim [] st = st"
| "trim_loop max_trim (i # is) st = (if max_trim \<le> fst st then st else trim_loop max_trim is (trim_entry i st))"

definition mi_trim_working_set :: "u64 \<Rightarrow> MMSUPPORT \<Rightarrow> MM \<Rightarrow> nat \<times> MMSUPPORT \<times> MM" where
  "mi_trim_working_set pages m s =
    (case vm_working_set_list m of None \<Rightarrow> (0, m, s)
     | Some w \<Rightarrow> (case trim_loop (unat (min pages MM_MAX_TRIM_PAGES)) [0..<length (wsle w)] (0, w, s) of
         (trimmed, w, s) \<Rightarrow>
           (trimmed, m\<lparr>vm_working_set_list := Some w, being_trimmed := False,
              working_set_size := working_set_size m - of_nat trimmed, trim_count := trim_count m + of_nat trimmed\<rparr>, s)))"

section \<open>The balance set manager\<close>

fun trim_all :: "u64 \<Rightarrow> MMSUPPORT list \<Rightarrow> MM \<Rightarrow> MMSUPPORT list \<times> MM" where
  "trim_all remaining [] s = ([], s)"
| "trim_all remaining (m # ms) s =
    (if remaining = 0 then (m # ms, s)
     else let can_trim = (if working_set_size m < minimum_working_set_size m then 0
                          else working_set_size m - minimum_working_set_size m);
              to_trim = min (min can_trim remaining) MM_MAX_TRIM_PAGES
          in case (if 0 < to_trim then mi_trim_working_set to_trim m s else (0, m, s)) of (trimmed, m, s) \<Rightarrow>
            let remaining = (if remaining < of_nat trimmed then 0 else remaining - of_nat trimmed)
            in case trim_all remaining ms s of (ms, s) \<Rightarrow> (m # ms, s))"

definition mi_trim_all_working_sets :: "u64 \<Rightarrow> MMSUPPORT list \<Rightarrow> MM \<Rightarrow> MMSUPPORT list \<times> MM" where
  "mi_trim_all_working_sets = trim_all"

record balance_state =
  balance_manager_active :: bool
  low_memory_signaled :: bool

definition mi_balance_set_manager_iteration ::
    "balance_state \<Rightarrow> MMSUPPORT list \<Rightarrow> MM \<Rightarrow> balance_state \<times> MMSUPPORT list \<times> MM" where
  "mi_balance_set_manager_iteration b ms s =
    (if balance_manager_active b then (b, ms, s)
     else let available = mm_get_available_pages s in
       if available < MM_VERY_LOW_MEMORY_THRESHOLD
       then (b\<lparr>low_memory_signaled := True\<rparr>, mi_trim_all_working_sets (MM_MAX_TRIM_PAGES * 4) ms s)
       else if available < MM_LOW_MEMORY_THRESHOLD
       then (b\<lparr>low_memory_signaled := True\<rparr>, mi_trim_all_working_sets MM_MAX_TRIM_PAGES ms s)
       else (b\<lparr>low_memory_signaled := False\<rparr>, ms, s))"

section \<open>Bounds of trimming\<close>

lemma trim_entry_mono: "fst st \<le> fst (trim_entry i st)" "fst (trim_entry i st) \<le> Suc (fst st)"
  by (auto simp: trim_entry_def Let_def split: prod.splits)

lemma trim_loop_bound: "fst st \<le> n \<Longrightarrow> fst (trim_loop n is st) \<le> n"
proof (induction "is" arbitrary: st)
  case (Cons i "is")
  then show ?case using Cons.IH [of "trim_entry i st"] trim_entry_mono(2) [of i st] by simp
qed simp

lemma trim_bound: "fst (mi_trim_working_set pages m s) \<le> min (unat pages) 64"
proof -
  have u: "unat (min pages MM_MAX_TRIM_PAGES) = min (unat pages) 64"
    by (auto simp: min_def MM_MAX_TRIM_PAGES_def word_le_nat_alt)
  show ?thesis
    using trim_loop_bound [of "(0, w, s)" "min (unat pages) 64" for w]
    by (auto simp: mi_trim_working_set_def u split: option.splits prod.splits) (metis fst_conv zero_le)+
qed

section \<open>A trimmed page loses its protection\<close>

lemma transition_bits: "i < 5 \<Longrightarrow> bit (pte_protection (transition_pte v)) i \<longleftrightarrow> bit v (Suc i)"
  "pte_frame (transition_pte v) = pte_frame v"
proof -
  have m: "(0x1F :: u64) = mask 5" "(0xFFFFFFFFFF :: u64) = mask 40" by (simp_all add: mask_eq_exp_minus_1)
  have b: "bit (transition_pte v) j \<longleftrightarrow> (12 \<le> j \<and> bit v j \<and> j < 52) \<or> j = 2 \<or> (5 \<le> j \<and> j < 10 \<and> bit v (j - 4))"
    if "j < 64" for j
  proof -
    have e: "PTE_TRANSITION = 2 ^ 2" by (simp add: PTE_TRANSITION_def)
    have t: "bit PTE_TRANSITION j \<longleftrightarrow> j = 2" using that unfolding e bit_exp_iff by auto
    have f: "bit (push_bit 12 (pte_frame v)) j \<longleftrightarrow> 12 \<le> j \<and> bit v j \<and> j < 52"
      using that by (auto simp: pte_frame_def m bit_push_bit_iff bit_and_iff bit_mask_iff bit_drop_bit_eq)
    have "5 \<le> j \<Longrightarrow> 1 + (j - 5) = j - 4" by simp
    then have p: "bit (push_bit 5 (drop_bit 1 v AND 0x1F)) j \<longleftrightarrow> 5 \<le> j \<and> j < 10 \<and> bit v (j - 4)"
      using that by (auto simp: m bit_push_bit_iff bit_and_iff bit_mask_iff bit_drop_bit_eq)
    show ?thesis by (simp only: transition_pte_def Let_def bit_or_iff t f p)
  qed
  show "bit (pte_protection (transition_pte v)) i \<longleftrightarrow> bit v (Suc i)" if "i < 5"
    using that b [of "5 + i"] by (simp add: pte_protection_def m bit_and_iff bit_mask_iff bit_ucast_iff bit_drop_bit_eq)
  show "pte_frame (transition_pte v) = pte_frame v"
  proof (rule bit_word_eqI)
    fix i assume "i < LENGTH(64)"
    show "bit (pte_frame (transition_pte v)) i = bit (pte_frame v) i"
      using b [of "12 + i"] by (cases "i < 40") (auto simp: pte_frame_def m bit_and_iff bit_mask_iff bit_drop_bit_eq)
  qed
qed

text \<open>
  What a user page that is writable and cached becomes: the hardware bits, taken for a software
  protection, read as execute-read.
\<close>

lemma flag_bits:
  "v AND PTE_READWRITE \<noteq> 0 \<longleftrightarrow> bit v 1" "v AND PTE_USER \<noteq> 0 \<longleftrightarrow> bit v 2" "v AND PTE_WRITETHROUGH \<noteq> 0 \<longleftrightarrow> bit v 3"
  "v AND PTE_WRITECOPY \<noteq> 0 \<longleftrightarrow> bit v 9" "v AND PTE_NX \<noteq> 0 \<longleftrightarrow> bit v 63" "v AND PTE_VALID \<noteq> 0 \<longleftrightarrow> bit v 0"
  for v :: u64
  using single_bit_test [of v 1] single_bit_test [of v 2] single_bit_test [of v 3] single_bit_test [of v 9]
    single_bit_test [of v 63] single_bit_test [of v 0]
  by (simp_all add: PTE_READWRITE_def PTE_USER_def PTE_WRITETHROUGH_def PTE_WRITECOPY_def PTE_NX_def PTE_VALID_def)

lemma trimmed_protection:
  assumes "bit v 1" and "bit v 2" and "\<not> bit v 3"
  shows "pte_protection (transition_pte v) AND 0x7 = MM_EXECUTE_READ"
proof (rule bit_word_eqI)
  fix i assume i: "i < LENGTH(32)"
  have m: "(0x7 :: u32) = mask 3" "MM_EXECUTE_READ = mask 2" by (simp_all add: mask_eq_exp_minus_1 MM_EXECUTE_READ_def)
  consider "i = 0" | "i = 1" | "i = 2" | "3 \<le> i" by linarith
  then show "bit (pte_protection (transition_pte v) AND 0x7) i = bit MM_EXECUTE_READ i"
    using assms transition_bits(1) [of i v] by cases (simp_all add: m bit_and_iff bit_mask_iff numeral_2_eq_2 numeral_3_eq_3)
qed

lemma execute_read_flags:
  assumes "prot AND 0x7 = MM_EXECUTE_READ"
  shows "mi_software_protection_to_pte prot = PTE_NX OR PTE_USER"
proof -
  have "(0x4 :: u32) = 0x7 AND 0x4" by simp
  then have "prot AND 0x4 = (prot AND 0x7) AND 0x4" by (metis and.assoc)
  then have "prot AND 0x4 = 0" by (simp add: assms MM_EXECUTE_READ_def)
  then show ?thesis by (simp add: mi_software_protection_to_pte_def Let_def assms MM_READONLY_def)
qed



section \<open>Flags of added pages\<close>

text \<open>
  A page added to a fresh list takes the entry whose index counts the pages before it; of the entry's
  free index the low twelve bits stay, as its flags.
\<close>

fun add_pages :: "u64 list \<Rightarrow> MMWSL \<Rightarrow> MMWSL outcome" where
  "add_pages [] w = Ret w"
| "add_pages (va # vas) w = bind_out (take_entry va w) (add_pages vas)"

definition fresh_wsl :: "nat \<Rightarrow> MMWSL" where
  "fresh_wsl n = \<lparr>first_free = 0, last_initialized_wsle = of_nat n - 1, wsle_count = 0, wsle = (free_entries 0 n)[n - 1 := - 1]\<rparr>"

definition added_entry :: "nat \<Rightarrow> u64 \<Rightarrow> MMWSLE" where
  "added_entry i va = (va AND NOT 0xFFF OR (of_nat (i + 1) AND 0xFFF)) OR 1"

lemma ucast_of_nat: "n < 2 ^ 32 \<Longrightarrow> ucast (of_nat n :: u64) = (of_nat n :: u32)"
  by (simp add: unsigned_of_nat take_bit_nat_eq_self)

lemma add_pages_fresh:
  assumes "k + length vas < n" and "n < 2 ^ 32"
    and "first_free w = of_nat k" and "length (wsle w) = n" and "\<And>i. k \<le> i \<Longrightarrow> i < n - 1 \<Longrightarrow> wsle w ! i = of_nat (i + 1)"
  shows "\<exists>w'. add_pages vas w = Ret w' \<and> length (wsle w') = n \<and> (\<forall>i<k. wsle w' ! i = wsle w ! i) \<and>
    (\<forall>j<length vas. wsle w' ! (k + j) = added_entry (k + j) (vas ! j))"
  using assms
proof (induction vas arbitrary: k w)
  case Nil
  then show ?case by simp
next
  case (Cons va vas)
  let ?w = "w\<lparr>first_free := of_nat (Suc k), wsle := (wsle w)[k := added_entry k va], wsle_count := wsle_count w + 1\<rparr>"
  have e: "wsle w ! k = of_nat (k + 1)" using Cons.prems(1) Cons.prems(5) [of k] by simp
  have k: "unat (first_free w) = k" using Cons.prems(1,2,3) by (simp add: unat_of_nat_32)
  have "(ucast (wsle w ! k) :: u32) = of_nat (Suc k)" using Cons.prems(1,2) e ucast_of_nat [of "Suc k"] by simp
  moreover have "wsle_set_valid True (wsle_set_virtual_address va (wsle w ! k)) = added_entry k va"
    by (simp add: e wsle_set_valid_def wsle_set_virtual_address_def Let_def added_entry_def WSLE_VALID_def)
  ultimately have t: "take_entry va w = Ret ?w"
    using k Cons.prems(1,4) by (simp add: take_entry_def Let_def)
  have "\<exists>w'. add_pages vas ?w = Ret w' \<and> length (wsle w') = n \<and> (\<forall>i<Suc k. wsle w' ! i = wsle ?w ! i) \<and>
    (\<forall>j<length vas. wsle w' ! (Suc k + j) = added_entry (Suc k + j) (vas ! j))"
    by (rule Cons.IH) (use Cons.prems in auto)
  then obtain w' where w': "add_pages vas ?w = Ret w'" "length (wsle w') = n" "\<And>i. i < Suc k \<Longrightarrow> wsle w' ! i = wsle ?w ! i"
    "\<And>j. j < length vas \<Longrightarrow> wsle w' ! (Suc k + j) = added_entry (Suc k + j) (vas ! j)" by blast
  have "wsle w' ! (k + j) = added_entry (k + j) ((va # vas) ! j)" if "j < length (va # vas)" for j
    using that w'(3) [of k] w'(4) [of "j - 1"] Cons.prems(1,4) by (cases j) auto
  moreover have "wsle w' ! i = wsle w ! i" if "i < k" for i using that w'(3) [of i] by simp
  ultimately show ?case using w'(1,2) t by auto
qed

text \<open>
  Half of the pages are locked by accident. Adding pages to a fresh working set keeps the low bits of
  the entry's next free index as the page's flags, so every page whose position is one or two
  modulo four carries the locked flag, and trimming skips it for ever.
\<close>

theorem added_pages_locked:
  assumes "length vas < n" and "n < 2 ^ 32" and "j < length vas" and "j mod 4 = 1 \<or> j mod 4 = 2"
  shows "\<exists>w. add_pages vas (fresh_wsl n) = Ret w \<and> wsle w ! j = added_entry j (vas ! j) \<and>
    ucast (wsle_flags (wsle w ! j)) AND WSLE_LOCKED \<noteq> 0 \<and> trim_entry j (t, w, s) = (t, w, s)"
proof -
  have f: "wsle (fresh_wsl n) ! i = of_nat (i + 1)" if "i < n - 1" for i
  proof -
    have "i < n" "i \<noteq> n - 1" using that by simp_all
    then show ?thesis by (simp add: fresh_wsl_def free_entries_def)
  qed
  obtain w where w: "add_pages vas (fresh_wsl n) = Ret w" "\<forall>j<length vas. wsle w ! (0 + j) = added_entry (0 + j) (vas ! j)"
    using add_pages_fresh [of 0 vas n "fresh_wsl n"] assms(1,2) f by (auto simp: fresh_wsl_def free_entries_def)
  then have e: "wsle w ! j = added_entry j (vas ! j)" using assms(3) by simp
  have m: "(0xFFF :: u64) = mask 12" by (simp add: mask_eq_exp_minus_1)
  have "bit (j + 1) 1" using assms(4) by (simp add: bit_iff_odd) presburger
  then have "bit (of_nat (j + 1) :: u64) 1" by (simp only: bit_of_nat_iff) simp
  then have b: "bit (added_entry j (vas ! j)) 1"
    by (simp add: added_entry_def m bit_or_iff bit_and_iff bit_mask_iff)
  then have "bit (ucast (wsle_flags (wsle w ! j)) AND WSLE_LOCKED) 1"
    by (simp add: e wsle_flags_def m bit_and_iff bit_mask_iff bit_ucast_iff WSLE_LOCKED_def bit_numeral_rec)
  then have "ucast (wsle_flags (wsle w ! j)) AND WSLE_LOCKED \<noteq> 0" by (metis bit_0_eq bot_apply bot_bool_def)
  then show ?thesis using w(1) e by (simp add: trim_entry_def Let_def)
qed

lemma added_pages_locked_witness:
  "\<exists>w. add_pages [0x10000, 0x11000] (fresh_wsl 4) = Ret w \<and> wsle w ! 1 = added_entry 1 0x11000 \<and>
    ucast (wsle_flags (wsle w ! 1)) AND WSLE_LOCKED \<noteq> 0"
  using added_pages_locked [of "[0x10000, 0x11000]" 4 1 0 sample_used] by auto

end
