(* ===== verification/VadProps.thy ===== *)
theory VadProps
  imports VadGap
begin

text \<open>
  What the VAD table promises its clients, as a locale of disjoint page ranges, its interpretation
  on the code's operations, and the properties of these operations.
\<close>

section \<open>Tables over the user address space\<close>

definition LOWEST_VPN :: u64 where "LOWEST_VPN = drop_bit VPN_SHIFT MM_LOWEST_USER_ADDRESS"
definition HIGHEST_VPN :: u64 where "HIGHEST_VPN = drop_bit VPN_SHIFT MM_HIGHEST_USER_ADDRESS"

lemma user_vpns: "unat LOWEST_VPN = 16" "unat HIGHEST_VPN = 34359738367"
  by (simp_all add: LOWEST_VPN_def HIGHEST_VPN_def MM_LOWEST_USER_ADDRESS_def MM_HIGHEST_USER_ADDRESS_def VPN_SHIFT_def
      drop_bit_eq_div)

definition user_vads :: "MM_AVL_TABLE \<Rightarrow> nat tree \<Rightarrow> bool" where
  "user_vads s T \<longleftrightarrow> vad_inv s T \<and> within (vads s) (set_tree T) (unat LOWEST_VPN) (unat HIGHEST_VPN)"

lemma user_vadsD: "user_vads s T \<Longrightarrow> vad_inv s T" by (simp add: user_vads_def)

lemma within_data:
  assumes "within h A lo hi" and "\<And>a. a \<in> B \<Longrightarrow> a \<in> A \<and> data (h' a) = data (h a)"
  shows "within h' B lo hi"
  unfolding within_def
proof
  fix a assume "a \<in> B"
  then have "a \<in> A" "starting_vpn (h' a) = starting_vpn (h a)" "ending_vpn (h' a) = ending_vpn (h a)"
    using assms(2) [of a] by (simp_all add: data_def)
  then show "lo \<le> unat (starting_vpn (h' a)) \<and> unat (ending_vpn (h' a)) \<le> hi" using assms(1) by (simp add: within_def)
qed

text \<open>The represented tree is determined by the store.\<close>

lemma vtree_unique: "vtree h par p t \<Longrightarrow> vtree h par p t' \<Longrightarrow> t = t'"
proof (induction t arbitrary: par p t')
  case (Node l a r)
  then show ?case by (cases t') auto
qed (metis vtree_root_iff)

definition vad_nodes :: "MM_AVL_TABLE \<Rightarrow> nat set" where
  "vad_nodes s = {a. \<exists>T. vad_shape s T \<and> a \<in> set_tree T}"

lemma vad_nodes_eq: "vad_inv s T \<Longrightarrow> vad_nodes s = set_tree T"
proof -
  assume "vad_inv s T"
  then have T: "vad_shape s T" "vtree (vads s) 0 (root s) T" by (simp_all add: vad_inv_def vad_shape_def rep_def)
  have "T' = T" if "vad_shape s T'" for T'
  proof -
    have "vtree (vads s) 0 (root s) T'" using that by (simp add: vad_shape_def rep_def)
    then show ?thesis using vtree_unique T(2) by blast
  qed
  then show ?thesis unfolding vad_nodes_def using T(1) by blast
qed

lemma table_node:
  assumes "vad_inv s T" and "a \<in> set_tree T"
  shows "a \<noteq> 0" and "starting_vpn (vads s a) \<le> ending_vpn (vads s a)"
  using assms vtree_nonzero [of "vads s" 0 "root s" T a] by (auto simp: vad_inv_def vad_shape_def rep_def ranges_ok_def)

lemma ranges_disjoint:
  assumes "ranges_ok h xs" and "a \<in> set xs" and "b \<in> set xs" and "a \<noteq> b"
  shows "ending_vpn (h a) < starting_vpn (h b) \<or> ending_vpn (h b) < starting_vpn (h a)"
  using assms by (induction xs) (auto simp: ranges_ok_Cons)

lemma find_vad_tree:
  assumes "vad_inv s T"
  shows "(\<exists>a \<in> set_tree T. mi_find_vad s va = Some a \<and> contains_address (vads s a) va) \<or>
         mi_find_vad s va = Some 0 \<and> (\<forall>a \<in> set_tree T. \<not> contains_address (vads s a) va)"
proof -
  have "vtree (vads s) 0 (root s) T" "ranges_ok (vads s) (inorder T)"
    using assms by (simp_all add: vad_inv_def vad_shape_def rep_def)
  from find_from_tree [OF this] show ?thesis by (simp add: mi_find_vad_def contains_address_def Let_def)
qed

section \<open>The interface\<close>

text \<open>
  A table of disjoint page ranges: \<open>area s a\<close> is the content of the descriptor \<open>a\<close> when it is in
  the table, \<open>fresh s a\<close> the content of a descriptor that is not.
\<close>

locale range_table =
  fixes valid :: "'s \<Rightarrow> bool" and area :: "'s \<Rightarrow> nat \<Rightarrow> 'd option" and fresh :: "'s \<Rightarrow> nat \<Rightarrow> 'd option"
    and covers :: "'d \<Rightarrow> u64 \<Rightarrow> bool" and meets :: "'d \<Rightarrow> 'd \<Rightarrow> bool"
    and find :: "'s \<Rightarrow> u64 \<Rightarrow> nat option"
    and insert_op :: "nat \<Rightarrow> 's \<Rightarrow> (ntstatus \<times> 's) option" and remove_op :: "nat \<Rightarrow> 's \<Rightarrow> 's option"
  assumes find_law: "valid s \<Longrightarrow> \<exists>a. find s va = Some a \<and>
      (if a = 0 then \<forall>b d. area s b = Some d \<longrightarrow> \<not> covers d va else \<exists>d. area s a = Some d \<and> covers d va)"
    and area_nonzero: "valid s \<Longrightarrow> area s a = Some d \<Longrightarrow> a \<noteq> 0"
    and area_disjoint: "valid s \<Longrightarrow> area s a = Some d \<Longrightarrow> area s b = Some e \<Longrightarrow> a \<noteq> b \<Longrightarrow> \<not> meets d e"
    and covers_meets: "covers d va \<Longrightarrow> covers e va \<Longrightarrow> meets d e"
    and insert_law: "valid s \<Longrightarrow> fresh s v = Some d \<Longrightarrow> \<exists>s'. insert_op v s =
      Some (if \<exists>b e. area s b = Some e \<and> meets e d then STATUS_CONFLICTING_ADDRESSES else STATUS_SUCCESS, s') \<and> valid s' \<and>
      area s' = (if \<exists>b e. area s b = Some e \<and> meets e d then area s else (area s)(v \<mapsto> d))"
    and fresh_outside: "valid s \<Longrightarrow> fresh s v = Some d \<Longrightarrow> area s v = None \<and> v \<noteq> 0"
    and remove_law: "valid s \<Longrightarrow> area s v = Some d \<Longrightarrow>
      \<exists>s'. remove_op v s = Some s' \<and> valid s' \<and> area s' = (area s)(v := None) \<and> fresh s' v = Some d"
begin

text \<open>The descriptor that covers an address is the one found.\<close>

lemma find_covering:
  assumes "valid s" and "area s a = Some d" and "covers d va"
  shows "find s va = Some a"
proof -
  obtain b where b: "find s va = Some b"
    "if b = 0 then \<forall>b d. area s b = Some d \<longrightarrow> \<not> covers d va else \<exists>d. area s b = Some d \<and> covers d va"
    using find_law [OF assms(1)] by blast
  then obtain e where "area s b = Some e" "covers e va" using assms(2,3) by (auto split: if_splits)
  then have "b = a" using area_disjoint [OF assms(1) _ assms(2)] covers_meets assms(3) by blast
  then show ?thesis using b(1) by simp
qed

lemma find_none: "valid s \<Longrightarrow> (\<And>b d. area s b = Some d \<Longrightarrow> \<not> covers d va) \<Longrightarrow> find s va = Some 0"
  using find_law by (metis (no_types, lifting))

lemma insert_free:
  assumes "valid s" and "fresh s v = Some d" and "\<And>b e. area s b = Some e \<Longrightarrow> \<not> meets e d"
  obtains s' where "insert_op v s = Some (STATUS_SUCCESS, s')" and "valid s'" and "area s' = (area s)(v \<mapsto> d)"
proof -
  have "\<not> (\<exists>b e. area s b = Some e \<and> meets e d)" using assms(3) by blast
  then show ?thesis using insert_law [OF assms(1,2)] that by (simp only: if_False) blast
qed

lemma insert_then_find:
  assumes "valid s" and "fresh s v = Some d" and "\<And>b e. area s b = Some e \<Longrightarrow> \<not> meets e d" and "covers d va"
  obtains s' where "insert_op v s = Some (STATUS_SUCCESS, s')" and "valid s'" and "find s' va = Some v"
proof -
  obtain s' where s': "insert_op v s = Some (STATUS_SUCCESS, s')" "valid s'" "area s' = (area s)(v \<mapsto> d)"
    by (rule insert_free [OF assms(1-3)])
  show ?thesis by (rule that [OF s'(1,2)]) (use s' assms(4) in \<open>auto intro: find_covering\<close>)
qed

lemma remove_then_find:
  assumes "valid s" and "area s v = Some d" and "covers d va"
  obtains s' where "remove_op v s = Some s'" and "valid s'" and "find s' va = Some 0"
proof -
  obtain s' where s': "remove_op v s = Some s'" "valid s'" "area s' = (area s)(v := None)"
    using remove_law [OF assms(1,2)] by blast
  have "\<not> covers e va" if "area s' b = Some e" for b e
    using that s'(3) area_disjoint [OF assms(1,2), of b e] covers_meets [OF assms(3)] by (auto split: if_splits)
  then show ?thesis using that [OF s'(1,2)] find_none [OF s'(2)] by blast
qed

text \<open>Taking a descriptor out and putting it back changes no content.\<close>

lemma remove_insert:
  assumes "valid s" and "area s v = Some d"
  obtains s' s'' where "remove_op v s = Some s'" and "insert_op v s' = Some (STATUS_SUCCESS, s'')" and "valid s''"
    and "area s'' = area s"
proof -
  obtain s' where s': "remove_op v s = Some s'" "valid s'" "area s' = (area s)(v := None)" "fresh s' v = Some d"
    using remove_law [OF assms] by blast
  have "\<not> meets e d" if "area s' b = Some e" for b e
    using that s'(3) area_disjoint [OF assms(1) _ assms(2), of b e] by (auto split: if_splits)
  then obtain s'' where s'': "insert_op v s' = Some (STATUS_SUCCESS, s'')" "valid s''" "area s'' = (area s')(v \<mapsto> d)"
    using insert_free [OF s'(2,4)] by metis
  then show ?thesis using that s'(1,3) assms(2) by (auto simp: fun_upd_idem)
qed

lemma insert_remove:
  assumes "valid s" and "fresh s v = Some d" and "\<And>b e. area s b = Some e \<Longrightarrow> \<not> meets e d"
  obtains s' s'' where "insert_op v s = Some (STATUS_SUCCESS, s')" and "remove_op v s' = Some s''" and "valid s''"
    and "area s'' = area s"
proof -
  obtain s' where s': "insert_op v s = Some (STATUS_SUCCESS, s')" "valid s'" "area s' = (area s)(v \<mapsto> d)"
    by (rule insert_free [OF assms(1-3)])
  then obtain s'' where s'': "remove_op v s' = Some s''" "valid s''" "area s'' = (area s')(v := None)"
    using remove_law [OF s'(2), of v d] by auto
  have "area s'' = area s" using s''(3) s'(3) fresh_outside [OF assms(1,2)] by auto
  then show ?thesis using that s'(1) s''(1,2) by blast
qed

end

text \<open>The content of a descriptor of the model: its range, flags, reference count and lock.\<close>

type_synonym vad_data = "u64 \<times> u64 \<times> u32 \<times> u32 \<times> u64"

definition vad_area :: "MM_AVL_TABLE \<Rightarrow> nat \<Rightarrow> vad_data option" where
  "vad_area s a = (if a \<in> vad_nodes s then Some (data (vads s a)) else None)"

definition vad_fresh :: "MM_AVL_TABLE \<Rightarrow> nat \<Rightarrow> vad_data option" where
  "vad_fresh s a = (if a \<noteq> 0 \<and> a \<notin> vad_nodes s \<and> starting_vpn (vads s a) \<le> ending_vpn (vads s a)
     then Some (data (vads s a)) else None)"

definition vad_covers :: "vad_data \<Rightarrow> u64 \<Rightarrow> bool" where
  "vad_covers d va \<longleftrightarrow> fst d \<le> drop_bit VPN_SHIFT va \<and> drop_bit VPN_SHIFT va \<le> fst (snd d)"

definition vad_meets :: "vad_data \<Rightarrow> vad_data \<Rightarrow> bool" where
  "vad_meets d e \<longleftrightarrow> fst d \<le> fst (snd e) \<and> fst e \<le> fst (snd d)"

lemma data_sel: "fst (data v) = starting_vpn v" "fst (snd (data v)) = ending_vpn v"
  by (simp_all add: data_def)

lemma vad_covers_data: "vad_covers (data v) va \<longleftrightarrow> contains_address v va"
  by (simp add: vad_covers_def contains_address_def data_sel Let_def)

lemma vad_area_inv: "vad_inv s T \<Longrightarrow> vad_area s a = (if a \<in> set_tree T then Some (data (vads s a)) else None)"
  by (simp add: vad_area_def vad_nodes_eq)

lemma vad_area_ex: "vad_inv s T \<Longrightarrow> (\<exists>b e. vad_area s b = Some e \<and> P e) \<longleftrightarrow> (\<exists>b \<in> set_tree T. P (data (vads s b)))"
  by (auto simp: vad_area_inv simp del: split_paired_Ex split: if_splits)

lemma vad_meets_data:
  "vad_meets (data v) (data w) \<longleftrightarrow> starting_vpn v \<le> ending_vpn w \<and> starting_vpn w \<le> ending_vpn v"
  by (simp add: vad_meets_def data_sel)

lemma vad_fresh_inv: "vad_inv s T \<Longrightarrow> vad_fresh s a =
    (if a \<noteq> 0 \<and> a \<notin> set_tree T \<and> starting_vpn (vads s a) \<le> ending_vpn (vads s a) then Some (data (vads s a)) else None)"
  by (simp add: vad_fresh_def vad_nodes_eq)

definition vad_valid :: "MM_AVL_TABLE \<Rightarrow> bool" where "vad_valid s \<longleftrightarrow> (\<exists>T. vad_inv s T)"

lemma vad_insert_law:
  assumes "vad_inv s T" and "vad_fresh s v = Some d"
  shows "\<exists>s' T'. mi_insert_vad v s =
      Some (if \<exists>b e. vad_area s b = Some e \<and> vad_meets e d then STATUS_CONFLICTING_ADDRESSES else STATUS_SUCCESS, s') \<and>
      vad_inv s' T' \<and> vad_area s' = (if \<exists>b e. vad_area s b = Some e \<and> vad_meets e d then vad_area s else (vad_area s)(v \<mapsto> d)) \<and>
      (\<forall>a. a \<notin> insert v (set_tree T) \<longrightarrow> vads s' a = vads s a) \<and> (\<forall>a. data (vads s' a) = data (vads s a))"
proof -
  have v: "v \<noteq> 0" "v \<notin> set_tree T" "starting_vpn (vads s v) \<le> ending_vpn (vads s v)" "d = data (vads s v)"
    using assms by (auto simp: vad_fresh_inv split: if_splits)
  have m: "(\<exists>b e. vad_area s b = Some e \<and> vad_meets e d) \<longleftrightarrow>
      (\<exists>a \<in> set_tree T. overlaps (vads s) (starting_vpn (vads s v)) (ending_vpn (vads s v)) a)"
    unfolding vad_area_ex [OF assms(1), where P = "\<lambda>e. vad_meets e d"] by (simp add: v(4) vad_meets_data overlaps_def)
  show ?thesis
  proof (cases "\<exists>a \<in> set_tree T. overlaps (vads s) (starting_vpn (vads s v)) (ending_vpn (vads s v)) a")
    case True
    note r = insert_vad_conflict [OF assms(1) v(1-3) True]
    have d: "\<forall>a. data (vads (upd v reset_node s) a) = data (vads s a)" by (simp add: vads_upd reset_node_def data_def)
    then have "vad_area (upd v reset_node s) = vad_area s"
      by (simp add: vad_area_inv [OF r(2)] vad_area_inv [OF assms(1)] fun_eq_iff)
    moreover have "\<forall>a. a \<notin> insert v (set_tree T) \<longrightarrow> vads (upd v reset_node s) a = vads s a" by (simp add: vads_upd)
    ultimately show ?thesis using True m r d by (intro exI [of _ "upd v reset_node s"] exI [of _ T]) simp
  next
    case False
    obtain s' T' where s': "mi_insert_vad v s = Some (STATUS_SUCCESS, s')" "vad_inv s' T'" "set_tree T' = insert v (set_tree T)"
      "\<forall>a. data (vads s' a) = data (vads s a)" "\<forall>a. a \<notin> insert v (set_tree T) \<longrightarrow> vads s' a = vads s a"
    proof (cases "T = Leaf")
      case True
      then show ?thesis using that insert_vad_first [of s v] assms(1) v(1,3) by (metis insertI1 tree.set(1,2) Un_empty_left Un_empty_right insert_is_Un)
    next
      case ne: False
      show ?thesis by (rule insert_vad_new [OF assms(1) v(1-3) ne]) (use False that in blast)+
    qed
    have "vad_area s' = (vad_area s)(v \<mapsto> d)"
      using s'(3,4) v(4) by (auto simp: vad_area_inv [OF s'(2)] vad_area_inv [OF assms(1)] fun_eq_iff)
    then show ?thesis unfolding m if_not_P [OF False] using s' by blast
  qed
qed

lemma vad_remove_law:
  assumes "vad_inv s T" and "vad_area s v = Some d"
  shows "\<exists>s' T'. mi_remove_vad v s = Some s' \<and> vad_inv s' T' \<and> inorder T' = remove1 v (inorder T) \<and>
    vad_area s' = (vad_area s)(v := None) \<and> vad_fresh s' v = Some d \<and> (\<forall>a. data (vads s' a) = data (vads s a))"
proof -
  have v: "v \<in> set_tree T" "d = data (vads s v)" using assms by (auto simp: vad_area_inv split: if_splits)
  obtain s' T' where s': "mi_remove_vad v s = Some s'" "vad_inv s' T'" "inorder T' = remove1 v (inorder T)"
    "\<And>a. data (vads s' a) = data (vads s a)"
    by (rule remove_vad_tree [OF assms(1) v(1)]) blast
  have "distinct (inorder T)" using assms(1) by (simp add: vad_inv_def vad_shape_def rep_def)
  then have T': "set_tree T' = set_tree T - {v}" using s'(3) by (metis set_inorder set_remove1_eq)
  have "starting_vpn (vads s' v) \<le> ending_vpn (vads s' v)"
    using table_node(2) [OF assms(1) v(1)] s'(4) [of v] by (simp add: data_def)
  then have "vad_fresh s' v = Some d" using T' v s'(4) table_node(1) [OF assms(1) v(1)] by (simp add: vad_fresh_inv [OF s'(2)])
  moreover have "vad_area s' = (vad_area s)(v := None)"
    using T' s'(4) by (auto simp: vad_area_inv [OF s'(2)] vad_area_inv [OF assms(1)] fun_eq_iff)
  ultimately show ?thesis using s' by blast
qed

interpretation vad: range_table vad_valid vad_area vad_fresh vad_covers vad_meets mi_find_vad mi_insert_vad mi_remove_vad
proof unfold_locales
  fix s :: MM_AVL_TABLE and va :: u64
  assume "vad_valid s"
  then obtain T where T: "vad_inv s T" by (auto simp: vad_valid_def)
  have z: "0 \<notin> set_tree T" using table_node(1) [OF T] by blast
  from find_vad_tree [OF T, of va] show "\<exists>a. mi_find_vad s va = Some a \<and> (if a = 0 then \<forall>b d. vad_area s b = Some d \<longrightarrow> \<not> vad_covers d va
      else \<exists>d. vad_area s a = Some d \<and> vad_covers d va)"
  proof
    assume "\<exists>a \<in> set_tree T. mi_find_vad s va = Some a \<and> contains_address (vads s a) va"
    then show ?thesis using z by (force simp: vad_area_inv [OF T] vad_covers_data)
  next
    assume a: "mi_find_vad s va = Some 0 \<and> (\<forall>a \<in> set_tree T. \<not> contains_address (vads s a) va)"
    then have "\<not> (\<exists>b d. vad_area s b = Some d \<and> vad_covers d va)"
      unfolding vad_area_ex [OF T, where P = "\<lambda>d. vad_covers d va"] by (simp add: vad_covers_data)
    then show ?thesis using a by auto
  qed
next
  fix s a d assume "vad_valid s" "vad_area s a = Some d"
  then show "a \<noteq> 0" using table_node(1) by (auto simp: vad_valid_def vad_area_inv split: if_splits)
next
  fix s a d b e assume a: "vad_valid s" "vad_area s a = Some d" "vad_area s b = Some e" "a \<noteq> b"
  then obtain T where T: "vad_inv s T" by (auto simp: vad_valid_def)
  then have "ranges_ok (vads s) (inorder T)" "a \<in> set (inorder T)" "b \<in> set (inorder T)" "d = data (vads s a)" "e = data (vads s b)"
    using a(2,3) by (auto simp: vad_area_inv vad_inv_def split: if_splits)
  from ranges_disjoint [OF this(1-3) a(4)] this(4,5) show "\<not> vad_meets d e" by (auto simp: vad_meets_def data_sel)
next
  fix d e va assume "vad_covers d va" "vad_covers e va"
  then show "vad_meets d e" unfolding vad_covers_def vad_meets_def by (meson order_trans)
next
  fix s v d assume "vad_valid s" "vad_fresh s v = Some d"
  then show "\<exists>s'. mi_insert_vad v s =
      Some (if \<exists>b e. vad_area s b = Some e \<and> vad_meets e d then STATUS_CONFLICTING_ADDRESSES else STATUS_SUCCESS, s') \<and> vad_valid s' \<and>
      vad_area s' = (if \<exists>b e. vad_area s b = Some e \<and> vad_meets e d then vad_area s else (vad_area s)(v \<mapsto> d))"
    using vad_insert_law unfolding vad_valid_def by meson
next
  fix s v d assume "vad_valid s" "vad_fresh s v = Some d"
  then show "vad_area s v = None \<and> v \<noteq> 0" by (auto simp: vad_fresh_def vad_area_def split: if_splits)
next
  fix s v d assume "vad_valid s" "vad_area s v = Some d"
  then show "\<exists>s'. mi_remove_vad v s = Some s' \<and> vad_valid s' \<and> vad_area s' = (vad_area s)(v := None) \<and> vad_fresh s' v = Some d"
    using vad_remove_law unfolding vad_valid_def by meson
qed

section \<open>The free range search\<close>

lemma align_pages: "12 \<le> j \<Longrightarrow> j \<le> 63 \<Longrightarrow> (2 ^ j :: u64) div PAGE_SIZE = 2 ^ (j - 12)"
proof -
  assume "12 \<le> j" "j \<le> 63"
  then have "drop_bit 12 (2 ^ j :: u64) = 2 ^ (j - 12)"
    by (intro bit_word_eqI) (auto simp: bit_simps)
  then show ?thesis by (simp add: PAGE_SIZE_def drop_bit_eq_div)
qed

lemma unat_pages:
  assumes "unat size_bytes < 2 ^ 64 - 4095"
  shows "unat ((size_bytes + PAGE_SIZE - 1) div PAGE_SIZE) = (unat size_bytes + 4095) div 4096"
proof -
  have "unat (of_nat (unat size_bytes + 4095) :: u64) = unat size_bytes + 4095"
    using assms by (intro unat_of_nat_64) simp
  moreover have "of_nat (unat size_bytes + 4095) = size_bytes + PAGE_SIZE - 1" by (simp add: PAGE_SIZE_def)
  ultimately have "unat (size_bytes + PAGE_SIZE - 1) = unat size_bytes + 4095" by (simp add: PAGE_SIZE_def add.commute)
  then show ?thesis by (simp add: unat_div PAGE_SIZE_def)
qed

lemma empty_range_first:
  assumes "k \<le> 51" and "unat n \<le> 2 ^ 52" and "0 < unat n"
  shows "best_place s Leaf (\<le>) (unat n) (2 ^ k) (unat LOWEST_VPN) (unat HIGHEST_VPN)
    (if align_up LOWEST_VPN (2 ^ k) + n \<le> HIGHEST_VPN then push_bit VPN_SHIFT (align_up LOWEST_VPN (2 ^ k)) else 0)"
proof -
  let ?g = "align_up LOWEST_VPN (2 ^ k)"
  have b: "unat LOWEST_VPN \<le> 2 ^ 36" "k \<le> 62" using assms(1) by (simp_all add: user_vpns)
  note al = align_up_least [OF b]
  have "(2 :: nat) ^ k \<le> 2 ^ 51" using assms(1) by (intro power_increasing) simp_all
  then have g: "unat ?g \<le> 2 ^ 55" using al(3) [of "2 ^ k * 16"] by (simp add: user_vpns)
  have "unat (of_nat (unat ?g + unat n) :: u64) = unat ?g + unat n" using g assms(2) by (intro unat_of_nat_64) simp
  then have sum: "unat (?g + n) = unat ?g + unat n" by simp
  have fit: "?g + n \<le> HIGHEST_VPN \<longleftrightarrow> unat ?g + unat n \<le> unat HIGHEST_VPN" by (simp add: word_le_nat_alt sum)
  show ?thesis
  proof (cases "?g + n \<le> HIGHEST_VPN")
    case True
    then have "unat ?g + unat n \<le> unat HIGHEST_VPN" by (simp add: fit)
    then have pos: "unat ?g < 2 ^ 52" "0 < unat ?g" using al(2) by (simp_all add: user_vpns)
    then have p: "unat (push_bit VPN_SHIFT ?g) = unat ?g * 4096" using unat_page by blast
    then have "push_bit VPN_SHIFT ?g \<noteq> 0" using pos(2) by (metis mult_is_0 neq0_conv unat_0 zero_neq_numeral)
    then show ?thesis using True fit p al by (auto simp: best_place_def free_place_def room_def)
  next
    case False
    then have "\<not> free_place (vads s) {} (unat n) (2 ^ k) (unat LOWEST_VPN) (unat HIGHEST_VPN) st" for st
      using al(3) [of st] by (auto simp: fit free_place_def)
    then show ?thesis using False by (simp add: best_place_def)
  qed
qed

lemma empty_range_best:
  assumes "user_vads s T" and "0 < unat size_bytes" and "unat size_bytes < 2 ^ 64 - 4095" and "12 \<le> j" and "j \<le> 63"
  shows "\<exists>r. mi_find_empty_address_range s size_bytes (2 ^ j) top_down = Some r \<and>
    best_place s T (if top_down \<and> T \<noteq> Leaf then (\<ge>) else (\<le>)) ((unat size_bytes + 4095) div 4096) (2 ^ (j - 12))
      (unat LOWEST_VPN) (unat HIGHEST_VPN) r"
proof -
  let ?n = "(size_bytes + PAGE_SIZE - 1) div PAGE_SIZE"
  have inv: "vad_inv s T" and w: "within (vads s) (set_tree T) (unat LOWEST_VPN) (unat HIGHEST_VPN)"
    using assms(1) by (simp_all add: user_vads_def)
  have n: "unat ?n = (unat size_bytes + 4095) div 4096" by (rule unat_pages [OF assms(3)])
  have pos: "0 < unat ?n" using assms(2) unfolding n by simp
  have "unat ?n \<le> 2 ^ 52" using assms(3) unfolding n by simp
  have nz: "size_bytes \<noteq> 0" using assms(2) by auto
  have e: "is_empty s \<longleftrightarrow> T = Leaf" by (rule vad_inv_empty [OF inv])
  have k: "j - 12 \<le> 62" "j - 12 \<le> 51" using assms(5) by simp_all
  note al = align_pages [OF assms(4,5)]
  have hi: "unat HIGHEST_VPN < 2 ^ 36" "unat LOWEST_VPN \<le> unat HIGHEST_VPN" "0 < unat LOWEST_VPN"
    by (simp_all add: user_vpns)
  note up = gap_bottom_up_best [OF inv w hi(1,2) k(1) pos hi(3), unfolded n]
  note down = gap_top_down_best [OF inv w hi(1,2) k(1) pos hi(3), unfolded n]
  note first = empty_range_first [OF k(2) \<open>unat ?n \<le> _\<close> pos, of s, unfolded n]
  have run: "mi_find_empty_address_range s size_bytes (2 ^ j) top_down =
    (if T = Leaf then Some (if align_up LOWEST_VPN (2 ^ (j - 12)) + ?n \<le> HIGHEST_VPN
       then push_bit VPN_SHIFT (align_up LOWEST_VPN (2 ^ (j - 12))) else 0)
     else if top_down then mi_find_gap_top_down s ?n (2 ^ (j - 12)) LOWEST_VPN HIGHEST_VPN
     else mi_find_gap_bottom_up s ?n (2 ^ (j - 12)) LOWEST_VPN HIGHEST_VPN)"
    using nz by (simp only: mi_find_empty_address_range_def Let_def al e LOWEST_VPN_def HIGHEST_VPN_def if_False)
  show ?thesis
  proof (cases "T = Leaf")
    case True
    then show ?thesis using run first by auto
  next
    case False
    then show ?thesis using run up down by (cases top_down) simp_all
  qed
qed

section \<open>Conflicts\<close>

lemma check_conflict_tree:
  assumes "user_vads s T" and "lo \<le> hi" and "unat hi < 2 ^ 52"
  shows "mi_check_vad_conflict s lo hi = Some (\<exists>a \<in> set_tree T. overlaps (vads s) lo hi a)"
proof -
  have inv: "vad_inv s T" and w: "within (vads s) (set_tree T) (unat LOWEST_VPN) (unat HIGHEST_VPN)"
    using assms(1) by (simp_all add: user_vads_def)
  have vt: "vtree (vads s) 0 (root s) T" and r: "ranges_ok (vads s) (inorder T)"
    using inv by (simp_all add: vad_inv_def vad_shape_def rep_def)
  have unshift: "drop_bit VPN_SHIFT (push_bit VPN_SHIFT v) = v" if "unat v < 2 ^ 52" for v :: "64 word"
    using unat_page [OF that] by (simp add: word_unat_eq_iff drop_bit_eq_div unat_div VPN_SHIFT_def push_bit_eq_mult)
  have vlo: "unat lo < 2 ^ 52" using assms(2,3) by (simp add: word_le_nat_alt)
  have hit: "overlaps (vads s) lo hi a" if "contains_address (vads s a) (push_bit VPN_SHIFT v)" "v = lo \<or> v = hi" for a v
    using that assms(2) unshift [OF vlo] unshift [OF assms(3)] by (auto simp: contains_address_def overlaps_def Let_def)
  have len: "length [] + height T \<le> 64" using vad_height [OF inv w] by (simp add: user_vpns)
  have "conflict_walk (vads s) lo hi [] 0 = Some False" by (subst conflict_walk.simps) simp
  then have walk: "conflict_walk (vads s) lo hi [] (root s) = Some (\<exists>a \<in> set_tree T. overlaps (vads s) lo hi a)"
    using scan_conflict_overlaps [OF r, of lo hi] unfolding conflict_walk_tree [OF vt len]
    by (cases "scan_conflict (vads s) lo hi (inorder T)") auto
  have find: "\<exists>v. mi_find_vad s (push_bit VPN_SHIFT x) = Some v \<and>
      (v \<noteq> 0 \<longrightarrow> (\<exists>a \<in> set_tree T. overlaps (vads s) lo hi a))" if "x = lo \<or> x = hi" for x
    using find_vad_tree [OF inv, of "push_bit VPN_SHIFT x"] hit [OF _ that] by blast
  obtain a b where "mi_find_vad s (push_bit VPN_SHIFT lo) = Some a" "mi_find_vad s (push_bit VPN_SHIFT hi) = Some b"
    "a \<noteq> 0 \<or> b \<noteq> 0 \<longrightarrow> (\<exists>a \<in> set_tree T. overlaps (vads s) lo hi a)"
    using find [of lo] find [of hi] by blast
  then show ?thesis using walk vad_inv_empty [OF inv] by (auto simp: mi_check_vad_conflict_def)
qed

section \<open>Splitting and merging\<close>

lemma vad_shape_upd:
  assumes "vad_shape s T" and "\<And>v. links (f v) = links v" and "\<And>v. balance (f v) = balance v"
  shows "vad_shape (upd a f s) T"
proof -
  have i: "rep s [] T" "avl T" "bal_ok (vads s) T" "node_count s = of_nat (size T)"
    using assms(1) by (simp_all add: vad_shape_def)
  have "rep (upd a f s) [] T" by (rule rep_frame [OF i(1) root_upd]) (simp add: vads_upd assms(2))
  moreover have "bal_ok (vads (upd a f s)) T" by (rule bal_ok_frame [OF i(3)]) (simp add: vads_upd assms(3))
  ultimately show ?thesis using i by (simp add: vad_shape_def upd_def)
qed

lemma shrink_vad:
  assumes "vad_inv s T" and "starting_vpn (vads s v) \<le> e" and "e \<le> ending_vpn (vads s v)"
  shows "vad_inv (upd v (ending_vpn_update (\<lambda>_. e)) s) T"
proof -
  have shrunk: "ranges_ok h' xs" if "ranges_ok h xs" "\<And>a. starting_vpn (h' a) = starting_vpn (h a)"
    "\<And>a. ending_vpn (h' a) \<le> ending_vpn (h a)" "starting_vpn (h' v) \<le> ending_vpn (h' v)"
    "\<And>a. a \<noteq> v \<Longrightarrow> ending_vpn (h' a) = ending_vpn (h a)" for h h' :: vad_store and xs
    using that(1)
  proof (induction xs)
    case (Cons a xs)
    have "ending_vpn (h' a) < starting_vpn (h' b)" if "b \<in> set xs" for b
      using Cons.prems that \<open>\<And>a. ending_vpn (h' a) \<le> _\<close> [of a] \<open>\<And>a. starting_vpn (h' a) = _\<close> by (auto simp: ranges_ok_Cons)
    moreover have "starting_vpn (h' a) \<le> ending_vpn (h' a)" using Cons.prems that(2-5) by (cases "a = v") (auto simp: ranges_ok_Cons)
    ultimately show ?case using Cons by (simp add: ranges_ok_Cons)
  qed (simp add: ranges_ok_def)
  have i: "vad_shape s T" "ranges_ok (vads s) (inorder T)" using assms(1) by (simp_all add: vad_inv_def)
  show ?thesis unfolding vad_inv_def
    using vad_shape_upd [OF i(1), of "ending_vpn_update (\<lambda>_. e)" v] assms(2,3)
    by (auto simp: links_def vads_upd intro!: shrunk [OF i(2)])
qed

lemma split_vad_tree:
  assumes "vad_inv s T" and "v \<in> set_tree T" and "n \<noteq> 0" and "n \<notin> set_tree T"
    and "starting_vpn (vads s v) < p" and "p \<le> ending_vpn (vads s v)"
  shows "\<exists>s'. mi_split_vad v p n s = Some (n, s') \<and> vad_valid s' \<and>
    vad_area s' = (vad_area s)(v \<mapsto> data ((vads s v)\<lparr>ending_vpn := p - 1\<rparr>),
      n \<mapsto> data (mmvad_short_new\<lparr>starting_vpn := p, ending_vpn := ending_vpn (vads s v), vad_flags := vad_flags (vads s v)\<rparr>))"
proof -
  define new where "new = mmvad_short_new\<lparr>starting_vpn := p, ending_vpn := ending_vpn (vads s v), vad_flags := vad_flags (vads s v)\<rparr>"
  define s1 where "s1 = upd n (\<lambda>_. new) s"
  define s2 where "s2 = upd v (ending_vpn_update (\<lambda>_. p - 1)) s1"
  have vn: "v \<noteq> n" "v \<noteq> 0" using assms(1,2,4) table_node(1) by auto
  have p: "starting_vpn (vads s v) \<le> p - 1" "p - 1 < p" "p - 1 \<le> ending_vpn (vads s v)"
    using assms(5,6) by (auto simp: word_le_nat_alt word_less_nat_alt unat_sub_if_size)
  have "rep s1 [] T" "bal_ok (vads s1) T" "ranges_ok (vads s1) (inorder T)" "avl T" "node_count s1 = of_nat (size T)"
  proof -
    have i: "rep s [] T" "avl T" "bal_ok (vads s) T" "ranges_ok (vads s) (inorder T)" "node_count s = of_nat (size T)"
      using assms(1) by (simp_all add: vad_inv_def vad_shape_def)
    have o: "vads s1 a = vads s a" if "a \<in> set_tree T" for a using that assms(4) by (auto simp: s1_def vads_upd)
    have "root s1 = root s" by (simp add: s1_def root_upd)
    then show "rep s1 [] T" by (rule rep_frame [OF i(1)]) (simp add: o tree_nodes_def)
    show "bal_ok (vads s1) T" by (rule bal_ok_frame [OF i(3)]) (simp add: o)
    show "ranges_ok (vads s1) (inorder T)"
      using i(4) o by (auto simp: ranges_ok_def simp flip: set_inorder elim!: sorted_wrt_mono_rel [rotated])
    show "avl T" "node_count s1 = of_nat (size T)" using i by (simp_all add: s1_def upd_def)
  qed
  then have i1: "vad_inv s1 T" by (simp add: vad_inv_def vad_shape_def)
  have v1: "vads s1 v = vads s v" using vn by (simp add: s1_def vads_upd)
  have i2: "vad_inv s2 T" unfolding s2_def by (rule shrink_vad [OF i1]) (simp_all add: v1 p)
  have h2: "vads s2 a = (if a = v then (vads s v)\<lparr>ending_vpn := p - 1\<rparr> else if a = n then new else vads s a)" for a
    using vn by (simp add: s2_def s1_def vads_upd)
  have fr: "vad_fresh s2 n = Some (data new)"
    using assms(3,4,6) vn by (simp add: vad_fresh_inv [OF i2] h2 new_def)
  have free: "\<not> vad_meets e (data new)" if "vad_area s2 b = Some e" for b e
  proof (cases "b = v")
    case True
    then show ?thesis using that p(2) by (auto simp: vad_area_inv [OF i2] h2 vad_meets_data new_def not_le split: if_splits)
  next
    case False
    then have b: "b \<in> set_tree T" "e = data (vads s b)" using that assms(4) by (auto simp: vad_area_inv [OF i2] h2 split: if_splits)
    have "ranges_ok (vads s) (inorder T)" using assms(1) by (simp add: vad_inv_def)
    from ranges_disjoint [OF this, of b v] have "ending_vpn (vads s b) < starting_vpn (vads s v) \<or>
        ending_vpn (vads s v) < starting_vpn (vads s b)" using b(1) assms(2) False by simp
    then show ?thesis using assms(5) by (auto simp: b(2) vad_meets_data new_def)
  qed
  have "vad_valid s2" using i2 by (auto simp: vad_valid_def)
  then obtain s' where s': "mi_insert_vad n s2 = Some (STATUS_SUCCESS, s')" "vad_valid s'" "vad_area s' = (vad_area s2)(n \<mapsto> data new)"
    by (rule vad.insert_free [OF _ fr free])
  have "vad_area s2 a = ((vad_area s)(v \<mapsto> data ((vads s v)\<lparr>ending_vpn := p - 1\<rparr>))) a" if "a \<noteq> n" for a
    using that assms(2) by (auto simp: vad_area_inv [OF i2] vad_area_inv [OF assms(1)] h2)
  then have "vad_area s' = (vad_area s)(v \<mapsto> data ((vads s v)\<lparr>ending_vpn := p - 1\<rparr>), n \<mapsto> data new)"
    using s'(3) by auto
  moreover have "mi_split_vad v p n s = Some (n, s')"
    using s'(1) assms(3,5,6) vn by (simp add: mi_split_vad_def Let_def s2_def s1_def new_def not_le not_less)
  ultimately show ?thesis using s'(2) by (auto simp: new_def)
qed

lemma merge_pair:
  assumes "vad_inv s T" and "inorder T = xs @ a # b # ys"
  obtains s' where "mi_remove_vad b (upd a (ending_vpn_update (\<lambda>_. ending_vpn (vads s b))) s) = Some s'" and "vad_valid s'"
    and "vad_area s' = (vad_area s)(a \<mapsto> data ((vads s a)\<lparr>ending_vpn := ending_vpn (vads s b)\<rparr>), b := None)"
proof -
  let ?s = "upd a (ending_vpn_update (\<lambda>_. ending_vpn (vads s b))) s"
  have i: "vad_shape s T" "ranges_ok (vads s) (inorder T)" "distinct (inorder T)"
    using assms(1) by (simp_all add: vad_inv_def vad_shape_def rep_def)
  have sh: "vad_shape ?s T" by (rule vad_shape_upd [OF i(1)]) (simp_all add: links_def)
  have b: "b \<in> set_tree T" using assms(2) set_inorder [of T] by auto
  obtain s' T' where s': "mi_remove_vad b ?s = Some s'" "vad_shape s' T'" "inorder T' = remove1 b (inorder T)"
    "\<And>x. data (vads s' x) = data (vads ?s x)" by (rule remove_vad_shape [OF sh b]) blast
  have o: "inorder T' = xs @ a # ys" using s'(3) i(3) by (auto simp: assms(2) remove1_append)
  have ab: "a \<noteq> b" using i(3) assms(2) by auto
  have h: "starting_vpn (vads s' x) = starting_vpn (vads s x)"
    "ending_vpn (vads s' x) = (if x = a then ending_vpn (vads s b) else ending_vpn (vads s x))" for x
    using s'(4) [of x] by (auto simp: data_def vads_upd split: if_splits)
  have na: "a \<notin> set xs" "a \<notin> set ys" using i(3) assms(2) by auto
  have "ranges_ok (vads s') (xs @ a # ys)"
  proof -
    have r: "ranges_ok (vads s) xs" "ranges_ok (vads s) ys" "\<forall>x \<in> set xs. ending_vpn (vads s x) < starting_vpn (vads s a)"
      "\<forall>x \<in> set xs. \<forall>y \<in> set ys. ending_vpn (vads s x) < starting_vpn (vads s y)"
      "\<forall>y \<in> set ys. ending_vpn (vads s b) < starting_vpn (vads s y)"
      "starting_vpn (vads s a) \<le> ending_vpn (vads s a)" "ending_vpn (vads s a) < starting_vpn (vads s b)"
      "starting_vpn (vads s b) \<le> ending_vpn (vads s b)"
      using i(2) by (auto simp: assms(2) ranges_simps)
    have "ranges_ok (vads s') zs" if "ranges_ok (vads s) zs" "a \<notin> set zs" for zs
      using that by (induction zs) (auto simp: ranges_ok_Cons h, simp add: ranges_ok_def)
    moreover have "starting_vpn (vads s a) \<le> ending_vpn (vads s b)" using r(6-8) by order
    ultimately show ?thesis using r na by (auto simp: ranges_simps h)
  qed
  then have inv: "vad_inv s' T'" using s'(2) o by (simp add: vad_inv_def)
  have "set_tree T' = set_tree T - {b}" using s'(3) i(3) by (metis set_inorder set_remove1_eq)
  moreover have "a \<in> set_tree T" using assms(2) set_inorder [of T] by auto
  moreover have "data (vads s' x) = (if x = a then data ((vads s a)\<lparr>ending_vpn := ending_vpn (vads s b)\<rparr>) else data (vads s x))" for x
    using s'(4) by (simp add: vads_upd)
  ultimately have "vad_area s' = (vad_area s)(a \<mapsto> data ((vads s a)\<lparr>ending_vpn := ending_vpn (vads s b)\<rparr>), b := None)"
    using ab by (auto simp: vad_area_inv [OF inv] vad_area_inv [OF assms(1)] fun_eq_iff)
  then show ?thesis using that s'(1) inv by (auto simp: vad_valid_def)
qed

text \<open>What the table says of an address: whether it is covered, and the attributes that merging compares.\<close>

definition vad_attrs :: "u32 \<Rightarrow> VAD_TYPE \<times> u32 \<times> bool \<times> bool" where
  "vad_attrs fl = (vad_type fl, protection fl, commit fl, private_memory fl)"

definition page_attrs :: "MM_AVL_TABLE \<Rightarrow> u64 \<Rightarrow> (VAD_TYPE \<times> u32 \<times> bool \<times> bool) option option" where
  "page_attrs s va = map_option (\<lambda>a. if a = 0 then None else Some (vad_attrs (vad_flags (vads s a)))) (mi_find_vad s va)"

definition data_attrs :: "vad_data \<Rightarrow> VAD_TYPE \<times> u32 \<times> bool \<times> bool" where
  "data_attrs d = vad_attrs (fst (snd (snd d)))"

lemma data_attrs_data: "data_attrs (data v) = vad_attrs (vad_flags v)"
  by (simp add: data_attrs_def data_def)

lemma vad_area_data: "vad_area s a = Some d \<Longrightarrow> d = data (vads s a)"
  by (simp add: vad_area_def split: if_splits)

lemma page_attrs_hit:
  assumes "vad_valid s" and "vad_area s a = Some d" and "vad_covers d va"
  shows "page_attrs s va = Some (Some (data_attrs d))"
  using vad.find_covering [OF assms] vad.area_nonzero [OF assms(1,2)] vad_area_data [OF assms(2)]
  by (simp add: page_attrs_def data_attrs_data)

lemma page_attrs_miss:
  assumes "vad_valid s" and "\<And>a d. vad_area s a = Some d \<Longrightarrow> \<not> vad_covers d va"
  shows "page_attrs s va = Some None"
  using vad.find_none [OF assms] by (simp add: page_attrs_def)

lemma page_attrs_eq:
  assumes "vad_valid s" and "vad_valid s'"
    and "\<And>a d. vad_area s a = Some d \<Longrightarrow> vad_covers d va \<Longrightarrow>
      \<exists>a' d'. vad_area s' a' = Some d' \<and> vad_covers d' va \<and> data_attrs d' = data_attrs d"
    and "\<And>a d. vad_area s' a = Some d \<Longrightarrow> vad_covers d va \<Longrightarrow> \<exists>a' d'. vad_area s a' = Some d' \<and> vad_covers d' va"
  shows "page_attrs s' va = page_attrs s va"
proof (cases "\<exists>a d. vad_area s a = Some d \<and> vad_covers d va")
  case True
  then obtain a d a' d' where d: "vad_area s a = Some d" "vad_covers d va" "vad_area s' a' = Some d'" "vad_covers d' va"
    "data_attrs d' = data_attrs d" using assms(3) by blast
  show ?thesis using page_attrs_hit [OF assms(1) d(1,2)] page_attrs_hit [OF assms(2) d(3,4)] d(5) by simp
next
  case False
  then show ?thesis using page_attrs_miss [OF assms(1)] page_attrs_miss [OF assms(2)] assms(4) by metis
qed

lemma adjacent: "e + 1 = (b :: u64) \<Longrightarrow> p \<le> e \<or> b \<le> p"
  using inc_le [of e p] by (metis not_le)

lemma merged_attrs:
  assumes "vad_valid s" and "vad_valid s'" and "a \<noteq> b" and "vad_area s a = Some (data u)" and "vad_area s b = Some (data w)"
    and "ending_vpn u + 1 = starting_vpn w" and "ending_vpn u < starting_vpn w" and "starting_vpn u \<le> ending_vpn u"
    and "starting_vpn w \<le> ending_vpn w" and "vad_attrs (vad_flags u) = vad_attrs (vad_flags w)"
    and "vad_area s' = (vad_area s)(a \<mapsto> data (u\<lparr>ending_vpn := ending_vpn w\<rparr>), b := None)"
  shows "page_attrs s' va = page_attrs s va"
proof (rule page_attrs_eq [OF assms(1,2)])
  let ?m = "data (u\<lparr>ending_vpn := ending_vpn w\<rparr>)"
  have step: "vpn \<le> ending_vpn u \<or> starting_vpn w \<le> vpn" for vpn
    using adjacent assms(6) by blast
  have cover: "vad_covers ?m va \<longleftrightarrow> vad_covers (data u) va \<or> vad_covers (data w) va"
    using step [of "drop_bit VPN_SHIFT va"] assms(7-9) by (auto simp: vad_covers_def data_sel)
  have attrs: "data_attrs ?m = vad_attrs (vad_flags u)" by (simp add: data_attrs_data)
  fix c d assume c: "vad_area s c = Some d" "vad_covers d va"
  show "\<exists>a' d'. vad_area s' a' = Some d' \<and> vad_covers d' va \<and> data_attrs d' = data_attrs d"
  proof (cases "c = a \<or> c = b")
    case True
    then have "vad_covers ?m va" "data_attrs ?m = data_attrs d"
      using c assms(4,5,10) cover by (auto simp: attrs data_attrs_data)
    then show ?thesis using assms(3,11) by (intro exI [of _ a] exI [of _ ?m]) simp
  next
    case False
    then show ?thesis using c assms(11) by (intro exI [of _ c] exI [of _ d]) simp
  qed
next
  fix c d assume c: "vad_area s' c = Some d" "vad_covers d va"
  have step: "vpn \<le> ending_vpn u \<or> starting_vpn w \<le> vpn" for vpn
    using adjacent assms(6) by blast
  show "\<exists>a' d'. vad_area s a' = Some d' \<and> vad_covers d' va"
  proof (cases "c = a")
    case True
    then have "d = data (u\<lparr>ending_vpn := ending_vpn w\<rparr>)" using c assms(3,11) by simp
    then have "vad_covers (data u) va \<or> vad_covers (data w) va"
      using c(2) step [of "drop_bit VPN_SHIFT va"] by (auto simp: vad_covers_def data_sel)
    then show ?thesis using assms(4,5) by blast
  next
    case False
    then have "vad_area s c = Some d" using c(1) assms(11) by (simp split: if_splits)
    then show ?thesis using c(2) by blast
  qed
qed

lemma can_mergeD:
  assumes "mi_can_merge_vads h a b"
  shows "a \<noteq> 0" and "b \<noteq> 0" and "ending_vpn (h a) + 1 = starting_vpn (h b)"
    and "vad_attrs (vad_flags (h a)) = vad_attrs (vad_flags (h b))"
  using assms by (auto simp: mi_can_merge_vads_def vad_attrs_def split: if_splits)

lemma merge_pair_attrs:
  assumes "vad_inv s T" and "inorder T = xs @ a # b # ys" and "mi_can_merge_vads (vads s) a b"
  obtains s' where "mi_remove_vad b (upd a (ending_vpn_update (\<lambda>_. ending_vpn (vads s b))) s) = Some s'" and "vad_valid s'"
    and "\<And>va. page_attrs s' va = page_attrs s va" and "vad_nodes s' = vad_nodes s - {b}"
proof -
  obtain s' where s': "mi_remove_vad b (upd a (ending_vpn_update (\<lambda>_. ending_vpn (vads s b))) s) = Some s'" "vad_valid s'"
    "vad_area s' = (vad_area s)(a \<mapsto> data ((vads s a)\<lparr>ending_vpn := ending_vpn (vads s b)\<rparr>), b := None)"
    by (rule merge_pair [OF assms(1,2)])
  have i: "ranges_ok (vads s) (inorder T)" "distinct (inorder T)" using assms(1) by (simp_all add: vad_inv_def vad_shape_def rep_def)
  have in_T: "a \<in> set_tree T" "b \<in> set_tree T" using assms(2) set_inorder [of T] by auto
  have ab: "a \<noteq> b" using i(2) assms(2) by auto
  have "ending_vpn (vads s a) < starting_vpn (vads s b)" using i(1) by (auto simp: assms(2) ranges_simps)
  moreover have "vad_valid s" using assms(1) by (auto simp: vad_valid_def)
  moreover have "vad_area s a = Some (data (vads s a))" "vad_area s b = Some (data (vads s b))"
    using in_T by (simp_all add: vad_area_inv [OF assms(1)])
  moreover have "starting_vpn (vads s a) \<le> ending_vpn (vads s a)" "starting_vpn (vads s b) \<le> ending_vpn (vads s b)"
    using table_node(2) [OF assms(1)] in_T by blast+
  ultimately have "page_attrs s' va = page_attrs s va" for va
    using can_mergeD(3,4) [OF assms(3)] s'(2,3) ab by (intro merged_attrs [of s s' a b "vads s a" "vads s b"]) simp_all
  moreover have "vad_nodes s' = vad_nodes s - {b}"
  proof -
    have dom: "vad_nodes t = dom (vad_area t)" for t by (auto simp: vad_area_def split: if_splits)
    show ?thesis unfolding dom s'(3) using in_T(1) ab by (auto simp: vad_area_inv [OF assms(1)] split: if_splits)
  qed
  ultimately show ?thesis using that s'(1,2) by blast
qed

lemma try_merge_tree:
  assumes "vad_inv s T" and "v \<in> set_tree T"
  shows "\<exists>m s'. mi_try_merge_vad v s = Some (m, s') \<and> vad_valid s' \<and> (\<forall>va. page_attrs s' va = page_attrs s va) \<and>
    (m \<longrightarrow> card (vad_nodes s') + 1 = card (vad_nodes s)) \<and> (\<not> m \<longrightarrow> s' = s)"
proof -
  obtain C l r where T: "T = plug C (Node l v r)" using plug_at [OF assms(2)] by blast
  have rs: "rep s C (Node l v r)" using assms(1) T rep_plug by (auto simp: vad_inv_def vad_shape_def)
  note succ = find_successor_tree [OF rs] and pred = find_predecessor_tree [OF rs]
  have e: "inorder T = (before C @ inorder l) @ v # (inorder r @ after C)" by (simp add: T inorder_plug)
  have v: "v \<noteq> 0" by (rule table_node(1) [OF assms])
  have fin: "finite (vad_nodes s)" by (simp add: vad_nodes_eq [OF assms(1)])
  have card: "card (vad_nodes s') + 1 = card (vad_nodes s)" if "vad_nodes s' = vad_nodes s - {b}" "b \<in> vad_nodes s" for s' b
    using that fin by (metis Suc_eq_plus1 card_Suc_Diff1)
  have node: "x \<in> vad_nodes s" if "x \<in> set (inorder T)" for x using that by (simp add: vad_nodes_eq [OF assms(1)])
  let ?next = "first_of (inorder r @ after C)" and ?prev = "first_of (rev (before C @ inorder l))"
  show ?thesis
  proof (cases "?next \<noteq> 0 \<and> mi_can_merge_vads (vads s) v ?next")
    case True
    then obtain y ys where y: "inorder r @ after C = y # ys" "?next = y"
      by (cases "inorder r @ after C") (auto simp: first_of_def)
    have "inorder T = (before C @ inorder l) @ v # y # ys" using e y by simp
    then obtain s' where "mi_remove_vad y (upd v (ending_vpn_update (\<lambda>_. ending_vpn (vads s y))) s) = Some s'" "vad_valid s'"
      "\<And>va. page_attrs s' va = page_attrs s va" "vad_nodes s' = vad_nodes s - {y}"
      using merge_pair_attrs [OF assms(1)] True y(2) by metis
    then show ?thesis using v succ True y card [of s' y] node [of y] e
      by (intro exI [of _ True] exI [of _ s']) (simp add: mi_try_merge_vad_def)
  next
    case nonext: False
    show ?thesis
    proof (cases "?prev \<noteq> 0 \<and> mi_can_merge_vads (vads s) ?prev v")
      case True
      then obtain y ys where y: "before C @ inorder l = ys @ [y]" "?prev = y"
        by (cases "before C @ inorder l" rule: rev_cases) (auto simp: first_of_def)
      have "inorder T = ys @ y # v # (inorder r @ after C)" using e y by simp
      then obtain s' where "mi_remove_vad v (upd y (ending_vpn_update (\<lambda>_. ending_vpn (vads s v))) s) = Some s'" "vad_valid s'"
        "\<And>va. page_attrs s' va = page_attrs s va" "vad_nodes s' = vad_nodes s - {v}"
        using merge_pair_attrs [OF assms(1)] True y(2) by metis
      then show ?thesis using v succ pred nonext True y card [of s' v] node [of v] e
        by (intro exI [of _ True] exI [of _ s']) (auto simp: mi_try_merge_vad_def)
    next
      case False
      then have "mi_try_merge_vad v s = Some (False, s)" using v succ pred nonext by (auto simp: mi_try_merge_vad_def)
      then show ?thesis using assms(1) by (auto simp: vad_valid_def)
    qed
  qed
qed

section \<open>Properties\<close>

text \<open>A table of one node, and a node outside it, for the witnesses.\<close>

definition one_vad :: "u64 \<Rightarrow> u64 \<Rightarrow> MM_AVL_TABLE" where
  "one_vad lo hi = \<lparr>root = 2, node_count = 1, free_hint = 0,
     vads = (\<lambda>_. mmvad_short_new)(2 := mmvad_short_new\<lparr>starting_vpn := 0x20, ending_vpn := 0x2F\<rparr>,
       3 := mmvad_short_new\<lparr>starting_vpn := lo, ending_vpn := hi\<rparr>)\<rparr>"

lemma one_vad_inv: "vad_inv (one_vad lo hi) (Node Leaf 2 Leaf)"
  by (simp add: vad_inv_def vad_shape_def rep_def one_vad_def mmvad_short_new_def ranges_ok_def bal_of_def)

lemma one_vad_user: "user_vads (one_vad lo hi) (Node Leaf 2 Leaf)"
  unfolding user_vads_def by (intro conjI one_vad_inv) (simp add: within_def user_vpns one_vad_def mmvad_short_new_def)

text \<open>
  C1. MiInsertVad on a well-formed table and a fresh descriptor with a non-empty range returns. It
  reports a conflict exactly when the range overlaps one in the table, and then the table keeps its
  nodes; otherwise it adds the descriptor. Either way the result is a balanced tree with correct
  links, balances and count, in the order of its disjoint ranges, and no range, flag or reference
  count changes.
\<close>
theorem insert_vad_correct:
  assumes "vad_inv s T" and "v \<noteq> 0" and "v \<notin> set_tree T" and "starting_vpn (vads s v) \<le> ending_vpn (vads s v)"
  shows "\<exists>s' T'. mi_insert_vad v s = Some (if \<exists>a \<in> set_tree T. overlaps (vads s) (starting_vpn (vads s v)) (ending_vpn (vads s v)) a
        then STATUS_CONFLICTING_ADDRESSES else STATUS_SUCCESS, s') \<and> vad_inv s' T' \<and>
      set_tree T' = (if \<exists>a \<in> set_tree T. overlaps (vads s) (starting_vpn (vads s v)) (ending_vpn (vads s v)) a
        then set_tree T else insert v (set_tree T)) \<and>
      (\<forall>a. data (vads s' a) = data (vads s a)) \<and> (\<forall>a. a \<notin> insert v (set_tree T) \<longrightarrow> vads s' a = vads s a)"
proof -
  let ?c = "\<exists>a \<in> set_tree T. overlaps (vads s) (starting_vpn (vads s v)) (ending_vpn (vads s v)) a"
  have fr: "vad_fresh s v = Some (data (vads s v))" using assms by (simp add: vad_fresh_inv)
  have m: "(\<exists>b e. vad_area s b = Some e \<and> vad_meets e (data (vads s v))) \<longleftrightarrow> ?c"
    unfolding vad_area_ex [OF assms(1), where P = "\<lambda>e. vad_meets e (data (vads s v))"] by (simp add: vad_meets_data overlaps_def)
  obtain s' T' where s': "mi_insert_vad v s = Some (if ?c then STATUS_CONFLICTING_ADDRESSES else STATUS_SUCCESS, s')" "vad_inv s' T'"
    "vad_area s' = (if ?c then vad_area s else (vad_area s)(v \<mapsto> data (vads s v)))"
    "\<forall>a. a \<notin> insert v (set_tree T) \<longrightarrow> vads s' a = vads s a" "\<forall>a. data (vads s' a) = data (vads s a)"
    using vad_insert_law [OF assms(1) fr] unfolding m by blast
  have dom: "vad_inv t U \<Longrightarrow> dom (vad_area t) = set_tree U" for t U by (auto simp: vad_area_inv split: if_splits)
  have "set_tree T' = (if ?c then set_tree T else insert v (set_tree T))"
    using dom [OF s'(2)] dom [OF assms(1)] s'(3) by (cases ?c) (simp_all only: if_True if_False dom_fun_upd option.distinct)
  then show ?thesis using s'(1,2,4,5) by blast
qed

theorem insert_vad_correct_witness:
  "(\<exists>s' T'. mi_insert_vad 3 (one_vad 0x30 0x3F) = Some (STATUS_SUCCESS, s') \<and> vad_inv s' T' \<and> set_tree T' = {2, 3}) \<and>
   (\<exists>s' T'. mi_insert_vad 3 (one_vad 0x2F 0x3F) = Some (STATUS_CONFLICTING_ADDRESSES, s') \<and> vad_inv s' T' \<and> set_tree T' = {2})"
  using insert_vad_correct [OF one_vad_inv [of "0x30" "0x3F"], of 3] insert_vad_correct [OF one_vad_inv [of "0x2F" "0x3F"], of 3]
  by (intro conjI; fastforce simp: one_vad_def mmvad_short_new_def overlaps_def)

text \<open>
  C6. MiRemoveVad of a descriptor in a well-formed table returns. The order of the others and every
  range are unchanged, the tree is again balanced with correct links, balances and count, and the
  removed descriptor has no links left.
\<close>
theorem remove_vad_correct:
  assumes "vad_inv s T" and "v \<in> set_tree T"
  shows "\<exists>s' T'. mi_remove_vad v s = Some s' \<and> vad_inv s' T' \<and> inorder T' = remove1 v (inorder T) \<and>
      (\<forall>a. data (vads s' a) = data (vads s a)) \<and>
      parent (vads s' v) = 0 \<and> left_child (vads s' v) = 0 \<and> right_child (vads s' v) = 0"
  by (rule remove_vad_tree [OF assms]) (auto simp: clear_links_def)

theorem remove_vad_correct_witness:
  "\<exists>s' T'. mi_remove_vad 2 (one_vad 0x30 0x3F) = Some s' \<and> vad_inv s' T' \<and> inorder T' = []"
  using remove_vad_correct [OF one_vad_inv, of 2] by fastforce

text \<open>
  MiFindVad returns the one descriptor whose range contains the address, or null when there is
  none; it always terminates on a well-formed table.
\<close>
theorem find_vad_correct:
  assumes "vad_valid s"
  shows "\<exists>a. mi_find_vad s va = Some a \<and> (a \<noteq> 0 \<longrightarrow> a \<in> vad_nodes s \<and> contains_address (vads s a) va) \<and>
    (\<forall>b \<in> vad_nodes s. contains_address (vads s b) va \<longrightarrow> b = a)"
proof -
  obtain a where a: "mi_find_vad s va = Some a"
    "if a = 0 then \<forall>b d. vad_area s b = Some d \<longrightarrow> \<not> vad_covers d va else \<exists>d. vad_area s a = Some d \<and> vad_covers d va"
    using vad.find_law [OF assms] by blast
  have area: "vad_area s b = Some (data (vads s b))" if "b \<in> vad_nodes s" for b using that by (simp add: vad_area_def)
  have "b = a" if "b \<in> vad_nodes s" "contains_address (vads s b) va" for b
    using vad.find_covering [OF assms area [OF that(1)]] that(2) a(1) by (simp add: vad_covers_data)
  moreover have "a \<in> vad_nodes s \<and> contains_address (vads s a) va" if "a \<noteq> 0"
    using a(2) that vad_area_data [of s a] by (auto simp: vad_covers_data vad_area_def simp del: split_paired_Ex split: if_splits)
  ultimately show ?thesis using a(1) by blast
qed

theorem find_vad_correct_witness:
  "mi_find_vad (one_vad 0x30 0x3F) 0x25123 = Some 2 \<and> mi_find_vad (one_vad 0x30 0x3F) 0x30000 = Some 0"
proof -
  have "vad_valid (one_vad 0x30 0x3F)" using one_vad_inv by (auto simp: vad_valid_def)
  moreover have "vad_nodes (one_vad 0x30 0x3F) = {2}" using vad_nodes_eq [OF one_vad_inv] by simp
  moreover have "contains_address (vads (one_vad 0x30 0x3F) 2) 0x25123" "\<not> contains_address (vads (one_vad 0x30 0x3F) 2) 0x30000"
    by (simp_all add: contains_address_def one_vad_def mmvad_short_new_def VPN_SHIFT_def drop_bit_eq_div)
  ultimately show ?thesis
    using find_vad_correct [of "one_vad 0x30 0x3F" "0x25123"] find_vad_correct [of "one_vad 0x30 0x3F" "0x30000"] by fastforce
qed



text \<open>
  MiCheckVadConflict, with its two lookups and its pruned walk, is equivalent to asking whether
  some range of the table overlaps the given one.
\<close>
theorem check_conflict_correct:
  assumes "user_vads s T" and "lo \<le> hi" and "unat hi < 2 ^ 52"
  shows "mi_check_vad_conflict s lo hi = Some (\<exists>a \<in> set_tree T. starting_vpn (vads s a) \<le> hi \<and> lo \<le> ending_vpn (vads s a))"
  using check_conflict_tree [OF assms] by (simp add: overlaps_def)

theorem check_conflict_correct_witness:
  "mi_check_vad_conflict (one_vad 0 0) 0x10 0x50 = Some True \<and> mi_check_vad_conflict (one_vad 0 0) 0x30 0x50 = Some False"
  using check_conflict_correct [OF one_vad_user [of 0 0], of "0x10" "0x50"]
    check_conflict_correct [OF one_vad_user [of 0 0], of "0x30" "0x50"]
  by (simp add: one_vad_def mmvad_short_new_def)

text \<open>
  MiSplitVad at a page strictly inside a range cuts it in two: the old descriptor keeps the
  pages below, the new one gets the pages from there on with the same flags, and the lookup of
  every address gives the same type, protection, commit and private attributes as before.
\<close>
theorem split_vad_correct:
  assumes "vad_inv s T" and "v \<in> set_tree T" and "n \<noteq> 0" and "n \<notin> set_tree T"
    and "starting_vpn (vads s v) < p" and "p \<le> ending_vpn (vads s v)"
  shows "\<exists>s'. mi_split_vad v p n s = Some (n, s') \<and> vad_valid s' \<and>
    vad_area s' = (vad_area s)(v \<mapsto> data ((vads s v)\<lparr>ending_vpn := p - 1\<rparr>),
      n \<mapsto> data (mmvad_short_new\<lparr>starting_vpn := p, ending_vpn := ending_vpn (vads s v), vad_flags := vad_flags (vads s v)\<rparr>)) \<and>
    page_attrs s' va = page_attrs s va"
proof -
  obtain s' where s': "mi_split_vad v p n s = Some (n, s')" "vad_valid s'"
    "vad_area s' = (vad_area s)(v \<mapsto> data ((vads s v)\<lparr>ending_vpn := p - 1\<rparr>),
      n \<mapsto> data (mmvad_short_new\<lparr>starting_vpn := p, ending_vpn := ending_vpn (vads s v), vad_flags := vad_flags (vads s v)\<rparr>))"
    using split_vad_tree [OF assms] by blast
  let ?u = "(vads s v)\<lparr>ending_vpn := p - 1\<rparr>"
  let ?w = "mmvad_short_new\<lparr>starting_vpn := p, ending_vpn := ending_vpn (vads s v), vad_flags := vad_flags (vads s v)\<rparr>"
  have vn: "v \<noteq> n" using assms(2,4) by blast
  have p: "p - 1 + 1 = p" "p - 1 < p" "starting_vpn (vads s v) \<le> p - 1" "p - 1 \<le> ending_vpn (vads s v)"
    using assms(5,6) by (auto simp: word_le_nat_alt word_less_nat_alt unat_sub_if_size)
  have old: "vad_area s v = Some (data (vads s v))" "vad_area s n = None" "vad_valid s"
    using assms(1,2,4) by (auto simp: vad_area_inv vad_valid_def)
  have "vad_area s = (vad_area s')(v \<mapsto> data (?u\<lparr>ending_vpn := ending_vpn ?w\<rparr>), n := None)"
    using s'(3) old vn by (auto simp: fun_eq_iff)
  then have "page_attrs s va = page_attrs s' va"
    using s'(2,3) old(3) vn p assms(5,6) by (intro merged_attrs [of s' s v n ?u ?w]) (auto simp: vad_attrs_def)
  then show ?thesis using s' by auto
qed

theorem split_vad_correct_witness:
  "\<exists>s'. mi_split_vad 2 0x28 3 (one_vad 0 0) = Some (3, s') \<and> vad_valid s'"
  using split_vad_correct [OF one_vad_inv [of 0 0], of 2 3 "0x28"]
  by (fastforce simp: one_vad_def mmvad_short_new_def)



text \<open>
  Inserting a descriptor that overlaps none and removing it again gives back the same ranges,
  flags and counts at the same descriptors.
\<close>
theorem insert_remove_vad:
  assumes "vad_valid s" and "vad_fresh s v = Some d" and "\<forall>b e. vad_area s b = Some e \<longrightarrow> \<not> vad_meets e d"
  shows "\<exists>s' s''. mi_insert_vad v s = Some (STATUS_SUCCESS, s') \<and> mi_remove_vad v s' = Some s'' \<and> vad_valid s'' \<and>
    vad_area s'' = vad_area s"
  by (rule vad.insert_remove [OF assms(1,2)]) (use assms(3) in blast)+

theorem insert_remove_vad_witness:
  "\<exists>s' s''. mi_insert_vad 3 (one_vad 0x30 0x3F) = Some (STATUS_SUCCESS, s') \<and> mi_remove_vad 3 s' = Some s'' \<and> vad_valid s''"
proof -
  let ?s = "one_vad 0x30 0x3F" and ?d = "data (vads (one_vad 0x30 0x3F) 3)"
  note i = one_vad_inv [of "0x30" "0x3F"]
  have "vad_valid ?s" using i by (auto simp: vad_valid_def)
  moreover have "vad_fresh ?s 3 = Some ?d" by (simp add: vad_fresh_inv [OF i]) (simp add: one_vad_def mmvad_short_new_def)
  moreover have "\<forall>b e. vad_area ?s b = Some e \<longrightarrow> \<not> vad_meets e ?d"
    by (auto simp: vad_area_inv [OF i] vad_meets_data simp del: split_paired_All split: if_splits)
       (simp add: one_vad_def mmvad_short_new_def)
  ultimately show ?thesis using insert_remove_vad [of ?s 3 ?d] by blast
qed

end
