(* ===== verification/VirtualMem.thy ===== *)
theory VirtualMem
  imports FaultProps
begin

text \<open>
  The virtual memory services (\<open>mm/virtual_mem.rs\<close>): allocation, freeing, protection and query of the
  address space of the current process, over its VAD table, the page table entries, the frame
  database and the commit accounting. Addresses that the pool returns for new descriptors are
  arguments, 0 where it has no memory, and so are the values behind the caller's pointers, \<open>None\<close> for
  a null pointer. A loop over pages runs over as many as the source computes, wrapped or not. The
  services return the status, the values written back, and the state; \<open>None\<close> is a search that
  does not end. The lock of the address space is held throughout and is not modelled.
\<close>

definition MM_ALLOCATION_GRANULARITY :: u64 where "MM_ALLOCATION_GRANULARITY = 0x10000"

definition STATUS_INVALID_PAGE_PROTECTION :: ntstatus where "STATUS_INVALID_PAGE_PROTECTION = 0xC0000045"
definition STATUS_MEMORY_NOT_ALLOCATED :: ntstatus where "STATUS_MEMORY_NOT_ALLOCATED = 0xC00000A0"
definition STATUS_UNABLE_TO_DELETE_SECTION :: ntstatus where "STATUS_UNABLE_TO_DELETE_SECTION = 0xC0000022"

definition MEM_COMMIT :: u32 where "MEM_COMMIT = 0x1000"
definition MEM_RESERVE :: u32 where "MEM_RESERVE = 0x2000"
definition MEM_DECOMMIT :: u32 where "MEM_DECOMMIT = 0x4000"
definition MEM_RELEASE :: u32 where "MEM_RELEASE = 0x8000"
definition MEM_FREE :: u32 where "MEM_FREE = 0x10000"
definition MEM_PRIVATE :: u32 where "MEM_PRIVATE = 0x20000"
definition MEM_MAPPED :: u32 where "MEM_MAPPED = 0x40000"
definition MEM_TOP_DOWN :: u32 where "MEM_TOP_DOWN = 0x100000"

definition PAGE_NOACCESS :: u32 where "PAGE_NOACCESS = 0x01"
definition PAGE_READONLY :: u32 where "PAGE_READONLY = 0x02"
definition PAGE_READWRITE :: u32 where "PAGE_READWRITE = 0x04"
definition PAGE_WRITECOPY :: u32 where "PAGE_WRITECOPY = 0x08"
definition PAGE_EXECUTE :: u32 where "PAGE_EXECUTE = 0x10"
definition PAGE_EXECUTE_READ :: u32 where "PAGE_EXECUTE_READ = 0x20"
definition PAGE_EXECUTE_READWRITE :: u32 where "PAGE_EXECUTE_READWRITE = 0x40"
definition PAGE_EXECUTE_WRITECOPY :: u32 where "PAGE_EXECUTE_WRITECOPY = 0x80"
definition PAGE_GUARD :: u32 where "PAGE_GUARD = 0x100"
definition PAGE_NOCACHE :: u32 where "PAGE_NOCACHE = 0x200"
definition PAGE_WRITECOMBINE :: u32 where "PAGE_WRITECOMBINE = 0x400"

definition MM_ZERO_ACCESS :: u32 where "MM_ZERO_ACCESS = 0"
definition MM_PROTECT_ACCESS :: u32 where "MM_PROTECT_ACCESS = 7"
definition MM_NOCACHE :: u32 where "MM_NOCACHE = 0x08"
definition MM_GUARDPAGE :: u32 where "MM_GUARDPAGE = 0x10"
definition MM_WRITECOMBINE :: u32 where "MM_WRITECOMBINE = 0x18"
definition MM_NOACCESS :: u32 where "MM_NOACCESS = MM_ZERO_ACCESS OR MM_WRITECOMBINE"

lemmas page_defs = PAGE_NOACCESS_def PAGE_READONLY_def PAGE_READWRITE_def PAGE_WRITECOPY_def PAGE_EXECUTE_def
  PAGE_EXECUTE_READ_def PAGE_EXECUTE_READWRITE_def PAGE_EXECUTE_WRITECOPY_def PAGE_GUARD_def PAGE_NOCACHE_def
  PAGE_WRITECOMBINE_def

lemmas mm_prot_defs = MM_ZERO_ACCESS_def MM_PROTECT_ACCESS_def MM_NOCACHE_def MM_GUARDPAGE_def MM_WRITECOMBINE_def
  MM_NOACCESS_def MM_READONLY_def MM_EXECUTE_def MM_EXECUTE_READ_def MM_READWRITE_def MM_WRITECOPY_def
  MM_EXECUTE_READWRITE_def MM_EXECUTE_WRITECOPY_def

section \<open>Protections\<close>

definition is_valid_protection :: "u32 \<Rightarrow> bool" where
  "is_valid_protection protect \<longleftrightarrow> protect AND 0xFF \<in> {PAGE_NOACCESS, PAGE_READONLY, PAGE_READWRITE, PAGE_WRITECOPY,
     PAGE_EXECUTE, PAGE_EXECUTE_READ, PAGE_EXECUTE_READWRITE, PAGE_EXECUTE_WRITECOPY}"

definition mi_convert_protection :: "u32 \<Rightarrow> u32" where
  "mi_convert_protection protect =
    (let base = protect AND 0xFF; modifiers = protect AND 0xFF00;
         r = (if base = PAGE_NOACCESS then MM_NOACCESS else if base = PAGE_READONLY then MM_READONLY
              else if base = PAGE_READWRITE then MM_READWRITE else if base = PAGE_WRITECOPY then MM_WRITECOPY
              else if base = PAGE_EXECUTE then MM_EXECUTE else if base = PAGE_EXECUTE_READ then MM_EXECUTE_READ
              else if base = PAGE_EXECUTE_READWRITE then MM_EXECUTE_READWRITE
              else if base = PAGE_EXECUTE_WRITECOPY then MM_EXECUTE_WRITECOPY else MM_NOACCESS);
         r = (if modifiers AND PAGE_GUARD \<noteq> 0 then r OR MM_GUARDPAGE else r);
         r = (if modifiers AND PAGE_NOCACHE \<noteq> 0 then r OR MM_NOCACHE else r)
     in if modifiers AND PAGE_WRITECOMBINE \<noteq> 0 then r OR MM_WRITECOMBINE else r)"

definition mi_protection_to_page_constant :: "u32 \<Rightarrow> u32" where
  "mi_protection_to_page_constant p =
    (let base = p AND MM_PROTECT_ACCESS; modifiers = p AND NOT MM_PROTECT_ACCESS;
         r = (if base = MM_ZERO_ACCESS then PAGE_NOACCESS else if base = MM_READONLY then PAGE_READONLY
              else if base = MM_EXECUTE then PAGE_EXECUTE else if base = MM_EXECUTE_READ then PAGE_EXECUTE_READ
              else if base = MM_READWRITE then PAGE_READWRITE else if base = MM_WRITECOPY then PAGE_WRITECOPY
              else if base = MM_EXECUTE_READWRITE then PAGE_EXECUTE_READWRITE
              else if base = MM_EXECUTE_WRITECOPY then PAGE_EXECUTE_WRITECOPY else PAGE_NOACCESS);
         r = (if modifiers AND MM_GUARDPAGE \<noteq> 0 then r OR PAGE_GUARD else r);
         r = (if modifiers AND MM_NOCACHE \<noteq> 0 then r OR PAGE_NOCACHE else r)
     in if modifiers AND MM_WRITECOMBINE \<noteq> 0 then r OR PAGE_WRITECOMBINE else r)"

definition mi_protection_to_pte_mask :: "u32 \<Rightarrow> u64" where
  "mi_protection_to_pte_mask p =
    (let base = p AND MM_PROTECT_ACCESS in
     if base = MM_READONLY \<or> base = MM_EXECUTE \<or> base = MM_EXECUTE_READ \<or> base = MM_READWRITE \<or>
        base = MM_WRITECOPY \<or> base = MM_EXECUTE_READWRITE \<or> base = MM_EXECUTE_WRITECOPY
     then let f = (if base = MM_READONLY \<or> base = MM_EXECUTE \<or> base = MM_EXECUTE_READ then PTE_VALID
                   else PTE_VALID OR PTE_READWRITE);
              f = (if base = MM_READONLY \<or> base = MM_READWRITE \<or> base = MM_WRITECOPY then f OR PTE_NX else f)
          in if p AND MM_NOCACHE \<noteq> 0 then f OR PTE_DISABLE_CACHE else f
     else 0)"

definition mi_pte_to_page_protection :: "u64 \<Rightarrow> u32" where
  "mi_pte_to_page_protection v =
    (if v AND PTE_VALID = 0 then PAGE_NOACCESS
     else let writable = v AND PTE_READWRITE \<noteq> 0; executable = v AND PTE_NX = 0 in
       if writable then (if executable then PAGE_EXECUTE_READWRITE else PAGE_READWRITE)
       else (if executable then PAGE_EXECUTE_READ else PAGE_READONLY))"

section \<open>State and commit accounting\<close>

record VM =
  vad_root :: "MM_AVL_TABLE option"
  commit_charge :: u64
  total_committed :: u64
  commit_limit :: u64
  vm_mm :: MM

definition on_mm :: "(MM \<Rightarrow> MM) \<Rightarrow> VM \<Rightarrow> VM" where
  "on_mm f s = s\<lparr>vm_mm := f (vm_mm s)\<rparr>"

definition mi_charge_commit :: "u64 \<Rightarrow> VM \<Rightarrow> bool \<times> VM" where
  "mi_charge_commit pages s =
    (if commit_limit s = 0 then (True, s\<lparr>total_committed := total_committed s + pages\<rparr>)
     else if commit_limit s < total_committed s + pages then (False, s)
     else (True, s\<lparr>total_committed := total_committed s + pages\<rparr>))"

definition mi_return_commit :: "u64 \<Rightarrow> VM \<Rightarrow> VM" where
  "mi_return_commit pages s = s\<lparr>total_committed := total_committed s - pages\<rparr>"

definition charge_process :: "u64 \<Rightarrow> VM \<Rightarrow> VM" where
  "charge_process pages s = s\<lparr>commit_charge := commit_charge s + pages\<rparr>"

definition discharge_process :: "u64 \<Rightarrow> VM \<Rightarrow> VM" where
  "discharge_process pages s = s\<lparr>commit_charge := commit_charge s - pages\<rparr>"

section \<open>Page tables\<close>

text \<open>
  A new page table is a frame whose words appear in the window of the recursive mapping as soon
  as the entry above refers to it.
\<close>

definition page_word :: "u8 list \<Rightarrow> u64 \<Rightarrow> u64" where
  "page_word bs off = foldr (\<lambda>b acc. push_bit 8 acc OR ucast b) (take 8 (drop (unat off) bs)) 0"

definition install_table :: "u64 \<Rightarrow> u64 \<Rightarrow> u64 \<Rightarrow> MM \<Rightarrow> MM" where
  "install_table entry window p s =
    (let s = write_pte entry (push_bit 12 p OR PTE_VALID OR PTE_READWRITE OR PTE_USER) s
     in s\<lparr>pte_words := (\<lambda>a. if a AND NOT 0xFFF = window then page_word (page_bytes s p) (a AND 0xFFF) else pte_words s a)\<rparr>)"

definition ensure_level :: "u64 \<Rightarrow> u64 \<Rightarrow> MM \<Rightarrow> bool \<times> MM" where
  "ensure_level entry below s =
    (if read_pte s entry AND PTE_VALID = 0
     then (case mi_allocate_pfn s of
             (Some p, s) \<Rightarrow> (True, install_table entry (below AND NOT 0xFFF) p s)
           | (None, s) \<Rightarrow> (False, s))
     else (True, s))"

definition mi_ensure_page_table_hierarchy :: "u64 \<Rightarrow> MM \<Rightarrow> bool \<times> MM" where
  "mi_ensure_page_table_hierarchy va s =
    (case ensure_level (mm_get_pxe_address va) (mm_get_ppe_address va) s of
       (False, s) \<Rightarrow> (False, s)
     | (True, s) \<Rightarrow>
         (case ensure_level (mm_get_ppe_address va) (mm_get_pde_address va) s of
            (False, s) \<Rightarrow> (False, s)
          | (True, s) \<Rightarrow> ensure_level (mm_get_pde_address va) (mm_get_pte_address va) s))"

definition page_va :: "u64 \<Rightarrow> nat \<Rightarrow> u64" where "page_va start i = start + of_nat i * 4096"

definition commit_page :: "u64 \<Rightarrow> u32 \<Rightarrow> nat \<Rightarrow> MM \<Rightarrow> MM" where
  "commit_page start prot i s =
    (case mi_ensure_page_table_hierarchy (page_va start i) s of
       (True, s) \<Rightarrow> mi_make_demand_zero_pte (page_va start i) prot s
     | (False, s) \<Rightarrow> s)"

definition mi_commit_pages :: "u64 \<Rightarrow> u64 \<Rightarrow> u32 \<Rightarrow> MM \<Rightarrow> MM" where
  "mi_commit_pages start page_count protect =
    fold (commit_page start (mi_convert_protection protect)) [0..<unat page_count]"

definition decommit_pages :: "u64 \<Rightarrow> u64 \<Rightarrow> MM \<Rightarrow> MM" where
  "decommit_pages start page_count = fold (\<lambda>i. mi_decommit_page (page_va start i)) [0..<unat page_count]"

section \<open>Allocation\<close>

definition mi_check_zero_bits :: "u64 \<Rightarrow> u64 \<Rightarrow> bool" where
  "mi_check_zero_bits va zero_bits \<longleftrightarrow> zero_bits = 0 \<or>
     va AND NOT (push_bit (unat (48 - zero_bits) mod 64) 1 - 1) = 0"

text \<open>First and last address of the region and its number of pages; 0 where no range is found.\<close>

definition chosen_range :: "MM_AVL_TABLE \<Rightarrow> u64 \<Rightarrow> u64 \<Rightarrow> bool \<Rightarrow> (ntstatus + u64 \<times> u64 \<times> u64) option" where
  "chosen_range tbl sz zero_bits top_down =
    (let aligned = (sz + MM_ALLOCATION_GRANULARITY - 1) AND NOT (MM_ALLOCATION_GRANULARITY - 1)
     in Option.bind (mi_find_empty_address_range tbl aligned MM_ALLOCATION_GRANULARITY top_down) (\<lambda>va.
       Some (if va = 0 then Inl STATUS_NO_MEMORY
             else if 0 < zero_bits \<and> \<not> mi_check_zero_bits va zero_bits then Inl STATUS_NO_MEMORY
             else Inr (va, va + aligned - 1, (aligned + 4096 - 1) div 4096))))"

definition given_range :: "u64 \<Rightarrow> u64 \<Rightarrow> u64 \<times> u64 \<times> u64" where
  "given_range base sz =
    (let start = base AND NOT (MM_ALLOCATION_GRANULARITY - 1); aligned = page_align_up (sz + (base - start))
     in (start, start + aligned - 1, aligned div 4096))"

definition new_private_vad :: "u64 \<Rightarrow> u64 \<Rightarrow> u32 \<Rightarrow> MMVAD_SHORT" where
  "new_private_vad start_vpn end_vpn protect = mmvad_short_new\<lparr>starting_vpn := start_vpn, ending_vpn := end_vpn,
     vad_flags := set_private_memory (set_protection (set_vad_type 0 VadPrivateMemory) (mi_convert_protection protect)) True\<rparr>"

definition set_node :: "nat \<Rightarrow> MMVAD_SHORT \<Rightarrow> MM_AVL_TABLE \<Rightarrow> MM_AVL_TABLE" where
  "set_node a v t = t\<lparr>vads := (vads t)(a := v)\<rparr>"

definition reserve_region :: "nat \<Rightarrow> u64 \<Rightarrow> u64 \<Rightarrow> u64 \<Rightarrow> u32 \<Rightarrow> bool \<Rightarrow> MM_AVL_TABLE \<Rightarrow> VM \<Rightarrow> (ntstatus \<times> VM) option" where
  "reserve_region new_vad start end_va pages protect do_commit tbl s =
    (let start_vpn = drop_bit VPN_SHIFT start; end_vpn = drop_bit VPN_SHIFT end_va in
     Option.bind (mi_find_vad tbl start) (\<lambda>existing.
       if existing \<noteq> 0 then Some (STATUS_CONFLICTING_ADDRESSES, s)
       else Option.bind (mi_check_vad_conflict tbl start_vpn end_vpn) (\<lambda>conflict.
         if conflict then Some (STATUS_CONFLICTING_ADDRESSES, s)
         else if new_vad = 0 then Some (STATUS_NO_MEMORY, s)
         else let v = new_private_vad start_vpn end_vpn protect in
           case (if do_commit then mi_charge_commit pages s else (True, s)) of
             (False, s) \<Rightarrow> Some (STATUS_NO_MEMORY, s)
           | (True, s) \<Rightarrow>
               (let v = (if do_commit then v\<lparr>vad_flags := set_commit (vad_flags v) True\<rparr> else v);
                    s = (if do_commit then charge_process pages s else s)
                in Option.bind (mi_insert_vad new_vad (set_node new_vad v tbl)) (\<lambda>(status, tbl).
                  let s = s\<lparr>vad_root := Some tbl\<rparr> in
                  if status \<noteq> STATUS_SUCCESS
                  then Some (status, if do_commit then discharge_process pages (mi_return_commit pages s) else s)
                  else Some (STATUS_SUCCESS, if do_commit then on_mm (mi_commit_pages start pages protect) s else s))))))"

definition commit_region :: "u64 \<Rightarrow> u64 \<Rightarrow> u64 \<Rightarrow> u32 \<Rightarrow> MM_AVL_TABLE \<Rightarrow> VM \<Rightarrow> (ntstatus \<times> VM) option" where
  "commit_region start end_va pages protect tbl s =
    (let start_vpn = drop_bit VPN_SHIFT start; end_vpn = drop_bit VPN_SHIFT end_va in
     Option.bind (mi_find_vad tbl start) (\<lambda>existing.
       if existing = 0 then Some (STATUS_MEMORY_NOT_ALLOCATED, s)
       else let v = vads tbl existing in
         if start_vpn < starting_vpn v \<or> ending_vpn v < end_vpn then Some (STATUS_CONFLICTING_ADDRESSES, s)
         else if vad_type (vad_flags v) \<noteq> VadPrivateMemory then Some (STATUS_CONFLICTING_ADDRESSES, s)
         else if commit (vad_flags v) then Some (STATUS_SUCCESS, on_mm (mi_commit_pages start pages protect) s)
         else case mi_charge_commit pages s of
             (False, s) \<Rightarrow> Some (STATUS_NO_MEMORY, s)
           | (True, s) \<Rightarrow> Some (STATUS_SUCCESS, on_mm (mi_commit_pages start pages protect) (charge_process pages
               (s\<lparr>vad_root := Some (upd existing (\<lambda>v. v\<lparr>vad_flags := set_commit (vad_flags v) True\<rparr>) tbl)\<rparr>)))))"

type_synonym vm_result = "ntstatus \<times> u64 \<times> u64 \<times> VM"

definition mi_allocate_virtual_memory_internal ::
    "nat \<Rightarrow> MM_AVL_TABLE \<Rightarrow> u64 \<Rightarrow> u64 \<Rightarrow> u64 \<Rightarrow> u32 \<Rightarrow> u32 \<Rightarrow> VM \<Rightarrow> vm_result option" where
  "mi_allocate_virtual_memory_internal new_vad tbl base sz zero_bits alloc_type protect s =
    (let do_reserve = alloc_type AND MEM_RESERVE \<noteq> 0; do_commit = alloc_type AND MEM_COMMIT \<noteq> 0;
         top_down = alloc_type AND MEM_TOP_DOWN \<noteq> 0
     in Option.bind (if base = 0 then chosen_range tbl sz zero_bits top_down else Some (Inr (given_range base sz)))
       (\<lambda>r. case r of
          Inl status \<Rightarrow> Some (status, base, sz, s)
        | Inr (start, end_va, pages) \<Rightarrow>
            if start < MM_LOWEST_USER_ADDRESS \<or> MM_HIGHEST_USER_ADDRESS < end_va
            then Some (STATUS_INVALID_PARAMETER, base, sz, s)
            else Option.bind (if do_reserve then reserve_region new_vad start end_va pages protect do_commit tbl s
                              else commit_region start end_va pages protect tbl s) (\<lambda>(status, s).
              if status = STATUS_SUCCESS then Some (STATUS_SUCCESS, start, pages * 4096, s)
              else Some (status, base, sz, s))))"

definition empty_vads :: MM_AVL_TABLE where
  "empty_vads = \<lparr>root = 0, node_count = 0, free_hint = 0, vads = (\<lambda>_. mmvad_short_new)\<rparr>"

definition nt_allocate_virtual_memory ::
    "bool \<Rightarrow> nat \<Rightarrow> u64 option \<Rightarrow> u64 \<Rightarrow> u64 option \<Rightarrow> u32 \<Rightarrow> u32 \<Rightarrow> VM \<Rightarrow> vm_result option" where
  "nt_allocate_virtual_memory pool_ok new_vad base zero_bits sz alloc_type protect s =
    (case (base, sz) of
       (Some b, Some n) \<Rightarrow>
         (if n = 0 then Some (STATUS_INVALID_PARAMETER, b, n, s)
          else if alloc_type AND MEM_RESERVE = 0 \<and> alloc_type AND MEM_COMMIT = 0 then Some (STATUS_INVALID_PARAMETER, b, n, s)
          else if \<not> is_valid_protection protect then Some (STATUS_INVALID_PAGE_PROTECTION, b, n, s)
          else case vad_root s of
            Some tbl \<Rightarrow> mi_allocate_virtual_memory_internal new_vad tbl b n zero_bits alloc_type protect s
          | None \<Rightarrow>
              if \<not> pool_ok then Some (STATUS_NO_MEMORY, b, n, s)
              else mi_allocate_virtual_memory_internal new_vad empty_vads b n zero_bits alloc_type protect
                (s\<lparr>vad_root := Some empty_vads\<rparr>))
     | _ \<Rightarrow> Some (STATUS_INVALID_PARAMETER, 0, 0, s))"

section \<open>Freeing\<close>

definition mi_free_virtual_memory_release :: "MM_AVL_TABLE \<Rightarrow> u64 \<Rightarrow> u64 \<Rightarrow> VM \<Rightarrow> vm_result option" where
  "mi_free_virtual_memory_release tbl base sz s =
    Option.bind (mi_find_vad tbl base) (\<lambda>vad.
      if vad = 0 then Some (STATUS_MEMORY_NOT_ALLOCATED, base, sz, s)
      else let v = vads tbl vad; vad_start = start_address v in
        if base \<noteq> vad_start then Some (STATUS_INVALID_PARAMETER, base, sz, s)
        else if vad_type (vad_flags v) \<noteq> VadPrivateMemory then Some (STATUS_UNABLE_TO_DELETE_SECTION, base, sz, s)
        else let pages = vad_size v div 4096;
                 s = (if commit (vad_flags v)
                      then discharge_process pages (mi_return_commit pages (on_mm (decommit_pages vad_start pages) s))
                      else s)
             in Option.bind (mi_remove_vad vad tbl) (\<lambda>tbl.
               Some (STATUS_SUCCESS, vad_start, end_address v - vad_start, s\<lparr>vad_root := Some tbl\<rparr>)))"

definition page_range :: "u64 \<Rightarrow> u64 \<Rightarrow> u64 \<times> u64" where
  "page_range base sz = (page_align base, page_align_up (base + sz))"

definition mi_free_virtual_memory_decommit :: "MM_AVL_TABLE \<Rightarrow> u64 \<Rightarrow> u64 \<Rightarrow> VM \<Rightarrow> vm_result option" where
  "mi_free_virtual_memory_decommit tbl base sz s =
    (if sz = 0 then Some (STATUS_INVALID_PARAMETER, base, sz, s)
     else case page_range base sz of (start, end_va) \<Rightarrow>
       let start_vpn = drop_bit VPN_SHIFT start; end_vpn = drop_bit VPN_SHIFT (end_va - 1) in
       Option.bind (mi_find_vad tbl start) (\<lambda>vad.
         if vad = 0 then Some (STATUS_MEMORY_NOT_ALLOCATED, base, sz, s)
         else let v = vads tbl vad in
           if start_vpn < starting_vpn v \<or> ending_vpn v < end_vpn then Some (STATUS_INVALID_PARAMETER, base, sz, s)
           else if vad_type (vad_flags v) \<noteq> VadPrivateMemory then Some (STATUS_INVALID_PARAMETER, base, sz, s)
           else if \<not> commit (vad_flags v) then Some (STATUS_SUCCESS, start, end_va - start, s)
           else let pages = (end_va - start) div 4096;
                    s = on_mm (decommit_pages start pages) s;
                    s = (if starting_vpn v = start_vpn \<and> ending_vpn v = end_vpn
                         then s\<lparr>vad_root := Some (upd vad (\<lambda>v. v\<lparr>vad_flags := set_commit (vad_flags v) False\<rparr>) tbl)\<rparr>
                         else s)
                in Some (STATUS_SUCCESS, start, end_va - start, discharge_process pages (mi_return_commit pages s))))"

definition nt_free_virtual_memory :: "u64 option \<Rightarrow> u64 option \<Rightarrow> u32 \<Rightarrow> VM \<Rightarrow> vm_result option" where
  "nt_free_virtual_memory base sz free_type s =
    (case (base, sz) of
       (Some b, Some n) \<Rightarrow>
         (let do_decommit = free_type AND MEM_DECOMMIT \<noteq> 0; do_release = free_type AND MEM_RELEASE \<noteq> 0 in
          if do_decommit \<and> do_release then Some (STATUS_INVALID_PARAMETER, b, n, s)
          else if \<not> do_decommit \<and> \<not> do_release then Some (STATUS_INVALID_PARAMETER, b, n, s)
          else if do_release \<and> n \<noteq> 0 then Some (STATUS_INVALID_PARAMETER, b, n, s)
          else case vad_root s of
            None \<Rightarrow> Some (STATUS_MEMORY_NOT_ALLOCATED, b, n, s)
          | Some tbl \<Rightarrow>
              if do_release then mi_free_virtual_memory_release tbl b n s
              else mi_free_virtual_memory_decommit tbl b n s)
     | _ \<Rightarrow> Some (STATUS_INVALID_PARAMETER, 0, 0, s))"

section \<open>Protection\<close>

definition protect_page :: "u64 \<Rightarrow> u32 \<Rightarrow> nat \<Rightarrow> MM \<Rightarrow> MM" where
  "protect_page start prot i s =
    (let a = mm_get_pte_address (page_va start i); v = read_pte s a in
     if v AND PTE_VALID \<noteq> 0
     then write_pte a (push_bit 12 (pte_frame v) OR mi_protection_to_pte_mask prot OR PTE_VALID) s
     else if v \<noteq> 0 then write_pte a (v AND NOT 0x3E0 OR push_bit 5 (ucast prot AND 0x1F)) s
     else s)"

definition set_vad_protection :: "nat \<Rightarrow> u32 \<Rightarrow> MM_AVL_TABLE \<Rightarrow> MM_AVL_TABLE" where
  "set_vad_protection a prot = upd a (\<lambda>v. v\<lparr>vad_flags := set_protection (vad_flags v) prot\<rparr>)"

text \<open>The table with the range given a descriptor of its own; \<open>Inl\<close> where a split fails.\<close>

definition split_for :: "nat \<Rightarrow> nat \<Rightarrow> nat \<Rightarrow> u64 \<Rightarrow> u64 \<Rightarrow> u32 \<Rightarrow> MM_AVL_TABLE \<Rightarrow> (MM_AVL_TABLE + MM_AVL_TABLE) option" where
  "split_for n1 n2 vad start_vpn end_vpn prot tbl =
    (let v = vads tbl vad in
     if start_vpn = starting_vpn v \<and> end_vpn = ending_vpn v then Some (Inr (set_vad_protection vad prot tbl))
     else if start_vpn = starting_vpn v
     then Option.bind (mi_split_vad vad (end_vpn + 1) n1 tbl) (\<lambda>(new, tbl).
       Some (if new = 0 then Inl tbl else Inr (set_vad_protection vad prot tbl)))
     else if end_vpn = ending_vpn v
     then Option.bind (mi_split_vad vad start_vpn n1 tbl) (\<lambda>(new, tbl).
       Some (if new = 0 then Inl tbl else Inr (set_vad_protection new prot tbl)))
     else Option.bind (mi_split_vad vad start_vpn n1 tbl) (\<lambda>(mid, tbl).
       if mid = 0 then Some (Inl tbl)
       else Option.bind (mi_split_vad mid (end_vpn + 1) n2 tbl) (\<lambda>(last, tbl).
         Some (if last = 0 then Inl tbl else Inr (set_vad_protection mid prot tbl)))))"

definition mi_protect_virtual_memory_internal ::
    "nat \<Rightarrow> nat \<Rightarrow> MM_AVL_TABLE \<Rightarrow> u64 \<Rightarrow> u64 \<Rightarrow> u32 \<Rightarrow> u32 \<Rightarrow> VM \<Rightarrow> (ntstatus \<times> u64 \<times> u64 \<times> u32 \<times> VM) option" where
  "mi_protect_virtual_memory_internal n1 n2 tbl base sz new_protect old s =
    (case page_range base sz of (start, end_va) \<Rightarrow>
       let start_vpn = drop_bit VPN_SHIFT start; end_vpn = drop_bit VPN_SHIFT (end_va - 1) in
       Option.bind (mi_find_vad tbl start) (\<lambda>vad.
         if vad = 0 then Some (STATUS_MEMORY_NOT_ALLOCATED, base, sz, old, s)
         else let v = vads tbl vad in
           if start_vpn < starting_vpn v \<or> ending_vpn v < end_vpn then Some (STATUS_INVALID_PARAMETER, base, sz, old, s)
           else let old = mi_protection_to_page_constant (protection (vad_flags v));
                    prot = mi_convert_protection new_protect
                in Option.bind (split_for n1 n2 vad start_vpn end_vpn prot tbl) (\<lambda>r. case r of
                  Inl tbl \<Rightarrow> Some (STATUS_NO_MEMORY, base, sz, old, s\<lparr>vad_root := Some tbl\<rparr>)
                | Inr tbl \<Rightarrow> Some (STATUS_SUCCESS, start, end_va - start, old,
                    on_mm (fold (protect_page start prot) [0..<unat ((end_va - start) div 4096)]) (s\<lparr>vad_root := Some tbl\<rparr>)))))"

definition nt_protect_virtual_memory ::
    "nat \<Rightarrow> nat \<Rightarrow> u64 option \<Rightarrow> u64 option \<Rightarrow> u32 \<Rightarrow> u32 option \<Rightarrow> VM \<Rightarrow> (ntstatus \<times> u64 \<times> u64 \<times> u32 \<times> VM) option" where
  "nt_protect_virtual_memory n1 n2 base sz new_protect old s =
    (case (base, sz, old) of
       (Some b, Some n, Some old_protect) \<Rightarrow>
         (if n = 0 then Some (STATUS_INVALID_PARAMETER, b, n, old_protect, s)
          else if \<not> is_valid_protection new_protect then Some (STATUS_INVALID_PAGE_PROTECTION, b, n, old_protect, s)
          else case vad_root s of
            None \<Rightarrow> Some (STATUS_MEMORY_NOT_ALLOCATED, b, n, old_protect, s)
          | Some tbl \<Rightarrow> mi_protect_virtual_memory_internal n1 n2 tbl b n new_protect old_protect s)
     | _ \<Rightarrow> Some (STATUS_INVALID_PARAMETER, 0, 0, 0, s))"

section \<open>Query\<close>

record MEMORY_BASIC_INFORMATION =
  mbi_base_address :: u64
  mbi_allocation_base :: u64
  mbi_allocation_protect :: u32
  mbi_region_size :: u64
  mbi_state :: u32
  mbi_protect :: u32
  mbi_type :: u32

definition free_region :: "u64 \<Rightarrow> u64 \<Rightarrow> MEMORY_BASIC_INFORMATION" where
  "free_region a n = \<lparr>mbi_base_address = a, mbi_allocation_base = 0, mbi_allocation_protect = 0, mbi_region_size = n,
     mbi_state = MEM_FREE, mbi_protect = PAGE_NOACCESS, mbi_type = 0\<rparr>"

partial_function (option) next_start :: "vad_store \<Rightarrow> u64 \<Rightarrow> nat list \<Rightarrow> nat \<Rightarrow> u64 \<Rightarrow> u64 option" where
  "next_start h vpn stack node best =
    (if node \<noteq> 0 \<and> length stack < 64 then next_start h vpn (node # stack) (left_child (h node)) best
     else if stack = [] then Some best
     else if vpn < starting_vpn (h (hd stack))
     then Some (if start_address (h (hd stack)) < best then start_address (h (hd stack)) else best)
     else next_start h vpn (tl stack) (right_child (h (hd stack))) best)"

definition mi_find_next_vad_start :: "MM_AVL_TABLE option \<Rightarrow> u64 \<Rightarrow> u64 option" where
  "mi_find_next_vad_start t va =
    (case t of None \<Rightarrow> Some (MM_HIGHEST_USER_ADDRESS + 1)
     | Some tbl \<Rightarrow> if is_empty tbl then Some (MM_HIGHEST_USER_ADDRESS + 1)
         else next_start (vads tbl) (drop_bit VPN_SHIFT va) [] (root tbl) (MM_HIGHEST_USER_ADDRESS + 1))"

definition region_of_vad :: "MMVAD_SHORT \<Rightarrow> u64 \<Rightarrow> MM \<Rightarrow> MEMORY_BASIC_INFORMATION" where
  "region_of_vad v page s =
    (let prot = protection (vad_flags v); pte = read_pte s (mm_get_pte_address page);
         (st, pr) = (if commit (vad_flags v) then
             if pte AND PTE_VALID \<noteq> 0 then (MEM_COMMIT, mi_pte_to_page_protection pte)
             else if pte \<noteq> 0 then (MEM_COMMIT, mi_protection_to_page_constant prot)
             else (MEM_RESERVE, 0)
           else (MEM_RESERVE, 0))
     in \<lparr>mbi_base_address = page, mbi_allocation_base = start_address v,
          mbi_allocation_protect = mi_protection_to_page_constant prot, mbi_region_size = end_address v - page,
          mbi_state = st, mbi_protect = pr,
          mbi_type = (case vad_type (vad_flags v) of VadPrivateMemory \<Rightarrow> MEM_PRIVATE | VadMapped \<Rightarrow> MEM_MAPPED
            | VadImage \<Rightarrow> MEM_MAPPED | _ \<Rightarrow> MEM_PRIVATE)\<rparr>)"

definition mi_query_virtual_memory_internal :: "MM_AVL_TABLE option \<Rightarrow> u64 \<Rightarrow> MM \<Rightarrow> (ntstatus \<times> MEMORY_BASIC_INFORMATION) option" where
  "mi_query_virtual_memory_internal t va s =
    (let page = page_align va in
     if va < MM_LOWEST_USER_ADDRESS then Some (STATUS_SUCCESS, free_region va (MM_LOWEST_USER_ADDRESS - va))
     else if MM_HIGHEST_USER_ADDRESS < va then Some (STATUS_SUCCESS, free_region va 0)
     else Option.bind (case t of None \<Rightarrow> Some 0 | Some tbl \<Rightarrow> mi_find_vad tbl page) (\<lambda>vad.
       if vad = 0
       then Option.bind (mi_find_next_vad_start t page) (\<lambda>nxt. Some (STATUS_SUCCESS, free_region page (nxt - page)))
       else Option.bind t (\<lambda>tbl. Some (STATUS_SUCCESS, region_of_vad (vads tbl vad) page s))))"

definition SIZEOF_MBI :: u64 where "SIZEOF_MBI = 48"

definition nt_query_virtual_memory :: "u64 \<Rightarrow> MEMORY_BASIC_INFORMATION option \<Rightarrow> u64 \<Rightarrow> VM \<Rightarrow>
    (ntstatus \<times> MEMORY_BASIC_INFORMATION option) option" where
  "nt_query_virtual_memory va info len s =
    (case info of None \<Rightarrow> Some (STATUS_INVALID_PARAMETER, None)
     | Some i \<Rightarrow> if len < SIZEOF_MBI then Some (STATUS_INVALID_PARAMETER, Some i)
         else map_option (map_prod id Some) (mi_query_virtual_memory_internal (vad_root s) va (vm_mm s)))"

end
