(* ===== verification/VmProps.thy ===== *)
theory VmProps
  imports VadProps VirtualMem
begin

text \<open>
  What the virtual memory services promise their callers, over the contract of the VAD table and the
  page table entries: reserving and releasing a region, and the places where committing,
  protecting and the sizes of a request go wrong.
\<close>

section \<open>Protections\<close>

text \<open>
  The plain protection constants survive the trip to the internal encoding and back, which is what the
  old protection a caller gets is made of; \<open>PAGE_NOACCESS\<close> comes back with every modifier set, and a guard page
  or an uncached page as write-combined too, because the encodings share their two modifier bits and the test
  for write-combining is true of either.
\<close>
theorem protection_constants_round_trip:
  "list_all (\<lambda>p. mi_protection_to_page_constant (mi_convert_protection p) = p)
     [PAGE_READONLY, PAGE_READWRITE, PAGE_WRITECOPY, PAGE_EXECUTE, PAGE_EXECUTE_READ, PAGE_EXECUTE_READWRITE,
      PAGE_EXECUTE_WRITECOPY] \<and>
   mi_protection_to_page_constant (mi_convert_protection PAGE_NOACCESS) =
     PAGE_NOACCESS OR PAGE_GUARD OR PAGE_NOCACHE OR PAGE_WRITECOMBINE \<and>
   list_all (\<lambda>p. mi_protection_to_page_constant (mi_convert_protection (p OR PAGE_GUARD)) = p OR PAGE_GUARD OR PAGE_WRITECOMBINE \<and>
       mi_protection_to_page_constant (mi_convert_protection (p OR PAGE_NOCACHE)) = p OR PAGE_NOCACHE OR PAGE_WRITECOMBINE)
     [PAGE_READONLY, PAGE_READWRITE, PAGE_WRITECOPY, PAGE_EXECUTE, PAGE_EXECUTE_READ, PAGE_EXECUTE_READWRITE,
      PAGE_EXECUTE_WRITECOPY]"
  by (simp add: mi_protection_to_page_constant_def mi_convert_protection_def page_defs mm_prot_defs)

section \<open>Protecting\<close>

lemma pte_bits: "x AND PTE_VALID = 0 \<longleftrightarrow> \<not> bit x 0" "x AND PTE_USER = 0 \<longleftrightarrow> \<not> bit x 2"
  using and_exp_eq_0_iff_not_bit [of x 0] and_exp_eq_0_iff_not_bit [of x 2] by (simp_all add: PTE_VALID_def PTE_USER_def)

lemma no_user_mask: "\<not> bit (mi_protection_to_pte_mask p) 2"
  by (simp add: mi_protection_to_pte_mask_def Let_def bit_or_iff PTE_VALID_def PTE_READWRITE_def PTE_NX_def
      PTE_DISABLE_CACHE_def bit_numeral_rec bit_1_iff)

lemma protect_page_at:
  "read_pte (protect_page start p i s) a =
    (if a = mm_get_pte_address (page_va start i)
     then if bit (read_pte s a) 0 then push_bit 12 (pte_frame (read_pte s a)) OR mi_protection_to_pte_mask p OR PTE_VALID
       else if read_pte s a = 0 then 0 else read_pte s a AND NOT 0x3E0 OR push_bit 5 (ucast p AND 0x1F)
     else read_pte s a)"
  by (auto simp: protect_page_def Let_def pte_bits(1) read_pte_def mm_fields)

lemma protect_page_valid: "bit (read_pte (protect_page start p i s) a) 0 \<longleftrightarrow> bit (read_pte s a) 0"
  by (auto simp: protect_page_at bit_or_iff bit_and_iff bit_push_bit_iff PTE_VALID_def bit_not_iff bit_numeral_rec)

definition hidden :: "MM \<Rightarrow> u64 \<Rightarrow> bool" where
  "hidden s a \<longleftrightarrow> bit (read_pte s a) 0 \<and> \<not> bit (read_pte s a) 2"

lemma protect_page_hides:
  assumes "bit (read_pte s a) 0" and "a = mm_get_pte_address (page_va start i) \<or> hidden s a"
  shows "hidden (protect_page start p i s) a"
  using assms protect_page_valid [of start p i s a] no_user_mask [of p]
  by (auto simp: hidden_def protect_page_at bit_or_iff bit_push_bit_iff PTE_VALID_def bit_1_iff)

lemma protect_pages_hide:
  assumes "bit (read_pte s a) 0" and "\<exists>i < n. a = mm_get_pte_address (page_va start i)"
  shows "hidden (fold (protect_page start p) [0..<n] s) a"
proof -
  have valid: "bit (read_pte (fold (protect_page start p) [0..<n] s) a) 0" for n
    by (induction n) (simp_all add: assms(1) protect_page_valid)
  show ?thesis using assms(2)
  proof (induction n)
    case (Suc n)
    then have "a = mm_get_pte_address (page_va start n) \<or> hidden (fold (protect_page start p) [0..<n] s) a"
      using less_Suc_eq by auto
    then show ?case using protect_page_hides [OF valid [of n]] by simp
  qed simp
qed

lemma protect_success:
  assumes "mi_protect_virtual_memory_internal n1 n2 tbl base sz protect old s = Some (STATUS_SUCCESS, start, len, old', s')"
  shows "vm_mm s' = fold (protect_page start (mi_convert_protection protect)) [0..<unat (len div 4096)] (vm_mm s)"
proof -
  have ne: "STATUS_INVALID_PARAMETER \<noteq> STATUS_SUCCESS" "STATUS_MEMORY_NOT_ALLOCATED \<noteq> STATUS_SUCCESS"
    "STATUS_NO_MEMORY \<noteq> STATUS_SUCCESS"
    by (simp_all add: STATUS_INVALID_PARAMETER_def STATUS_SUCCESS_def STATUS_MEMORY_NOT_ALLOCATED_def STATUS_NO_MEMORY_def)
  show ?thesis
    using assms ne unfolding mi_protect_virtual_memory_internal_def Let_def page_range_def
    apply (auto simp: bind_eq_Some_conv on_mm_def split: if_splits sum.split_asm)
    subgoal for v r by (cases r) auto
    done
qed

text \<open>
  C40. Changing the protection of user memory takes it away from user mode: when \<open>NtProtectVirtualMemory\<close>
  succeeds, every page of the range that was present is still present, even with \<open>PAGE_NOACCESS\<close>, and its
  entry no longer has the user bit, whatever protection was asked for.
\<close>
theorem protect_hides_from_user:
  assumes "nt_protect_virtual_memory n1 n2 (Some base) (Some sz) protect (Some old) s =
      Some (STATUS_SUCCESS, start, len, old', s')"
    and "i < unat (len div 4096)" and "mm_get_pte_address (start + of_nat i * 4096) = a"
    and "read_pte (vm_mm s) a AND PTE_VALID \<noteq> 0"
  shows "read_pte (vm_mm s') a AND PTE_VALID \<noteq> 0 \<and> read_pte (vm_mm s') a AND PTE_USER = 0"
proof -
  have ne: "STATUS_INVALID_PARAMETER \<noteq> STATUS_SUCCESS" "STATUS_INVALID_PAGE_PROTECTION \<noteq> STATUS_SUCCESS"
    "STATUS_MEMORY_NOT_ALLOCATED \<noteq> STATUS_SUCCESS" "STATUS_NO_MEMORY \<noteq> STATUS_SUCCESS"
    by (simp_all add: STATUS_INVALID_PARAMETER_def STATUS_SUCCESS_def STATUS_INVALID_PAGE_PROTECTION_def
        STATUS_MEMORY_NOT_ALLOCATED_def STATUS_NO_MEMORY_def)
  obtain tbl where "mi_protect_virtual_memory_internal n1 n2 tbl base sz protect old s = Some (STATUS_SUCCESS, start, len, old', s')"
    using assms(1) ne by (auto simp: nt_protect_virtual_memory_def split: if_splits option.splits)
  note m = protect_success [OF this]
  have "\<exists>i < unat (len div 4096). a = mm_get_pte_address (page_va start i)"
    using assms(2,3) by (auto simp: page_va_def)
  then show ?thesis
    using protect_pages_hide [of "vm_mm s" a "unat (len div 4096)" start] assms(4) by (auto simp: m hidden_def pte_bits)
qed

section \<open>Ranges\<close>

lemma pages_up: "unat x + 4095 < 2 ^ 64 \<Longrightarrow> unat (page_align_up x) = (unat x + 4095) div 4096 * 4096"
proof -
  assume "unat x + 4095 < 2 ^ 64"
  moreover have "x + PAGE_MASK = of_nat (unat x + 4095)" by (simp add: PAGE_MASK_def PAGE_SIZE_def)
  ultimately have e: "unat (x + PAGE_MASK) = unat x + 4095" by (simp only:) (rule unat_of_nat_64, simp)
  have m: "PAGE_MASK = 2 ^ 12 - 1" by (simp add: PAGE_MASK_def)
  show ?thesis unfolding page_align_up_def using e unfolding m and_not_low unat_push_drop by simp
qed

lemma unat_page_div: "unat (x div 4096 :: u64) = unat x div 4096" by (simp add: unat_div_distrib)

text \<open>First page and number of pages of a request at a given address.\<close>

definition req_page :: "u64 \<Rightarrow> nat" where "req_page base = unat base div 65536 * 16"
definition req_pages :: "u64 \<Rightarrow> u64 \<Rightarrow> nat" where "req_pages base sz = (unat base mod 65536 + unat sz + 4095) div 4096"

lemma given_range_nat:
  assumes "sz \<noteq> 0" and "unat base + unat sz \<le> 2 ^ 47" and "given_range base sz = (st, en, pages)"
  shows "unat st = req_page base * 4096" and "unat en = (req_page base + req_pages base sz) * 4096 - 1"
    and "unat pages = req_pages base sz" and "1 \<le> req_pages base sz"
    and "unat (drop_bit VPN_SHIFT st) = req_page base" and "unat (drop_bit VPN_SHIFT en) = req_page base + req_pages base sz - 1"
    and "push_bit VPN_SHIFT (drop_bit VPN_SHIFT st) = st"
proof -
  let ?st = "base AND NOT (MM_ALLOCATION_GRANULARITY - 1)"
  define al where "al = page_align_up (sz + (base - ?st))"
  have g: "st = ?st" "en = ?st + al - 1" "pages = al div 4096"
    using assms(3) [symmetric] unfolding given_range_def Let_def al_def by simp_all
  have m: "MM_ALLOCATION_GRANULARITY - 1 = 2 ^ 16 - 1" by (simp add: MM_ALLOCATION_GRANULARITY_def)
  have st: "unat ?st = unat base div 65536 * 65536" unfolding m and_not_low unat_push_drop by simp
  then show p: "unat st = req_page base * 4096" by (simp add: g req_page_def)
  have "?st \<le> base" by (simp add: word_le_nat_alt st)
  then have "unat (base - ?st) = unat base mod 65536" by (simp add: unat_sub st minus_div_mult_eq_mod)
  moreover have "unat base mod 65536 < 65536" by simp
  ultimately have "unat (sz + (base - ?st)) = unat sz + unat base mod 65536"
    using assms(2) by (simp add: unat_word_ariths)
  then have al: "unat al = req_pages base sz * 4096"
    using assms(2) unfolding al_def by (subst pages_up) (simp_all add: req_pages_def ac_simps)
  then show "unat pages = req_pages base sz" by (simp add: g unat_page_div)
  have "0 < unat sz" using assms(1) by (simp add: unat_gt_0)
  then show n: "1 \<le> req_pages base sz" by (simp add: req_pages_def)
  have "req_pages base sz * 4096 \<le> unat base mod 65536 + unat sz + 4095"
    unfolding req_pages_def by (rule div_times_less_eq_dividend)
  moreover have "req_page base * 4096 \<le> unat base" by (simp add: req_page_def)
  moreover have "unat base mod 65536 < 65536" by simp
  ultimately have b: "req_page base * 4096 + req_pages base sz * 4096 < 2 ^ 48" using assms(2) by simp
  have "unat st + unat al < 2 ^ LENGTH(64)" unfolding p al using b by simp
  then have "unat (st + al) = unat st + unat al" by (rule unat_add_lem [THEN iffD1])
  then have "unat (st + al) = (req_page base + req_pages base sz) * 4096" unfolding p al by (rule trans) (rule add_mult_distrib [symmetric])
  moreover have "st + al \<noteq> 0" using calculation n by auto
  moreover have en: "en = st + al - 1" unfolding g(1,2) ..
  ultimately show e: "unat en = (req_page base + req_pages base sz) * 4096 - 1"
    using en by (simp add: unat_minus_one)
  show "unat (drop_bit VPN_SHIFT st) = req_page base"
    using p by (simp add: VPN_SHIFT_def drop_bit_eq_div unat_div_distrib)
  show "unat (drop_bit VPN_SHIFT en) = req_page base + req_pages base sz - 1"
    using e n by (simp add: VPN_SHIFT_def drop_bit_eq_div unat_div_distrib)
  show "push_bit VPN_SHIFT (drop_bit VPN_SHIFT st) = st"
    by (simp only: word_unat_eq_iff unat_push_drop VPN_SHIFT_def p) simp
qed

section \<open>Reserving\<close>

lemma vads_set_node: "vads (set_node a v t) b = (if b = a then v else vads t b)"
  by (simp add: set_node_def)

lemma ranges_ok_same: "ranges_ok h xs \<Longrightarrow> (\<And>a. a \<in> set xs \<Longrightarrow> h' a = h a) \<Longrightarrow> ranges_ok h' xs"
  by (induction xs) (auto simp: ranges_ok_Cons ranges_ok_def)

lemma vad_inv_set_node:
  assumes "vad_inv s T" and "v \<notin> set_tree T"
  shows "vad_inv (set_node v w s) T"
proof -
  have i: "rep s [] T" "avl T" "bal_ok (vads s) T" "ranges_ok (vads s) (inorder T)" "node_count s = of_nat (size T)"
    using assms(1) by (simp_all add: vad_inv_def vad_shape_def)
  have o: "vads (set_node v w s) a = vads s a" if "a \<in> set_tree T" for a
    using that assms(2) by (auto simp: vads_set_node)
  have "root (set_node v w s) = root s" by (simp add: set_node_def)
  then have "rep (set_node v w s) [] T" by (rule rep_frame [OF i(1)]) (simp add: o tree_nodes_def)
  moreover have "bal_ok (vads (set_node v w s)) T" by (rule bal_ok_frame [OF i(3)]) (simp add: o)
  moreover have "ranges_ok (vads (set_node v w s)) (inorder T)" by (rule ranges_ok_same [OF i(4)]) (simp add: o)
  ultimately show ?thesis using i by (simp add: vad_inv_def vad_shape_def set_node_def)
qed

text \<open>A request whose pages meet none of the table, and what insertion makes of its descriptor.\<close>

definition meets_pages :: "MM_AVL_TABLE \<Rightarrow> nat tree \<Rightarrow> nat \<Rightarrow> nat \<Rightarrow> bool" where
  "meets_pages t T p n \<longleftrightarrow> (\<exists>a \<in> set_tree T. unat (starting_vpn (vads t a)) < p + n \<and> p \<le> unat (ending_vpn (vads t a)))"

lemma meets_overlaps:
  assumes "unat lo = p" and "unat hi = p + n - 1" and "1 \<le> n"
  shows "(\<exists>a \<in> set_tree T. overlaps (vads t) lo hi a) \<longleftrightarrow> meets_pages t T p n"
proof -
  have "overlaps (vads t) lo hi a \<longleftrightarrow> unat (starting_vpn (vads t a)) < p + n \<and> p \<le> unat (ending_vpn (vads t a))" for a
    using assms by (auto simp: overlaps_def word_le_nat_alt)
  then show ?thesis by (simp add: meets_pages_def)
qed

lemma dom_area: "vad_inv t T \<Longrightarrow> dom (vad_area t) = set_tree T"
  by (auto simp: vad_area_inv split: if_splits)

lemma region_end:
  assumes "unat base + unat sz \<le> 2 ^ 47"
  shows "req_page base + req_pages base sz \<le> 34359738368"
proof -
  have "req_pages base sz * 4096 \<le> unat base mod 65536 + unat sz + 4095"
    unfolding req_pages_def by (rule div_times_less_eq_dividend)
  moreover have "req_page base * 4096 + unat base mod 65536 = unat base" by (simp add: req_page_def)
  ultimately have "(req_page base + req_pages base sz) * 4096 \<le> 2 ^ 47 + 4095" using assms by simp
  then show ?thesis by simp
qed

lemma reserve_call:
  assumes "vad_root s = Some t" and "sz \<noteq> 0" and "65536 \<le> unat base" and "unat base + unat sz \<le> 2 ^ 47"
    and "is_valid_protection protect" and "given_range base sz = (st, en, pages)"
  shows "nt_allocate_virtual_memory pool v (Some base) zb (Some sz) MEM_RESERVE protect s =
    Option.bind (reserve_region v st en pages protect False t s) (\<lambda>(status, s).
      if status = STATUS_SUCCESS then Some (STATUS_SUCCESS, st, pages * 4096, s) else Some (status, base, sz, s))"
proof -
  note r = given_range_nat [OF assms(2,4,6)]
  have "base \<noteq> 0" using assms(3) by auto
  moreover have "16 \<le> req_page base" using assms(3) by (simp add: req_page_def)
  then have "\<not> st < MM_LOWEST_USER_ADDRESS" using r(1) by (simp add: word_less_nat_alt MM_LOWEST_USER_ADDRESS_def)
  moreover have "\<not> MM_HIGHEST_USER_ADDRESS < en"
    using r(2) region_end [OF assms(4)] by (simp add: word_less_nat_alt MM_HIGHEST_USER_ADDRESS_def)
  ultimately show ?thesis
    using assms(1,2,5,6)
    by (simp add: nt_allocate_virtual_memory_def mi_allocate_virtual_memory_internal_def MEM_RESERVE_def MEM_COMMIT_def)
qed

lemma insert_region:
  assumes inv: "user_vads t T" and v: "v \<noteq> 0" "v \<notin> set_tree T"
    and r: "unat (starting_vpn w) = p" "unat (ending_vpn w) = p + n - 1" "1 \<le> n" "16 \<le> p" "p + n \<le> 34359738368"
    and free: "\<not> meets_pages t T p n"
  obtains t' T' where "mi_insert_vad v (set_node v w t) = Some (STATUS_SUCCESS, t')" and "user_vads t' T'"
    and "vad_area t' = (vad_area t)(v \<mapsto> data w)"
proof -
  let ?t = "set_node v w t"
  have i: "vad_inv ?t T" by (rule vad_inv_set_node [OF user_vadsD [OF inv] v(2)])
  have "starting_vpn w \<le> ending_vpn w" using r by (simp add: word_le_nat_alt)
  then have f: "vad_fresh ?t v = Some (data w)" using v by (simp add: vad_fresh_inv [OF i] vads_set_node)
  have area: "vad_area ?t = vad_area t"
    using v(2) by (auto simp: vad_area_inv [OF i] vad_area_inv [OF user_vadsD [OF inv]] vads_set_node)
  have nm: "\<not> (\<exists>b e. vad_area ?t b = Some e \<and> vad_meets e (data w))"
    using free meets_overlaps [OF r(1-3), of T t] v(2) unfolding vad_area_ex [OF i]
    by (auto simp: vad_meets_data overlaps_def vads_set_node)
  obtain t' T' where t': "mi_insert_vad v ?t = Some (STATUS_SUCCESS, t')" "vad_inv t' T'"
    "vad_area t' = (vad_area t)(v \<mapsto> data w)" "\<forall>a. data (vads t' a) = data (vads ?t a)"
    using vad_insert_law [OF i f] unfolding area if_not_P [OF nm [unfolded area]] by blast
  have d: "set_tree T' = insert v (set_tree T)"
    using dom_area [OF t'(2)] dom_area [OF user_vadsD [OF inv]] t'(3) by simp
  have "within (vads ?t) (insert v (set_tree T)) (unat LOWEST_VPN) (unat HIGHEST_VPN)"
    using inv r v(2) by (auto simp: user_vads_def within_def vads_set_node user_vpns)
  then have "within (vads t') (set_tree T') (unat LOWEST_VPN) (unat HIGHEST_VPN)"
    by (rule within_data) (use t'(4) d in blast)
  then show ?thesis using that t' by (simp add: user_vads_def)
qed

lemma reserve0:
  assumes "user_vads t T" and "vad_root s = Some t" and "sz \<noteq> 0" and "65536 \<le> unat base"
    and "unat base + unat sz \<le> 2 ^ 47" and "is_valid_protection protect" and "v \<noteq> 0" and "v \<notin> set_tree T"
  shows "if meets_pages t T (req_page base) (req_pages base sz)
    then nt_allocate_virtual_memory pool v (Some base) zb (Some sz) MEM_RESERVE protect s =
      Some (STATUS_CONFLICTING_ADDRESSES, base, sz, s)
    else \<exists>t' T'. nt_allocate_virtual_memory pool v (Some base) zb (Some sz) MEM_RESERVE protect s =
        Some (STATUS_SUCCESS, of_nat (req_page base * 4096), of_nat (req_pages base sz * 4096), s\<lparr>vad_root := Some t'\<rparr>) \<and>
      user_vads t' T' \<and> vad_area t' = (vad_area t)(v \<mapsto>
        data (new_private_vad (of_nat (req_page base)) (of_nat (req_page base + req_pages base sz - 1)) protect))"
proof -
  obtain st en pages where g: "given_range base sz = (st, en, pages)" by (metis prod.collapse)
  note r = given_range_nat [OF assms(3,5) g]
  let ?p = "req_page base" and ?n = "req_pages base sz"
  let ?lo = "drop_bit VPN_SHIFT st" and ?hi = "drop_bit VPN_SHIFT en"
  note call = reserve_call [OF assms(2-6) g, of pool v zb]
  have p: "16 \<le> ?p" "?p + ?n \<le> 34359738368" using assms(4) region_end [OF assms(5)] by (simp_all add: req_page_def)
  have c: "mi_check_vad_conflict t ?lo ?hi = Some (meets_pages t T ?p ?n)"
    using check_conflict_tree [OF assms(1), of ?lo ?hi] meets_overlaps [OF r(5,6,4), of T t] r(4-6) p
    by (simp add: word_le_nat_alt)
  have f: "(\<exists>a \<in> set_tree T. mi_find_vad t st = Some a \<and> a \<noteq> 0 \<and> meets_pages t T ?p ?n) \<or> mi_find_vad t st = Some 0"
  proof -
    have "meets_pages t T ?p ?n" if "a \<in> set_tree T" "contains_address (vads t a) st" for a
      using that r(4,5) by (force simp: meets_pages_def contains_address_def word_le_nat_alt Let_def)
    then show ?thesis using find_vad_tree [OF user_vadsD [OF assms(1)], of st] table_node(1) [OF user_vadsD [OF assms(1)]] by blast
  qed
  show ?thesis
  proof (cases "meets_pages t T ?p ?n")
    case True
    have "reserve_region v st en pages protect False t s = Some (STATUS_CONFLICTING_ADDRESSES, s)"
      using f c True by (auto simp: reserve_region_def Let_def)
    then show ?thesis using True
      by (simp add: call STATUS_CONFLICTING_ADDRESSES_def STATUS_SUCCESS_def)
  next
    case False
    let ?w = "new_private_vad ?lo ?hi protect"
    have w: "starting_vpn ?w = ?lo" "ending_vpn ?w = ?hi" by (simp_all add: new_private_vad_def)
    obtain t' T' where t': "mi_insert_vad v (set_node v ?w t) = Some (STATUS_SUCCESS, t')" "user_vads t' T'"
      "vad_area t' = (vad_area t)(v \<mapsto> data ?w)"
      by (rule insert_region [OF assms(1,7,8), of ?w ?p ?n]) (use r(4-6) p False w in auto)
    have "reserve_region v st en pages protect False t s = Some (STATUS_SUCCESS, s\<lparr>vad_root := Some t'\<rparr>)"
      using f c False assms(7) t'(1) by (auto simp: reserve_region_def Let_def)
    moreover have "?hi = of_nat (?p + ?n - 1)" "st = of_nat (?p * 4096)"
      unfolding r(1,6) [symmetric] by simp_all
    moreover have "?lo = of_nat ?p" unfolding r(5) [symmetric] by simp
    moreover have "pages * 4096 = of_nat (?n * 4096)" unfolding r(3) [symmetric] by simp
    ultimately show ?thesis using False t'(2,3) call by auto
  qed
qed

text \<open>
  C11. Reserving memory at an address. A valid request that lies in the user address space, on a
  well-formed table, is rejected with \<open>STATUS_CONFLICTING_ADDRESSES\<close> and without effect exactly when some
  page of it belongs to a region; otherwise the caller gets the address rounded down to 64 KB and the
  size of the whole pages covered, the table is well-formed and has exactly one region more, of these
  pages, private, uncommitted and with the protection asked for, and nothing else changes: no commit
  charge, no page table entry, no frame.
\<close>
theorem reserve_correct:
  assumes "user_vads t T" and "vad_root s = Some t" and "sz \<noteq> 0" and "65536 \<le> unat base"
    and "unat base + unat sz \<le> 2 ^ 47" and "is_valid_protection protect" and "v \<noteq> 0" and "v \<notin> set_tree T"
  shows "if meets_pages t T (req_page base) (req_pages base sz)
    then nt_allocate_virtual_memory pool v (Some base) zb (Some sz) MEM_RESERVE protect s =
      Some (STATUS_CONFLICTING_ADDRESSES, base, sz, s)
    else \<exists>t' T'. nt_allocate_virtual_memory pool v (Some base) zb (Some sz) MEM_RESERVE protect s =
        Some (STATUS_SUCCESS, of_nat (req_page base * 4096), of_nat (req_pages base sz * 4096), s\<lparr>vad_root := Some t'\<rparr>) \<and>
      user_vads t' T' \<and> vad_area t' = (vad_area t)(v \<mapsto>
        data (new_private_vad (of_nat (req_page base)) (of_nat (req_page base + req_pages base sz - 1)) protect))"
  by (rule reserve0 [OF assms])

text \<open>A process with one region, at pages 0x20 to 0x2F.\<close>

definition sample_vm :: "MM_AVL_TABLE \<Rightarrow> VM" where
  "sample_vm t = \<lparr>vad_root = Some t, commit_charge = 0, total_committed = 0, commit_limit = 0, vm_mm = sample_mm\<rparr>"

lemma reserve_correct_witness:
  "nt_allocate_virtual_memory True 3 (Some 0x1F000) 0 (Some 0x2000) MEM_RESERVE PAGE_READWRITE (sample_vm (one_vad 0 0)) =
     Some (STATUS_CONFLICTING_ADDRESSES, 0x1F000, 0x2000, sample_vm (one_vad 0 0)) \<and>
   (\<exists>t' T'. nt_allocate_virtual_memory True 3 (Some 0x31234) 0 (Some 0x2000) MEM_RESERVE PAGE_READWRITE (sample_vm (one_vad 0 0)) =
     Some (STATUS_SUCCESS, 0x30000, 0x4000, sample_vm (one_vad 0 0)\<lparr>vad_root := Some t'\<rparr>) \<and> user_vads t' T')"
proof -
  have v: "is_valid_protection PAGE_READWRITE" by (simp add: is_valid_protection_def page_defs)
  have r: "vad_root (sample_vm (one_vad 0 0)) = Some (one_vad 0 0)" by (simp add: sample_vm_def)
  have m: "meets_pages (one_vad 0 0) (Node Leaf 2 Leaf) p n \<longleftrightarrow> 0x20 < p + n \<and> p \<le> 0x2F" for p n
    by (simp add: meets_pages_def one_vad_def mmvad_short_new_def)
  show ?thesis
    using reserve_correct [OF one_vad_user [of 0 0] r, of "0x2000" "0x1F000" PAGE_READWRITE 3 True 0]
      reserve_correct [OF one_vad_user [of 0 0] r, of "0x2000" "0x31234" PAGE_READWRITE 3 True 0] v
    by (simp add: m req_page_def req_pages_def) blast
qed

section \<open>Releasing\<close>

lemma start_found:
  assumes "user_vads t T" and "v \<in> set_tree T"
  shows "mi_find_vad t (start_address (vads t v)) = Some v" and "unat (starting_vpn (vads t v)) < 2 ^ 52"
proof -
  have w: "unat (starting_vpn (vads t v)) \<le> unat (ending_vpn (vads t v))" "unat (ending_vpn (vads t v)) < 2 ^ 35"
    using table_node(2) [OF user_vadsD [OF assms(1)] assms(2)] assms by (auto simp: user_vads_def within_def user_vpns word_le_nat_alt)
  then show "unat (starting_vpn (vads t v)) < 2 ^ 52" by simp
  then have "drop_bit VPN_SHIFT (start_address (vads t v)) = starting_vpn (vads t v)"
    unfolding start_address_def VPN_SHIFT_def by (intro drop_push_bit_word [where k = 52]) simp_all
  then have "contains_address (vads t v) (start_address (vads t v))" using w by (simp add: contains_address_def word_le_nat_alt)
  then have "vad_covers (data (vads t v)) (start_address (vads t v))" by (simp add: vad_covers_data)
  moreover have "vad_valid t" using user_vadsD [OF assms(1)] by (auto simp: vad_valid_def)
  moreover have "vad_area t v = Some (data (vads t v))" using assms(2) by (simp add: vad_area_inv [OF user_vadsD [OF assms(1)]])
  ultimately show "mi_find_vad t (start_address (vads t v)) = Some v" by (rule vad.find_covering [rotated 2])
qed

definition after_release :: "MMVAD_SHORT \<Rightarrow> VM \<Rightarrow> VM" where
  "after_release w s = (if commit (vad_flags w)
     then discharge_process (vad_size w div 4096) (mi_return_commit (vad_size w div 4096)
       (on_mm (decommit_pages (start_address w) (vad_size w div 4096)) s))
     else s)"

lemma release_call:
  assumes "user_vads t T" and "vad_root s = Some t" and "v \<in> set_tree T" and "vad_type (vad_flags (vads t v)) = VadPrivateMemory"
  obtains t' T' where "nt_free_virtual_memory (Some (start_address (vads t v))) (Some 0) MEM_RELEASE s =
      Some (STATUS_SUCCESS, start_address (vads t v), end_address (vads t v) - start_address (vads t v),
        after_release (vads t v) s\<lparr>vad_root := Some t'\<rparr>)"
    and "vad_inv t' T'" and "vad_area t' = (vad_area t)(v := None)"
proof -
  have i: "vad_inv t T" by (rule user_vadsD [OF assms(1)])
  have "vad_area t v = Some (data (vads t v))" using assms(3) by (simp add: vad_area_inv [OF i])
  from vad_remove_law [OF i this] obtain t' T' where t': "mi_remove_vad v t = Some t'" "vad_inv t' T'"
    "vad_area t' = (vad_area t)(v := None)" by blast
  moreover have "nt_free_virtual_memory (Some (start_address (vads t v))) (Some 0) MEM_RELEASE s =
      Some (STATUS_SUCCESS, start_address (vads t v), end_address (vads t v) - start_address (vads t v),
        after_release (vads t v) s\<lparr>vad_root := Some t'\<rparr>)"
    using start_found(1) [OF assms(1,3)] assms(2,4) table_node(1) [OF i assms(3)] t'(1)
    by (simp add: nt_free_virtual_memory_def mi_free_virtual_memory_release_def MEM_RELEASE_def MEM_DECOMMIT_def
        after_release_def Let_def)
  ultimately show ?thesis using that by blast
qed

lemma new_private_flags:
  "vad_type (vad_flags (new_private_vad a b p)) = VadPrivateMemory" "\<not> commit (vad_flags (new_private_vad a b p))"
proof -
  let ?f = "vad_flags (new_private_vad a b p)" and ?q = "mi_convert_protection p AND 0x1F"
  have f: "?f = push_bit 3 ?q OR push_bit 9 1"
    by (simp add: new_private_vad_def set_private_memory_def set_flag_def set_protection_def set_vad_type_def)
  have m: "(0x1F :: u32) = mask 5" by (simp add: mask_eq_exp_minus_1)
  have "\<not> bit ?f 8" unfolding f m by (simp add: bit_simps)
  then show "\<not> commit ?f" by (simp add: commit_def push_bit_eq_mult flip: and_exp_eq_0_iff_not_bit) 
  have "?f AND 0x7 = 0"
  proof (rule bit_word_eqI)
    fix i :: nat have m7: "(0x7 :: u32) = mask 3" by (simp add: mask_eq_exp_minus_1)
    have "(i :: nat) < 3 \<Longrightarrow> i = 0 \<or> i = 1 \<or> i = 2" by arith
    then show "bit (?f AND 0x7) i = bit 0 i" unfolding f m m7 by (auto simp: bit_simps bit_numeral_rec)
  qed
  then show "vad_type ?f = VadPrivateMemory" by (simp add: vad_type_def)
qed

lemma reserved_region:
  assumes "user_vads t T" and "vad_root s = Some t" and "sz \<noteq> 0" and "65536 \<le> unat base"
    and "unat base + unat sz \<le> 2 ^ 47" and "is_valid_protection protect" and "v \<noteq> 0" and "v \<notin> set_tree T"
    and "\<not> meets_pages t T (req_page base) (req_pages base sz)"
  obtains t' T' where "nt_allocate_virtual_memory pool v (Some base) zb (Some sz) MEM_RESERVE protect s =
      Some (STATUS_SUCCESS, start_address (vads t' v), of_nat (req_pages base sz * 4096), s\<lparr>vad_root := Some t'\<rparr>)"
    and "user_vads t' T'" and "vad_area t' = (vad_area t)(v \<mapsto> data (vads t' v))" and "v \<in> set_tree T'"
    and "vad_type (vad_flags (vads t' v)) = VadPrivateMemory" and "\<not> commit (vad_flags (vads t' v))"
    and "end_address (vads t' v) - start_address (vads t' v) = of_nat (req_pages base sz * 4096)"
proof -
  let ?w = "new_private_vad (of_nat (req_page base)) (of_nat (req_page base + req_pages base sz - 1)) protect"
  obtain t' T' where t': "nt_allocate_virtual_memory pool v (Some base) zb (Some sz) MEM_RESERVE protect s =
      Some (STATUS_SUCCESS, of_nat (req_page base * 4096), of_nat (req_pages base sz * 4096), s\<lparr>vad_root := Some t'\<rparr>)"
    "user_vads t' T'" "vad_area t' = (vad_area t)(v \<mapsto> data ?w)"
    using reserve0 [OF assms(1-8), of pool zb] assms(9) by (simp only: if_False) blast
  note i = user_vadsD [OF t'(2)]
  have "v \<in> dom (vad_area t')" by (simp add: t'(3))
  then have v: "v \<in> set_tree T'" by (simp only: dom_area [OF i])
  then have d: "data (vads t' v) = data ?w" using t'(3) by (simp add: vad_area_inv [OF i] fun_eq_iff split: if_splits)
  then have "vad_flags (vads t' v) = vad_flags ?w" and st: "starting_vpn (vads t' v) = of_nat (req_page base)"
    and en: "ending_vpn (vads t' v) = of_nat (req_page base + req_pages base sz - 1)"
    by (simp_all add: data_def new_private_vad_def)
  moreover have "end_address (vads t' v) - start_address (vads t' v) = of_nat (req_pages base sz * 4096)"
  proof -
    have "1 \<le> req_pages base sz" using assms(3) by (simp add: req_pages_def flip: unat_gt_0)
    then obtain k where k: "req_pages base sz = Suc k" by (cases "req_pages base sz") auto
    show ?thesis by (simp add: end_address_def start_address_def st en k push_bit_eq_mult VPN_SHIFT_def algebra_simps)
  qed
  moreover have "push_bit VPN_SHIFT (of_nat (req_page base) :: u64) = of_nat (req_page base * 4096)"
    by (simp add: push_bit_eq_mult VPN_SHIFT_def)
  ultimately show ?thesis using that [of t' T'] t' v d new_private_flags by (simp add: start_address_def)
qed


lemma sample_free: "\<not> meets_pages (one_vad 0 0) (Node Leaf 2 Leaf) (req_page 0x31234) (req_pages 0x31234 0x2000)"
  by (simp add: meets_pages_def one_vad_def mmvad_short_new_def req_page_def)


section \<open>Committing\<close>

lemma first_page:
  assumes "user_vads t T" and "v \<in> set_tree T" and "start_address (vads t v) = base" and "unat base mod 65536 = 0"
  shows "given_range base 1 = (base, base + 4096 - 1, 1)" and "65536 \<le> unat base" and "unat base + 4096 \<le> 2 ^ 47"
    and "drop_bit VPN_SHIFT base = starting_vpn (vads t v)" and "drop_bit VPN_SHIFT (base + 4096 - 1) = starting_vpn (vads t v)"
proof -
  have w: "16 \<le> unat (starting_vpn (vads t v))" "unat (starting_vpn (vads t v)) < 2 ^ 35"
    using table_node(2) [OF user_vadsD [OF assms(1)] assms(2)] assms(1,2)
    by (auto simp: user_vads_def within_def user_vpns word_le_nat_alt)
  have "unat (start_address (vads t v)) = unat (starting_vpn (vads t v)) * 4096"
    unfolding start_address_def using start_found(2) [OF assms(1,2)] by (rule unat_page)
  then have b: "unat base = unat (starting_vpn (vads t v)) * 4096" by (simp add: assms(3))
  then show u: "65536 \<le> unat base" "unat base + 4096 \<le> 2 ^ 47" using w by simp_all
  obtain st en pages where g: "given_range base 1 = (st, en, pages)" by (metis prod.collapse)
  have "unat base + unat (1 :: u64) \<le> 2 ^ 47" using u(2) by simp
  note r = given_range_nat [OF one_neq_zero this g]
  have n: "req_pages base 1 = 1" using assms(4) by (simp add: req_pages_def)
  have p: "req_page base * 4096 = unat base" using div_mult_mod_eq [of "unat base" 65536] assms(4) by (simp add: req_page_def)
  then have pv: "req_page base = unat (starting_vpn (vads t v))" using b by simp
  have e: "st = base" "pages = 1" using r(1,3) n p by (simp_all add: word_unat_eq_iff)
  have "unat (base + 4096) = unat base + 4096" using u(2) by (simp add: unat_word_ariths)
  then have "unat (base + 4096 - 1) = unat base + 4096 - 1" by (subst unat_minus_one) auto
  then have en: "en = base + 4096 - 1" using r(2) n p by (simp add: word_unat_eq_iff)
  have "drop_bit VPN_SHIFT st = starting_vpn (vads t v)" "drop_bit VPN_SHIFT en = starting_vpn (vads t v)"
    using r(5,6) pv n by (simp_all add: word_unat_eq_iff)
  then show "drop_bit VPN_SHIFT base = starting_vpn (vads t v)"
    "drop_bit VPN_SHIFT (base + 4096 - 1) = starting_vpn (vads t v)" unfolding e(1) en .
  show "given_range base 1 = (base, base + 4096 - 1, 1)" unfolding g e en ..
qed

definition commit_all :: "nat \<Rightarrow> MM_AVL_TABLE \<Rightarrow> MM_AVL_TABLE" where
  "commit_all v = upd v (\<lambda>v. v\<lparr>vad_flags := set_commit (vad_flags v) True\<rparr>)"

lemma commit_first_page:
  assumes "user_vads t T" and "vad_root s = Some t" and "v \<in> set_tree T" and "start_address (vads t v) = base"
    and "unat base mod 65536 = 0" and "vad_type (vad_flags (vads t v)) = VadPrivateMemory" and "is_valid_protection protect"
    and "commit_limit s = 0"
  shows "nt_allocate_virtual_memory pool n (Some base) zb (Some 1) MEM_COMMIT protect s =
    Some (STATUS_SUCCESS, base, 4096, on_mm (mi_commit_pages base 1 protect)
      (if commit (vad_flags (vads t v)) then s
       else s\<lparr>total_committed := total_committed s + 1, vad_root := Some (commit_all v t), commit_charge := commit_charge s + 1\<rparr>))"
proof -
  note f = first_page [OF assms(1,3-5)]
  have i: "vad_inv t T" by (rule user_vadsD [OF assms(1)])
  have v: "mi_find_vad t base = Some v" using start_found(1) [OF assms(1,3)] assms(4) by simp
  have b: "base \<noteq> 0" "\<not> base < MM_LOWEST_USER_ADDRESS"
    using f(2) by (auto simp: word_less_nat_alt MM_LOWEST_USER_ADDRESS_def)
  have h: "\<not> MM_HIGHEST_USER_ADDRESS < base + 4096 - 1"
  proof -
    have "unat (base + 4096) = unat base + 4096" using f(3) by (simp add: unat_word_ariths)
    then have "unat (base + 4096 - 1) = unat base + 4096 - 1" by (subst unat_minus_one) auto
    then show ?thesis using f(3) by (simp add: word_less_nat_alt MM_HIGHEST_USER_ADDRESS_def)
  qed
  have c: "commit_region base (base + 4096 - 1) 1 protect t s = Some (STATUS_SUCCESS, on_mm (mi_commit_pages base 1 protect)
      (if commit (vad_flags (vads t v)) then s
       else s\<lparr>total_committed := total_committed s + 1, vad_root := Some (commit_all v t), commit_charge := commit_charge s + 1\<rparr>))"
    using v table_node(1) [OF i assms(3)] assms(6,8)
    by (simp only: commit_region_def Let_def f(4,5))
      (simp add: mi_charge_commit_def charge_process_def commit_all_def leD [OF table_node(2) [OF i assms(3)]])
  define en where "en = base + 4096 - 1"
  note g = f(1) [folded en_def] and h' = h [folded en_def] and c' = c [folded en_def]
  show ?thesis
    using b(1) assms(2,7)
    by (simp add: nt_allocate_virtual_memory_def mi_allocate_virtual_memory_internal_def g b(2) [simplified] h' [simplified] c'
        MEM_COMMIT_def MEM_RESERVE_def)
qed

lemma commit_flag: "commit (set_commit f True)" "vad_type (set_commit f True) = vad_type f"
proof -
  have m: "(0x7 :: u32) = mask 3" by (simp add: mask_eq_exp_minus_1)
  have "bit (set_commit f True) 8" by (simp add: set_commit_def set_flag_def bit_or_iff bit_numeral_rec)
  then show "commit (set_commit f True)"
    using and_exp_eq_0_iff_not_bit [of "set_commit f True" 8] by (simp add: commit_def push_bit_eq_mult)
  have "set_commit f True AND 0x7 = f AND 0x7"
  proof (rule bit_word_eqI)
    fix i :: nat have "(i :: nat) < 3 \<Longrightarrow> i = 0 \<or> i = 1 \<or> i = 2" by arith
    then show "bit (set_commit f True AND 0x7) i = bit (f AND 0x7) i"
      unfolding m by (auto simp: set_commit_def set_flag_def bit_simps bit_numeral_rec)
  qed
  then show "vad_type (set_commit f True) = vad_type f" by (simp add: vad_type_def)
qed

lemma commit_all_user:
  assumes "user_vads t T"
  shows "user_vads (commit_all v t) T"
proof -
  have i: "vad_shape t T" "ranges_ok (vads t) (inorder T)" "within (vads t) (set_tree T) (unat LOWEST_VPN) (unat HIGHEST_VPN)"
    using assms by (simp_all add: user_vads_def vad_inv_def)
  have e: "starting_vpn (vads (commit_all v t) a) = starting_vpn (vads t a)" "ending_vpn (vads (commit_all v t) a) = ending_vpn (vads t a)" for a
    by (simp_all add: commit_all_def vads_upd)
  have "vad_shape (commit_all v t) T" unfolding commit_all_def by (rule vad_shape_upd [OF i(1)]) (simp_all add: links_def)
  moreover have "ranges_ok (vads (commit_all v t)) (inorder T)" using i(2) by (simp add: ranges_ok_def e)
  ultimately show ?thesis using i(3) by (simp add: user_vads_def vad_inv_def within_def e)
qed

text \<open>
  C30. The commit charge of a region is returned by its size, not by what was charged: committing only the
  first page of a reserved region of \<open>k\<close> pages charges one page, and releasing the region returns \<open>k\<close>, so
  both the counter of the process and the global one end up \<open>k - 1\<close> pages lower than before, modulo
  2 to the 64; from zero, far beyond any limit.
\<close>
theorem partial_commit_underflows:
  assumes "user_vads t T" and "vad_root s = Some t" and "v \<in> set_tree T" and "start_address (vads t v) = base"
    and "unat base mod 65536 = 0" and "vad_type (vad_flags (vads t v)) = VadPrivateMemory" and "\<not> commit (vad_flags (vads t v))"
    and "is_valid_protection protect" and "commit_limit s = 0"
  shows "\<exists>s' len s''. nt_allocate_virtual_memory pool n (Some base) zb (Some 1) MEM_COMMIT protect s = Some (STATUS_SUCCESS, base, 4096, s') \<and>
    nt_free_virtual_memory (Some base) (Some 0) MEM_RELEASE s' = Some (STATUS_SUCCESS, base, len, s'') \<and>
    total_committed s'' = total_committed s + 1 - (ending_vpn (vads t v) - starting_vpn (vads t v) + 1) \<and>
    commit_charge s'' = commit_charge s + 1 - (ending_vpn (vads t v) - starting_vpn (vads t v) + 1)"
proof -
  let ?t = "commit_all v t"
  define s' where "s' = on_mm (mi_commit_pages base 1 protect)
      (s\<lparr>total_committed := total_committed s + 1, vad_root := Some ?t, commit_charge := commit_charge s + 1\<rparr>)"
  have a: "nt_allocate_virtual_memory pool n (Some base) zb (Some 1) MEM_COMMIT protect s = Some (STATUS_SUCCESS, base, 4096, s')"
    using commit_first_page [OF assms(1-6,8,9)] assms(7) by (simp add: s'_def)
  have t: "vads ?t v = (vads t v)\<lparr>vad_flags := set_commit (vad_flags (vads t v)) True\<rparr>" by (simp add: commit_all_def vads_upd)
  have r: "vad_root s' = Some ?t" by (simp add: s'_def on_mm_def)
  obtain t' T' where f: "nt_free_virtual_memory (Some (start_address (vads ?t v))) (Some 0) MEM_RELEASE s' =
      Some (STATUS_SUCCESS, start_address (vads ?t v), end_address (vads ?t v) - start_address (vads ?t v),
        after_release (vads ?t v) s'\<lparr>vad_root := Some t'\<rparr>)" "vad_inv t' T'" "vad_area t' = (vad_area ?t)(v := None)"
    by (rule release_call [OF commit_all_user [OF assms(1)] r assms(3)]) (simp add: t commit_flag assms(6))
  let ?k = "ending_vpn (vads t v) - starting_vpn (vads t v) + 1"
  have "unat (starting_vpn (vads t v)) \<le> unat (ending_vpn (vads t v))" "unat (ending_vpn (vads t v)) < 2 ^ 35"
    using table_node(2) [OF user_vadsD [OF assms(1)] assms(3)] assms(1,3)
    by (auto simp: user_vads_def within_def user_vpns word_le_nat_alt)
  then have "unat ?k < 2 ^ 52" by (simp add: unat_word_ariths unat_sub word_le_nat_alt)
  then have "unat (push_bit VPN_SHIFT ?k) = unat ?k * 4096" by (rule unat_page)
  then have k: "vad_size (vads ?t v) div 4096 = ?k"
    by (simp add: vad_size_def t word_unat_eq_iff unat_page_div)
  have st: "start_address (vads ?t v) = base" using assms(4) by (simp add: t start_address_def)
  have c: "commit (vad_flags (vads ?t v))" by (simp add: t commit_flag)
  show ?thesis
    by (intro exI conjI, rule a, rule f(1) [unfolded st])
      (simp_all add: after_release_def c k discharge_process_def mi_return_commit_def on_mm_def s'_def)
qed

lemma partial_commit_underflows_witness:
  "\<exists>s' len s''. nt_allocate_virtual_memory True 0 (Some 0x20000) 0 (Some 1) MEM_COMMIT PAGE_READWRITE (sample_vm (one_vad 0 0)) =
      Some (STATUS_SUCCESS, 0x20000, 4096, s') \<and>
    nt_free_virtual_memory (Some 0x20000) (Some 0) MEM_RELEASE s' = Some (STATUS_SUCCESS, 0x20000, len, s'') \<and>
    total_committed s'' = - 15 \<and> commit_charge s'' = - 15"
proof -
  have v: "vads (one_vad 0 0) 2 = mmvad_short_new\<lparr>starting_vpn := 0x20, ending_vpn := 0x2F\<rparr>" by (simp add: one_vad_def)
  have f: "start_address (vads (one_vad 0 0) 2) = 0x20000" "vad_type (vad_flags (vads (one_vad 0 0) 2)) = VadPrivateMemory"
    "\<not> commit (vad_flags (vads (one_vad 0 0) 2))" "is_valid_protection PAGE_READWRITE" "unat (0x20000 :: u64) mod 65536 = 0"
    by (simp_all add: v start_address_def VPN_SHIFT_def mmvad_short_new_def vad_type_def commit_def is_valid_protection_def page_defs)
  have r: "vad_root (sample_vm (one_vad 0 0)) = Some (one_vad 0 0)" "commit_limit (sample_vm (one_vad 0 0)) = 0"
    "total_committed (sample_vm (one_vad 0 0)) = 0" "commit_charge (sample_vm (one_vad 0 0)) = 0"
    by (simp_all add: sample_vm_def)
  show ?thesis
    using partial_commit_underflows [OF one_vad_user [of 0 0] r(1) _ f(1,5,2,3,4) r(2), of True 0 0] by (simp add: r v)
qed

text \<open>
  C32. Committing memory that is already committed throws it away: on the first page of a committed
  region whose page tables exist, \<open>MEM_COMMIT\<close> succeeds, replaces the entry by a demand-zero one even when it was
  valid, and does nothing else, so the frame it named is neither mapped nor freed and the next
  touch of the page reads zeros.
\<close>
theorem recommit_discards_page:
  assumes "user_vads t T" and "vad_root s = Some t" and "v \<in> set_tree T" and "start_address (vads t v) = base"
    and "unat base mod 65536 = 0" and "vad_type (vad_flags (vads t v)) = VadPrivateMemory" and "commit (vad_flags (vads t v))"
    and "is_valid_protection protect" and "commit_limit s = 0" and "mi_is_pte_pointer_valid (vm_mm s) base"
  shows "nt_allocate_virtual_memory pool n (Some base) zb (Some 1) MEM_COMMIT protect s =
    Some (STATUS_SUCCESS, base, 4096, on_mm (write_pte (mm_get_pte_address base)
      (software_pte PTE_DEMAND_ZERO (mi_convert_protection protect))) s)"
proof -
  have e: "mi_ensure_page_table_hierarchy base (vm_mm s) = (True, vm_mm s)"
    using assms(10) by (simp add: mi_is_pte_pointer_valid_def mi_ensure_page_table_hierarchy_def ensure_level_def split: if_splits)
  have "mi_commit_pages base 1 protect (vm_mm s) =
      write_pte (mm_get_pte_address base) (software_pte PTE_DEMAND_ZERO (mi_convert_protection protect)) (vm_mm s)"
    by (simp add: mi_commit_pages_def commit_page_def page_va_def e mi_make_demand_zero_pte_def)
  then show ?thesis using commit_first_page [OF assms(1-6,8,9)] assms(7) by (simp add: on_mm_def)
qed

definition committed_vm :: VM where
  "committed_vm = sample_vm (commit_all 2 (one_vad 0 0))\<lparr>vm_mm :=
     write_pte 0xFFFFF68000000100 (valid_pte 2 4) (sample_space (snd (mi_allocate_pfn sample_mm)))\<rparr>"

lemma recommit_discards_page_witness:
  "\<exists>s'. nt_allocate_virtual_memory True 0 (Some 0x20000) 0 (Some 1) MEM_COMMIT PAGE_READWRITE committed_vm =
      Some (STATUS_SUCCESS, 0x20000, 4096, s') \<and> bit (read_pte (vm_mm committed_vm) 0xFFFFF68000000100) 0 \<and>
    read_pte (vm_mm s') 0xFFFFF68000000100 = software_pte PTE_DEMAND_ZERO 4 \<and> pfn_lists (vm_mm s') = pfn_lists (vm_mm committed_vm)"
proof -
  let ?t = "commit_all 2 (one_vad 0 0)"
  have v: "vads ?t 2 = mmvad_short_new\<lparr>starting_vpn := 0x20, ending_vpn := 0x2F, vad_flags := set_commit 0 True\<rparr>"
    by (simp add: one_vad_def commit_all_def vads_upd mmvad_short_new_def)
  have f: "start_address (vads ?t 2) = 0x20000" "vad_type (vad_flags (vads ?t 2)) = VadPrivateMemory"
    "commit (vad_flags (vads ?t 2))" "is_valid_protection PAGE_READWRITE" "unat (0x20000 :: u64) mod 65536 = 0"
    by (simp_all add: v commit_flag) (simp_all add: start_address_def VPN_SHIFT_def vad_type_def is_valid_protection_def page_defs)
  have r: "vad_root committed_vm = Some ?t" "commit_limit committed_vm = 0" by (simp_all add: committed_vm_def sample_vm_def)
  have a: "mm_get_pte_address 0x20000 = 0xFFFFF68000000100" by (simp add: mm_get_pte_address_def PTE_BASE_def)
  have p: "mi_is_pte_pointer_valid (vm_mm committed_vm) 0x20000"
    by (simp add: committed_vm_def sample_space_def mi_is_pte_pointer_valid_def read_pte_def mm_fields
      mm_get_pxe_address_def mm_get_ppe_address_def mm_get_pde_address_def PXE_BASE_def PPE_BASE_def PDE_BASE_def PTE_VALID_def)
  have "bit (read_pte (vm_mm committed_vm) 0xFFFFF68000000100) 0"
    by (simp add: committed_vm_def read_pte_def mm_fields valid_pte_def bit_or_iff PTE_VALID_def)
  moreover have "mi_convert_protection PAGE_READWRITE = 4" by (simp add: mi_convert_protection_def page_defs mm_prot_defs)
  ultimately show ?thesis
    using recommit_discards_page [OF commit_all_user [OF one_vad_user [of 0 0]] r(1) _ f(1,5,2,3,4) r(2) p, of True 0 0]
    by (simp add: a on_mm_def read_pte_def mm_fields)
qed

lemma committed_vm_table: "vad_root committed_vm = Some (commit_all 2 (one_vad 0 0))"
  by (simp add: committed_vm_def sample_vm_def)

lemma protect_hides_from_user_witness:
  "\<exists>old s'. nt_protect_virtual_memory 0 0 (Some 0x20000) (Some 0x10000) PAGE_READONLY (Some 0) committed_vm =
      Some (STATUS_SUCCESS, 0x20000, 0x10000, old, s') \<and> read_pte (vm_mm committed_vm) 0xFFFFF68000000100 AND PTE_USER \<noteq> 0 \<and>
    read_pte (vm_mm s') 0xFFFFF68000000100 AND PTE_VALID \<noteq> 0 \<and> read_pte (vm_mm s') 0xFFFFF68000000100 AND PTE_USER = 0"
proof -
  let ?t = "commit_all 2 (one_vad 0 0)"
  have v: "vads ?t 2 = mmvad_short_new\<lparr>starting_vpn := 0x20, ending_vpn := 0x2F, vad_flags := set_commit 0 True\<rparr>"
    by (simp add: one_vad_def commit_all_def vads_upd mmvad_short_new_def)
  have f: "mi_find_vad ?t 0x20000 = Some 2"
    using start_found(1) [OF commit_all_user [OF one_vad_user [of 0 0]], of 2 2] by (simp add: v start_address_def VPN_SHIFT_def)
  have s: "split_for 0 0 2 0x20 0x2F p ?t = Some (Inr (set_vad_protection 2 p ?t))" for p
    by (simp add: split_for_def Let_def v)
  have r: "page_range 0x20000 0x10000 = (0x20000, 0x30000)" by (simp add: page_range_def page_align_def page_align_up_def PAGE_MASK_def)
  have p: "is_valid_protection PAGE_READONLY" by (simp add: is_valid_protection_def page_defs)
  obtain old s' where c: "nt_protect_virtual_memory 0 0 (Some 0x20000) (Some 0x10000) PAGE_READONLY (Some 0) committed_vm =
      Some (STATUS_SUCCESS, 0x20000, 0x10000, old, s')"
    by (simp add: nt_protect_virtual_memory_def p committed_vm_table mi_protect_virtual_memory_internal_def r f VPN_SHIFT_def v s Let_def)
  have b: "read_pte (vm_mm committed_vm) 0xFFFFF68000000100 = valid_pte 2 4"
    by (simp add: committed_vm_def read_pte_def mm_fields)
  have a: "mm_get_pte_address (0x20000 + of_nat 0 * 4096) = 0xFFFFF68000000100" by (simp add: mm_get_pte_address_def PTE_BASE_def)
  have u: "valid_pte 2 4 AND PTE_VALID \<noteq> 0" "valid_pte 2 4 AND PTE_USER \<noteq> 0"
    by (simp_all add: pte_bits) (simp_all add: valid_pte_def mi_software_protection_to_pte_def Let_def bit_or_iff PTE_VALID_def PTE_USER_def bit_numeral_rec)
  show ?thesis using protect_hides_from_user [OF c _ a] b c u by simp
qed

text \<open>
  A size near the top of the range passes for an empty one. With a size of \<open>2 ^ 64 - 1\<close> at an aligned user
  address the sum wraps, the region has no pages, and reserving it in a fresh address space succeeds:
  it reports a size of 0 and leaves a descriptor whose last page is below its first, which no lookup finds.
\<close>
theorem huge_reserve_succeeds:
  assumes "vad_root s = None" and "unat base mod 65536 = 0" and "65536 \<le> unat base" and "unat base < 2 ^ 47"
    and "is_valid_protection protect" and "v \<noteq> 0"
  shows "\<exists>t. nt_allocate_virtual_memory True v (Some base) zb (Some (- 1)) MEM_RESERVE protect s =
      Some (STATUS_SUCCESS, base, 0, s\<lparr>vad_root := Some t\<rparr>) \<and> root t = v \<and>
    ending_vpn (vads t v) < starting_vpn (vads t v) \<and> mi_find_vad t base = Some 0"
proof -
  have m: "MM_ALLOCATION_GRANULARITY - 1 = 2 ^ 16 - 1" by (simp add: MM_ALLOCATION_GRANULARITY_def)
  have al: "base AND NOT (MM_ALLOCATION_GRANULARITY - 1) = base"
    unfolding m and_not_low using assms(2) div_mult_mod_eq [of "unat base" 65536] by (simp add: word_unat_eq_iff unat_push_drop)
  have g: "given_range base (- 1) = (base, base - 1, 0)"
    by (simp add: given_range_def al page_align_up_def PAGE_MASK_def)
  have b: "base \<noteq> 0" using assms(3) by auto
  then have b1: "unat (base - 1) = unat base - 1" by (rule unat_minus_one)
  let ?lo = "drop_bit VPN_SHIFT base" and ?hi = "drop_bit VPN_SHIFT (base - 1)"
  have "unat base = unat base div 65536 * 16 * 4096" using assms(2) div_mult_mod_eq [of "unat base" 65536] by simp
  then obtain k where k: "unat base = k * 4096" by blast
  then have "unat (base - 1) < k * 4096" using b1 assms(3) by simp
  then have "unat (base - 1) div 4096 < k" by (rule less_mult_imp_div_less)
  then have lt: "?hi < ?lo"
    using k by (simp add: word_less_nat_alt VPN_SHIFT_def drop_bit_eq_div unat_div_distrib)
  have r: "\<not> base < MM_LOWEST_USER_ADDRESS" "\<not> MM_HIGHEST_USER_ADDRESS < base - 1"
    using assms(3,4) b1 by (simp_all add: word_less_nat_alt MM_LOWEST_USER_ADDRESS_def MM_HIGHEST_USER_ADDRESS_def)
  let ?w = "new_private_vad ?lo ?hi protect"
  define t where "t = (set_parent v 0 ((upd v reset_node (set_node v ?w empty_vads))\<lparr>root := v\<rparr>))\<lparr>node_count := 1\<rparr>"
  have i: "mi_insert_vad v (set_node v ?w empty_vads) = Some (STATUS_SUCCESS, t)"
    using assms(6) by (simp add: mi_insert_vad_def Let_def is_empty_def set_node_def empty_vads_def upd_def t_def)
  have t: "root t = v" "starting_vpn (vads t v) = ?lo" "ending_vpn (vads t v) = ?hi" "right_child (vads t v) = 0"
    by (simp_all add: t_def upd_def set_node_def reset_node_def new_private_vad_def)
  have e: "mi_find_vad empty_vads base = Some 0" "mi_check_vad_conflict empty_vads ?lo ?hi = Some False"
    by (simp_all add: mi_find_vad_def find_from.simps mi_check_vad_conflict_def is_empty_def empty_vads_def)
  have c: "reserve_region v base (base - 1) 0 protect False empty_vads (s\<lparr>vad_root := Some empty_vads\<rparr>) =
      Some (STATUS_SUCCESS, s\<lparr>vad_root := Some t\<rparr>)"
    using assms(6) e i by (simp add: reserve_region_def Let_def)
  have "nt_allocate_virtual_memory True v (Some base) zb (Some (- 1)) MEM_RESERVE protect s =
      Some (STATUS_SUCCESS, base, 0, s\<lparr>vad_root := Some t\<rparr>)"
    using assms(1,5) b r g c
    by (simp add: nt_allocate_virtual_memory_def mi_allocate_virtual_memory_internal_def MEM_RESERVE_def MEM_COMMIT_def)
  moreover have "mi_find_vad t base = Some 0"
    using lt by (simp add: mi_find_vad_def find_from.simps [of _ _ v] find_from.simps [of _ _ 0] t)
  ultimately show ?thesis using t(1-3) lt by auto
qed

lemma huge_reserve_succeeds_witness:
  "\<exists>t. nt_allocate_virtual_memory True 1 (Some 0x10000) 0 (Some (- 1)) MEM_RESERVE PAGE_READONLY
      (sample_vm empty_vads\<lparr>vad_root := None\<rparr>) = Some (STATUS_SUCCESS, 0x10000, 0, sample_vm empty_vads\<lparr>vad_root := Some t\<rparr>) \<and>
    mi_find_vad t 0x10000 = Some 0"
proof -
  have "is_valid_protection PAGE_READONLY" by (simp add: is_valid_protection_def page_defs)
  then show ?thesis
    using huge_reserve_succeeds [of "sample_vm empty_vads\<lparr>vad_root := None\<rparr>" "0x10000" PAGE_READONLY 1 0] by auto
qed

end
