(* ===== verification/Spec2Isabelle.thy ===== *)
theory Spec2Isabelle
  imports Cid AccessCheck KeWitness Locks WorkingSet VmProps
begin

text \<open>
  A verification library of XenOS, a kernel in Rust with the architecture of Windows NT. The
  library models the machine-independent core of \<open>src/kernel/ntoskrnl/src\<close>, one group of
  theories for each component, and proves what the components promise each other, or, where a
  component breaks its promise, exhibits an execution on which it does.

  \<^bold>\<open>The program.\<close> The executive keeps kernel objects in handle tables (\<open>ex/handle.rs\<close>); processes
  and threads get their ids from one such table (\<open>ps/cid.rs\<close>). The security monitor (\<open>se/\<close>) builds
  SIDs, ACLs, security descriptors and tokens as byte layouts in memory and decides accesses on
  them. The dispatcher (\<open>ke/\<close>) runs the threads of a processor by priority and blocks them on events,
  semaphores, mutants and timers. The memory manager (\<open>mm/\<close>) keeps the ranges of an address space in
  an AVL tree of descriptors (VADs), the state of each physical page in the frame database, and the
  state of each virtual page in its page table entry; faults and the virtual memory services move
  pages between these states.

  \<^bold>\<open>Conventions\<close> (\<open>XPrelude\<close>). A machine integer whose bits or overflow matter is a word of its
  width. An operation that may dereference outside an allocation or fail a check of the compiler
  returns an \<open>outcome\<close>: a value, \<open>Undef\<close> or \<open>Panic\<close>. A loop that may not end is a
  \<open>partial_function (option)\<close>, and that it ends is a theorem. State is passed explicitly in records
  that carry the names of the source's structures; raw byte layouts live in a flat memory (\<open>Mem\<close>)
  with little-endian loads and stores. The pool is an argument wherever it is asked: the address it
  returns, or whether it has memory. Definitions have the names of the functions they model.

  \<^bold>\<open>Handle tables.\<close> \<open>Handle\<close> models \<open>ex/handle.rs\<close>: the array of entries, the free list threaded through
  it, growing, creating, looking up and destroying handles. \<open>HandleInv\<close> has the invariant (the free
  list visits each free entry once) and its preservation. \<open>HandleSpec\<close> states the locale
  \<open>handle_store\<close>, a map from handles to objects with fresh handles, and interprets it on the code; a
  session of any length refines that map. \<open>Cid\<close> models \<open>ps/cid.rs\<close> as a client.

  \<^bold>\<open>Security.\<close> \<open>Sid\<close>, \<open>Acl\<close>, \<open>Sd\<close>, \<open>Priv\<close> and \<open>Token\<close> model \<open>se/sid.rs\<close>, \<open>se/acl.rs\<close>, \<open>se/sd.rs\<close>,
  \<open>se/priv_.rs\<close> and \<open>se/token/\<close> over the flat memory: what a walk over an ACL visits, what conversion
  of a descriptor and creation of a token preserve. \<open>AccessCheck\<close> models \<open>se/accesschk.rs\<close>,
  \<open>se/subject.rs\<close> and \<open>se/access_state.rs\<close>; the check is proved equal to a specification over the
  list of entries, and the integrity policy to be enforced.

  \<^bold>\<open>Dispatcher.\<close> \<open>KeState\<close> holds the state of one processor and its deferred queues. \<open>Sched\<close> and
  \<open>Dispatch\<close> model \<open>ke/sched.rs\<close>, \<open>ke/priority.rs\<close> and the switch; \<open>Objects\<close>, \<open>Timer\<close> and \<open>WaitFor\<close>
  model \<open>ke/event.rs\<close>, \<open>ke/semaphore.rs\<close>, \<open>ke/mutex.rs\<close>, \<open>ke/timer.rs\<close>, \<open>ke/time.rs\<close> and
  \<open>ke/wait.rs\<close>; \<open>KeInit\<close> the initial values. \<open>SchedInv\<close> states the invariant of the ready queues,
  \<open>SchedSpec\<close>, \<open>DispatchSpec\<close>, \<open>DispatchProps\<close> and \<open>DispatchLive\<close> show that every operation keeps it,
  returns, and loses no runnable thread; \<open>WaitSpec\<close> is the invariant of the wait lists. \<open>SchedProps\<close>
  and \<open>KeProps\<close> hold the properties, \<open>KeWitness\<close> a concrete state on which they apply. \<open>Locks\<close>
  models the spinning locks as interleaved atomic steps of any number of threads, with invariants
  by rule induction over the step relation.

  \<^bold>\<open>Virtual address descriptors.\<close> \<open>Vad\<close> models \<open>mm/vad.rs\<close> on a store of nodes linked by address.
  \<open>VadTree\<close> relates the store to a binary tree and shows what the rotations do to it, \<open>VadSpec\<close> and
  \<open>VadMap\<close> that the balanced tree is a map of disjoint ranges, \<open>VadGap\<close> that the traversals with an
  explicit stack are scans of the ranges in order. \<open>VadProps\<close> states the locale \<open>range_table\<close>,
  interprets it on the code, and holds the properties.

  \<^bold>\<open>Physical memory and faults.\<close> \<open>Pte\<close> models \<open>mm/pte.rs\<close>, \<open>Pfn\<close> the frame database \<open>mm/pfn.rs\<close>,
  \<open>Hyper\<close> the temporary mappings of \<open>mm/hyperspace.rs\<close>, \<open>PageThreads\<close> the zero page thread, the
  modified page writer and the filling of the database (\<open>mm/zero.rs\<close>, \<open>mm/mpw.rs\<close>, \<open>mm/init.rs\<close>).
  \<open>PfnSpec\<close> relates the chained entries to lists; the locale \<open>frame_mover\<close> is the contract of the two
  threads. \<open>PfnProps\<close> gathers the operations in a step relation and proves the invariant of its
  reachable states. \<open>PageFault\<close> models \<open>mm/pagefault.rs\<close> and \<open>FaultProps\<close> holds its properties;
  \<open>WorkingSet\<close> models \<open>mm/workingset.rs\<close>; \<open>VirtualMem\<close> models \<open>mm/virtual_mem.rs\<close>, and \<open>VmProps\<close> rests on
  the interpretation of \<open>range_table\<close> and on the frame invariant.

  \<^bold>\<open>Bounds and fuel.\<close> Three loops carry fuel, all in the dispatcher. The wait test gets one more than
  the length of the wait list, and \<open>WaitSpec\<close> shows it is never used up; the nesting of signalling and
  inserting a periodic timer is bounded by the depth of the kernel stack, an argument. The
  search of the ready queues runs over the 32 priorities. The traversals of the VAD tree keep a stack
  of 64 entries, as the source does; an AVL tree over the page numbers of the user address space
  is never that deep. Allocations of virtual memory run over as many pages as the source computes,
  wrapped or not.

  \<^bold>\<open>Hypotheses.\<close> Operations run to their end: the spinlock of the handle table, the dispatcher lock,
  the lock of the frame database and the lock of an address space make them atomic (the locks
  themselves are the subject of \<open>Locks\<close>). There is one processor; the source starts no other. What a
  theorem assumes of the state is the invariant of its component, which the operations are shown to
  keep, and each theorem with hypotheses has a witness on a concrete state.

  \<^bold>\<open>Not modelled.\<close> The object manager and the creation of processes and threads, which compose the
  modelled parts through function pointers and raw headers; sections, MDLs, the page file and the
  system PTEs; the pool allocator; the io and PnP managers; interrupt controllers, timers, ACPI and
  its AML interpreter, the debugger, the display (device registers and firmware data); assembly,
  descriptor tables, the translation buffer, register frames and address space switches;
  the drivers; the boot loader; the hive, PE and UEFI libraries, of which the last are
  vendored; the build tools. Of the modelled components the manifest lists what is left out.
\<close>

end
